(* ===== verification/Prelude.thy ===== *)
theory Prelude
  imports Complex_Main "HOL-Library.Multiset" "HOL-Library.Monad_Syntax" "HOL-Library.Word"
begin

text \<open>
  Shared vocabulary of the development: the numeric types of the Rust sources, the panic
  monad, monadic folds, hash iteration orders, and the generic lemmas the components use.

  \<^item> A panic (\<open>unwrap\<close> on \<open>None\<close>, \<open>expect\<close>, a failed \<open>assert!\<close>, an index out of range,
    an arithmetic overflow of a checked build) is the value \<open>None\<close> of the result; a
    function that returns has the value \<open>Some\<close>. The \<open>do\<close> notation of the option monad
    propagates it, as unwinding does.
  \<^item> \<open>u64\<close>, \<open>u32\<close> and \<open>usize\<close> are \<open>nat\<close> with the bounds written out, except where the
    source wraps around on purpose, which uses \<open>64 word\<close>.
  \<^item> \<open>f64\<close> is an exact rational. Where a result depends on rounding, infinities or NaN they are
    written out: rounding in theory \<open>Floats\<close>, the special values as a datatype in \<open>Disutility\<close>.
\<close>

section \<open>Numbers\<close>

type_synonym f64 = rat

definition u32_max :: nat where
  "u32_max = 4294967295"

definition u64_max :: nat where
  "u64_max = 18446744073709551615"

definition checked_add_u64 :: "nat \<Rightarrow> nat \<Rightarrow> nat option" where
  "checked_add_u64 a b = (if a + b \<le> u64_max then Some (a + b) else None)"

definition checked_mul_u64 :: "nat \<Rightarrow> nat \<Rightarrow> nat option" where
  "checked_mul_u64 a b = (if a * b \<le> u64_max then Some (a * b) else None)"

definition checked_sub_u64 :: "nat \<Rightarrow> nat \<Rightarrow> nat option" where
  "checked_sub_u64 a b = (if b \<le> a then Some (a - b) else None)"

definition saturating_add_u64 :: "nat \<Rightarrow> nat \<Rightarrow> nat" where
  "saturating_add_u64 a b = min (a + b) u64_max"

text \<open>The cast \<open>x as u64\<close> of a finite \<open>f64\<close>: truncation towards zero, saturating at the bounds.\<close>

definition f64_as_u64 :: "f64 \<Rightarrow> nat" where
  "f64_as_u64 x = min (nat \<lfloor>x\<rfloor>) u64_max"

lemma u64_max_pos [simp]: "0 < u64_max"
  by (simp add: u64_max_def)

lemma saturating_add_u64_bounds:
  "a \<le> u64_max \<Longrightarrow> a \<le> saturating_add_u64 a b" "saturating_add_u64 a b \<le> u64_max"
  by (auto simp: saturating_add_u64_def)

lemma f64_as_u64_le [simp]: "f64_as_u64 x \<le> u64_max"
  by (simp add: f64_as_u64_def)

section \<open>The panic monad\<close>

definition ensure :: "bool \<Rightarrow> unit option" where
  "ensure b = (if b then Some () else None)"

lemma ensure_eq_Some [simp]: "ensure b = Some u \<longleftrightarrow> b"
  by (simp add: ensure_def)

lemma ensure_simps [simp]: "ensure True = Some ()" "ensure False = None"
  by (simp_all add: ensure_def)

text \<open>Inversion of one successful monadic step, for use with \<open>dest\<close> and \<open>elim\<close>.\<close>

lemma bind_SomeE [elim!]:
  assumes "Option.bind m f = Some y"
  obtains x where "m = Some x" and "f x = Some y"
  using assms by (cases m) auto

named_theorems panic_free \<open>facts that an operation returns on the states the simulation reaches\<close>
named_theorems conservation \<open>facts that an operation neither loses nor duplicates an element\<close>
named_theorems frame \<open>fields an operation leaves unchanged\<close>

primrec foldM :: "('a \<Rightarrow> 's \<Rightarrow> 's option) \<Rightarrow> 'a list \<Rightarrow> 's \<Rightarrow> 's option" where
  "foldM f [] s = Some s"
| "foldM f (x # xs) s = do { s' \<leftarrow> f x s; foldM f xs s' }"

primrec mapM :: "('a \<Rightarrow> 'b option) \<Rightarrow> 'a list \<Rightarrow> 'b list option" where
  "mapM f [] = Some []"
| "mapM f (x # xs) = do { y \<leftarrow> f x; ys \<leftarrow> mapM f xs; Some (y # ys) }"

lemma foldM_append: "foldM f (xs @ ys) s = do { s' \<leftarrow> foldM f xs s; foldM f ys s' }"
  by (induction xs arbitrary: s) (auto split: Option.bind_split)

lemma foldM_inv:
  assumes "foldM f xs s = Some t" and "P s"
    and "\<And>x s s'. x \<in> set xs \<Longrightarrow> P s \<Longrightarrow> f x s = Some s' \<Longrightarrow> P s'"
  shows "P t"
  using assms
proof (induction xs arbitrary: s)
  case Nil
  then show ?case by simp
next
  case (Cons x xs)
  from Cons.prems(1) obtain s' where "f x s = Some s'" and rest: "foldM f xs s' = Some t"
    by auto
  then have "P s'" using Cons.prems(2,3) by (meson list.set_intros(1))
  with rest show ?case using Cons.prems(3) by (intro Cons.IH) auto
qed

text \<open>A fold whose every step adds the weight of its element to a quantity of the state.\<close>

lemma foldM_weight:
  fixes q :: "'s \<Rightarrow> 'm::comm_monoid_add"
  assumes "foldM f xs s = Some t" and "I s"
    and step: "\<And>x s s'. f x s = Some s' \<Longrightarrow> I s \<Longrightarrow> q s' = w x + q s \<and> I s'"
  shows "q t = sum_list (map w xs) + q s \<and> I t"
  using assms(1,2)
proof (induction xs arbitrary: s)
  case (Cons x xs)
  then obtain s1 where "f x s = Some s1" and "foldM f xs s1 = Some t" by auto
  then show ?case using Cons.IH[of s1] step[of x s s1] Cons.prems(2) by (simp add: ac_simps)
qed simp

lemma foldM_total:
  assumes "P s" and "\<And>x s. x \<in> set xs \<Longrightarrow> P s \<Longrightarrow> \<exists>s'. f x s = Some s' \<and> P s'"
  shows "\<exists>t. foldM f xs s = Some t \<and> P t"
  using assms
proof (induction xs arbitrary: s)
  case Nil
  then show ?case by simp
next
  case (Cons x xs)
  then obtain s' where "f x s = Some s'" "P s'" by (meson list.set_intros(1))
  then show ?case using Cons by simp
qed

lemma mapM_length: "mapM f xs = Some ys \<Longrightarrow> length ys = length xs"
  by (induction xs arbitrary: ys) auto

lemma mapM_total: "(\<And>x. x \<in> set xs \<Longrightarrow> f x \<noteq> None) \<Longrightarrow> mapM f xs \<noteq> None"
  by (induction xs) (auto split: Option.bind_split)

lemma mapM_append: "mapM f (xs @ ys) = do { a \<leftarrow> mapM f xs; b \<leftarrow> mapM f ys; Some (a @ b) }"
  by (induction xs) (auto split: Option.bind_split)

lemma mapM_list_all2: "mapM f xs = Some ys \<Longrightarrow> list_all2 (\<lambda>x y. f x = Some y) xs ys"
  by (induction xs arbitrary: ys) auto

lemma mapM_const: "(\<And>x. x \<in> set xs \<Longrightarrow> f x = Some y) \<Longrightarrow> mapM f xs = Some (replicate (length xs) y)"
  by (induction xs) auto

section \<open>Fallible results\<close>

text \<open>\<open>Result<T, E>\<close> is the sum \<open>'e + 'a\<close>, with \<open>Inl\<close> the error.\<close>

definition ok_or :: "'e \<Rightarrow> 'a option \<Rightarrow> 'e + 'a" where
  "ok_or e m = (case m of None \<Rightarrow> Inl e | Some x \<Rightarrow> Inr x)"

definition and_then :: "'e + 'a \<Rightarrow> ('a \<Rightarrow> 'e + 'b) \<Rightarrow> 'e + 'b" where
  "and_then r f = (case r of Inl e \<Rightarrow> Inl e | Inr x \<Rightarrow> f x)"

lemma ok_or_simps [simp]: "ok_or e None = Inl e" "ok_or e (Some x) = Inr x"
  by (simp_all add: ok_or_def)

lemma and_then_simps [simp]: "and_then (Inl e) f = Inl e" "and_then (Inr x) f = f x"
  by (simp_all add: and_then_def)

section \<open>Hash iteration order\<close>

text \<open>
  \<open>HashSet\<close>, \<open>HashMap\<close> and their \<open>nohash\<close> variants visit their elements in an order the
  program does not determine. Every definition that iterates over one takes the order as a
  parameter \<open>ord\<close>: a function from the (finite) set of keys to a list of them. What is
  documented of it, and all the theorems rely on, is the locale \<open>hash_order\<close>.
\<close>

locale hash_order =
  fixes ord :: "'k set \<Rightarrow> 'k list"
  assumes ord_set: "finite S \<Longrightarrow> set (ord S) = S"
    and ord_distinct: "finite S \<Longrightarrow> distinct (ord S)"
begin

lemma ord_length: "finite S \<Longrightarrow> length (ord S) = card S"
  using ord_set ord_distinct distinct_card by metis

lemma ord_mset: "finite S \<Longrightarrow> mset (ord S) = mset_set S"
  using ord_set ord_distinct mset_set_set by metis

lemma ord_empty [simp]: "ord {} = []"
  using ord_set[of "{}"] by simp

end

interpretation sorted_order: hash_order "sorted_list_of_set :: 'k::linorder set \<Rightarrow> 'k list"
  by unfold_locales simp_all

section \<open>Lists and multisets\<close>

lemma sum_list_filter_split:
  "sum_list (map f xs) = sum_list (map f (filter P xs)) + sum_list (map f (filter (\<lambda>x. \<not> P x) xs))"
  for f :: "'a \<Rightarrow> 'b::comm_monoid_add"
  by (induction xs) (auto simp: ac_simps)

lemma insort_key_map: "insort_key f (g x) (map g xs) = map g (insort_key (f \<circ> g) x xs)"
  by (induction xs) auto

lemma sort_key_map: "sort_key f (map g xs) = map g (sort_key (f \<circ> g) xs)"
  by (induction xs) (simp_all add: insort_key_map o_def)

lemma sum_list_mset_cong:
  "mset xs = mset ys \<Longrightarrow> sum_list (map f xs) = sum_list (map f ys)"
  for f :: "'a \<Rightarrow> 'b::comm_monoid_add"
  by (metis mset_map sum_mset_sum_list)

lemma mset_concat_map: "mset (concat (map f xs)) = (\<Sum>x\<in>#mset xs. mset (f x))"
  by (induction xs) simp_all

lemma sort_key_unique:
  assumes "mset xs = mset ys" "sorted (map k xs)" "sorted (map k ys)" "distinct (map k xs)"
  shows "xs = ys"
proof -
  have "map k xs = map k ys"
    using assms by (metis mset_map properties_for_sort)
  moreover have "inj_on k (set xs \<union> set ys)"
    using assms by (metis distinct_map mset_eq_setD sup.idem)
  ultimately show ?thesis by (rule map_inj_on)
qed

section \<open>Sums over maps\<close>

definition map_sum :: "('v \<Rightarrow> 'm::comm_monoid_add) \<Rightarrow> ('k \<rightharpoonup> 'v) \<Rightarrow> 'm" where
  "map_sum f m = (\<Sum>k \<in> dom m. f (the (m k)))"

lemma map_sum_remove:
  "finite (dom m) \<Longrightarrow> m k = Some v \<Longrightarrow> map_sum f m = f v + (\<Sum>j \<in> dom m - {k}. f (the (m j)))"
  unfolding map_sum_def by (subst sum.remove[of _ k]) auto

lemma map_sum_upd:
  assumes "finite (dom m)" and "m k = Some v"
  shows "map_sum f (m(k \<mapsto> v')) + f v = map_sum f m + f v'"
proof -
  have "(\<Sum>j \<in> dom (m(k \<mapsto> v')) - {k}. f (the ((m(k \<mapsto> v')) j))) = (\<Sum>j \<in> dom m - {k}. f (the (m j)))"
    using assms by (intro sum.cong) auto
  then show ?thesis
    using map_sum_remove[OF assms, of f] map_sum_remove[of "m(k \<mapsto> v')" k v' f] assms(1)
    by (simp add: ac_simps)
qed

lemma map_sum_upd_same:
  fixes f :: "'v \<Rightarrow> 'm::cancel_comm_monoid_add"
  assumes "finite (dom m)" and "m k = Some v" and "f v' = f v"
  shows "map_sum f (m(k \<mapsto> v')) = map_sum f m"
  using map_sum_upd[OF assms(1,2), of f v'] assms(3) by simp

lemma insert_dom [simp]: "m k = Some v \<Longrightarrow> insert k (dom m) = dom m"
  by auto

lemma dom_upd_same: "m k = Some v \<Longrightarrow> dom (m(k \<mapsto> v')) = dom m"
  by auto

lemma map_sum_insert:
  assumes "finite (dom m)" and "m k = None"
  shows "map_sum f (m(k \<mapsto> v)) = f v + map_sum f m"
proof -
  have "(\<Sum>j \<in> dom m. f (the ((m(k \<mapsto> v)) j))) = (\<Sum>j \<in> dom m. f (the (m j)))"
    using assms by (intro sum.cong) auto
  moreover have "k \<notin> dom m" using assms by auto
  ultimately show ?thesis using assms unfolding map_sum_def by (subst dom_fun_upd) simp
qed

lemma map_sum_empty [simp]: "map_sum f Map.empty = 0"
  by (simp add: map_sum_def)

end
