(* ===== verification/Decimal.thy ===== *)
theory Decimal
  imports Prelude
begin

text \<open>
  The text operations of the Rust standard library that the time formats use: decimal
  digits, \<open>to_string\<close>, the \<open>{:02}\<close> and \<open>{:09}\<close> paddings, \<open>split\<close>, \<open>split_once\<close>,
  \<open>trim_end_matches\<close> and \<open>str::parse::<u64>\<close>, with the lemmas that relate printing and
  reading.
\<close>

section \<open>Operations\<close>

definition is_ascii_digit :: "char \<Rightarrow> bool" where
  "is_ascii_digit c \<longleftrightarrow> 48 \<le> (of_char c :: nat) \<and> (of_char c :: nat) \<le> 57"

definition digit_char :: "nat \<Rightarrow> char" where
  "digit_char d = char_of (48 + d)"

definition digit_val :: "char \<Rightarrow> nat" where
  "digit_val c = of_char c - 48"

fun show_nat :: "nat \<Rightarrow> string" where
  "show_nat n = (if n < 10 then [digit_char n] else show_nat (n div 10) @ [digit_char (n mod 10)])"

declare show_nat.simps [simp del]

definition read_digits :: "string \<Rightarrow> nat" where
  "read_digits s = foldl (\<lambda>v c. 10 * v + digit_val c) 0 s"

definition pad_left :: "nat \<Rightarrow> string \<Rightarrow> string" where
  "pad_left w s = replicate (w - length s) CHR ''0'' @ s"

definition pad_right :: "nat \<Rightarrow> string \<Rightarrow> string" where
  "pad_right w s = s @ replicate (w - length s) CHR ''0''"

definition trim_end_matches :: "char \<Rightarrow> string \<Rightarrow> string" where
  "trim_end_matches c s = rev (dropWhile ((=) c) (rev s))"

text \<open>\<open>str::split\<close> with a character: never empty, one part more than there are separators.\<close>

fun split_char :: "char \<Rightarrow> string \<Rightarrow> string list" where
  "split_char c [] = [[]]"
| "split_char c (x # xs) =
     (if x = c then [] # split_char c xs
      else (case split_char c xs of [] \<Rightarrow> [[x]] | p # ps \<Rightarrow> (x # p) # ps))"

definition split_once :: "char \<Rightarrow> string \<Rightarrow> (string \<times> string) option" where
  "split_once c s = (if c \<in> set s then Some (takeWhile (\<lambda>x. x \<noteq> c) s, tl (dropWhile (\<lambda>x. x \<noteq> c) s))
                     else None)"

text \<open>\<open>u64::from_str\<close>: an optional plus sign, at least one digit, no overflow.\<close>

definition parse_digits :: "string \<Rightarrow> nat option" where
  "parse_digits s = (if s \<noteq> [] \<and> list_all is_ascii_digit s \<and> read_digits s \<le> u64_max
                     then Some (read_digits s) else None)"

definition parse_u64 :: "string \<Rightarrow> nat option" where
  "parse_u64 s = (case s of [] \<Rightarrow> None
                  | c # cs \<Rightarrow> if c = CHR ''+'' then parse_digits cs else parse_digits s)"

section \<open>Digits\<close>

lemma digit_char_of_char [simp]: "d < 10 \<Longrightarrow> (of_char (digit_char d) :: nat) = 48 + d"
  by (simp add: digit_char_def)

lemma is_ascii_digit_digit_char [simp]: "d < 10 \<Longrightarrow> is_ascii_digit (digit_char d)"
  by (simp add: is_ascii_digit_def)

lemma digit_val_digit_char [simp]: "d < 10 \<Longrightarrow> digit_val (digit_char d) = d"
  by (simp add: digit_val_def)

lemma digit_char_neq [simp]:
  assumes "d < 10"
  shows "digit_char d \<noteq> CHR '':''" "digit_char d \<noteq> CHR ''.''" "digit_char d \<noteq> CHR ''+''"
proof -
  have *: "digit_char d \<noteq> c" if "\<not> is_ascii_digit c" for c
    using that is_ascii_digit_digit_char[OF assms] by metis
  show "digit_char d \<noteq> CHR '':''" "digit_char d \<noteq> CHR ''.''" "digit_char d \<noteq> CHR ''+''"
    by (rule *, simp add: is_ascii_digit_def)+
qed

lemma is_ascii_digit_neq:
  assumes "is_ascii_digit c"
  shows "c \<noteq> CHR '':''" "c \<noteq> CHR ''.''" "c \<noteq> CHR ''+''"
proof -
  have *: "c \<noteq> d" if "\<not> is_ascii_digit d" for d
    using that assms by metis
  show "c \<noteq> CHR '':''" "c \<noteq> CHR ''.''" "c \<noteq> CHR ''+''"
    by (rule *, simp add: is_ascii_digit_def)+
qed

lemma zero_digit [simp]: "is_ascii_digit CHR ''0''" "digit_val CHR ''0'' = 0"
  by (simp_all add: is_ascii_digit_def digit_val_def)

lemma foldl_digits:
  "foldl (\<lambda>v c. 10 * v + digit_val c) a s = a * 10 ^ length s + read_digits s"
proof (induction s rule: rev_induct)
  case Nil
  then show ?case by (simp add: read_digits_def)
next
  case (snoc c s)
  have "read_digits (s @ [c]) = 10 * read_digits s + digit_val c"
    by (simp add: read_digits_def)
  with snoc show ?case by (simp add: algebra_simps)
qed

lemma read_digits_simps [simp]:
  "read_digits [] = 0"
  "read_digits (s @ t) = read_digits s * 10 ^ length t + read_digits t"
  "read_digits (c # s) = digit_val c * 10 ^ length s + read_digits s"
  using foldl_digits[of "read_digits s" t] foldl_digits[of "digit_val c" s]
  by (simp_all add: read_digits_def)

lemma read_digits_replicate [simp]: "read_digits (replicate k CHR ''0'') = 0"
  by (induction k) simp_all

lemma read_digits_less: "list_all is_ascii_digit s \<Longrightarrow> read_digits s < 10 ^ length s"
proof (induction s)
  case Nil
  then show ?case by simp
next
  case (Cons c s)
  then have "digit_val c * 10 ^ length s \<le> 9 * 10 ^ length s"
    by (intro mult_le_mono1) (auto simp: digit_val_def is_ascii_digit_def)
  moreover have "read_digits s < 10 ^ length s" using Cons by simp
  ultimately have "digit_val c * 10 ^ length s + read_digits s < 9 * 10 ^ length s + 10 ^ length s"
    by linarith
  then show ?case by simp
qed

section \<open>Printing and reading\<close>

lemma show_nat_nonempty [simp]: "show_nat n \<noteq> []"
  by (subst show_nat.simps) simp

lemma show_nat_digits [simp]: "list_all is_ascii_digit (show_nat n)"
proof (induction n rule: show_nat.induct)
  case (1 n)
  then show ?case by (subst show_nat.simps) (simp del: show_nat.simps)
qed

lemma read_show_nat [simp]: "read_digits (show_nat n) = n"
proof (induction n rule: show_nat.induct)
  case (1 n)
  show ?case
  proof (cases "n < 10")
    case True
    then show ?thesis by (subst show_nat.simps) simp
  next
    case False
    with "1.IH" have "read_digits (show_nat (n div 10)) = n div 10" by simp
    with False show ?thesis by (subst show_nat.simps) simp
  qed
qed

lemma length_show_nat: "n < 10 ^ k \<Longrightarrow> 0 < k \<Longrightarrow> length (show_nat n) \<le> k"
proof (induction n arbitrary: k rule: show_nat.induct)
  case (1 n)
  show ?case
  proof (cases "n < 10")
    case True
    then show ?thesis using "1.prems" by (subst show_nat.simps) simp
  next
    case False
    with "1.prems" obtain k' where k: "k = Suc k'" "0 < k'"
      by (cases k; cases "k - 1") auto
    then have "n div 10 < 10 ^ k'" using "1.prems" by (simp add: less_mult_imp_div_less mult.commute)
    with "1.IH" False k have "length (show_nat (n div 10)) \<le> k'" by blast
    with False k show ?thesis by (subst show_nat.simps) simp
  qed
qed

lemma pad_left_digits [simp]: "list_all is_ascii_digit s \<Longrightarrow> list_all is_ascii_digit (pad_left w s)"
  by (auto simp: pad_left_def list_all_iff)

lemma read_pad_left [simp]: "read_digits (pad_left w s) = read_digits s"
  by (simp add: pad_left_def)

lemma pad_left_nonempty [simp]: "s \<noteq> [] \<Longrightarrow> pad_left w s \<noteq> []"
  by (simp add: pad_left_def)

lemma length_pad_left: "length s \<le> w \<Longrightarrow> length (pad_left w s) = w"
  by (simp add: pad_left_def)

lemma list_all_digit_notin:
  assumes "list_all is_ascii_digit s"
  shows "CHR '':'' \<notin> set s" "CHR ''.'' \<notin> set s" "CHR ''+'' \<notin> set s"
proof -
  have *: "c \<notin> set s" if "\<not> is_ascii_digit c" for c
    using that assms unfolding list_all_iff by metis
  show "CHR '':'' \<notin> set s" "CHR ''.'' \<notin> set s" "CHR ''+'' \<notin> set s"
    by (rule *, simp add: is_ascii_digit_def)+
qed

lemma parse_u64_digits:
  assumes "list_all is_ascii_digit s" and "s \<noteq> []" and "read_digits s \<le> u64_max"
  shows "parse_u64 s = Some (read_digits s)"
proof -
  obtain c cs where s: "s = c # cs" using assms(2) by (cases s) auto
  have "c \<noteq> CHR ''+''" using list_all_digit_notin(3)[OF assms(1)] s by auto
  then show ?thesis using assms s by (simp add: parse_u64_def parse_digits_def)
qed

lemma parse_u64_bound: "parse_u64 s = Some n \<Longrightarrow> n \<le> u64_max"
  by (auto simp: parse_u64_def parse_digits_def split: list.splits if_splits)

lemma parse_u64_show [simp]: "n \<le> u64_max \<Longrightarrow> parse_u64 (show_nat n) = Some n"
  by (simp add: parse_u64_digits)

lemma parse_u64_pad [simp]: "n \<le> u64_max \<Longrightarrow> parse_u64 (pad_left w (show_nat n)) = Some n"
  by (simp add: parse_u64_digits)

lemma split_char_notin [simp]: "c \<notin> set s \<Longrightarrow> split_char c s = [s]"
  by (induction s) auto

lemma split_char_append [simp]: "c \<notin> set s \<Longrightarrow> split_char c (s @ c # t) = s # split_char c t"
  by (induction s) auto

lemma split_once_append [simp]: "c \<notin> set s \<Longrightarrow> split_once c (s @ c # t) = Some (s, t)"
proof -
  assume c: "c \<notin> set s"
  then have "takeWhile (\<lambda>x. x \<noteq> c) s = s" "dropWhile (\<lambda>x. x \<noteq> c) s = []"
    by (auto simp: takeWhile_eq_all_conv)
  with c show ?thesis
    by (auto simp: split_once_def takeWhile_append dropWhile_append)
qed

lemma split_once_notin [simp]: "c \<notin> set s \<Longrightarrow> split_once c s = None"
  by (simp add: split_once_def)

lemma trim_end_decompose: "\<exists>k. s = trim_end_matches c s @ replicate k c"
proof -
  have "rev s = takeWhile ((=) c) (rev s) @ dropWhile ((=) c) (rev s)" by simp
  then have "s = rev (dropWhile ((=) c) (rev s)) @ rev (takeWhile ((=) c) (rev s))"
    by (metis rev_append rev_rev_ident)
  moreover have "takeWhile ((=) c) (rev s) = replicate (length (takeWhile ((=) c) (rev s))) c"
    by (intro replicate_eqI) (auto dest: set_takeWhileD)
  ultimately show ?thesis
    unfolding trim_end_matches_def by (metis rev_replicate)
qed

lemma trim_end_append:
  assumes "\<not> list_all ((=) c) t"
  shows "trim_end_matches c (s @ t) = s @ trim_end_matches c t"
proof -
  obtain x where "x \<in> set (rev t)" and "c \<noteq> x"
    using assms unfolding list_all_iff by auto
  then have "dropWhile ((=) c) (rev t @ rev s) = dropWhile ((=) c) (rev t) @ rev s"
    by (rule dropWhile_append1)
  then show ?thesis by (simp add: trim_end_matches_def)
qed

text \<open>Reading the trimmed fraction, padded again on the right, gives the fraction back.\<close>

lemma pad_right_trim:
  assumes "length s = w"
  shows "pad_right w (trim_end_matches CHR ''0'' s) = s"
proof -
  obtain k where k: "s = trim_end_matches CHR ''0'' s @ replicate k CHR ''0''"
    using trim_end_decompose by blast
  then have "length s = length (trim_end_matches CHR ''0'' s) + k"
    by (metis length_append length_replicate)
  with assms k show ?thesis by (metis add_diff_cancel_left' pad_right_def)
qed

lemma trim_end_digits:
  "list_all is_ascii_digit s \<Longrightarrow> list_all is_ascii_digit (trim_end_matches c s)"
  by (auto simp: trim_end_matches_def list_all_iff dest: set_dropWhileD)

lemma trim_end_length: "length (trim_end_matches c s) \<le> length s"
  using length_dropWhile_le[of "(=) c" "rev s"] by (simp add: trim_end_matches_def)

lemma trim_end_Nil_iff: "trim_end_matches c s = [] \<longleftrightarrow> list_all ((=) c) s"
  by (simp add: trim_end_matches_def list_all_iff dropWhile_eq_Nil_conv)

lemma read_digits_all_zero: "list_all ((=) CHR ''0'') s \<Longrightarrow> read_digits s = 0"
  by (induction s) auto

end
