(* ===== verification/Sim_Time.thy ===== *)
theory Sim_Time
  imports Decimal
begin

text \<open>
  Model of \<open>simulation/time/mod.rs\<close>: discrete ticks, the nanosecond clock time \<open>SimTime\<close>,
  the text formats of times, and the \<open>SimClock\<close> that converts between ticks and times.

  \<open>Tick\<close> wraps a \<open>u64\<close> and is its value here; \<open>SimTime\<close> wraps a \<open>Duration\<close> of at most
  \<open>u64::MAX\<close> nanoseconds and is that number of nanoseconds; a \<open>Duration\<close> is its number of
  nanoseconds, bounded by \<open>duration_max\<close>; a \<open>SimClock\<close> is its positive number of ticks per
  second. Conversions that panic give \<open>None\<close>, parsers that fail give \<open>Inl\<close> with the message.
\<close>

type_synonym tick = nat
type_synonym duration = nat
type_synonym sim_time = nat
type_synonym sim_clock = nat

section \<open>Ticks\<close>

definition tick_next :: "tick \<Rightarrow> tick" where
  "tick_next t = saturating_add_u64 t 1"

definition tick_is_multiple_of :: "tick \<Rightarrow> nat \<Rightarrow> bool" where
  "tick_is_multiple_of t rhs = (if rhs = 0 then t = 0 else t mod rhs = 0)"

definition tick_checked_add :: "tick \<Rightarrow> tick \<Rightarrow> tick option" where
  "tick_checked_add t rhs = checked_add_u64 t rhs"

definition tick_saturating_add :: "tick \<Rightarrow> tick \<Rightarrow> tick" where
  "tick_saturating_add t rhs = saturating_add_u64 t rhs"

definition tick_saturating_sub :: "tick \<Rightarrow> tick \<Rightarrow> tick" where
  "tick_saturating_sub t rhs = t - rhs"

text \<open>The operators \<open>+\<close> and \<open>-\<close> on ticks panic on overflow.\<close>

definition tick_add :: "tick \<Rightarrow> tick \<Rightarrow> tick option" where
  "tick_add t rhs = checked_add_u64 t rhs"

definition tick_sub :: "tick \<Rightarrow> tick \<Rightarrow> tick option" where
  "tick_sub t rhs = checked_sub_u64 t rhs"

section \<open>Simulation time\<close>

definition nanos_per_second :: nat where
  "nanos_per_second = 1000000000"

definition duration_max :: duration where
  "duration_max = u64_max * nanos_per_second + 999999999"

definition duration_from_secs :: "nat \<Rightarrow> duration" where
  "duration_from_secs s = s * nanos_per_second"

definition duration_as_secs_f64 :: "duration \<Rightarrow> f64" where
  "duration_as_secs_f64 d = of_nat d / of_nat nanos_per_second"

definition assert_duration_fits_simtime :: "duration \<Rightarrow> unit option" where
  "assert_duration_fits_simtime d = ensure (d \<le> u64_max)"

definition simtime_max :: sim_time where
  "simtime_max = u64_max"

definition from_duration :: "duration \<Rightarrow> sim_time option" where
  "from_duration d = do { _ \<leftarrow> assert_duration_fits_simtime d; Some d }"

definition from_millis :: "nat \<Rightarrow> sim_time option" where
  "from_millis ms = from_duration (ms * 1000000)"

definition from_nanos :: "nat \<Rightarrow> sim_time" where
  "from_nanos n = n"

definition from_secs :: "nat \<Rightarrow> sim_time option" where
  "from_secs s = from_duration (duration_from_secs s)"

definition as_nanos :: "sim_time \<Rightarrow> nat" where
  "as_nanos t = t"

definition as_millis :: "sim_time \<Rightarrow> nat" where
  "as_millis t = t div 1000000"

definition as_secs :: "sim_time \<Rightarrow> nat" where
  "as_secs t = t div nanos_per_second"

definition duration_since :: "sim_time \<Rightarrow> sim_time \<Rightarrow> duration" where
  "duration_since t earlier = t - earlier"

definition simtime_saturating_add :: "sim_time \<Rightarrow> duration \<Rightarrow> sim_time option" where
  "simtime_saturating_add t d = from_duration (min (t + d) duration_max)"

definition simtime_saturating_sub :: "sim_time \<Rightarrow> duration \<Rightarrow> sim_time option" where
  "simtime_saturating_sub t d = from_duration (t - d)"

section \<open>Parsing and printing\<close>

definition simtime_overflow_error :: "string \<Rightarrow> string" where
  "simtime_overflow_error src =
     ''SimTime overflow while converting '' @ src @
     '': values above u64::MAX nanoseconds are unsupported''"

definition checked_total_nanos :: "nat \<Rightarrow> nat \<Rightarrow> string + nat" where
  "checked_total_nanos seconds nanos =
     ok_or (simtime_overflow_error ''nanoseconds'')
       (do { whole_nanos \<leftarrow> checked_mul_u64 seconds nanos_per_second;
             checked_add_u64 whole_nanos nanos })"

definition normalize_nanos :: "string \<Rightarrow> string + nat" where
  "normalize_nanos input =
     (if input = [] \<or> 9 < length input \<or> \<not> list_all is_ascii_digit input
      then Inl ''expected 1-9 decimal digits for nanoseconds''
      else ok_or ''invalid nanoseconds'' (parse_u64 (pad_right 9 input)))"

definition normalize_nanos_truncate :: "string \<Rightarrow> string + nat" where
  "normalize_nanos_truncate input =
     (if input = [] \<or> \<not> list_all is_ascii_digit input
      then Inl ''expected decimal digits for nanoseconds''
      else ok_or ''invalid nanoseconds'' (parse_u64 (pad_right 9 (take 9 input))))"

definition parse_seconds_part :: "(string \<Rightarrow> string + nat) \<Rightarrow> string \<Rightarrow> string + (nat \<times> nat)" where
  "parse_seconds_part fraction part =
     (case split_once CHR ''.'' part of
        Some (seconds, nanos) \<Rightarrow>
          and_then (ok_or ''invalid seconds'' (parse_u64 seconds)) (\<lambda>seconds.
          and_then (fraction nanos) (\<lambda>nanos. Inr (seconds, nanos)))
      | None \<Rightarrow> and_then (ok_or ''invalid seconds'' (parse_u64 part)) (\<lambda>seconds. Inr (seconds, 0)))"

definition parse_total_seconds :: "nat \<Rightarrow> nat \<Rightarrow> nat \<Rightarrow> nat option" where
  "parse_total_seconds hours minutes seconds = do {
     total_minutes \<leftarrow> checked_mul_u64 hours 60;
     total_minutes \<leftarrow> checked_add_u64 total_minutes minutes;
     whole_seconds \<leftarrow> checked_mul_u64 total_minutes 60;
     checked_add_u64 whole_seconds seconds }"

definition simtime_parse :: "string \<Rightarrow> string + sim_time" where
  "simtime_parse input =
     (let parts = split_char CHR '':'' input in
      and_then (case parts of [] \<Rightarrow> Inl ''missing hours''
                | p # _ \<Rightarrow> ok_or ''invalid hours'' (parse_u64 p)) (\<lambda>hours.
      and_then (case tl parts of [] \<Rightarrow> Inl ''missing minutes''
                | p # _ \<Rightarrow> ok_or ''invalid minutes'' (parse_u64 p)) (\<lambda>minutes.
      and_then (case tl (tl parts) of [] \<Rightarrow> Inl ''missing seconds'' | p # _ \<Rightarrow> Inr p) (\<lambda>seconds_part.
      if tl (tl (tl parts)) \<noteq> [] then Inl ''too many ':' separators'' else
      and_then (parse_seconds_part normalize_nanos seconds_part) (\<lambda>(seconds, nanos).
      and_then (ok_or (simtime_overflow_error ''time components'')
                  (parse_total_seconds hours minutes seconds)) (\<lambda>total_seconds.
      and_then (checked_total_nanos total_seconds nanos) (\<lambda>total_nanos.
      Inr (from_nanos total_nanos))))))))"

definition parse_decimal_seconds :: "string \<Rightarrow> string + sim_time" where
  "parse_decimal_seconds input =
     and_then (parse_seconds_part normalize_nanos_truncate input) (\<lambda>(seconds, nanos).
     and_then (checked_total_nanos seconds nanos) (\<lambda>n. Inr (from_nanos n)))"

definition format_decimal_seconds :: "sim_time \<Rightarrow> string" where
  "format_decimal_seconds t =
     (let total_nanos = as_nanos t;
          seconds = total_nanos div nanos_per_second;
          nanos = total_nanos mod nanos_per_second
      in if nanos = 0 then show_nat seconds
         else trim_end_matches CHR ''0'' (show_nat seconds @ ''.'' @ pad_left 9 (show_nat nanos)))"

definition format_hh_mm_ss_trimmed :: "sim_time \<Rightarrow> string" where
  "format_hh_mm_ss_trimmed t =
     (let total_nanos = as_nanos t;
          total_seconds = total_nanos div nanos_per_second;
          nanos = total_nanos mod nanos_per_second;
          hours = total_seconds div 3600;
          minutes = (total_seconds mod 3600) div 60;
          seconds = total_seconds mod 60;
          hms = pad_left 2 (show_nat hours) @ '':'' @ pad_left 2 (show_nat minutes) @ '':'' @
                pad_left 2 (show_nat seconds)
      in if nanos = 0 then hms
         else trim_end_matches CHR ''0'' (hms @ ''.'' @ pad_left 9 (show_nat nanos)))"

section \<open>The simulation clock\<close>

definition clock_new :: "nat \<Rightarrow> sim_clock option" where
  "clock_new tps = do { _ \<leftarrow> ensure (tps \<noteq> 0); Some tps }"

text \<open>\<open>Duration::from_secs_f64\<close> rounds to the nearest nanosecond, ties to even.\<close>

definition tick_length :: "sim_clock \<Rightarrow> duration" where
  "tick_length tps =
     (let q = nanos_per_second div tps; r = nanos_per_second mod tps
      in if 2 * r < tps then q else if tps < 2 * r then q + 1 else if even q then q else q + 1)"

definition div_ceil :: "nat \<Rightarrow> nat \<Rightarrow> nat" where
  "div_ceil left right = left div right + (if left mod right = 0 then 0 else 1)"

definition time_to_tick :: "sim_clock \<Rightarrow> sim_time \<Rightarrow> tick option" where
  "time_to_tick tps t =
     (let ticks = div_ceil (as_nanos t * tps) nanos_per_second
      in do { _ \<leftarrow> ensure (ticks \<le> u64_max); Some ticks })"

definition tick_to_time :: "sim_clock \<Rightarrow> tick \<Rightarrow> sim_time option" where
  "tick_to_time tps k =
     (let nanos = k * nanos_per_second div tps
      in do { _ \<leftarrow> ensure (nanos \<le> u64_max); Some (from_nanos nanos) })"

definition secs_to_tick :: "sim_clock \<Rightarrow> nat \<Rightarrow> tick option" where
  "secs_to_tick tps s = do { t \<leftarrow> from_secs s; time_to_tick tps t }"

definition tick_to_secs :: "sim_clock \<Rightarrow> tick \<Rightarrow> nat option" where
  "tick_to_secs tps k = map_option as_secs (tick_to_time tps k)"

definition secs_to_ticks_ceil :: "sim_clock \<Rightarrow> f64 \<Rightarrow> tick" where
  "secs_to_ticks_ceil tps seconds = f64_as_u64 (of_int \<lceil>seconds * of_nat tps\<rceil>)"

definition secs_to_ticks_floor :: "sim_clock \<Rightarrow> f64 \<Rightarrow> tick" where
  "secs_to_ticks_floor tps seconds = f64_as_u64 (max (of_int \<lfloor>seconds * of_nat tps\<rfloor>) 0)"

section \<open>Ticks and times\<close>

lemma nps_pos [simp]: "0 < nanos_per_second"
  by (simp add: nanos_per_second_def)

lemma div_ceil_le_iff: "0 < n \<Longrightarrow> div_ceil m n \<le> k \<longleftrightarrow> m \<le> k * n"
proof -
  assume n: "0 < n"
  define q r where "q = m div n" and "r = m mod n"
  have m: "m = q * n + r" and r: "r < n"
    using n by (simp_all add: q_def r_def div_mult_mod_eq)
  show ?thesis
  proof (cases "r = 0")
    case True
    then have "div_ceil m n = q" by (simp add: div_ceil_def q_def r_def)
    then show ?thesis using n m True by simp
  next
    case False
    have "m \<le> k * n \<longleftrightarrow> q < k"
    proof
      assume "m \<le> k * n"
      then have "q * n < k * n" using m False by linarith
      then show "q < k" by simp
    next
      assume "q < k"
      then have "(q + 1) * n \<le> k * n" by (intro mult_le_mono1) simp
      then show "m \<le> k * n" using m r by (simp add: algebra_simps)
    qed
    moreover have "div_ceil m n = q + 1" using False by (simp add: div_ceil_def q_def r_def)
    ultimately show ?thesis by auto
  qed
qed

lemma time_to_tick_eq: "time_to_tick tps t = Some k \<longleftrightarrow>
    k = div_ceil (t * tps) nanos_per_second \<and> k \<le> u64_max"
  by (auto simp: time_to_tick_def as_nanos_def Let_def ensure_def split: if_splits)

lemma tick_to_time_eq: "tick_to_time tps k = Some t \<longleftrightarrow>
    t = k * nanos_per_second div tps \<and> t \<le> u64_max"
  by (auto simp: tick_to_time_def from_nanos_def Let_def ensure_def split: if_splits)

text \<open>
  C2. The two conversions of the clock are adjoint: a time falls at or before tick \<open>k\<close>
  exactly if it is at or before the clock time of \<open>k\<close>. In particular \<open>time_to_tick\<close> gives
  the first tick at which something due at the time can happen, never an earlier one.
\<close>

theorem clock_galois:
  assumes "0 < tps" and "time_to_tick tps t = Some j" and "tick_to_time tps k = Some s"
  shows "j \<le> k \<longleftrightarrow> t \<le> s"
proof -
  have "j \<le> k \<longleftrightarrow> t * tps \<le> k * nanos_per_second"
    using assms(2) by (simp add: time_to_tick_eq div_ceil_le_iff)
  also have "\<dots> \<longleftrightarrow> t \<le> k * nanos_per_second div tps"
    using assms(1) by (simp add: less_eq_div_iff_mult_less_eq)
  finally show ?thesis using assms(3) by (simp add: tick_to_time_eq)
qed

theorem clock_galois_witness:
  "time_to_tick 10 350000000 = Some 4 \<and> tick_to_time 10 4 = Some 400000000 \<and>
   ((4::nat) \<le> 4 \<longleftrightarrow> (350000000::nat) \<le> 400000000)"
proof -
  have a: "time_to_tick 10 350000000 = Some 4" and b: "tick_to_time 10 4 = Some 400000000"
    by (simp_all add: time_to_tick_eq tick_to_time_eq div_ceil_def nanos_per_second_def u64_max_def)
  show ?thesis using clock_galois[OF _ a b] a b by simp
qed

lemma div_ceil_mult_div:
  assumes "0 < tps" and "tps \<le> n"
  shows "div_ceil (k * n div tps * tps) n = k"
proof (rule antisym)
  have n: "0 < n" using assms by simp
  show "div_ceil (k * n div tps * tps) n \<le> k"
    using n by (simp add: div_ceil_le_iff)
  show "k \<le> div_ceil (k * n div tps * tps) n"
  proof (cases k)
    case 0
    then show ?thesis by simp
  next
    case (Suc j)
    have "\<not> div_ceil (k * n div tps * tps) n \<le> j"
    proof
      assume "div_ceil (k * n div tps * tps) n \<le> j"
      then have le: "k * n div tps * tps \<le> j * n" using n by (simp add: div_ceil_le_iff)
      have "k * n = k * n div tps * tps + k * n mod tps" by simp
      also have "\<dots> < j * n + tps"
        using le mod_less_divisor[OF assms(1), of "k * n"] by linarith
      also have "\<dots> \<le> k * n" using assms(2) Suc by simp
      finally show False by simp
    qed
    then show ?thesis using Suc by simp
  qed
qed

text \<open>
  Ticks survive the trip through clock time: as long as the clock has at most one tick
  per nanosecond, converting a tick to its time and back gives the tick. (Beyond that rate
  several ticks share a nanosecond and the trip cannot be lossless.)
\<close>

theorem tick_time_roundtrip:
  assumes "0 < tps" and "tps \<le> nanos_per_second" and "k \<le> u64_max"
    and "tick_to_time tps k = Some t"
  shows "time_to_tick tps t = Some k"
  using assms div_ceil_mult_div[OF assms(1,2), of k]
  by (simp add: time_to_tick_eq tick_to_time_eq)

theorem tick_time_roundtrip_witness:
  "tick_to_time 3 5 = Some 1666666666 \<and> time_to_tick 3 1666666666 = Some 5"
proof -
  have a: "tick_to_time 3 5 = Some 1666666666"
    by (simp add: tick_to_time_eq nanos_per_second_def u64_max_def)
  have "time_to_tick 3 1666666666 = Some 5"
    by (rule tick_time_roundtrip[OF _ _ _ a]) (simp_all add: nanos_per_second_def u64_max_def)
  with a show ?thesis by simp
qed

lemma simtime_saturating_add_fits: "t + d \<le> simtime_max \<Longrightarrow> simtime_saturating_add t d = Some (t + d)"
  by (simp add: simtime_saturating_add_def from_duration_def assert_duration_fits_simtime_def simtime_max_def
      duration_max_def u64_max_def nanos_per_second_def)

text \<open>
  Adding a duration to a \<open>SimTime\<close> with \<open>saturating_add\<close> does not saturate: the sum is
  returned when it fits \<open>u64::MAX\<close> nanoseconds, and the call panics otherwise, since the
  saturation bound of \<open>Duration\<close> lies far above the bound that \<open>from_duration\<close> asserts.
\<close>

theorem simtime_saturating_add_spec:
  "simtime_saturating_add t d = (if t + d \<le> u64_max then Some (t + d) else None)"
  by (auto simp: simtime_saturating_add_def from_duration_def assert_duration_fits_simtime_def
      duration_max_def u64_max_def nanos_per_second_def min_def)

section \<open>Text round trips\<close>

lemma checked_total_nanos_div_mod:
  "t \<le> u64_max \<Longrightarrow>
   checked_total_nanos (t div nanos_per_second) (t mod nanos_per_second) = Inr t"
  using div_mult_mod_eq[of t nanos_per_second] div_times_less_eq_dividend[of t nanos_per_second]
    le_trans[of "t div nanos_per_second * nanos_per_second" t u64_max]
  by (simp add: checked_total_nanos_def checked_mul_u64_def checked_add_u64_def)

lemma show_nanos:
  assumes "nanos < nanos_per_second" "nanos \<noteq> 0"
  defines "p \<equiv> pad_left 9 (show_nat nanos)"
  shows "length p = 9" "list_all is_ascii_digit p" "read_digits p = nanos"
    and "\<not> list_all ((=) CHR ''0'') p"
proof -
  have "length (show_nat nanos) \<le> 9"
    using assms by (intro length_show_nat) (simp_all add: nanos_per_second_def)
  then show "length p = 9" unfolding p_def by (rule length_pad_left)
  show "list_all is_ascii_digit p" "read_digits p = nanos" by (simp_all add: p_def)
  with assms(2) show "\<not> list_all ((=) CHR ''0'') p" using read_digits_all_zero by metis
qed

lemma normalize_trimmed:
  assumes "nanos < nanos_per_second" "nanos \<noteq> 0"
  defines "q \<equiv> trim_end_matches CHR ''0'' (pad_left 9 (show_nat nanos))"
  shows "normalize_nanos q = Inr nanos" "normalize_nanos_truncate q = Inr nanos"
    and "CHR ''.'' \<notin> set q" "CHR '':'' \<notin> set q"
proof -
  note p = show_nanos[OF assms(1,2)]
  have len: "length q \<le> 9" using trim_end_length p(1) unfolding q_def by metis
  have dig: "list_all is_ascii_digit q" unfolding q_def by (rule trim_end_digits[OF p(2)])
  have ne: "q \<noteq> []" using p(4) unfolding q_def trim_end_Nil_iff by simp
  have "pad_right 9 q = pad_left 9 (show_nat nanos)"
    unfolding q_def by (rule pad_right_trim[OF p(1)])
  moreover have "nanos \<le> u64_max" using assms by (simp add: nanos_per_second_def u64_max_def)
  ultimately have "parse_u64 (pad_right 9 q) = Some nanos" by simp
  with len dig ne show "normalize_nanos q = Inr nanos" "normalize_nanos_truncate q = Inr nanos"
    by (simp_all add: normalize_nanos_def normalize_nanos_truncate_def)
  show "CHR ''.'' \<notin> set q" "CHR '':'' \<notin> set q"
    using list_all_digit_notin[OF dig] by blast+
qed

lemma dot_append: "s @ ''.'' @ t = s @ CHR ''.'' # t"
  by simp

lemma trim_fraction:
  assumes "nanos < nanos_per_second" "nanos \<noteq> 0"
  shows "trim_end_matches CHR ''0'' (s @ ''.'' @ pad_left 9 (show_nat nanos)) =
         s @ CHR ''.'' # trim_end_matches CHR ''0'' (pad_left 9 (show_nat nanos))"
  using trim_end_append[OF show_nanos(4)[OF assms], of "s @ ''.''"] by simp

lemma digits_notin [simp]:
  "CHR '':'' \<notin> set (show_nat n)" "CHR ''.'' \<notin> set (show_nat n)"
  "CHR '':'' \<notin> set (pad_left w (show_nat n))" "CHR ''.'' \<notin> set (pad_left w (show_nat n))"
  by (rule list_all_digit_notin, simp)+

lemma parse_seconds_part_whole:
  "s \<le> u64_max \<Longrightarrow> parse_seconds_part f (show_nat s) = Inr (s, 0)"
  "s \<le> u64_max \<Longrightarrow> parse_seconds_part f (pad_left w (show_nat s)) = Inr (s, 0)"
  by (simp_all add: parse_seconds_part_def)

lemma parse_seconds_part_fraction:
  "s \<le> u64_max \<Longrightarrow> f q = Inr n \<Longrightarrow>
   parse_seconds_part f (show_nat s @ CHR ''.'' # q) = Inr (s, n)"
  "s \<le> u64_max \<Longrightarrow> f q = Inr n \<Longrightarrow>
   parse_seconds_part f (pad_left w (show_nat s) @ CHR ''.'' # q) = Inr (s, n)"
  by (simp_all add: parse_seconds_part_def)

lemma div_le_u64: "t \<le> u64_max \<Longrightarrow> t div k \<le> u64_max"
  by (rule le_trans[OF div_le_dividend])

text \<open>
  Every time prints as decimal seconds and parses back to itself: \<open>format_decimal_seconds\<close>
  followed by \<open>parse_decimal_seconds\<close> is the identity on all representable times.
\<close>

theorem decimal_seconds_roundtrip:
  assumes "t \<le> u64_max"
  shows "parse_decimal_seconds (format_decimal_seconds t) = Inr t"
proof -
  define s n where "s = t div nanos_per_second" and "n = t mod nanos_per_second"
  have s: "s \<le> u64_max" using assms by (simp add: s_def div_le_u64)
  have n: "n < nanos_per_second" by (simp add: n_def)
  have total: "checked_total_nanos s n = Inr t"
    using checked_total_nanos_div_mod[OF assms] by (simp add: s_def n_def)
  show ?thesis
  proof (cases "n = 0")
    case True
    then have "format_decimal_seconds t = show_nat s"
      by (simp add: format_decimal_seconds_def as_nanos_def s_def n_def Let_def)
    with s total True show ?thesis
      by (simp add: parse_decimal_seconds_def parse_seconds_part_whole from_nanos_def)
  next
    case False
    let ?q = "trim_end_matches CHR ''0'' (pad_left 9 (show_nat n))"
    have "format_decimal_seconds t = show_nat s @ CHR ''.'' # ?q"
      using False trim_fraction[OF n False, of "show_nat s"]
      by (simp add: format_decimal_seconds_def as_nanos_def s_def n_def Let_def)
    with s total normalize_trimmed(2)[OF n False] show ?thesis
      by (simp add: parse_decimal_seconds_def parse_seconds_part_fraction from_nanos_def)
  qed
qed

theorem decimal_seconds_roundtrip_witness:
  "parse_decimal_seconds (format_decimal_seconds 42120000000) = Inr 42120000000"
  by (rule decimal_seconds_roundtrip) (simp add: u64_max_def)

lemma parse_total_seconds_hms:
  assumes "s \<le> u64_max"
  shows "parse_total_seconds (s div 3600) (s mod 3600 div 60) (s mod 60) = Some s"
proof -
  define h r where "h = s div 3600" and "r = s mod 3600"
  have s: "s = h * 3600 + r" by (simp add: h_def r_def)
  have r: "r = r div 60 * 60 + s mod 60"
    using mod_mod_cancel[of 60 3600 s] div_mult_mod_eq[of r 60] by (simp add: r_def)
  have "h * 60 \<le> s" "h * 60 + r div 60 \<le> s" "(h * 60 + r div 60) * 60 \<le> s"
    "(h * 60 + r div 60) * 60 + s mod 60 = s"
    using s r unfolding distrib_right mult.assoc by linarith+
  then show ?thesis unfolding h_def[symmetric] r_def[symmetric]
    using assms by (simp add: parse_total_seconds_def checked_mul_u64_def checked_add_u64_def)
qed

lemma simtime_parse_three:
  assumes "h \<le> u64_max" "m \<le> u64_max" "CHR '':'' \<notin> set sp"
  shows "simtime_parse (pad_left 2 (show_nat h) @ CHR '':'' # pad_left 2 (show_nat m) @ CHR '':'' # sp) =
     and_then (parse_seconds_part normalize_nanos sp) (\<lambda>(seconds, nanos).
     and_then (ok_or (simtime_overflow_error ''time components'')
                  (parse_total_seconds h m seconds)) (\<lambda>total_seconds.
     and_then (checked_total_nanos total_seconds nanos) (\<lambda>total_nanos.
     Inr (from_nanos total_nanos))))"
  using assms by (simp add: simtime_parse_def)

text \<open>
  C3. Every time prints as \<open>HH:MM:SS\<close>, with the fraction trimmed, and parses back to itself:
  \<open>format_hh_mm_ss_trimmed\<close> followed by \<open>parse\<close> is the identity on all representable times.
\<close>

theorem hh_mm_ss_roundtrip:
  assumes "t \<le> u64_max"
  shows "simtime_parse (format_hh_mm_ss_trimmed t) = Inr t"
proof -
  define s n where "s = t div nanos_per_second" and "n = t mod nanos_per_second"
  define h m sec where "h = s div 3600" and "m = s mod 3600 div 60" and "sec = s mod 60"
  let ?pre = "\<lambda>sp. pad_left 2 (show_nat h) @ CHR '':'' # pad_left 2 (show_nat m) @ CHR '':'' # sp"
  have s: "s \<le> u64_max" using assms by (simp add: s_def div_le_u64)
  have bounds: "h \<le> u64_max" "m \<le> u64_max" "sec \<le> u64_max"
    using s by (auto simp: h_def m_def sec_def div_le_u64 intro: le_trans[OF mod_less_eq_dividend])
  have n: "n < nanos_per_second" by (simp add: n_def)
  have total: "checked_total_nanos s n = Inr t" "parse_total_seconds h m sec = Some s"
    using checked_total_nanos_div_mod[OF assms] parse_total_seconds_hms[OF s]
    by (simp_all add: s_def n_def h_def m_def sec_def)
  show ?thesis
  proof (cases "n = 0")
    case True
    then have "format_hh_mm_ss_trimmed t = ?pre (pad_left 2 (show_nat sec))"
      by (simp add: format_hh_mm_ss_trimmed_def as_nanos_def s_def n_def h_def m_def sec_def Let_def)
    with bounds total True show ?thesis
      by (simp add: simtime_parse_three parse_seconds_part_whole from_nanos_def)
  next
    case False
    let ?q = "trim_end_matches CHR ''0'' (pad_left 9 (show_nat n))"
    have "format_hh_mm_ss_trimmed t = ?pre (pad_left 2 (show_nat sec) @ CHR ''.'' # ?q)"
      using False trim_fraction[OF n False, of "?pre (pad_left 2 (show_nat sec))"]
      by (simp add: format_hh_mm_ss_trimmed_def as_nanos_def s_def n_def h_def m_def sec_def Let_def)
    with bounds total normalize_trimmed[OF n False] show ?thesis
      by (simp add: simtime_parse_three parse_seconds_part_fraction from_nanos_def)
  qed
qed

theorem hh_mm_ss_roundtrip_witness:
  "simtime_parse (format_hh_mm_ss_trimmed 27015250000000) = Inr 27015250000000"
  by (rule hh_mm_ss_roundtrip) (simp add: u64_max_def)

end
