(* ===== verification/Bin_Heap.thy ===== *)
theory Bin_Heap
  imports Prelude
begin

text \<open>
  The priority queue contract the simulation relies on, and the binary heap of the Rust
  standard library (\<open>std::collections::BinaryHeap\<close>) as an array heap on a list. The time
  queues (\<open>simulation/time_queue.rs\<close>) and the cache of early messages
  (\<open>messaging/sim_communication/message_broker.rs\<close>) are clients of the contract.

  The comparison \<open>le a b\<close> is \<open>a \<le> b\<close> of the element type's \<open>Ord\<close> instance; a greatest
  element is on top. Elements that compare equal may be popped in any order, so the contract
  speaks of a greatest element only up to \<open>le\<close>.
\<close>

section \<open>The contract\<close>

locale total_preorder =
  fixes le :: "'a \<Rightarrow> 'a \<Rightarrow> bool"
  assumes le_total: "le x y \<or> le y x"
    and le_trans: "le x y \<Longrightarrow> le y z \<Longrightarrow> le x z"
begin

lemma le_refl [simp]: "le x x"
  using le_total by blast

lemma le_linear: "\<not> le x y \<Longrightarrow> le y x"
  using le_total by blast

end

locale prio_queue = total_preorder le for le :: "'a \<Rightarrow> 'a \<Rightarrow> bool" +
  fixes empty :: 'q
    and push :: "'a \<Rightarrow> 'q \<Rightarrow> 'q"
    and peek :: "'q \<Rightarrow> 'a option"
    and pop :: "'q \<Rightarrow> ('a \<times> 'q) option"
    and elems :: "'q \<Rightarrow> 'a multiset"
    and invar :: "'q \<Rightarrow> bool"
  assumes invar_empty: "invar empty" and elems_empty: "elems empty = {#}"
    and invar_push: "invar q \<Longrightarrow> invar (push x q)"
    and elems_push: "invar q \<Longrightarrow> elems (push x q) = add_mset x (elems q)"
    and pop_None: "invar q \<Longrightarrow> pop q = None \<longleftrightarrow> elems q = {#}"
    and pop_Some: "invar q \<Longrightarrow> pop q = Some (x, q') \<Longrightarrow> elems q = add_mset x (elems q') \<and> invar q'"
    and pop_greatest: "invar q \<Longrightarrow> pop q = Some (x, q') \<Longrightarrow> y \<in># elems q \<Longrightarrow> le y x"
    and peek_pop: "invar q \<Longrightarrow> peek q = map_option fst (pop q)"
begin

lemma peek_None: "invar q \<Longrightarrow> peek q = None \<longleftrightarrow> elems q = {#}"
  by (simp add: peek_pop pop_None)

lemma pop_size: "invar q \<Longrightarrow> pop q = Some (x, q') \<Longrightarrow> size (elems q) = Suc (size (elems q'))"
  using pop_Some by simp

lemma peek_SomeD:
  assumes "invar q" and "peek q = Some x"
  obtains q' where "pop q = Some (x, q')" and "invar q'" and "elems q = add_mset x (elems q')"
    and "\<And>y. y \<in># elems q \<Longrightarrow> le y x"
proof -
  obtain q' where "pop q = Some (x, q')"
    using assms peek_pop by fastforce
  then show ?thesis using that pop_Some pop_greatest assms(1) by blast
qed

end

section \<open>The array heap\<close>

type_synonym 'a heap = "'a list"

definition swap :: "'a list \<Rightarrow> nat \<Rightarrow> nat \<Rightarrow> 'a list" where
  "swap xs i j = xs[i := xs ! j, j := xs ! i]"

definition parent :: "nat \<Rightarrow> nat" where
  "parent i = (i - 1) div 2"

text \<open>
  \<open>sift_up\<close> and \<open>sift_down_to_bottom\<close> move a hole through the array; moving the hole by one
  position and writing the element back is an exchange of the two positions.
\<close>

function sift_up :: "('a \<Rightarrow> 'a \<Rightarrow> bool) \<Rightarrow> 'a list \<Rightarrow> nat \<Rightarrow> 'a list" where
  "sift_up le xs pos =
     (if pos = 0 \<or> le (xs ! pos) (xs ! parent pos) then xs
      else sift_up le (swap xs pos (parent pos)) (parent pos))"
  by pat_completeness auto
termination
  by (relation "measure (\<lambda>(le, xs, pos). pos)") (auto simp: parent_def)

declare sift_up.simps [simp del]

definition greater_child :: "('a \<Rightarrow> 'a \<Rightarrow> bool) \<Rightarrow> 'a list \<Rightarrow> nat \<Rightarrow> nat" where
  "greater_child le xs child = (if le (xs ! child) (xs ! (child + 1)) then child + 1 else child)"

function sift_to_bottom :: "('a \<Rightarrow> 'a \<Rightarrow> bool) \<Rightarrow> 'a list \<Rightarrow> nat \<Rightarrow> 'a list \<times> nat" where
  "sift_to_bottom le xs pos =
     (let child = 2 * pos + 1 in
      if child + 1 < length xs then
        sift_to_bottom le (swap xs pos (greater_child le xs child)) (greater_child le xs child)
      else if child < length xs then (swap xs pos child, child)
      else (xs, pos))"
  by pat_completeness auto
termination
  by (relation "measure (\<lambda>(le, xs, pos). length xs - pos)") (auto simp: swap_def greater_child_def)

declare sift_to_bottom.simps [simp del]

definition heap_push :: "('a \<Rightarrow> 'a \<Rightarrow> bool) \<Rightarrow> 'a \<Rightarrow> 'a heap \<Rightarrow> 'a heap" where
  "heap_push le x h = sift_up le (h @ [x]) (length h)"

definition heap_peek :: "'a heap \<Rightarrow> 'a option" where
  "heap_peek h = (case h of [] \<Rightarrow> None | x # _ \<Rightarrow> Some x)"

definition heap_pop :: "('a \<Rightarrow> 'a \<Rightarrow> bool) \<Rightarrow> 'a heap \<Rightarrow> ('a \<times> 'a heap) option" where
  "heap_pop le h =
     (if h = [] then None
      else if length h = 1 then Some (hd h, [])
      else let (h', pos) = sift_to_bottom le ((butlast h)[0 := last h]) 0
           in Some (hd h, sift_up le h' pos))"

text \<open>\<open>BinaryHeap::drain\<close> yields the backing array in its own order.\<close>

definition heap_drain :: "'a heap \<Rightarrow> 'a list" where
  "heap_drain h = h"

definition heap_inv :: "('a \<Rightarrow> 'a \<Rightarrow> bool) \<Rightarrow> 'a heap \<Rightarrow> bool" where
  "heap_inv le h \<longleftrightarrow> (\<forall>i < length h. 0 < i \<longrightarrow> le (h ! i) (h ! parent i))"

section \<open>The array heap keeps its elements\<close>

lemma length_swap [simp]: "length (swap xs i j) = length xs"
  by (simp add: swap_def)

lemma mset_swap' [simp]: "i < length xs \<Longrightarrow> j < length xs \<Longrightarrow> mset (swap xs i j) = mset xs"
  unfolding swap_def by (rule mset_swap)

lemma nth_swap:
  "i < length xs \<Longrightarrow> j < length xs \<Longrightarrow> m < length xs \<Longrightarrow>
   swap xs i j ! m = (if m = i then xs ! j else if m = j then xs ! i else xs ! m)"
  by (auto simp: swap_def nth_list_update)

lemma parent_less: "0 < i \<Longrightarrow> parent i < i"
  by (auto simp: parent_def)

lemma parent_le: "parent i \<le> i"
  by (auto simp: parent_def)

lemma parent_child: "parent (2 * i + 1) = i" "parent (2 * i + 2) = i"
  by (simp_all add: parent_def)

lemma child_cases: "0 < j \<Longrightarrow> parent j = i \<Longrightarrow> j = 2 * i + 1 \<or> j = 2 * i + 2"
  by (auto simp: parent_def)

lemma mset_sift_up: "pos < length xs \<Longrightarrow> mset (sift_up le xs pos) = mset xs"
proof (induction le xs pos rule: sift_up.induct)
  case (1 le xs pos)
  then show ?case
    using le_less_trans[OF parent_le "1.prems"]
    by (subst sift_up.simps) auto
qed

lemma greater_child_cases:
  "greater_child le xs (2 * pos + 1) = 2 * pos + 1 \<or> greater_child le xs (2 * pos + 1) = 2 * pos + 2"
  by (simp add: greater_child_def)

lemma sift_to_bottom_two:
  assumes "2 * pos + 2 < length xs" and "c = greater_child le xs (2 * pos + 1)"
  shows "sift_to_bottom le xs pos = sift_to_bottom le (swap xs pos c) c"
  using assms by (subst sift_to_bottom.simps) simp

lemma sift_to_bottom_one:
  "2 * pos + 2 = length xs \<Longrightarrow> sift_to_bottom le xs pos = (swap xs pos (2 * pos + 1), 2 * pos + 1)"
  by (subst sift_to_bottom.simps) simp

lemma sift_to_bottom_none: "length xs < 2 * pos + 2 \<Longrightarrow> sift_to_bottom le xs pos = (xs, pos)"
  by (subst sift_to_bottom.simps) simp

lemmas sift_to_bottom_eqs = sift_to_bottom_two sift_to_bottom_one sift_to_bottom_none

lemma sift_to_bottom_props:
  assumes "pos < length xs" and "sift_to_bottom le xs pos = (ys, p)"
  shows "mset ys = mset xs \<and> p < length ys \<and> length ys = length xs"
  using assms
proof (induction "length xs - pos" arbitrary: xs pos rule: less_induct)
  case less
  define c where "c = greater_child le xs (2 * pos + 1)"
  have c: "c = 2 * pos + 1 \<or> c = 2 * pos + 2" unfolding c_def by (rule greater_child_cases)
  consider "2 * pos + 2 < length xs" | "2 * pos + 2 = length xs" | "length xs < 2 * pos + 2"
    by linarith
  then show ?case
  proof cases
    case 1
    then have "length (swap xs pos c) - c < length xs - pos" "c < length xs" "pos < length xs"
      using c by auto
    then show ?thesis
      using less.prems less.hyps[of "swap xs pos c" c] by (simp add: sift_to_bottom_two[OF 1 c_def])
  qed (use less.prems in \<open>auto simp: sift_to_bottom_eqs\<close>)
qed

lemma heap_pop_length:
  assumes "heap_pop le h = Some (x, h')"
  shows "length h = Suc (length h')"
proof (cases "length h = 1")
  case True
  with assms show ?thesis by (auto simp: heap_pop_def split: if_splits)
next
  case False
  with assms have "h \<noteq> []" by (auto simp: heap_pop_def)
  with False have len: "0 < length ((butlast h)[0 := last h])" by (cases h) auto
  obtain ys p where st: "sift_to_bottom le ((butlast h)[0 := last h]) 0 = (ys, p)" by fastforce
  with assms \<open>h \<noteq> []\<close> False have "h' = sift_up le ys p" by (simp add: heap_pop_def)
  then have "length h' = length (butlast h)"
    using sift_to_bottom_props[OF len st] mset_sift_up[of p ys le, THEN mset_eq_length] by simp
  with \<open>h \<noteq> []\<close> show ?thesis by (cases h) auto
qed

section \<open>The array heap implements the contract\<close>

text \<open>
  \<open>up_ok\<close>: the only defect is that the element at \<open>pos\<close> may be greater than its parent.
  \<open>hole_ok\<close>: the element at \<open>pos\<close> is arbitrary; its children do not exceed its parent.
\<close>

definition up_ok :: "('a \<Rightarrow> 'a \<Rightarrow> bool) \<Rightarrow> 'a list \<Rightarrow> nat \<Rightarrow> bool" where
  "up_ok le xs pos \<longleftrightarrow>
     (\<forall>i < length xs. 0 < i \<longrightarrow> i \<noteq> pos \<longrightarrow> le (xs ! i) (xs ! parent i)) \<and>
     (\<forall>i < length xs. 0 < i \<longrightarrow> 0 < pos \<longrightarrow> parent i = pos \<longrightarrow> le (xs ! i) (xs ! parent pos))"

definition hole_ok :: "('a \<Rightarrow> 'a \<Rightarrow> bool) \<Rightarrow> 'a list \<Rightarrow> nat \<Rightarrow> bool" where
  "hole_ok le xs pos \<longleftrightarrow>
     (\<forall>i < length xs. 0 < i \<longrightarrow> i \<noteq> pos \<longrightarrow> parent i \<noteq> pos \<longrightarrow> le (xs ! i) (xs ! parent i)) \<and>
     (\<forall>i < length xs. 0 < i \<longrightarrow> 0 < pos \<longrightarrow> parent i = pos \<longrightarrow> le (xs ! i) (xs ! parent pos))"

context total_preorder
begin

lemma up_ok_swap:
  assumes ok: "up_ok le xs pos" and pos: "pos < length xs" "0 < pos"
    and gt: "\<not> le (xs ! pos) (xs ! parent pos)"
  shows "up_ok le (swap xs pos (parent pos)) (parent pos)"
proof -
  let ?p = "parent pos" and ?ys = "swap xs pos (parent pos)"
  have p: "?p < pos" using pos(2) by (rule parent_less)
  then have pl: "?p < length xs" using pos by simp
  have up: "le (xs ! ?p) (xs ! pos)" using gt by (rule le_linear)
  have ys: "?ys ! k = (if k = pos then xs ! ?p else if k = ?p then xs ! pos else xs ! k)"
    if "k < length xs" for k using that pos(1) pl by (rule nth_swap[rotated 2])
  have a: "le (?ys ! i) (?ys ! parent i)" if i: "i < length xs" "0 < i" "i \<noteq> ?p" for i
  proof -
    have pi: "parent i < length xs" using i parent_le[of i] by linarith
    show ?thesis
    proof (cases "i = pos")
      case True
      then show ?thesis using ys i pi p pl up by simp
    next
      case False
      have old: "le (xs ! i) (xs ! parent i)"
        using ok i(1,2) False by (simp add: up_ok_def)
      consider "parent i = pos" | "parent i = ?p" | "parent i \<noteq> pos" "parent i \<noteq> ?p" by blast
      then show ?thesis
      proof cases
        case 1
        then have "le (xs ! i) (xs ! ?p)" using ok i pos by (simp add: up_ok_def)
        then show ?thesis using ys i pi 1 False p by simp
      next
        case 2
        then have "le (xs ! i) (xs ! pos)" using old up le_trans by metis
        then show ?thesis using ys i pi 2 False p by simp
      next
        case 3
        then show ?thesis using ys i pi False old by simp
      qed
    qed
  qed
  have b: "le (?ys ! i) (?ys ! parent ?p)"
    if i: "i < length xs" "0 < i" "0 < ?p" "parent i = ?p" for i
  proof -
    have pp: "parent ?p < ?p" using i(3) by (rule parent_less)
    have anc: "le (xs ! ?p) (xs ! parent ?p)" using ok pl i(3) p by (simp add: up_ok_def)
    have "i \<noteq> ?p" using parent_less[OF i(2)] i(4) by simp
    show ?thesis
    proof (cases "i = pos")
      case True
      then show ?thesis using ys i pl pp p anc by simp
    next
      case False
      have "le (xs ! i) (xs ! ?p)" using ok i False unfolding up_ok_def by metis
      then have "le (xs ! i) (xs ! parent ?p)" using anc le_trans by blast
      then show ?thesis using ys i pl pp p False \<open>i \<noteq> ?p\<close> by simp
    qed
  qed
  show ?thesis unfolding up_ok_def using a b by simp
qed

lemma sift_up_heap: "pos < length xs \<Longrightarrow> up_ok le xs pos \<Longrightarrow> heap_inv le (sift_up le xs pos)"
proof (induction pos arbitrary: xs rule: less_induct)
  case (less pos)
  show ?case
  proof (cases "pos = 0 \<or> le (xs ! pos) (xs ! parent pos)")
    case True
    with less.prems show ?thesis
      by (subst sift_up.simps) (auto simp: up_ok_def heap_inv_def)
  next
    case False
    then have "heap_inv le (sift_up le (swap xs pos (parent pos)) (parent pos))"
      using less.prems le_less_trans[OF parent_le less.prems(1)]
      by (intro less.IH up_ok_swap) (auto intro: parent_less)
    with False show ?thesis by (subst sift_up.simps) simp
  qed
qed

lemma hole_ok_swap:
  assumes ok: "hole_ok le xs pos" and c: "c < length xs" "0 < c" "parent c = pos"
    and max: "\<And>i. i < length xs \<Longrightarrow> 0 < i \<Longrightarrow> parent i = pos \<Longrightarrow> le (xs ! i) (xs ! c)"
  shows "hole_ok le (swap xs pos c) c"
proof -
  let ?ys = "swap xs pos c"
  have pc: "pos < c" using c parent_less by auto
  then have pos: "pos < length xs" using c by simp
  have ys: "?ys ! k = (if k = pos then xs ! c else if k = c then xs ! pos else xs ! k)"
    if "k < length xs" for k using that pos c(1) by (rule nth_swap[rotated 2])
  have a: "le (?ys ! i) (?ys ! parent i)"
    if i: "i < length xs" "0 < i" "i \<noteq> c" "parent i \<noteq> c" for i
  proof -
    have pi: "parent i < length xs" using i parent_le[of i] by linarith
    consider "i = pos" | "i \<noteq> pos" "parent i = pos" | "i \<noteq> pos" "parent i \<noteq> pos" by blast
    then show ?thesis
    proof cases
      case 1
      then have "le (xs ! c) (xs ! parent pos)" using ok c i by (simp add: hole_ok_def)
      moreover have "parent pos \<noteq> pos" using 1 parent_less[OF i(2)] by simp
      ultimately show ?thesis using ys i pi 1 pc by simp
    next
      case 2
      then show ?thesis using ys i pi max by simp
    next
      case 3
      then show ?thesis using ys i pi ok by (simp add: hole_ok_def)
    qed
  qed
  have b: "le (?ys ! i) (?ys ! parent c)"
    if i: "i < length xs" "0 < i" "parent i = c" for i
  proof -
    have "i \<noteq> c" "i \<noteq> pos" using i pc parent_less[of i] by auto
    moreover have "le (xs ! i) (xs ! c)" using ok i c pc \<open>i \<noteq> pos\<close> by (auto simp: hole_ok_def)
    ultimately show ?thesis using ys i c pos by simp
  qed
  show ?thesis unfolding hole_ok_def using a b by simp
qed

lemma hole_ok_bottom:
  assumes "hole_ok le xs pos" and "\<And>i. i < length xs \<Longrightarrow> 0 < i \<Longrightarrow> parent i \<noteq> pos"
  shows "up_ok le xs pos"
  using assms by (auto simp: up_ok_def hole_ok_def)

lemma sift_to_bottom_ok:
  assumes "pos < length xs" and "hole_ok le xs pos" and "sift_to_bottom le xs pos = (ys, p)"
  shows "up_ok le ys p"
  using assms
proof (induction "length xs - pos" arbitrary: xs pos rule: less_induct)
  case less
  let ?l = "2 * pos + 1"
  have child: "i = ?l \<or> i = ?l + 1" if "0 < i" "parent i = pos" for i
    using child_cases[OF that] by simp
  consider (two) "2 * pos + 2 < length xs" | (one) "2 * pos + 2 = length xs"
    | (none) "length xs < 2 * pos + 2"
    by linarith
  then show ?case
  proof cases
    case two
    define c where "c = greater_child le xs ?l"
    have c: "c < length xs" "0 < c" "parent c = pos" "pos < c"
      using two by (auto simp: c_def greater_child_def parent_def)
    have "le (xs ! i) (xs ! c)" if "i < length xs" "0 < i" "parent i = pos" for i
      using child[OF that(2,3)] le_linear by (auto simp: c_def greater_child_def)
    then have "hole_ok le (swap xs pos c) c"
      using hole_ok_swap less.prems c by blast
    moreover have "sift_to_bottom le (swap xs pos c) c = (ys, p)"
      using less.prems(3) sift_to_bottom_two[OF two c_def] by simp
    ultimately show ?thesis using c less.prems(1) by (intro less.hyps[of "swap xs pos c" c]) auto
  next
    case one
    then have c: "?l < length xs" "parent ?l = pos" by (auto simp: parent_def)
    have "hole_ok le (swap xs pos ?l) ?l"
    proof (rule hole_ok_swap)
      show "le (xs ! i) (xs ! ?l)" if "i < length xs" "0 < i" "parent i = pos" for i
        using child[OF that(2,3)] that(1) one by auto
    qed (use less.prems c in auto)
    then have "up_ok le (swap xs pos ?l) ?l"
    proof (rule hole_ok_bottom)
      show "parent i \<noteq> ?l" if "i < length (swap xs pos ?l)" "0 < i" for i
        using that one child_cases[OF that(2)] by fastforce
    qed
    moreover have "ys = swap xs pos ?l" "p = ?l"
      using less.prems(3) sift_to_bottom_one[OF one, of le] by auto
    ultimately show ?thesis by simp
  next
    case none
    have "up_ok le xs pos"
    proof (rule hole_ok_bottom[OF less.prems(2)])
      show "parent i \<noteq> pos" if "i < length xs" "0 < i" for i
        using that none child[OF that(2)] by auto
    qed
    with none less.prems(3) show ?thesis by (simp add: sift_to_bottom_none)
  qed
qed

lemma heap_root_greatest:
  assumes "heap_inv le h" and "i < length h"
  shows "le (h ! i) (h ! 0)"
  using assms(2)
proof (induction i rule: less_induct)
  case (less i)
  show ?case
  proof (cases "i = 0")
    case False
    then have "le (h ! i) (h ! parent i)" using assms less.prems by (simp add: heap_inv_def)
    moreover have "le (h ! parent i) (h ! 0)"
      using False less.prems by (intro less.IH) (auto intro: parent_less le_less_trans[OF parent_le])
    ultimately show ?thesis using le_trans by blast
  qed simp
qed

lemma heap_inv_push: "heap_inv le h \<Longrightarrow> heap_inv le (heap_push le x h)"
  unfolding heap_push_def
proof (rule sift_up_heap)
  assume h: "heap_inv le h"
  have "(h @ [x]) ! parent i = h ! parent i" if "i < length h" for i
    using that parent_le[of i] by (simp add: nth_append)
  moreover have "parent i \<noteq> length h" if "i < Suc (length h)" "0 < i" for i
    using that parent_less[of i] by simp
  ultimately show "up_ok le (h @ [x]) (length h)"
    using h by (auto simp: up_ok_def heap_inv_def nth_append)
qed simp

lemma hole_ok_replace_root:
  "heap_inv le h \<Longrightarrow> hole_ok le (h[0 := x]) 0"
  by (auto simp: hole_ok_def heap_inv_def)

lemma heap_inv_butlast: "heap_inv le h \<Longrightarrow> heap_inv le (butlast h)"
  using le_less_trans[OF parent_le] by (fastforce simp: heap_inv_def nth_butlast)

lemma heap_pop_long:
  assumes inv: "heap_inv le h" and len: "1 < length h"
  obtains h' where "heap_pop le h = Some (hd h, h')" "heap_inv le h'"
    "mset h = add_mset (hd h) (mset h')"
proof -
  let ?b = "(butlast h)[0 := last h]"
  obtain ys p where st: "sift_to_bottom le ?b 0 = (ys, p)" by fastforce
  have b0: "0 < length ?b" using len by simp
  have pop: "heap_pop le h = Some (hd h, sift_up le ys p)"
    using len st by (auto simp: heap_pop_def)
  have "hole_ok le ?b 0" using inv by (intro hole_ok_replace_root heap_inv_butlast)
  with b0 st have "up_ok le ys p" by (intro sift_to_bottom_ok)
  moreover have ys: "mset ys = mset ?b" "p < length ys"
    using sift_to_bottom_props[OF b0 st] by auto
  ultimately have "heap_inv le (sift_up le ys p)" by (intro sift_up_heap)
  moreover have "mset (sift_up le ys p) = mset ?b" using ys by (simp add: mset_sift_up)
  moreover have "mset h = add_mset (hd h) (mset ?b)"
  proof -
    obtain x y zs where h: "h = x # y # zs"
      using len by (metis One_nat_def Suc_less_eq length_Cons list.exhaust list.size(3) not_less_zero
          zero_less_Suc less_irrefl)
    have "mset (y # zs) = add_mset (last (y # zs)) (mset (butlast (y # zs)))"
      by (metis append_butlast_last_id list.distinct(1) mset.simps(2) mset_append union_mset_add_mset_right
          mset_zero_iff add.right_neutral mset_single_iff)
    then show ?thesis using h by simp
  qed
  ultimately show ?thesis using that pop by auto
qed

end

sublocale total_preorder \<subseteq> prio_queue le "[]" "heap_push le" heap_peek "heap_pop le" mset "heap_inv le"
proof
  fix q x q' y
  show "heap_inv le []" by (simp add: heap_inv_def)
  show "mset [] = {#}" by simp
  show "heap_inv le q \<Longrightarrow> heap_inv le (heap_push le x q)" by (rule heap_inv_push)
  show "mset (heap_push le x q) = add_mset x (mset q)"
    by (simp add: heap_push_def mset_sift_up)
  show "heap_inv le q \<Longrightarrow> heap_pop le q = None \<longleftrightarrow> mset q = {#}"
    by (auto simp: heap_pop_def Let_def split: prod.splits)
  have short: "heap_pop le [z] = Some (z, [])" for z by (simp add: heap_pop_def)
  have cases: "q = [] \<or> (\<exists>z. q = [z]) \<or> 1 < length q"
    by (cases q; cases "tl q") auto
  show *: "heap_inv le q \<Longrightarrow> heap_pop le q = Some (x, q') \<Longrightarrow>
      mset q = add_mset x (mset q') \<and> heap_inv le q'"
    using cases heap_pop_long[of q]
    by (auto simp: short) (auto simp: heap_pop_def heap_inv_def)
  have hd: "heap_pop le q = Some (x, q') \<Longrightarrow> q \<noteq> [] \<and> x = hd q"
    by (auto simp: heap_pop_def Let_def split: if_splits prod.splits)
  show "heap_inv le q \<Longrightarrow> heap_pop le q = Some (x, q') \<Longrightarrow> y \<in># mset q \<Longrightarrow> le y x"
    using hd heap_root_greatest[of q] by (auto simp: in_set_conv_nth hd_conv_nth)
  show "heap_peek q = map_option fst (heap_pop le q)"
    by (auto simp: heap_peek_def heap_pop_def Let_def split: list.splits prod.splits)
qed

end
