(* ===== verification/Time_Queue.thy ===== *)
theory Time_Queue
  imports Sim_Time Bin_Heap
begin

text \<open>
  Model of \<open>simulation/time_queue.rs\<close>: the queue of things that are due at a time, with
  insertion order among things due at the same time, and its mutable variant.

  The internal counter is a \<open>usize\<close> that the source increments with \<open>wrapping_add\<close>, so it is
  a \<open>64 word\<close> here. A value's \<open>end_time\<close> (trait \<open>EndTime\<close>) is a parameter of \<open>tq_add\<close>.
\<close>

record 'a entry =
  entry_end_time :: sim_time
  entry_order :: "64 word"
  entry_val :: 'a

text \<open>\<open>Ord for Entry\<close>: compared in reverse, by end time and then by order.\<close>

definition entry_le :: "'a entry \<Rightarrow> 'a entry \<Rightarrow> bool" where
  "entry_le self other \<longleftrightarrow>
     entry_end_time other < entry_end_time self \<or> entry_end_time other = entry_end_time self \<and> entry_order other \<le> entry_order self"

record 'a time_queue =
  tq_q :: "'a entry heap"
  tq_counter :: "64 word"

definition tq_new :: "'a time_queue" where
  "tq_new = \<lparr>tq_q = [], tq_counter = 0\<rparr>"

definition tq_add :: "('a \<Rightarrow> sim_time \<Rightarrow> sim_time) \<Rightarrow> 'a \<Rightarrow> sim_time \<Rightarrow> 'a time_queue \<Rightarrow> 'a time_queue" where
  "tq_add et v now tq =
     tq\<lparr>tq_q := heap_push entry_le \<lparr>entry_end_time = et v now, entry_order = tq_counter tq, entry_val = v\<rparr> (tq_q tq),
        tq_counter := tq_counter tq + 1\<rparr>"

text \<open>The loop of \<open>pop\<close>; \<open>peek\<close> and \<open>pop\<close> of the heap see the same element.\<close>

function pop_due :: "sim_time \<Rightarrow> 'a entry heap \<Rightarrow> 'a entry list \<times> 'a entry heap" where
  "pop_due now h =
     (case heap_pop entry_le h of
        None \<Rightarrow> ([], h)
      | Some (e, h') \<Rightarrow>
          if entry_end_time e \<le> now then (let (es, r) = pop_due now h' in (e # es, r)) else ([], h))"
  by pat_completeness auto
termination
  by (relation "measure (\<lambda>(now, h). length h)") (auto dest!: heap_pop_length)

declare pop_due.simps [simp del]

definition tq_pop :: "sim_time \<Rightarrow> 'a time_queue \<Rightarrow> 'a list \<times> 'a time_queue" where
  "tq_pop now tq = (let (es, h) = pop_due now (tq_q tq) in (map entry_val es, tq\<lparr>tq_q := h\<rparr>))"

definition tq_drain :: "'a time_queue \<Rightarrow> 'a list \<times> 'a time_queue" where
  "tq_drain tq = (map entry_val (heap_drain (tq_q tq)), tq\<lparr>tq_q := []\<rparr>)"

definition tq_len :: "'a time_queue \<Rightarrow> nat" where
  "tq_len tq = length (tq_q tq)"

text \<open>The values a queue holds, as a bag.\<close>

definition tq_vals :: "'a time_queue \<Rightarrow> 'a multiset" where
  "tq_vals tq = image_mset entry_val (mset (tq_q tq))"

section \<open>The mutable queue\<close>

record 'i value_wrap =
  wrap_id :: 'i
  wrap_end_time :: sim_time

record ('i, 'a) mut_time_queue =
  mtq_q :: "'i value_wrap time_queue"
  mtq_cache :: "'i \<rightharpoonup> 'a"

definition mtq_new :: "('i, 'a) mut_time_queue" where
  "mtq_new = \<lparr>mtq_q = tq_new, mtq_cache = Map.empty\<rparr>"

definition mtq_add :: "('a \<Rightarrow> 'i) \<Rightarrow> ('a \<Rightarrow> sim_time \<Rightarrow> sim_time) \<Rightarrow> 'a \<Rightarrow> sim_time \<Rightarrow>
    ('i, 'a) mut_time_queue \<Rightarrow> ('i, 'a) mut_time_queue" where
  "mtq_add ident et v now m =
     m\<lparr>mtq_q := tq_add (\<lambda>w _. wrap_end_time w) \<lparr>wrap_id = ident v, wrap_end_time = et v now\<rparr> now (mtq_q m),
       mtq_cache := (mtq_cache m)(ident v \<mapsto> v)\<rparr>"

fun take_all :: "'i value_wrap list \<Rightarrow> ('i \<rightharpoonup> 'a) \<Rightarrow> ('a list \<times> ('i \<rightharpoonup> 'a)) option" where
  "take_all [] c = Some ([], c)"
| "take_all (w # ws) c = do {
     v \<leftarrow> c (wrap_id w);
     (vs, c') \<leftarrow> take_all ws (c(wrap_id w := None));
     Some (v # vs, c') }"

definition mtq_pop :: "sim_time \<Rightarrow> ('i, 'a) mut_time_queue \<Rightarrow> ('a list \<times> ('i, 'a) mut_time_queue) option" where
  "mtq_pop now m =
     (let (ids, tq) = tq_pop now (mtq_q m)
      in do { (vs, c) \<leftarrow> take_all ids (mtq_cache m); Some (vs, m\<lparr>mtq_q := tq, mtq_cache := c\<rparr>) })"

definition mtq_iter_mut :: "('a \<Rightarrow> 'a) \<Rightarrow> ('i, 'a) mut_time_queue \<Rightarrow> ('i, 'a) mut_time_queue" where
  "mtq_iter_mut f m = m\<lparr>mtq_cache := map_option f \<circ> mtq_cache m\<rparr>"

section \<open>The queue refines a stable list\<close>

interpretation entry_heap: total_preorder "entry_le :: 'a entry \<Rightarrow> 'a entry \<Rightarrow> bool"
  by unfold_locales (auto simp: entry_le_def)

text \<open>Earlier in the order of the queue: the element that leaves first.\<close>

abbreviation before :: "'a entry \<Rightarrow> 'a entry \<Rightarrow> bool" where
  "before a b \<equiv> entry_le b a"

lemma pop_due_induct [consumes 1, case_names Stop Pop]:
  assumes "heap_inv entry_le h"
    and "\<And>h. heap_inv entry_le h \<Longrightarrow> (\<And>e. e \<in> set h \<Longrightarrow> now < entry_end_time e) \<Longrightarrow> P h ([], h)"
    and "\<And>h e h' es r. heap_inv entry_le h \<Longrightarrow> heap_pop entry_le h = Some (e, h') \<Longrightarrow>
       entry_end_time e \<le> now \<Longrightarrow> pop_due now h' = (es, r) \<Longrightarrow> P h' (es, r) \<Longrightarrow> P h (e # es, r)"
  shows "P h (pop_due now h)"
  using assms(1)
proof (induction "length h" arbitrary: h rule: less_induct)
  case less
  show ?case
  proof (cases "heap_pop entry_le h")
    case None
    then have "h = []" using entry_heap.pop_None[OF less.prems] by simp
    with None assms(2)[OF less.prems] show ?thesis by (subst pop_due.simps) simp
  next
    case (Some eh)
    obtain e h' where eh: "eh = (e, h')" by fastforce
    note pop = Some[unfolded eh]
    have greatest: "now < entry_end_time y" if "\<not> entry_end_time e \<le> now" "y \<in> set h" for y
      using entry_heap.pop_greatest[OF less.prems pop, of y] that by (auto simp: entry_le_def)
    obtain es r where rec: "pop_due now h' = (es, r)" by fastforce
    have inv: "heap_inv entry_le h'" using entry_heap.pop_Some[OF less.prems pop] by simp
    have "P h' (es, r)"
      using less.hyps[OF _ inv] heap_pop_length[OF pop] rec by simp
    then show ?thesis
      using pop rec greatest assms(2)[OF less.prems] assms(3)[OF less.prems pop _ rec]
      by (subst pop_due.simps) simp
  qed
qed

lemma pop_due_spec:
  assumes "heap_inv entry_le h"
  shows "case pop_due now h of (es, r) \<Rightarrow>
     heap_inv entry_le r \<and> mset h = mset es + mset r \<and> sorted_wrt before es \<and>
     (\<forall>e \<in> set es. entry_end_time e \<le> now) \<and> (\<forall>e \<in> set r. now < entry_end_time e)"
  using assms
proof (induction h rule: pop_due_induct)
  case (Stop h)
  then show ?case by simp
next
  case (Pop h e h' es r)
  from entry_heap.pop_Some[OF Pop(1,2)] have h: "mset h = add_mset e (mset h')" by simp
  have "before e y" if "y \<in> set es" for y
    using entry_heap.pop_greatest[OF Pop(1,2), of y] that Pop(5) h by (auto simp flip: set_mset_mset)
  with Pop h show ?case by simp
qed

text \<open>
  What the queue promises as long as its counter has not wrapped: the entries carry distinct
  orders below the counter. \<open>tq_abs\<close> lists the content in insertion order.
\<close>

definition tq_inv :: "'a time_queue \<Rightarrow> bool" where
  "tq_inv tq \<longleftrightarrow> heap_inv entry_le (tq_q tq) \<and> distinct (map entry_order (tq_q tq)) \<and>
     (\<forall>e \<in> set (tq_q tq). entry_order e < tq_counter tq)"

definition tq_abs :: "'a time_queue \<Rightarrow> (sim_time \<times> 'a) list" where
  "tq_abs tq = map (\<lambda>e. (entry_end_time e, entry_val e)) (sort_key entry_order (tq_q tq))"

text \<open>The abstract queue: due elements leave ordered by time, ties in insertion order.\<close>

definition stable_pop :: "sim_time \<Rightarrow> (sim_time \<times> 'a) list \<Rightarrow> 'a list" where
  "stable_pop now xs = map snd (sort_key fst (filter (\<lambda>(t, v). t \<le> now) xs))"

lemma sort_key_of_lex_sorted:
  assumes perm: "mset es = mset zs" and lex: "sorted_wrt before es"
    and zs: "sorted (map entry_order zs)" and dist: "distinct (map entry_order zs)"
  shows "sort_key entry_end_time zs = es"
proof (rule properties_for_sort_key[OF perm])
  show "sorted (map entry_end_time es)"
    using lex by (auto simp: sorted_wrt_map entry_le_def intro: sorted_wrt_mono_rel[rotated])
  fix e assume "e \<in> set es"
  let ?P = "\<lambda>x. entry_end_time e = entry_end_time x"
  have "sorted (map entry_order (filter ?P es))"
  proof -
    have "sorted_wrt before (filter ?P es)" using lex by (rule sorted_wrt_filter)
    then show ?thesis unfolding sorted_wrt_map
      by (rule sorted_wrt_mono_rel[rotated]) (auto simp: entry_le_def)
  qed
  moreover have "sorted (map entry_order (filter ?P zs))" "distinct (map entry_order (filter ?P zs))"
    using zs dist by (simp_all add: sorted_filter distinct_map_filter)
  moreover have "mset (filter ?P es) = mset (filter ?P zs)" using perm by simp
  ultimately show "filter ?P es = filter ?P zs"
    by (intro sort_key_unique[symmetric]) simp_all
qed

lemma word_less_plus_one: "n + 1 \<noteq> 0 \<Longrightarrow> n < n + 1" for n :: "64 word"
  by (simp add: word_less_nat_alt unatSuc add.commute[of n])

lemma tq_inv_new: "tq_inv tq_new"
  by (simp add: tq_inv_def tq_new_def heap_inv_def)

lemma tq_abs_new: "tq_abs tq_new = []"
  by (simp add: tq_abs_def tq_new_def)

lemma mset_tq_add:
  "mset (tq_q (tq_add et v now tq)) =
   add_mset \<lparr>entry_end_time = et v now, entry_order = tq_counter tq, entry_val = v\<rparr> (mset (tq_q tq))"
  by (simp add: tq_add_def heap_push_def mset_sift_up)

lemma tq_add_refines:
  assumes inv: "tq_inv tq" and nowrap: "tq_counter tq + 1 \<noteq> 0"
  shows "tq_inv (tq_add et v now tq) \<and> tq_abs (tq_add et v now tq) = tq_abs tq @ [(et v now, v)]"
proof -
  let ?e = "\<lparr>entry_end_time = et v now, entry_order = tq_counter tq, entry_val = v\<rparr>" and ?t = "tq_add et v now tq"
  have ms: "mset (tq_q ?t) = add_mset ?e (mset (tq_q tq))" by (rule mset_tq_add)
  then have set: "set (tq_q ?t) = insert ?e (set (tq_q tq))" by (metis set_mset_mset set_mset_add_mset_insert)
  have "mset (map entry_order (tq_q ?t)) = mset (tq_counter tq # map entry_order (tq_q tq))" using ms by simp
  moreover have "distinct (tq_counter tq # map entry_order (tq_q tq))"
    using inv by (auto simp: tq_inv_def)
  ultimately have dist: "distinct (map entry_order (tq_q ?t))" using mset_eq_imp_distinct_iff by blast
  have ctr: "tq_counter ?t = tq_counter tq + 1" by (simp add: tq_add_def)
  have "heap_inv entry_le (tq_q ?t)"
    using inv by (simp add: tq_inv_def tq_add_def entry_heap.heap_inv_push)
  moreover have "entry_order e < tq_counter ?t" if "e \<in> set (tq_q ?t)" for e
    using that inv word_less_plus_one[OF nowrap] unfolding set ctr tq_inv_def by force
  ultimately have 1: "tq_inv ?t" using dist by (simp add: tq_inv_def)
  have "sort_key entry_order (tq_q ?t) = sort_key entry_order (tq_q tq) @ [?e]"
  proof (rule sort_key_unique)
    show "sorted (map entry_order (sort_key entry_order (tq_q tq) @ [?e]))"
      using inv by (auto simp: tq_inv_def sorted_append)
    show "distinct (map entry_order (sort_key entry_order (tq_q ?t)))"
      using dist by (metis mset_eq_imp_distinct_iff mset_map mset_sort)
  qed (use ms in simp_all)
  then have "tq_abs ?t = tq_abs tq @ [(et v now, v)]" by (simp add: tq_abs_def)
  with 1 show ?thesis by simp
qed

lemma tq_pop_refines:
  assumes inv: "tq_inv tq" and pop: "tq_pop now tq = (vs, tq')"
  shows "tq_inv tq'" and "vs = stable_pop now (tq_abs tq)"
    and "tq_abs tq' = filter (\<lambda>(t, v). now < t) (tq_abs tq)"
proof -
  obtain es h where due: "pop_due now (tq_q tq) = (es, h)" by fastforce
  with pop have vs: "vs = map entry_val es" and tq': "tq' = tq\<lparr>tq_q := h\<rparr>" by (auto simp: tq_pop_def)
  have heap: "heap_inv entry_le h" and ms: "mset (tq_q tq) = mset es + mset h"
    and lex: "sorted_wrt before es" and le: "\<forall>e \<in> set es. entry_end_time e \<le> now"
    and gt: "\<forall>e \<in> set h. now < entry_end_time e"
    using pop_due_spec[of "tq_q tq" now] inv due by (auto simp: tq_inv_def)
  have "mset (map entry_order (es @ h)) = mset (map entry_order (tq_q tq))" using ms by simp
  moreover have "distinct (map entry_order (tq_q tq))" using inv by (simp add: tq_inv_def)
  ultimately have dist: "distinct (map entry_order (es @ h))" using mset_eq_imp_distinct_iff by blast
  have sub: "set h \<subseteq> set (tq_q tq)" by (metis ms Un_upper2 set_mset_mset set_mset_union)
  show "tq_inv tq'"
    using heap dist sub inv by (auto simp: tq_inv_def tq')
  let ?zs = "sort_key entry_order (tq_q tq)"
  have zs: "sorted (map entry_order ?zs)" "distinct (map entry_order ?zs)"
    using inv by (simp, metis mset_eq_imp_distinct_iff mset_map mset_sort tq_inv_def)
  have ms': "mset ?zs = mset es + mset h" using ms by simp
  have split: "filter (\<lambda>e. entry_end_time e \<le> now) es = es" "filter (\<lambda>e. entry_end_time e \<le> now) h = []"
    "filter (\<lambda>e. now < entry_end_time e) es = []" "filter (\<lambda>e. now < entry_end_time e) h = h"
    using le gt by (auto simp: filter_id_conv filter_empty_conv not_le)
  have due_part: "filter_mset (\<lambda>e. entry_end_time e \<le> now) (mset es + mset h) = mset es"
    and rest_part: "filter_mset (\<lambda>e. now < entry_end_time e) (mset es + mset h) = mset h"
    by (simp_all add: split flip: mset_filter)
  have "sort_key entry_end_time (filter (\<lambda>e. entry_end_time e \<le> now) ?zs) = es"
    using zs lex ms' due_part
    by (intro sort_key_of_lex_sorted) (simp_all add: sorted_filter distinct_map_filter)
  then have "map entry_val es = map entry_val (sort_key entry_end_time (filter (\<lambda>e. entry_end_time e \<le> now) ?zs))" by simp
  also have "\<dots> = stable_pop now (tq_abs tq)"
    by (simp add: stable_pop_def tq_abs_def filter_map o_def sort_key_map)
  finally show "vs = stable_pop now (tq_abs tq)" unfolding vs .
  have "sort_key entry_order h = filter (\<lambda>e. now < entry_end_time e) ?zs"
  proof (rule sort_key_unique)
    show "distinct (map entry_order (sort_key entry_order h))"
      using dist by (metis distinct_append map_append mset_eq_imp_distinct_iff mset_map mset_sort)
  qed (use zs ms' rest_part in \<open>simp_all add: sorted_filter\<close>)
  then show "tq_abs tq' = filter (\<lambda>(t, v). now < t) (tq_abs tq)"
    by (simp add: tq_abs_def tq' filter_map o_def)
qed

section \<open>Conservation\<close>

text \<open>What the engines rely on, wrapped counter or not: no value is lost or duplicated.\<close>

abbreviation tq_heap :: "'a time_queue \<Rightarrow> bool" where
  "tq_heap tq \<equiv> heap_inv entry_le (tq_q tq)"

lemma tq_heap_new [simp]: "tq_heap tq_new"
  by (simp add: tq_new_def heap_inv_def)

lemma tq_heap_add [simp]: "tq_heap tq \<Longrightarrow> tq_heap (tq_add et v now tq)"
  by (simp add: tq_add_def entry_heap.heap_inv_push)

lemma tq_vals_new [conservation]: "tq_vals tq_new = {#}"
  by (simp add: tq_vals_def tq_new_def)

lemma tq_vals_add [conservation]: "tq_vals (tq_add et v now tq) = add_mset v (tq_vals tq)"
  unfolding tq_vals_def mset_tq_add by simp

lemma tq_pop_conservation [conservation]:
  assumes "tq_heap tq" and "tq_pop now tq = (vs, tq')"
  shows "tq_heap tq'" and "tq_vals tq = mset vs + tq_vals tq'"
proof -
  obtain es h where due: "pop_due now (tq_q tq) = (es, h)" by fastforce
  with assms(2) have "vs = map entry_val es" "tq' = tq\<lparr>tq_q := h\<rparr>" by (auto simp: tq_pop_def)
  then show "tq_heap tq'" and "tq_vals tq = mset vs + tq_vals tq'"
    using pop_due_spec[OF assms(1), of now] due by (simp_all add: tq_vals_def)
qed

lemma tq_drain_conservation [conservation]: "mset (fst (tq_drain tq)) = tq_vals tq"
  by (simp add: tq_drain_def tq_vals_def heap_drain_def)

section \<open>Properties\<close>

datatype 'a tq_op = Add 'a sim_time | Pop sim_time

fun tq_run :: "('a \<Rightarrow> sim_time \<Rightarrow> sim_time) \<Rightarrow> 'a tq_op list \<Rightarrow> 'a time_queue \<Rightarrow> 'a list list" where
  "tq_run et [] tq = []"
| "tq_run et (Add v now # ops) tq = tq_run et ops (tq_add et v now tq)"
| "tq_run et (Pop now # ops) tq = (let (vs, tq') = tq_pop now tq in vs # tq_run et ops tq')"

fun stable_run :: "('a \<Rightarrow> sim_time \<Rightarrow> sim_time) \<Rightarrow> 'a tq_op list \<Rightarrow> (sim_time \<times> 'a) list \<Rightarrow> 'a list list" where
  "stable_run et [] xs = []"
| "stable_run et (Add v now # ops) xs = stable_run et ops (xs @ [(et v now, v)])"
| "stable_run et (Pop now # ops) xs = stable_pop now xs # stable_run et ops (filter (\<lambda>(t, v). now < t) xs)"

definition adds :: "'a tq_op list \<Rightarrow> nat" where
  "adds ops = length (filter (\<lambda>op. case op of Add _ _ \<Rightarrow> True | Pop _ \<Rightarrow> False) ops)"

lemma tq_run_refines:
  assumes "tq_inv tq" and "unat (tq_counter tq) + adds ops < 2 ^ 64"
  shows "tq_run et ops tq = stable_run et ops (tq_abs tq)"
  using assms
proof (induction et ops tq rule: tq_run.induct)
  case (1 et tq)
  then show ?case by simp
next
  case (2 et v now ops tq)
  have room: "unat (tq_counter tq) + 1 < 2 ^ 64" using "2.prems" by (simp add: adds_def)
  then have suc: "unat (tq_counter tq + 1) = Suc (unat (tq_counter tq))"
    by (simp add: unat_word_ariths)
  then have "tq_counter tq + 1 \<noteq> 0" by (metis nat.simps(3) unat_0)
  moreover have "unat (tq_counter (tq_add et v now tq)) = Suc (unat (tq_counter tq))"
    using suc by (simp add: tq_add_def)
  ultimately show ?case
    using "2.IH" "2.prems" tq_add_refines[of tq et v now] by (simp add: adds_def)
next
  case (3 et now ops tq)
  obtain vs tq' where pop: "tq_pop now tq = (vs, tq')" by fastforce
  have "tq_counter tq' = tq_counter tq" using pop by (auto simp: tq_pop_def split: prod.splits)
  then show ?case
    using "3.IH"[OF pop[symmetric] refl] "3.prems" tq_pop_refines[OF _ pop] pop by (simp add: adds_def)
qed

text \<open>
  C1. The time queue is a stable priority queue: every sequence of \<open>add\<close> and \<open>pop\<close> calls on a
  new queue, with fewer insertions than the counter has values, returns what the abstract
  queue returns, which keeps the pending elements in insertion order and at each \<open>pop\<close> hands
  out the due ones sorted by time, ties in the order they were added.
\<close>

theorem time_queue_refines_stable_queue:
  assumes "adds ops < 2 ^ 64"
  shows "tq_run et ops tq_new = stable_run et ops []"
  using tq_run_refines[OF tq_inv_new, of ops et] assms by (simp add: tq_abs_new) (simp add: tq_new_def)

theorem time_queue_refines_stable_queue_witness:
  "tq_run (\<lambda>v _. fst v) [Add (15, 1) 0, Add (10, 2) 0, Add (20, 3) 0, Add (10, 4) 0, Pop 10, Pop 15]
     tq_new = [[(10, 2), (10, 4)], [(15, 1 :: nat)]]"
proof -
  let ?ops = "[Add (15, 1) 0, Add (10, 2) 0, Add (20, 3) 0, Add (10, 4) 0, Pop 10, Pop 15]
    :: (nat \<times> nat) tq_op list"
  have "tq_run (\<lambda>v _. fst v) ?ops tq_new = stable_run (\<lambda>v _. fst v) ?ops []"
    by (rule time_queue_refines_stable_queue) (simp add: adds_def)
  then show ?thesis by (simp add: stable_pop_def)
qed

text \<open>
  Insertion entry_order among equal times is lost when the counter wraps, even though no two
  entries of the queue have the same counter value: of two values added at the same time, one
  just before and one just after the wrap, the later one is popped first.
\<close>

theorem time_queue_wrap_reorders:
  "fst (tq_pop 10 (tq_add (\<lambda>v _. 10) (2 :: nat) 0 (tq_add (\<lambda>v _. 10) 1 0 \<lparr>tq_q = [], tq_counter = - 1\<rparr>)))
   = [2, 1]"
  by (simp add: tq_pop_def tq_add_def heap_push_def heap_pop_def sift_up.simps sift_to_bottom.simps
      pop_due.simps parent_def entry_le_def swap_def)

text \<open>The mutable queue: every queued wrapper has its value in the cache, once.\<close>

definition mtq_inv :: "('a \<Rightarrow> 'i) \<Rightarrow> ('i, 'a) mut_time_queue \<Rightarrow> bool" where
  "mtq_inv ident m \<longleftrightarrow> tq_heap (mtq_q m) \<and>
     distinct (map (wrap_id \<circ> entry_val) (tq_q (mtq_q m))) \<and> dom (mtq_cache m) = set (map (wrap_id \<circ> entry_val) (tq_q (mtq_q m))) \<and>
     (\<forall>i v. mtq_cache m i = Some v \<longrightarrow> ident v = i)"

lemma take_all_Some:
  assumes "distinct (map wrap_id ws)" and "set (map wrap_id ws) \<subseteq> dom c"
  shows "take_all ws c = Some (map (\<lambda>w. the (c (wrap_id w))) ws, c |` (- set (map wrap_id ws)))"
  using assms
proof (induction ws arbitrary: c)
  case Nil
  then show ?case by (simp add: restrict_map_def)
next
  case (Cons w ws)
  from Cons.prems obtain v where v: "c (wrap_id w) = Some v" by auto
  have IH: "take_all ws (c(wrap_id w := None)) =
      Some (map (\<lambda>x. the ((c(wrap_id w := None)) (wrap_id x))) ws,
            c(wrap_id w := None) |` (- set (map wrap_id ws)))"
  proof (rule Cons.IH)
    show "distinct (map wrap_id ws)" using Cons.prems by simp
    have "set (map wrap_id ws) \<subseteq> dom c - {wrap_id w}" using Cons.prems by (simp add: subset_Diff_insert)
    then show "set (map wrap_id ws) \<subseteq> dom (c(wrap_id w := None))" by (simp only: dom_fun_upd) simp
  qed
  have "map (\<lambda>x. the ((c(wrap_id w := None)) (wrap_id x))) ws = map (\<lambda>x. the (c (wrap_id x))) ws"
    using Cons.prems by (intro map_cong refl) (metis distinct.simps(2) fun_upd_other image_eqI list.simps(9) list.set_map)
  moreover have "c(wrap_id w := None) |` (- set (map wrap_id ws)) = c |` (- set (map wrap_id (w # ws)))"
    by (auto simp: restrict_map_def fun_eq_iff)
  ultimately show ?case using v IH by simp
qed

text \<open>
  On a mutable queue whose identifiers are unique, \<open>pop\<close> does not panic: it returns the
  current (possibly mutated) values of exactly the due wrappers, in the queue's order, and
  the queue stays consistent with its cache.
\<close>

theorem mut_time_queue_pop_ok:
  assumes inv: "mtq_inv ident m"
  shows "\<exists>vs m'. mtq_pop now m = Some (vs, m') \<and> mtq_inv ident m' \<and>
     map ident vs = map wrap_id (fst (tq_pop now (mtq_q m))) \<and> (\<forall>v \<in> set vs. mtq_cache m (ident v) = Some v)"
proof -
  obtain ws tq where pop: "tq_pop now (mtq_q m) = (ws, tq)" by fastforce
  obtain es h where due: "pop_due now (tq_q (mtq_q m)) = (es, h)" by fastforce
  with pop have ws: "ws = map entry_val es" and tq: "tq_q tq = h" by (auto simp: tq_pop_def)
  let ?id = "wrap_id \<circ> entry_val"
  have heap: "heap_inv entry_le h" and ms: "mset (tq_q (mtq_q m)) = mset (es @ h)"
    using pop_due_spec[of "tq_q (mtq_q m)" now] inv due by (auto simp: mtq_inv_def)
  have dist: "distinct (map ?id es @ map ?id h)"
    using inv ms unfolding mtq_inv_def by (metis map_append mset_eq_imp_distinct_iff mset_map)
  have dom: "dom (mtq_cache m) = set (map ?id es) \<union> set (map ?id h)"
    using inv ms unfolding mtq_inv_def by (metis map_append mset_eq_setD mset_map set_append)
  let ?c = "mtq_cache m |` (- set (map wrap_id ws))"
  have take: "take_all ws (mtq_cache m) = Some (map (\<lambda>w. the (mtq_cache m (wrap_id w))) ws, ?c)"
    using dist dom by (intro take_all_Some) (auto simp: ws)
  let ?vs = "map (\<lambda>w. the (mtq_cache m (wrap_id w))) ws" and ?m = "m\<lparr>mtq_q := tq, mtq_cache := ?c\<rparr>"
  have key: "mtq_cache m (wrap_id w) = Some (the (mtq_cache m (wrap_id w)))" if "w \<in> set ws" for w
    using that dom by (force simp: ws)
  have ids: "ident (the (mtq_cache m (wrap_id w))) = wrap_id w" if "w \<in> set ws" for w
    using key[OF that] inv by (simp add: mtq_inv_def)
  have "dom ?c = set (map ?id h)" using dom dist by (auto simp: ws)
  moreover have "\<forall>i v. ?c i = Some v \<longrightarrow> ident v = i"
    using inv by (auto simp: mtq_inv_def restrict_map_def split: if_splits)
  ultimately have "mtq_inv ident ?m" using heap dist tq by (simp add: mtq_inv_def)
  moreover have "mtq_pop now m = Some (?vs, ?m)" using pop take by (simp add: mtq_pop_def)
  ultimately show ?thesis using ids key pop by auto
qed

theorem mut_time_queue_pop_ok_witness:
  "\<exists>vs m'. mtq_pop 10 (mtq_add fst (\<lambda>v _. snd v) (7 :: nat, 10) 0 mtq_new) = Some (vs, m') \<and>
     map fst vs = [7]"
proof -
  let ?m = "mtq_add fst (\<lambda>v _. snd v) (7 :: nat, 10) 0 mtq_new"
  have inv: "mtq_inv fst ?m"
    by (simp add: mtq_inv_def mtq_add_def mtq_new_def tq_add_def tq_new_def heap_push_def sift_up.simps
        heap_inv_def)
  have "fst (tq_pop 10 (mtq_q ?m)) = [\<lparr>wrap_id = 7, wrap_end_time = 10\<rparr>]"
    by (simp add: mtq_add_def mtq_new_def tq_add_def tq_new_def heap_push_def sift_up.simps
        tq_pop_def pop_due.simps heap_pop_def)
  with mut_time_queue_pop_ok[OF inv, of 10] show ?thesis by auto
qed

end
