(* ===== verification/Ids.thy ===== *)
theory Ids
  imports Prelude
begin

text \<open>
  The store of ids (\<open>id/mod.rs\<close>, \<open>id/id_store.rs\<close>, \<open>id/serializable_type.rs\<close>) and the file format
  in which it is written and read back (\<open>generated/mod.rs\<close> for the messages with a length in front).

  A type with ids is one of the constructors of \<open>id_type\<close>. A text is a \<open>string\<close>; its bytes, the
  variable length integers and the messages of the package \<open>prost\<close> and the compression of \<open>lz4\<close>
  are the parameter \<open>W\<close>, and what their documentation promises is the locale \<open>wire\<close>. A reader is the
  list of the bytes that it has not delivered.
\<close>

section \<open>Types and their numbers\<close>

datatype id_type = StringT | LinkT | NodeT | InternalVehicleTypeT | InternalVehicleT | UnitT | I32T | I64T | U32T |
  F32T | InternalPersonT | TransitLineT | TransitRouteT | TransitStopFacilityT | TransitDepartureT | ActivityFacilityT

definition VEHICLE_TYPE_TYPE_ID :: nat where
  "VEHICLE_TYPE_TYPE_ID = 5"

definition VEHICLE_TYPE_ID :: nat where
  "VEHICLE_TYPE_ID = 6"

fun stable_type_id :: "id_type \<Rightarrow> nat" where
  "stable_type_id StringT = 1"
| "stable_type_id LinkT = 3"
| "stable_type_id NodeT = 4"
| "stable_type_id InternalVehicleTypeT = VEHICLE_TYPE_ID"
| "stable_type_id InternalVehicleT = VEHICLE_TYPE_ID"
| "stable_type_id UnitT = 0"
| "stable_type_id I32T = 7"
| "stable_type_id I64T = 8"
| "stable_type_id U32T = 9"
| "stable_type_id F32T = 10"
| "stable_type_id InternalPersonT = 2"
| "stable_type_id TransitLineT = 11"
| "stable_type_id TransitRouteT = 12"
| "stable_type_id TransitStopFacilityT = 13"
| "stable_type_id TransitDepartureT = 14"
| "stable_type_id ActivityFacilityT = 15"

section \<open>The store\<close>

record untyped_id =
  ui_internal :: nat
  ui_external :: string

record id_store =
  st_ids :: "nat \<rightharpoonup> untyped_id list"
  st_mapping :: "nat \<rightharpoonup> (string \<rightharpoonup> nat)"

definition id_store_new :: id_store where
  "id_store_new = \<lparr>st_ids = Map.empty, st_mapping = Map.empty\<rparr>"

text \<open>\<open>entry(k).or_default()\<close>, and an element of a vector.\<close>

definition entry_or :: "'v \<Rightarrow> ('k \<rightharpoonup> 'v) \<Rightarrow> 'k \<Rightarrow> 'v" where
  "entry_or d m k = (case m k of None \<Rightarrow> d | Some v \<Rightarrow> v)"

definition vec_get :: "'a list \<Rightarrow> nat \<Rightarrow> 'a option" where
  "vec_get xs i = (if i < length xs then Some (xs ! i) else None)"

definition create_id_with_type_id :: "string \<Rightarrow> nat \<Rightarrow> id_store \<Rightarrow> (untyped_id \<times> id_store) option" where
  "create_id_with_type_id i ty st =
     (let type_mapping = entry_or Map.empty (st_mapping st) ty;
          st = st\<lparr>st_mapping := (st_mapping st)(ty \<mapsto> type_mapping)\<rparr>
      in case type_mapping i of
        Some internal \<Rightarrow> do { xs \<leftarrow> st_ids st ty; x \<leftarrow> vec_get xs internal; Some (x, st) }
      | None \<Rightarrow>
          (let type_ids = entry_or [] (st_ids st) ty;
               next_id = \<lparr>ui_internal = length type_ids, ui_external = i\<rparr>
           in Some (next_id, st\<lparr>st_ids := (st_ids st)(ty \<mapsto> type_ids @ [next_id]),
                st_mapping := (st_mapping st)(ty \<mapsto> type_mapping(i \<mapsto> ui_internal next_id))\<rparr>)))"

definition clear_type :: "nat \<Rightarrow> id_store \<Rightarrow> id_store" where
  "clear_type ty st = st\<lparr>
     st_mapping := (case st_mapping st ty of None \<Rightarrow> st_mapping st | Some _ \<Rightarrow> (st_mapping st)(ty \<mapsto> Map.empty)),
     st_ids := (case st_ids st ty of None \<Rightarrow> st_ids st | Some _ \<Rightarrow> (st_ids st)(ty \<mapsto> []))\<rparr>"

definition replace_ids :: "string list \<Rightarrow> nat \<Rightarrow> id_store \<Rightarrow> id_store option" where
  "replace_ids is ty st = foldM (\<lambda>i st. map_option snd (create_id_with_type_id i ty st)) is (clear_type ty st)"

definition create_id :: "id_type \<Rightarrow> string \<Rightarrow> id_store \<Rightarrow> (untyped_id \<times> id_store) option" where
  "create_id T i st = create_id_with_type_id i (stable_type_id T) st"

definition id_get :: "id_type \<Rightarrow> nat \<Rightarrow> id_store \<Rightarrow> untyped_id option" where
  "id_get T internal st = do { type_ids \<leftarrow> st_ids st (stable_type_id T); vec_get type_ids internal }"

text \<open>The outer option is the panic of \<open>get\<close>.\<close>

definition try_get_from_ext :: "id_type \<Rightarrow> string \<Rightarrow> id_store \<Rightarrow> untyped_id option option" where
  "try_get_from_ext T external st =
     (case st_mapping st (stable_type_id T) of
        None \<Rightarrow> Some None
      | Some m \<Rightarrow> (case m external of None \<Rightarrow> Some None | Some i \<Rightarrow> map_option Some (id_get T i st)))"

definition get_from_ext :: "id_type \<Rightarrow> string \<Rightarrow> id_store \<Rightarrow> untyped_id option" where
  "get_from_ext T external st = do {
     m \<leftarrow> st_mapping st (stable_type_id T); i \<leftarrow> m external; id_get T i st }"

text \<open>The number reserved for vehicle types is not used: they share their ids with vehicles.\<close>

lemma vehicle_types_share_ids:
  "create_id InternalVehicleTypeT s st = create_id InternalVehicleT s st \<and> stable_type_id T \<noteq> VEHICLE_TYPE_TYPE_ID"
  by (cases T) (simp_all add: create_id_def VEHICLE_TYPE_TYPE_ID_def VEHICLE_TYPE_ID_def)

section \<open>The invariant of the store\<close>

text \<open>
  The internal number of an id is its position, and the reverse lookup has exactly the positions
  of the texts, so no text has two ids.
\<close>

definition ids_ok :: "untyped_id list \<Rightarrow> (string \<rightharpoonup> nat) \<Rightarrow> bool" where
  "ids_ok xs m \<longleftrightarrow> (\<forall>i<length xs. ui_internal (xs ! i) = i) \<and>
     (\<forall>s i. m s = Some i \<longleftrightarrow> i < length xs \<and> ui_external (xs ! i) = s)"

definition type_ok :: "id_store \<Rightarrow> nat \<Rightarrow> bool" where
  "type_ok st ty \<longleftrightarrow> ids_ok (entry_or [] (st_ids st) ty) (entry_or Map.empty (st_mapping st) ty)"

definition store_ok :: "id_store \<Rightarrow> bool" where
  "store_ok st \<longleftrightarrow> (\<forall>ty. type_ok st ty)"

lemma ids_ok_Nil [simp]: "ids_ok [] m \<longleftrightarrow> m = Map.empty"
  by (auto simp: ids_ok_def)

lemma ids_ok_add:
  assumes "ids_ok xs m" and "m s = None"
  shows "ids_ok (xs @ [\<lparr>ui_internal = length xs, ui_external = s\<rparr>]) (m(s \<mapsto> length xs))"
proof -
  have "ui_external (xs ! i) \<noteq> s" if "i < length xs" for i
    using assms that unfolding ids_ok_def by (metis option.distinct(1))
  then show ?thesis using assms unfolding ids_ok_def by (auto simp: nth_append less_Suc_eq)
qed

lemma store_ok_new [simp]: "store_ok id_store_new"
  by (simp add: store_ok_def type_ok_def id_store_new_def entry_or_def)

text \<open>The texts of a type, in the order of their internal numbers; they determine the store.\<close>

definition texts :: "id_store \<Rightarrow> nat \<Rightarrow> string list" where
  "texts st ty = map ui_external (entry_or [] (st_ids st) ty)"

lemma ids_ok_distinct: "ids_ok xs m \<Longrightarrow> distinct (map ui_external xs)"
proof -
  assume ok: "ids_ok xs m"
  have "i = j" if "i < length xs" "j < length xs" "ui_external (xs ! i) = ui_external (xs ! j)" for i j
  proof -
    have "m (ui_external (xs ! i)) = Some i" "m (ui_external (xs ! j)) = Some j"
      using ok that(1,2) unfolding ids_ok_def by blast+
    then show ?thesis using that(3) by (metis option.inject)
  qed
  then show ?thesis unfolding distinct_conv_nth by (metis length_map nth_map)
qed

lemma ids_ok_domain: "ids_ok xs m \<Longrightarrow> dom m = set (map ui_external xs)"
proof -
  assume ok: "ids_ok xs m"
  have "s \<in> dom m \<longleftrightarrow> (\<exists>i<length xs. ui_external (xs ! i) = s)" for s
    using ok unfolding ids_ok_def by blast
  then show ?thesis by (metis (no_types, lifting) in_set_conv_nth length_map nth_map set_eqI)
qed

text \<open>What creating an id does.\<close>

lemma create_spec:
  assumes "store_ok st"
  obtains x st' where "create_id_with_type_id s ty st = Some (x, st')" and "store_ok st'"
    and "ui_external x = s" and "ui_internal x < length (texts st' ty)" and "texts st' ty ! ui_internal x = s"
    and "texts st' ty = (if s \<in> set (texts st ty) then texts st ty else texts st ty @ [s])"
    and "\<forall>t. t \<noteq> ty \<longrightarrow> st_ids st' t = st_ids st t \<and> st_mapping st' t = st_mapping st t"
    and "st_ids st' ty = Some (entry_or [] (st_ids st') ty)" and "st_mapping st' ty \<noteq> None"
proof -
  let ?xs = "entry_or [] (st_ids st) ty" and ?m = "entry_or Map.empty (st_mapping st) ty"
  have ok: "ids_ok ?xs ?m" using assms by (simp add: store_ok_def type_ok_def)
  have other: "ids_ok (entry_or [] (st_ids st) t) (entry_or Map.empty (st_mapping st) t)" for t
    using assms by (simp add: store_ok_def type_ok_def)
  show thesis
  proof (cases "?m s")
    case None
    then have "s \<notin> set (texts st ty)" using ids_ok_domain[OF ok] by (auto simp: texts_def)
    then show thesis
      using None ids_ok_add[OF ok None] other
      by (intro that[of "\<lparr>ui_internal = length ?xs, ui_external = s\<rparr>"])
        (auto simp: create_id_with_type_id_def Let_def store_ok_def type_ok_def texts_def entry_or_def nth_append)
  next
    case (Some i)
    then have i: "i < length ?xs" "ui_external (?xs ! i) = s" "ui_internal (?xs ! i) = i"
      using ok by (auto simp: ids_ok_def)
    then obtain ys where ys: "st_ids st ty = Some ys" by (cases "st_ids st ty") (auto simp: entry_or_def)
    obtain m where m: "st_mapping st ty = Some m" using Some by (cases "st_mapping st ty") (auto simp: entry_or_def)
    have "s \<in> set (texts st ty)" using i by (auto simp: texts_def)
    moreover have "st\<lparr>st_mapping := (st_mapping st)(ty \<mapsto> m)\<rparr> = st" using m by (simp add: fun_upd_idem)
    ultimately show thesis
      using Some i ys m assms
      by (intro that[of "?xs ! i" st])
        (auto simp: create_id_with_type_id_def Let_def texts_def entry_or_def vec_get_def)
  qed
qed

text \<open>The store answers as if it were the list of texts of each type.\<close>

lemma id_get_texts:
  assumes "store_ok st"
  shows "id_get T i st = (if i < length (texts st (stable_type_id T))
    then Some \<lparr>ui_internal = i, ui_external = texts st (stable_type_id T) ! i\<rparr> else None)"
proof (cases "st_ids st (stable_type_id T)")
  case (Some xs)
  have "ids_ok xs (entry_or Map.empty (st_mapping st) (stable_type_id T))"
    using assms Some by (auto simp: store_ok_def type_ok_def entry_or_def split: option.splits dest!: spec[of _ "stable_type_id T"])
  then have "i < length xs \<Longrightarrow> ui_internal (xs ! i) = i" by (simp add: ids_ok_def)
  moreover have "xs ! i = \<lparr>ui_internal = ui_internal (xs ! i), ui_external = ui_external (xs ! i)\<rparr>" by simp
  ultimately show ?thesis using Some by (simp add: id_get_def texts_def entry_or_def vec_get_def)
qed (simp add: id_get_def texts_def entry_or_def)

lemma get_from_ext_texts:
  assumes "store_ok st"
  shows "get_from_ext T s st = Some x \<longleftrightarrow>
    ui_external x = s \<and> ui_internal x < length (texts st (stable_type_id T)) \<and> texts st (stable_type_id T) ! ui_internal x = s"
proof -
  let ?ty = "stable_type_id T" and ?m = "entry_or Map.empty (st_mapping st) (stable_type_id T)"
  have ok: "ids_ok (entry_or [] (st_ids st) ?ty) ?m" using assms by (simp add: store_ok_def type_ok_def)
  have "get_from_ext T s st = do { i \<leftarrow> ?m s; id_get T i st }"
    by (simp add: get_from_ext_def entry_or_def split: option.splits)
  moreover have "?m s = Some i \<longleftrightarrow> i < length (texts st ?ty) \<and> texts st ?ty ! i = s" for i
    using ok by (auto simp: ids_ok_def texts_def)
  ultimately have "get_from_ext T s st = Some x \<longleftrightarrow>
      (\<exists>i. i < length (texts st ?ty) \<and> texts st ?ty ! i = s \<and> x = \<lparr>ui_internal = i, ui_external = s\<rparr>)"
    using id_get_texts[OF assms, of T] by (auto simp: Option.bind_eq_Some_conv)
  then show ?thesis by (cases x) auto
qed

section \<open>Runs of the store\<close>

datatype store_op = Create id_type string | Replace "string list" nat

fun store_step :: "store_op \<Rightarrow> id_store \<Rightarrow> id_store option" where
  "store_step (Create T s) st = map_option snd (create_id T s st)"
| "store_step (Replace is ty) st = replace_ids is ty st"

lemma store_ok_clear: "store_ok st \<Longrightarrow> store_ok (clear_type ty st)"
  by (auto simp: store_ok_def type_ok_def clear_type_def entry_or_def split: option.splits)

lemma texts_clear: "texts (clear_type ty st) t = (if t = ty then [] else texts st t)"
  by (auto simp: texts_def clear_type_def entry_or_def split: option.splits)

lemma texts_cong: "st_ids st' t = st_ids st t \<Longrightarrow> texts st' t = texts st t"
  by (simp add: texts_def entry_or_def)

lemma create_all:
  assumes "store_ok st"
  shows "\<exists>st'. foldM (\<lambda>i st. map_option snd (create_id_with_type_id i ty st)) is st = Some st' \<and> store_ok st' \<and>
    (\<forall>t. t \<noteq> ty \<longrightarrow> texts st' t = texts st t) \<and>
    (distinct (texts st ty @ is) \<longrightarrow> texts st' ty = texts st ty @ is)"
  using assms
proof (induction "is" arbitrary: st)
  case (Cons i "is")
  obtain x st1 where st1: "create_id_with_type_id i ty st = Some (x, st1)" "store_ok st1"
    "texts st1 ty = (if i \<in> set (texts st ty) then texts st ty else texts st ty @ [i])"
    "\<forall>t. t \<noteq> ty \<longrightarrow> st_ids st1 t = st_ids st t \<and> st_mapping st1 t = st_mapping st t"
    using create_spec[OF Cons.prems, of i ty] by metis
  have other: "\<forall>t. t \<noteq> ty \<longrightarrow> texts st1 t = texts st t" using st1(4) by (blast intro: texts_cong)
  obtain st' where st': "foldM (\<lambda>i st. map_option snd (create_id_with_type_id i ty st)) is st1 = Some st'" "store_ok st'"
    "\<forall>t. t \<noteq> ty \<longrightarrow> texts st' t = texts st1 t"
    "distinct (texts st1 ty @ is) \<longrightarrow> texts st' ty = texts st1 ty @ is"
    using Cons.IH[OF st1(2)] by blast
  have "texts st' ty = texts st ty @ i # is" if "distinct (texts st ty @ i # is)"
    using that st'(4) st1(3) by simp
  then show ?case using st1(1) st'(1-3) other by simp
qed simp

lemma replace_ids_spec:
  assumes "store_ok st"
  obtains st' where "replace_ids is ty st = Some st'" and "store_ok st'"
    and "\<forall>t. t \<noteq> ty \<longrightarrow> texts st' t = texts st t" and "distinct is \<longrightarrow> texts st' ty = is"
  using create_all[OF store_ok_clear[OF assms, of ty], of ty "is"] that unfolding replace_ids_def texts_clear by auto

lemma store_step_ok: "store_ok st \<Longrightarrow> \<exists>st'. store_step op st = Some st' \<and> store_ok st'"
proof (cases op)
  case (Create T s)
  assume "store_ok st"
  then obtain x st' where "create_id_with_type_id s (stable_type_id T) st = Some (x, st')" "store_ok st'"
    by (rule create_spec)
  then show ?thesis using Create by (simp add: create_id_def)
qed (auto elim: replace_ids_spec)

text \<open>
  C14. The store is well formed after every sequence of calls, none of which panics: the texts of a
  type are pairwise different, and an id that is created is found under its number and under its
  text, and created only once.
\<close>

theorem id_store_well_formed:
  "\<exists>st. foldM store_step ops id_store_new = Some st \<and> store_ok st \<and> (\<forall>ty. distinct (texts st ty)) \<and>
     (\<forall>T s. \<exists>x st'. create_id T s st = Some (x, st') \<and> ui_external x = s \<and> store_ok st' \<and>
        id_get T (ui_internal x) st' = Some x \<and> get_from_ext T s st' = Some x \<and>
        try_get_from_ext T s st' = Some (Some x) \<and> create_id T s st' = Some (x, st'))"
proof -
  obtain st where st: "foldM store_step ops id_store_new = Some st" "store_ok st"
    using foldM_total[of store_ok id_store_new ops store_step] store_step_ok by auto
  have "distinct (texts st ty)" for ty
    using ids_ok_distinct st(2) by (auto simp: store_ok_def type_ok_def texts_def)
  moreover have "\<exists>x st'. create_id T s st = Some (x, st') \<and> ui_external x = s \<and> store_ok st' \<and>
        id_get T (ui_internal x) st' = Some x \<and> get_from_ext T s st' = Some x \<and>
        try_get_from_ext T s st' = Some (Some x) \<and> create_id T s st' = Some (x, st')" for T s
  proof -
    obtain x st' where c: "create_id_with_type_id s (stable_type_id T) st = Some (x, st')" "store_ok st'"
      "ui_external x = s" "ui_internal x < length (texts st' (stable_type_id T))"
      "texts st' (stable_type_id T) ! ui_internal x = s"
      by (rule create_spec[OF st(2)])
    have g: "id_get T (ui_internal x) st' = Some x" using c id_get_texts[OF c(2)] by simp
    have e: "get_from_ext T s st' = Some x" using c get_from_ext_texts[OF c(2)] by simp
    then obtain m i where m: "st_mapping st' (stable_type_id T) = Some m" "m s = Some i" "id_get T i st' = Some x"
      by (auto simp: get_from_ext_def)
    then have "try_get_from_ext T s st' = Some (Some x)" by (simp add: try_get_from_ext_def)
    moreover have "st'\<lparr>st_mapping := (st_mapping st')(stable_type_id T \<mapsto> m)\<rparr> = st'" using m by (simp add: fun_upd_idem)
    then have "create_id T s st' = Some (x, st')"
      using m by (auto simp: create_id_def create_id_with_type_id_def entry_or_def id_get_def)
    ultimately show ?thesis using c g e by (auto simp: create_id_def)
  qed
  ultimately show ?thesis using st by blast
qed

end
