(* ===== verification/Id_Files.thy ===== *)
theory Id_Files
  imports Ids
begin

text \<open>
  Messages with their length in front (\<open>generated/mod.rs\<close>: \<open>read_delimiter\<close>, \<open>MessageIter\<close>) and the file
  of the id store (\<open>id/id_store.rs\<close>). A file that has been written is read back to the same store if
  no message is shorter than the ten bytes that \<open>read_delimiter\<close> asks for.
\<close>

section \<open>Messages with their length in front\<close>

type_synonym byte = "8 word"

record 'm wire_ops =
  w_varint :: "nat \<Rightarrow> byte list"
  w_varint_size :: "nat \<Rightarrow> nat"
  w_delimiter :: "byte list \<Rightarrow> nat option"
  w_as_bytes :: "string \<Rightarrow> byte list"
  w_merge :: "byte list \<Rightarrow> (string \<times> byte list) option"
  w_compress :: "byte list \<Rightarrow> byte list"
  w_decompress :: "byte list \<Rightarrow> byte list option"
  w_encode :: "'m \<Rightarrow> byte list"
  w_decode :: "byte list \<Rightarrow> 'm option"

locale wire =
  fixes W :: "'m wire_ops"
  assumes varint_size: "n \<le> u64_max \<Longrightarrow> length (w_varint W n) = w_varint_size W n \<and> w_varint_size W n \<le> 10"
    and delimiter: "n \<le> u64_max \<Longrightarrow> w_delimiter W (w_varint W n @ rest) = Some n"
    and merge: "length (w_as_bytes W s) \<le> u64_max \<Longrightarrow>
      w_merge W (w_varint W (length (w_as_bytes W s)) @ w_as_bytes W s @ rest) = Some (s, rest)"
    and varint_pos: "0 < w_varint_size W n"
    and decompress: "w_decompress W (w_compress W b) = Some b"
    and decode: "w_decode W (w_encode W m) = Some m"

definition encode_length_delimited :: "'m wire_ops \<Rightarrow> 'm \<Rightarrow> byte list" where
  "encode_length_delimited W m = w_varint W (length (w_encode W m)) @ w_encode W m"

text \<open>The end of the file, also one with less than ten bytes left, is \<open>Some None\<close>.\<close>

definition read_delimiter :: "'m wire_ops \<Rightarrow> byte list \<Rightarrow> (nat \<times> byte list) option option" where
  "read_delimiter W reader =
     (if length reader < 10 then Some None
      else do { delimiter \<leftarrow> w_delimiter W (take 10 reader);
                Some (Some (delimiter, drop (w_varint_size W delimiter) reader)) })"

definition message_iter_next :: "'m wire_ops \<Rightarrow> byte list \<Rightarrow> ('m \<times> byte list) option option" where
  "message_iter_next W reader = do {
     d \<leftarrow> read_delimiter W reader;
     (case d of None \<Rightarrow> Some None
      | Some (delimiter, reader) \<Rightarrow> do {
          ensure (delimiter \<le> length reader);
          message \<leftarrow> w_decode W (take delimiter reader);
          Some (Some (message, drop delimiter reader)) }) }"

text \<open>All messages that the iterator yields.\<close>

partial_function (option) read_messages :: "'m wire_ops \<Rightarrow> byte list \<Rightarrow> 'm list option" where
  "read_messages W reader = do {
     m \<leftarrow> message_iter_next W reader;
     (case m of None \<Rightarrow> Some []
      | Some (m, reader) \<Rightarrow> do { ms \<leftarrow> read_messages W reader; Some (m # ms) }) }"

section \<open>The file of the id store\<close>

datatype ids_data = Raw "byte list" | Lz4Data "byte list"

record ids_with_type =
  iwt_type_id :: nat
  iwt_data :: "ids_data option"

datatype id_compression = LZ4 | NoCompression

definition encode_ids :: "'m wire_ops \<Rightarrow> untyped_id list \<Rightarrow> byte list" where
  "encode_ids W ids = concat (map (\<lambda>i. w_varint W (length (w_as_bytes W (ui_external i))) @ w_as_bytes W (ui_external i)) ids)"

fun serialize_ids :: "'m wire_ops \<Rightarrow> untyped_id list \<Rightarrow> id_compression \<Rightarrow> ids_data" where
  "serialize_ids W ids LZ4 = Lz4Data (w_compress W (encode_ids W ids))"
| "serialize_ids W ids NoCompression = Raw (encode_ids W ids)"

definition type_message :: "ids_with_type wire_ops \<Rightarrow> id_compression \<Rightarrow> id_store \<Rightarrow> nat \<Rightarrow> ids_with_type" where
  "type_message W mode st ty =
     \<lparr>iwt_type_id = ty, iwt_data = Some (serialize_ids W (entry_or [] (st_ids st) ty) mode)\<rparr>"

definition serialize_store :: "ids_with_type wire_ops \<Rightarrow> (nat set \<Rightarrow> nat list) \<Rightarrow> id_compression \<Rightarrow> id_store \<Rightarrow> byte list" where
  "serialize_store W ord mode st =
     concat (map (\<lambda>ty. encode_length_delimited W (type_message W mode st ty)) (ord (dom (st_ids st))))"

partial_function (option) decode_ids :: "'m wire_ops \<Rightarrow> byte list \<Rightarrow> string list option" where
  "decode_ids W buffer =
     (if buffer = [] then Some []
      else do { (s, buffer) \<leftarrow> w_merge W buffer; ss \<leftarrow> decode_ids W buffer; Some (s # ss) })"

definition deserialize_ids :: "'m wire_ops \<Rightarrow> ids_with_type \<Rightarrow> string list option" where
  "deserialize_ids W ids =
     (case iwt_data ids of
        None \<Rightarrow> Some []
      | Some (Raw b) \<Rightarrow> decode_ids W b
      | Some (Lz4Data b) \<Rightarrow> do { b \<leftarrow> w_decompress W b; decode_ids W b })"

definition load_message :: "ids_with_type wire_ops \<Rightarrow> ids_with_type \<Rightarrow> id_store \<Rightarrow> id_store option" where
  "load_message W m st = do { ids \<leftarrow> deserialize_ids W m; replace_ids ids (iwt_type_id m) st }"

definition deserialize_store :: "ids_with_type wire_ops \<Rightarrow> byte list \<Rightarrow> id_store \<Rightarrow> id_store option" where
  "deserialize_store W reader st = do { ms \<leftarrow> read_messages W reader; foldM (load_message W) ms st }"

section \<open>Reading back\<close>

context wire
begin

lemma message_next:
  assumes "length (w_encode W m) \<le> u64_max" and "10 \<le> length (encode_length_delimited W m @ rest)"
  shows "message_iter_next W (encode_length_delimited W m @ rest) = Some (Some (m, rest))"
proof -
  let ?v = "w_varint W (length (w_encode W m))"
  have v: "length ?v = w_varint_size W (length (w_encode W m))" "length ?v \<le> 10"
    using varint_size[OF assms(1)] by auto
  have "take 10 (?v @ w_encode W m @ rest) = ?v @ take (10 - length ?v) (w_encode W m @ rest)"
    using v(2) by simp
  then have "w_delimiter W (take 10 (?v @ w_encode W m @ rest)) = Some (length (w_encode W m))"
    using delimiter[OF assms(1)] by simp
  then show ?thesis
    using assms(2) v decode[of m]
    by (simp add: message_iter_next_def read_delimiter_def encode_length_delimited_def not_less)
qed

lemma read_messages_all:
  assumes "\<forall>m\<in>set ms. length (w_encode W m) \<le> u64_max \<and> 10 \<le> length (encode_length_delimited W m)"
  shows "read_messages W (concat (map (encode_length_delimited W) ms)) = Some ms"
  using assms
proof (induction ms)
  case Nil
  show ?case by (subst read_messages.simps) (simp add: message_iter_next_def read_delimiter_def)
next
  case (Cons m ms)
  then show ?case by (subst read_messages.simps) (simp add: message_next)
qed

text \<open>The last message is lost when it is too short.\<close>

lemma read_messages_short_tail:
  assumes "\<forall>m\<in>set ms. length (w_encode W m) \<le> u64_max \<and> 10 \<le> length (encode_length_delimited W m)"
    and "length tail < 10"
  shows "read_messages W (concat (map (encode_length_delimited W) ms) @ tail) = Some ms"
  using assms(1)
proof (induction ms)
  case Nil
  show ?case using assms(2) by (subst read_messages.simps) (simp add: message_iter_next_def read_delimiter_def)
next
  case (Cons m ms)
  then show ?case by (subst read_messages.simps) (simp add: message_next)
qed

lemma decode_encode_ids:
  assumes "\<forall>i\<in>set ids. length (w_as_bytes W (ui_external i)) \<le> u64_max"
  shows "decode_ids W (encode_ids W ids) = Some (map ui_external ids)"
  using assms
proof (induction ids)
  case Nil
  show ?case by (subst decode_ids.simps) (simp add: encode_ids_def)
next
  case (Cons i ids)
  then have "length (w_varint W (length (w_as_bytes W (ui_external i)))) \<noteq> 0"
    using varint_size varint_pos by (metis list.set_intros(1) not_gr_zero)
  then show ?case using Cons merge by (subst decode_ids.simps) (auto simp: encode_ids_def)
qed

lemma deserialize_serialize_ids:
  assumes "\<forall>i\<in>set ids. length (w_as_bytes W (ui_external i)) \<le> u64_max"
  shows "deserialize_ids W \<lparr>iwt_type_id = ty, iwt_data = Some (serialize_ids W ids mode)\<rparr> = Some (map ui_external ids)"
  using decode_encode_ids[OF assms] by (cases mode) (simp_all add: deserialize_ids_def decompress)

end

text \<open>The messages of a store are read back to its texts.\<close>

lemma load_messages:
  assumes W: "wire W" and st0: "store_ok st0" and st: "\<forall>ty. distinct (texts st ty)"
    and small: "\<forall>ty xs. st_ids st ty = Some xs \<longrightarrow> (\<forall>x\<in>set xs. length (w_as_bytes W (ui_external x)) \<le> u64_max)"
    and tys: "distinct tys" "set tys \<subseteq> dom (st_ids st)"
  shows "\<exists>st'. foldM (load_message W) (map (type_message W mode st) tys) st0 = Some st' \<and> store_ok st' \<and>
    (\<forall>ty. texts st' ty = (if ty \<in> set tys then texts st ty else texts st0 ty))"
  using st0 tys
proof (induction tys arbitrary: st0)
  case (Cons ty tys)
  have "\<forall>x\<in>set (entry_or [] (st_ids st) ty). length (w_as_bytes W (ui_external x)) \<le> u64_max"
    using small by (cases "st_ids st ty") (auto simp: entry_or_def)
  then have des: "deserialize_ids W (type_message W mode st ty) = Some (texts st ty)"
    unfolding type_message_def texts_def by (rule wire.deserialize_serialize_ids[OF W])
  obtain st1 where st1: "replace_ids (texts st ty) ty st0 = Some st1" "store_ok st1"
    "\<forall>t. t \<noteq> ty \<longrightarrow> texts st1 t = texts st0 t" "distinct (texts st ty) \<longrightarrow> texts st1 ty = texts st ty"
    by (rule replace_ids_spec[OF Cons.prems(1)])
  obtain st' where st': "foldM (load_message W) (map (type_message W mode st) tys) st1 = Some st'" "store_ok st'"
    "\<forall>t. texts st' t = (if t \<in> set tys then texts st t else texts st1 t)"
    using Cons.IH[OF st1(2)] Cons.prems by auto
  have "load_message W (type_message W mode st ty) st0 = Some st1"
    using des st1(1) by (simp add: load_message_def) (simp add: type_message_def)
  then show ?case using st' st1 st Cons.prems by auto
qed simp

lemma option_eqI: "(\<And>x. a = Some x \<longleftrightarrow> b = Some x) \<Longrightarrow> a = b"
  by (cases a; cases b) auto

text \<open>
  C15. A store that is written to a file and read into any store is found there: every type of the
  file has the same ids, under the same numbers, and every other type has those it had. The
  messages have at least ten bytes.
\<close>

theorem id_file_roundtrip:
  assumes "wire W" and "hash_order ord" and "store_ok st" and "store_ok st0" and "finite (dom (st_ids st))"
    and small: "\<forall>ty xs. st_ids st ty = Some xs \<longrightarrow> (\<forall>x\<in>set xs. length (w_as_bytes W (ui_external x)) \<le> u64_max) \<and>
      length (w_encode W (type_message W mode st ty)) \<le> u64_max \<and>
      10 \<le> length (encode_length_delimited W (type_message W mode st ty))"
  shows "\<exists>st'. deserialize_store W (serialize_store W ord mode st) st0 = Some st' \<and> store_ok st' \<and>
    (\<forall>T i s. id_get T i st' = id_get T i (if stable_type_id T \<in> dom (st_ids st) then st else st0) \<and>
       get_from_ext T s st' = get_from_ext T s (if stable_type_id T \<in> dom (st_ids st) then st else st0))"
proof -
  let ?tys = "ord (dom (st_ids st))"
  have tys: "distinct ?tys" "set ?tys = dom (st_ids st)"
    using hash_order.ord_distinct[OF assms(2,5)] hash_order.ord_set[OF assms(2,5)] by auto
  have "read_messages W (serialize_store W ord mode st) = Some (map (type_message W mode st) ?tys)"
    unfolding serialize_store_def
    using wire.read_messages_all[OF assms(1), of "map (type_message W mode st) ?tys"] small tys(2)
    by (auto simp: comp_def)
  moreover obtain st' where st': "foldM (load_message W) (map (type_message W mode st) ?tys) st0 = Some st'" "store_ok st'"
    "\<forall>ty. texts st' ty = (if ty \<in> dom (st_ids st) then texts st ty else texts st0 ty)"
  proof -
    have "\<forall>ty. distinct (texts st ty)"
      using assms(3) ids_ok_distinct unfolding store_ok_def type_ok_def texts_def by blast
    then show ?thesis using load_messages[OF assms(1,4) _ _ tys(1)] small tys(2) that by (metis subset_refl)
  qed
  ultimately have d: "deserialize_store W (serialize_store W ord mode st) st0 = Some st'"
    by (simp add: deserialize_store_def)
  have "id_get T i st' = id_get T i (if stable_type_id T \<in> dom (st_ids st) then st else st0)" for T i
    using st'(2,3) assms(3,4) by (simp add: id_get_texts)
  moreover have "get_from_ext T s st' = get_from_ext T s (if stable_type_id T \<in> dom (st_ids st) then st else st0)" for T s
    using st'(2,3) assms(3,4) by (intro option_eqI) (auto simp: get_from_ext_texts)
  ultimately show ?thesis using d st'(2) by blast
qed

text \<open>
  C16. A message that ends a file and takes less than ten bytes with its length is lost: the reader
  takes the file as ended before it, without an error.
\<close>

theorem short_last_message_lost:
  assumes "wire W" and "length (encode_length_delimited W m) < 10"
    and "\<forall>m\<in>set ms. length (w_encode W m) \<le> u64_max \<and> 10 \<le> length (encode_length_delimited W m)"
  shows "read_messages W (concat (map (encode_length_delimited W) (ms @ [m]))) = Some ms"
  using wire.read_messages_short_tail[OF assms(1,3,2)] by simp

section \<open>An instance of the wire format\<close>

text \<open>The variable length integers of protobuf: seven bits per byte, least significant first.\<close>

function leb :: "nat \<Rightarrow> byte list" where
  "leb n = (if n < 128 then [word_of_nat n] else word_of_nat (n mod 128 + 128) # leb (n div 128))"
  by auto
termination by (relation "measure id") auto

declare leb.simps [simp del]

fun unleb :: "byte list \<Rightarrow> (nat \<times> byte list) option" where
  "unleb [] = None"
| "unleb (b # bs) = (if unat b < 128 then Some (unat b, bs)
     else do { (n, rest) \<leftarrow> unleb bs; Some (unat b - 128 + 128 * n, rest) })"

lemma unat_byte: "n < 256 \<Longrightarrow> unat (word_of_nat n :: byte) = n"
  by (simp add: unat_of_nat)

lemma unleb_leb [simp]: "unleb (leb n @ rest) = Some (n, rest)"
proof (induction n rule: leb.induct)
  case (1 n)
  have u: "unat (word_of_nat (n mod 128 + 128) :: byte) = n mod 128 + 128" by (rule unat_byte) simp
  show ?case
  proof (cases "n < 128")
    case True
    then show ?thesis by (simp add: leb.simps[of n] unat_byte)
  next
    case False
    then show ?thesis using "1.IH" u by (simp add: leb.simps[of n] del: of_nat_add)
  qed
qed

lemma leb_length: "n < 128 ^ Suc k \<Longrightarrow> length (leb n) \<le> Suc k"
proof (induction k arbitrary: n)
  case 0
  then show ?case by (subst leb.simps) simp
next
  case (Suc k)
  have "n div 128 < 128 ^ Suc k" using Suc.prems by (simp add: less_mult_imp_div_less mult.commute)
  then show ?case using Suc.IH by (subst leb.simps) simp
qed

lemma leb_nonempty [simp]: "leb n \<noteq> []"
  by (subst leb.simps) simp

lemma leb_small: "n < 128 \<Longrightarrow> leb n = [word_of_nat n]"
  by (subst leb.simps) simp

definition ex_encode :: "ids_with_type \<Rightarrow> byte list" where
  "ex_encode m = leb (iwt_type_id m) @ (case iwt_data m of None \<Rightarrow> [0] | Some (Raw b) \<Rightarrow> 1 # b | Some (Lz4Data b) \<Rightarrow> 2 # b)"

definition ex_decode :: "byte list \<Rightarrow> ids_with_type option" where
  "ex_decode b = do {
     (ty, b) \<leftarrow> unleb b;
     (case b of [] \<Rightarrow> None
      | t # b \<Rightarrow> Some \<lparr>iwt_type_id = ty, iwt_data = (if t = 0 then None else if t = 1 then Some (Raw b) else Some (Lz4Data b))\<rparr>) }"

definition ex_wire :: "ids_with_type wire_ops" where
  "ex_wire = \<lparr>w_varint = leb, w_varint_size = (\<lambda>n. length (leb n)), w_delimiter = (\<lambda>b. map_option fst (unleb b)),
     w_as_bytes = map (\<lambda>c. word_of_nat (of_char c)),
     w_merge = (\<lambda>b. do { (n, b) \<leftarrow> unleb b; ensure (n \<le> length b);
                         Some (map (\<lambda>w. char_of (unat w)) (take n b), drop n b) }),
     w_compress = (\<lambda>b. replicate 11 0 @ b), w_decompress = (\<lambda>b. Some (drop 11 b)),
     w_encode = ex_encode, w_decode = ex_decode\<rparr>"

lemma char_byte: "char_of (unat (word_of_nat (of_char c) :: byte)) = c"
proof -
  have "of_char c < (256::nat)" by (rule nat_of_char_less_256)
  then show ?thesis by (simp add: unat_byte)
qed

interpretation ex_wire: wire ex_wire
proof
  show "length (w_varint ex_wire n) = w_varint_size ex_wire n \<and> w_varint_size ex_wire n \<le> 10" if "n \<le> u64_max" for n
    using leb_length[of n 9] that by (simp add: ex_wire_def u64_max_def)
  show "w_merge ex_wire (w_varint ex_wire (length (w_as_bytes ex_wire s)) @ w_as_bytes ex_wire s @ rest) = Some (s, rest)"
    for s rest
    by (simp add: ex_wire_def comp_def char_byte)
  show "w_decode ex_wire (w_encode ex_wire m) = Some m" for m
    by (auto simp: ex_wire_def ex_encode_def ex_decode_def split: option.splits ids_data.splits)
qed (simp_all add: ex_wire_def)

definition ex_store :: id_store where
  "ex_store = \<lparr>st_ids = [1 \<mapsto> [\<lparr>ui_internal = 0, ui_external = ''car''\<rparr>]], st_mapping = [1 \<mapsto> [''car'' \<mapsto> 0]]\<rparr>"

lemma ex_store_ok: "store_ok ex_store"
  by (auto simp: store_ok_def type_ok_def ex_store_def entry_or_def ids_ok_def)

interpretation sorted_order: hash_order "sorted_list_of_set :: nat set \<Rightarrow> nat list"
  by unfold_locales auto

theorem id_file_roundtrip_witness:
  "\<exists>st'. deserialize_store ex_wire (serialize_store ex_wire sorted_list_of_set LZ4 ex_store) id_store_new = Some st' \<and>
     id_get StringT 0 st' = Some \<lparr>ui_internal = 0, ui_external = ''car''\<rparr>"
proof -
  have len: "length (ex_encode (type_message ex_wire LZ4 ex_store 1)) = 17"
    by (simp add: type_message_def ex_encode_def ex_wire_def ex_store_def entry_or_def encode_ids_def leb_small)
  then have fits: "\<forall>ty xs. st_ids ex_store ty = Some xs \<longrightarrow>
      (\<forall>x\<in>set xs. length (w_as_bytes ex_wire (ui_external x)) \<le> u64_max) \<and>
      length (w_encode ex_wire (type_message ex_wire LZ4 ex_store ty)) \<le> u64_max \<and>
      10 \<le> length (encode_length_delimited ex_wire (type_message ex_wire LZ4 ex_store ty))"
    by (auto simp: encode_length_delimited_def ex_store_def u64_max_def ex_wire_def leb_small split: if_splits)
  have fin: "finite (dom (st_ids ex_store))" by (simp add: ex_store_def)
  from id_file_roundtrip[OF ex_wire.wire_axioms sorted_order.hash_order_axioms ex_store_ok store_ok_new fin fits]
  obtain st' where st': "deserialize_store ex_wire (serialize_store ex_wire sorted_list_of_set LZ4 ex_store) id_store_new = Some st'"
    "\<forall>T i. id_get T i st' = id_get T i (if stable_type_id T \<in> dom (st_ids ex_store) then ex_store else id_store_new)" by metis
  then have "id_get StringT 0 st' = id_get StringT 0 ex_store" by (simp add: ex_store_def)
  then show ?thesis using st'(1) by (auto simp: id_get_def ex_store_def vec_get_def)
qed

theorem short_last_message_lost_witness:
  "read_messages ex_wire (encode_length_delimited ex_wire (type_message ex_wire NoCompression ex_store 1)) = Some []"
proof -
  have "length (encode_length_delimited ex_wire (type_message ex_wire NoCompression ex_store 1)) < 10"
    by (simp add: encode_length_delimited_def type_message_def ex_encode_def ex_wire_def ex_store_def entry_or_def encode_ids_def leb_small)
  from short_last_message_lost[OF ex_wire.wire_axioms this, of "[]"] show ?thesis by simp
qed

end
