(* ===== verification/Plans.thy ===== *)
theory Plans
  imports Sim_Time
begin

text \<open>
  The demand data of the simulation and what is computed from it without running anything:
  persons, plans, activities, legs and routes (\<open>scenario/population.rs\<close>), the interpretation of
  their times (\<open>time/time_interpretation.rs\<close>) and the trips of a plan
  (\<open>scenario/trip_structure_utils.rs\<close>).

  Ids of links are their internal numbers, ids of persons, vehicles, modes and activity types
  their external text; the id store makes the two interchangeable.
  A value of \<open>InternalAttributes\<close> is a JSON value of the \<open>serde_json\<close> package and is
  represented by what its deserialisation yields at the types the program asks for.
\<close>

type_synonym link_id = nat
type_synonym node_id = nat
type_synonym part_id = nat
type_synonym person_id = string
type_synonym veh_id = string
type_synonym mode = string

section \<open>Data\<close>

record attr_value =
  as_u32 :: "nat option"
  as_string :: "string option"

type_synonym internal_attributes = "string \<rightharpoonup> attr_value"

definition attr_get_u32 :: "internal_attributes \<Rightarrow> string \<Rightarrow> nat option" where
  "attr_get_u32 attrs key = Option.bind (attrs key) as_u32"

record coordinate =
  coord_x :: f64
  coord_y :: f64
  coord_z :: f64

record internal_activity =
  act_type :: string
  act_link_id :: link_id
  act_coord :: "coordinate option"
  act_start_time :: "sim_time option"
  act_end_time :: "sim_time option"
  act_max_dur :: "duration option"
  act_attributes :: internal_attributes

record generic_route =
  gr_start_link :: link_id
  gr_end_link :: link_id
  gr_trav_time :: "duration option"
  gr_distance :: "f64 option"
  gr_vehicle :: "veh_id option"

record network_route =
  nr_generic_delegate :: generic_route
  nr_route :: "link_id list"

record pt_route_description =
  ptd_transit_route_id :: string
  ptd_boarding_time :: "duration option"
  ptd_transit_line_id :: string
  ptd_access_facility_id :: string
  ptd_egress_facility_id :: string

record pt_route =
  pt_generic_delegate :: generic_route
  pt_description :: pt_route_description

datatype internal_route = Generic generic_route | Network network_route | Pt pt_route

record internal_leg =
  leg_mode :: mode
  leg_routing_mode :: "mode option"
  leg_dep_time :: "sim_time option"
  leg_trav_time :: "duration option"
  leg_route :: "internal_route option"
  leg_attributes :: internal_attributes

datatype plan_element = Activity internal_activity | Leg internal_leg

record internal_plan =
  plan_score :: "f64 option"
  plan_selected :: bool
  plan_elements :: "plan_element list"

record internal_person =
  person_ident :: person_id
  person_plans :: "internal_plan list"
  person_subpopulation :: string
  person_attributes :: internal_attributes

section \<open>Accessors\<close>

definition list_get :: "'a list \<Rightarrow> nat \<Rightarrow> 'a option" where
  "list_get xs i = (if i < length xs then Some (xs ! i) else None)"

fun as_activity :: "plan_element \<Rightarrow> internal_activity option" where
  "as_activity (Activity a) = Some a"
| "as_activity (Leg l) = None"

fun as_leg :: "plan_element \<Rightarrow> internal_leg option" where
  "as_leg (Leg l) = Some l"
| "as_leg (Activity a) = None"

fun as_generic :: "internal_route \<Rightarrow> generic_route" where
  "as_generic (Generic g) = g"
| "as_generic (Network n) = nr_generic_delegate n"
| "as_generic (Pt p) = pt_generic_delegate p"

fun as_network :: "internal_route \<Rightarrow> network_route option" where
  "as_network (Network n) = Some n"
| "as_network r = None"

fun as_pt :: "internal_route \<Rightarrow> pt_route option" where
  "as_pt (Pt p) = Some p"
| "as_pt r = None"

definition route_start_link :: "internal_route \<Rightarrow> link_id" where
  "route_start_link r = gr_start_link (as_generic r)"

definition route_end_link :: "internal_route \<Rightarrow> link_id" where
  "route_end_link r = gr_end_link (as_generic r)"

definition route_element_at :: "network_route \<Rightarrow> nat \<Rightarrow> link_id option" where
  "route_element_at n i = list_get (nr_route n) i"

definition plan_default :: internal_plan where
  "plan_default = \<lparr>plan_score = None, plan_selected = True, plan_elements = []\<rparr>"

definition add_leg :: "internal_leg \<Rightarrow> internal_plan \<Rightarrow> internal_plan" where
  "add_leg l p = p\<lparr>plan_elements := plan_elements p @ [Leg l]\<rparr>"

definition add_act :: "internal_activity \<Rightarrow> internal_plan \<Rightarrow> internal_plan" where
  "add_act a p = p\<lparr>plan_elements := plan_elements p @ [Activity a]\<rparr>"

definition plan_legs :: "internal_plan \<Rightarrow> internal_leg list" where
  "plan_legs p = List.map_filter as_leg (plan_elements p)"

definition plan_acts :: "internal_plan \<Rightarrow> internal_activity list" where
  "plan_acts p = List.map_filter as_activity (plan_elements p)"

definition person_new :: "person_id \<Rightarrow> internal_plan \<Rightarrow> internal_person" where
  "person_new i plan = \<lparr>person_ident = i, person_plans = [plan],
     person_subpopulation = ''person'', person_attributes = Map.empty\<rparr>"

definition selected_plan :: "internal_person \<Rightarrow> internal_plan option" where
  "selected_plan p = List.find plan_selected (person_plans p)"

text \<open>\<open>selected_plan_mut\<close> hands out the first selected plan for mutation: here its update.\<close>

fun update_first_selected :: "(internal_plan \<Rightarrow> internal_plan) \<Rightarrow> internal_plan list \<Rightarrow> internal_plan list option" where
  "update_first_selected f [] = None"
| "update_first_selected f (p # ps) =
     (if plan_selected p then Some (f p # ps)
      else map_option ((#) p) (update_first_selected f ps))"

definition selected_plan_mut :: "(internal_plan \<Rightarrow> internal_plan) \<Rightarrow> internal_person \<Rightarrow> internal_person option" where
  "selected_plan_mut f p = do {
     ps \<leftarrow> update_first_selected f (person_plans p);
     Some (p\<lparr>person_plans := ps\<rparr>) }"

text \<open>The lookups return \<open>None\<close> for a panic, \<open>Some None\<close> for an index past the end.\<close>

definition plan_element_at :: "internal_person \<Rightarrow> nat \<Rightarrow> plan_element option option" where
  "plan_element_at p i = do { pl \<leftarrow> selected_plan p; Some (list_get (plan_elements pl) i) }"

definition total_elements :: "internal_person \<Rightarrow> nat option" where
  "total_elements p = do { pl \<leftarrow> selected_plan p; Some (length (plan_elements pl)) }"

definition activity_new :: "coordinate option \<Rightarrow> string \<Rightarrow> link_id \<Rightarrow> sim_time option \<Rightarrow> sim_time option \<Rightarrow>
    duration option \<Rightarrow> internal_activity" where
  "activity_new coord typ link start en dur = \<lparr>act_type = typ, act_link_id = link, act_coord = coord,
     act_start_time = start, act_end_time = en, act_max_dur = dur, act_attributes = Map.empty\<rparr>"

definition leg_new :: "internal_route \<Rightarrow> mode \<Rightarrow> duration \<Rightarrow> sim_time option \<Rightarrow> internal_leg" where
  "leg_new route m dur dep = \<lparr>leg_mode = m, leg_routing_mode = Some m, leg_dep_time = dep,
     leg_trav_time = Some dur, leg_route = Some route, leg_attributes = Map.empty\<rparr>"

definition cmp_end_time :: "internal_activity \<Rightarrow> sim_time \<Rightarrow> sim_time option" where
  "cmp_end_time a begin_time =
     (case act_end_time a of
        Some e \<Rightarrow> Some e
      | None \<Rightarrow> (case act_max_dur a of
           Some d \<Rightarrow> simtime_saturating_add begin_time d
         | None \<Rightarrow> Some (from_nanos u64_max)))"

definition str_contains :: "string \<Rightarrow> string \<Rightarrow> bool" where
  "str_contains pat s = list_ex (\<lambda>i. take (length pat) (drop i s) = pat) [0..<Suc (length s)]"

definition is_interaction :: "internal_activity \<Rightarrow> bool" where
  "is_interaction a = str_contains ''interaction'' (act_type a)"

definition travel_time :: "internal_leg \<Rightarrow> duration option" where
  "travel_time l =
     (case leg_trav_time l of
        Some d \<Rightarrow> Some d
      | None \<Rightarrow> do { r \<leftarrow> leg_route l; gr_trav_time (as_generic r) })"

section \<open>Interpretation of times\<close>

text \<open>The outer option is the panic of \<open>saturating_add\<close>, the inner one an undefined time.\<close>

definition decide_on_activity_end_time :: "internal_activity \<Rightarrow> sim_time \<Rightarrow> sim_time option option" where
  "decide_on_activity_end_time a start =
     (case act_end_time a of
        Some e \<Rightarrow> Some (Some e)
      | None \<Rightarrow> (case act_max_dur a of
           Some d \<Rightarrow> do { t \<leftarrow> simtime_saturating_add start d; Some (Some t) }
         | None \<Rightarrow> Some None))"

definition decide_on_leg_travel_time :: "internal_leg \<Rightarrow> duration option" where
  "decide_on_leg_travel_time l =
     (case Option.bind (leg_route l) (\<lambda>r. gr_trav_time (as_generic r)) of
        Some d \<Rightarrow> Some d
      | None \<Rightarrow> leg_trav_time l)"

fun decide_on_element_end_time :: "plan_element \<Rightarrow> sim_time \<Rightarrow> sim_time option option" where
  "decide_on_element_end_time (Activity a) start = decide_on_activity_end_time a start"
| "decide_on_element_end_time (Leg l) start =
     (case decide_on_leg_travel_time l of
        Some d \<Rightarrow> do { t \<leftarrow> simtime_saturating_add start d; Some (Some t) }
      | None \<Rightarrow> Some None)"

fun decide_on_elements_end_time :: "plan_element list \<Rightarrow> sim_time \<Rightarrow> sim_time option option" where
  "decide_on_elements_end_time [] t = Some (Some t)"
| "decide_on_elements_end_time (e # es) t = do {
     r \<leftarrow> decide_on_element_end_time e t;
     (case r of None \<Rightarrow> Some None | Some t' \<Rightarrow> decide_on_elements_end_time es t') }"

text \<open>
  \<open>decide_on_activity_end_time_along_plan\<close> finds the activity by the address of its element
  (\<open>std::ptr::eq\<close>): the activity is given by its position in the plan, \<open>None\<close> for an activity
  that is not an element of it. The loop carries the index of the current element.
\<close>

fun along_plan :: "nat option \<Rightarrow> nat \<Rightarrow> plan_element list \<Rightarrow> sim_time \<Rightarrow> sim_time option option" where
  "along_plan pos i [] t = Some None"
| "along_plan pos i (e # es) t =
     (case (as_activity e, pos = Some i) of
        (Some a, True) \<Rightarrow> decide_on_activity_end_time a t
      | _ \<Rightarrow> do {
          r \<leftarrow> decide_on_element_end_time e t;
          (case r of None \<Rightarrow> Some None | Some t' \<Rightarrow> along_plan pos (Suc i) es t') })"

definition decide_on_activity_end_time_along_plan ::
    "sim_time \<Rightarrow> nat option \<Rightarrow> internal_plan \<Rightarrow> sim_time option option" where
  "decide_on_activity_end_time_along_plan simulation_start_time pos plan =
     along_plan pos 0 (plan_elements plan) simulation_start_time"

section \<open>Trips\<close>

record trip_span =
  origin_index :: nat
  destination_index :: nat

definition identify_main_mode :: "plan_element list \<Rightarrow> mode option" where
  "identify_main_mode els =
     (let first_leg = Option.bind (list_get els 0) as_leg;
          md = Option.bind first_leg leg_routing_mode
      in if md = None \<and> length els = 1 then map_option leg_mode first_leg else md)"

definition activity_at :: "plan_element list \<Rightarrow> nat \<Rightarrow> internal_activity option" where
  "activity_at els i = do { e \<leftarrow> list_get els i; as_activity e }"

text \<open>The slice \<open>els[a..b]\<close> panics unless \<open>a \<le> b \<le> els.len()\<close>.\<close>

definition slice :: "'a list \<Rightarrow> nat \<Rightarrow> nat \<Rightarrow> 'a list option" where
  "slice xs a b = do { _ \<leftarrow> ensure (a \<le> b \<and> b \<le> length xs); Some (take (b - a) (drop a xs)) }"

definition span_origin :: "trip_span \<Rightarrow> plan_element list \<Rightarrow> internal_activity option" where
  "span_origin s els = activity_at els (origin_index s)"

definition span_destination :: "trip_span \<Rightarrow> plan_element list \<Rightarrow> internal_activity option" where
  "span_destination s els = activity_at els (destination_index s)"

definition trip_elements :: "trip_span \<Rightarrow> plan_element list \<Rightarrow> plan_element list option" where
  "trip_elements s els = slice els (origin_index s + 1) (destination_index s)"

definition span_legs :: "trip_span \<Rightarrow> plan_element list \<Rightarrow> internal_leg list option" where
  "span_legs s els = map_option (List.map_filter as_leg) (trip_elements s els)"

definition replace_trip_elements ::
    "trip_span \<Rightarrow> plan_element list \<Rightarrow> plan_element list \<Rightarrow> (trip_span \<times> plan_element list) option" where
  "replace_trip_elements s els new_elements = do {
     _ \<leftarrow> ensure (origin_index s + 1 \<le> destination_index s \<and> destination_index s \<le> length els);
     Some (\<lparr>origin_index = origin_index s,
            destination_index = origin_index s + length new_elements + 1\<rparr>,
           take (origin_index s + 1) els @ new_elements @ drop (destination_index s) els) }"

text \<open>The loop of \<open>trip_spans\<close>; \<open>-1\<close> stands for an origin not yet seen, as in the source.\<close>

fun trip_spans_from :: "(internal_activity \<Rightarrow> bool) \<Rightarrow> int \<Rightarrow> int \<Rightarrow> plan_element list \<Rightarrow> trip_span list" where
  "trip_spans_from stage origin current [] = []"
| "trip_spans_from stage origin current (pe # pes) =
     (let current = current + 1 in
      case as_activity pe of
        None \<Rightarrow> trip_spans_from stage origin current pes
      | Some act \<Rightarrow>
          if stage act then trip_spans_from stage origin current pes
          else if origin = -1 then trip_spans_from stage current current pes
          else (if current - origin > 1
                then [\<lparr>origin_index = nat origin, destination_index = nat current\<rparr>] else [])
               @ trip_spans_from stage current current pes)"

definition trip_spans :: "(internal_activity \<Rightarrow> bool) \<Rightarrow> plan_element list \<Rightarrow> trip_span list" where
  "trip_spans stage els = trip_spans_from stage (-1) (-1) els"

definition get_trip_spans_default :: "plan_element list \<Rightarrow> trip_span list" where
  "get_trip_spans_default els = trip_spans is_interaction els"

definition find_trip_span_starting_at_activity ::
    "plan_element list \<Rightarrow> nat \<Rightarrow> (internal_activity \<Rightarrow> bool) \<Rightarrow> trip_span option option" where
  "find_trip_span_starting_at_activity els start stage = do {
     rest \<leftarrow> slice els start (length els);
     Some (case trip_spans stage rest of
             [] \<Rightarrow> None
           | s # _ \<Rightarrow> Some \<lparr>origin_index = start + origin_index s,
                            destination_index = start + destination_index s\<rparr>) }"

definition find_trip_span_starting_at_activity_default :: "plan_element list \<Rightarrow> nat \<Rightarrow> trip_span option option" where
  "find_trip_span_starting_at_activity_default els start =
     find_trip_span_starting_at_activity els start is_interaction"

section \<open>The trips of a plan\<close>

text \<open>A main activity is one that is not a stage activity; trips run between main activities.\<close>

definition is_main :: "(internal_activity \<Rightarrow> bool) \<Rightarrow> plan_element \<Rightarrow> bool" where
  "is_main stage e = (case as_activity e of None \<Rightarrow> False | Some a \<Rightarrow> \<not> stage a)"

definition is_trip :: "(internal_activity \<Rightarrow> bool) \<Rightarrow> plan_element list \<Rightarrow> trip_span \<Rightarrow> bool" where
  "is_trip stage els s \<longleftrightarrow>
     origin_index s + 1 < destination_index s \<and> destination_index s < length els \<and>
     is_main stage (els ! origin_index s) \<and> is_main stage (els ! destination_index s) \<and>
     (\<forall>k. origin_index s < k \<and> k < destination_index s \<longrightarrow> \<not> is_main stage (els ! k))"

text \<open>What the loop knows after the prefix \<open>pre\<close>: the position of its last main activity.\<close>

definition last_main :: "(internal_activity \<Rightarrow> bool) \<Rightarrow> plan_element list \<Rightarrow> int \<Rightarrow> bool" where
  "last_main stage pre origin \<longleftrightarrow>
     (if origin = -1 then \<forall>k < length pre. \<not> is_main stage (pre ! k)
      else \<exists>j < length pre. origin = int j \<and> is_main stage (pre ! j) \<and>
             (\<forall>k. j < k \<and> k < length pre \<longrightarrow> \<not> is_main stage (pre ! k)))"

lemma trip_spans_from_Cons:
  "trip_spans_from stage origin current (pe # pes) =
     (if \<not> is_main stage pe then trip_spans_from stage origin (current + 1) pes
      else (if origin \<noteq> -1 \<and> current + 1 - origin > 1
            then [\<lparr>origin_index = nat origin, destination_index = nat (current + 1)\<rparr>] else [])
           @ trip_spans_from stage (current + 1) (current + 1) pes)"
  by (auto simp: is_main_def Let_def split: option.splits)

declare trip_spans_from.simps(2) [simp del]

lemma last_main_snoc:
  "last_main stage pre origin \<Longrightarrow> \<not> is_main stage pe \<Longrightarrow> last_main stage (pre @ [pe]) origin"
  "is_main stage pe \<Longrightarrow> last_main stage (pre @ [pe]) (int (length pre))"
  by (auto simp: last_main_def nth_append less_Suc_eq split: if_splits)

lemma trip_ending_here:
  assumes "last_main stage pre origin" and "is_main stage pe"
  shows "is_trip stage (pre @ pe # pes) s \<and> destination_index s = length pre \<longleftrightarrow>
    origin \<noteq> -1 \<and> int (length pre) - origin > 1 \<and>
    s = \<lparr>origin_index = nat origin, destination_index = length pre\<rparr>" (is "?L \<longleftrightarrow> ?R")
proof
  assume L: ?L
  define j where "j = origin_index s"
  have j: "j + 1 < length pre" "is_main stage (pre ! j)" using L by (auto simp: is_trip_def nth_append j_def)
  then have ne: "origin \<noteq> -1" using assms(1) by (auto simp: last_main_def)
  then obtain i where i: "i < length pre" "origin = int i" "is_main stage (pre ! i)"
    "\<And>k. i < k \<Longrightarrow> k < length pre \<Longrightarrow> \<not> is_main stage (pre ! k)"
    using assms(1) by (auto simp: last_main_def)
  have "j \<le> i" using i(4) j by (meson not_le_imp_less less_trans less_add_one)
  moreover have "\<not> j < i" using L i by (auto simp: is_trip_def nth_append j_def)
  ultimately have "j = i" by simp
  then show ?R using L ne i j by (cases s) (auto simp: j_def)
next
  assume R: ?R
  then show ?L using assms by (auto simp: is_trip_def last_main_def nth_append)
qed

lemma set_trip_spans_from:
  assumes "last_main stage pre origin"
  shows "set (trip_spans_from stage origin (int (length pre) - 1) pes) =
    {s. is_trip stage (pre @ pes) s \<and> length pre \<le> destination_index s}"
  using assms
proof (induction pes arbitrary: pre origin)
  case Nil
  then show ?case by (auto simp: is_trip_def)
next
  case (Cons pe pes)
  have later: "{s. is_trip stage (pre @ pe # pes) s \<and> length pre \<le> destination_index s} =
      {s. is_trip stage (pre @ pe # pes) s \<and> destination_index s = length pre} \<union>
      {s. is_trip stage ((pre @ [pe]) @ pes) s \<and> length (pre @ [pe]) \<le> destination_index s}"
    by auto
  show ?case
  proof (cases "is_main stage pe")
    case False
    then have "{s. is_trip stage (pre @ pe # pes) s \<and> destination_index s = length pre} = {}"
      by (auto simp: is_trip_def)
    then show ?thesis
      using Cons.IH[OF last_main_snoc(1)[OF Cons.prems False]] False unfolding later
      by (simp add: trip_spans_from_Cons del: Collect_empty_eq)
  next
    case True
    then show ?thesis
      using Cons.IH[OF last_main_snoc(2)[OF True, of pre]] trip_ending_here[OF Cons.prems True, of pes] later
      by (auto simp: trip_spans_from_Cons)
  qed
qed

lemma sorted_trip_spans_from:
  assumes "last_main stage pre origin"
  shows "sorted_wrt (\<lambda>s t. destination_index s \<le> origin_index t)
    (trip_spans_from stage origin (int (length pre) - 1) pes)"
  using assms
proof (induction pes arbitrary: pre origin)
  case Nil
  then show ?case by simp
next
  case (Cons pe pes)
  show ?case
  proof (cases "is_main stage pe")
    case False
    then show ?thesis
      using Cons.IH[OF last_main_snoc(1)[OF Cons.prems False]] by (simp add: trip_spans_from_Cons)
  next
    case True
    have "length pre \<le> origin_index t"
      if "t \<in> set (trip_spans_from stage (int (length pre)) (int (length pre)) pes)" for t
    proof (rule ccontr)
      assume "\<not> length pre \<le> origin_index t"
      moreover have "is_trip stage (pre @ pe # pes) t" "length pre < destination_index t"
        using that set_trip_spans_from[OF last_main_snoc(2)[OF True, of pre], of pes] by auto
      ultimately have "\<not> is_main stage ((pre @ pe # pes) ! length pre)"
        unfolding is_trip_def using linorder_not_le by blast
      with True show False by simp
    qed
    then show ?thesis
      using Cons.IH[OF last_main_snoc(2)[OF True, of pre]] True by (simp add: trip_spans_from_Cons)
  qed
qed

lemma set_trip_spans: "set (trip_spans stage els) = {s. is_trip stage els s}"
  using set_trip_spans_from[of stage "[]" "-1" els] by (simp add: trip_spans_def last_main_def)

lemma sorted_trip_spans:
  "sorted_wrt (\<lambda>s t. destination_index s \<le> origin_index t) (trip_spans stage els)"
  using sorted_trip_spans_from[of stage "[]" "-1" els] by (simp add: trip_spans_def last_main_def)

text \<open>
  C12. \<open>trip_spans\<close> computes exactly the trips of a plan, in plan order and without overlap: the
  pairs of main activities with at least one element and no further main activity between them.
\<close>

theorem trip_spans_correct:
  "(s \<in> set (trip_spans stage els) \<longleftrightarrow> is_trip stage els s) \<and>
   sorted_wrt (\<lambda>s t. destination_index s \<le> origin_index t) (trip_spans stage els)"
  using set_trip_spans[of stage els] sorted_trip_spans by blast

lemma is_trip_drop:
  "start \<le> length els \<Longrightarrow> is_trip stage (drop start els) s \<longleftrightarrow>
     is_trip stage els \<lparr>origin_index = start + origin_index s, destination_index = start + destination_index s\<rparr>"
  unfolding is_trip_def
  by (auto simp: add.commute) (metis add.commute le_add_diff_inverse less_diff_conv less_imp_le_nat
      nat_add_left_cancel_less trans_less_add1)

abbreviation trip_at :: "nat \<Rightarrow> nat \<Rightarrow> trip_span" where
  "trip_at i j \<equiv> \<lparr>origin_index = i, destination_index = j\<rparr>"

lemma find_trip_span_main:
  assumes trip: "is_trip stage els (trip_at i j)"
  shows "find_trip_span_starting_at_activity els i stage = Some (Some (trip_at i j))"
proof -
  have i: "i \<le> length els" using trip by (auto simp: is_trip_def)
  then have mem: "trip_at 0 (j - i) \<in> set (trip_spans stage (drop i els))"
    using trip by (auto simp: set_trip_spans is_trip_drop is_trip_def)
  then obtain s ss where ss: "trip_spans stage (drop i els) = s # ss"
    by (cases "trip_spans stage (drop i els)") auto
  have "s = trip_at 0 (j - i)"
  proof (rule ccontr)
    assume "s \<noteq> trip_at 0 (j - i)"
    then have "destination_index s \<le> 0"
      using mem ss sorted_trip_spans[of stage "drop i els"] by force
    moreover have "is_trip stage (drop i els) s" using ss set_trip_spans[of stage "drop i els"] by auto
    ultimately show False by (simp add: is_trip_def)
  qed
  then show ?thesis
    using ss i trip by (simp add: find_trip_span_starting_at_activity_def slice_def is_trip_def)
qed

lemma find_trip_span_is_trip:
  assumes "find_trip_span_starting_at_activity els start stage = Some (Some s)"
  shows "is_trip stage els s" and "start \<le> origin_index s"
proof -
  from assms obtain t where le: "start \<le> length els" and t: "t \<in> set (trip_spans stage (drop start els))"
    and s: "s = trip_at (start + origin_index t) (start + destination_index t)"
    by (auto simp: find_trip_span_starting_at_activity_def slice_def split: list.splits)
  then show "is_trip stage els s" using is_trip_drop[OF le, of stage t] by (simp add: set_trip_spans)
  show "start \<le> origin_index s" using s by simp
qed

lemma replaced_trip:
  assumes trip: "is_trip stage els (trip_at i j)"
    and new: "new \<noteq> []" "\<forall>e \<in> set new. \<not> is_main stage e"
    and els': "els' = take (i + 1) els @ new @ drop j els"
  shows "is_trip stage els' (trip_at i (i + length new + 1))"
proof -
  have ij: "i + 1 < j" "j < length els" and main: "is_main stage (els ! i)" "is_main stage (els ! j)"
    using trip by (auto simp: is_trip_def)
  have at: "els' ! k = (if k < i + 1 then els ! k else if k < i + 1 + length new then new ! (k - (i + 1))
      else els ! (j + (k - (i + 1) - length new)))" if "k < i + length new + 2" for k
    using that ij by (auto simp: els' nth_append)
  have "\<not> is_main stage (els' ! k)" if "i < k" "k < i + length new + 1" for k
    using that at[of k] new(2) by (simp add: nth_mem)
  moreover have "i + length new + 1 < length els'" using ij by (simp add: els')
  moreover have "i < i + length new + 2" "i + length new + 1 < i + length new + 2" by simp_all
  ultimately show ?thesis
    using main new(1) at[of i] at[of "i + length new + 1"] by (simp add: is_trip_def)
qed

text \<open>
  Replacing the elements of a trip: the call does not panic, origin, destination and
  everything outside the trip stay where they are, the returned span is the trip that a search
  from the origin finds in the new plan, its elements are the new ones, and putting the old
  elements back restores the plan.
\<close>

theorem replace_trip_roundtrip:
  assumes trip: "is_trip stage els s" and new: "new \<noteq> []" "\<forall>e \<in> set new. \<not> is_main stage e"
  shows "\<exists>s' els' old. replace_trip_elements s els new = Some (s', els') \<and>
    trip_elements s els = Some old \<and>
    find_trip_span_starting_at_activity els' (origin_index s) stage = Some (Some s') \<and>
    trip_elements s' els' = Some new \<and>
    span_origin s' els' = span_origin s els \<and> span_destination s' els' = span_destination s els \<and>
    take (origin_index s + 1) els' = take (origin_index s + 1) els \<and>
    drop (destination_index s') els' = drop (destination_index s) els \<and>
    replace_trip_elements s' els' old = Some (s, els)"
proof -
  obtain i j where s: "s = trip_at i j" by (cases s) auto
  have ij: "i + 1 < j" "j < length els" using trip by (auto simp: is_trip_def s)
  define els' where "els' = take (i + 1) els @ new @ drop j els"
  let ?j = "i + length new + 1" and ?old = "take (j - (i + 1)) (drop (i + 1) els)"
  have len: "length els' = ?j + (length els - j)" using ij by (simp add: els'_def)
  have take': "take (i + 1) els' = take (i + 1) els" "drop ?j els' = drop j els"
    using ij by (simp_all add: els'_def)
  have at: "els' ! i = els ! i" "els' ! ?j = els ! j"
    using ij by (simp_all add: els'_def nth_append)
  have old: "take (i + 1) els @ ?old @ drop j els = els"
    using ij by (metis append_take_drop_id drop_drop add.commute le_add_diff_inverse less_imp_le append.assoc)
  have "replace_trip_elements s els new = Some (trip_at i ?j, els')"
    using ij by (simp add: replace_trip_elements_def s els'_def)
  moreover have "trip_elements s els = Some ?old"
    using ij by (simp add: trip_elements_def slice_def s)
  moreover have "trip_elements (trip_at i ?j) els' = Some new"
  proof -
    have "?j \<le> length els'" using len by simp
    moreover have "take (?j - (i + 1)) (drop (i + 1) els') = new" using ij by (simp add: els'_def)
    ultimately show ?thesis by (simp add: trip_elements_def slice_def)
  qed
  moreover have "replace_trip_elements (trip_at i ?j) els' ?old = Some (s, els)"
  proof -
    have "i + 1 \<le> ?j" "?j \<le> length els'" "i + length ?old + 1 = j" using len ij by simp_all
    then show ?thesis using take' old by (simp add: replace_trip_elements_def s)
  qed
  moreover have "find_trip_span_starting_at_activity els' i stage = Some (Some (trip_at i ?j))"
    using replaced_trip[OF trip[unfolded s] new els'_def] by (rule find_trip_span_main)
  ultimately show ?thesis
    using ij len take' at
    by (auto simp: s span_origin_def span_destination_def activity_at_def list_get_def)
qed

lemma along_plan_take:
  assumes "i < length els" "els ! i = Activity a"
  shows "along_plan (Some (k + i)) k els t = do {
      r \<leftarrow> decide_on_elements_end_time (take i els) t;
      (case r of None \<Rightarrow> Some None | Some t \<Rightarrow> decide_on_activity_end_time a t) }"
  using assms
proof (induction els arbitrary: i t k)
  case Nil
  then show ?case by simp
next
  case (Cons e els)
  show ?case
  proof (cases i)
    case 0
    then show ?thesis using Cons.prems by simp
  next
    case (Suc i')
    have ih: "along_plan (Some (Suc (k + i'))) (Suc k) els t' = do {
        r \<leftarrow> decide_on_elements_end_time (take i' els) t';
        (case r of None \<Rightarrow> Some None | Some t \<Rightarrow> decide_on_activity_end_time a t) }" for t'
      using Cons.IH[of i' "Suc k" t'] Cons.prems Suc by simp
    show ?thesis
      using Suc by (cases "as_activity e"; cases "decide_on_element_end_time e t")
        (simp_all add: ih split: option.splits)
  qed
qed

text \<open>
  The along-plan end time of an activity is the end time of the activity when it starts at
  the time the elements before it end, and it is undefined when one of those is undefined.
\<close>

theorem activity_end_time_along_plan_spec:
  assumes "list_get (plan_elements plan) i = Some (Activity a)"
  shows "decide_on_activity_end_time_along_plan start (Some i) plan = do {
      r \<leftarrow> decide_on_elements_end_time (take i (plan_elements plan)) start;
      (case r of None \<Rightarrow> Some None | Some t \<Rightarrow> decide_on_activity_end_time a t) }"
  using along_plan_take[of i "plan_elements plan" a 0 start] assms
  by (simp add: decide_on_activity_end_time_along_plan_def list_get_def split: if_splits)

section \<open>Witnesses\<close>

definition ex_home :: internal_activity where
  "ex_home = activity_new None ''home'' 1 None (Some 100) None"

definition ex_stage :: internal_activity where
  "ex_stage = activity_new None ''car interaction'' 1 None None (Some 0)"

definition ex_work :: internal_activity where
  "ex_work = activity_new None ''work'' 3 None None (Some 500)"

definition ex_route :: internal_route where
  "ex_route = Network \<lparr>nr_generic_delegate = \<lparr>gr_start_link = 1, gr_end_link = 3, gr_trav_time = None,
     gr_distance = None, gr_vehicle = Some ''p_car''\<rparr>, nr_route = [1, 2, 3]\<rparr>"

definition ex_leg :: internal_leg where
  "ex_leg = leg_new ex_route ''car'' 20 None"

lemmas ex_defs = ex_home_def ex_stage_def ex_work_def ex_leg_def ex_route_def activity_new_def leg_new_def

lemma ex_is_main:
  "is_main is_interaction (Activity ex_home)" "is_main is_interaction (Activity ex_work)"
  "\<not> is_main is_interaction (Activity ex_stage)" "\<not> is_main is_interaction (Leg ex_leg)"
  by (simp_all add: is_main_def is_interaction_def ex_defs str_contains_def upt_rec)

theorem replace_trip_roundtrip_witness:
  "is_trip is_interaction [Activity ex_home, Leg ex_leg, Activity ex_work] (trip_at 0 2) \<and>
   (\<exists>s' els'. replace_trip_elements (trip_at 0 2) [Activity ex_home, Leg ex_leg, Activity ex_work]
      [Leg ex_leg, Activity ex_stage, Leg ex_leg] = Some (s', els') \<and>
    trip_elements s' els' = Some [Leg ex_leg, Activity ex_stage, Leg ex_leg])"
proof -
  have t: "is_trip is_interaction [Activity ex_home, Leg ex_leg, Activity ex_work] (trip_at 0 2)"
    by (auto simp: is_trip_def ex_is_main less_Suc_eq numeral_2_eq_2)
  show ?thesis
    using replace_trip_roundtrip[OF t, of "[Leg ex_leg, Activity ex_stage, Leg ex_leg]"] t
    by (auto simp: ex_is_main)
qed

theorem activity_end_time_along_plan_witness:
  "decide_on_activity_end_time_along_plan 0 (Some 2) (plan_default\<lparr>plan_elements :=
     [Activity ex_home, Leg ex_leg, Activity ex_work]\<rparr>) = Some (Some 620)"
proof -
  let ?p = "plan_default\<lparr>plan_elements := [Activity ex_home, Leg ex_leg, Activity ex_work]\<rparr>"
  have "list_get (plan_elements ?p) 2 = Some (Activity ex_work)" by (simp add: list_get_def)
  from activity_end_time_along_plan_spec[OF this, of 0] show ?thesis
    by (simp add: decide_on_activity_end_time_def decide_on_leg_travel_time_def ex_defs numeral_2_eq_2
        simtime_saturating_add_def from_duration_def assert_duration_fits_simtime_def duration_max_def
        u64_max_def nanos_per_second_def)
qed

end
