(* ===== verification/Sim_Events.thy ===== *)
theory Sim_Events
  imports Plans
begin

text \<open>
  Everything a partition tells the outside: the simulation events and their manager
  (\<open>events/mod.rs\<close>), the framework events with their sequence numbers
  (\<open>framework_events/mod.rs\<close>), the requests to routing services
  (\<open>external_services/routing/mod.rs\<close>) and the computational environment that the engines of
  a partition share (\<open>ThreadLocalComputationalEnvironment\<close> of \<open>controller/mod.rs\<close>).

  Handlers are callbacks that observe events. An environment therefore keeps the log of the
  events that its managers have processed, in order; what a registered handler sees of such a
  log is \<open>deliveries\<close>. The attributes of events built by the simulation are always empty and
  their relative position is the default; they are not part of the model.
\<close>

section \<open>Simulation events\<close>

datatype event =
    ActivityStartEvent (ev_time: sim_time) person_id link_id coordinate string
  | ActivityEndEvent (ev_time: sim_time) person_id link_id coordinate string
  | LinkEnterEvent (ev_time: sim_time) link_id veh_id
  | LinkLeaveEvent (ev_time: sim_time) link_id veh_id
  | VehicleEntersTrafficEvent (ev_time: sim_time) veh_id link_id person_id mode
  | VehicleLeavesTrafficEvent (ev_time: sim_time) veh_id link_id person_id mode
  | PersonEntersVehicleEvent (ev_time: sim_time) person_id veh_id
  | PersonLeavesVehicleEvent (ev_time: sim_time) person_id veh_id
  | PersonDepartureEvent (ev_time: sim_time) person_id link_id mode mode
  | PersonArrivalEvent (ev_time: sim_time) person_id link_id mode
  | TeleportationArrivalEvent (ev_time: sim_time) person_id mode f64
  | PtTeleportationArrivalEvent (ev_time: sim_time) person_id f64 mode string string

text \<open>The \<open>TypeId\<close> of an event.\<close>

datatype event_type = TActivityStart | TActivityEnd | TLinkEnter | TLinkLeave | TEntersTraffic
  | TLeavesTraffic | TEntersVehicle | TLeavesVehicle | TDeparture | TArrival | TTeleportation | TPtTeleportation

fun type_id :: "event \<Rightarrow> event_type" where
  "type_id (ActivityStartEvent _ _ _ _ _) = TActivityStart"
| "type_id (ActivityEndEvent _ _ _ _ _) = TActivityEnd"
| "type_id (LinkEnterEvent _ _ _) = TLinkEnter"
| "type_id (LinkLeaveEvent _ _ _) = TLinkLeave"
| "type_id (VehicleEntersTrafficEvent _ _ _ _ _) = TEntersTraffic"
| "type_id (VehicleLeavesTrafficEvent _ _ _ _ _) = TLeavesTraffic"
| "type_id (PersonEntersVehicleEvent _ _ _) = TEntersVehicle"
| "type_id (PersonLeavesVehicleEvent _ _ _) = TLeavesVehicle"
| "type_id (PersonDepartureEvent _ _ _ _ _) = TDeparture"
| "type_id (PersonArrivalEvent _ _ _ _) = TArrival"
| "type_id (TeleportationArrivalEvent _ _ _ _) = TTeleportation"
| "type_id (PtTeleportationArrivalEvent _ _ _ _ _ _) = TPtTeleportation"

text \<open>The manager: per event type the list of its handlers, and the catch-all handlers.\<close>

record 'h events_manager =
  per_type :: "event_type \<rightharpoonup> 'h list"
  catch_all :: "'h list"

definition events_manager_new :: "'h events_manager" where
  "events_manager_new = \<lparr>per_type = Map.empty, catch_all = []\<rparr>"

definition on_type :: "event_type \<Rightarrow> 'h \<Rightarrow> 'h events_manager \<Rightarrow> 'h events_manager" where
  "on_type ty h m =
     m\<lparr>per_type := (per_type m)(ty \<mapsto> (case per_type m ty of None \<Rightarrow> [] | Some hs \<Rightarrow> hs) @ [h])\<rparr>"

definition on_any :: "'h \<Rightarrow> 'h events_manager \<Rightarrow> 'h events_manager" where
  "on_any h m = m\<lparr>catch_all := catch_all m @ [h]\<rparr>"

text \<open>\<open>process_event\<close> calls these handlers with the event, in this order.\<close>

definition dispatch :: "'h events_manager \<Rightarrow> event \<Rightarrow> ('h \<times> event) list" where
  "dispatch m e =
     (case per_type m (type_id e) of None \<Rightarrow> [] | Some hs \<Rightarrow> map (\<lambda>h. (h, e)) hs) @
     map (\<lambda>h. (h, e)) (catch_all m)"

definition deliveries :: "'h events_manager \<Rightarrow> 'h \<Rightarrow> event list \<Rightarrow> event list" where
  "deliveries m h es = map snd (filter (\<lambda>(h', e). h' = h) (concat (map (dispatch m) es)))"

section \<open>Framework events\<close>

datatype partition_event =
    AgentEntersPartition person_id part_id sim_time
  | AgentLeavesPartition person_id part_id sim_time
  | VehicleEntersPartition veh_id part_id sim_time
  | VehicleLeavesPartition veh_id part_id sim_time

datatype mobsim_event = Initialized | BeforeSimStep sim_time | AfterSimStep sim_time | BeforeCleanup

datatype event_origin = Controller | Partition part_id

record 'e runtime_event =
  meta_origin :: event_origin
  meta_iteration :: nat
  meta_seq_no :: nat
  payload :: 'e

record event_runtime_state =
  ers_origin :: event_origin
  ers_iteration :: nat
  next_seq_no :: nat

definition runtime_state_new :: "event_origin \<Rightarrow> nat \<Rightarrow> event_runtime_state" where
  "runtime_state_new orig it = \<lparr>ers_origin = orig, ers_iteration = it, next_seq_no = 0\<rparr>"

definition wrap :: "'e \<Rightarrow> event_runtime_state \<Rightarrow> 'e runtime_event \<times> event_runtime_state" where
  "wrap p s = (\<lparr>meta_origin = ers_origin s, meta_iteration = ers_iteration s,
       meta_seq_no = next_seq_no s, payload = p\<rparr>, s\<lparr>next_seq_no := next_seq_no s + 1\<rparr>)"

definition state_reset_iteration :: "nat \<Rightarrow> event_runtime_state \<Rightarrow> event_runtime_state" where
  "state_reset_iteration it s = s\<lparr>ers_iteration := it, next_seq_no := 0\<rparr>"

definition state_next_iteration :: "event_runtime_state \<Rightarrow> event_runtime_state" where
  "state_next_iteration s = state_reset_iteration (ers_iteration s + 1) s"

record ('h, 'e) framework_manager =
  fm_state :: event_runtime_state
  fm_callbacks :: "(int \<times> 'h) list"

definition framework_manager_new :: "event_origin \<Rightarrow> nat \<Rightarrow> ('h, 'e) framework_manager" where
  "framework_manager_new orig it = \<lparr>fm_state = runtime_state_new orig it, fm_callbacks = []\<rparr>"

definition fm_process_event ::
    "'e \<Rightarrow> ('h, 'e) framework_manager \<Rightarrow>
     'e runtime_event \<times> ('h \<times> 'e runtime_event) list \<times> ('h, 'e) framework_manager" where
  "fm_process_event p m = (let (ev, s) = wrap p (fm_state m)
     in (ev, map (\<lambda>(_, h). (h, ev)) (fm_callbacks m), m\<lparr>fm_state := s\<rparr>))"

text \<open>Registration pushes at the end and sorts by falling priority with a stable sort.\<close>

definition on_event_with_priority :: "int \<Rightarrow> 'h \<Rightarrow> ('h, 'e) framework_manager \<Rightarrow> ('h, 'e) framework_manager" where
  "on_event_with_priority prio h m =
     m\<lparr>fm_callbacks := sort_key (\<lambda>(p, _). - p) (fm_callbacks m @ [(prio, h)])\<rparr>"

definition on_event :: "'h \<Rightarrow> ('h, 'e) framework_manager \<Rightarrow> ('h, 'e) framework_manager" where
  "on_event h m = on_event_with_priority 0 h m"

section \<open>Routing requests and the environment\<close>

record routing_request =
  req_person_id :: person_id
  req_from_link :: link_id
  req_from :: coordinate
  req_to_link :: link_id
  req_to :: coordinate
  req_mode :: mode
  req_departure_time :: sim_time
  req_now :: sim_time

text \<open>
  A routing service is outside the program. \<open>env_router\<close> is a parameter: the services
  registered by mode, each a function from the request to what its one-shot channel will
  deliver, the elements of the new trip or \<open>None\<close> when the service drops the channel.
\<close>

type_synonym response = "plan_element list option"

record env =
  env_events :: "event list"
  env_partition_state :: event_runtime_state
  env_partition_events :: "partition_event runtime_event list"
  env_mobsim_state :: event_runtime_state
  env_mobsim_events :: "mobsim_event runtime_event list"
  env_requests :: "routing_request list"
  env_router :: "mode \<rightharpoonup> (routing_request \<Rightarrow> response)"

definition env_new :: "part_id \<Rightarrow> nat \<Rightarrow> (mode \<rightharpoonup> (routing_request \<Rightarrow> response)) \<Rightarrow> env" where
  "env_new rank it router = \<lparr>env_events = [],
     env_partition_state = runtime_state_new (Partition rank) it, env_partition_events = [],
     env_mobsim_state = runtime_state_new (Partition rank) it, env_mobsim_events = [],
     env_requests = [], env_router = router\<rparr>"

definition process_event :: "event \<Rightarrow> env \<Rightarrow> env" where
  "process_event e env = env\<lparr>env_events := env_events env @ [e]\<rparr>"

definition process_partition_event :: "partition_event \<Rightarrow> env \<Rightarrow> env" where
  "process_partition_event e env = (let (ev, s) = wrap e (env_partition_state env)
     in env\<lparr>env_partition_state := s, env_partition_events := env_partition_events env @ [ev]\<rparr>)"

definition process_mobsim_event :: "mobsim_event \<Rightarrow> env \<Rightarrow> env" where
  "process_mobsim_event e env = (let (ev, s) = wrap e (env_mobsim_state env)
     in env\<lparr>env_mobsim_state := s, env_mobsim_events := env_mobsim_events env @ [ev]\<rparr>)"

section \<open>What handlers see\<close>

lemma process_event_simps [simp]:
  "env_events (process_event e env) = env_events env @ [e]"
  "env_router (process_event e env) = env_router env"
  "env_requests (process_event e env) = env_requests env"
  by (simp_all add: process_event_def)

lemma dispatch_on_type:
  "dispatch (on_type ty h m) e =
     (case per_type m (type_id e) of None \<Rightarrow> [] | Some hs \<Rightarrow> map (\<lambda>h. (h, e)) hs) @
     (if type_id e = ty then [(h, e)] else []) @ map (\<lambda>h. (h, e)) (catch_all m)"
  by (auto simp: dispatch_def on_type_def split: option.splits)

lemma dispatch_on_any: "dispatch (on_any h m) e = dispatch m e @ [(h, e)]"
  by (simp add: dispatch_def on_any_def)

definition registered :: "'h events_manager \<Rightarrow> 'h set" where
  "registered m = set (catch_all m) \<union> (\<Union>hs \<in> ran (per_type m). set hs)"

lemma dispatch_registered: "(h, e) \<in> set (dispatch m e') \<Longrightarrow> h \<in> registered m \<and> e = e'"
  by (cases "per_type m (type_id e')") (auto simp: dispatch_def registered_def ran_def)

lemma filter_dispatch_other: "h \<notin> registered m \<Longrightarrow> filter (\<lambda>(h', e). h' = h) (dispatch m e) = []"
  using dispatch_registered[of h _ m e] by (auto simp: filter_empty_conv)

lemma filter_dispatch_parts:
  assumes "h \<notin> registered m"
  shows "[x \<leftarrow> (case per_type m (type_id e) of None \<Rightarrow> [] | Some hs \<Rightarrow> map (\<lambda>h. (h, e)) hs). case x of (h', e) \<Rightarrow> h' = h] = []"
    and "[x \<leftarrow> map (\<lambda>h. (h, e)) (catch_all m). case x of (h', e) \<Rightarrow> h' = h] = []"
  using filter_dispatch_other[OF assms, of e] by (simp_all add: dispatch_def)

text \<open>
  A handler registered with \<open>on\<close> for a type sees exactly the events of that type, one
  registered with \<open>on_any\<close> sees all events, both in the order in which they were processed and
  each event once.
\<close>

theorem handler_deliveries:
  assumes "h \<notin> registered m"
  shows "deliveries (on_type ty h m) h es = filter (\<lambda>e. type_id e = ty) es \<and>
    deliveries (on_any h m) h es = es"
  by (induction es)
    (simp_all add: deliveries_def dispatch_on_type dispatch_on_any filter_dispatch_other[OF assms]
      filter_dispatch_parts[OF assms])

theorem handler_deliveries_witness:
  "deliveries (on_type TLinkEnter True events_manager_new) True
     [LinkLeaveEvent 5 1 ''v'', LinkEnterEvent 5 2 ''v''] = [LinkEnterEvent 5 2 ''v'']"
  using handler_deliveries[of True events_manager_new TLinkEnter
      "[LinkLeaveEvent 5 1 ''v'', LinkEnterEvent 5 2 ''v'']"]
  by (simp add: registered_def events_manager_new_def)

text \<open>The framework managers number the events of an iteration from zero.\<close>

definition numbered :: "event_runtime_state \<Rightarrow> 'e runtime_event list \<Rightarrow> bool" where
  "numbered s evs \<longleftrightarrow> next_seq_no s = length evs \<and>
     (\<forall>i < length evs. meta_seq_no (evs ! i) = i \<and> meta_iteration (evs ! i) = ers_iteration s \<and>
        meta_origin (evs ! i) = ers_origin s)"

lemma numbered_wrap:
  "numbered s evs \<Longrightarrow> wrap p s = (ev, s') \<Longrightarrow> numbered s' (evs @ [ev]) \<and> payload ev = p"
  by (auto simp: numbered_def wrap_def nth_append less_Suc_eq)

lemma numbered_process [simp]:
  "numbered (env_partition_state env) (env_partition_events env) \<Longrightarrow>
   numbered (env_partition_state (process_partition_event e env)) (env_partition_events (process_partition_event e env))"
  by (auto simp: process_partition_event_def numbered_wrap split: prod.splits)

text \<open>
  Registration keeps the callbacks of a framework manager in order of falling priority, and
  callbacks of equal priority in the order of their registration: of every priority, the new
  callback is the last.
\<close>

theorem callbacks_by_priority:
  "sorted (map (\<lambda>(p, _). - p) (fm_callbacks (on_event_with_priority prio h m))) \<and>
   filter (\<lambda>(p, _). p = k) (fm_callbacks (on_event_with_priority prio h m)) =
     filter (\<lambda>(p, _). p = k) (fm_callbacks m) @ (if k = prio then [(prio, h)] else [])"
proof
  show "sorted (map (\<lambda>(p, _). - p) (fm_callbacks (on_event_with_priority prio h m)))"
    by (simp add: on_event_with_priority_def)
  have "filter (\<lambda>(p, _). p = k) xs = filter (\<lambda>x. (case x of (p, _) \<Rightarrow> - p) = - k) xs" for xs :: "(int \<times> 'a) list"
    by (intro filter_cong) auto
  then show "filter (\<lambda>(p, _). p = k) (fm_callbacks (on_event_with_priority prio h m)) =
     filter (\<lambda>(p, _). p = k) (fm_callbacks m) @ (if k = prio then [(prio, h)] else [])"
    by (auto simp: on_event_with_priority_def sort_key_stable)
qed

end
