(* ===== verification/Agents.thy ===== *)
theory Agents
  imports Sim_Events
begin

text \<open>
  The agents of the simulation (\<open>agents/mod.rs\<close>, \<open>agents/agent.rs\<close>, \<open>agents/agent_logic.rs\<close>):
  the logic that walks through a fixed plan and the adaptive logic that asks a routing service
  for the next trip ahead of time and replaces the trip when the activity ends.

  The receiving end of a one-shot channel (\<open>route_receiver\<close>) is what the channel will deliver.
  A lookup that may panic and may also find nothing has the type \<open>'a option option\<close>.
\<close>

section \<open>Plan based logic\<close>

record plan_based_logic =
  basic_agent_delegate :: internal_person
  curr_plan_element :: nat
  curr_route_element :: nat
  activity_end_time :: "sim_time option"

datatype simulation_agent_state = LEG | ACTIVITY | STUCK

datatype agent_event = ActivityStarted | WokeUp sim_time | ActivityFinished | TeleportationStarted
  | TeleportationFinished | NetworkLegStarted | LeftLink | NetworkLegFinished

definition pb_new :: "internal_person \<Rightarrow> plan_based_logic option" where
  "pb_new p = do {
     e \<leftarrow> plan_element_at p 0; e \<leftarrow> e; a \<leftarrow> as_activity e;
     first_act_end \<leftarrow> cmp_end_time a 0;
     Some \<lparr>basic_agent_delegate = p, curr_plan_element = 0, curr_route_element = 0,
           activity_end_time = Some first_act_end\<rparr> }"

definition pb_element :: "plan_based_logic \<Rightarrow> nat \<Rightarrow> plan_element option option" where
  "pb_element l i = plan_element_at (basic_agent_delegate l) i"

definition pb_curr_act :: "plan_based_logic \<Rightarrow> internal_activity option" where
  "pb_curr_act l = do { e \<leftarrow> pb_element l (curr_plan_element l); e \<leftarrow> e; as_activity e }"

definition pb_next_act :: "plan_based_logic \<Rightarrow> internal_activity option" where
  "pb_next_act l = do {
     e \<leftarrow> pb_element l (curr_plan_element l + (if even (curr_plan_element l) then 2 else 1));
     e \<leftarrow> e; as_activity e }"

definition pb_curr_leg :: "plan_based_logic \<Rightarrow> internal_leg option" where
  "pb_curr_leg l = do { e \<leftarrow> pb_element l (curr_plan_element l); e \<leftarrow> e; as_leg e }"

definition pb_next_leg :: "plan_based_logic \<Rightarrow> internal_leg option option" where
  "pb_next_leg l = do {
     e \<leftarrow> pb_element l (curr_plan_element l + (if even (curr_plan_element l) then 1 else 2));
     Some (Option.bind e as_leg) }"

definition pb_state :: "plan_based_logic \<Rightarrow> simulation_agent_state" where
  "pb_state l = (if even (curr_plan_element l) then ACTIVITY else LEG)"

definition pb_advance_plan :: "sim_time \<Rightarrow> plan_based_logic \<Rightarrow> plan_based_logic option" where
  "pb_advance_plan now l =
     (let l = l\<lparr>curr_plan_element := curr_plan_element l + 1, curr_route_element := 0\<rparr> in do {
        n \<leftarrow> total_elements (basic_agent_delegate l);
        _ \<leftarrow> ensure (curr_plan_element l < n);
        (case pb_state l of
           LEG \<Rightarrow> Some (l\<lparr>activity_end_time := None\<rparr>)
         | ACTIVITY \<Rightarrow> do {
             a \<leftarrow> pb_curr_act l;
             e \<leftarrow> cmp_end_time a now;
             Some (l\<lparr>activity_end_time := Some e\<rparr>) }
         | STUCK \<Rightarrow> Some l) })"

definition pb_peek_next_link_id :: "plan_based_logic \<Rightarrow> link_id option option" where
  "pb_peek_next_link_id l = do {
     leg \<leftarrow> pb_curr_leg l; r \<leftarrow> leg_route leg; n \<leftarrow> as_network r;
     Some (route_element_at n (curr_route_element l + 1)) }"

definition pb_is_wanting_to_arrive_on_current_link :: "plan_based_logic \<Rightarrow> bool option" where
  "pb_is_wanting_to_arrive_on_current_link l = do { x \<leftarrow> pb_peek_next_link_id l; Some (x = None) }"

definition two_links :: "link_id \<Rightarrow> link_id \<Rightarrow> nat \<Rightarrow> link_id option option" where
  "two_links a b i = (if i = 0 then Some (Some a) else if i = 1 then Some (Some b) else None)"

definition pb_curr_link_id :: "plan_based_logic \<Rightarrow> link_id option option" where
  "pb_curr_link_id l =
     (if pb_state l \<noteq> LEG then Some None
      else do {
        leg \<leftarrow> pb_curr_leg l; r \<leftarrow> leg_route leg;
        (case r of
           Generic g \<Rightarrow> two_links (gr_start_link g) (gr_end_link g) (curr_route_element l)
         | Network n \<Rightarrow> Some (route_element_at n (curr_route_element l))
         | Pt p \<Rightarrow> two_links (gr_start_link (pt_generic_delegate p)) (gr_end_link (pt_generic_delegate p))
                     (curr_route_element l)) })"

definition pb_wakeup_time :: "plan_based_logic \<Rightarrow> sim_time \<Rightarrow> sim_time option" where
  "pb_wakeup_time l now = activity_end_time l"

definition pb_end_time :: "plan_based_logic \<Rightarrow> sim_time \<Rightarrow> sim_time option" where
  "pb_end_time l now = do {
     e \<leftarrow> pb_element l (curr_plan_element l); e \<leftarrow> e;
     (case e of
        Activity _ \<Rightarrow> activity_end_time l
      | Leg leg \<Rightarrow> do { d \<leftarrow> travel_time leg; simtime_saturating_add now d }) }"

definition set_curr_route_element_to_last :: "plan_based_logic \<Rightarrow> plan_based_logic option" where
  "set_curr_route_element_to_last l = do {
     leg \<leftarrow> pb_curr_leg l; r \<leftarrow> leg_route leg;
     (case as_network r of
        Some n \<Rightarrow> do {
          last \<leftarrow> checked_sub_u64 (length (nr_route n)) 1;
          Some (l\<lparr>curr_route_element := last\<rparr>) }
      | None \<Rightarrow> Some (l\<lparr>curr_route_element := 1\<rparr>)) }"

definition pb_notify_event :: "agent_event \<Rightarrow> plan_based_logic \<Rightarrow> plan_based_logic option" where
  "pb_notify_event ev l =
     (case ev of
        TeleportationStarted \<Rightarrow> set_curr_route_element_to_last l
      | LeftLink \<Rightarrow> Some (l\<lparr>curr_route_element := curr_route_element l + 1\<rparr>)
      | _ \<Rightarrow> Some l)"

section \<open>Adaptive logic\<close>

record adaptive_logic =
  delegate :: plan_based_logic
  route_receiver :: "response option"

definition ad_new :: "internal_person \<Rightarrow> adaptive_logic option" where
  "ad_new p = do { l \<leftarrow> pb_new p; Some \<lparr>delegate = l, route_receiver = None\<rparr> }"

definition preplanning_horizon :: "internal_activity \<Rightarrow> nat option" where
  "preplanning_horizon a = attr_get_u32 (act_attributes a) ''preplanningHorizon''"

definition ad_wakeup_time :: "adaptive_logic \<Rightarrow> sim_time \<Rightarrow> sim_time option" where
  "ad_wakeup_time l now = do {
     en \<leftarrow> pb_wakeup_time (delegate l) now;
     nl \<leftarrow> pb_next_leg (delegate l);
     (if nl = None then Some en
      else do {
        a \<leftarrow> pb_curr_act (delegate l);
        (case preplanning_horizon a of
           None \<Rightarrow> Some en
         | Some h \<Rightarrow> do {
             hs \<leftarrow> from_secs h;
             (if en < hs then Some 0 else simtime_saturating_sub en (duration_from_secs h)) }) }) }"

definition pb_plan_elements :: "plan_based_logic \<Rightarrow> plan_element list option" where
  "pb_plan_elements l = map_option plan_elements (selected_plan (basic_agent_delegate l))"

definition call_router :: "sim_time \<Rightarrow> sim_time \<Rightarrow> env \<Rightarrow> adaptive_logic \<Rightarrow> (env \<times> adaptive_logic) option" where
  "call_router departure_time now env l = do {
     els \<leftarrow> pb_plan_elements (delegate l);
     span \<leftarrow> find_trip_span_starting_at_activity_default els (curr_plan_element (delegate l));
     span \<leftarrow> span;
     orig \<leftarrow> span_origin span els;
     dest \<leftarrow> span_destination span els;
     trip \<leftarrow> trip_elements span els;
     md \<leftarrow> identify_main_mode trip;
     from_coord \<leftarrow> act_coord orig;
     to_coord \<leftarrow> act_coord dest;
     service \<leftarrow> env_router env md;
     (let req = \<lparr>req_person_id = person_ident (basic_agent_delegate (delegate l)),
        req_from_link = act_link_id orig, req_from = from_coord,
        req_to_link = act_link_id dest, req_to = to_coord, req_mode = md,
        req_departure_time = departure_time, req_now = now\<rparr>
      in Some (env\<lparr>env_requests := env_requests env @ [req]\<rparr>, l\<lparr>route_receiver := Some (service req)\<rparr>)) }"

definition react_to_woke_up :: "sim_time \<Rightarrow> sim_time \<Rightarrow> env \<Rightarrow> adaptive_logic \<Rightarrow> (env \<times> adaptive_logic) option" where
  "react_to_woke_up departure_time now env l =
     (if route_receiver l \<noteq> None then Some (env, l)
      else do {
        nl \<leftarrow> pb_next_leg (delegate l);
        preplan \<leftarrow> (if nl = None then Some False
                    else do { a \<leftarrow> pb_curr_act (delegate l); Some (preplanning_horizon a \<noteq> None) });
        (if preplan then call_router departure_time now env l else Some (env, l)) })"

definition replace_next_trip :: "plan_element list \<Rightarrow> adaptive_logic \<Rightarrow> adaptive_logic option" where
  "replace_next_trip new_elements l =
     (if new_elements = [] then Some l
      else do {
        els \<leftarrow> pb_plan_elements (delegate l);
        span \<leftarrow> find_trip_span_starting_at_activity_default els (curr_plan_element (delegate l));
        span \<leftarrow> span;
        (_, els') \<leftarrow> replace_trip_elements span els new_elements;
        p \<leftarrow> selected_plan_mut (\<lambda>pl. pl\<lparr>plan_elements := els'\<rparr>) (basic_agent_delegate (delegate l));
        Some (l\<lparr>delegate := (delegate l)\<lparr>basic_agent_delegate := p\<rparr>\<rparr>) })"

definition replace_route :: "adaptive_logic \<Rightarrow> adaptive_logic option" where
  "replace_route l =
     (case route_receiver l of
        None \<Rightarrow> Some l
      | Some resp \<Rightarrow> do { els \<leftarrow> resp; replace_next_trip els (l\<lparr>route_receiver := None\<rparr>) })"

definition ad_notify_event :: "agent_event \<Rightarrow> sim_time \<Rightarrow> env \<Rightarrow> adaptive_logic \<Rightarrow> (env \<times> adaptive_logic) option" where
  "ad_notify_event ev now env l = do {
     (env, l) \<leftarrow> (case ev of
        WokeUp end_time \<Rightarrow> react_to_woke_up end_time now env l
      | ActivityFinished \<Rightarrow> do { l \<leftarrow> replace_route l; Some (env, l) }
      | _ \<Rightarrow> Some (env, l));
     d \<leftarrow> pb_notify_event ev (delegate l);
     Some (env, l\<lparr>delegate := d\<rparr>) }"

section \<open>Agents\<close>

text \<open>\<open>SimulationAgent\<close> holds one of the two logics and delegates every call to it.\<close>

datatype agent = PlanBased plan_based_logic | Adaptive adaptive_logic

definition new_plan_based :: "internal_person \<Rightarrow> agent option" where
  "new_plan_based p = map_option PlanBased (pb_new p)"

definition new_adaptive_plan_based :: "internal_person \<Rightarrow> agent option" where
  "new_adaptive_plan_based p = map_option Adaptive (ad_new p)"

fun agent_pb :: "agent \<Rightarrow> plan_based_logic" where
  "agent_pb (PlanBased l) = l"
| "agent_pb (Adaptive l) = delegate l"

definition agent_id :: "agent \<Rightarrow> person_id" where
  "agent_id a = person_ident (basic_agent_delegate (agent_pb a))"

definition into_person :: "agent \<Rightarrow> internal_person option" where
  "into_person a = Some (basic_agent_delegate (agent_pb a))"

definition agent_curr_act :: "agent \<Rightarrow> internal_activity option" where
  "agent_curr_act a = pb_curr_act (agent_pb a)"

definition agent_curr_leg :: "agent \<Rightarrow> internal_leg option" where
  "agent_curr_leg a = pb_curr_leg (agent_pb a)"

definition agent_next_leg :: "agent \<Rightarrow> internal_leg option option" where
  "agent_next_leg a = pb_next_leg (agent_pb a)"

definition agent_state :: "agent \<Rightarrow> simulation_agent_state" where
  "agent_state a = pb_state (agent_pb a)"

definition agent_curr_link_id :: "agent \<Rightarrow> link_id option option" where
  "agent_curr_link_id a = pb_curr_link_id (agent_pb a)"

definition agent_peek_next_link_id :: "agent \<Rightarrow> link_id option option" where
  "agent_peek_next_link_id a = pb_peek_next_link_id (agent_pb a)"

definition agent_wants_to_arrive :: "agent \<Rightarrow> bool option" where
  "agent_wants_to_arrive a = pb_is_wanting_to_arrive_on_current_link (agent_pb a)"

definition agent_end_time :: "agent \<Rightarrow> sim_time \<Rightarrow> sim_time option" where
  "agent_end_time a now = pb_end_time (agent_pb a) now"

fun agent_wakeup_time :: "agent \<Rightarrow> sim_time \<Rightarrow> sim_time option" where
  "agent_wakeup_time (PlanBased l) now = pb_wakeup_time l now"
| "agent_wakeup_time (Adaptive l) now = ad_wakeup_time l now"

fun advance_plan :: "sim_time \<Rightarrow> agent \<Rightarrow> agent option" where
  "advance_plan now (PlanBased l) = map_option PlanBased (pb_advance_plan now l)"
| "advance_plan now (Adaptive l) =
     do { d \<leftarrow> pb_advance_plan now (delegate l); Some (Adaptive (l\<lparr>delegate := d\<rparr>)) }"

fun notify_event :: "agent_event \<Rightarrow> sim_time \<Rightarrow> env \<Rightarrow> agent \<Rightarrow> (env \<times> agent) option" where
  "notify_event ev now env (PlanBased l) = do { l \<leftarrow> pb_notify_event ev l; Some (env, PlanBased l) }"
| "notify_event ev now env (Adaptive l) =
     do { (env, l) \<leftarrow> ad_notify_event ev now env l; Some (env, Adaptive l) }"

section \<open>Identity of agents\<close>

lemma selected_plan_mut_person:
  assumes "selected_plan_mut f p = Some p'"
  shows "person_ident p' = person_ident p"
  using assms by (auto simp: selected_plan_mut_def)

lemma pb_advance_person [frame]:
  "pb_advance_plan now l = Some l' \<Longrightarrow> basic_agent_delegate l' = basic_agent_delegate l"
  by (auto simp: pb_advance_plan_def Let_def split: simulation_agent_state.splits)

lemma pb_notify_person [frame]:
  "pb_notify_event ev l = Some l' \<Longrightarrow>
   basic_agent_delegate l' = basic_agent_delegate l \<and> curr_plan_element l' = curr_plan_element l \<and>
   activity_end_time l' = activity_end_time l"
  by (auto simp: pb_notify_event_def set_curr_route_element_to_last_def split: agent_event.splits option.splits)

lemma call_router_frame [frame]:
  "call_router d now env l = Some (env', l') \<Longrightarrow> delegate l' = delegate l \<and> env_router env' = env_router env"
  by (auto simp: call_router_def Let_def)

lemma react_to_woke_up_frame [frame]:
  "react_to_woke_up d now env l = Some (env', l') \<Longrightarrow> delegate l' = delegate l \<and> env_router env' = env_router env"
  by (auto simp: react_to_woke_up_def split: if_splits dest: call_router_frame)

lemma replace_route_frame [frame]:
  assumes "replace_route l = Some l'"
  shows "person_ident (basic_agent_delegate (delegate l')) = person_ident (basic_agent_delegate (delegate l)) \<and>
    curr_plan_element (delegate l') = curr_plan_element (delegate l) \<and>
    activity_end_time (delegate l') = activity_end_time (delegate l)"
  using assms
  by (auto simp: replace_route_def replace_next_trip_def split: option.splits if_splits prod.splits
      dest!: selected_plan_mut_person)

lemma ad_notify_frame:
  assumes "ad_notify_event ev now env l = Some (env', l')"
  shows "person_ident (basic_agent_delegate (delegate l')) = person_ident (basic_agent_delegate (delegate l))"
  using assms
  by (auto simp: ad_notify_event_def split: agent_event.splits prod.splits
      dest!: pb_notify_person react_to_woke_up_frame replace_route_frame)

lemma advance_plan_id [simp]: "advance_plan now a = Some a' \<Longrightarrow> agent_id a' = agent_id a"
  by (cases a) (auto simp: agent_id_def dest: pb_advance_person)

lemma notify_event_id [simp]: "notify_event ev now env a = Some (env', a') \<Longrightarrow> agent_id a' = agent_id a"
  by (cases a) (auto simp: agent_id_def split: prod.splits dest: pb_notify_person ad_notify_frame)

section \<open>Well-formed agents\<close>

definition alternates :: "plan_element list \<Rightarrow> bool" where
  "alternates els \<longleftrightarrow> odd (length els) \<and>
     (\<forall>i < length els. (as_activity (els ! i) \<noteq> None) = even i)"

definition pb_wf :: "plan_based_logic \<Rightarrow> bool" where
  "pb_wf l \<longleftrightarrow> (case pb_plan_elements l of
     None \<Rightarrow> False
   | Some els \<Rightarrow> alternates els \<and> curr_plan_element l < length els \<and>
       (even (curr_plan_element l) \<longrightarrow> activity_end_time l \<noteq> None))"

lemma pb_element_elements: "pb_element l i = map_option (\<lambda>els. list_get els i) (pb_plan_elements l)"
  by (cases "selected_plan (basic_agent_delegate l)")
    (auto simp: pb_element_def plan_element_at_def pb_plan_elements_def)

lemma total_elements_eq: "total_elements (basic_agent_delegate l) = map_option length (pb_plan_elements l)"
  by (cases "selected_plan (basic_agent_delegate l)") (auto simp: total_elements_def pb_plan_elements_def)

lemma as_leg_activity: "as_activity e = None \<longleftrightarrow> as_leg e \<noteq> None"
  by (cases e) auto

lemma alternates_nth:
  "alternates els \<Longrightarrow> i < length els \<Longrightarrow> even i \<Longrightarrow> \<exists>a. els ! i = Activity a"
  "alternates els \<Longrightarrow> i < length els \<Longrightarrow> odd i \<Longrightarrow> \<exists>l. els ! i = Leg l"
  by (metis alternates_def as_activity.simps(2) plan_element.exhaust,
      metis alternates_def as_activity.simps(1) option.distinct(1) plan_element.exhaust)

lemma pb_wf_elements: "pb_wf l \<Longrightarrow> \<exists>els. pb_plan_elements l = Some els \<and> alternates els \<and> curr_plan_element l < length els"
  by (auto simp: pb_wf_def split: option.splits)

lemma pb_plan_elements_cong [simp]:
  "pb_plan_elements (l\<lparr>curr_plan_element := x\<rparr>) = pb_plan_elements l"
  "pb_plan_elements (l\<lparr>curr_route_element := y\<rparr>) = pb_plan_elements l"
  "pb_plan_elements (l\<lparr>activity_end_time := z\<rparr>) = pb_plan_elements l"
  by (simp_all add: pb_plan_elements_def)

lemma pb_curr_act_eq: "pb_curr_act l = do { els \<leftarrow> pb_plan_elements l; activity_at els (curr_plan_element l) }"
  by (cases "pb_plan_elements l") (auto simp: pb_curr_act_def pb_element_elements activity_at_def)

lemma cmp_end_time_total:
  "cmp_end_time a now \<noteq> None \<longleftrightarrow>
     act_end_time a \<noteq> None \<or> (case act_max_dur a of None \<Rightarrow> True | Some d \<Rightarrow> now + d \<le> u64_max)"
  by (auto simp: cmp_end_time_def simtime_saturating_add_def from_duration_def duration_max_def
      assert_duration_fits_simtime_def ensure_def nanos_per_second_def u64_max_def split: option.splits)

lemma pb_advance_eq:
  assumes "pb_plan_elements l = Some els" and "alternates els"
  shows "pb_advance_plan now l =
    (let l' = l\<lparr>curr_plan_element := curr_plan_element l + 1, curr_route_element := 0\<rparr> in
     if length els \<le> curr_plan_element l + 1 then None
     else if odd (curr_plan_element l + 1) then Some (l'\<lparr>activity_end_time := None\<rparr>)
     else map_option (\<lambda>e. l'\<lparr>activity_end_time := Some e\<rparr>)
            (Option.bind (activity_at els (curr_plan_element l + 1)) (\<lambda>a. cmp_end_time a now)))"
  using assms
  by (auto simp: pb_advance_plan_def Let_def total_elements_eq[of "l\<lparr>curr_plan_element := _, curr_route_element := _\<rparr>", simplified]
      ensure_def pb_state_def pb_curr_act_eq split: Option.bind_split)

text \<open>
  Advancing the plan of a well-formed agent: the agent panics exactly at the last element of
  its plan or when the end time of the next activity exceeds the clock; otherwise it moves to
  the next element, alternating between activity and leg, starts at the first link of a route,
  knows an end time in every activity, and is well-formed again.
\<close>

theorem advance_plan_spec:
  assumes "pb_wf l" and "pb_plan_elements l = Some els"
  shows "(pb_advance_plan now l = None \<longleftrightarrow> curr_plan_element l + 1 = length els \<or>
      (\<exists>a. odd (curr_plan_element l) \<and> activity_at els (curr_plan_element l + 1) = Some a \<and>
           cmp_end_time a now = None)) \<and>
    (\<forall>l'. pb_advance_plan now l = Some l' \<longrightarrow>
       pb_wf l' \<and> curr_plan_element l' = curr_plan_element l + 1 \<and> curr_route_element l' = 0 \<and>
       pb_state l' = (if pb_state l = ACTIVITY then LEG else ACTIVITY) \<and>
       pb_plan_elements l' = Some els)"
proof -
  let ?i = "curr_plan_element l"
  have alt: "alternates els" and i: "?i < length els" using assms by (auto simp: pb_wf_def)
  note adv = pb_advance_eq[OF assms(2) alt, of now]
  show ?thesis
  proof (cases "?i + 1 < length els")
    case False
    then show ?thesis using i adv by simp
  next
    case more: True
    show ?thesis
    proof (cases "even ?i")
      case True
      then show ?thesis using more adv alt assms(2) by (simp add: pb_wf_def pb_state_def)
    next
      case False
      then obtain a where "els ! (?i + 1) = Activity a"
        using alternates_nth(1)[OF alt more] by auto
      then have a: "activity_at els (Suc ?i) = Some a" using more by (simp add: activity_at_def list_get_def)
      show ?thesis using more False adv a alt assms(2) by (auto simp: pb_wf_def pb_state_def)
    qed
  qed
qed

section \<open>Replanning at the end of an activity\<close>

text \<open>A usable answer of a routing service: legs, with stage activities between them.\<close>

definition response_ok :: "plan_element list \<Rightarrow> bool" where
  "response_ok els \<longleftrightarrow> odd (length els) \<and>
     (\<forall>i < length els. (as_activity (els ! i) \<noteq> None) = odd i \<and> \<not> is_main is_interaction (els ! i))"

lemma alternates_replace:
  assumes alt: "alternates els" and trip: "is_trip is_interaction els (trip_at i j)"
    and resp: "response_ok new"
  shows "alternates (take (i + 1) els @ new @ drop j els)"
proof -
  have ij: "i + 1 < j" "j < length els" and main: "is_main is_interaction (els ! i)" "is_main is_interaction (els ! j)"
    using trip by (auto simp: is_trip_def)
  have act: "as_activity (els ! i) \<noteq> None" "as_activity (els ! j) \<noteq> None"
    using main by (auto simp: is_main_def split: option.splits)
  have ev: "even i" using alt ij act(1) by (simp add: alternates_def)
  have evj: "even j" using alt ij act(2) by (simp add: alternates_def)
  have on: "odd (length new)" using resp by (simp add: response_ok_def)
  let ?els = "take (i + 1) els @ new @ drop j els"
  have len: "length ?els = i + 1 + length new + (length els - j)" using ij by simp
  have "(as_activity (?els ! k) \<noteq> None) = even k" if k: "k < length ?els" for k
  proof -
    consider "k \<le> i" | "i < k" "k < i + 1 + length new" | "i + 1 + length new \<le> k" by linarith
    then show ?thesis
    proof cases
      case 1
      then show ?thesis using alt ij by (simp add: nth_append alternates_def)
    next
      case 2
      then have lt: "k - (i + 1) < length new" by linarith
      then have "?els ! k = new ! (k - (i + 1))" using 2 ij by (simp add: nth_append)
      then have "(as_activity (?els ! k) \<noteq> None) = odd (k - (i + 1))"
        using resp lt by (simp only: response_ok_def)
      moreover have "odd (k - (i + 1)) = even k" using 2(1) ev by presburger
      ultimately show ?thesis by blast
    next
      case 3
      define m where "m = j + (k - (i + 1 + length new))"
      have "\<not> k < i + 1" "\<not> k - (i + 1) < length new" "k - (i + 1) - length new = k - (i + 1 + length new)"
        using 3 by linarith+
      then have "?els ! k = els ! m" using ij by (simp add: nth_append m_def)
      moreover have "m < length els" using 3 k len ij by (simp add: m_def)
      moreover have "even m = even k" using 3 ev evj on by (auto simp: m_def)
      ultimately show ?thesis using alt by (simp add: alternates_def)
    qed
  qed
  moreover have "odd (length ?els)"
    unfolding len using ij ev evj on alt by (auto simp: alternates_def)
  ultimately show ?thesis unfolding alternates_def by blast
qed

lemma update_first_selected_spec:
  assumes "List.find plan_selected ps = Some pl"
    and "plan_selected (f pl)"
  shows "\<exists>ps'. update_first_selected f ps = Some ps' \<and> List.find plan_selected ps' = Some (f pl)"
  using assms by (induction ps) (auto split: if_splits)

lemma selected_plan_mut_spec:
  assumes "selected_plan p = Some pl"
  shows "\<exists>p'. selected_plan_mut (\<lambda>pl. pl\<lparr>plan_elements := els\<rparr>) p = Some p' \<and>
    selected_plan p' = Some (pl\<lparr>plan_elements := els\<rparr>)"
proof -
  have "plan_selected pl" using assms by (auto simp: selected_plan_def find_Some_iff)
  with update_first_selected_spec[of "person_plans p" pl "\<lambda>pl. pl\<lparr>plan_elements := els\<rparr>"] assms
  show ?thesis by (auto simp: selected_plan_def selected_plan_mut_def)
qed

text \<open>
  C10. When an activity ends, an adaptive agent with an open request takes the answer of the
  routing service into its plan: it does not panic, the agent stays at its activity, keeps
  everything of its plan outside the requested trip, has the answer as the elements of that
  trip, has no open request any more and is well-formed, so that it can walk the new plan.
\<close>

theorem adaptive_replanning_spec:
  assumes wf: "pb_wf (delegate l)" and els: "pb_plan_elements (delegate l) = Some els"
    and pend: "route_receiver l = Some (Some new)" and resp: "response_ok new"
    and trip: "find_trip_span_starting_at_activity_default els (curr_plan_element (delegate l)) = Some (Some (trip_at i j))"
  shows "\<exists>l'. ad_notify_event ActivityFinished now env l = Some (env, l') \<and>
    pb_wf (delegate l') \<and> route_receiver l' = None \<and>
    curr_plan_element (delegate l') = curr_plan_element (delegate l) \<and>
    pb_plan_elements (delegate l') = Some (take (i + 1) els @ new @ drop j els)"
proof -
  have it: "is_trip is_interaction els (trip_at i j)" and start: "curr_plan_element (delegate l) \<le> i"
    using find_trip_span_is_trip[OF trip[unfolded find_trip_span_starting_at_activity_default_def]] by auto
  have ij: "i + 1 < j" "j < length els" using it by (auto simp: is_trip_def)
  have ne: "new \<noteq> []" using resp by (auto simp: response_ok_def)
  let ?els = "take (i + 1) els @ new @ drop j els"
  obtain pl where pl: "selected_plan (basic_agent_delegate (delegate l)) = Some pl" "plan_elements pl = els"
    using els by (auto simp: pb_plan_elements_def)
  obtain p' where p': "selected_plan_mut (\<lambda>pl. pl\<lparr>plan_elements := ?els\<rparr>) (basic_agent_delegate (delegate l)) = Some p'"
    and sel: "selected_plan p' = Some (pl\<lparr>plan_elements := ?els\<rparr>)"
    using selected_plan_mut_spec[OF pl(1), of ?els] by blast
  let ?d = "(delegate l)\<lparr>basic_agent_delegate := p'\<rparr>"
  have els': "pb_plan_elements ?d = Some ?els" using sel by (simp add: pb_plan_elements_def)
  have "alternates ?els"
    using alternates_replace[OF _ it resp] wf els by (simp add: pb_wf_def)
  then have "pb_wf ?d"
    using wf els els' start ij by (auto simp: pb_wf_def)
  moreover have "replace_route l = Some (l\<lparr>route_receiver := None, delegate := ?d\<rparr>)"
    using pend ne els trip p' ij
    by (simp add: replace_route_def replace_next_trip_def replace_trip_elements_def)
  ultimately show ?thesis
    using els' by (simp add: ad_notify_event_def pb_notify_event_def)
qed

text \<open>
  An adaptive agent wakes up for preplanning never after the end of its activity, and
  exactly its horizon earlier when the clock allows that.
\<close>

theorem adaptive_wakeup_before_end:
  assumes "ad_wakeup_time l now = Some w" and "pb_state (delegate l) = ACTIVITY" and "pb_wf (delegate l)"
  shows "\<exists>en. pb_end_time (delegate l) now = Some en \<and> w \<le> en \<and>
    (w = en \<or> (\<exists>a h. pb_curr_act (delegate l) = Some a \<and> preplanning_horizon a = Some h \<and>
       w = en - duration_from_secs h))"
proof -
  obtain els where els: "pb_plan_elements (delegate l) = Some els" "alternates els"
    "curr_plan_element (delegate l) < length els"
    using pb_wf_elements[OF assms(3)] by blast
  have "even (curr_plan_element (delegate l))" using assms(2) by (auto simp: pb_state_def split: if_splits)
  then obtain a where a: "els ! curr_plan_element (delegate l) = Activity a"
    using alternates_nth(1)[OF els(2,3)] by blast
  then have "pb_end_time (delegate l) now = activity_end_time (delegate l)"
    using els by (simp add: pb_end_time_def pb_element_elements list_get_def)
  then show ?thesis using assms(1)
    by (auto simp: ad_wakeup_time_def pb_wakeup_time_def from_secs_def from_duration_def
        simtime_saturating_sub_def split: if_splits option.splits)
qed

text \<open>
  On a leg with a network route the events of the network move the agent link by link: after
  \<open>k\<close> links left it is on the \<open>k\<close>-th link of the route, sees the following one as its next
  link, and wants to arrive exactly on the last one.
\<close>

theorem route_traversal:
  assumes "pb_state l = LEG" and "pb_curr_leg l = Some leg" and "leg_route leg = Some (Network n)"
    and "curr_route_element l = 0" and "k < length (nr_route n)"
  shows "\<exists>l'. ((\<lambda>x. Option.bind x (pb_notify_event LeftLink)) ^^ k) (Some l) = Some l' \<and>
    pb_curr_link_id l' = Some (Some (nr_route n ! k)) \<and>
    pb_peek_next_link_id l' = Some (list_get (nr_route n) (k + 1)) \<and>
    pb_is_wanting_to_arrive_on_current_link l' = Some (k + 1 = length (nr_route n))"
proof -
  have step: "((\<lambda>x. Option.bind x (pb_notify_event LeftLink)) ^^ k) (Some l) = Some (l\<lparr>curr_route_element := k\<rparr>)"
    using assms(4) by (induction k) (simp_all add: pb_notify_event_def)
  have "pb_curr_leg (l\<lparr>curr_route_element := k\<rparr>) = Some leg" "pb_state (l\<lparr>curr_route_element := k\<rparr>) = LEG"
    using assms(1,2) by (simp_all add: pb_curr_leg_def pb_element_def pb_state_def)
  then show ?thesis
    using step assms(3,5)
    by (auto simp: pb_curr_link_id_def pb_peek_next_link_id_def route_element_at_def list_get_def
        pb_is_wanting_to_arrive_on_current_link_def)
qed

section \<open>Witnesses\<close>

definition ex_elements :: "plan_element list" where
  "ex_elements = [Activity ex_home, Leg ex_leg, Activity ex_work]"

definition ex_person :: internal_person where
  "ex_person = person_new ''p'' (plan_default\<lparr>plan_elements := ex_elements\<rparr>)"

definition ex_logic :: plan_based_logic where
  "ex_logic = \<lparr>basic_agent_delegate = ex_person, curr_plan_element = 0, curr_route_element = 0,
     activity_end_time = Some 100\<rparr>"

lemma ex_logic_new: "pb_new ex_person = Some ex_logic"
  by (simp add: pb_new_def ex_logic_def ex_person_def person_new_def plan_element_at_def selected_plan_def
      list_get_def plan_default_def ex_elements_def cmp_end_time_def ex_defs)

lemma ex_alternates: "alternates ex_elements"
  by (auto simp: alternates_def ex_elements_def less_Suc_eq)

lemma ex_plan_elements: "pb_plan_elements ex_logic = Some ex_elements"
  by (simp add: pb_plan_elements_def ex_logic_def ex_person_def person_new_def selected_plan_def plan_default_def)

lemma ex_pb_wf: "pb_wf ex_logic"
  using ex_alternates by (simp add: pb_wf_def ex_plan_elements) (simp add: ex_logic_def ex_elements_def)

lemma ex_trip: "is_trip is_interaction ex_elements (trip_at 0 2)"
  by (auto simp: is_trip_def ex_is_main ex_elements_def less_Suc_eq numeral_2_eq_2)

theorem advance_plan_spec_witness:
  "\<exists>l'. pb_advance_plan 100 ex_logic = Some l' \<and> pb_wf l' \<and> pb_state l' = LEG"
proof -
  have "pb_advance_plan 100 ex_logic \<noteq> None"
    using advance_plan_spec[OF ex_pb_wf ex_plan_elements, of 100]
    by (simp add: ex_elements_def) (simp add: ex_logic_def)
  then obtain l' where "pb_advance_plan 100 ex_logic = Some l'" by blast
  then show ?thesis using advance_plan_spec[OF ex_pb_wf ex_plan_elements, of 100]
    by (simp add: pb_state_def ex_logic_def)
qed

theorem adaptive_replanning_spec_witness:
  "\<exists>l'. ad_notify_event ActivityFinished 100 (env_new 0 0 Map.empty)
      \<lparr>delegate = ex_logic, route_receiver = Some (Some [Leg ex_leg, Activity ex_stage, Leg ex_leg])\<rparr> = Some (env_new 0 0 Map.empty, l') \<and>
    pb_plan_elements (delegate l') =
      Some [Activity ex_home, Leg ex_leg, Activity ex_stage, Leg ex_leg, Activity ex_work]"
proof -
  let ?new = "[Leg ex_leg, Activity ex_stage, Leg ex_leg]"
  let ?l = "\<lparr>delegate = ex_logic, route_receiver = Some (Some ?new)\<rparr>"
  have "response_ok ?new" by (auto simp: response_ok_def less_Suc_eq ex_is_main)
  moreover have "find_trip_span_starting_at_activity_default ex_elements (curr_plan_element ex_logic) =
      Some (Some (trip_at 0 2))"
    using find_trip_span_main[OF ex_trip]
    by (simp add: find_trip_span_starting_at_activity_default_def ex_logic_def)
  ultimately show ?thesis
    using adaptive_replanning_spec[of ?l ex_elements ?new 0 2 100 "env_new 0 0 Map.empty"] ex_pb_wf ex_plan_elements
    by (auto simp: ex_elements_def)
qed

theorem adaptive_wakeup_before_end_witness:
  "\<exists>w en. ad_wakeup_time \<lparr>delegate = ex_logic, route_receiver = None\<rparr> 0 = Some w \<and>
     pb_end_time ex_logic 0 = Some en \<and> w \<le> en"
proof -
  let ?l = "\<lparr>delegate = ex_logic, route_receiver = None\<rparr>"
  have act: "pb_curr_act ex_logic = Some ex_home"
    by (simp add: pb_curr_act_eq ex_plan_elements activity_at_def)
      (simp add: ex_logic_def ex_elements_def list_get_def)
  have w: "ad_wakeup_time ?l 0 = Some 100"
    using act by (simp add: ad_wakeup_time_def pb_wakeup_time_def pb_next_leg_def pb_element_elements
        ex_plan_elements) (simp add: ex_logic_def preplanning_horizon_def attr_get_u32_def ex_defs)
  have "pb_state (delegate ?l) = ACTIVITY" by (simp add: pb_state_def ex_logic_def)
  then show ?thesis using adaptive_wakeup_before_end[OF w] ex_pb_wf w by auto
qed

theorem route_traversal_witness:
  "\<exists>l'. ((\<lambda>x. Option.bind x (pb_notify_event LeftLink)) ^^ 2) (Some (ex_logic\<lparr>curr_plan_element := 1\<rparr>)) = Some l' \<and>
     pb_curr_link_id l' = Some (Some 3) \<and> pb_is_wanting_to_arrive_on_current_link l' = Some True"
proof -
  let ?l = "ex_logic\<lparr>curr_plan_element := 1\<rparr>"
  let ?n = "\<lparr>nr_generic_delegate = \<lparr>gr_start_link = 1, gr_end_link = 3, gr_trav_time = None,
     gr_distance = None, gr_vehicle = Some ''p_car''\<rparr>, nr_route = [1, 2, 3]\<rparr>"
  have "pb_curr_leg ?l = Some ex_leg"
    by (simp add: pb_curr_leg_def pb_element_elements ex_plan_elements) (simp add: ex_elements_def list_get_def)
  moreover have "pb_state ?l = LEG" "curr_route_element ?l = 0" by (simp_all add: pb_state_def ex_logic_def)
  moreover have "leg_route ex_leg = Some (Network ?n)" by (simp add: ex_defs)
  ultimately show ?thesis using route_traversal[of ?l ex_leg ?n 2] by auto
qed

end
