(* ===== verification/Vehicles.thy ===== *)
theory Vehicles
  imports Agents
begin

text \<open>
  Vehicles and the garage (\<open>scenario/vehicles.rs\<close>, \<open>vehicles/mod.rs\<close>): the vehicle types and
  vehicles of the scenario, and the vehicle of the simulation, which carries its driver and
  passengers through the network.
\<close>

section \<open>Data\<close>

record vehicle_type =
  vt_id :: string
  vt_length :: f64
  vt_width :: f64
  vt_max_v :: f64
  vt_pce :: f64
  vt_fef :: f64
  vt_net_mode :: mode
  vt_attributes :: internal_attributes

record internal_vehicle =
  iv_id :: veh_id
  iv_max_v :: f64
  iv_pce :: f64
  iv_vehicle_type :: string
  iv_attributes :: internal_attributes

record sim_vehicle =
  sv_vehicle :: internal_vehicle
  sv_driver :: "agent option"
  sv_passengers :: "agent list"

record garage =
  g_vehicles :: "veh_id \<rightharpoonup> internal_vehicle"
  g_vehicle_types :: "string \<rightharpoonup> vehicle_type"

section \<open>The vehicle of the simulation\<close>

definition veh_id :: "sim_vehicle \<Rightarrow> veh_id" where
  "veh_id v = iv_id (sv_vehicle v)"

definition max_v :: "sim_vehicle \<Rightarrow> f64" where
  "max_v v = iv_max_v (sv_vehicle v)"

definition pce :: "sim_vehicle \<Rightarrow> f64" where
  "pce v = iv_pce (sv_vehicle v)"

text \<open>\<open>driver\<close> and \<open>driver_mut\<close> panic when the vehicle has no driver.\<close>

definition driver :: "sim_vehicle \<Rightarrow> agent option" where
  "driver v = sv_driver v"

definition veh_curr_link_id :: "sim_vehicle \<Rightarrow> link_id option option" where
  "veh_curr_link_id v = do { d \<leftarrow> driver v; agent_curr_link_id d }"

definition peek_next_route_element :: "sim_vehicle \<Rightarrow> link_id option option" where
  "peek_next_route_element v = do { d \<leftarrow> driver v; agent_peek_next_link_id d }"

definition veh_wants_to_arrive :: "sim_vehicle \<Rightarrow> bool option" where
  "veh_wants_to_arrive v = do { d \<leftarrow> driver v; agent_wants_to_arrive d }"

definition into_agents :: "sim_vehicle \<Rightarrow> agent list option" where
  "into_agents v = do { d \<leftarrow> sv_driver v; Some (d # sv_passengers v) }"

primrec notify_all :: "agent_event \<Rightarrow> sim_time \<Rightarrow> env \<Rightarrow> agent list \<Rightarrow> (env \<times> agent list) option" where
  "notify_all ev now env [] = Some (env, [])"
| "notify_all ev now env (a # as) = do {
     (env, a) \<leftarrow> notify_event ev now env a;
     (env, as) \<leftarrow> notify_all ev now env as;
     Some (env, a # as) }"

definition veh_notify_event :: "agent_event \<Rightarrow> sim_time \<Rightarrow> env \<Rightarrow> sim_vehicle \<Rightarrow> (env \<times> sim_vehicle) option" where
  "veh_notify_event ev now env v = do {
     d \<leftarrow> driver v;
     (env, d) \<leftarrow> notify_event ev now env d;
     (env, ps) \<leftarrow> notify_all ev now env (sv_passengers v);
     Some (env, v\<lparr>sv_driver := Some d, sv_passengers := ps\<rparr>) }"

section \<open>The garage\<close>

definition garage_new :: garage where
  "garage_new = \<lparr>g_vehicles = Map.empty, g_vehicle_types = Map.empty\<rparr>"

definition add_veh_type :: "vehicle_type \<Rightarrow> garage \<Rightarrow> garage option" where
  "add_veh_type t g = do {
     _ \<leftarrow> ensure (g_vehicle_types g (vt_id t) = None);
     Some (g\<lparr>g_vehicle_types := (g_vehicle_types g)(vt_id t \<mapsto> t)\<rparr>) }"

definition add_veh :: "internal_vehicle \<Rightarrow> garage \<Rightarrow> garage" where
  "add_veh v g = g\<lparr>g_vehicles := (g_vehicles g)(iv_id v \<mapsto> v)\<rparr>"

definition add_veh_by_type :: "person_id \<Rightarrow> string \<Rightarrow> garage \<Rightarrow> garage option" where
  "add_veh_by_type person ty g = do {
     t \<leftarrow> g_vehicle_types g ty;
     Some (add_veh \<lparr>iv_id = person @ ''_'' @ ty, iv_max_v = vt_max_v t, iv_pce = vt_pce t,
       iv_vehicle_type = vt_id t, iv_attributes = Map.empty\<rparr> g) }"

definition unpark_veh_with_passengers :: "agent \<Rightarrow> agent list \<Rightarrow> veh_id \<Rightarrow> garage \<Rightarrow> sim_vehicle option" where
  "unpark_veh_with_passengers a ps i g = do {
     v \<leftarrow> g_vehicles g i;
     Some \<lparr>sv_vehicle = v, sv_driver = Some a, sv_passengers = ps\<rparr> }"

definition unpark_veh :: "agent \<Rightarrow> veh_id \<Rightarrow> garage \<Rightarrow> sim_vehicle option" where
  "unpark_veh a i g = unpark_veh_with_passengers a [] i g"

definition vehicle_type_id :: "veh_id \<Rightarrow> garage \<Rightarrow> string option" where
  "vehicle_type_id i g = map_option iv_vehicle_type (g_vehicles g i)"

section \<open>The persons in a vehicle\<close>

definition veh_agents :: "sim_vehicle \<Rightarrow> agent list" where
  "veh_agents v = (case sv_driver v of None \<Rightarrow> [] | Some d \<Rightarrow> [d]) @ sv_passengers v"

definition veh_persons :: "sim_vehicle \<Rightarrow> person_id multiset" where
  "veh_persons v = mset (map agent_id (veh_agents v))"

definition vehs_persons :: "sim_vehicle list \<Rightarrow> person_id multiset" where
  "vehs_persons vs = sum_list (map veh_persons vs)"

lemma vehs_persons_simps [simp]:
  "vehs_persons [] = {#}" "vehs_persons (v # vs) = veh_persons v + vehs_persons vs"
  "vehs_persons (vs @ ws) = vehs_persons vs + vehs_persons ws"
  by (simp_all add: vehs_persons_def)

lemma vehs_persons_mset: "mset vs = mset ws \<Longrightarrow> vehs_persons vs = vehs_persons ws"
  unfolding vehs_persons_def by (rule sum_list_mset_cong)

lemma notify_all_ids: "notify_all ev now env as = Some (env', as') \<Longrightarrow> map agent_id as' = map agent_id as"
  by (induction as arbitrary: env env' as') (auto split: prod.splits)

lemma notify_all_mset:
  "notify_all ev now env as = Some (env', as') \<Longrightarrow> image_mset agent_id (mset as') = image_mset agent_id (mset as)"
  by (metis mset_map notify_all_ids)

lemma into_agents_persons [conservation]:
  "into_agents v = Some as \<Longrightarrow> mset (map agent_id as) = veh_persons v"
  by (auto simp: into_agents_def veh_persons_def veh_agents_def split: option.splits)

lemma veh_notify_event_frame [frame]:
  assumes "veh_notify_event ev now env v = Some (env', v')"
  shows "sv_vehicle v' = sv_vehicle v" "veh_id v' = veh_id v" "pce v' = pce v" "veh_persons v' = veh_persons v"
    "sv_driver v' \<noteq> None"
  using assms
  by (auto simp: veh_notify_event_def driver_def veh_id_def pce_def veh_persons_def veh_agents_def
      dest!: notify_all_mset split: prod.splits)

lemma unpark_veh_persons [conservation]:
  "unpark_veh a i g = Some v \<Longrightarrow> veh_persons v = {#agent_id a#} \<and> sv_driver v = Some a \<and> g_vehicles g i = Some (sv_vehicle v)"
  by (auto simp: unpark_veh_def unpark_veh_with_passengers_def veh_persons_def veh_agents_def)

text \<open>
  The vehicles of a garage: every vehicle is parked under its own id and has the speed and the
  passenger car equivalents of its type. All operations that fill the garage keep this.
\<close>

definition garage_inv :: "garage \<Rightarrow> bool" where
  "garage_inv g \<longleftrightarrow>
     (\<forall>i v. g_vehicles g i = Some v \<longrightarrow> iv_id v = i \<and>
        (\<exists>t. g_vehicle_types g (iv_vehicle_type v) = Some t \<and> iv_max_v v = vt_max_v t \<and> iv_pce v = vt_pce t)) \<and>
     (\<forall>i t. g_vehicle_types g i = Some t \<longrightarrow> vt_id t = i)"

lemma garage_inv_new: "garage_inv garage_new"
  by (simp add: garage_inv_def garage_new_def)

lemma garage_inv_add_veh_type: "garage_inv g \<Longrightarrow> add_veh_type t g = Some g' \<Longrightarrow> garage_inv g'"
  unfolding garage_inv_def add_veh_type_def
  by (auto split: if_splits) (metis option.distinct(1))+

lemma garage_inv_add_veh_by_type: "garage_inv g \<Longrightarrow> add_veh_by_type p t g = Some g' \<Longrightarrow> garage_inv g'"
  by (auto simp: garage_inv_def add_veh_by_type_def add_veh_def split: if_splits)

end
