(* ===== verification/Capacity.thy ===== *)
theory Capacity
  imports Sim_Time
begin

text \<open>
  The capacities of a link: \<open>network/flow_cap.rs\<close>, \<open>network/storage_cap.rs\<close> and
  \<open>network/stuck_timer.rs\<close>.
\<close>

section \<open>Flow capacity\<close>

record flowcap =
  last_update_time :: sim_time
  remaining_capacity :: f64
  capacity_per_second :: f64
  capacity_per_tick :: f64

definition flowcap_new :: "f64 \<Rightarrow> f64 \<Rightarrow> f64 \<Rightarrow> flowcap" where
  "flowcap_new capacity_h sample_size per_tick =
     \<lparr>last_update_time = 0, remaining_capacity = per_tick,
      capacity_per_second = capacity_h * sample_size / 3600, capacity_per_tick = per_tick\<rparr>"

definition update_capacity :: "sim_time \<Rightarrow> flowcap \<Rightarrow> flowcap" where
  "update_capacity now c =
     (if last_update_time c < now then
        let elapsed = duration_as_secs_f64 (duration_since now (last_update_time c));
            acc_flow_cap = elapsed * capacity_per_second c + remaining_capacity c
        in c\<lparr>remaining_capacity := min acc_flow_cap (capacity_per_tick c), last_update_time := now\<rparr>
      else c)"

definition has_capacity_left :: "flowcap \<Rightarrow> bool" where
  "has_capacity_left c \<longleftrightarrow> 1 / 10000000000 < remaining_capacity c"

definition flow_consume :: "f64 \<Rightarrow> flowcap \<Rightarrow> flowcap" where
  "flow_consume by c = c\<lparr>remaining_capacity := remaining_capacity c - by\<rparr>"

section \<open>Storage capacity\<close>

record storage_cap =
  storage_max :: f64
  storage_used :: f64

definition storage_build :: "f64 \<Rightarrow> f64 \<Rightarrow> f64 \<Rightarrow> f64 \<Rightarrow> f64 \<Rightarrow> storage_cap" where
  "storage_build len perm_lanes capacity_h sample_size effective_cell_size =
     (let flow_cap_s = capacity_h * sample_size / 3600;
          cap = len * perm_lanes * sample_size / effective_cell_size
      in \<lparr>storage_max = max flow_cap_s cap, storage_used = 0\<rparr>)"

definition storage_consume :: "f64 \<Rightarrow> storage_cap \<Rightarrow> storage_cap" where
  "storage_consume v s = s\<lparr>storage_used := storage_used s + v\<rparr>"

definition storage_release :: "f64 \<Rightarrow> storage_cap \<Rightarrow> storage_cap" where
  "storage_release v s = s\<lparr>storage_used := storage_used s - v\<rparr>"

definition storage_is_available :: "storage_cap \<Rightarrow> bool" where
  "storage_is_available s \<longleftrightarrow> 0 < storage_max s - storage_used s"

section \<open>Stuck timer\<close>

record stuck_timer =
  timer_started :: "tick option"
  stuck_threshold :: tick

definition timer_new :: "tick \<Rightarrow> stuck_timer" where
  "timer_new threshold = \<lparr>timer_started = None, stuck_threshold = threshold\<rparr>"

definition timer_start :: "tick \<Rightarrow> stuck_timer \<Rightarrow> stuck_timer" where
  "timer_start now s = (if timer_started s = None then s\<lparr>timer_started := Some now\<rparr> else s)"

definition timer_reset :: "stuck_timer \<Rightarrow> stuck_timer" where
  "timer_reset s = s\<lparr>timer_started := None\<rparr>"

definition is_stuck :: "tick \<Rightarrow> stuck_timer \<Rightarrow> bool option" where
  "is_stuck now s =
     (case timer_started s of
        Some time \<Rightarrow> do { d \<leftarrow> tick_sub now time; Some (stuck_threshold s \<le> d) }
      | None \<Rightarrow> Some False)"

section \<open>Simple facts\<close>

lemma storage_simps [simp]:
  "storage_used (storage_consume v s) = storage_used s + v"
  "storage_used (storage_release v s) = storage_used s - v"
  "storage_max (storage_consume v s) = storage_max s"
  "storage_max (storage_release v s) = storage_max s"
  by (simp_all add: storage_consume_def storage_release_def)

lemma flow_simps [simp]:
  "remaining_capacity (flow_consume v c) = remaining_capacity c - v"
  "capacity_per_tick (flow_consume v c) = capacity_per_tick c"
  "capacity_per_second (flow_consume v c) = capacity_per_second c"
  "last_update_time (flow_consume v c) = last_update_time c"
  "capacity_per_tick (update_capacity now c) = capacity_per_tick c"
  "capacity_per_second (update_capacity now c) = capacity_per_second c"
  by (simp_all add: flow_consume_def update_capacity_def Let_def)

lemma update_capacity_time [simp]: "last_update_time (update_capacity now c) = max now (last_update_time c)"
  by (auto simp: update_capacity_def Let_def max_def)

section \<open>Capacity over time\<close>

lemma duration_as_secs_mono [simp]: "0 \<le> duration_as_secs_f64 d"
  by (simp add: duration_as_secs_f64_def)

lemma duration_as_secs_add: "a \<le> b \<Longrightarrow> b \<le> c \<Longrightarrow>
    duration_as_secs_f64 (b - a) + duration_as_secs_f64 (c - b) = duration_as_secs_f64 (c - a)"
  by (simp add: duration_as_secs_f64_def of_nat_diff add_divide_distrib[symmetric])

lemma update_capacity_gain:
  "remaining_capacity (update_capacity now c) \<le> remaining_capacity c +
     duration_as_secs_f64 (max now (last_update_time c) - last_update_time c) * capacity_per_second c"
  by (auto simp: update_capacity_def Let_def duration_since_def duration_as_secs_f64_def max_def)

end
