(* ===== verification/Net_Graph.thy ===== *)
theory Net_Graph
  imports Plans
begin

text \<open>
  The road network of the scenario (\<open>scenario/network.rs\<close>): nodes with the lists of their in
  and out links, links, and the operations that build, edit and partition the graph.

  Hash maps are maps; where the code iterates over one, the order is the parameter \<open>ord\<close>.
  The METIS library that computes a partitioning is the parameter \<open>partitions\<close>.
\<close>

section \<open>Data\<close>

record node =
  node_coord :: coordinate
  node_ident :: node_id
  in_links :: "link_id list"
  out_links :: "link_id list"
  node_partition :: part_id
  cmp_weight :: nat

record link =
  link_ident :: link_id
  link_from :: node_id
  link_to :: node_id
  link_length :: f64
  link_capacity :: f64
  link_freespeed :: f64
  link_permlanes :: f64
  link_modes :: "mode set"
  link_partition :: part_id
  link_attributes :: internal_attributes

record network =
  net_nodes :: "node_id \<rightharpoonup> node"
  net_links :: "link_id \<rightharpoonup> link"
  effective_cell_size :: f64

definition network_new :: network where
  "network_new = \<lparr>net_nodes = Map.empty, net_links = Map.empty, effective_cell_size = 15 / 2\<rparr>"

definition node_new :: "node_id \<Rightarrow> coordinate \<Rightarrow> part_id \<Rightarrow> nat \<Rightarrow> node" where
  "node_new i c part weight = \<lparr>node_coord = c, node_ident = i, in_links = [], out_links = [],
     node_partition = part, cmp_weight = weight\<rparr>"

definition link_new :: "link_id \<Rightarrow> node_id \<Rightarrow> node_id \<Rightarrow> f64 \<Rightarrow> f64 \<Rightarrow> f64 \<Rightarrow> f64 \<Rightarrow> mode set \<Rightarrow> part_id \<Rightarrow> link" where
  "link_new i from_node to_node len cap speed lanes modes part = \<lparr>link_ident = i, link_from = from_node,
     link_to = to_node, link_length = len, link_capacity = cap, link_freespeed = speed,
     link_permlanes = lanes, link_modes = modes, link_partition = part, link_attributes = Map.empty\<rparr>"

definition contains_mode :: "mode \<Rightarrow> link \<Rightarrow> bool" where
  "contains_mode m l \<longleftrightarrow> link_modes l = {} \<or> m \<in> link_modes l"

section \<open>Operations\<close>

definition add_node :: "node \<Rightarrow> network \<Rightarrow> network option" where
  "add_node n net = do {
     _ \<leftarrow> ensure (net_nodes net (node_ident n) = None);
     Some (net\<lparr>net_nodes := (net_nodes net)(node_ident n \<mapsto> n)\<rparr>) }"

text \<open>\<open>get_mut(id).unwrap()\<close> followed by a mutation of the node.\<close>

definition modify_node :: "node_id \<Rightarrow> (node \<Rightarrow> node) \<Rightarrow> network \<Rightarrow> network option" where
  "modify_node i f net = do {
     n \<leftarrow> net_nodes net i;
     Some (net\<lparr>net_nodes := (net_nodes net)(i \<mapsto> f n)\<rparr>) }"

definition add_link :: "link \<Rightarrow> network \<Rightarrow> network option" where
  "add_link l net = do {
     net1 \<leftarrow> modify_node (link_from l) (\<lambda>n. n\<lparr>out_links := out_links n @ [link_ident l]\<rparr>) net;
     net2 \<leftarrow> modify_node (link_to l) (\<lambda>n. n\<lparr>in_links := in_links n @ [link_ident l]\<rparr>) net1;
     _ \<leftarrow> ensure (net_links net2 (link_ident l) = None);
     Some (net2\<lparr>net_links := (net_links net2)(link_ident l \<mapsto> l)\<rparr>) }"

text \<open>\<open>retain\<close> followed by the assertion that exactly one element was removed.\<close>

definition retain_but_one :: "link_id \<Rightarrow> link_id list \<Rightarrow> link_id list option" where
  "retain_but_one i ls =
     (let ls' = filter (\<lambda>x. x \<noteq> i) ls
      in do { _ \<leftarrow> ensure (length ls - length ls' = 1); Some ls' })"

definition remove_link :: "link_id \<Rightarrow> network \<Rightarrow> network option" where
  "remove_link i net = do {
     l \<leftarrow> net_links net i;
     (let net = net\<lparr>net_links := (net_links net)(i := None)\<rparr> in do {
        from_node \<leftarrow> net_nodes net (link_from l);
        outs \<leftarrow> retain_but_one i (out_links from_node);
        net1 \<leftarrow> modify_node (link_from l) (\<lambda>n. n\<lparr>out_links := outs\<rparr>) net;
        to_node \<leftarrow> net_nodes net1 (link_to l);
        ins \<leftarrow> retain_but_one i (in_links to_node);
        modify_node (link_to l) (\<lambda>n. n\<lparr>in_links := ins\<rparr>) net1 }) }"

definition remove_node :: "(link_id set \<Rightarrow> link_id list) \<Rightarrow> node_id \<Rightarrow> network \<Rightarrow> network option" where
  "remove_node ord i net = do {
     n \<leftarrow> net_nodes net i;
     net' \<leftarrow> foldM remove_link (ord (set (in_links n @ out_links n))) net;
     _ \<leftarrow> net_nodes net' i;
     Some (net'\<lparr>net_nodes := (net_nodes net')(i := None)\<rparr>) }"

definition get_node :: "network \<Rightarrow> node_id \<Rightarrow> node option" where
  "get_node net i = net_nodes net i"

definition get_link :: "network \<Rightarrow> link_id \<Rightarrow> link option" where
  "get_link net i = net_links net i"

datatype partition_method = Metis | NoPartitioning

definition set_link_partition :: "part_id \<Rightarrow> link_id \<Rightarrow> network \<Rightarrow> network option" where
  "set_link_partition p l net = do {
     lk \<leftarrow> net_links net l;
     Some (net\<lparr>net_links := (net_links net)(l \<mapsto> lk\<lparr>link_partition := p\<rparr>)\<rparr>) }"

definition partition_node :: "(node_id \<rightharpoonup> part_id) \<Rightarrow> node_id \<Rightarrow> network \<Rightarrow> network option" where
  "partition_node partitions i net = do {
     n \<leftarrow> net_nodes net i;
     p \<leftarrow> partitions i;
     foldM (set_link_partition p) (in_links n)
       (net\<lparr>net_nodes := (net_nodes net)(i \<mapsto> n\<lparr>node_partition := p\<rparr>)\<rparr>) }"

definition partition_network :: "(node_id set \<Rightarrow> node_id list) \<Rightarrow> (node_id \<rightharpoonup> part_id) \<Rightarrow>
    partition_method \<Rightarrow> network \<Rightarrow> network option" where
  "partition_network ord partitions meth net =
     (case meth of
        Metis \<Rightarrow> foldM (partition_node partitions) (ord (dom (net_nodes net))) net
      | NoPartitioning \<Rightarrow> Some net)"

definition get_all_nodes_sorted :: "network \<Rightarrow> node list" where
  "get_all_nodes_sorted net = map (\<lambda>i. the (net_nodes net i)) (sorted_list_of_set (dom (net_nodes net)))"

section \<open>The adjacency invariant\<close>

definition outs_of :: "network \<Rightarrow> node_id \<Rightarrow> link_id set" where
  "outs_of net i = {l. \<exists>lk. net_links net l = Some lk \<and> link_from lk = i}"

definition ins_of :: "network \<Rightarrow> node_id \<Rightarrow> link_id set" where
  "ins_of net i = {l. \<exists>lk. net_links net l = Some lk \<and> link_to lk = i}"

definition net_inv :: "network \<Rightarrow> bool" where
  "net_inv net \<longleftrightarrow> finite (dom (net_nodes net)) \<and>
     (\<forall>i n. net_nodes net i = Some n \<longrightarrow> node_ident n = i \<and>
        distinct (in_links n) \<and> set (in_links n) = ins_of net i \<and>
        distinct (out_links n) \<and> set (out_links n) = outs_of net i) \<and>
     (\<forall>l lk. net_links net l = Some lk \<longrightarrow> link_ident lk = l \<and>
        net_nodes net (link_from lk) \<noteq> None \<and> net_nodes net (link_to lk) \<noteq> None)"

lemma net_invD:
  assumes "net_inv net"
  shows "\<And>i n. net_nodes net i = Some n \<Longrightarrow> node_ident n = i \<and> distinct (in_links n) \<and>
      set (in_links n) = ins_of net i \<and> distinct (out_links n) \<and> set (out_links n) = outs_of net i"
    and "\<And>l lk. net_links net l = Some lk \<Longrightarrow> link_ident lk = l \<and>
      net_nodes net (link_from lk) \<noteq> None \<and> net_nodes net (link_to lk) \<noteq> None"
    and "finite (dom (net_nodes net))"
  using assms unfolding net_inv_def by blast+

lemma ins_outs_nodes [simp]:
  "ins_of (net\<lparr>net_nodes := ns\<rparr>) = ins_of net" "outs_of (net\<lparr>net_nodes := ns\<rparr>) = outs_of net"
  by (simp_all add: ins_of_def outs_of_def fun_eq_iff)

lemma net_inv_new: "net_inv network_new"
  by (simp add: net_inv_def network_new_def)

lemma modify_node_simps:
  "modify_node i f net = Some net' \<Longrightarrow> \<exists>n. net_nodes net i = Some n \<and>
     net' = net\<lparr>net_nodes := (net_nodes net)(i \<mapsto> f n)\<rparr>"
  by (auto simp: modify_node_def)

lemma ins_outs_fresh:
  assumes "net_inv net" and "net_nodes net i = None"
  shows "ins_of net i = {}" and "outs_of net i = {}"
  using net_invD(2)[OF assms(1)] assms(2) unfolding ins_of_def outs_of_def by blast+

lemma add_node_inv:
  assumes inv: "net_inv net" and new: "in_links n = []" "out_links n = []"
    and add: "add_node n net = Some net'"
  shows "net_inv net'"
proof -
  from add have fresh: "net_nodes net (node_ident n) = None"
    and net': "net' = net\<lparr>net_nodes := (net_nodes net)(node_ident n \<mapsto> n)\<rparr>"
    by (auto simp: add_node_def)
  have same: "ins_of net' = ins_of net" "outs_of net' = outs_of net"
    by (simp_all add: ins_of_def outs_of_def net' fun_eq_iff)
  show ?thesis
    unfolding net_inv_def same
    using net_invD[OF inv] ins_outs_fresh[OF inv fresh] new by (auto simp: net')
qed

lemma add_link_inv:
  assumes inv: "net_inv net" and add: "add_link l net = Some net'"
  shows "net_inv net'"
proof -
  let ?i = "link_ident l"
  obtain net1 net2 where n1: "modify_node (link_from l) (\<lambda>n. n\<lparr>out_links := out_links n @ [?i]\<rparr>) net = Some net1"
    and n2: "modify_node (link_to l) (\<lambda>n. n\<lparr>in_links := in_links n @ [?i]\<rparr>) net1 = Some net2"
    and fresh2: "net_links net2 ?i = None"
    and net': "net' = net2\<lparr>net_links := (net_links net2)(?i \<mapsto> l)\<rparr>"
    using add by (auto simp: add_link_def)
  have links: "net_links net1 = net_links net" "net_links net2 = net_links net"
    using modify_node_simps[OF n1] modify_node_simps[OF n2] by auto
  have fresh: "net_links net ?i = None" using fresh2 links by simp
  have nodes: "net_nodes net' j = map_option (\<lambda>n.
      (let n = (if j = link_from l then n\<lparr>out_links := out_links n @ [?i]\<rparr> else n)
       in if j = link_to l then n\<lparr>in_links := in_links n @ [?i]\<rparr> else n)) (net_nodes net j)" for j
    using modify_node_simps[OF n1] modify_node_simps[OF n2]
    by (cases "net_nodes net j") (auto simp: net' Let_def)
  have ends: "net_nodes net (link_from l) \<noteq> None" "net_nodes net (link_to l) \<noteq> None"
    using modify_node_simps[OF n1] modify_node_simps[OF n2] by (auto split: if_splits)
  have dom: "dom (net_nodes net') = dom (net_nodes net)" using nodes by (auto simp: dom_def)
  have ins: "ins_of net' j = (if j = link_to l then insert ?i (ins_of net j) else ins_of net j)"
    and outs: "outs_of net' j = (if j = link_from l then insert ?i (outs_of net j) else outs_of net j)" for j
    using fresh by (auto simp: ins_of_def outs_of_def net' links split: if_splits)
  have notin: "?i \<notin> ins_of net j" "?i \<notin> outs_of net j" for j
    using fresh by (auto simp: ins_of_def outs_of_def)
  show ?thesis
    unfolding net_inv_def dom ins outs
    using net_invD[OF inv] notin ends fresh nodes
    by (auto simp: net' links Let_def split: if_splits)
qed

section \<open>Removing links and nodes\<close>

text \<open>The network without the links of \<open>S\<close>.\<close>

definition strip :: "link_id set \<Rightarrow> network \<Rightarrow> network" where
  "strip S net = net\<lparr>net_links := (\<lambda>l. if l \<in> S then None else net_links net l),
     net_nodes := (\<lambda>j. map_option (\<lambda>n. n\<lparr>in_links := filter (\<lambda>x. x \<notin> S) (in_links n),
        out_links := filter (\<lambda>x. x \<notin> S) (out_links n)\<rparr>) (net_nodes net j))\<rparr>"

lemma strip_dom [simp]: "dom (net_nodes (strip S net)) = dom (net_nodes net)"
  by (auto simp: strip_def)

lemma strip_links [simp]: "net_links (strip S net) l = (if l \<in> S then None else net_links net l)"
  by (simp add: strip_def)

lemma strip_strip: "strip S (strip T net) = strip (S \<union> T) net"
  by (auto simp: strip_def fun_eq_iff option.map_comp o_def conj_commute intro!: option.map_cong)

lemma strip_empty: "strip {} net = net"
  by (auto simp: strip_def option.map_ident)

lemma strip_nodes:
  "net_nodes (strip S net) j = Some n' \<longleftrightarrow> (\<exists>n. net_nodes net j = Some n \<and>
     n' = n\<lparr>in_links := filter (\<lambda>x. x \<notin> S) (in_links n), out_links := filter (\<lambda>x. x \<notin> S) (out_links n)\<rparr>)"
  by (auto simp: strip_def)

lemma strip_nodes_None [simp]: "net_nodes (strip S net) j = None \<longleftrightarrow> net_nodes net j = None"
  by (simp add: strip_def)

lemma strip_inv:
  assumes inv: "net_inv net"
  shows "net_inv (strip S net)"
proof -
  have "ins_of (strip S net) j = ins_of net j - S" "outs_of (strip S net) j = outs_of net j - S" for j
    by (auto simp: ins_of_def outs_of_def)
  moreover have "finite (dom (net_nodes (strip S net)))" using net_invD(3)[OF inv] by simp
  ultimately show ?thesis
    unfolding net_inv_def strip_nodes strip_nodes_None using net_invD(1,2)[OF inv]
    by (auto split: if_splits)
qed

lemma retain_but_one_distinct:
  "distinct ls \<Longrightarrow> i \<in> set ls \<Longrightarrow> retain_but_one i ls = Some (filter (\<lambda>x. x \<noteq> i) ls)"
proof -
  assume "distinct ls" "i \<in> set ls"
  then have "length (filter (\<lambda>x. x = i) ls) = 1"
    using distinct_length_filter[of ls "\<lambda>x. x = i"] by (simp add: Int_def Collect_conv_if)
  then have "length ls - length (filter (\<lambda>x. x \<noteq> i) ls) = 1"
    using sum_length_filter_compl[of "\<lambda>x. x = i" ls] by linarith
  then show ?thesis by (simp add: retain_but_one_def Let_def)
qed

lemma remove_link_eq:
  assumes inv: "net_inv net" and l: "net_links net i = Some l"
  shows "remove_link i net = Some (strip {i} net)"
proof -
  let ?f = "link_from l" and ?t = "link_to l"
  obtain nf where nf: "net_nodes net ?f = Some nf" using net_invD(2)[OF inv l] by blast
  obtain nt where nt: "net_nodes net ?t = Some nt" using net_invD(2)[OF inv l] by blast
  have out: "retain_but_one i (out_links nf) = Some (filter (\<lambda>x. x \<noteq> i) (out_links nf))"
    using net_invD(1)[OF inv nf] l by (intro retain_but_one_distinct) (auto simp: outs_of_def)
  have ins: "retain_but_one i (in_links nt) = Some (filter (\<lambda>x. x \<noteq> i) (in_links nt))"
    using net_invD(1)[OF inv nt] l by (intro retain_but_one_distinct) (auto simp: ins_of_def)
  have keep_in: "filter (\<lambda>x. x \<noteq> i) (in_links n) = in_links n" if "net_nodes net j = Some n" "j \<noteq> ?t" for j n
    using net_invD(1)[OF inv that(1)] that(2) l by (auto simp: filter_id_conv ins_of_def)
  have keep_out: "filter (\<lambda>x. x \<noteq> i) (out_links n) = out_links n" if "net_nodes net j = Some n" "j \<noteq> ?f" for j n
    using net_invD(1)[OF inv that(1)] that(2) l by (auto simp: filter_id_conv outs_of_def)
  let ?drop = "\<lambda>n. n\<lparr>in_links := filter (\<lambda>x. x \<notin> {i}) (in_links n), out_links := filter (\<lambda>x. x \<notin> {i}) (out_links n)\<rparr>"
  let ?nodes1 = "(net_nodes net)(?f \<mapsto> nf\<lparr>out_links := filter (\<lambda>x. x \<noteq> i) (out_links nf)\<rparr>)"
  have nt1: "\<exists>n. ?nodes1 ?t = Some n \<and> in_links n = in_links nt \<and>
      ?nodes1(?t \<mapsto> n\<lparr>in_links := filter (\<lambda>x. x \<noteq> i) (in_links nt)\<rparr>) = (\<lambda>j. map_option ?drop (net_nodes net j))"
  proof (cases "?t = ?f")
    case True
    then have "nt = nf" using nf nt by simp
    show ?thesis using True nf \<open>nt = nf\<close> keep_in keep_out
      by (auto simp: fun_eq_iff option.case_eq_if map_option_case split: option.splits)
  next
    case False
    then show ?thesis using nf nt keep_in[OF nf] keep_out[OF nt] keep_in keep_out
      by (auto simp: fun_eq_iff map_option_case split: option.splits)
  qed
  have links: "(net_links net)(i := None) = (\<lambda>l. if l \<in> {i} then None else net_links net l)"
    by (auto simp: fun_eq_iff)
  obtain n where n: "?nodes1 ?t = Some n" "in_links n = in_links nt"
    "?nodes1(?t \<mapsto> n\<lparr>in_links := filter (\<lambda>x. x \<noteq> i) (in_links nt)\<rparr>) = (\<lambda>j. map_option ?drop (net_nodes net j))"
    using nt1 by blast
  show ?thesis
    unfolding remove_link_def strip_def links[symmetric]
    using l nf out ins n by (cases "?t = ?f") (auto simp: modify_node_def Let_def)
qed

lemma remove_links_eq:
  assumes "net_inv net" and "distinct ls" and "set ls \<subseteq> dom (net_links net)"
  shows "foldM remove_link ls net = Some (strip (set ls) net)"
  using assms
proof (induction ls arbitrary: net)
  case Nil
  then show ?case by (simp add: strip_empty)
next
  case (Cons i ls)
  obtain l where l: "net_links net i = Some l" using Cons.prems(3) by auto
  have "set ls \<subseteq> dom (net_links (strip {i} net))" using Cons.prems(2,3) by auto
  then have "foldM remove_link ls (strip {i} net) = Some (strip (set ls) (strip {i} net))"
    using Cons.prems(1,2) by (intro Cons.IH strip_inv) auto
  then show ?case using remove_link_eq[OF Cons.prems(1) l] by (simp add: strip_strip Un_commute)
qed

lemma remove_node_eq:
  assumes ord: "hash_order ord" and inv: "net_inv net" and n: "net_nodes net i = Some n"
  shows "\<exists>net'. remove_node ord i net = Some net' \<and> net_inv net' \<and> net_nodes net' i = None \<and>
    net_links net' = (\<lambda>l. if l \<in> ins_of net i \<union> outs_of net i then None else net_links net l)"
proof -
  let ?S = "ins_of net i \<union> outs_of net i"
  have S: "set (in_links n @ out_links n) = ?S" using net_invD(1)[OF inv n] by simp
  then have fin: "finite ?S" by (metis finite_set)
  have o: "set (ord ?S) = ?S" "distinct (ord ?S)"
    using hash_order.ord_set[OF ord fin] hash_order.ord_distinct[OF ord fin] by auto
  have "foldM remove_link (ord ?S) net = Some (strip (set (ord ?S)) net)"
    using o by (intro remove_links_eq[OF inv]) (auto simp: ins_of_def outs_of_def)
  then have fold: "foldM remove_link (ord ?S) net = Some (strip ?S net)" using o by simp
  let ?net' = "(strip ?S net)\<lparr>net_nodes := (net_nodes (strip ?S net))(i := None)\<rparr>"
  have sinv: "net_inv (strip ?S net)" by (rule strip_inv[OF inv])
  have iso: "ins_of ?net' = ins_of (strip ?S net)" "outs_of ?net' = outs_of (strip ?S net)"
    by simp_all
  have away: "link_from lk \<noteq> i \<and> link_to lk \<noteq> i" if "net_links (strip ?S net) l = Some lk" for l lk
    using that by (auto simp: ins_of_def outs_of_def split: if_splits)
  have "net_inv ?net'"
    unfolding net_inv_def iso using net_invD[OF sinv] away by (auto split: if_splits)
  moreover have "remove_node ord i net = Some ?net'"
  proof -
    have "foldM remove_link (ord (set (in_links n @ out_links n))) net = Some (strip ?S net)"
      using fold unfolding S .
    moreover obtain y where "net_nodes (strip ?S net) i = Some y" using n by (auto simp: strip_nodes)
    ultimately show ?thesis using n by (simp add: remove_node_def del: set_append)
  qed
  ultimately show ?thesis by auto
qed

section \<open>Building and editing a network\<close>

datatype net_op = AddNode node_id coordinate part_id nat | AddLink link | RemoveLink link_id | RemoveNode node_id

fun net_step :: "(link_id set \<Rightarrow> link_id list) \<Rightarrow> net_op \<Rightarrow> network \<Rightarrow> network option" where
  "net_step ord (AddNode i c p w) net = add_node (node_new i c p w) net"
| "net_step ord (AddLink l) net = add_link l net"
| "net_step ord (RemoveLink i) net = remove_link i net"
| "net_step ord (RemoveNode i) net = remove_node ord i net"

lemma remove_link_None: "net_links net i = None \<Longrightarrow> remove_link i net = None"
  by (simp add: remove_link_def)

lemma remove_node_None: "net_nodes net i = None \<Longrightarrow> remove_node ord i net = None"
  by (simp add: remove_node_def)

lemma net_step_inv:
  assumes "hash_order ord" and "net_inv net" and "net_step ord op net = Some net'"
  shows "net_inv net'"
proof (cases op)
  case (AddNode i c p w)
  then show ?thesis using assms add_node_inv[of net "node_new i c p w"] by (simp add: node_new_def)
next
  case (AddLink l)
  then show ?thesis using assms add_link_inv by auto
next
  case (RemoveLink i)
  then obtain l where "net_links net i = Some l" using assms remove_link_None by fastforce
  then show ?thesis using RemoveLink assms remove_link_eq strip_inv by auto
next
  case (RemoveNode i)
  then obtain n where "net_nodes net i = Some n" using assms remove_node_None by fastforce
  then show ?thesis using RemoveNode assms remove_node_eq[OF assms(1,2)] by fastforce
qed

text \<open>
  C11. However a network is built up and edited, the lists of in and out links at its nodes and
  its links agree: each node lists exactly its incident links, each once, and both ends of a
  link exist. Therefore the assertions of \<open>remove_link\<close> never fail: removing a link or a node
  panics exactly when it does not exist, whatever the hash order.
\<close>

theorem network_adjacency:
  assumes "hash_order ord" and "foldM (net_step ord) ops network_new = Some net"
  shows "net_inv net \<and> (remove_link i net = None \<longleftrightarrow> net_links net i = None) \<and>
    (remove_node ord j net = None \<longleftrightarrow> net_nodes net j = None)"
proof -
  have inv: "net_inv net"
    using assms(2) net_inv_new by (rule foldM_inv) (rule net_step_inv[OF assms(1)])
  then show ?thesis
    using remove_link_eq[OF inv] remove_link_None remove_node_eq[OF assms(1) inv] remove_node_None
    by (metis option.distinct(1) option.exhaust)
qed

theorem network_adjacency_witness:
  "\<exists>net. foldM (net_step sorted_list_of_set) [AddNode 1 \<lparr>coord_x = 0, coord_y = 0, coord_z = 0\<rparr> 0 1,
      AddLink (link_new 7 1 1 10 3600 10 1 {} 0)] network_new = Some net \<and> net_inv net \<and>
      remove_node sorted_list_of_set 1 net \<noteq> None"
proof -
  let ?ops = "[AddNode 1 \<lparr>coord_x = 0, coord_y = 0, coord_z = 0\<rparr> 0 1, AddLink (link_new 7 1 1 10 3600 10 1 {} 0)]"
  obtain net where net: "foldM (net_step sorted_list_of_set) ?ops network_new = Some net"
    and n: "net_nodes net 1 \<noteq> None"
    by (simp add: add_node_def add_link_def modify_node_def network_new_def node_new_def link_new_def)
  show ?thesis
    using network_adjacency[OF sorted_order.hash_order_axioms net, of 7 1] net n by blast
qed

section \<open>Partitioning\<close>

definition assign :: "(node_id \<rightharpoonup> part_id) \<Rightarrow> node_id set \<Rightarrow> network \<Rightarrow> network" where
  "assign parts S net = net\<lparr>
     net_nodes := (\<lambda>j. map_option (\<lambda>n. if j \<in> S then n\<lparr>node_partition := the (parts j)\<rparr> else n) (net_nodes net j)),
     net_links := (\<lambda>l. map_option (\<lambda>lk. if link_to lk \<in> S then lk\<lparr>link_partition := the (parts (link_to lk))\<rparr> else lk)
        (net_links net l))\<rparr>"

lemma set_link_partitions:
  assumes "set ls \<subseteq> dom (net_links net)"
  shows "foldM (set_link_partition p) ls net = Some (net\<lparr>net_links := (\<lambda>l. if l \<in> set ls
     then map_option (\<lambda>lk. lk\<lparr>link_partition := p\<rparr>) (net_links net l) else net_links net l)\<rparr>)"
  using assms
proof (induction ls arbitrary: net)
  case Nil
  then show ?case by simp
next
  case (Cons l ls)
  then obtain lk where lk: "net_links net l = Some lk" by auto
  let ?net = "net\<lparr>net_links := (net_links net)(l \<mapsto> lk\<lparr>link_partition := p\<rparr>)\<rparr>"
  have "set_link_partition p l net = Some ?net" using lk by (simp add: set_link_partition_def)
  moreover have "set ls \<subseteq> dom (net_links ?net)" using Cons.prems by auto
  then have "foldM (set_link_partition p) ls ?net = Some (?net\<lparr>net_links := (\<lambda>l. if l \<in> set ls
     then map_option (\<lambda>lk. lk\<lparr>link_partition := p\<rparr>) (net_links ?net l) else net_links ?net l)\<rparr>)"
    by (rule Cons.IH)
  moreover have "(\<lambda>l'. if l' \<in> set ls then map_option (\<lambda>lk. lk\<lparr>link_partition := p\<rparr>) (net_links ?net l')
        else net_links ?net l') =
     (\<lambda>l'. if l' \<in> set (l # ls) then map_option (\<lambda>lk. lk\<lparr>link_partition := p\<rparr>) (net_links net l') else net_links net l')"
    using lk by (auto simp: fun_eq_iff)
  ultimately show ?case by simp
qed

lemma partition_node_assign:
  assumes inv: "net_inv net" and i: "net_nodes net i = Some n" and p: "parts i = Some p" and "i \<notin> S"
  shows "partition_node parts i (assign parts S net) = Some (assign parts (insert i S) net)"
proof -
  have ins: "set (in_links n) = ins_of net i" using net_invD(1)[OF inv i] by simp
  let ?net = "assign parts S net"
  have n': "net_nodes ?net i = Some n" using i assms(4) by (simp add: assign_def)
  have sub: "set (in_links n) \<subseteq> dom (net_links (?net\<lparr>net_nodes := (net_nodes ?net)(i \<mapsto> n\<lparr>node_partition := p\<rparr>)\<rparr>))"
    using ins by (auto simp: ins_of_def assign_def)
  let ?L = "\<lambda>l. if l \<in> set (in_links n) then map_option (\<lambda>lk. lk\<lparr>link_partition := p\<rparr>) (net_links ?net l) else net_links ?net l"
  let ?N = "(net_nodes ?net)(i \<mapsto> n\<lparr>node_partition := p\<rparr>)"
  have L: "?L = net_links (assign parts (insert i S) net)"
    using p by (auto simp: fun_eq_iff ins ins_of_def assign_def map_option_case split: option.splits)
  have N: "?N = net_nodes (assign parts (insert i S) net)"
    using i p by (auto simp: assign_def fun_eq_iff)
  have same: "net_links (?net\<lparr>net_nodes := ?N\<rparr>) = net_links ?net" by simp
  have "foldM (set_link_partition p) (in_links n) (?net\<lparr>net_nodes := ?N\<rparr>) = Some (?net\<lparr>net_nodes := ?N, net_links := ?L\<rparr>)"
    using set_link_partitions[OF sub, of p] unfolding same .
  then have "partition_node parts i ?net = Some (?net\<lparr>net_nodes := ?N, net_links := ?L\<rparr>)"
    using n' p by (simp add: partition_node_def)
  also have "?net\<lparr>net_nodes := ?N, net_links := ?L\<rparr> = assign parts (insert i S) net"
    unfolding L N by (simp add: assign_def)
  finally show ?thesis .
qed

lemma partition_nodes_assign:
  assumes "net_inv net" and "distinct js" and "set js \<inter> S = {}" and "set js \<subseteq> dom (net_nodes net)"
    and "set js \<subseteq> dom parts"
  shows "foldM (partition_node parts) js (assign parts S net) = Some (assign parts (set js \<union> S) net)"
  using assms
proof (induction js arbitrary: S)
  case Nil
  then show ?case by simp
next
  case (Cons i js)
  then obtain n p where "net_nodes net i = Some n" "parts i = Some p" by auto
  then have "partition_node parts i (assign parts S net) = Some (assign parts (insert i S) net)"
    using Cons.prems by (intro partition_node_assign) auto
  then show ?case using Cons by simp
qed

text \<open>
  Partitioning gives every node the part that the partitioner computed for it and every link
  the part of the node it leads to, for every order in which the hash map yields the nodes: a
  link always belongs to the partition of its to-node.
\<close>

theorem partition_network_spec:
  assumes "hash_order ord" and "net_inv net" and "dom (net_nodes net) \<subseteq> dom parts"
  shows "\<exists>net'. partition_network ord parts Metis net = Some net' \<and>
    (\<forall>i n. net_nodes net' i = Some n \<longrightarrow> parts i = Some (node_partition n)) \<and>
    (\<forall>l lk. net_links net' l = Some lk \<longrightarrow>
       (\<exists>n. net_nodes net' (link_to lk) = Some n \<and> link_partition lk = node_partition n)) \<and>
    dom (net_nodes net') = dom (net_nodes net) \<and> dom (net_links net') = dom (net_links net)"
proof -
  let ?D = "dom (net_nodes net)"
  have o: "set (ord ?D) = ?D" "distinct (ord ?D)"
    using hash_order.ord_set[OF assms(1)] hash_order.ord_distinct[OF assms(1)] net_invD(3)[OF assms(2)] by auto
  have "assign parts {} net = net" by (simp add: assign_def option.map_ident)
  then have run: "partition_network ord parts Metis net = Some (assign parts ?D net)"
    using partition_nodes_assign[OF assms(2) o(2), of "{}" parts] o assms(3)
    by (simp add: partition_network_def)
  have ends: "\<exists>n. net_nodes net (link_to lk) = Some n" if "net_links net l = Some lk" for l lk
    using net_invD(2)[OF assms(2) that] by blast
  have "\<exists>n. net_nodes (assign parts ?D net) (link_to lk) = Some n \<and> link_partition lk = node_partition n"
    if lk: "net_links (assign parts ?D net) l = Some lk" for l lk
  proof -
    obtain lk0 where lk0: "net_links net l = Some lk0"
      and eq: "lk = (if link_to lk0 \<in> ?D then lk0\<lparr>link_partition := the (parts (link_to lk0))\<rparr> else lk0)"
      using lk by (auto simp: assign_def)
    obtain n where n: "net_nodes net (link_to lk0) = Some n" using ends[OF lk0] by blast
    then have "lk = lk0\<lparr>link_partition := the (parts (link_to lk0))\<rparr>" using eq by (simp add: domI)
    then show ?thesis using n by (simp add: assign_def domI)
  qed
  moreover have "parts i = Some (node_partition n)" if ni: "net_nodes (assign parts ?D net) i = Some n" for i n
  proof -
    obtain z where z: "net_nodes net i = Some z" "n = z\<lparr>node_partition := the (parts i)\<rparr>"
      using ni by (auto simp: assign_def domI)
    then obtain p where "parts i = Some p" using assms(3) by blast
    then show ?thesis using z by simp
  qed
  moreover have "dom (net_nodes (assign parts ?D net)) = ?D"
    "dom (net_links (assign parts ?D net)) = dom (net_links net)"
    by (auto simp: assign_def)
  ultimately show ?thesis using run by blast
qed

theorem partition_network_witness:
  "\<exists>net'. partition_network sorted_list_of_set [1 \<mapsto> 3] Metis
     (network_new\<lparr>net_nodes := [1 \<mapsto> node_new 1 \<lparr>coord_x = 0, coord_y = 0, coord_z = 0\<rparr> 0 1]\<rparr>) = Some net' \<and>
     (\<forall>i n. net_nodes net' i = Some n \<longrightarrow> [1 \<mapsto> 3] i = Some (node_partition n))"
proof -
  let ?n = "network_new\<lparr>net_nodes := [1 \<mapsto> node_new 1 \<lparr>coord_x = 0, coord_y = 0, coord_z = 0\<rparr> 0 1]\<rparr>"
  have "net_inv ?n" by (auto simp: net_inv_def network_new_def node_new_def ins_of_def outs_of_def)
  moreover have "dom (net_nodes ?n) \<subseteq> dom [1 \<mapsto> 3]" by simp
  ultimately show ?thesis
    using partition_network_spec[OF sorted_order.hash_order_axioms] by blast
qed

end
