(* ===== verification/Links.thy ===== *)
theory Links
  imports Vehicles Capacity Net_Graph
begin

text \<open>
  The queue model of a link (\<open>network/link.rs\<close>): a vehicle enters the queue of a link, waits
  there until it could have driven the link at free speed, moves to the buffer when the flow
  capacity allows it, and leaves the buffer over the node at the end of the link. Links that
  cross a partition boundary exist twice: as \<open>Out\<close> link in the upstream partition, which
  collects the vehicles to be sent, and as \<open>In\<close> link in the downstream partition.

  The stuck timer sits in a \<open>Cell\<close>: \<open>offers_veh\<close> starts it through a shared reference, so
  here it returns the link with the timer started.
\<close>

section \<open>Data\<close>

text \<open>
  The type of the sample size is a parameter: the configuration can hold every \<open>f64\<close>, infinities and
  NaN included, the simulation is modelled for a finite one.
\<close>

record 'x qsim_config =
  qc_start_time :: nat
  qc_end_time :: nat
  qc_ticks_per_second :: nat
  qc_sample_size :: 'x
  qc_stuck_threshold :: nat
  qc_main_modes :: "mode list"

datatype link_position = QStart | Waiting

record vehicle_q_entry =
  qe_vehicle :: sim_vehicle
  earliest_exit_time :: tick

record local_link =
  ll_id :: link_id
  ll_q :: "vehicle_q_entry list"
  ll_buffer :: "sim_vehicle list"
  ll_waiting_list :: "sim_vehicle list"
  ll_length :: f64
  ll_free_speed :: f64
  ll_storage_cap :: storage_cap
  ll_flow_cap :: flowcap
  ll_stuck_timer :: stuck_timer
  ll_clock :: sim_clock
  ll_from :: node_id
  ll_to :: node_id

record split_out_link =
  ol_id :: link_id
  ol_to_part :: part_id
  ol_q :: "sim_vehicle list"
  ol_storage_cap :: storage_cap

record split_in_link =
  il_from_part :: part_id
  il_local_link :: local_link

datatype sim_link = Local local_link | In split_in_link | Out split_out_link

section \<open>Local links\<close>

definition ll_build :: "link_id \<Rightarrow> f64 \<Rightarrow> f64 \<Rightarrow> f64 \<Rightarrow> f64 \<Rightarrow> f64 \<Rightarrow> f64 qsim_config \<Rightarrow> node_id \<Rightarrow> node_id \<Rightarrow>
    local_link option" where
  "ll_build i capacity_h free_speed perm_lanes len cell_size config from_node to_node = do {
     clock \<leftarrow> clock_new (qc_ticks_per_second config);
     (let per_tick = (capacity_h * qc_sample_size config / 3600) * duration_as_secs_f64 (tick_length clock);
          storage = storage_build len perm_lanes capacity_h (qc_sample_size config) cell_size
      in do {
        threshold \<leftarrow> secs_to_tick clock (qc_stuck_threshold config);
        Some \<lparr>ll_id = i, ll_q = [], ll_buffer = [], ll_waiting_list = [], ll_length = len,
          ll_free_speed = free_speed, ll_storage_cap = storage,
          ll_flow_cap = flowcap_new capacity_h (qc_sample_size config) per_tick,
          ll_stuck_timer = timer_new threshold, ll_clock = clock,
          ll_from = from_node, ll_to = to_node\<rparr> }) }"

definition from_link :: "link \<Rightarrow> f64 \<Rightarrow> f64 qsim_config \<Rightarrow> local_link option" where
  "from_link l cell_size config =
     ll_build (link_ident l) (link_capacity l) (link_freespeed l) (link_permlanes l) (link_length l)
       cell_size config (link_from l) (link_to l)"

text \<open>
  The travel time in ticks. A division by zero yields infinity for a positive length, which
  saturates, and NaN or minus infinity otherwise, which \<open>max(0.)\<close> turns into zero.
\<close>

definition free_flow_ticks :: "sim_clock \<Rightarrow> f64 \<Rightarrow> f64 \<Rightarrow> tick" where
  "free_flow_ticks clock len speed =
     (if speed = 0 then (if 0 < len then u64_max else 0)
      else secs_to_ticks_floor clock (len / speed))"

definition push_veh_to_queue :: "sim_vehicle \<Rightarrow> tick \<Rightarrow> local_link \<Rightarrow> local_link" where
  "push_veh_to_queue v now l =
     (let speed = min (ll_free_speed l) (max_v v);
          duration = free_flow_ticks (ll_clock l) (ll_length l) speed
      in l\<lparr>ll_storage_cap := storage_consume (pce v) (ll_storage_cap l),
           ll_q := ll_q l @ [\<lparr>qe_vehicle = v, earliest_exit_time = tick_saturating_add now duration\<rparr>]\<rparr>)"

definition push_veh_to_waiting_list :: "sim_vehicle \<Rightarrow> local_link \<Rightarrow> local_link" where
  "push_veh_to_waiting_list v l = l\<lparr>ll_waiting_list := ll_waiting_list l @ [v]\<rparr>"

fun ll_push_veh :: "sim_vehicle \<Rightarrow> tick \<Rightarrow> link_position \<Rightarrow> local_link \<Rightarrow> local_link" where
  "ll_push_veh v now QStart l = push_veh_to_queue v now l"
| "ll_push_veh v now Waiting l = push_veh_to_waiting_list v l"

definition has_flow_capacity_left :: "local_link \<Rightarrow> bool" where
  "has_flow_capacity_left l \<longleftrightarrow>
     0 < remaining_capacity (ll_flow_cap l) - sum_list (map pce (ll_buffer l))"

definition update_flow_cap :: "tick \<Rightarrow> local_link \<Rightarrow> local_link option" where
  "update_flow_cap now l = do {
     t \<leftarrow> tick_to_time (ll_clock l) now;
     Some (l\<lparr>ll_flow_cap := update_capacity t (ll_flow_cap l)\<rparr>) }"

text \<open>The loops work off the queue and the waiting list from the front.\<close>

fun queue_to_buffer :: "tick \<Rightarrow> vehicle_q_entry list \<Rightarrow> local_link \<Rightarrow> (sim_vehicle list \<times> local_link) option" where
  "queue_to_buffer now [] l = Some ([], l\<lparr>ll_q := []\<rparr>)"
| "queue_to_buffer now (e # es) l = do {
     arrive \<leftarrow> veh_wants_to_arrive (qe_vehicle e);
     (let v = qe_vehicle e; capacity_left = has_flow_capacity_left l; exit = (earliest_exit_time e \<le> now)
      in if \<not> exit then Some ([], l\<lparr>ll_q := e # es\<rparr>)
         else if arrive then do {
           (released, l') \<leftarrow> queue_to_buffer now es (l\<lparr>ll_storage_cap := storage_release (pce v) (ll_storage_cap l)\<rparr>);
           Some (v # released, l') }
         else if capacity_left then
           queue_to_buffer now es (l\<lparr>ll_storage_cap := storage_release (pce v) (ll_storage_cap l),
                                    ll_buffer := ll_buffer l @ [v]\<rparr>)
         else Some ([], l\<lparr>ll_q := e # es\<rparr>)) }"

definition add_queue_to_buffer :: "tick \<Rightarrow> local_link \<Rightarrow> (sim_vehicle list \<times> local_link) option" where
  "add_queue_to_buffer now l = queue_to_buffer now (ll_q l) l"

text \<open>The event of \<open>pop_from_waiting\<close>, and likewise the one for vehicles that leave the traffic.\<close>

definition enters_traffic :: "tick \<Rightarrow> sim_vehicle \<Rightarrow> local_link \<Rightarrow> env \<Rightarrow> env option" where
  "enters_traffic now v l env = do {
     t \<leftarrow> tick_to_time (ll_clock l) now;
     d \<leftarrow> driver v;
     leg \<leftarrow> agent_curr_leg d;
     Some (process_event (VehicleEntersTrafficEvent t (veh_id v) (ll_id l) (agent_id d) (leg_mode leg)) env) }"

fun waiting_to_buffer :: "tick \<Rightarrow> sim_vehicle list \<Rightarrow> env \<Rightarrow> local_link \<Rightarrow> (sim_vehicle list \<times> env \<times> local_link) option" where
  "waiting_to_buffer now [] env l = Some ([], env, l\<lparr>ll_waiting_list := []\<rparr>)"
| "waiting_to_buffer now (v # vs) env l = do {
     arrive \<leftarrow> veh_wants_to_arrive v;
     (if arrive then do {
        env \<leftarrow> enters_traffic now v l env;
        (released, env, l') \<leftarrow> waiting_to_buffer now vs env l;
        Some (v # released, env, l') }
      else if has_flow_capacity_left l then do {
        env \<leftarrow> enters_traffic now v l env;
        waiting_to_buffer now vs env (l\<lparr>ll_buffer := ll_buffer l @ [v]\<rparr>) }
      else Some ([], env, l\<lparr>ll_waiting_list := v # vs\<rparr>)) }"

definition add_waiting_to_buffer :: "tick \<Rightarrow> env \<Rightarrow> local_link \<Rightarrow> (sim_vehicle list \<times> env \<times> local_link) option" where
  "add_waiting_to_buffer now env l = waiting_to_buffer now (ll_waiting_list l) env l"

definition leaves_traffic :: "sim_time \<Rightarrow> local_link \<Rightarrow> sim_vehicle \<Rightarrow> env \<Rightarrow> env option" where
  "leaves_traffic t l v env = do {
     d \<leftarrow> driver v;
     leg \<leftarrow> agent_curr_leg d;
     Some (process_event (VehicleLeavesTrafficEvent t (veh_id v) (ll_id l) (agent_id d) (leg_mode leg)) env) }"

definition do_sim_step :: "tick \<Rightarrow> env \<Rightarrow> local_link \<Rightarrow> (sim_vehicle list \<times> env \<times> local_link) option" where
  "do_sim_step now env l = do {
     t \<leftarrow> tick_to_time (ll_clock l) now;
     l \<leftarrow> update_flow_cap now l;
     (ending1, env, l) \<leftarrow> add_waiting_to_buffer now env l;
     (ending2, l) \<leftarrow> add_queue_to_buffer now l;
     env \<leftarrow> foldM (leaves_traffic t l) (ending1 @ ending2) env;
     Some (ending1 @ ending2, env, l) }"

definition ll_pop_veh :: "local_link \<Rightarrow> sim_vehicle option \<times> local_link" where
  "ll_pop_veh l =
     (case ll_buffer l of
        [] \<Rightarrow> (None, l)
      | v # vs \<Rightarrow> (Some v, l\<lparr>ll_buffer := vs, ll_flow_cap := flow_consume (pce v) (ll_flow_cap l),
                            ll_stuck_timer := timer_reset (ll_stuck_timer l)\<rparr>))"

definition ll_offers_veh :: "tick \<Rightarrow> local_link \<Rightarrow> sim_vehicle option \<times> local_link" where
  "ll_offers_veh now l =
     (case ll_buffer l of
        v # _ \<Rightarrow> if has_capacity_left (ll_flow_cap l)
                 then (Some v, l\<lparr>ll_stuck_timer := timer_start now (ll_stuck_timer l)\<rparr>) else (None, l)
      | [] \<Rightarrow> (None, l))"

definition ll_is_available :: "local_link \<Rightarrow> bool" where
  "ll_is_available l = storage_is_available (ll_storage_cap l)"

definition ll_drain :: "local_link \<Rightarrow> sim_vehicle list \<times> local_link" where
  "ll_drain l = (map qe_vehicle (ll_q l) @ ll_buffer l @ ll_waiting_list l,
     l\<lparr>ll_q := [], ll_buffer := [], ll_waiting_list := []\<rparr>)"

definition ll_is_active :: "local_link \<Rightarrow> bool" where
  "ll_is_active l \<longleftrightarrow> ll_q l \<noteq> [] \<or> ll_waiting_list l \<noteq> [] \<or> ll_buffer l \<noteq> []"

definition to_nodes_active :: "tick \<Rightarrow> local_link \<Rightarrow> bool \<times> local_link" where
  "to_nodes_active now l = (let (v, l') = ll_offers_veh (tick_next now) l in (v \<noteq> None, l'))"

section \<open>Split links\<close>

definition ol_new :: "link \<Rightarrow> f64 \<Rightarrow> f64 \<Rightarrow> part_id \<Rightarrow> split_out_link" where
  "ol_new l cell_size sample_size part = \<lparr>ol_id = link_ident l, ol_to_part = part, ol_q = [],
     ol_storage_cap = storage_build (link_length l) (link_permlanes l) (link_capacity l) sample_size cell_size\<rparr>"

definition apply_storage_cap_update :: "f64 \<Rightarrow> split_out_link \<Rightarrow> split_out_link" where
  "apply_storage_cap_update released l =
     l\<lparr>ol_storage_cap := storage_consume (- released) (ol_storage_cap l)\<rparr>"

definition take_veh :: "split_out_link \<Rightarrow> sim_vehicle list \<times> split_out_link" where
  "take_veh l = (ol_q l, l\<lparr>ol_q := []\<rparr>)"

fun ol_push_veh :: "sim_vehicle \<Rightarrow> link_position \<Rightarrow> split_out_link \<Rightarrow> split_out_link option" where
  "ol_push_veh v QStart l = Some (l\<lparr>ol_storage_cap := storage_consume (pce v) (ol_storage_cap l), ol_q := ol_q l @ [v]\<rparr>)"
| "ol_push_veh v Waiting l = None"

definition il_new :: "part_id \<Rightarrow> local_link \<Rightarrow> split_in_link" where
  "il_new part l = \<lparr>il_from_part = part, il_local_link = l\<rparr>"

definition occupied_storage :: "split_in_link \<Rightarrow> f64" where
  "occupied_storage l = storage_used (ll_storage_cap (il_local_link l))"

section \<open>Links of the simulation\<close>

fun sl_id :: "sim_link \<Rightarrow> link_id" where
  "sl_id (Local l) = ll_id l"
| "sl_id (In l) = ll_id (il_local_link l)"
| "sl_id (Out l) = ol_id l"

fun sl_from :: "sim_link \<Rightarrow> node_id option" where
  "sl_from (Local l) = Some (ll_from l)"
| "sl_from (In l) = Some (ll_from (il_local_link l))"
| "sl_from (Out l) = None"

fun sl_to :: "sim_link \<Rightarrow> node_id option" where
  "sl_to (Local l) = Some (ll_to l)"
| "sl_to (In l) = Some (ll_to (il_local_link l))"
| "sl_to (Out l) = None"

fun neighbor_part :: "sim_link \<Rightarrow> part_id option" where
  "neighbor_part (Local l) = None"
| "neighbor_part (In l) = Some (il_from_part l)"
| "neighbor_part (Out l) = Some (ol_to_part l)"

fun sl_flow_cap :: "sim_link \<Rightarrow> f64 option" where
  "sl_flow_cap (Local l) = Some (capacity_per_tick (ll_flow_cap l))"
| "sl_flow_cap (In l) = Some (capacity_per_tick (ll_flow_cap (il_local_link l)))"
| "sl_flow_cap (Out l) = None"

fun sl_offers_veh :: "tick \<Rightarrow> sim_link \<Rightarrow> (sim_vehicle option \<times> sim_link) option" where
  "sl_offers_veh now (Local l) = (let (v, l) = ll_offers_veh now l in Some (v, Local l))"
| "sl_offers_veh now (In i) = (let (v, l) = ll_offers_veh now (il_local_link i) in Some (v, In (i\<lparr>il_local_link := l\<rparr>)))"
| "sl_offers_veh now (Out l) = None"

fun is_veh_stuck :: "tick \<Rightarrow> sim_link \<Rightarrow> bool option" where
  "is_veh_stuck now (Local l) = is_stuck now (ll_stuck_timer l)"
| "is_veh_stuck now (In l) = is_stuck now (ll_stuck_timer (il_local_link l))"
| "is_veh_stuck now (Out l) = None"

fun sl_is_available :: "sim_link \<Rightarrow> bool option" where
  "sl_is_available (Local l) = Some (ll_is_available l)"
| "sl_is_available (In l) = None"
| "sl_is_available (Out l) = Some (storage_is_available (ol_storage_cap l))"

fun sl_is_active :: "sim_link \<Rightarrow> bool option" where
  "sl_is_active (Local l) = Some (ll_is_active l)"
| "sl_is_active (In l) = Some (ll_is_active (il_local_link l))"
| "sl_is_active (Out l) = None"

fun sl_push_veh :: "sim_vehicle \<Rightarrow> link_position \<Rightarrow> tick \<Rightarrow> sim_link \<Rightarrow> sim_link option" where
  "sl_push_veh v pos now (Local l) = Some (Local (ll_push_veh v now pos l))"
| "sl_push_veh v pos now (In l) = Some (In (l\<lparr>il_local_link := ll_push_veh v now pos (il_local_link l)\<rparr>))"
| "sl_push_veh v pos now (Out l) = map_option Out (ol_push_veh v pos l)"

fun sl_pop_veh :: "sim_link \<Rightarrow> (sim_vehicle option \<times> sim_link) option" where
  "sl_pop_veh (Local l) = (let (v, l) = ll_pop_veh l in Some (v, Local l))"
| "sl_pop_veh (In i) = (let (v, l) = ll_pop_veh (il_local_link i) in Some (v, In (i\<lparr>il_local_link := l\<rparr>)))"
| "sl_pop_veh (Out l) = None"

fun sl_drain :: "sim_link \<Rightarrow> sim_vehicle list \<times> sim_link" where
  "sl_drain (Local l) = (let (vs, l) = ll_drain l in (vs, Local l))"
| "sl_drain (In i) = (let (vs, l) = ll_drain (il_local_link i) in (vs, In (i\<lparr>il_local_link := l\<rparr>)))"
| "sl_drain (Out l) = (let (vs, l) = take_veh l in (vs, Out l))"

section \<open>One step of a link\<close>

definition ll_vehs :: "local_link \<Rightarrow> sim_vehicle list" where
  "ll_vehs l = map qe_vehicle (ll_q l) @ ll_buffer l @ ll_waiting_list l"

fun sl_vehs :: "sim_link \<Rightarrow> sim_vehicle list" where
  "sl_vehs (Local l) = ll_vehs l"
| "sl_vehs (In l) = ll_vehs (il_local_link l)"
| "sl_vehs (Out l) = ol_q l"

abbreviation arrives :: "sim_vehicle \<Rightarrow> bool" where
  "arrives v \<equiv> veh_wants_to_arrive v = Some True"

abbreviation sum_pce :: "sim_vehicle list \<Rightarrow> f64" where
  "sum_pce vs \<equiv> sum_list (map pce vs)"

text \<open>
  What a step does with the queue: the vehicles of a prefix of the queue, all of them due, leave
  it; those that arrive are released, the others enter the buffer, in their order. The step
  stops at the end of the queue, at a vehicle that is not due, or at one that wants to move on
  when no flow capacity is left.
\<close>

definition queue_taken :: "tick \<Rightarrow> vehicle_q_entry list \<Rightarrow> local_link \<Rightarrow> nat \<Rightarrow> sim_vehicle list \<Rightarrow> local_link \<Rightarrow> bool" where
  "queue_taken now es l k released l' \<longleftrightarrow> k \<le> length es \<and>
     (\<forall>e \<in> set (take k es). earliest_exit_time e \<le> now) \<and>
     released = filter arrives (map qe_vehicle (take k es)) \<and>
     l' = l\<lparr>ll_q := drop k es,
        ll_buffer := ll_buffer l @ filter (\<lambda>v. \<not> arrives v) (map qe_vehicle (take k es)),
        ll_storage_cap := storage_release (sum_pce (map qe_vehicle (take k es))) (ll_storage_cap l)\<rparr> \<and>
     (k < length es \<longrightarrow> now < earliest_exit_time (es ! k) \<or>
        \<not> arrives (qe_vehicle (es ! k)) \<and> \<not> has_flow_capacity_left l')"

lemma has_flow_capacity_cong:
  "ll_flow_cap l' = ll_flow_cap l \<Longrightarrow> ll_buffer l' = ll_buffer l \<Longrightarrow>
   has_flow_capacity_left l' = has_flow_capacity_left l"
  by (simp add: has_flow_capacity_left_def)

lemma storage_release_add: "storage_release b (storage_release a s) = storage_release (a + b) s"
  by (simp add: storage_release_def)

lemma storage_release_zero [simp]: "storage_release 0 s = s"
  by (simp add: storage_release_def)

lemma queue_taken_zero:
  "now < earliest_exit_time e \<or> \<not> arrives (qe_vehicle e) \<and> \<not> has_flow_capacity_left l \<Longrightarrow>
   queue_taken now (e # es) l 0 [] (l\<lparr>ll_q := e # es\<rparr>)"
  by (auto simp: queue_taken_def has_flow_capacity_left_def)

lemma queue_to_buffer_spec:
  assumes "queue_to_buffer now es l = Some (released, l')"
  shows "\<exists>k. queue_taken now es l k released l'"
  using assms
proof (induction now es l arbitrary: released rule: queue_to_buffer.induct)
  case (1 now l)
  then show ?case by (auto simp: queue_taken_def)
next
  case (2 now e es l)
  from "2.prems" obtain arrive where arr: "veh_wants_to_arrive (qe_vehicle e) = Some arrive"
    by auto
  let ?v = "qe_vehicle e" and ?st = "storage_release (pce (qe_vehicle e)) (ll_storage_cap l)"
  consider (later) "now < earliest_exit_time e"
    | (arrive) "earliest_exit_time e \<le> now" "arrive"
    | (move) "earliest_exit_time e \<le> now" "\<not> arrive" "has_flow_capacity_left l"
    | (full) "earliest_exit_time e \<le> now" "\<not> arrive" "\<not> has_flow_capacity_left l"
    by fastforce
  then show ?case
  proof cases
    case later
    then show ?thesis using "2.prems" arr queue_taken_zero[of now e l es] by (auto simp: Let_def)
  next
    case full
    then show ?thesis using "2.prems" arr queue_taken_zero[of now e l es] by (auto simp: Let_def)
  next
    case arrive
    then obtain rel where rel: "released = ?v # rel"
      and rec: "queue_to_buffer now es (l\<lparr>ll_storage_cap := ?st\<rparr>) = Some (rel, l')"
      using "2.prems" arr by (auto simp: Let_def)
    then obtain k where "queue_taken now es (l\<lparr>ll_storage_cap := ?st\<rparr>) k rel l'"
      using "2.IH"(1)[OF arr refl refl refl] arrive by auto
    then have "queue_taken now (e # es) l (Suc k) released l'"
      using arr arrive rel by (auto simp: queue_taken_def storage_release_add)
    then show ?thesis by blast
  next
    case move
    then have "queue_to_buffer now es (l\<lparr>ll_storage_cap := ?st, ll_buffer := ll_buffer l @ [?v]\<rparr>) = Some (released, l')"
      using "2.prems" arr by (auto simp: Let_def)
    then obtain k where "queue_taken now es (l\<lparr>ll_storage_cap := ?st, ll_buffer := ll_buffer l @ [?v]\<rparr>) k released l'"
      using "2.IH"(2)[OF arr refl refl refl] move by auto
    then have "queue_taken now (e # es) l (Suc k) released l'"
      using arr move by (auto simp: queue_taken_def storage_release_add)
    then show ?thesis by blast
  qed
qed

definition waiting_taken :: "sim_vehicle list \<Rightarrow> local_link \<Rightarrow> nat \<Rightarrow> sim_vehicle list \<Rightarrow> local_link \<Rightarrow> bool" where
  "waiting_taken vs l k released l' \<longleftrightarrow> k \<le> length vs \<and>
     released = filter arrives (take k vs) \<and>
     l' = l\<lparr>ll_waiting_list := drop k vs, ll_buffer := ll_buffer l @ filter (\<lambda>v. \<not> arrives v) (take k vs)\<rparr> \<and>
     (k < length vs \<longrightarrow> \<not> arrives (vs ! k) \<and> \<not> has_flow_capacity_left l')"

lemma waiting_to_buffer_spec:
  assumes "waiting_to_buffer now vs env l = Some (released, env', l')"
  shows "\<exists>k. waiting_taken vs l k released l'"
  using assms
proof (induction vs arbitrary: env l released)
  case Nil
  then show ?case by (auto simp: waiting_taken_def)
next
  case (Cons v vs)
  from Cons.prems obtain arrive where arr: "veh_wants_to_arrive v = Some arrive" by auto
  show ?case
  proof (cases arrive)
    case True
    then obtain rel env1 where rel: "released = v # rel"
      and "waiting_to_buffer now vs env1 l = Some (rel, env', l')"
      using Cons.prems arr by auto
    then obtain k where "waiting_taken vs l k rel l'" using Cons.IH by blast
    then have "waiting_taken (v # vs) l (Suc k) released l'"
      using arr True rel by (auto simp: waiting_taken_def)
    then show ?thesis by blast
  next
    case False
    show ?thesis
    proof (cases "has_flow_capacity_left l")
      case True
      then obtain env1 where "waiting_to_buffer now vs env1 (l\<lparr>ll_buffer := ll_buffer l @ [v]\<rparr>) = Some (released, env', l')"
        using Cons.prems arr False by auto
      then obtain k where "waiting_taken vs (l\<lparr>ll_buffer := ll_buffer l @ [v]\<rparr>) k released l'"
        using Cons.IH by blast
      then have "waiting_taken (v # vs) l (Suc k) released l'"
        using arr False by (auto simp: waiting_taken_def)
      then show ?thesis by blast
    next
      case no: False
      then have "waiting_taken (v # vs) l 0 released l'"
        using Cons.prems arr False by (auto simp: waiting_taken_def has_flow_capacity_left_def)
      then show ?thesis by blast
    qed
  qed
qed

lemma do_sim_step_phases:
  assumes "do_sim_step now env l = Some (ended, env', l')"
  shows "\<exists>t l1 j k ended1 ended2. tick_to_time (ll_clock l) now = Some t \<and>
    waiting_taken (ll_waiting_list l) (l\<lparr>ll_flow_cap := update_capacity t (ll_flow_cap l)\<rparr>) j ended1 l1 \<and>
    queue_taken now (ll_q l) l1 k ended2 l' \<and> ended = ended1 @ ended2"
proof -
  from assms obtain t ended1 env1 l1 ended2 where t: "tick_to_time (ll_clock l) now = Some t"
    and w: "waiting_to_buffer now (ll_waiting_list l) env (l\<lparr>ll_flow_cap := update_capacity t (ll_flow_cap l)\<rparr>) =
      Some (ended1, env1, l1)"
    and q: "queue_to_buffer now (ll_q l1) l1 = Some (ended2, l')" and e: "ended = ended1 @ ended2"
    by (auto simp: do_sim_step_def update_flow_cap_def add_waiting_to_buffer_def add_queue_to_buffer_def)
  obtain j where j: "waiting_taken (ll_waiting_list l) (l\<lparr>ll_flow_cap := update_capacity t (ll_flow_cap l)\<rparr>) j ended1 l1"
    using waiting_to_buffer_spec[OF w] by blast
  then have "ll_q l1 = ll_q l" by (simp add: waiting_taken_def)
  then obtain k where "queue_taken now (ll_q l) l1 k ended2 l'" using queue_to_buffer_spec[OF q] by auto
  with j t e show ?thesis by blast
qed

lemma do_sim_step_cases:
  assumes "do_sim_step now env l = Some (ended, env', l')"
  obtains t j k where "tick_to_time (ll_clock l) now = Some t"
    and "j \<le> length (ll_waiting_list l)" and "k \<le> length (ll_q l)"
    and "\<forall>e \<in> set (take k (ll_q l)). earliest_exit_time e \<le> now"
    and "ended = filter arrives (take j (ll_waiting_list l)) @ filter arrives (map qe_vehicle (take k (ll_q l)))"
    and "l' = l\<lparr>ll_flow_cap := update_capacity t (ll_flow_cap l), ll_waiting_list := drop j (ll_waiting_list l),
      ll_q := drop k (ll_q l),
      ll_buffer := ll_buffer l @ filter (\<lambda>v. \<not> arrives v) (take j (ll_waiting_list l)) @
        filter (\<lambda>v. \<not> arrives v) (map qe_vehicle (take k (ll_q l))),
      ll_storage_cap := storage_release (sum_pce (map qe_vehicle (take k (ll_q l)))) (ll_storage_cap l)\<rparr>"
    and "k < length (ll_q l) \<Longrightarrow> now < earliest_exit_time (ll_q l ! k) \<or> \<not> has_flow_capacity_left l'"
proof -
  obtain t l1 j k ended1 ended2 where t: "tick_to_time (ll_clock l) now = Some t" and
    w: "waiting_taken (ll_waiting_list l) (l\<lparr>ll_flow_cap := update_capacity t (ll_flow_cap l)\<rparr>) j ended1 l1"
    and q: "queue_taken now (ll_q l) l1 k ended2 l'" and e: "ended = ended1 @ ended2"
    using do_sim_step_phases[OF assms] by blast
  have l1: "l1 = l\<lparr>ll_flow_cap := update_capacity t (ll_flow_cap l), ll_waiting_list := drop j (ll_waiting_list l),
      ll_buffer := ll_buffer l @ filter (\<lambda>v. \<not> arrives v) (take j (ll_waiting_list l))\<rparr>"
    and j: "j \<le> length (ll_waiting_list l)" "ended1 = filter arrives (take j (ll_waiting_list l))"
    using w by (simp_all add: waiting_taken_def)
  have l': "l' = l1\<lparr>ll_q := drop k (ll_q l),
        ll_buffer := ll_buffer l1 @ filter (\<lambda>v. \<not> arrives v) (map qe_vehicle (take k (ll_q l))),
        ll_storage_cap := storage_release (sum_pce (map qe_vehicle (take k (ll_q l)))) (ll_storage_cap l1)\<rparr>"
    and k: "k \<le> length (ll_q l)" "\<forall>e \<in> set (take k (ll_q l)). earliest_exit_time e \<le> now"
      "ended2 = filter arrives (map qe_vehicle (take k (ll_q l)))"
      "k < length (ll_q l) \<Longrightarrow> now < earliest_exit_time (ll_q l ! k) \<or> \<not> has_flow_capacity_left l'"
    using q by (auto simp: queue_taken_def)
  show ?thesis
    by (rule that[OF t j(1) k(1,2) _ _ k(4)]) (simp_all add: e j(2) k(3) l' l1)
qed

text \<open>
  C7. One step of a link. From the waiting list and then from the queue a prefix each leaves; the
  vehicles taken from the queue are all due; those wanting to arrive are returned, waiting ones
  first, and the others join the end of the buffer in their order, so that no vehicle overtakes
  another one of the same list. A remaining first vehicle of the queue is either not due or
  there is no flow capacity left for it; storage is released for exactly the vehicles taken from
  the queue.
\<close>

theorem do_sim_step_spec:
  assumes "do_sim_step now env l = Some (ended, env', l')"
  shows "\<exists>j k. j \<le> length (ll_waiting_list l) \<and> k \<le> length (ll_q l) \<and>
    (let w = take j (ll_waiting_list l); v = map qe_vehicle (take k (ll_q l)) in
     ll_waiting_list l' = drop j (ll_waiting_list l) \<and> ll_q l' = drop k (ll_q l) \<and>
     (\<forall>e \<in> set (take k (ll_q l)). earliest_exit_time e \<le> now) \<and>
     ended = filter arrives w @ filter arrives v \<and>
     ll_buffer l' = ll_buffer l @ filter (\<lambda>v. \<not> arrives v) w @ filter (\<lambda>v. \<not> arrives v) v \<and>
     storage_used (ll_storage_cap l') = storage_used (ll_storage_cap l) - sum_pce v \<and>
     (k < length (ll_q l) \<longrightarrow> now < earliest_exit_time (ll_q l ! k) \<or> \<not> has_flow_capacity_left l'))"
  by (rule do_sim_step_cases[OF assms]) (auto simp: Let_def)

section \<open>Conservation of vehicles\<close>

lemma mset_filter_split: "mset (filter P xs) + mset (filter (\<lambda>x. \<not> P x) xs) = mset xs"
  by (metis mset_filter multiset_partition)

lemma do_sim_step_vehs [conservation]:
  assumes "do_sim_step now env l = Some (ended, env', l')"
  shows "mset (ll_vehs l) = mset ended + mset (ll_vehs l')"
proof -
  obtain j k where
      e: "ended = filter arrives (take j (ll_waiting_list l)) @ filter arrives (map qe_vehicle (take k (ll_q l)))"
    and w: "ll_waiting_list l' = drop j (ll_waiting_list l)" and q: "ll_q l' = drop k (ll_q l)"
    and b: "ll_buffer l' = ll_buffer l @ filter (\<lambda>v. \<not> arrives v) (take j (ll_waiting_list l)) @
      filter (\<lambda>v. \<not> arrives v) (map qe_vehicle (take k (ll_q l)))"
    by (rule do_sim_step_cases[OF assms]) simp
  let ?w = "take j (ll_waiting_list l)" and ?v = "map qe_vehicle (take k (ll_q l))"
  have "mset (ll_waiting_list l) = mset ?w + mset (drop j (ll_waiting_list l))"
    by (metis append_take_drop_id mset_append)
  moreover have "mset (map qe_vehicle (ll_q l)) = mset ?v + mset (map qe_vehicle (drop k (ll_q l)))"
    by (metis append_take_drop_id mset_append map_append)
  ultimately show ?thesis
    using mset_filter_split[of arrives ?w] mset_filter_split[of arrives ?v]
    unfolding ll_vehs_def w q e b mset_append by (simp only: ac_simps)
qed

lemma ll_push_vehs [conservation]: "mset (ll_vehs (ll_push_veh v now pos l)) = add_mset v (mset (ll_vehs l))"
  by (cases pos) (simp_all add: ll_vehs_def push_veh_to_queue_def push_veh_to_waiting_list_def Let_def)

lemma ll_pop_Some:
  "ll_pop_veh l = (Some v, l') \<longleftrightarrow> (\<exists>vs. ll_buffer l = v # vs \<and>
     l' = l\<lparr>ll_buffer := vs, ll_flow_cap := flow_consume (pce v) (ll_flow_cap l),
            ll_stuck_timer := timer_reset (ll_stuck_timer l)\<rparr>)"
  by (auto simp: ll_pop_veh_def split: list.splits)

lemma ll_pop_None: "ll_pop_veh l = (None, l') \<longleftrightarrow> ll_buffer l = [] \<and> l' = l"
  by (auto simp: ll_pop_veh_def split: list.splits)

lemma ll_offers_frame [frame]:
  "ll_offers_veh now l = (r, l') \<Longrightarrow> (l' = l \<or> l' = l\<lparr>ll_stuck_timer := timer_start now (ll_stuck_timer l)\<rparr>) \<and>
   (r \<noteq> None \<longrightarrow> ll_buffer l \<noteq> [] \<and> r = Some (hd (ll_buffer l)) \<and> has_capacity_left (ll_flow_cap l))"
  by (auto simp: ll_offers_veh_def split: list.splits if_splits)

section \<open>The contract of a link towards the network\<close>

text \<open>
  What the network relies on when it moves vehicles between links: pushing adds the vehicle to
  the vehicles of the link, popping removes the vehicle it returns, and offering or asking for
  the head of a link changes nothing of its vehicles.
\<close>

locale vehicle_store =
  fixes vehs :: "'l \<Rightarrow> sim_vehicle list"
    and push :: "sim_vehicle \<Rightarrow> link_position \<Rightarrow> tick \<Rightarrow> 'l \<Rightarrow> 'l option"
    and pop :: "'l \<Rightarrow> (sim_vehicle option \<times> 'l) option"
    and offer :: "tick \<Rightarrow> 'l \<Rightarrow> (sim_vehicle option \<times> 'l) option"
  assumes push_vehs: "push v pos now l = Some l' \<Longrightarrow> mset (vehs l') = add_mset v (mset (vehs l))"
    and pop_vehs: "pop l = Some (Some v, l') \<Longrightarrow> mset (vehs l) = add_mset v (mset (vehs l'))"
    and offer_vehs: "offer now l = Some (r, l') \<Longrightarrow> mset (vehs l') = mset (vehs l)"
    and offer_pop: "offer now l = Some (Some v, l') \<Longrightarrow> \<exists>l''. pop l' = Some (Some v, l'')"
begin

lemma transfer_vehs:
  assumes "pop a = Some (Some v, a')" and "push w pos now b = Some b'" and "g w = g v"
  shows "image_mset g (mset (vehs a')) + image_mset g (mset (vehs b')) =
    image_mset g (mset (vehs a)) + image_mset g (mset (vehs b))"
  using pop_vehs[OF assms(1)] push_vehs[OF assms(2)] assms(3) by simp

lemma pop_length: "pop l = Some (Some v, l') \<Longrightarrow> length (vehs l) = Suc (length (vehs l'))"
  using pop_vehs[of l v l'] by (metis size_add_mset size_mset)

end

interpretation link_store: vehicle_store sl_vehs sl_push_veh sl_pop_veh sl_offers_veh
proof
  show "mset (sl_vehs l') = add_mset v (mset (sl_vehs l))" if "sl_push_veh v pos now l = Some l'" for v pos now l l'
    using that by (cases l; cases pos) (auto simp: ll_push_vehs[of _ _ QStart, simplified] ll_push_vehs[of _ _ Waiting, simplified])
  show "mset (sl_vehs l) = add_mset v (mset (sl_vehs l'))" if "sl_pop_veh l = Some (Some v, l')" for l v l'
    using that by (cases l) (auto simp: ll_pop_Some ll_vehs_def split: prod.splits)
  show "mset (sl_vehs l') = mset (sl_vehs l)" if "sl_offers_veh now l = Some (r, l')" for now l r l'
    using that by (cases l) (auto simp: ll_vehs_def dest!: ll_offers_frame split: prod.splits)
  show "\<exists>l''. sl_pop_veh l' = Some (Some v, l'')" if "sl_offers_veh now l = Some (Some v, l')" for now l v l'
    using that by (cases l)
      (auto simp: ll_offers_veh_def ll_pop_veh_def split: prod.splits list.splits if_splits)
qed

text \<open>What never changes of a link: its kind, id, to-node, clock and capacity per tick.\<close>

fun sl_static :: "sim_link \<Rightarrow> nat \<times> link_id \<times> (node_id \<times> sim_clock \<times> f64) option" where
  "sl_static (Local l) = (0, ll_id l, Some (ll_to l, ll_clock l, capacity_per_tick (ll_flow_cap l)))"
| "sl_static (In l) = (1, ll_id (il_local_link l), Some (ll_to (il_local_link l), ll_clock (il_local_link l),
     capacity_per_tick (ll_flow_cap (il_local_link l))))"
| "sl_static (Out l) = (2, ol_id l, None)"

definition ll_static :: "local_link \<Rightarrow> link_id \<times> node_id \<times> sim_clock \<times> f64" where
  "ll_static l = (ll_id l, ll_to l, ll_clock l, capacity_per_tick (ll_flow_cap l))"

lemma ll_push_static [simp]: "ll_static (ll_push_veh v now pos l) = ll_static l"
  by (cases pos) (simp_all add: ll_static_def push_veh_to_queue_def push_veh_to_waiting_list_def Let_def)

lemma ll_pop_static: "ll_pop_veh l = (r, l') \<Longrightarrow> ll_static l' = ll_static l"
  by (auto simp: ll_pop_veh_def ll_static_def split: list.splits)

lemma ll_offers_static: "ll_offers_veh now l = (r, l') \<Longrightarrow> ll_static l' = ll_static l"
  by (auto simp: ll_offers_veh_def ll_static_def split: list.splits if_splits)

lemma do_sim_step_static: "do_sim_step now env l = Some (ended, env', l') \<Longrightarrow> ll_static l' = ll_static l"
  by (erule do_sim_step_cases) (simp add: ll_static_def)

lemma sl_static_iff:
  "sl_static (Local l) = sl_static (Local l') \<longleftrightarrow> ll_static l = ll_static l'"
  "sl_static (In i) = sl_static (In i') \<longleftrightarrow> ll_static (il_local_link i) = ll_static (il_local_link i')"
  by (auto simp: ll_static_def)

lemma sl_push_static: "sl_push_veh v pos now l = Some l' \<Longrightarrow> sl_static l' = sl_static l"
  by (cases l; cases pos) (auto simp: sl_static_iff simp del: sl_static.simps(1,2) ll_push_veh.simps)

lemma sl_pop_static: "sl_pop_veh l = Some (r, l') \<Longrightarrow> sl_static l' = sl_static l"
  by (cases l) (auto simp: sl_static_iff simp del: sl_static.simps(1,2) split: prod.splits dest: ll_pop_static)

lemma sl_offers_static: "sl_offers_veh now l = Some (r, l') \<Longrightarrow> sl_static l' = sl_static l"
  by (cases l) (auto simp: sl_static_iff simp del: sl_static.simps(1,2) split: prod.splits dest: ll_offers_static)

lemma sl_static_id: "sl_static l' = sl_static l \<Longrightarrow> sl_id l' = sl_id l"
  by (cases l; cases l') auto

section \<open>The link invariant\<close>

text \<open>
  For vehicles of at most \<open>m\<close> equivalents: the used storage is the sum over the queue, the
  buffer holds at most one vehicle more than the remaining flow capacity, and that capacity is
  bounded by the capacity of one tick.
\<close>

definition ll_inv :: "f64 \<Rightarrow> local_link \<Rightarrow> bool" where
  "ll_inv m l \<longleftrightarrow> (\<forall>v \<in> set (ll_vehs l). 0 \<le> pce v \<and> pce v \<le> m) \<and>
     storage_used (ll_storage_cap l) = sum_pce (map qe_vehicle (ll_q l)) \<and>
     sum_pce (ll_buffer l) \<le> remaining_capacity (ll_flow_cap l) + m \<and>
     remaining_capacity (ll_flow_cap l) \<le> capacity_per_tick (ll_flow_cap l) \<and>
     0 \<le> capacity_per_second (ll_flow_cap l)"

lemma queue_to_buffer_bound:
  assumes "queue_to_buffer now es l = Some (released, l')"
    and "\<forall>e \<in> set es. pce (qe_vehicle e) \<le> m"
    and "sum_pce (ll_buffer l) \<le> remaining_capacity (ll_flow_cap l) + m"
  shows "sum_pce (ll_buffer l') \<le> remaining_capacity (ll_flow_cap l') + m"
  using assms
proof (induction now es l arbitrary: released rule: queue_to_buffer.induct)
  case (2 now e es l)
  from "2.prems"(1) obtain arrive where arr: "veh_wants_to_arrive (qe_vehicle e) = Some arrive" by auto
  show ?case
    using "2.prems" arr "2.IH"(1)[OF arr refl refl refl] "2.IH"(2)[OF arr refl refl refl]
    by (auto simp: Let_def has_flow_capacity_left_def split: if_splits)
qed auto

lemma waiting_to_buffer_bound:
  assumes "waiting_to_buffer now vs env l = Some (released, env', l')"
    and "\<forall>v \<in> set vs. pce v \<le> m"
    and "sum_pce (ll_buffer l) \<le> remaining_capacity (ll_flow_cap l) + m"
  shows "sum_pce (ll_buffer l') \<le> remaining_capacity (ll_flow_cap l') + m"
  using assms
proof (induction vs arbitrary: env l released)
  case (Cons v vs)
  from Cons.prems(1) obtain arrive where arr: "veh_wants_to_arrive v = Some arrive" by auto
  show ?case
    using Cons.prems arr Cons.IH by (auto simp: has_flow_capacity_left_def split: if_splits)
qed auto

lemma update_capacity_keeps:
  assumes "0 \<le> capacity_per_second c" and "remaining_capacity c \<le> capacity_per_tick c"
  shows "remaining_capacity c \<le> remaining_capacity (update_capacity t c)"
    and "remaining_capacity (update_capacity t c) \<le> capacity_per_tick c"
  using assms by (auto simp: update_capacity_def Let_def)

lemma ll_inv_push:
  "ll_inv m l \<Longrightarrow> 0 \<le> pce v \<Longrightarrow> pce v \<le> m \<Longrightarrow> ll_inv m (ll_push_veh v now pos l)"
  by (cases pos) (auto simp: ll_inv_def ll_vehs_def push_veh_to_queue_def push_veh_to_waiting_list_def Let_def)

lemma ll_inv_pop:
  assumes "ll_inv m l" and "ll_pop_veh l = (r, l')"
  shows "ll_inv m l'"
proof (cases r)
  case None
  then show ?thesis using assms by (simp add: ll_pop_None)
next
  case (Some v)
  then show ?thesis using assms by (auto simp: ll_pop_Some ll_inv_def ll_vehs_def)
qed

lemma ll_inv_offer: "ll_inv m l \<Longrightarrow> ll_offers_veh now l = (r, l') \<Longrightarrow> ll_inv m l'"
  by (auto simp: ll_inv_def ll_vehs_def dest!: ll_offers_frame)

lemma ll_inv_step:
  assumes inv: "ll_inv m l" and step: "do_sim_step now env l = Some (ended, env', l')"
  shows "ll_inv m l'"
proof -
  obtain t j k where
      l': "l' = l\<lparr>ll_flow_cap := update_capacity t (ll_flow_cap l), ll_waiting_list := drop j (ll_waiting_list l),
      ll_q := drop k (ll_q l),
      ll_buffer := ll_buffer l @ filter (\<lambda>v. \<not> arrives v) (take j (ll_waiting_list l)) @
        filter (\<lambda>v. \<not> arrives v) (map qe_vehicle (take k (ll_q l))),
      ll_storage_cap := storage_release (sum_pce (map qe_vehicle (take k (ll_q l)))) (ll_storage_cap l)\<rparr>"
    by (rule do_sim_step_cases[OF step])
  have "sum_pce (map qe_vehicle (ll_q l)) = sum_pce (map qe_vehicle (take k (ll_q l))) + sum_pce (map qe_vehicle (drop k (ll_q l)))"
    by (metis append_take_drop_id map_append sum_list_append)
  then have st: "storage_used (ll_storage_cap l') = sum_pce (map qe_vehicle (ll_q l'))"
    using inv by (simp add: ll_inv_def l')
  have "set_mset (mset (ll_vehs l')) \<subseteq> set_mset (mset (ll_vehs l))"
    using do_sim_step_vehs[OF step] by simp
  then have vehs: "\<forall>v \<in> set (ll_vehs l'). 0 \<le> pce v \<and> pce v \<le> m"
    using inv by (auto simp: ll_inv_def)
  have cap: "remaining_capacity (ll_flow_cap l) \<le> capacity_per_tick (ll_flow_cap l)" "0 \<le> capacity_per_second (ll_flow_cap l)"
    and buf: "sum_pce (ll_buffer l) \<le> remaining_capacity (ll_flow_cap l) + m"
    and pw: "\<forall>v \<in> set (ll_waiting_list l). pce v \<le> m" and pq: "\<forall>e \<in> set (ll_q l). pce (qe_vehicle e) \<le> m"
    using inv by (auto simp: ll_inv_def ll_vehs_def)
  from step obtain t1 ended1 env1 l1 ended2 where
    w: "waiting_to_buffer now (ll_waiting_list l) env (l\<lparr>ll_flow_cap := update_capacity t1 (ll_flow_cap l)\<rparr>) =
      Some (ended1, env1, l1)"
    and q: "queue_to_buffer now (ll_q l1) l1 = Some (ended2, l')"
    by (auto simp: do_sim_step_def update_flow_cap_def add_waiting_to_buffer_def add_queue_to_buffer_def)
  have "sum_pce (ll_buffer l1) \<le> remaining_capacity (ll_flow_cap l1) + m"
    using waiting_to_buffer_bound[OF w pw] buf update_capacity_keeps(1)[OF cap(2,1), of t1] by auto
  moreover have "ll_q l1 = ll_q l" using waiting_to_buffer_spec[OF w] by (auto simp: waiting_taken_def)
  ultimately have "sum_pce (ll_buffer l') \<le> remaining_capacity (ll_flow_cap l') + m"
    using queue_to_buffer_bound[OF q] pq by simp
  with st vehs show ?thesis
    using update_capacity_keeps(2)[OF cap(2,1), of t] cap by (simp add: ll_inv_def l')
qed

datatype link_op = Push sim_vehicle tick link_position | Step tick | Offer tick | PopVeh

fun link_step :: "link_op \<Rightarrow> env \<times> local_link \<Rightarrow> (env \<times> local_link) option" where
  "link_step (Push v now pos) (env, l) = Some (env, ll_push_veh v now pos l)"
| "link_step (Step now) (env, l) = do { (_, env, l) \<leftarrow> do_sim_step now env l; Some (env, l) }"
| "link_step (Offer now) (env, l) = Some (env, snd (ll_offers_veh now l))"
| "link_step PopVeh (env, l) = Some (env, snd (ll_pop_veh l))"

lemma link_step_inv:
  assumes "ll_inv m l" and "link_step op (env, l) = Some (env', l')"
    and "\<And>v now pos. op = Push v now pos \<Longrightarrow> 0 \<le> pce v \<and> pce v \<le> m"
  shows "ll_inv m l'"
proof (cases op)
  case (Push v now pos)
  then show ?thesis using assms ll_inv_push by auto
next
  case (Step now)
  then show ?thesis using assms ll_inv_step by (auto split: prod.splits)
next
  case (Offer now)
  then show ?thesis using assms ll_inv_offer by (metis link_step.simps(3) option.inject prod.collapse prod.inject)
next
  case PopVeh
  then show ?thesis using assms ll_inv_pop by (metis link_step.simps(4) option.inject prod.collapse prod.inject)
qed

lemma ll_inv_from_link:
  assumes "from_link lk cell config = Some l" and "0 \<le> link_capacity lk" and "0 \<le> qc_sample_size config" and "0 \<le> m"
  shows "ll_inv m l"
proof -
  have "0 \<le> link_capacity lk * qc_sample_size config" using assms by simp
  then have "0 \<le> link_capacity lk * qc_sample_size config / 3600 * duration_as_secs_f64 d" for d by simp
  with assms show ?thesis
    by (auto simp: from_link_def ll_build_def Let_def ll_inv_def ll_vehs_def flowcap_new_def storage_build_def
        intro!: add_nonneg_nonneg)
qed

lemma link_run_inv:
  assumes "foldM link_step ops (env, l0) = Some (env', l)" and "ll_inv m l0"
    and "\<And>v now pos. Push v now pos \<in> set ops \<Longrightarrow> 0 \<le> pce v \<and> pce v \<le> m"
  shows "ll_inv m l"
proof -
  have "ll_inv m (snd (env', l))"
  proof (rule foldM_inv[OF assms(1), where P = "\<lambda>s. ll_inv m (snd s)"])
    show "ll_inv m (snd (env, l0))" using assms(2) by simp
    show "ll_inv m (snd s')" if "op \<in> set ops" "ll_inv m (snd s)" "link_step op s = Some s'" for op s s'
      using that assms(3) link_step_inv[of m "snd s" op "fst s" "fst s'" "snd s'"] by auto
  qed
  then show ?thesis by simp
qed

text \<open>
  C8. In every run of a link, whatever is pushed, stepped, offered and popped, the storage in use
  is the sum of the equivalents in its queue (so it is released exactly once per vehicle), the
  vehicles in the buffer exceed the remaining flow capacity by less than one vehicle, and the
  remaining capacity stays between minus one vehicle and the capacity of a tick.
\<close>

theorem link_accounting:
  assumes "from_link lk cell config = Some l0" and "0 \<le> link_capacity lk" and "0 \<le> qc_sample_size config"
    and "\<And>v now pos. Push v now pos \<in> set ops \<Longrightarrow> 0 \<le> pce v \<and> pce v \<le> m" and "0 \<le> m"
    and "foldM link_step ops (env, l0) = Some (env', l)"
  shows "storage_used (ll_storage_cap l) = sum_pce (map qe_vehicle (ll_q l)) \<and>
    sum_pce (ll_buffer l) \<le> remaining_capacity (ll_flow_cap l) + m \<and>
    - m \<le> remaining_capacity (ll_flow_cap l) \<and>
    remaining_capacity (ll_flow_cap l) \<le> capacity_per_tick (ll_flow_cap l)"
proof -
  have inv: "ll_inv m l"
    by (rule link_run_inv[OF assms(6) ll_inv_from_link[OF assms(1-3,5)] assms(4)])
  then have "0 \<le> sum_pce (ll_buffer l)" by (auto simp: ll_inv_def ll_vehs_def intro!: sum_list_nonneg)
  with inv show ?thesis by (simp add: ll_inv_def)
qed

section \<open>Throughput\<close>

text \<open>The vehicles that are popped in a run of the link, that is, those that pass it.\<close>

fun popped :: "link_op list \<Rightarrow> env \<times> local_link \<Rightarrow> sim_vehicle list" where
  "popped [] s = []"
| "popped (op # ops) s =
     (if op = PopVeh then case fst (ll_pop_veh (snd s)) of Some v \<Rightarrow> [v] | None \<Rightarrow> [] else []) @
     (case link_step op s of Some s' \<Rightarrow> popped ops s' | None \<Rightarrow> [])"

text \<open>What a step does to the capacity: time adds to it, a vehicle that passes takes from it.\<close>

lemma link_step_flow:
  assumes "link_step op s = Some s'"
  shows "last_update_time (ll_flow_cap (snd s)) \<le> last_update_time (ll_flow_cap (snd s')) \<and>
    capacity_per_second (ll_flow_cap (snd s')) = capacity_per_second (ll_flow_cap (snd s)) \<and>
    capacity_per_tick (ll_flow_cap (snd s')) = capacity_per_tick (ll_flow_cap (snd s)) \<and>
    sum_pce (popped [op] s) \<le> remaining_capacity (ll_flow_cap (snd s)) - remaining_capacity (ll_flow_cap (snd s')) +
      duration_as_secs_f64 (last_update_time (ll_flow_cap (snd s')) - last_update_time (ll_flow_cap (snd s))) *
        capacity_per_second (ll_flow_cap (snd s))"
proof -
  obtain env l env' l' where s: "s = (env, l)" "s' = (env', l')" by fastforce
  show ?thesis
  proof (cases op)
    case (Push v now pos)
    then show ?thesis using assms s
      by (cases pos) (auto simp: push_veh_to_queue_def push_veh_to_waiting_list_def Let_def duration_as_secs_f64_def)
  next
    case (Step now)
    then obtain ended where step: "do_sim_step now env l = Some (ended, env', l')"
      using assms s by (auto split: prod.splits)
    obtain t where "ll_flow_cap l' = update_capacity t (ll_flow_cap l)"
      by (rule do_sim_step_cases[OF step]) simp
    then show ?thesis using Step s assms update_capacity_gain[of t "ll_flow_cap l"] by simp
  next
    case (Offer now)
    then have "ll_flow_cap l' = ll_flow_cap l"
      using assms s ll_offers_frame[of now l "fst (ll_offers_veh now l)" l'] by auto
    then show ?thesis using Offer s assms by (simp add: duration_as_secs_f64_def)
  next
    case PopVeh
    then show ?thesis using assms s
      by (cases "ll_buffer l") (auto simp: ll_pop_veh_def duration_as_secs_f64_def)
  qed
qed

lemma popped_Cons: "link_step op s = Some s' \<Longrightarrow> popped (op # ops) s = popped [op] s @ popped ops s'"
  by simp

lemma link_run_flow:
  assumes "foldM link_step ops s = Some s'"
  shows "last_update_time (ll_flow_cap (snd s)) \<le> last_update_time (ll_flow_cap (snd s')) \<and>
    capacity_per_second (ll_flow_cap (snd s')) = capacity_per_second (ll_flow_cap (snd s)) \<and>
    capacity_per_tick (ll_flow_cap (snd s')) = capacity_per_tick (ll_flow_cap (snd s)) \<and>
    sum_pce (popped ops s) \<le> remaining_capacity (ll_flow_cap (snd s)) - remaining_capacity (ll_flow_cap (snd s')) +
      duration_as_secs_f64 (last_update_time (ll_flow_cap (snd s')) - last_update_time (ll_flow_cap (snd s))) *
        capacity_per_second (ll_flow_cap (snd s))"
  using assms
proof (induction ops arbitrary: s)
  case Nil
  then show ?case by (simp add: duration_as_secs_f64_def)
next
  case (Cons op ops)
  then obtain s1 where s1: "link_step op s = Some s1" and rest: "foldM link_step ops s1 = Some s'"
    by (auto split: option.splits bind_splits)
  let ?t = "\<lambda>s. last_update_time (ll_flow_cap (snd s))" and ?k = "capacity_per_second (ll_flow_cap (snd s))"
  note a = link_step_flow[OF s1]
  then have k: "capacity_per_second (ll_flow_cap (snd s1)) = ?k" by blast
  note b = Cons.IH[OF rest, unfolded k]
  have "duration_as_secs_f64 (?t s1 - ?t s) * ?k + duration_as_secs_f64 (?t s' - ?t s1) * ?k = duration_as_secs_f64 (?t s' - ?t s) * ?k"
    using duration_as_secs_add[of "?t s" "?t s1" "?t s'"] a b by (simp add: distrib_right[symmetric])
  moreover have "sum_pce (popped (op # ops) s) = sum_pce (popped [op] s) + sum_pce (popped ops s1)"
    using popped_Cons[OF s1, of ops] by (metis map_append sum_list_append)
  ultimately show ?case using a b by (elim conjE, intro conjI) linarith+
qed

text \<open>
  C9. Throughput of a link: in every run of a link and every window of it, the equivalents of the
  vehicles that pass the link in the window, together with those that wait in its buffer at the end,
  do not exceed the capacity of one tick, plus the capacity per second times the seconds between the
  updates of the capacity before and in the window, plus one vehicle.
\<close>

theorem flow_capacity_throughput:
  assumes "from_link lk cell config = Some l0" and "0 \<le> link_capacity lk" and "0 \<le> qc_sample_size config"
    and "\<And>v now pos. Push v now pos \<in> set (before @ window) \<Longrightarrow> 0 \<le> pce v \<and> pce v \<le> m" and "0 \<le> m"
    and "foldM link_step before (env, l0) = Some (env1, l1)"
    and "foldM link_step window (env1, l1) = Some (env2, l2)"
  shows "sum_pce (popped window (env1, l1)) + sum_pce (ll_buffer l2) \<le>
    link_capacity lk * qc_sample_size config / 3600 * duration_as_secs_f64 (tick_length (ll_clock l0)) +
    link_capacity lk * qc_sample_size config / 3600 *
      duration_as_secs_f64 (last_update_time (ll_flow_cap l2) - last_update_time (ll_flow_cap l1)) + m"
proof -
  have inv1: "ll_inv m l1"
    by (rule link_run_inv[OF assms(6) ll_inv_from_link[OF assms(1-3,5)]]) (use assms(4) in auto)
  let ?k = "link_capacity lk * qc_sample_size config / 3600" and ?secs = "duration_as_secs_f64 (last_update_time (ll_flow_cap l2) - last_update_time (ll_flow_cap l1))"
  have "ll_inv m l2" by (rule link_run_inv[OF assms(7) inv1]) (use assms(4) in auto)
  then have buf: "sum_pce (ll_buffer l2) \<le> remaining_capacity (ll_flow_cap l2) + m" by (simp add: ll_inv_def)
  have rem: "remaining_capacity (ll_flow_cap l1) \<le> capacity_per_tick (ll_flow_cap l1)" using inv1 by (simp add: ll_inv_def)
  have k: "capacity_per_second (ll_flow_cap l1) = ?k"
    "capacity_per_tick (ll_flow_cap l1) = ?k * duration_as_secs_f64 (tick_length (ll_clock l0))"
    using link_run_flow[OF assms(6)] assms(1)
    by (auto simp: from_link_def ll_build_def Let_def flowcap_new_def)
  have "sum_pce (popped window (env1, l1)) \<le> remaining_capacity (ll_flow_cap l1) - remaining_capacity (ll_flow_cap l2) + ?secs * ?k"
    using link_run_flow[OF assms(7)] unfolding snd_conv k by blast
  then show ?thesis using buf rem unfolding k mult.commute[of ?secs] by linarith
qed

text \<open>
  A vehicle that enters the queue of a link at tick \<open>now\<close> may leave it at the first tick
  after which it has had the time to drive the link at the lower of free speed and its own
  maximum speed, rounded down to ticks: never more than one tick early in real time, never late.
\<close>

theorem push_exit_time:
  assumes "0 < ll_length l" and "0 < ll_free_speed l" and "0 < max_v v" and "0 < ll_clock l"
    and "l' = push_veh_to_queue v now l"
    and "of_nat now + ll_length l / min (ll_free_speed l) (max_v v) * of_nat (ll_clock l) < of_nat u64_max"
  shows "\<exists>e. ll_q l' = ll_q l @ [e] \<and> qe_vehicle e = v \<and>
    of_nat (earliest_exit_time e) \<le> of_nat now + ll_length l / min (ll_free_speed l) (max_v v) * of_nat (ll_clock l) \<and>
    of_nat now + ll_length l / min (ll_free_speed l) (max_v v) * of_nat (ll_clock l) < of_nat (earliest_exit_time e) + 1"
proof -
  let ?s = "min (ll_free_speed l) (max_v v)"
  define x where "x = ll_length l / ?s * of_nat (ll_clock l)"
  have s: "0 < ?s" using assms by simp
  then have x: "0 \<le> x" using assms by (simp add: x_def)
  have small: "of_nat now + x < of_nat u64_max" using assms(6) by (simp add: x_def)
  define k where "k = nat \<lfloor>x\<rfloor>"
  have k: "of_nat k \<le> x" "x < of_nat k + 1"
    using x by (simp_all add: k_def) linarith+
  have "rat_of_nat (now + k) < of_nat u64_max" using k(1) small by simp
  then have sum: "now + k < u64_max" by (simp only: of_nat_less_iff)
  have "free_flow_ticks (ll_clock l) (ll_length l) ?s = f64_as_u64 (max (of_int \<lfloor>x\<rfloor>) 0)"
    using s unfolding free_flow_ticks_def secs_to_ticks_floor_def x_def by (metis less_irrefl)
  also have "\<dots> = k" using x sum by (simp add: f64_as_u64_def k_def max_def)
  finally have "free_flow_ticks (ll_clock l) (ll_length l) ?s = k" .
  moreover have "tick_saturating_add now k = now + k"
    using sum by (simp add: tick_saturating_add_def saturating_add_u64_def)
  ultimately have "ll_q l' = ll_q l @ [\<lparr>qe_vehicle = v, earliest_exit_time = now + k\<rparr>]"
    using assms(5) by (simp add: push_veh_to_queue_def Let_def)
  then show ?thesis unfolding x_def[symmetric] using k by simp
qed

section \<open>Witnesses\<close>

definition ex_config :: "f64 qsim_config" where
  "ex_config = \<lparr>qc_start_time = 0, qc_end_time = 100, qc_ticks_per_second = 1, qc_sample_size = 1,
     qc_stuck_threshold = 10, qc_main_modes = [''car'']\<rparr>"

definition ex_vehicle :: sim_vehicle where
  "ex_vehicle = \<lparr>sv_vehicle = \<lparr>iv_id = ''p_car'', iv_max_v = 10, iv_pce = 1, iv_vehicle_type = ''car'',
     iv_attributes = Map.empty\<rparr>, sv_driver = Some (PlanBased (ex_logic\<lparr>curr_plan_element := 1\<rparr>)), sv_passengers = []\<rparr>"

definition ex_local_link :: local_link where
  "ex_local_link = \<lparr>ll_id = 1, ll_q = [], ll_buffer = [], ll_waiting_list = [], ll_length = 100, ll_free_speed = 20,
     ll_storage_cap = storage_build 100 1 3600 1 (15 / 2), ll_flow_cap = flowcap_new 3600 1 1,
     ll_stuck_timer = timer_new 10, ll_clock = 1, ll_from = 1, ll_to = 2\<rparr>"

lemma ex_leg_of_vehicle: "pb_curr_leg (ex_logic\<lparr>curr_plan_element := 1\<rparr>) = Some ex_leg"
  by (simp add: pb_curr_leg_def pb_element_elements ex_plan_elements) (simp add: ex_elements_def list_get_def)

lemma ex_vehicle_moves: "veh_wants_to_arrive ex_vehicle = Some False"
  using ex_leg_of_vehicle
  by (simp add: veh_wants_to_arrive_def driver_def ex_vehicle_def agent_wants_to_arrive_def
      pb_is_wanting_to_arrive_on_current_link_def pb_peek_next_link_id_def)
    (simp add: ex_defs route_element_at_def list_get_def ex_logic_def)

lemma ex_vehicle_facts: "pce ex_vehicle = 1" "max_v ex_vehicle = 10" "driver ex_vehicle \<noteq> None"
  by (simp_all add: pce_def max_v_def driver_def ex_vehicle_def)

theorem do_sim_step_spec_witness:
  "\<exists>env' l'. do_sim_step 0 (env_new 0 0 Map.empty) (ex_local_link\<lparr>ll_waiting_list := [ex_vehicle]\<rparr>) = Some ([], env', l') \<and>
     (\<exists>j. ll_waiting_list l' = drop j [ex_vehicle])"
proof -
  let ?l = "ex_local_link\<lparr>ll_waiting_list := [ex_vehicle]\<rparr>"
  have leg: "agent_curr_leg (PlanBased (ex_logic\<lparr>curr_plan_element := 1\<rparr>)) = Some ex_leg"
    using ex_leg_of_vehicle by (simp add: agent_curr_leg_def)
  have t: "tick_to_time 1 0 = Some 0" by (simp add: tick_to_time_eq)
  have "\<exists>env' l'. do_sim_step 0 (env_new 0 0 Map.empty) ?l = Some ([], env', l')"
    using ex_vehicle_moves leg t
    by (simp add: do_sim_step_def update_flow_cap_def add_waiting_to_buffer_def add_queue_to_buffer_def
        enters_traffic_def ex_local_link_def has_flow_capacity_left_def flowcap_new_def update_capacity_def driver_def)
      (simp add: ex_vehicle_def)
  then obtain env' l' where step: "do_sim_step 0 (env_new 0 0 Map.empty) ?l = Some ([], env', l')" by blast
  then show ?thesis using do_sim_step_spec[OF step] by (auto simp: Let_def)
qed

theorem link_accounting_witness:
  "\<exists>l0 l env'. from_link (link_new 1 1 2 100 3600 20 1 {} 0) (15 / 2) ex_config = Some l0 \<and>
     foldM link_step [Push ex_vehicle 0 QStart, Offer 1] (env_new 0 0 Map.empty, l0) = Some (env', l) \<and>
     storage_used (ll_storage_cap l) = sum_pce (map qe_vehicle (ll_q l))"
proof -
  let ?lk = "link_new 1 1 2 100 3600 20 1 {} 0" and ?ops = "[Push ex_vehicle 0 QStart, Offer 1]"
  obtain l0 where l0: "from_link ?lk (15 / 2) ex_config = Some l0"
    by (simp add: from_link_def ll_build_def ex_config_def clock_new_def secs_to_tick_def from_secs_def from_duration_def
        assert_duration_fits_simtime_def duration_from_secs_def nanos_per_second_def u64_max_def time_to_tick_def
        div_ceil_def as_nanos_def Let_def)
  obtain env' l where run: "foldM link_step ?ops (env_new 0 0 Map.empty, l0) = Some (env', l)" by simp
  have "storage_used (ll_storage_cap l) = sum_pce (map qe_vehicle (ll_q l))"
    using link_accounting[OF l0 _ _ _ _ run, of 1] by (auto simp: link_new_def ex_config_def ex_vehicle_facts)
  then show ?thesis using l0 run by blast
qed

text \<open>A vehicle enters from the waiting list, is buffered and passes the link in the tick 0.\<close>

theorem flow_capacity_throughput_witness:
  "\<exists>l0 env2 l2. from_link (link_new 1 1 2 100 3600 20 1 {} 0) (15 / 2) ex_config = Some l0 \<and>
     foldM link_step [Push ex_vehicle 0 Waiting, Step 0, PopVeh] (env_new 0 0 Map.empty, l0) = Some (env2, l2) \<and>
     popped [Push ex_vehicle 0 Waiting, Step 0, PopVeh] (env_new 0 0 Map.empty, l0) = [ex_vehicle] \<and>
     sum_pce [ex_vehicle] + sum_pce (ll_buffer l2) \<le> 2"
proof -
  let ?lk = "link_new 1 1 2 100 3600 20 1 {} 0" and ?ops = "[Push ex_vehicle 0 Waiting, Step 0, PopVeh]"
  let ?l = "ex_local_link\<lparr>ll_waiting_list := [ex_vehicle]\<rparr>" and ?env = "env_new 0 0 Map.empty"
  have l0: "from_link ?lk (15 / 2) ex_config = Some ex_local_link"
    by (simp add: from_link_def ll_build_def ex_config_def clock_new_def secs_to_tick_def from_secs_def from_duration_def
        assert_duration_fits_simtime_def duration_from_secs_def nanos_per_second_def u64_max_def time_to_tick_def
        div_ceil_def as_nanos_def Let_def ex_local_link_def link_new_def tick_length_def duration_as_secs_f64_def)
  have leg: "agent_curr_leg (PlanBased (ex_logic\<lparr>curr_plan_element := 1\<rparr>)) = Some ex_leg"
    using ex_leg_of_vehicle by (simp add: agent_curr_leg_def)
  have t: "tick_to_time 1 0 = Some 0" by (simp add: tick_to_time_eq)
  have push: "push_veh_to_waiting_list ex_vehicle ex_local_link = ?l" by (simp add: push_veh_to_waiting_list_def ex_local_link_def)
  obtain env1 where step: "do_sim_step 0 ?env ?l = Some ([], env1, ex_local_link\<lparr>ll_buffer := [ex_vehicle]\<rparr>)"
    using ex_vehicle_moves leg t
    by (simp add: do_sim_step_def update_flow_cap_def add_waiting_to_buffer_def add_queue_to_buffer_def
        enters_traffic_def ex_local_link_def has_flow_capacity_left_def flowcap_new_def update_capacity_def driver_def)
      (simp add: ex_vehicle_def)
  let ?l2 = "ex_local_link\<lparr>ll_flow_cap := flow_consume 1 (ll_flow_cap ex_local_link)\<rparr>"
  have pop: "ll_pop_veh (ex_local_link\<lparr>ll_buffer := [ex_vehicle]\<rparr>) = (Some ex_vehicle, ?l2)"
    by (simp add: ll_pop_veh_def ex_local_link_def ex_vehicle_facts timer_reset_def timer_new_def)
  have run: "foldM link_step ?ops (?env, ex_local_link) = Some (env1, ?l2)" by (simp add: push step pop)
  have out: "popped ?ops (?env, ex_local_link) = [ex_vehicle]" by (simp add: push step pop)
  have "sum_pce (popped ?ops (?env, ex_local_link)) + sum_pce (ll_buffer ?l2) \<le>
      link_capacity ?lk * qc_sample_size ex_config / 3600 * duration_as_secs_f64 (tick_length (ll_clock ex_local_link)) +
      link_capacity ?lk * qc_sample_size ex_config / 3600 *
        duration_as_secs_f64 (last_update_time (ll_flow_cap ?l2) - last_update_time (ll_flow_cap ex_local_link)) + 1"
    by (rule flow_capacity_throughput[OF l0, where before = "[]" and env = ?env])
      (use run in \<open>auto simp: link_new_def ex_config_def ex_vehicle_facts\<close>)
  then have "sum_pce [ex_vehicle] + sum_pce (ll_buffer ?l2) \<le> 2"
    unfolding out by (simp add: link_new_def ex_config_def ex_local_link_def tick_length_def duration_as_secs_f64_def nanos_per_second_def)
  then show ?thesis using l0 run out by blast
qed

theorem push_exit_time_witness:
  "\<exists>e. ll_q (push_veh_to_queue ex_vehicle 5 ex_local_link) = [e] \<and>
     of_nat (earliest_exit_time e) \<le> (15 :: rat) \<and> (15 :: rat) < of_nat (earliest_exit_time e) + 1"
  using push_exit_time[of ex_local_link ex_vehicle "push_veh_to_queue ex_vehicle 5 ex_local_link" 5]
  by (auto simp: ex_vehicle_facts ex_local_link_def u64_max_def)

end
