(* ===== verification/Floats.thy ===== *)
theory Floats
  imports Prelude "HOL-Library.Log_Nat"
begin

text \<open>
  Rounding to \<open>f64\<close>. Most of the development computes with exact rationals; where the source
  depends on the rounding of the hardware, the operations are followed by \<open>round_f64\<close>: to the
  nearest number with 53 binary digits, ties to even, with the gradual underflow of IEEE 754. The
  range is not bounded above, so that an overflow is not modelled.
\<close>

section \<open>Rounding to integers\<close>

definition round_half_even :: "f64 \<Rightarrow> nat" where
  "round_half_even x = (let n = nat \<lfloor>x\<rfloor>; r = x - of_nat n in if r < 1 / 2 \<or> r = 1 / 2 \<and> even n then n else n + 1)"

lemma round_half_even_mono:
  assumes "x \<le> y" and "0 \<le> x"
  shows "round_half_even x \<le> round_half_even y"
proof -
  have "nat \<lfloor>x\<rfloor> \<le> nat \<lfloor>y\<rfloor>" using assms(1) by (simp add: floor_mono nat_mono)
  then consider "nat \<lfloor>x\<rfloor> = nat \<lfloor>y\<rfloor>" | "nat \<lfloor>x\<rfloor> + 1 \<le> nat \<lfloor>y\<rfloor>" by linarith
  then show ?thesis
  proof cases
    case 1
    then show ?thesis using assms by (auto simp: round_half_even_def Let_def)
  next
    case 2
    have "round_half_even x \<le> nat \<lfloor>x\<rfloor> + 1" "nat \<lfloor>y\<rfloor> \<le> round_half_even y"
      by (auto simp: round_half_even_def Let_def)
    then show ?thesis using 2 by simp
  qed
qed

lemma round_half_even_of_nat [simp]: "round_half_even (of_nat n) = n"
  by (simp add: round_half_even_def)

lemma round_half_even_error:
  assumes "0 \<le> x"
  shows "\<bar>of_nat (round_half_even x) - x\<bar> \<le> 1 / 2"
proof -
  have "0 \<le> \<lfloor>x\<rfloor>" using assms by simp
  then have n: "of_nat (nat \<lfloor>x\<rfloor>) = (of_int \<lfloor>x\<rfloor> :: f64)" by simp
  have "of_int \<lfloor>x\<rfloor> \<le> x" "x < of_int \<lfloor>x\<rfloor> + 1" by linarith+
  then show ?thesis unfolding round_half_even_def Let_def n by (auto simp: n abs_le_iff)
qed

section \<open>Rounding to 53 digits\<close>

text \<open>The exponent of the first binary digit of a positive number, and the weight of its last one.\<close>

definition binade :: "f64 \<Rightarrow> int" where
  "binade x = (let (p, q) = quotient_of x; k = bitlen p - bitlen q in if 2 powi k \<le> x then k else k - 1)"

definition quantum :: "f64 \<Rightarrow> f64" where
  "quantum x = 2 powi max (binade x - 52) (-1074)"

definition round_f64 :: "f64 \<Rightarrow> f64" where
  "round_f64 x = sgn x * (of_nat (round_half_even (\<bar>x\<bar> / quantum \<bar>x\<bar>)) * quantum \<bar>x\<bar>)"

lemma pow2_le_iff [simp]: "(2::f64) powi m \<le> 2 powi n \<longleftrightarrow> m \<le> n"
  by (metis not_le power_int_increasing power_int_strict_increasing one_le_numeral one_less_numeral_iff semiring_norm(76))

lemma pow2_less_iff [simp]: "(2::f64) powi m < 2 powi n \<longleftrightarrow> m < n"
  using pow2_le_iff[of n m] by (simp only: not_le[symmetric])

lemma binade_bounds:
  assumes "0 < x"
  shows "2 powi binade x \<le> x \<and> x < 2 powi (binade x + 1)"
proof -
  obtain p q where pq: "quotient_of x = (p, q)" by (cases "quotient_of x")
  have x: "x = of_int p / of_int q" and q: "0 < q" using quotient_of_div[OF pq] quotient_of_denom_pos[OF pq] by auto
  then have p: "0 < p" using assms by (simp add: zero_less_divide_iff)
  have bl: "(2::f64) powi (bitlen n - 1) \<le> of_int n \<and> (of_int n :: f64) < 2 powi bitlen n" if n: "0 < n" for n :: int
  proof -
    have "1 \<le> bitlen n" using n by (metis bitlen_eq_zero_iff bitlen_nonneg int_one_le_iff_zero_less not_less order_le_less)
    then have "(2::f64) powi (bitlen n - 1) = of_int (2 ^ nat (bitlen n - 1))" "(2::f64) powi bitlen n = of_int (2 ^ nat (bitlen n))"
      by (simp_all add: power_int_def)
    then show ?thesis using bitlen_bounds[OF n] by (simp only: of_int_le_iff of_int_less_iff)
  qed
  let ?k = "bitlen p - bitlen q"
  have "x < 2 powi bitlen p / 2 powi (bitlen q - 1)"
    unfolding x using bl[OF p] bl[OF q] p q by (intro frac_less) auto
  also have "\<dots> = 2 powi (?k + 1)" by (simp add: power_int_diff[symmetric] algebra_simps)
  finally have up: "x < 2 powi (?k + 1)" .
  have "2 powi (bitlen p - 1) / 2 powi bitlen q \<le> x"
    unfolding x using bl[OF p] bl[OF q] p q by (intro frac_le) auto
  then have low: "2 powi (?k - 1) \<le> x" by (simp add: power_int_diff[symmetric] algebra_simps)
  show ?thesis using up low by (auto simp: binade_def pq Let_def)
qed

lemma binade_eqI:
  assumes "2 powi k \<le> x" and "x < 2 powi (k + 1)"
  shows "binade x = k"
proof -
  have "0 < (2::f64) powi k" by simp
  with assms(1) have "0 < x" by (rule less_le_trans[rotated])
  from binade_bounds[OF this] assms have "(2::f64) powi binade x < 2 powi (k + 1)" "(2::f64) powi k < 2 powi (binade x + 1)"
    by (meson le_less_trans)+
  then show ?thesis by simp
qed

lemma binade_mono: "0 < x \<Longrightarrow> x \<le> y \<Longrightarrow> binade x \<le> binade y"
proof -
  assume "0 < x" "x \<le> y"
  then have "(2::f64) powi binade x < 2 powi (binade y + 1)"
    using binade_bounds[of x] binade_bounds[of y] by linarith
  then show "binade x \<le> binade y" by simp
qed

lemma quantum_pos [simp]: "0 < quantum x" "quantum x \<noteq> 0" "0 \<le> quantum x" "\<bar>quantum x\<bar> = quantum x"
  by (simp_all add: quantum_def)

lemma round_nonneg: "0 \<le> x \<Longrightarrow> round_f64 x = of_nat (round_half_even (x / quantum x)) * quantum x"
  by (cases "x = 0") (simp_all add: round_f64_def round_half_even_def)

lemma round_f64_minus: "round_f64 (- x) = - round_f64 x"
  by (simp add: round_f64_def)

lemma round_f64_0 [simp]: "round_f64 0 = 0"
  by (simp add: round_f64_def)

lemma round_f64_nonneg: "0 \<le> x \<Longrightarrow> 0 \<le> round_f64 x"
  by (simp add: round_nonneg less_imp_le)

text \<open>A power of two that is not finer than the grid at a number is on that grid.\<close>

lemma pow2_on_grid:
  assumes "max (binade x - 52) (-1074) \<le> k"
  obtains n where "2 powi k / quantum x = of_nat n"
proof -
  have "2 powi k / quantum x = 2 powi (k - max (binade x - 52) (-1074))"
    by (simp add: quantum_def power_int_diff)
  also have "\<dots> = of_nat (2 ^ nat (k - max (binade x - 52) (-1074)))" using assms by (simp add: power_int_def)
  finally show thesis by (rule that)
qed

lemma round_le_pow2:
  assumes "0 \<le> x" and "x \<le> 2 powi k" and "max (binade x - 52) (-1074) \<le> k"
  shows "round_f64 x \<le> 2 powi k"
proof -
  obtain n where n: "2 powi k / quantum x = of_nat n" by (rule pow2_on_grid[OF assms(3)])
  have "x / quantum x \<le> of_nat n" unfolding n[symmetric] using assms(2) by (intro divide_right_mono) (simp_all add: less_imp_le)
  then have "round_half_even (x / quantum x) \<le> n"
    using round_half_even_mono[of "x / quantum x" "of_nat n"] assms(1) by (simp add: less_imp_le)
  then have "of_nat (round_half_even (x / quantum x)) * quantum x \<le> of_nat n * quantum x"
    by (intro mult_right_mono) (simp_all add: less_imp_le)
  then show ?thesis using n assms(1) by (simp add: round_nonneg divide_eq_eq)
qed

lemma pow2_le_round:
  assumes "2 powi k \<le> x" and "max (binade x - 52) (-1074) \<le> k"
  shows "2 powi k \<le> round_f64 x"
proof -
  have x: "0 \<le> x" using assms(1) by (meson order_trans zero_le_numeral zero_le_power_int)
  obtain n where n: "2 powi k / quantum x = of_nat n" by (rule pow2_on_grid[OF assms(2)])
  have "of_nat n \<le> x / quantum x" unfolding n[symmetric] using assms(1) by (intro divide_right_mono) (simp_all add: less_imp_le)
  then have "n \<le> round_half_even (x / quantum x)"
    using round_half_even_mono[of "of_nat n" "x / quantum x"] by simp
  then have "of_nat n * quantum x \<le> of_nat (round_half_even (x / quantum x)) * quantum x"
    by (intro mult_right_mono) (simp_all add: less_imp_le)
  then show ?thesis using n x by (simp add: round_nonneg divide_eq_eq)
qed

lemma round_mono_nonneg:
  assumes "0 \<le> x" and "x \<le> y"
  shows "round_f64 x \<le> round_f64 y"
proof (cases "x = 0")
  case True
  then show ?thesis using assms by (simp add: round_f64_nonneg)
next
  case False
  then have x: "0 < x" "0 < y" using assms by auto
  let ?e = "\<lambda>z. max (binade z - 52) (-1074)"
  have e: "?e x \<le> ?e y" using binade_mono[OF x(1) assms(2)] by auto
  show ?thesis
  proof (cases "?e x = ?e y")
    case True
    then have q: "quantum x = quantum y" by (simp add: quantum_def)
    have "round_half_even (x / quantum y) \<le> round_half_even (y / quantum y)"
      using assms by (intro round_half_even_mono divide_right_mono) (simp_all add: less_imp_le)
    then show ?thesis using assms by (simp add: round_nonneg q mult_right_mono less_imp_le)
  next
    case False
    then have less: "?e x < ?e y" using e by linarith
    then have b: "binade x + 1 \<le> binade y" "?e y \<le> binade y" "?e x \<le> binade y" by linarith+
    then have "(2::f64) powi (binade x + 1) \<le> 2 powi binade y" by simp
    then have "x \<le> 2 powi binade y" using binade_bounds[OF x(1)] by linarith
    then have "round_f64 x \<le> 2 powi binade y" using assms(1) b(3) by (intro round_le_pow2)
    also have "\<dots> \<le> round_f64 y" using binade_bounds[OF x(2)] b(2) by (intro pow2_le_round) simp_all
    finally show ?thesis .
  qed
qed

text \<open>The laws of rounding: monotone, and the identity on what has been rounded.\<close>

lemma round_f64_mono: "x \<le> y \<Longrightarrow> round_f64 x \<le> round_f64 y"
proof -
  assume le: "x \<le> y"
  consider "0 \<le> x" | "x < 0" "0 \<le> y" | "y < 0" using le by linarith
  then show "round_f64 x \<le> round_f64 y"
  proof cases
    case 1
    then show ?thesis using le by (rule round_mono_nonneg)
  next
    case 2
    have "0 \<le> round_f64 (- x)" using 2 by (intro round_f64_nonneg) simp
    then show ?thesis using round_f64_nonneg[OF 2(2)] by (simp add: round_f64_minus)
  next
    case 3
    have "round_f64 (- y) \<le> round_f64 (- x)" using 3 le by (intro round_mono_nonneg) simp_all
    then show ?thesis by (simp add: round_f64_minus)
  qed
qed

lemma round_on_grid: "0 \<le> x \<Longrightarrow> x = of_nat n * quantum x \<Longrightarrow> round_f64 x = x"
proof -
  assume "0 \<le> x" and x: "x = of_nat n * quantum x"
  then have "x / quantum x = of_nat n" by (simp add: divide_eq_eq)
  then show "round_f64 x = x" using \<open>0 \<le> x\<close> x by (simp add: round_nonneg)
qed

lemma round_idem_nonneg:
  assumes "0 \<le> x"
  shows "round_f64 (round_f64 x) = round_f64 x"
proof -
  let ?y = "round_f64 x" and ?e = "\<lambda>z. max (binade z - 52) (-1074)"
  have y: "0 \<le> ?y" "?y = of_nat (round_half_even (x / quantum x)) * quantum x"
    using round_f64_nonneg[OF assms] round_nonneg[OF assms] by auto
  consider "?y = 0" | "0 < ?y" "?e ?y \<le> ?e x" | "0 < ?y" "?e x < ?e ?y" using y(1) by linarith
  then show ?thesis
  proof cases
    case 1
    then show ?thesis by simp
  next
    case 2
    define d where "d = nat (?e x - ?e ?y)"
    have "?e x = ?e ?y + int d" using 2(2) by (simp add: d_def)
    then have "quantum x = 2 ^ d * quantum ?y" by (simp add: quantum_def power_int_add)
    then have "quantum x = of_nat (2 ^ d) * quantum ?y" by simp
    then have "?y = of_nat (round_half_even (x / quantum x) * 2 ^ d) * quantum ?y"
      using y(2) by (metis mult.assoc of_nat_mult)
    then show ?thesis by (rule round_on_grid[OF y(1)])
  next
    case 3
    have x: "0 < x" using 3(1) assms by (cases "x = 0") auto
    let ?k = "binade ?y"
    have k: "?e ?y \<le> ?k" "?e x \<le> ?k" "binade x + 1 \<le> ?k" using 3(2) by linarith+
    then have "(2::f64) powi (binade x + 1) \<le> 2 powi ?k" by simp
    then have xk: "x \<le> 2 powi ?k" using binade_bounds[OF x] by linarith
    have low: "2 powi ?k \<le> ?y" using binade_bounds[OF 3(1)] by simp
    have "?y \<le> 2 powi ?k" by (rule round_le_pow2[OF assms xk k(2)])
    with low have "?y = 2 powi ?k" by simp
    moreover obtain n where "2 powi ?k / quantum ?y = of_nat n" by (rule pow2_on_grid[OF k(1)])
    ultimately have "?y = of_nat n * quantum ?y" by (metis divide_eq_eq less_irrefl quantum_pos(1))
    then show ?thesis by (rule round_on_grid[OF y(1)])
  qed
qed

lemma round_f64_idem [simp]: "round_f64 (round_f64 x) = round_f64 x"
proof (cases "0 \<le> x")
  case False
  then have "round_f64 (round_f64 (- x)) = round_f64 (- x)" by (intro round_idem_nonneg) simp
  then show ?thesis by (simp add: round_f64_minus)
qed (rule round_idem_nonneg)

lemma round_f64_1 [simp]: "round_f64 1 = 1"
proof -
  have b: "binade 1 = 0" by (rule binade_eqI) simp_all
  obtain n where "2 powi 0 / quantum 1 = of_nat n" by (rule pow2_on_grid[of 1 0]) (simp_all add: b)
  then have "1 = of_nat n * quantum 1" by (simp add: divide_eq_eq)
  then show ?thesis by (intro round_on_grid) simp_all
qed

lemma round_f64_error:
  assumes "\<bar>x\<bar> < 2 powi k" and "-1021 \<le> k"
  shows "\<bar>round_f64 x - x\<bar> \<le> 2 powi (k - 54)"
proof -
  have pos: "\<bar>round_f64 x - x\<bar> \<le> 2 powi (k - 54)" if x: "0 < x" "x < 2 powi k" for x
  proof -
    have "(2::f64) powi binade x < 2 powi k" using binade_bounds[OF x(1)] x(2) by linarith
    then have "quantum x \<le> 2 powi (k - 53)" using assms(2) by (simp add: quantum_def)
    moreover have "\<bar>of_nat (round_half_even (x / quantum x)) - x / quantum x\<bar> * quantum x \<le> 1 / 2 * quantum x"
      using x(1) by (intro mult_right_mono round_half_even_error) (simp_all add: less_imp_le)
    moreover have "\<bar>of_nat (round_half_even (x / quantum x)) - x / quantum x\<bar> * quantum x = \<bar>round_f64 x - x\<bar>"
      using x(1) abs_mult[of "of_nat (round_half_even (x / quantum x)) - x / quantum x" "quantum x"]
      by (simp add: round_nonneg left_diff_distrib less_imp_neq[THEN not_sym])
    moreover have "(2::f64) powi (k - 54) = 1 / 2 * 2 powi (k - 53)" using power_int_diff[of "2::f64" "k - 53" 1] by simp
    ultimately show ?thesis by linarith
  qed
  consider "x = 0" | "0 < x" | "x < 0" by linarith
  then show ?thesis
  proof cases
    case 3
    then have "\<bar>round_f64 (- x) - (- x)\<bar> \<le> 2 powi (k - 54)" using assms by (intro pos) auto
    then show ?thesis by (simp add: round_f64_minus abs_minus_commute)
  qed (use assms pos in auto)
qed

end
