(* ===== verification/Sim_Network.thy ===== *)
theory Sim_Network
  imports Links Floats
begin

text \<open>
  The part of the network that one process simulates (\<open>network/sim_network.rs\<close>): construction
  from the global network, vehicles entering the network, the movement over nodes and along
  links in every tick, and the bookkeeping of active links, active nodes and vehicles.

  The sets of active links and nodes are iterated in hash order, the parameters \<open>ord\<close>. The
  random numbers of a node are the sequence of the values its generator will yield (the
  generators are those of the \<open>rand\<close> package, seeded per node); drawing takes the first.
  The while loop of \<open>move_node_capacity_priority\<close> ends because of properties of the network
  that are not visible in the loop, so it is a partial function; theory \<open>Node_Loop\<close> shows
  that it ends.
\<close>

section \<open>Data\<close>

record storage_update =
  su_link_id :: link_id
  su_from_part :: part_id
  su_released :: f64

record sim_node =
  sn_id :: node_id
  sn_in_links :: "link_id list"

record sim_network =
  snp_nodes :: "node_id \<rightharpoonup> sim_node"
  snp_links :: "link_id \<rightharpoonup> sim_link"
  snp_rng :: "node_id \<rightharpoonup> (nat \<Rightarrow> f64)"
  snp_active_nodes :: "node_id set"
  snp_active_links :: "link_id set"
  veh_counter :: nat
  snp_partition :: part_id
  snp_clock :: sim_clock

section \<open>Construction\<close>

definition create_sim_node :: "node \<Rightarrow> sim_node" where
  "create_sim_node n = \<lparr>sn_id = node_ident n, sn_in_links = in_links n\<rparr>"

definition create_sim_link :: "link \<Rightarrow> part_id \<Rightarrow> f64 \<Rightarrow> f64 qsim_config \<Rightarrow> network \<Rightarrow> sim_link option" where
  "create_sim_link l part cell_size config net = do {
     from_node \<leftarrow> get_node net (link_from l);
     to_node \<leftarrow> get_node net (link_to l);
     (let from_part = node_partition from_node; to_part = node_partition to_node in
      if from_part = to_part then map_option Local (from_link l cell_size config)
      else if to_part = part then map_option (\<lambda>ll. In (il_new from_part ll)) (from_link l cell_size config)
      else Some (Out (ol_new l cell_size (qc_sample_size config) to_part))) }"

definition snp_build :: "(node_id \<rightharpoonup> sim_node) \<Rightarrow> (link_id \<rightharpoonup> sim_link) \<Rightarrow> part_id \<Rightarrow> (node_id \<Rightarrow> nat \<Rightarrow> f64) \<Rightarrow>
    sim_clock \<Rightarrow> sim_network" where
  "snp_build nodes links part rnd clock = \<lparr>snp_nodes = nodes, snp_links = links,
     snp_rng = (\<lambda>n. map_option (\<lambda>_. rnd n) (nodes n)), snp_active_nodes = {}, snp_active_links = {},
     veh_counter = 0, snp_partition = part, snp_clock = clock\<rparr>"

definition add_sim_link :: "part_id \<Rightarrow> f64 qsim_config \<Rightarrow> network \<Rightarrow> link_id \<Rightarrow> (link_id \<rightharpoonup> sim_link) \<Rightarrow>
    (link_id \<rightharpoonup> sim_link) option" where
  "add_sim_link part config net i links = do {
     l \<leftarrow> get_link net i;
     sl \<leftarrow> create_sim_link l part (effective_cell_size net) config net;
     Some (links(link_ident l \<mapsto> sl)) }"

definition from_network :: "(node_id set \<Rightarrow> node_id list) \<Rightarrow> network \<Rightarrow> part_id \<Rightarrow> f64 qsim_config \<Rightarrow>
    (node_id \<Rightarrow> nat \<Rightarrow> f64) \<Rightarrow> sim_network option" where
  "from_network ord net part config rnd = do {
     clock \<leftarrow> clock_new (qc_ticks_per_second config);
     (let nodes = filter (\<lambda>n. node_partition n = part)
            (map (\<lambda>i. the (net_nodes net i)) (ord (dom (net_nodes net))));
          link_ids = concat (map (\<lambda>n. in_links n @ out_links n) nodes)
      in do {
        sim_links \<leftarrow> foldM (add_sim_link part config net) link_ids Map.empty;
        Some (snp_build (map_of (map (\<lambda>n. (node_ident n, create_sim_node n)) nodes)) sim_links part rnd clock) }) }"

fun is_split :: "sim_link \<Rightarrow> bool" where
  "is_split (Local _) = False"
| "is_split (In _) = True"
| "is_split (Out _) = True"

definition neighbors :: "sim_network \<Rightarrow> part_id set" where
  "neighbors net = {p. \<exists>i l. snp_links net i = Some l \<and> is_split l \<and> neighbor_part l = Some p}"

fun is_out :: "sim_link \<Rightarrow> bool" where
  "is_out (Out _) = True"
| "is_out (Local _) = False"
| "is_out (In _) = False"

definition get_link_ids :: "sim_network \<Rightarrow> link_id set" where
  "get_link_ids net = {i. \<exists>l. snp_links net i = Some l \<and> \<not> is_out l}"

section \<open>Vehicles entering the partition\<close>

definition send_veh_en_route :: "sim_vehicle \<Rightarrow> bool \<Rightarrow> tick \<Rightarrow> env \<Rightarrow> sim_network \<Rightarrow> (env \<times> sim_network) option" where
  "send_veh_en_route v is_route_begin now env net = do {
     link_id \<leftarrow> veh_curr_link_id v;
     link_id \<leftarrow> link_id;
     link \<leftarrow> snp_links net link_id;
     env \<leftarrow> (if is_route_begin then Some env
             else do { t \<leftarrow> tick_to_time (snp_clock net) now;
                       Some (process_event (LinkEnterEvent t (sl_id link) (veh_id v)) env) });
     link' \<leftarrow> sl_push_veh v (if is_route_begin then Waiting else QStart) now link;
     Some (env, net\<lparr>snp_links := (snp_links net)(link_id \<mapsto> link'), veh_counter := veh_counter net + 1,
                    snp_active_links := insert (sl_id link) (snp_active_links net)\<rparr>) }"

definition apply_one_cap_update :: "storage_update \<Rightarrow> sim_network \<Rightarrow> sim_network option" where
  "apply_one_cap_update cap net = do {
     link \<leftarrow> snp_links net (su_link_id cap);
     (case link of
        Out ol \<Rightarrow> Some (net\<lparr>snp_links := (snp_links net)(su_link_id cap \<mapsto> Out (apply_storage_cap_update (su_released cap) ol))\<rparr>)
      | _ \<Rightarrow> None) }"

definition apply_storage_cap_updates :: "storage_update list \<Rightarrow> sim_network \<Rightarrow> sim_network option" where
  "apply_storage_cap_updates caps net = foldM apply_one_cap_update caps net"

section \<open>Moving along links\<close>

definition move_local_link :: "tick \<Rightarrow> local_link \<Rightarrow> node_id set \<Rightarrow> env \<Rightarrow>
    (sim_vehicle list \<times> bool \<times> local_link \<times> node_id set \<times> env) option" where
  "move_local_link now l active_nodes env = do {
     (ended, env, l) \<leftarrow> do_sim_step now env l;
     (let (act, l) = to_nodes_active now l;
          active_nodes = (if act then insert (ll_to l) active_nodes else active_nodes)
      in Some (ended, ll_is_active l, l, active_nodes, env)) }"

definition move_in_link :: "tick \<Rightarrow> split_in_link \<Rightarrow> node_id set \<Rightarrow> storage_update list \<Rightarrow> env \<Rightarrow>
    (sim_vehicle list \<times> bool \<times> split_in_link \<times> node_id set \<times> storage_update list \<times> env) option" where
  "move_in_link now il active_nodes updates env =
     (let before = occupied_storage il in do {
        (ended, active, ll, active_nodes, env) \<leftarrow> move_local_link now (il_local_link il) active_nodes env;
        (let il = il\<lparr>il_local_link := ll\<rparr>; diff = before - occupied_storage il in do {
           _ \<leftarrow> ensure (0 \<le> diff);
           Some (ended, active, il, active_nodes,
             (if 0 < diff then updates @ [\<lparr>su_link_id = ll_id ll, su_from_part = il_from_part il, su_released = diff\<rparr>]
              else updates), env) }) })"

definition move_out_link :: "split_out_link \<Rightarrow> sim_vehicle list \<Rightarrow> split_out_link \<times> sim_vehicle list" where
  "move_out_link ol exits = (let (q, ol) = take_veh ol in (ol, exits @ q))"

text \<open>The variables of the loop over the active links.\<close>

record move_links_state =
  ml_links :: "link_id \<rightharpoonup> sim_link"
  ml_active_nodes :: "node_id set"
  ml_env :: env
  ml_updates :: "storage_update list"
  ml_exits :: "sim_vehicle list"
  ml_ended :: "sim_vehicle list"
  ml_deactivate :: "link_id set"

definition move_one_link :: "tick \<Rightarrow> link_id \<Rightarrow> move_links_state \<Rightarrow> move_links_state option" where
  "move_one_link now i s = do {
     link \<leftarrow> ml_links s i;
     (case link of
        Local ll \<Rightarrow> do {
          (ended, active, ll, nodes, env) \<leftarrow> move_local_link now ll (ml_active_nodes s) (ml_env s);
          Some (s\<lparr>ml_links := (ml_links s)(i \<mapsto> Local ll), ml_active_nodes := nodes, ml_env := env,
                 ml_ended := ml_ended s @ ended,
                 ml_deactivate := (if active then ml_deactivate s else insert (ll_id ll) (ml_deactivate s))\<rparr>) }
      | In il \<Rightarrow> do {
          (ended, active, il, nodes, updates, env) \<leftarrow> move_in_link now il (ml_active_nodes s) (ml_updates s) (ml_env s);
          Some (s\<lparr>ml_links := (ml_links s)(i \<mapsto> In il), ml_active_nodes := nodes, ml_env := env,
                 ml_updates := updates, ml_ended := ml_ended s @ ended,
                 ml_deactivate := (if active then ml_deactivate s
                   else insert (ll_id (il_local_link il)) (ml_deactivate s))\<rparr>) }
      | Out ol \<Rightarrow>
          (let (ol, exits) = move_out_link ol (ml_exits s)
           in Some (s\<lparr>ml_links := (ml_links s)(i \<mapsto> Out ol), ml_exits := exits,
                     ml_deactivate := insert (ol_id ol) (ml_deactivate s)\<rparr>))) }"

record move_links_result =
  vehicles_exit_partition :: "sim_vehicle list"
  vehicles_end_leg :: "sim_vehicle list"
  storage_cap_updates :: "storage_update list"

definition move_links :: "(link_id set \<Rightarrow> link_id list) \<Rightarrow> tick \<Rightarrow> env \<Rightarrow> sim_network \<Rightarrow>
    (move_links_result \<times> env \<times> sim_network) option" where
  "move_links ord now env net = do {
     s \<leftarrow> foldM (move_one_link now) (ord (snp_active_links net))
           \<lparr>ml_links = snp_links net, ml_active_nodes = snp_active_nodes net, ml_env = env, ml_updates = [],
            ml_exits = [], ml_ended = [], ml_deactivate = {}\<rparr>;
     counter \<leftarrow> checked_sub_u64 (veh_counter net) (length (ml_exits s));
     counter \<leftarrow> checked_sub_u64 counter (length (ml_ended s));
     Some (\<lparr>vehicles_exit_partition = ml_exits s, vehicles_end_leg = ml_ended s, storage_cap_updates = ml_updates s\<rparr>,
           ml_env s,
           net\<lparr>snp_links := ml_links s, snp_active_nodes := ml_active_nodes s,
               snp_active_links := snp_active_links net - ml_deactivate s, veh_counter := counter\<rparr>) }"

section \<open>Moving over nodes\<close>

definition active_in_links :: "link_id list \<Rightarrow> link_id set \<Rightarrow> link_id list" where
  "active_in_links in_ids active = filter (\<lambda>i. i \<in> active) in_ids"

definition get_active_in_links :: "link_id list \<Rightarrow> link_id set \<Rightarrow> (link_id \<rightharpoonup> sim_link) \<Rightarrow> (link_id list \<times> f64) option" where
  "get_active_in_links in_ids active links =
     foldM (\<lambda>i (ids, acc).
              if i \<in> active then do {
                link \<leftarrow> links i; cap \<leftarrow> sl_flow_cap link; Some (ids @ [i], round_f64 (acc + cap)) }
              else Some (ids, acc))
       in_ids ([], 0)"

fun any_link_offers :: "link_id list \<Rightarrow> tick \<Rightarrow> (link_id \<rightharpoonup> sim_link) \<Rightarrow> (bool \<times> (link_id \<rightharpoonup> sim_link)) option" where
  "any_link_offers [] time links = Some (False, links)"
| "any_link_offers (i # ids) time links = do {
     link \<leftarrow> links i;
     (v, link') \<leftarrow> sl_offers_veh time link;
     (if v \<noteq> None then Some (True, links(i \<mapsto> link')) else any_link_offers ids time (links(i \<mapsto> link'))) }"

definition should_veh_move_out :: "link_id \<Rightarrow> tick \<Rightarrow> (link_id \<rightharpoonup> sim_link) \<Rightarrow> (bool \<times> (link_id \<rightharpoonup> sim_link)) option" where
  "should_veh_move_out in_id now links = do {
     in_link \<leftarrow> links in_id;
     (offer, in_link) \<leftarrow> sl_offers_veh now in_link;
     (let links = links(in_id \<mapsto> in_link) in
      case offer of
        None \<Rightarrow> Some (False, links)
      | Some v \<Rightarrow> do {
          next_id \<leftarrow> peek_next_route_element v;
          next_id \<leftarrow> next_id;
          out_link \<leftarrow> links next_id;
          stuck \<leftarrow> is_veh_stuck now in_link;
          (if stuck then Some (True, links)
           else do { avail \<leftarrow> sl_is_available out_link; Some (avail, links) }) }) }"

fun is_local :: "sim_link \<Rightarrow> bool" where
  "is_local (Local _) = True"
| "is_local (In _) = False"
| "is_local (Out _) = False"

definition move_vehicle :: "sim_vehicle \<Rightarrow> sim_clock \<Rightarrow> tick \<Rightarrow> env \<Rightarrow> (link_id \<rightharpoonup> sim_link) \<Rightarrow> link_id set \<Rightarrow>
    (env \<times> (link_id \<rightharpoonup> sim_link) \<times> link_id set) option" where
  "move_vehicle v clock now env links active = do {
     old_id \<leftarrow> veh_curr_link_id v;
     old_id \<leftarrow> old_id;
     t \<leftarrow> tick_to_time clock now;
     (let env = process_event (LinkLeaveEvent t old_id (veh_id v)) env in do {
        (env, v) \<leftarrow> veh_notify_event LeftLink t env v;
        new_id \<leftarrow> veh_curr_link_id v;
        new_id \<leftarrow> new_id;
        new_link \<leftarrow> links new_id;
        (let env = (if is_local new_link then process_event (LinkEnterEvent t (sl_id new_link) (veh_id v)) env else env)
         in do {
           new_link \<leftarrow> sl_push_veh v QStart now new_link;
           (let links = links(new_id \<mapsto> new_link); active = insert new_id active in do {
              old_link \<leftarrow> links old_id;
              still \<leftarrow> sl_is_active old_link;
              Some (env, links, if still then active else active - {old_id}) }) }) }) }"

text \<open>The variables of the loops over the in links of a node.\<close>

record node_state =
  ns_links :: "link_id \<rightharpoonup> sim_link"
  ns_active_links :: "link_id set"
  ns_rng :: "nat \<Rightarrow> f64"
  ns_env :: env
  ns_avail :: f64
  ns_exhausted :: "bool list"
  ns_sel_cap :: f64

text \<open>One round of the inner loop, for the in link with index \<open>i\<close>.\<close>

definition node_inner :: "link_id list \<Rightarrow> sim_clock \<Rightarrow> tick \<Rightarrow> f64 \<Rightarrow> nat \<Rightarrow> node_state \<Rightarrow> node_state option" where
  "node_inner active clock now rnd_num i s =
     (if ns_exhausted s ! i then Some (s\<lparr>ns_avail := round_f64 (ns_avail s - 1 / 1000000)\<rparr>)
      else do {
        (moves, links) \<leftarrow> should_veh_move_out (active ! i) now (ns_links s);
        in_link \<leftarrow> links (active ! i);
        cap \<leftarrow> sl_flow_cap in_link;
        (if moves then
           (let s = s\<lparr>ns_links := links, ns_sel_cap := round_f64 (ns_sel_cap s + cap)\<rparr> in
            if rnd_num \<le> ns_sel_cap s then do {
              (v, in_link) \<leftarrow> sl_pop_veh in_link;
              v \<leftarrow> v;
              (env, links, act) \<leftarrow> move_vehicle v clock now (ns_env s) (links(active ! i \<mapsto> in_link)) (ns_active_links s);
              Some (s\<lparr>ns_links := links, ns_active_links := act, ns_env := env\<rparr>) }
            else Some s)
         else Some (s\<lparr>ns_links := links, ns_exhausted := (ns_exhausted s)[i := True], ns_avail := round_f64 (ns_avail s - cap)\<rparr>)) })"

definition node_pass :: "link_id list \<Rightarrow> sim_clock \<Rightarrow> tick \<Rightarrow> node_state \<Rightarrow> node_state option" where
  "node_pass active clock now s =
     (let rnd_num = round_f64 (ns_rng s 0 * ns_avail s) in
      foldM (node_inner active clock now rnd_num) [0..<length active] (s\<lparr>ns_rng := (\<lambda>k. ns_rng s (Suc k))\<rparr>))"

partial_function (option) node_while :: "link_id list \<Rightarrow> sim_clock \<Rightarrow> tick \<Rightarrow> node_state \<Rightarrow> node_state option" where
  "node_while active clock now s =
     (if 1 / 10000000000 < ns_avail s
      then do { s \<leftarrow> node_pass active clock now s; node_while active clock now s }
      else Some s)"

definition move_node_capacity_priority :: "node_id \<Rightarrow> tick \<Rightarrow> env \<times> sim_network \<Rightarrow> (bool \<times> env \<times> sim_network) option" where
  "move_node_capacity_priority node_id now es = (case es of (env, net) \<Rightarrow> do {
     node \<leftarrow> snp_nodes net node_id;
     (active, avail) \<leftarrow> get_active_in_links (sn_in_links node) (snp_active_links net) (snp_links net);
     rng \<leftarrow> snp_rng net node_id;
     s \<leftarrow> node_while active (snp_clock net) now
           \<lparr>ns_links = snp_links net, ns_active_links = snp_active_links net, ns_rng = rng, ns_env = env,
            ns_avail = avail, ns_exhausted = replicate (length active) False, ns_sel_cap = 0\<rparr>;
     (still, links) \<leftarrow> any_link_offers active (tick_next now) (ns_links s);
     Some (still, ns_env s, net\<lparr>snp_links := links, snp_active_links := ns_active_links s,
       snp_rng := (snp_rng net)(node_id \<mapsto> ns_rng s)\<rparr>) })"

definition move_one_node :: "tick \<Rightarrow> node_id \<Rightarrow> (env \<times> sim_network) \<times> node_id list \<Rightarrow>
    ((env \<times> sim_network) \<times> node_id list) option" where
  "move_one_node now node_id s = (case s of (es, deactivate) \<Rightarrow> do {
     (still, es) \<leftarrow> move_node_capacity_priority node_id now es;
     Some (es, if still then deactivate else deactivate @ [node_id]) })"

definition move_nodes :: "(node_id set \<Rightarrow> node_id list) \<Rightarrow> tick \<Rightarrow> env \<Rightarrow> sim_network \<Rightarrow> (env \<times> sim_network) option" where
  "move_nodes ord now env net = do {
     ((env, net'), deactivate) \<leftarrow> foldM (move_one_node now) (ord (snp_active_nodes net)) ((env, net), []);
     Some (env, net'\<lparr>snp_active_nodes := snp_active_nodes net' - set deactivate\<rparr>) }"

section \<open>End of the simulation\<close>

definition drain_link :: "link_id \<Rightarrow> agent list \<times> sim_network \<Rightarrow> (agent list \<times> sim_network) option" where
  "drain_link i s = (case s of (agents, net) \<Rightarrow> do {
     link \<leftarrow> snp_links net i;
     (let (vs, link) = sl_drain link in do {
        as \<leftarrow> mapM into_agents vs;
        Some (agents @ concat as, net\<lparr>snp_links := (snp_links net)(i \<mapsto> link)\<rparr>) }) })"

definition snp_drain :: "(link_id set \<Rightarrow> link_id list) \<Rightarrow> sim_network \<Rightarrow> (agent list \<times> sim_network) option" where
  "snp_drain ord net = foldM drain_link (ord (dom (snp_links net))) ([], net)"

section \<open>Conservation of vehicles and persons\<close>

text \<open>
  What stays the same of a vehicle while it is moved: its id and the persons in it. \<open>net_tokens\<close>
  is the bag of them over all links of the partition.
\<close>

definition veh_token :: "sim_vehicle \<Rightarrow> veh_id \<times> person_id multiset" where
  "veh_token v = (veh_id v, veh_persons v)"

definition tokens :: "sim_vehicle list \<Rightarrow> (veh_id \<times> person_id multiset) multiset" where
  "tokens vs = image_mset veh_token (mset vs)"

abbreviation links_tokens :: "(link_id \<rightharpoonup> sim_link) \<Rightarrow> (veh_id \<times> person_id multiset) multiset" where
  "links_tokens links \<equiv> map_sum (\<lambda>l. tokens (sl_vehs l)) links"

abbreviation net_tokens :: "sim_network \<Rightarrow> (veh_id \<times> person_id multiset) multiset" where
  "net_tokens net \<equiv> links_tokens (snp_links net)"

lemma tokens_simps [simp]:
  "tokens [] = {#}" "tokens (v # vs) = add_mset (veh_token v) (tokens vs)" "tokens (vs @ ws) = tokens vs + tokens ws"
  "size (tokens vs) = length vs"
  by (simp_all add: tokens_def)

lemma tokens_mset: "mset vs = mset ws \<Longrightarrow> tokens vs = tokens ws"
  by (simp add: tokens_def)

lemma veh_token_notify [simp]: "veh_notify_event ev now env v = Some (env', v') \<Longrightarrow> veh_token v' = veh_token v"
  using veh_notify_event_frame by (simp add: veh_token_def)

lemma sl_push_tokens: "sl_push_veh v pos now l = Some l' \<Longrightarrow> tokens (sl_vehs l') = add_mset (veh_token v) (tokens (sl_vehs l))"
  using link_store.push_vehs[of v pos now l l'] by (simp add: tokens_def)

lemma sl_pop_tokens: "sl_pop_veh l = Some (Some v, l') \<Longrightarrow> tokens (sl_vehs l) = add_mset (veh_token v) (tokens (sl_vehs l'))"
  using link_store.pop_vehs[of l v l'] by (simp add: tokens_def)

lemma sl_offer_tokens: "sl_offers_veh now l = Some (r, l') \<Longrightarrow> tokens (sl_vehs l') = tokens (sl_vehs l)"
  using link_store.offer_vehs[of now l r l'] by (simp add: tokens_def)

definition links_static :: "(link_id \<rightharpoonup> sim_link) \<Rightarrow> link_id \<rightharpoonup> nat \<times> link_id \<times> (node_id \<times> sim_clock \<times> f64) option" where
  "links_static links i = map_option sl_static (links i)"

lemma links_static_dom: "links_static links' = links_static links \<Longrightarrow> dom links' = dom links"
proof -
  assume eq: "links_static links' = links_static links"
  have "links' i = None \<longleftrightarrow> links i = None" for i
    using fun_cong[OF eq, of i] by (cases "links i"; cases "links' i") (simp_all add: links_static_def)
  then show ?thesis unfolding dom_def by simp
qed

lemma links_static_upd: "links i = Some l \<Longrightarrow> sl_static l' = sl_static l \<Longrightarrow> links_static (links(i \<mapsto> l')) = links_static links"
  by (auto simp: links_static_def fun_eq_iff)

text \<open>The links after an operation that only moves vehicles between them.\<close>

definition conserved :: "(link_id \<rightharpoonup> sim_link) \<Rightarrow> (link_id \<rightharpoonup> sim_link) \<Rightarrow> bool" where
  "conserved links links' \<longleftrightarrow> links_tokens links' = links_tokens links \<and> links_static links' = links_static links"

lemma conserved_refl [simp]: "conserved links links"
  by (simp add: conserved_def)

lemma conserved_trans [trans]: "conserved a b \<Longrightarrow> conserved b c \<Longrightarrow> conserved a c"
  by (simp add: conserved_def)

lemma conserved_dom: "conserved a b \<Longrightarrow> dom b = dom a"
  unfolding conserved_def using links_static_dom by blast

lemma conserved_finite: "conserved a b \<Longrightarrow> finite (dom a) \<Longrightarrow> finite (dom b)"
  using conserved_dom by metis

lemma conserved_upd:
  "finite (dom links) \<Longrightarrow> links i = Some l \<Longrightarrow> tokens (sl_vehs l') = tokens (sl_vehs l) \<Longrightarrow> sl_static l' = sl_static l \<Longrightarrow>
   conserved links (links(i \<mapsto> l'))"
  using map_sum_upd_same[of links i l "\<lambda>l. tokens (sl_vehs l)" l'] links_static_upd[of links i l l']
  by (simp add: conserved_def)

lemma move_vehicle_cases:
  assumes "move_vehicle v clock now env links active = Some (env', links', active')"
  obtains old_id t env1 v' new_id l l' old still where "veh_curr_link_id v = Some (Some old_id)"
    and "tick_to_time clock now = Some t"
    and "veh_notify_event LeftLink t (process_event (LinkLeaveEvent t old_id (veh_id v)) env) v = Some (env1, v')"
    and "veh_curr_link_id v' = Some (Some new_id)" and "links new_id = Some l"
    and "sl_push_veh v' QStart now l = Some l'" and "links' = links(new_id \<mapsto> l')"
    and "links' old_id = Some old" and "sl_is_active old = Some still"
    and "active' = (if still then insert new_id active else insert new_id active - {old_id})"
    and "env' = (if is_local l then process_event (LinkEnterEvent t (sl_id l) (veh_id v')) env1 else env1)"
  using assms unfolding move_vehicle_def Let_def by auto

lemma move_vehicle_tokens:
  assumes "finite (dom links)" and "move_vehicle v clock now env links active = Some (env', links', active')"
  shows "links_tokens links' = add_mset (veh_token v) (links_tokens links) \<and> links_static links' = links_static links"
proof -
  obtain env0 t env1 v' new_id l l' where notif: "veh_notify_event LeftLink t env0 v = Some (env1, v')"
    and l: "links new_id = Some l" and push: "sl_push_veh v' QStart now l = Some l'" and links': "links' = links(new_id \<mapsto> l')"
    by (rule move_vehicle_cases[OF assms(2)])
  show ?thesis
    unfolding links'
    using map_sum_upd[OF assms(1) l, of "\<lambda>l. tokens (sl_vehs l)" l'] sl_push_tokens[OF push] veh_token_notify[OF notif]
      links_static_upd[of links, OF l sl_push_static[OF push]]
    by simp
qed

lemma should_move_cases:
  assumes "should_veh_move_out i now links = Some (b, links')"
  obtains l r l' where "links i = Some l" and "sl_offers_veh now l = Some (r, l')" and "links' = links(i \<mapsto> l')"
    and "b \<longrightarrow> r \<noteq> None"
  using assms by (auto simp: should_veh_move_out_def Let_def split: option.splits if_splits)

lemma should_move_tokens:
  assumes "finite (dom links)" and "should_veh_move_out i now links = Some (b, links')"
  shows "conserved links links'"
  by (rule should_move_cases[OF assms(2)]) (use assms(1) sl_offer_tokens sl_offers_static in \<open>auto intro!: conserved_upd\<close>)

text \<open>Taking the head of one link over a node.\<close>

lemma pop_and_move_tokens:
  assumes fin: "finite (dom links)" and l: "links j = Some l" and pop: "sl_pop_veh l = Some (Some v, l')"
    and mv: "move_vehicle v clock now env (links(j \<mapsto> l')) act = Some (env', links', act')"
  shows "conserved links links'"
proof -
  have d: "dom (links(j \<mapsto> l')) = dom links" using l by (rule dom_upd_same)
  have "links_tokens (links(j \<mapsto> l')) + tokens (sl_vehs l) = links_tokens links + tokens (sl_vehs l')"
    using map_sum_upd[OF fin l, of "\<lambda>l. tokens (sl_vehs l)" l'] .
  moreover have "finite (dom (links(j \<mapsto> l')))" using fin d by simp
  ultimately show ?thesis
    using sl_pop_tokens[OF pop] move_vehicle_tokens[OF _ mv] links_static_upd[of links, OF l sl_pop_static[OF pop]]
    unfolding conserved_def by simp
qed

lemma node_inner_cases:
  assumes "node_inner active clock now rnd_num i s = Some s'"
  obtains (exhausted) "ns_exhausted s ! i" and "s' = s\<lparr>ns_avail := round_f64 (ns_avail s - 1 / 1000000)\<rparr>"
  | (blocked) links l cap where "\<not> ns_exhausted s ! i"
      and "should_veh_move_out (active ! i) now (ns_links s) = Some (False, links)"
      and "links (active ! i) = Some l" and "sl_flow_cap l = Some cap"
      and "s' = s\<lparr>ns_links := links, ns_exhausted := (ns_exhausted s)[i := True], ns_avail := round_f64 (ns_avail s - cap)\<rparr>"
  | (selected) links l cap where "\<not> ns_exhausted s ! i"
      and "should_veh_move_out (active ! i) now (ns_links s) = Some (True, links)"
      and "links (active ! i) = Some l" and "sl_flow_cap l = Some cap" and "round_f64 (ns_sel_cap s + cap) < rnd_num"
      and "s' = s\<lparr>ns_links := links, ns_sel_cap := round_f64 (ns_sel_cap s + cap)\<rparr>"
  | (moved) links l cap v l' env links' act where "\<not> ns_exhausted s ! i"
      and "should_veh_move_out (active ! i) now (ns_links s) = Some (True, links)"
      and "links (active ! i) = Some l" and "sl_flow_cap l = Some cap" and "sl_pop_veh l = Some (Some v, l')"
      and "move_vehicle v clock now (ns_env s) (links(active ! i \<mapsto> l')) (ns_active_links s) = Some (env, links', act)"
      and "s' = s\<lparr>ns_links := links', ns_sel_cap := round_f64 (ns_sel_cap s + cap), ns_active_links := act, ns_env := env\<rparr>"
proof (cases "ns_exhausted s ! i")
  case True
  then show ?thesis using assms exhausted by (simp add: node_inner_def)
next
  case False
  then obtain b links l cap where sm: "should_veh_move_out (active ! i) now (ns_links s) = Some (b, links)"
    and l: "links (active ! i) = Some l" and cap: "sl_flow_cap l = Some cap"
    using assms by (auto simp: node_inner_def)
  consider "\<not> b" | "b" "round_f64 (ns_sel_cap s + cap) < rnd_num" | "b" "rnd_num \<le> round_f64 (ns_sel_cap s + cap)" by linarith
  then show ?thesis
  proof cases
    case 1
    then show ?thesis using assms False sm l cap blocked by (simp add: node_inner_def)
  next
    case 2
    then show ?thesis using assms False sm l cap selected by (simp add: node_inner_def)
  next
    case 3
    then obtain v l' env links' act where pop: "sl_pop_veh l = Some (Some v, l')"
      and mv: "move_vehicle v clock now (ns_env s) (links(active ! i \<mapsto> l')) (ns_active_links s) = Some (env, links', act)"
      and s': "s' = s\<lparr>ns_links := links', ns_sel_cap := round_f64 (ns_sel_cap s + cap), ns_active_links := act, ns_env := env\<rparr>"
      using assms False sm l cap by (auto simp: node_inner_def)
    show ?thesis by (rule moved[OF False _ l cap pop mv s']) (use sm 3 in simp)
  qed
qed

lemma node_inner_tokens:
  assumes fin: "finite (dom (ns_links s))" and step: "node_inner active clock now r i s = Some s'"
  shows "conserved (ns_links s) (ns_links s')"
  using step
proof (cases rule: node_inner_cases)
  case (moved links l cap v l' env links' act)
  have ok: "conserved (ns_links s) links" using should_move_tokens[OF fin moved(2)] .
  have "conserved links links'"
    by (rule pop_and_move_tokens[OF conserved_finite[OF ok fin] moved(3,5,6)])
  with ok show ?thesis using moved(7) conserved_trans by simp
qed (use should_move_tokens[OF fin] in simp_all)

lemma node_pass_tokens:
  assumes "finite (dom (ns_links s))" and "node_pass active clock now s = Some s'"
  shows "conserved (ns_links s) (ns_links s')"
  using assms(2)[unfolded node_pass_def Let_def]
proof (rule foldM_inv[where P = "\<lambda>t. conserved (ns_links s) (ns_links t)"])
  show "conserved (ns_links s) (ns_links t')"
    if "conserved (ns_links s) (ns_links t)" "node_inner active clock now (round_f64 (ns_rng s 0 * ns_avail s)) i t = Some t'" for i t t'
    using that node_inner_tokens[OF conserved_finite[OF that(1) assms(1)] that(2)] conserved_trans by blast
qed simp

lemma node_while_tokens:
  assumes "node_while active clock now s = Some s'" and "finite (dom (ns_links s))"
  shows "conserved (ns_links s) (ns_links s')"
  using assms
proof (induction rule: node_while.raw_induct[rotated, consumes 1])
  case (1 rec active clock now s t)
  show ?case
  proof (cases "1 / 10000000000 < ns_avail s")
    case True
    then obtain x where x: "node_pass active clock now s = Some x" "rec active clock now x = Some t"
      using "1.prems" "1.hyps" by auto
    have "conserved (ns_links s) (ns_links x)" using node_pass_tokens[OF "1.prems" x(1)] .
    moreover have "conserved (ns_links x) (ns_links t)"
      using "1.IH"[OF x(2)] conserved_finite[OF \<open>conserved (ns_links s) (ns_links x)\<close> "1.prems"] by blast
    ultimately show ?thesis by (rule conserved_trans)
  qed (use "1" in auto)
qed

lemma any_link_offers_tokens:
  assumes "any_link_offers ids time links = Some (b, links')" and "finite (dom links)"
  shows "conserved links links'"
  using assms
proof (induction ids arbitrary: links)
  case (Cons i ids)
  then obtain l r l' where l: "links i = Some l" and off: "sl_offers_veh time l = Some (r, l')"
    and rest: "if r \<noteq> None then links' = links(i \<mapsto> l') else any_link_offers ids time (links(i \<mapsto> l')) = Some (b, links')"
    by (auto split: if_splits)
  have c: "conserved links (links(i \<mapsto> l'))"
    using conserved_upd[OF Cons.prems(2) l sl_offer_tokens[OF off] sl_offers_static[OF off]] .
  show ?case
  proof (cases r)
    case None
    have "conserved (links(i \<mapsto> l')) links'"
    proof (rule Cons.IH)
      show "any_link_offers ids time (links(i \<mapsto> l')) = Some (b, links')" using rest None by simp
      show "finite (dom (links(i \<mapsto> l')))" using conserved_finite[OF c Cons.prems(2)] .
    qed
    with c show ?thesis by (rule conserved_trans)
  next
    case (Some a)
    then have "links' = links(i \<mapsto> l')" using rest by simp
    with c show ?thesis by metis
  qed
qed auto

lemma move_node_cases:
  assumes "move_node_capacity_priority n now (env, net) = Some (b, env', net')"
  obtains node active avail rng s links where "snp_nodes net n = Some node"
    and "get_active_in_links (sn_in_links node) (snp_active_links net) (snp_links net) = Some (active, avail)"
    and "snp_rng net n = Some rng"
    and "node_while active (snp_clock net) now
           \<lparr>ns_links = snp_links net, ns_active_links = snp_active_links net, ns_rng = rng, ns_env = env,
            ns_avail = avail, ns_exhausted = replicate (length active) False, ns_sel_cap = 0\<rparr> = Some s"
    and "any_link_offers active (tick_next now) (ns_links s) = Some (b, links)"
    and "env' = ns_env s" and "net' = net\<lparr>snp_links := links, snp_active_links := ns_active_links s,
       snp_rng := (snp_rng net)(n \<mapsto> ns_rng s)\<rparr>"
  using assms unfolding move_node_capacity_priority_def by auto

text \<open>The network after an operation that only moves vehicles over nodes.\<close>

definition net_conserved :: "sim_network \<Rightarrow> sim_network \<Rightarrow> bool" where
  "net_conserved net net' \<longleftrightarrow> conserved (snp_links net) (snp_links net') \<and> veh_counter net' = veh_counter net"

lemma move_node_tokens:
  assumes fin: "finite (dom (snp_links net))" and mv: "move_node_capacity_priority n now (env, net) = Some (b, env', net')"
  shows "net_conserved net net'"
proof -
  obtain active rng avail s links where
    w: "node_while active (snp_clock net) now
           \<lparr>ns_links = snp_links net, ns_active_links = snp_active_links net, ns_rng = rng, ns_env = env,
            ns_avail = avail, ns_exhausted = replicate (length active) False, ns_sel_cap = 0\<rparr> = Some s"
    and a: "any_link_offers active (tick_next now) (ns_links s) = Some (b, links)"
    and net': "net' = net\<lparr>snp_links := links, snp_active_links := ns_active_links s,
       snp_rng := (snp_rng net)(n \<mapsto> ns_rng s)\<rparr>"
    by (rule move_node_cases[OF mv])
  have c: "conserved (snp_links net) (ns_links s)" using node_while_tokens[OF w] fin by simp
  with any_link_offers_tokens[OF a conserved_finite[OF c fin]] show ?thesis
    by (simp add: net_conserved_def net') (rule conserved_trans)
qed

lemma move_nodes_tokens:
  assumes fin: "finite (dom (snp_links net))" and mv: "move_nodes ord now env net = Some (env', net')"
  shows "net_conserved net net'"
proof -
  from mv obtain e net1 d where
    fold: "foldM (move_one_node now) (ord (snp_active_nodes net)) ((env, net), []) = Some ((e, net1), d)"
    and net': "net' = net1\<lparr>snp_active_nodes := snp_active_nodes net1 - set d\<rparr>"
    by (auto simp: move_nodes_def)
  have "net_conserved net (snd (fst ((e, net1), d)))"
    using fold
  proof (rule foldM_inv[where P = "\<lambda>s. net_conserved net (snd (fst s))"])
    show "net_conserved net (snd (fst s'))" if s: "net_conserved net (snd (fst s))" "move_one_node now n s = Some s'" for n s s'
    proof -
      obtain e1 n1 ds b e2 n2 where "s = ((e1, n1), ds)" "move_node_capacity_priority n now (e1, n1) = Some (b, e2, n2)"
        "snd (fst s') = n2"
        using s(2) by (cases s) (auto simp: move_one_node_def)
      then show ?thesis
        using s(1) fin move_node_tokens[of n1 n now e1 b e2 n2] conserved_finite conserved_trans
        by (auto simp: net_conserved_def)
    qed
  qed (simp add: net_conserved_def)
  then show ?thesis by (simp add: net' net_conserved_def)
qed

text \<open>
  C5. Moving vehicles over the nodes of a partition neither loses nor duplicates anybody: for
  every hash order and every sequence of random numbers, the vehicles on the network with the
  persons in them, and the count of vehicles, are the same after \<open>move_nodes\<close> as before.
\<close>

theorem move_nodes_conserves_vehicles:
  assumes "finite (dom (snp_links net))" and "move_nodes ord now env net = Some (env', net')"
  shows "net_tokens net' = net_tokens net \<and> veh_counter net' = veh_counter net \<and>
    dom (snp_links net') = dom (snp_links net)"
  using move_nodes_tokens[OF assms] conserved_dom unfolding net_conserved_def conserved_def by blast

section \<open>Conservation in the movement along links\<close>

lemma to_nodes_active_frame [frame]:
  assumes "to_nodes_active now l = (b, l')"
  shows "ll_static l' = ll_static l" and "ll_vehs l' = ll_vehs l" and "ll_storage_cap l' = ll_storage_cap l"
    and "ll_q l' = ll_q l" and "ll_buffer l' = ll_buffer l" and "ll_waiting_list l' = ll_waiting_list l"
    and "ll_flow_cap l' = ll_flow_cap l" and "ll_clock l' = ll_clock l"
proof -
  obtain v where off: "ll_offers_veh (tick_next now) l = (v, l')"
    using assms by (auto simp: to_nodes_active_def split: prod.splits)
  then have "l' = l \<or> l' = l\<lparr>ll_stuck_timer := timer_start (tick_next now) (ll_stuck_timer l)\<rparr>"
    using ll_offers_frame by blast
  then show "ll_static l' = ll_static l" and "ll_vehs l' = ll_vehs l" and "ll_storage_cap l' = ll_storage_cap l"
    and "ll_q l' = ll_q l" and "ll_buffer l' = ll_buffer l" and "ll_waiting_list l' = ll_waiting_list l"
    and "ll_flow_cap l' = ll_flow_cap l" and "ll_clock l' = ll_clock l"
    by (auto simp: ll_static_def ll_vehs_def)
qed

lemma ll_is_active_vehs: "ll_is_active l \<longleftrightarrow> ll_vehs l \<noteq> []"
  by (auto simp: ll_is_active_def ll_vehs_def)

lemma move_local_link_cases:
  assumes "move_local_link now l nodes env = Some (ended, active, l', nodes', env')"
  obtains l1 act where "do_sim_step now env l = Some (ended, env', l1)" and "to_nodes_active now l1 = (act, l')"
    and "nodes' = (if act then insert (ll_to l') nodes else nodes)" and "active = ll_is_active l'"
  using assms by (auto simp: move_local_link_def Let_def split: prod.splits)

lemma move_local_link_spec:
  assumes "move_local_link now l nodes env = Some (ended, active, l', nodes', env')"
  shows "ll_static l' = ll_static l" and "mset (ll_vehs l) = mset ended + mset (ll_vehs l')"
    and "active \<longleftrightarrow> ll_vehs l' \<noteq> []" and "nodes \<subseteq> nodes'" and "nodes' \<subseteq> insert (ll_to l) nodes"
proof -
  obtain l1 act where step: "do_sim_step now env l = Some (ended, env', l1)" and to: "to_nodes_active now l1 = (act, l')"
    and n: "nodes' = (if act then insert (ll_to l') nodes else nodes)" and a: "active = ll_is_active l'"
    by (rule move_local_link_cases[OF assms])
  show st: "ll_static l' = ll_static l"
    using do_sim_step_static[OF step] to_nodes_active_frame(1)[OF to] by simp
  show "mset (ll_vehs l) = mset ended + mset (ll_vehs l')"
    using do_sim_step_vehs[OF step] to_nodes_active_frame(2)[OF to] by simp
  show "active \<longleftrightarrow> ll_vehs l' \<noteq> []" using a by (simp add: ll_is_active_vehs)
  show "nodes \<subseteq> nodes'" using n by auto
  show "nodes' \<subseteq> insert (ll_to l) nodes" using n st by (auto simp: ll_static_def)
qed

lemma move_in_link_cases:
  assumes "move_in_link now il nodes updates env = Some (ended, active, il', nodes', updates', env')"
  obtains ll where "move_local_link now (il_local_link il) nodes env = Some (ended, active, ll, nodes', env')"
    and "il' = il\<lparr>il_local_link := ll\<rparr>" and "0 \<le> occupied_storage il - occupied_storage il'"
    and "updates' = (if 0 < occupied_storage il - occupied_storage il'
       then updates @ [\<lparr>su_link_id = ll_id ll, su_from_part = il_from_part il, su_released = occupied_storage il - occupied_storage il'\<rparr>]
       else updates)"
  using assms by (auto simp: move_in_link_def Let_def)

text \<open>What one round of the loop over the links does, uniformly over the kinds of links.\<close>

lemma move_one_link_spec:
  assumes "move_one_link now i s = Some s'"
  obtains l l' ended exits where "ml_links s i = Some l" and "ml_links s' = (ml_links s)(i \<mapsto> l')"
    and "sl_static l' = sl_static l" and "mset (sl_vehs l) = mset ended + mset exits + mset (sl_vehs l')"
    and "ml_ended s' = ml_ended s @ ended" and "ml_exits s' = ml_exits s @ exits"
    and "ml_deactivate s' = (if sl_vehs l' = [] then insert (sl_id l) (ml_deactivate s) else ml_deactivate s)"
proof -
  from assms obtain l where l: "ml_links s i = Some l" by (auto simp: move_one_link_def)
  show ?thesis
  proof (cases l)
    case (Local ll)
    then obtain ended active ll' nodes env where
      mv: "move_local_link now ll (ml_active_nodes s) (ml_env s) = Some (ended, active, ll', nodes, env)"
      and s': "s' = s\<lparr>ml_links := (ml_links s)(i \<mapsto> Local ll'), ml_active_nodes := nodes, ml_env := env,
                 ml_ended := ml_ended s @ ended,
                 ml_deactivate := (if active then ml_deactivate s else insert (ll_id ll') (ml_deactivate s))\<rparr>"
      using assms l by (auto simp: move_one_link_def)
    note spec = move_local_link_spec[OF mv]
    have "sl_static (Local ll') = sl_static (Local ll)" using spec(1) by (simp only: sl_static_iff)
    moreover have "ll_id ll' = ll_id ll" using spec(1) by (simp add: ll_static_def)
    ultimately show ?thesis
      using that[of l "Local ll'" ended "[]"] l Local spec s' by simp
  next
    case (In il)
    then obtain ended active il' nodes updates env where
      mv: "move_in_link now il (ml_active_nodes s) (ml_updates s) (ml_env s) = Some (ended, active, il', nodes, updates, env)"
      and s': "s' = s\<lparr>ml_links := (ml_links s)(i \<mapsto> In il'), ml_active_nodes := nodes, ml_env := env,
                 ml_updates := updates, ml_ended := ml_ended s @ ended,
                 ml_deactivate := (if active then ml_deactivate s else insert (ll_id (il_local_link il')) (ml_deactivate s))\<rparr>"
      using assms l by (auto simp: move_one_link_def)
    obtain ll where ml: "move_local_link now (il_local_link il) (ml_active_nodes s) (ml_env s) = Some (ended, active, ll, nodes, env)"
      and il': "il' = il\<lparr>il_local_link := ll\<rparr>"
      by (rule move_in_link_cases[OF mv])
    note spec = move_local_link_spec[OF ml]
    have "sl_static (In il') = sl_static (In il)" using spec(1) il' by (simp only: sl_static_iff) simp
    moreover have "ll_id ll = ll_id (il_local_link il)" using spec(1) by (simp add: ll_static_def)
    ultimately show ?thesis
      using that[of l "In il'" ended "[]"] l In spec s' il' by simp
  next
    case (Out ol)
    then show ?thesis
      using that[of l "Out (ol\<lparr>ol_q := []\<rparr>)" "[]" "ol_q ol"] assms l
      by (auto simp: move_one_link_def move_out_link_def take_veh_def Let_def)
  qed
qed

definition ml_inv :: "link_id set \<Rightarrow> (link_id \<rightharpoonup> sim_link) \<Rightarrow> move_links_state \<Rightarrow> bool" where
  "ml_inv A links s \<longleftrightarrow> links_static (ml_links s) = links_static links \<and>
     links_tokens links = links_tokens (ml_links s) + tokens (ml_exits s) + tokens (ml_ended s) \<and>
     (\<forall>i l. ml_links s i = Some l \<and> sl_vehs l \<noteq> [] \<longrightarrow> i \<in> A \<and> i \<notin> ml_deactivate s)"

definition ids_ok :: "(link_id \<rightharpoonup> sim_link) \<Rightarrow> bool" where
  "ids_ok links \<longleftrightarrow> finite (dom links) \<and> (\<forall>i l. links i = Some l \<longrightarrow> sl_id l = i)"

lemma ids_ok_static:
  assumes "ids_ok links" and "links_static links' = links_static links"
  shows "ids_ok links'"
proof -
  have "sl_id l' = i" if l': "links' i = Some l'" for i l'
  proof -
    obtain l where "links i = Some l" "sl_static l' = sl_static l"
      using fun_cong[OF assms(2), of i] l' by (cases "links i") (auto simp: links_static_def)
    then show ?thesis using assms(1) sl_static_id[of l' l] by (simp add: ids_ok_def)
  qed
  then show ?thesis using assms links_static_dom[OF assms(2)] by (simp add: ids_ok_def)
qed

lemma move_one_link_inv:
  assumes ids: "ids_ok links" and inv: "ml_inv A links s" and mv: "move_one_link now i s = Some s'"
  shows "ml_inv A links s'"
proof -
  have ids': "ids_ok (ml_links s)" using ids_ok_static[OF ids] inv by (simp add: ml_inv_def)
  obtain l l' ended exits where l: "ml_links s i = Some l" and links': "ml_links s' = (ml_links s)(i \<mapsto> l')"
    and st: "sl_static l' = sl_static l" and ms: "mset (sl_vehs l) = mset ended + mset exits + mset (sl_vehs l')"
    and en: "ml_ended s' = ml_ended s @ ended" and ex: "ml_exits s' = ml_exits s @ exits"
    and de: "ml_deactivate s' = (if sl_vehs l' = [] then insert (sl_id l) (ml_deactivate s) else ml_deactivate s)"
    by (rule move_one_link_spec[OF mv])
  have id: "sl_id l = i" using ids' l by (simp add: ids_ok_def)
  have "tokens (sl_vehs l) = tokens ended + tokens exits + tokens (sl_vehs l')"
    using ms by (simp add: tokens_def)
  then have tok: "links_tokens (ml_links s) = links_tokens (ml_links s') + tokens ended + tokens exits"
    using map_sum_upd[of "ml_links s" i l "\<lambda>l. tokens (sl_vehs l)" l'] ids' l unfolding links' ids_ok_def
    by (simp add: add.assoc)
  have sub: "sl_vehs l \<noteq> []" if "sl_vehs l' \<noteq> []" using that ms by (cases "sl_vehs l'") auto
  have static: "links_static (ml_links s') = links_static (ml_links s)"
    unfolding links' using l st by (rule links_static_upd)
  have act: "j \<in> A \<and> j \<notin> ml_deactivate s'" if "ml_links s' j = Some k" "sl_vehs k \<noteq> []" for j k
  proof (cases "j = i")
    case True
    then have "k = l'" using that(1) by (simp add: links')
    then show ?thesis using that(2) sub inv l True de by (auto simp: ml_inv_def)
  next
    case False
    then show ?thesis using that inv de id by (auto simp: ml_inv_def links' split: if_splits)
  qed
  show ?thesis
    using inv tok static act unfolding ml_inv_def en ex by (auto simp: ac_simps)
qed

text \<open>
  The bookkeeping of a partition: links are stored under their ids, the counter counts the
  vehicles on the network, and every link with a vehicle on it is active, so that no vehicle is
  ever forgotten on an inactive link.
\<close>

definition book_inv :: "sim_network \<Rightarrow> bool" where
  "book_inv net \<longleftrightarrow> ids_ok (snp_links net) \<and> veh_counter net = size (net_tokens net) \<and>
     (\<forall>i l. snp_links net i = Some l \<and> sl_vehs l \<noteq> [] \<longrightarrow> i \<in> snp_active_links net)"

lemma move_links_cases:
  assumes "move_links ord now env net = Some (res, env', net')"
  obtains s where "foldM (move_one_link now) (ord (snp_active_links net))
           \<lparr>ml_links = snp_links net, ml_active_nodes = snp_active_nodes net, ml_env = env, ml_updates = [],
            ml_exits = [], ml_ended = [], ml_deactivate = {}\<rparr> = Some s"
    and "length (ml_exits s) + length (ml_ended s) \<le> veh_counter net"
    and "res = \<lparr>vehicles_exit_partition = ml_exits s, vehicles_end_leg = ml_ended s, storage_cap_updates = ml_updates s\<rparr>"
    and "env' = ml_env s"
    and "net' = net\<lparr>snp_links := ml_links s, snp_active_nodes := ml_active_nodes s,
               snp_active_links := snp_active_links net - ml_deactivate s,
               veh_counter := veh_counter net - length (ml_exits s) - length (ml_ended s)\<rparr>"
  using assms by (auto simp: move_links_def checked_sub_u64_def split: if_splits)

lemma move_links_fold_inv:
  assumes book: "book_inv net"
    and fold: "foldM (move_one_link now) ids
           \<lparr>ml_links = snp_links net, ml_active_nodes = snp_active_nodes net, ml_env = env, ml_updates = [],
            ml_exits = [], ml_ended = [], ml_deactivate = {}\<rparr> = Some s"
  shows "ml_inv (snp_active_links net) (snp_links net) s"
  using fold
proof (rule foldM_inv)
  show "ml_inv (snp_active_links net) (snp_links net)
      \<lparr>ml_links = snp_links net, ml_active_nodes = snp_active_nodes net, ml_env = env, ml_updates = [],
            ml_exits = [], ml_ended = [], ml_deactivate = {}\<rparr>"
    using book by (simp add: ml_inv_def book_inv_def)
qed (use book move_one_link_inv in \<open>auto simp: book_inv_def\<close>)

lemma move_links_book:
  assumes book: "book_inv net" and mv: "move_links ord now env net = Some (res, env', net')"
  shows "book_inv net'"
    and "net_tokens net = net_tokens net' + tokens (vehicles_exit_partition res) + tokens (vehicles_end_leg res)"
    and "links_static (snp_links net') = links_static (snp_links net)"
proof -
  obtain s where fold: "foldM (move_one_link now) (ord (snp_active_links net))
           \<lparr>ml_links = snp_links net, ml_active_nodes = snp_active_nodes net, ml_env = env, ml_updates = [],
            ml_exits = [], ml_ended = [], ml_deactivate = {}\<rparr> = Some s"
    and res: "res = \<lparr>vehicles_exit_partition = ml_exits s, vehicles_end_leg = ml_ended s, storage_cap_updates = ml_updates s\<rparr>"
    and net': "net' = net\<lparr>snp_links := ml_links s, snp_active_nodes := ml_active_nodes s,
               snp_active_links := snp_active_links net - ml_deactivate s,
               veh_counter := veh_counter net - length (ml_exits s) - length (ml_ended s)\<rparr>"
    by (rule move_links_cases[OF mv])
  have inv: "ml_inv (snp_active_links net) (snp_links net) s" by (rule move_links_fold_inv[OF book fold])
  then have tok: "net_tokens net = links_tokens (ml_links s) + tokens (ml_exits s) + tokens (ml_ended s)"
    and st: "links_static (ml_links s) = links_static (snp_links net)" by (simp_all add: ml_inv_def)
  have "veh_counter net = size (links_tokens (ml_links s)) + length (ml_exits s) + length (ml_ended s)"
    using book tok by (simp add: book_inv_def)
  then show "book_inv net'"
    using inv book ids_ok_static[OF _ st] by (auto simp: book_inv_def net' ml_inv_def)
  show "net_tokens net = net_tokens net' + tokens (vehicles_exit_partition res) + tokens (vehicles_end_leg res)"
    using tok by (simp add: net' res)
  show "links_static (snp_links net') = links_static (snp_links net)" using st by (simp add: net')
qed

text \<open>
  C6. Moving vehicles along the links of a partition: every vehicle that was on the network is
  afterwards on the network, in the list of vehicles that leave the partition or in the list of
  vehicles that end their leg, exactly once; the counter of vehicles agrees with the network
  again, and every link with vehicles is active.
\<close>

theorem move_links_conserves_vehicles:
  assumes "book_inv net" and "move_links ord now env net = Some (res, env', net')"
  shows "net_tokens net = net_tokens net' + tokens (vehicles_exit_partition res) + tokens (vehicles_end_leg res) \<and>
    veh_counter net' = size (net_tokens net') \<and> book_inv net'"
  using move_links_book[OF assms] by (simp add: book_inv_def)

section \<open>Every link with vehicles is active\<close>

definition act_ok :: "(link_id \<rightharpoonup> sim_link) \<Rightarrow> link_id set \<Rightarrow> bool" where
  "act_ok links act \<longleftrightarrow> (\<forall>i l. links i = Some l \<and> sl_vehs l \<noteq> [] \<longrightarrow> i \<in> act)"

lemma act_ok_upd:
  "act_ok links act \<Longrightarrow> links i = Some l \<Longrightarrow> (sl_vehs l' \<noteq> [] \<Longrightarrow> sl_vehs l \<noteq> []) \<Longrightarrow> act_ok (links(i \<mapsto> l')) act"
  by (auto simp: act_ok_def)

lemma mset_empty_iff: "mset xs = mset ys \<Longrightarrow> xs = [] \<longleftrightarrow> ys = []"
  by (metis mset_zero_iff)

lemma offer_nonempty: "sl_offers_veh now l = Some (r, l') \<Longrightarrow> sl_vehs l' = [] \<longleftrightarrow> sl_vehs l = []"
  using link_store.offer_vehs mset_empty_iff by blast

lemma pop_nonempty: "sl_pop_veh l = Some (Some v, l') \<Longrightarrow> sl_vehs l \<noteq> []"
  using link_store.pop_length by fastforce

lemma sl_is_active_vehs: "sl_is_active l = Some b \<Longrightarrow> b \<longleftrightarrow> sl_vehs l \<noteq> []"
  by (cases l) (auto simp: ll_is_active_vehs)

lemma push_nonempty: "sl_push_veh v pos now l = Some l' \<Longrightarrow> sl_vehs l' \<noteq> []"
  using link_store.push_vehs[of v pos now l l'] by auto

lemma should_move_act:
  assumes "should_veh_move_out i now links = Some (b, links')" and "act_ok links act"
  shows "act_ok links' act"
  by (rule should_move_cases[OF assms(1)]) (use assms(2) offer_nonempty act_ok_upd in blast)

lemma move_vehicle_act:
  assumes mv: "move_vehicle v clock now env links act = Some (env', links', act')" and ok: "act_ok links act"
  shows "act_ok links' act'"
proof -
  obtain old_id v' new_id l l' old still where new: "links new_id = Some l" and push: "sl_push_veh v' QStart now l = Some l'"
    and links': "links' = links(new_id \<mapsto> l')" and old: "links' old_id = Some old" "sl_is_active old = Some still"
    and act': "act' = (if still then insert new_id act else insert new_id act - {old_id})"
    by (rule move_vehicle_cases[OF mv])
  have "j \<in> act'" if j: "links' j = Some k" "sl_vehs k \<noteq> []" for j k
  proof -
    have "j \<in> insert new_id act" using j ok by (auto simp: links' act_ok_def split: if_splits)
    moreover have "still" if "j = old_id" using that j old sl_is_active_vehs[OF old(2)] by simp
    ultimately show ?thesis using act' by auto
  qed
  then show ?thesis by (auto simp: act_ok_def)
qed

lemma node_inner_act:
  assumes step: "node_inner active clock now r i s = Some s'" and ok: "act_ok (ns_links s) (ns_active_links s)"
  shows "act_ok (ns_links s') (ns_active_links s')"
  using step
proof (cases rule: node_inner_cases)
  case (moved links l cap v l' env links' act)
  have "act_ok links (ns_active_links s)" using should_move_act[OF moved(2) ok] .
  then have "act_ok (links(active ! i \<mapsto> l')) (ns_active_links s)"
    using moved(3) pop_nonempty[OF moved(5)] act_ok_upd by blast
  then show ?thesis using move_vehicle_act[OF moved(6)] moved(7) by simp
qed (use should_move_act[OF _ ok] ok in simp_all)

lemma node_while_act:
  assumes "node_while active clock now s = Some s'" and "act_ok (ns_links s) (ns_active_links s)"
  shows "act_ok (ns_links s') (ns_active_links s')"
  using assms
proof (induction rule: node_while.raw_induct[rotated, consumes 1])
  case (1 rec active clock now s t)
  show ?case
  proof (cases "1 / 10000000000 < ns_avail s")
    case True
    then obtain x where x: "node_pass active clock now s = Some x" "rec active clock now x = Some t"
      using "1.hyps" by auto
    have "act_ok (ns_links x) (ns_active_links x)"
      using x(1)[unfolded node_pass_def Let_def]
      by (rule foldM_inv[where P = "\<lambda>t. act_ok (ns_links t) (ns_active_links t)"]) (use "1.prems" node_inner_act in auto)
    then show ?thesis using "1.IH"[OF x(2)] by blast
  qed (use "1" in auto)
qed

lemma any_link_offers_act:
  assumes "any_link_offers ids time links = Some (b, links')" and "act_ok links act"
  shows "act_ok links' act"
  using assms
proof (induction ids arbitrary: links)
  case (Cons i ids)
  then obtain l r l' where l: "links i = Some l" and off: "sl_offers_veh time l = Some (r, l')"
    and rest: "if r \<noteq> None then links' = links(i \<mapsto> l') else any_link_offers ids time (links(i \<mapsto> l')) = Some (b, links')"
    by (auto split: if_splits)
  have "act_ok (links(i \<mapsto> l')) act" using act_ok_upd[OF Cons.prems(2) l] offer_nonempty[OF off] by blast
  then show ?case using rest Cons.IH by (cases "r = None") metis+
qed auto

lemma move_node_book:
  assumes book: "book_inv net" and mv: "move_node_capacity_priority n now (env, net) = Some (b, env', net')"
  shows "book_inv net'"
proof -
  obtain active rng avail s links where
    w: "node_while active (snp_clock net) now
           \<lparr>ns_links = snp_links net, ns_active_links = snp_active_links net, ns_rng = rng, ns_env = env,
            ns_avail = avail, ns_exhausted = replicate (length active) False, ns_sel_cap = 0\<rparr> = Some s"
    and a: "any_link_offers active (tick_next now) (ns_links s) = Some (b, links)"
    and net': "net' = net\<lparr>snp_links := links, snp_active_links := ns_active_links s,
       snp_rng := (snp_rng net)(n \<mapsto> ns_rng s)\<rparr>"
    by (rule move_node_cases[OF mv])
  have "act_ok (ns_links s) (ns_active_links s)"
    using node_while_act[OF w] book by (simp add: book_inv_def act_ok_def)
  then have "act_ok (snp_links net') (snp_active_links net')" using any_link_offers_act[OF a] by (simp add: net')
  moreover have "net_conserved net net'" using move_node_tokens[OF _ mv] book by (simp add: book_inv_def ids_ok_def)
  ultimately show ?thesis
    using book ids_ok_static[of "snp_links net" "snp_links net'"]
    by (simp add: book_inv_def net_conserved_def conserved_def act_ok_def)
qed

lemma move_nodes_book:
  assumes book: "book_inv net" and mv: "move_nodes ord now env net = Some (env', net')"
  shows "book_inv net'"
proof -
  from mv obtain e net1 d where
    fold: "foldM (move_one_node now) (ord (snp_active_nodes net)) ((env, net), []) = Some ((e, net1), d)"
    and net': "net' = net1\<lparr>snp_active_nodes := snp_active_nodes net1 - set d\<rparr>"
    by (auto simp: move_nodes_def)
  have "book_inv (snd (fst ((e, net1), d)))"
    using fold
  proof (rule foldM_inv[where P = "\<lambda>s. book_inv (snd (fst s))"])
    show "book_inv (snd (fst s'))" if "book_inv (snd (fst s))" "move_one_node now n s = Some s'" for n s s'
      using that by (cases s) (auto simp: move_one_node_def dest: move_node_book)
  qed (simp add: book)
  then show ?thesis by (simp add: net' book_inv_def)
qed

lemma send_veh_cases:
  assumes "send_veh_en_route v begin_route now env net = Some (env', net')"
  obtains i l l' where "veh_curr_link_id v = Some (Some i)" and "snp_links net i = Some l"
    and "sl_push_veh v (if begin_route then Waiting else QStart) now l = Some l'"
    and "net' = net\<lparr>snp_links := (snp_links net)(i \<mapsto> l'), veh_counter := veh_counter net + 1,
                    snp_active_links := insert (sl_id l) (snp_active_links net)\<rparr>"
  using assms by (auto simp: send_veh_en_route_def split: if_splits)

lemma send_veh_tokens [conservation]:
  assumes book: "book_inv net" and "send_veh_en_route v begin_route now env net = Some (env', net')"
  shows "net_tokens net' = add_mset (veh_token v) (net_tokens net)" and "book_inv net'"
    and "links_static (snp_links net') = links_static (snp_links net)"
proof -
  obtain i l l' where l: "snp_links net i = Some l" and push: "sl_push_veh v (if begin_route then Waiting else QStart) now l = Some l'"
    and net': "net' = net\<lparr>snp_links := (snp_links net)(i \<mapsto> l'), veh_counter := veh_counter net + 1,
                    snp_active_links := insert (sl_id l) (snp_active_links net)\<rparr>"
    by (rule send_veh_cases[OF assms(2)])
  have fin: "finite (dom (snp_links net))" and id: "sl_id l = i" using book l by (auto simp: book_inv_def ids_ok_def)
  show tok: "net_tokens net' = add_mset (veh_token v) (net_tokens net)"
    using map_sum_upd[OF fin l, of "\<lambda>l. tokens (sl_vehs l)" l'] sl_push_tokens[OF push] by (simp add: net')
  show st: "links_static (snp_links net') = links_static (snp_links net)"
    using links_static_upd[of "snp_links net", OF l sl_push_static[OF push]] by (simp add: net')
  have "act_ok (snp_links net') (snp_active_links net')"
    using book id by (auto simp: net' book_inv_def act_ok_def)
  then show "book_inv net'"
    using book tok ids_ok_static[OF _ st] by (simp add: book_inv_def act_ok_def net')
qed

lemma apply_cap_conserved:
  assumes fin: "finite (dom (snp_links net))" and "apply_storage_cap_updates caps net = Some net'"
  shows "net_conserved net net' \<and> (\<forall>act. act_ok (snp_links net) act \<longrightarrow> act_ok (snp_links net') act) \<and>
    snp_active_links net' = snp_active_links net" (is "?P net'")
  using assms(2)[unfolded apply_storage_cap_updates_def]
proof (rule foldM_inv[where P = ?P])
  show "?P n2" if P: "?P n1" and step: "apply_one_cap_update cap n1 = Some n2" for cap n1 n2
  proof -
    obtain ol where ol: "snp_links n1 (su_link_id cap) = Some (Out ol)"
      and n2: "n2 = n1\<lparr>snp_links := (snp_links n1)(su_link_id cap \<mapsto> Out (apply_storage_cap_update (su_released cap) ol))\<rparr>"
      using step by (auto simp: apply_one_cap_update_def split: sim_link.splits)
    have fin1: "finite (dom (snp_links n1))" using P fin conserved_finite by (auto simp: net_conserved_def)
    have "conserved (snp_links n1) (snp_links n2)"
      using conserved_upd[OF fin1 ol, of "Out (apply_storage_cap_update (su_released cap) ol)"]
      by (simp add: n2 apply_storage_cap_update_def)
    moreover have "act_ok (snp_links n1) act \<Longrightarrow> act_ok (snp_links n2) act" for act
      using act_ok_upd[of "snp_links n1" act, OF _ ol, of "Out (apply_storage_cap_update (su_released cap) ol)"]
      by (simp add: n2 apply_storage_cap_update_def)
    moreover have "veh_counter n2 = veh_counter n1" "snp_active_links n2 = snp_active_links n1" by (simp_all add: n2)
    ultimately show ?thesis using P conserved_trans unfolding net_conserved_def by metis
  qed
qed (simp add: net_conserved_def)

lemma apply_cap_book:
  assumes book: "book_inv net" and "apply_storage_cap_updates caps net = Some net'"
  shows "book_inv net'"
  using apply_cap_conserved[OF _ assms(2)] book ids_ok_static[of "snp_links net" "snp_links net'"]
  by (auto simp: book_inv_def ids_ok_def net_conserved_def conserved_def act_ok_def)

section \<open>Construction\<close>

lemma create_sim_link_fresh:
  "create_sim_link l part cell config net = Some sl \<Longrightarrow> sl_id sl = link_ident l \<and> sl_vehs sl = []"
  by (auto simp: create_sim_link_def Let_def from_link_def ll_build_def il_new_def ol_new_def ll_vehs_def split: if_splits)

lemma add_sim_links_fresh:
  assumes "foldM (add_sim_link part config net) ids Map.empty = Some links"
  shows "finite (dom links) \<and> (\<forall>i l. links i = Some l \<longrightarrow> sl_id l = i \<and> sl_vehs l = [])"
  using assms
proof (rule foldM_inv)
  show "finite (dom ls') \<and> (\<forall>i l. ls' i = Some l \<longrightarrow> sl_id l = i \<and> sl_vehs l = [])"
    if "finite (dom ls) \<and> (\<forall>i l. ls i = Some l \<longrightarrow> sl_id l = i \<and> sl_vehs l = [])"
      and "add_sim_link part config net i ls = Some ls'" for i ls ls'
    using that by (auto simp: add_sim_link_def dest: create_sim_link_fresh split: if_splits)
qed simp

lemma from_network_book:
  assumes "from_network ord net part config rnd = Some snp"
  shows "book_inv snp"
proof -
  obtain nodes links clock ids where f: "foldM (add_sim_link part config net) ids Map.empty = Some links"
    and snp: "snp = snp_build nodes links part rnd clock"
    using assms by (auto simp: from_network_def Let_def)
  have fresh: "\<forall>i l. links i = Some l \<longrightarrow> sl_id l = i \<and> sl_vehs l = []" "finite (dom links)"
    using add_sim_links_fresh[OF f] by auto
  then have "links_tokens links = (\<Sum>i \<in> dom links. {#})" unfolding map_sum_def by (intro sum.cong) auto
  then show ?thesis using fresh by (auto simp: book_inv_def ids_ok_def snp snp_build_def)
qed

text \<open>What the engines do with the network of a partition, in any order.\<close>

datatype snp_op = Send sim_vehicle bool tick | Caps "storage_update list" | Nodes tick | Links tick

fun snp_step :: "(node_id set \<Rightarrow> node_id list) \<Rightarrow> (link_id set \<Rightarrow> link_id list) \<Rightarrow> snp_op \<Rightarrow>
    env \<times> sim_network \<Rightarrow> (env \<times> sim_network) option" where
  "snp_step on ol (Send v b now) (env, net) = send_veh_en_route v b now env net"
| "snp_step on ol (Caps caps) (env, net) = map_option (\<lambda>n. (env, n)) (apply_storage_cap_updates caps net)"
| "snp_step on ol (Nodes now) (env, net) = move_nodes on now env net"
| "snp_step on ol (Links now) (env, net) = do { (_, env, net) \<leftarrow> move_links ol now env net; Some (env, net) }"

lemma snp_step_book:
  assumes "book_inv net" and "snp_step on ol op (env, net) = Some (env', net')"
  shows "book_inv net'"
proof (cases op)
  case (Send v b now)
  then show ?thesis using assms send_veh_tokens(2)[OF assms(1)] by simp
next
  case (Caps caps)
  then show ?thesis using assms apply_cap_book by auto
next
  case (Nodes now)
  then show ?thesis using assms move_nodes_book by simp
next
  case (Links now)
  then show ?thesis using assms move_links_book(1)[OF assms(1)] by auto
qed

text \<open>
  C4. In every run of a partition from its construction, over vehicles sent onto the network,
  storage updates and moves over nodes and along links in any order, the counter of vehicles is
  the number of vehicles on its links, links are stored under their ids and every link that
  carries a vehicle is active.
\<close>

theorem network_bookkeeping:
  assumes "from_network ord net part config rnd = Some snp"
    and "foldM (snp_step on ol) ops (env, snp) = Some (env', snp')"
  shows "veh_counter snp' = size (net_tokens snp') \<and>
    (\<forall>i l. snp_links snp' i = Some l \<longrightarrow> sl_id l = i \<and> (sl_vehs l \<noteq> [] \<longrightarrow> i \<in> snp_active_links snp'))"
proof -
  have "book_inv (snd (env', snp'))"
  proof (rule foldM_inv[OF assms(2), where P = "\<lambda>s. book_inv (snd s)"])
    show "book_inv (snd (env, snp))" using from_network_book[OF assms(1)] by simp
    show "book_inv (snd s')" if "book_inv (snd s)" "snp_step on ol op s = Some s'" for op s s'
      using that snp_step_book by (metis prod.collapse)
  qed
  then show ?thesis by (simp add: book_inv_def ids_ok_def)
qed

section \<open>Example\<close>

definition ex_coord :: coordinate where "ex_coord = \<lparr>coord_x = 0, coord_y = 0, coord_z = 0\<rparr>"

definition ex_net :: network where
  "ex_net = \<lparr>net_nodes = [1 \<mapsto> (node_new 1 ex_coord 0 1)\<lparr>out_links := [1]\<rparr>,
      2 \<mapsto> (node_new 2 ex_coord 0 1)\<lparr>in_links := [1], out_links := [2]\<rparr>,
      3 \<mapsto> (node_new 3 ex_coord 0 1)\<lparr>in_links := [2]\<rparr>],
     net_links = [1 \<mapsto> link_new 1 1 2 100 3600 20 1 {} 0, 2 \<mapsto> link_new 2 2 3 100 3600 20 1 {} 0],
     effective_cell_size = 15 / 2\<rparr>"

lemma ex_ll: "from_link (link_new i f t 100 3600 20 1 {} 0) (15 / 2) ex_config =
   Some (ex_local_link\<lparr>ll_id := i, ll_from := f, ll_to := t\<rparr>)"
  by (simp add: from_link_def ll_build_def ex_config_def clock_new_def secs_to_tick_def from_secs_def from_duration_def
        assert_duration_fits_simtime_def duration_from_secs_def nanos_per_second_def u64_max_def time_to_tick_def
        div_ceil_def as_nanos_def Let_def link_new_def ex_local_link_def tick_length_def duration_as_secs_f64_def)

definition ex_snp :: sim_network where
  "ex_snp = snp_build [3 \<mapsto> \<lparr>sn_id = 3, sn_in_links = [2]\<rparr>, 2 \<mapsto> \<lparr>sn_id = 2, sn_in_links = [1]\<rparr>, 1 \<mapsto> \<lparr>sn_id = 1, sn_in_links = []\<rparr>]
     [1 \<mapsto> Local (ex_local_link\<lparr>ll_id := 1, ll_from := 1, ll_to := 2\<rparr>), 2 \<mapsto> Local (ex_local_link\<lparr>ll_id := 2, ll_from := 2, ll_to := 3\<rparr>)]
     0 (\<lambda>_ _. 0) 1"

lemma link_new_sel:
  "link_ident (link_new i f t len cap speed lanes modes part) = i"
  "link_from (link_new i f t len cap speed lanes modes part) = f"
  "link_to (link_new i f t len cap speed lanes modes part) = t"
  by (simp_all add: link_new_def)

lemma ex_net_nodes:
  "i \<in> {1, 2, 3} \<Longrightarrow> \<exists>n. get_node ex_net i = Some n \<and> node_partition n = 0"
  by (auto simp: get_node_def ex_net_def node_new_def)

lemma ex_create:
  assumes "f \<in> {1, 2, 3}" and "t \<in> {1, 2, 3}"
  shows "create_sim_link (link_new i f t 100 3600 20 1 {} 0) 0 (15 / 2) ex_config ex_net =
    Some (Local (ex_local_link\<lparr>ll_id := i, ll_from := f, ll_to := t\<rparr>))"
  using ex_net_nodes[OF assms(1)] ex_net_nodes[OF assms(2)]
  by (auto simp: create_sim_link_def link_new_sel ex_ll)

lemma ex_net_simps: "get_link ex_net 1 = Some (link_new 1 1 2 100 3600 20 1 {} 0)"
  "get_link ex_net 2 = Some (link_new 2 2 3 100 3600 20 1 {} 0)" "effective_cell_size ex_net = 15/2"
  "dom (net_nodes ex_net) = {1,2,3}" 
  by (auto simp: get_link_def ex_net_def)

lemma ex_from: "from_network sorted_list_of_set ex_net 0 ex_config (\<lambda>_ _. 0) = Some ex_snp"
proof -
  have "sorted_list_of_set {1,2,3::nat} = [1,2,3]" by simp
  have n: "net_nodes ex_net 1 = Some ((node_new 1 ex_coord 0 1)\<lparr>out_links := [1]\<rparr>)"
    "net_nodes ex_net 2 = Some ((node_new 2 ex_coord 0 1)\<lparr>in_links := [1], out_links := [2]\<rparr>)"
    "net_nodes ex_net 3 = Some ((node_new 3 ex_coord 0 1)\<lparr>in_links := [2]\<rparr>)"
    by (simp_all add: ex_net_def)
  have nodes: "filter (\<lambda>n. node_partition n = 0) (map (\<lambda>i. the (net_nodes ex_net i)) (sorted_list_of_set (dom (net_nodes ex_net)))) =
    [(node_new 1 ex_coord 0 1)\<lparr>out_links := [1]\<rparr>, (node_new 2 ex_coord 0 1)\<lparr>in_links := [1], out_links := [2]\<rparr>, (node_new 3 ex_coord 0 1)\<lparr>in_links := [2]\<rparr>]"
    by (simp only: ex_net_simps \<open>sorted_list_of_set {1,2,3::nat} = [1,2,3]\<close> list.map n option.sel filter.simps) (simp add: node_new_def)
  have links: "foldM (add_sim_link 0 ex_config ex_net) [1,1,2,2] Map.empty = 
     Some [1 \<mapsto> Local (ex_local_link\<lparr>ll_id := 1, ll_from := 1, ll_to := 2\<rparr>), 2 \<mapsto> Local (ex_local_link\<lparr>ll_id := 2, ll_from := 2, ll_to := 3\<rparr>)]"
    by (simp add: add_sim_link_def ex_net_simps ex_create link_new_sel del: One_nat_def)
  show ?thesis unfolding from_network_def nodes Let_def
    using links by (simp add: ex_config_def clock_new_def) (simp add: ex_snp_def node_new_def create_sim_node_def ex_config_def)
qed

lemma ex_curr: "veh_curr_link_id ex_vehicle = Some (Some 1)"
  using ex_leg_of_vehicle by (simp add: veh_curr_link_id_def driver_def ex_vehicle_def agent_curr_link_id_def pb_curr_link_id_def)
   (simp add: ex_defs route_element_at_def list_get_def ex_logic_def pb_state_def)

abbreviation ex_l :: "link_id \<Rightarrow> node_id \<Rightarrow> node_id \<Rightarrow> local_link" where
  "ex_l i f t \<equiv> ex_local_link\<lparr>ll_id := i, ll_from := f, ll_to := t\<rparr>"

text \<open>The example network with the vehicle waiting on its first link, and with the vehicle in the buffer of that link.\<close>

definition ex_waiting :: sim_network where
  "ex_waiting = ex_snp\<lparr>snp_links := (snp_links ex_snp)(1 \<mapsto> Local ((ex_l 1 1 2)\<lparr>ll_waiting_list := [ex_vehicle]\<rparr>)),
     veh_counter := 1, snp_active_links := {1}\<rparr>"

lemma ex_send: "send_veh_en_route ex_vehicle True 0 env ex_snp = Some (env, ex_waiting)"
  by (simp add: send_veh_en_route_def ex_curr ex_snp_def snp_build_def ex_waiting_def push_veh_to_waiting_list_def ex_local_link_def)

lemma ex_book: "book_inv ex_waiting"
  using send_veh_tokens(2)[OF from_network_book[OF ex_from] ex_send[of "env_new 0 0 Map.empty"]] .

lemma ex_leg_of_agent: "agent_curr_leg (PlanBased (ex_logic\<lparr>curr_plan_element := 1\<rparr>)) = Some ex_leg"
  using ex_leg_of_vehicle by (simp add: agent_curr_leg_def)

lemma ex_time: "tick_to_time 1 0 = Some 0"
  by (simp add: tick_to_time_eq)

lemma ex_step: "\<exists>env' l'. do_sim_step 0 env ((ex_l 1 1 2)\<lparr>ll_waiting_list := [ex_vehicle]\<rparr>) = Some ([], env', l') \<and>
   ll_buffer l' = [ex_vehicle] \<and> ll_q l' = [] \<and> ll_waiting_list l' = [] \<and> ll_flow_cap l' = ll_flow_cap ex_local_link \<and>
   ll_id l' = 1 \<and> ll_to l' = 2 \<and> ll_storage_cap l' = ll_storage_cap ex_local_link \<and> ll_stuck_timer l' = ll_stuck_timer ex_local_link"
  using ex_vehicle_moves ex_leg_of_agent ex_time
  by (simp add: do_sim_step_def update_flow_cap_def add_waiting_to_buffer_def add_queue_to_buffer_def 
      enters_traffic_def ex_local_link_def has_flow_capacity_left_def flowcap_new_def update_capacity_def driver_def)
    (simp add: ex_vehicle_def)

lemma ex_move_links: "\<exists>res env' net'. move_links sorted_list_of_set 0 env ex_waiting = Some (res, env', net')"
proof -
  obtain env' l where step: "do_sim_step 0 env ((ex_l 1 1 2)\<lparr>ll_waiting_list := [ex_vehicle]\<rparr>) = Some ([], env', l)"
    and l: "ll_buffer l = [ex_vehicle]" "ll_q l = []" "ll_waiting_list l = []" "ll_flow_cap l = ll_flow_cap ex_local_link"
      "ll_id l = 1" "ll_to l = 2" "ll_storage_cap l = ll_storage_cap ex_local_link" "ll_stuck_timer l = ll_stuck_timer ex_local_link"
    using ex_step by blast
  let ?l = "l\<lparr>ll_stuck_timer := timer_start 1 (ll_stuck_timer l)\<rparr>"
  have cap: "has_capacity_left (ll_flow_cap l)" "capacity_per_tick (ll_flow_cap l) = 1" "timer_started (timer_start 1 (ll_stuck_timer l)) = Some 1"
    unfolding l by (simp_all add: ex_local_link_def flowcap_new_def has_capacity_left_def timer_start_def timer_new_def)
  have act: "to_nodes_active 0 l = (True, ?l)"
    using l cap by (simp add: to_nodes_active_def ll_offers_veh_def tick_next_def saturating_add_u64_def u64_max_def)
  have "foldM (move_one_link 0) (sorted_list_of_set (snp_active_links ex_waiting)) 
       \<lparr>ml_links = snp_links ex_waiting, ml_active_nodes = snp_active_nodes ex_waiting, ml_env = env, ml_updates = [],
            ml_exits = [], ml_ended = [], ml_deactivate = {}\<rparr> = Some 
       \<lparr>ml_links = [1 \<mapsto> Local ?l, 2 \<mapsto> Local (ex_l 2 2 3)], ml_active_nodes = {2}, ml_env = env', ml_updates = [],
            ml_exits = [], ml_ended = [], ml_deactivate = {}\<rparr>"
    using step act l
    by (simp add: ex_waiting_def move_one_link_def move_local_link_def ex_snp_def snp_build_def ll_is_active_def fun_upd_twist)
  then show ?thesis
    by (simp add: move_links_def checked_sub_u64_def)
qed

theorem move_links_conserves_vehicles_witness:
  "\<exists>res env' net'. move_links sorted_list_of_set 0 (env_new 0 0 Map.empty) ex_waiting = Some (res, env', net') \<and>
     net_tokens ex_waiting = net_tokens net' + tokens (vehicles_exit_partition res) + tokens (vehicles_end_leg res)"
  using ex_move_links[of "env_new 0 0 Map.empty"] move_links_conserves_vehicles[OF ex_book] by metis

lemma ex_next: "peek_next_route_element ex_vehicle = Some (Some 2)"
  using ex_leg_of_vehicle by (simp add: peek_next_route_element_def driver_def ex_vehicle_def agent_peek_next_link_id_def pb_peek_next_link_id_def)
   (simp add: ex_defs route_element_at_def list_get_def ex_logic_def pb_state_def)

definition ex_buffered :: sim_network where
  "ex_buffered = ex_snp\<lparr>snp_links := [1 \<mapsto> Local ((ex_l 1 1 2)\<lparr>ll_buffer := [ex_vehicle]\<rparr>), 2 \<mapsto> Local (ex_l 2 2 3)],
     veh_counter := 1, snp_active_links := {1}, snp_active_nodes := {2}\<rparr>"

definition ex_moved :: sim_vehicle where
  "ex_moved = ex_vehicle\<lparr>sv_driver := Some (PlanBased (ex_logic\<lparr>curr_plan_element := 1, curr_route_element := 1\<rparr>))\<rparr>"

lemma ex_notify: "veh_notify_event LeftLink t env ex_vehicle = Some (env, ex_moved)"
  by (simp add: veh_notify_event_def ex_vehicle_def ex_moved_def driver_def pb_notify_event_def) 
   (simp add: ex_logic_def)

lemma ex_moved_curr: "veh_curr_link_id ex_moved = Some (Some 2)"
proof -
  have "pb_curr_leg (ex_logic\<lparr>curr_plan_element := 1, curr_route_element := 1\<rparr>) = Some ex_leg"
    by (simp add: pb_curr_leg_def pb_element_elements ex_plan_elements) (simp add: ex_elements_def list_get_def)
  then show ?thesis
  by (simp add: veh_curr_link_id_def driver_def ex_moved_def ex_vehicle_def agent_curr_link_id_def pb_curr_link_id_def)
   (simp add: ex_defs route_element_at_def list_get_def ex_logic_def pb_state_def)
qed

lemma ex_should:
  assumes "ll_buffer l = [ex_vehicle]" and "links 1 = Some (Local l)" and "links 2 = Some (Local (ex_l 2 2 3))"
    and "ll_flow_cap l = ll_flow_cap ex_local_link" and "ll_stuck_timer l = ll_stuck_timer ex_local_link"
  shows "should_veh_move_out 1 1 links = Some (True, links(1 \<mapsto> Local (l\<lparr>ll_stuck_timer := timer_start 1 (ll_stuck_timer l)\<rparr>)))"
proof -
  have "is_stuck 1 (timer_start 1 (ll_stuck_timer l)) = Some False"
    by (simp add: assms ex_local_link_def timer_start_def timer_new_def is_stuck_def tick_sub_def checked_sub_u64_def)
  moreover have "ll_is_available (ex_l 2 2 3)"
    by (simp add: ex_local_link_def ll_is_available_def storage_is_available_def storage_build_def)
  moreover have "has_capacity_left (ll_flow_cap l)"
    by (simp add: assms ex_local_link_def flowcap_new_def has_capacity_left_def)
  ultimately show ?thesis using assms ex_next
    by (simp add: should_veh_move_out_def ll_offers_veh_def Let_def del: One_nat_def)
qed

lemma ex_empty: "ll_buffer l = [] \<Longrightarrow> links 1 = Some (Local l) \<Longrightarrow> should_veh_move_out 1 1 links = Some (False, links(1 \<mapsto> Local l))"
  by (simp add: should_veh_move_out_def ll_offers_veh_def Let_def)

lemma ex_time1: "tick_to_time 1 1 = Some 1000000000"
  by (simp add: tick_to_time_eq nanos_per_second_def u64_max_def)

lemma ex_move: 
  assumes "links 1 = Some (Local l)" and "links 2 = Some (Local (ex_l 2 2 3))"
  shows "\<exists>env' links' act. move_vehicle ex_vehicle 1 1 env links {1} = Some (env', links', act) \<and> links' 1 = Some (Local l)"
  using assms by (simp add: move_vehicle_def ex_curr ex_time1 ex_notify ex_moved_curr Let_def del: One_nat_def)

lemma ex_move_nodes: "\<exists>env' net'. move_nodes sorted_list_of_set 1 env ex_buffered = Some (env', net')"
proof -
  let ?l = "(ex_l 1 1 2)\<lparr>ll_buffer := [ex_vehicle]\<rparr>"
  let ?l1 = "?l\<lparr>ll_stuck_timer := timer_start 1 (ll_stuck_timer ?l)\<rparr>"
  obtain l2 where pop: "ll_pop_veh ?l1 = (Some ex_vehicle, l2)" and l2: "ll_buffer l2 = []" "capacity_per_tick (ll_flow_cap l2) = 1"
    by (simp add: ll_pop_veh_def ex_local_link_def flow_consume_def flowcap_new_def)
  let ?links = "snp_links ex_buffered"
  have lk: "?links 1 = Some (Local ?l)" "?links 2 = Some (Local (ex_l 2 2 3))" by (simp_all add: ex_buffered_def)
  obtain env' links' act where mv: "move_vehicle ex_vehicle 1 1 env (?links(1 \<mapsto> Local l2)) {1} = Some (env', links', act)" 
      "links' 1 = Some (Local l2)" using ex_move[of "?links(1 \<mapsto> Local l2)" l2 env] lk by auto
  have sm: "should_veh_move_out 1 1 ?links = Some (True, ?links(1 \<mapsto> Local ?l1))"
    using ex_should[of ?l ?links] lk by simp
  have sm2: "should_veh_move_out 1 1 links' = Some (False, links'(1 \<mapsto> Local l2))" using ex_empty[of l2 links', OF l2(1) mv(2)] .
  have c: "sl_flow_cap (Local ?l1) = Some 1" by (simp add: ex_local_link_def flowcap_new_def)
  have g: "get_active_in_links [1] {1} ?links = Some ([1], 1)" using lk by (simp add: get_active_in_links_def ex_local_link_def flowcap_new_def del: One_nat_def)
  have nd: "snp_nodes ex_buffered 2 = Some \<lparr>sn_id = 2, sn_in_links = [1]\<rparr>" "snp_rng ex_buffered 2 = Some (\<lambda>_. 0)"
    "snp_active_links ex_buffered = {1}" "snp_clock ex_buffered = 1"
    by (simp_all add: ex_buffered_def ex_snp_def snp_build_def)
  let ?s = "\<lparr>ns_links = ?links, ns_active_links = {1}, ns_rng = (\<lambda>_. 0), ns_env = env,
            ns_avail = 1, ns_exhausted = [False], ns_sel_cap = 0\<rparr>"
  let ?s1 = "\<lparr>ns_links = links', ns_active_links = act, ns_rng = (\<lambda>_. 0), ns_env = env',
            ns_avail = 1, ns_exhausted = [False], ns_sel_cap = 1\<rparr>"
  let ?s2 = "\<lparr>ns_links = links'(1 \<mapsto> Local l2), ns_active_links = act, ns_rng = (\<lambda>_. 0), ns_env = env',
            ns_avail = 0, ns_exhausted = [True], ns_sel_cap = 1\<rparr>"
  have p1: "node_pass [1] 1 1 ?s = Some ?s1" using sm c pop mv by (simp add: node_pass_def node_inner_def del: One_nat_def)
  have p2: "node_pass [1] 1 1 ?s1 = Some ?s2" using sm2 l2 by (simp add: node_pass_def node_inner_def del: One_nat_def)
  have w: "node_while [1] 1 1 ?s = Some ?s2"
    by (subst node_while.simps) (simp add: p1 p2 node_while.simps[of _ _ _ ?s1] node_while.simps[of _ _ _ ?s2] del: One_nat_def)
  have "any_link_offers [1] (tick_next 1) (ns_links ?s2) = Some (False, links'(1 \<mapsto> Local l2))"
    using l2 by (simp add: ll_offers_veh_def del: One_nat_def)
  then have "\<exists>net'. move_node_capacity_priority 2 1 (env, ex_buffered) = Some (False, env', net')"
    using w g nd by (simp add: move_node_capacity_priority_def del: One_nat_def any_link_offers.simps)
  then show ?thesis by (auto simp: move_nodes_def move_one_node_def ex_buffered_def)
qed

theorem move_nodes_conserves_vehicles_witness:
  "\<exists>env' net'. move_nodes sorted_list_of_set 1 (env_new 0 0 Map.empty) ex_buffered = Some (env', net') \<and>
     net_tokens net' = net_tokens ex_buffered \<and> veh_counter net' = 1"
proof -
  obtain env' net' where run: "move_nodes sorted_list_of_set 1 (env_new 0 0 Map.empty) ex_buffered = Some (env', net')"
    using ex_move_nodes by blast
  have "finite (dom (snp_links ex_buffered))" by (simp add: ex_buffered_def)
  then show ?thesis
    using run move_nodes_conserves_vehicles[OF _ run] by (simp add: ex_buffered_def)
qed

theorem network_bookkeeping_witness:
  "\<exists>env' net'. from_network sorted_list_of_set ex_net 0 ex_config (\<lambda>_ _. 0) = Some ex_snp \<and>
     foldM (snp_step sorted_list_of_set sorted_list_of_set) [Send ex_vehicle True 0, Links 0]
       (env_new 0 0 Map.empty, ex_snp) = Some (env', net') \<and> veh_counter net' = size (net_tokens net')"
proof -
  obtain res env' net' where "move_links sorted_list_of_set 0 (env_new 0 0 Map.empty) ex_waiting = Some (res, env', net')"
    using ex_move_links by blast
  then have run: "foldM (snp_step sorted_list_of_set sorted_list_of_set) [Send ex_vehicle True 0, Links 0]
       (env_new 0 0 Map.empty, ex_snp) = Some (env', net')"
    by (simp add: ex_send)
  then show ?thesis using ex_from network_bookkeeping[OF ex_from run] by blast
qed

end
