(* ===== verification/Node_Loop.thy ===== *)
theory Node_Loop
  imports Sim_Network
begin

text \<open>
  The loop of \<open>SimNetworkPartition::move_node_capacity_priority\<close> (\<open>network/sim_network.rs\<close>) ends,
  also with the rounding of \<open>f64\<close>. A pass over the in links moves a vehicle, finds an in link
  exhausted, or does neither. In the last case some link is exhausted already: otherwise the
  selected capacities would have been summed up to the available capacity, by the same additions in
  the same order. What is left of the available capacity may then be a rounding error, which no
  link takes away; but the pass subtracts \<open>1e-6\<close> for every exhausted link, and this subtraction is
  not lost in the rounding as long as the capacity is at most \<open>2 ^ 34\<close>.
\<close>

section \<open>Running the loop with a number of rounds\<close>

fun node_rounds :: "link_id list \<Rightarrow> sim_clock \<Rightarrow> tick \<Rightarrow> nat \<Rightarrow> node_state \<Rightarrow> node_state option" where
  "node_rounds active clock now 0 s = Some s"
| "node_rounds active clock now (Suc k) s =
     (if 1 / 10000000000 < ns_avail s
      then do { s \<leftarrow> node_pass active clock now s; node_rounds active clock now k s }
      else Some s)"

lemma node_rounds_while:
  assumes "node_rounds active clock now k s = Some s'" and "\<not> 1 / 10000000000 < ns_avail s'"
  shows "node_while active clock now s = Some s'"
  using assms
proof (induction k arbitrary: s)
  case 0
  then show ?case by (simp add: node_while.simps[of _ _ _ s'])
next
  case (Suc k)
  then show ?case by (subst node_while.simps) (auto split: if_splits)
qed

section \<open>What a round decreases\<close>

fun sl_buffered :: "sim_link \<Rightarrow> nat" where
  "sl_buffered (Local l) = length (ll_buffer l)"
| "sl_buffered (In l) = length (ll_buffer (il_local_link l))"
| "sl_buffered (Out l) = 0"

abbreviation links_buffered :: "(link_id \<rightharpoonup> sim_link) \<Rightarrow> nat" where
  "links_buffered links \<equiv> map_sum sl_buffered links"

lemma sl_buffered_offer: "sl_offers_veh now l = Some (r, l') \<Longrightarrow> sl_buffered l' = sl_buffered l"
  by (cases l) (auto split: prod.splits dest: ll_offers_frame)

lemma sl_buffered_push: "sl_push_veh v QStart now l = Some l' \<Longrightarrow> sl_buffered l' = sl_buffered l"
  by (cases l) (auto simp: push_veh_to_queue_def Let_def)

lemma sl_buffered_pop: "sl_pop_veh l = Some (Some v, l') \<Longrightarrow> sl_buffered l = Suc (sl_buffered l')"
  by (cases l) (auto simp: ll_pop_Some split: prod.splits)

text \<open>The capacity of a link, and the sum of those that are not exhausted.\<close>

definition cap_of :: "(link_id \<rightharpoonup> nat \<times> link_id \<times> (node_id \<times> sim_clock \<times> f64) option) \<Rightarrow> link_id \<Rightarrow> f64" where
  "cap_of st i = (case st i of Some (_, _, Some (_, _, c)) \<Rightarrow> c | _ \<Rightarrow> 0)"

lemma cap_of_link: "links i = Some l \<Longrightarrow> sl_flow_cap l = Some c \<Longrightarrow> cap_of (links_static links) i = c"
  by (cases l) (auto simp: cap_of_def links_static_def)

definition cap_sum :: "(link_id \<Rightarrow> f64) \<Rightarrow> link_id list \<Rightarrow> f64 \<Rightarrow> f64" where
  "cap_sum c is acc = fold (\<lambda>i acc. round_f64 (acc + c i)) is acc"

lemma cap_sum_simps [simp]: "cap_sum c [] acc = acc" "cap_sum c (i # is) acc = cap_sum c is (round_f64 (acc + c i))"
  by (simp_all add: cap_sum_def)

lemma cap_sum_mono: "acc \<le> acc' \<Longrightarrow> cap_sum c is acc \<le> cap_sum c is acc'"
  by (induction "is" arbitrary: acc acc') (simp_all add: round_f64_mono)

lemma cap_sum_rounded: "round_f64 acc = acc \<Longrightarrow> round_f64 (cap_sum c is acc) = cap_sum c is acc"
  by (induction "is" arbitrary: acc) simp_all

section \<open>What is subtracted for an exhausted link\<close>

definition step_down :: f64 where
  "step_down = 1 / 1000000 - 2 powi (- 20)"

lemma step_down_pos: "0 < step_down"
  by (simp add: step_down_def power_int_minus)

lemma decrement_counts:
  assumes "0 < a" and "a \<le> 2 ^ 34"
  shows "round_f64 (a - 1 / 1000000) \<le> a - step_down"
proof -
  have "\<bar>a - 1 / 1000000\<bar> < 2 powi 34" using assms by (simp add: abs_less_iff)
  then have "\<bar>round_f64 (a - 1 / 1000000) - (a - 1 / 1000000)\<bar> \<le> 2 powi (34 - 54)" by (rule round_f64_error) simp
  moreover have "2 powi (34 - 54) = (2 powi (- 20) :: f64)" by simp
  ultimately show ?thesis
    using abs_ge_self[of "round_f64 (a - 1 / 1000000) - (a - 1 / 1000000)"] unfolding step_down_def by linarith
qed

definition open_links :: "bool list \<Rightarrow> nat" where
  "open_links ex = length (filter Not ex)"

lemma open_links_close:
  assumes "i < length ex" and "\<not> ex ! i"
  shows "open_links ex = Suc (open_links (ex[i := True]))"
proof -
  let ?n = "\<lambda>b. open_links (take i ex @ b # drop (Suc i) ex)"
  have "take i ex @ False # drop (Suc i) ex = ex" using assms id_take_nth_drop[of i ex] by simp
  then have ex: "?n False = open_links ex" by (rule arg_cong)
  have "ex[i := True] = take i ex @ True # drop (Suc i) ex" using assms(1) by (rule upd_conv_take_nth_drop)
  then have "open_links (ex[i := True]) = ?n True" by (rule arg_cong)
  moreover have "?n False = Suc (?n True)" by (simp add: open_links_def)
  ultimately show ?thesis by (simp only: ex[symmetric])
qed

section \<open>The invariant of the loop and the progress of a round\<close>

text \<open>As long as no link is exhausted, the available capacity is the sum it was at the start.\<close>

definition loop_inv :: "(link_id \<rightharpoonup> nat \<times> link_id \<times> (node_id \<times> sim_clock \<times> f64) option) \<Rightarrow> link_id list \<Rightarrow> node_state \<Rightarrow> bool" where
  "loop_inv st active s \<longleftrightarrow> finite (dom (ns_links s)) \<and> links_static (ns_links s) = st \<and>
     length (ns_exhausted s) = length active \<and> (\<forall>k. ns_rng s k \<le> 1) \<and> (\<forall>i. 0 \<le> cap_of st i) \<and>
     ns_avail s \<le> 2 ^ 34 \<and> round_f64 (ns_avail s) = ns_avail s \<and> 0 \<le> ns_sel_cap s \<and>
     ((\<forall>i<length active. \<not> ns_exhausted s ! i) \<longrightarrow> ns_avail s = cap_sum (cap_of st) active 0)"

text \<open>A vehicle has been moved or a link closed.\<close>

definition shrinks :: "node_state \<Rightarrow> node_state \<Rightarrow> bool" where
  "shrinks s s' \<longleftrightarrow> links_buffered (ns_links s') < links_buffered (ns_links s) \<or>
     links_buffered (ns_links s') = links_buffered (ns_links s) \<and>
     open_links (ns_exhausted s') < open_links (ns_exhausted s)"

text \<open>
  Nothing has been moved or closed for the in links with indices \<open>js\<close>: the available capacity is
  reduced if one of them is exhausted, otherwise all of them have been selected.
\<close>

definition waits :: "(link_id \<Rightarrow> f64) \<Rightarrow> link_id list \<Rightarrow> f64 \<Rightarrow> nat list \<Rightarrow> node_state \<Rightarrow> node_state \<Rightarrow> bool" where
  "waits c active rnd js s s' \<longleftrightarrow> links_buffered (ns_links s') = links_buffered (ns_links s) \<and>
     ns_exhausted s' = ns_exhausted s \<and> ns_avail s' \<le> ns_avail s \<and>
     (if \<exists>j\<in>set js. ns_exhausted s ! j then ns_avail s' \<le> round_f64 (ns_avail s - 1 / 1000000)
      else ns_avail s' = ns_avail s \<and> ns_sel_cap s' = cap_sum c (map (\<lambda>j. active ! j) js) (ns_sel_cap s) \<and>
        (js \<noteq> [] \<longrightarrow> ns_sel_cap s' < rnd))"

lemma should_move_buffered:
  assumes "finite (dom links)" and "should_veh_move_out i now links = Some (b, links')"
  shows "links_buffered links' = links_buffered links \<and> links_static links' = links_static links \<and> finite (dom links')"
  by (rule should_move_cases[OF assms(2)])
     (use assms(1) map_sum_upd_same[OF assms(1)] links_static_upd sl_offers_static in \<open>auto dest!: sl_buffered_offer\<close>)

lemma move_vehicle_buffered:
  assumes "finite (dom links)" and "move_vehicle v clock now env links active = Some (env', links', active')"
  shows "links_buffered links' = links_buffered links \<and> finite (dom links')"
proof -
  obtain v' new_id l l' where "links new_id = Some l" "sl_push_veh v' QStart now l = Some l'" "links' = links(new_id \<mapsto> l')"
    by (rule move_vehicle_cases[OF assms(2)])
  then show ?thesis using map_sum_upd_same[OF assms(1), of new_id l sl_buffered l'] sl_buffered_push assms(1) by auto
qed

lemma pop_and_move_buffered:
  assumes fin: "finite (dom links)" and l: "links j = Some l" and pop: "sl_pop_veh l = Some (Some v, l')"
    and mv: "move_vehicle v clock now env (links(j \<mapsto> l')) act = Some (env', links', act')"
  shows "links_buffered links = Suc (links_buffered links') \<and> links_static links' = links_static links \<and> finite (dom links')"
proof -
  have fin': "finite (dom (links(j \<mapsto> l')))" using fin by simp
  have "links_buffered (links(j \<mapsto> l')) + sl_buffered l = links_buffered links + sl_buffered l'"
    using map_sum_upd[OF fin l, of sl_buffered l'] .
  then show ?thesis
    using sl_buffered_pop[OF pop] move_vehicle_buffered[OF fin' mv] move_vehicle_tokens[OF fin' mv]
      links_static_upd[of links, OF l sl_pop_static[OF pop]]
    by simp
qed

lemma node_inner_progress:
  assumes inv: "loop_inv st active s" and i: "i < length active" and step: "node_inner active clock now rnd i s = Some s'"
  shows "loop_inv st active s' \<and> (shrinks s s' \<or> waits (cap_of st) active rnd [i] s s')"
  using step
proof (cases rule: node_inner_cases)
  case exhausted
  have "round_f64 (ns_avail s - 1 / 1000000) \<le> ns_avail s"
    using round_f64_mono[of "ns_avail s - 1 / 1000000" "ns_avail s"] inv by (simp add: loop_inv_def)
  then show ?thesis using inv exhausted i by (auto simp: loop_inv_def waits_def)
next
  case (blocked links l cap)
  have b: "links_buffered links = links_buffered (ns_links s)" "links_static links = st" "finite (dom links)"
    using should_move_buffered[OF _ blocked(2)] inv by (auto simp: loop_inv_def)
  have "cap_of st (active ! i) = cap" using cap_of_link[where links = links and i = "active ! i" and l = l and c = cap] blocked(3,4) b(2) by simp
  then have "round_f64 (ns_avail s - cap) \<le> ns_avail s"
    using round_f64_mono[of "ns_avail s - cap" "ns_avail s"] inv by (auto simp: loop_inv_def)
  moreover have "open_links (ns_exhausted s) = Suc (open_links ((ns_exhausted s)[i := True]))"
    using open_links_close[of i "ns_exhausted s"] blocked(1) i inv by (auto simp: loop_inv_def)
  ultimately show ?thesis using inv b i blocked(5) by (auto simp: loop_inv_def shrinks_def)
next
  case (selected links l cap)
  have b: "links_buffered links = links_buffered (ns_links s)" "links_static links = st" "finite (dom links)"
    using should_move_buffered[OF _ selected(2)] inv by (auto simp: loop_inv_def)
  have c: "cap_of st (active ! i) = cap" using cap_of_link[where links = links and i = "active ! i" and l = l and c = cap] selected(3,4) b(2) by simp
  then have "0 \<le> ns_sel_cap s + cap" using inv by (auto simp: loop_inv_def)
  then show ?thesis using inv b c selected(1,5,6) round_f64_nonneg by (auto simp: loop_inv_def waits_def)
next
  case (moved links l cap v l' env links' act)
  have b: "links_buffered links = links_buffered (ns_links s)" "links_static links = st" "finite (dom links)"
    using should_move_buffered[OF _ moved(2)] inv by (auto simp: loop_inv_def)
  have "cap_of st (active ! i) = cap" using cap_of_link[where links = links and i = "active ! i" and l = l and c = cap] moved(3,4) b(2) by simp
  then have "0 \<le> round_f64 (ns_sel_cap s + cap)" using inv by (intro round_f64_nonneg) (auto simp: loop_inv_def)
  moreover have "links_buffered links = Suc (links_buffered links')" "links_static links' = st" "finite (dom links')"
    using pop_and_move_buffered[OF b(3) moved(3,5,6)] b(2) by auto
  ultimately show ?thesis using inv b moved(7) by (auto simp: loop_inv_def shrinks_def)
qed

lemma shrinks_trans_waits:
  "waits c active rnd js s t \<Longrightarrow> shrinks t u \<Longrightarrow> shrinks s u"
  "shrinks s t \<Longrightarrow> waits c active rnd js t u \<Longrightarrow> shrinks s u"
  "shrinks s t \<Longrightarrow> shrinks t u \<Longrightarrow> shrinks s u"
  by (auto simp: waits_def shrinks_def)

lemma waits_Cons:
  assumes "waits c active rnd [j] s t" and "waits c active rnd js t u"
  shows "waits c active rnd (j # js) s u"
  using assms unfolding waits_def by (auto split: if_splits)

lemma inner_loop_progress:
  assumes "foldM (node_inner active clock now rnd) js s = Some s'" and "loop_inv st active s"
    and "\<forall>j\<in>set js. j < length active"
  shows "loop_inv st active s' \<and> (shrinks s s' \<or> waits (cap_of st) active rnd js s s')"
  using assms
proof (induction js arbitrary: s)
  case Nil
  then show ?case by (auto simp: waits_def)
next
  case (Cons j js)
  then obtain t where t: "node_inner active clock now rnd j s = Some t" "foldM (node_inner active clock now rnd) js t = Some s'"
    by auto
  have one: "loop_inv st active t" "shrinks s t \<or> waits (cap_of st) active rnd [j] s t"
    using node_inner_progress[OF Cons.prems(2) _ t(1)] Cons.prems(3) by auto
  have more: "loop_inv st active s'" "shrinks t s' \<or> waits (cap_of st) active rnd js t s'"
    using Cons.IH[OF t(2) one(1)] Cons.prems(3) by auto
  then show ?case using one(2) waits_Cons shrinks_trans_waits by metis
qed

text \<open>One round: the pair of counters shrinks, or the available capacity decreases.\<close>

lemma node_pass_progress:
  assumes pass: "node_pass active clock now s = Some s'" and inv: "loop_inv st active s" and avail: "0 < ns_avail s"
  shows "loop_inv st active s' \<and>
    (shrinks s s' \<or> links_buffered (ns_links s') = links_buffered (ns_links s) \<and>
       ns_exhausted s' = ns_exhausted s \<and> ns_avail s' \<le> ns_avail s - step_down)"
proof -
  let ?c = "cap_of st" and ?rnd = "round_f64 (ns_rng s 0 * ns_avail s)" and ?s = "s\<lparr>ns_rng := \<lambda>k. ns_rng s (Suc k)\<rparr>"
  have "loop_inv st active ?s" using inv by (simp add: loop_inv_def)
  then have p: "loop_inv st active s'" "shrinks ?s s' \<or> waits ?c active ?rnd [0..<length active] ?s s'"
    using inner_loop_progress[OF pass[unfolded node_pass_def Let_def]] by auto
  have "ns_avail s' \<le> ns_avail s - step_down" if w: "waits ?c active ?rnd [0..<length active] ?s s'"
  proof (cases "\<exists>j\<in>set [0..<length active]. ns_exhausted s ! j")
    case True
    then have "ns_avail s' \<le> round_f64 (ns_avail s - 1 / 1000000)" using w by (auto simp: waits_def)
    also have "\<dots> \<le> ns_avail s - step_down" using inv avail by (intro decrement_counts) (auto simp: loop_inv_def)
    finally show ?thesis .
  next
    case False
    then have sum: "ns_avail s = cap_sum ?c active 0" using inv by (auto simp: loop_inv_def)
    with avail have "active \<noteq> []" by auto
    with w False have "ns_sel_cap s' = cap_sum ?c active (ns_sel_cap s)" "ns_sel_cap s' < ?rnd"
      by (auto simp: waits_def map_nth)
    moreover have "?rnd \<le> round_f64 (ns_avail s)"
      using inv avail by (intro round_f64_mono) (simp add: loop_inv_def mult_le_cancel_right1)
    moreover have "cap_sum ?c active 0 \<le> cap_sum ?c active (ns_sel_cap s)"
      using inv by (intro cap_sum_mono) (simp add: loop_inv_def)
    ultimately show ?thesis using inv sum by (simp add: loop_inv_def)
  qed
  then show ?thesis using p by (auto simp: waits_def shrinks_def)
qed

section \<open>Termination\<close>

definition loop_order :: "(node_state \<times> node_state) set" where
  "loop_order = inv_image (less_than <*lex*> less_than <*lex*> less_than)
     (\<lambda>s. (links_buffered (ns_links s), open_links (ns_exhausted s), nat \<lceil>ns_avail s / step_down\<rceil>))"

lemma wf_loop_order: "wf loop_order"
  by (simp add: loop_order_def wf_lex_prod)

lemma less_available:
  assumes "0 < a" and "b \<le> a - step_down"
  shows "nat \<lceil>b / step_down\<rceil> < nat \<lceil>a / step_down\<rceil>"
proof -
  have "b / step_down \<le> a / step_down - 1"
    using divide_right_mono[OF assms(2), of step_down] step_down_pos by (simp add: diff_divide_distrib)
  then have "\<lceil>b / step_down\<rceil> \<le> \<lceil>a / step_down\<rceil> - 1"
    by (metis ceiling_diff_one ceiling_mono)
  moreover have "0 < \<lceil>a / step_down\<rceil>" using assms(1) step_down_pos by simp
  ultimately show ?thesis by linarith
qed

lemma node_while_ends:
  assumes "loop_inv st active s"
  shows "\<exists>k. case node_rounds active clock now k s of None \<Rightarrow> True | Some s' \<Rightarrow> ns_avail s' \<le> 1 / 10000000000"
  using assms
proof (induction s rule: wf_induct_rule[OF wf_loop_order])
  case (1 s)
  show ?case
  proof (cases "1 / 10000000000 < ns_avail s")
    case False
    then show ?thesis by (intro exI[of _ 0]) simp
  next
    case True
    show ?thesis
    proof (cases "node_pass active clock now s")
      case None
      then show ?thesis using True by (intro exI[of _ "Suc 0"]) simp
    next
      case (Some t)
      have pos: "0 < ns_avail s" using True by (auto intro: less_trans)
      from node_pass_progress[OF Some "1.prems" pos]
      have t: "loop_inv st active t" and "(t, s) \<in> loop_order"
        using less_available[OF pos] by (auto simp: loop_order_def shrinks_def)
      from "1.IH"[OF this(2,1)] obtain k where
        "case node_rounds active clock now k t of None \<Rightarrow> True | Some s' \<Rightarrow> ns_avail s' \<le> 1 / 10000000000" by blast
      then show ?thesis using True Some by (intro exI[of _ "Suc k"]) simp
    qed
  qed
qed

section \<open>The loop of a node\<close>

definition node_start :: "env \<Rightarrow> sim_network \<Rightarrow> (nat \<Rightarrow> f64) \<Rightarrow> link_id list \<Rightarrow> f64 \<Rightarrow> node_state" where
  "node_start env net rng active avail =
     \<lparr>ns_links = snp_links net, ns_active_links = snp_active_links net, ns_rng = rng, ns_env = env,
      ns_avail = avail, ns_exhausted = replicate (length active) False, ns_sel_cap = 0\<rparr>"

lemma active_in_links_caps:
  assumes "foldM (\<lambda>i (ids, acc). if i \<in> act then do { link \<leftarrow> links i; cap \<leftarrow> sl_flow_cap link; Some (ids @ [i], round_f64 (acc + cap)) }
                       else Some (ids, acc)) ins (ids0, acc0) = Some (active, avail)"
    and "acc0 = cap_sum (cap_of (links_static links)) ids0 0"
  shows "avail = cap_sum (cap_of (links_static links)) active 0"
  using assms
proof (induction ins arbitrary: ids0 acc0)
  case (Cons i ins)
  show ?case
  proof (cases "i \<in> act")
    case True
    then obtain l c where lc: "links i = Some l" "sl_flow_cap l = Some c" using Cons.prems(1) by auto
    have "cap_of (links_static links) i = c" using cap_of_link[of links i l c] lc by simp
    then show ?thesis using Cons.prems True lc by (intro Cons.IH[of "ids0 @ [i]" "round_f64 (acc0 + c)"]) (auto simp: cap_sum_def)
  qed (use Cons in auto)
qed auto

lemma cap_of_nonneg:
  assumes "\<forall>i l c. links i = Some l \<longrightarrow> sl_flow_cap l = Some c \<longrightarrow> 0 \<le> c"
  shows "0 \<le> cap_of (links_static links) i"
proof (cases "links i")
  case (Some l)
  show ?thesis
  proof (cases "sl_flow_cap l")
    case None
    then show ?thesis using Some by (cases l) (auto simp: cap_of_def links_static_def)
  qed (use assms Some cap_of_link[of links i l] in auto)
qed (simp add: cap_of_def links_static_def)

text \<open>
  C13. The loop of \<open>move_node_capacity_priority\<close> does not go on forever, although every addition,
  subtraction and multiplication is rounded to \<open>f64\<close> and the capacities that are taken away may
  leave a rounding error: after finitely many rounds it has panicked or the function that follows it
  gets the state with which it ends. The random numbers are at most one, no link has a negative
  capacity, and the in links together have a capacity of at most \<open>2 ^ 34\<close> in a tick, so that
  subtracting \<open>1e-6\<close> is not lost in the rounding.
\<close>

theorem node_loop_ends:
  assumes "get_active_in_links ins (snp_active_links net) (snp_links net) = Some (active, avail)"
    and "finite (dom (snp_links net))"
    and "\<forall>i l c. snp_links net i = Some l \<longrightarrow> sl_flow_cap l = Some c \<longrightarrow> 0 \<le> c"
    and "\<forall>k. rng k \<le> 1" and "avail \<le> 2 ^ 34"
  shows "\<exists>k. node_rounds active clock now k (node_start env net rng active avail) = None \<or>
    (\<exists>s. node_rounds active clock now k (node_start env net rng active avail) = Some s \<and>
       ns_avail s \<le> 1 / 10000000000 \<and>
       node_while active clock now (node_start env net rng active avail) = Some s)"
proof -
  let ?s = "node_start env net rng active avail" and ?st = "links_static (snp_links net)"
  have "avail = cap_sum (cap_of ?st) active 0"
    using active_in_links_caps assms(1)[unfolded get_active_in_links_def] by fastforce
  then have "loop_inv ?st active ?s"
    using assms(2,4,5) cap_of_nonneg[OF assms(3)] cap_sum_rounded[of 0]
    by (simp add: loop_inv_def node_start_def)
  then obtain k where
    "case node_rounds active clock now k ?s of None \<Rightarrow> True | Some s' \<Rightarrow> ns_avail s' \<le> 1 / 10000000000"
    using node_while_ends by metis
  then show ?thesis
    using node_rounds_while[of active clock now k ?s] by (intro exI[of _ k]) (auto split: option.splits)
qed

lemma ex_active_in_links: "get_active_in_links [1] (snp_active_links ex_buffered) (snp_links ex_buffered) = Some ([1], 1)"
  by (simp add: ex_buffered_def ex_snp_def snp_build_def get_active_in_links_def ex_local_link_def flowcap_new_def
      del: One_nat_def)

theorem node_loop_ends_witness:
  "\<exists>k. node_rounds [1] 1 1 k (node_start (env_new 0 0 Map.empty) ex_buffered (\<lambda>_. 1 / 2) [1] 1) = None \<or>
    (\<exists>s. node_rounds [1] 1 1 k (node_start (env_new 0 0 Map.empty) ex_buffered (\<lambda>_. 1 / 2) [1] 1) = Some s \<and>
       ns_avail s \<le> 1 / 10000000000 \<and>
       node_while [1] 1 1 (node_start (env_new 0 0 Map.empty) ex_buffered (\<lambda>_. 1 / 2) [1] 1) = Some s)"
proof (rule node_loop_ends[OF ex_active_in_links])
  show "finite (dom (snp_links ex_buffered))" by (simp add: ex_buffered_def)
  show "\<forall>i l c. snp_links ex_buffered i = Some l \<longrightarrow> sl_flow_cap l = Some c \<longrightarrow> 0 \<le> c"
    by (auto simp: ex_buffered_def ex_snp_def snp_build_def ex_local_link_def flowcap_new_def split: if_splits)
qed simp_all

end
