(* ===== verification/Broker.thy ===== *)
theory Broker
  imports Sim_Network Bin_Heap
begin

text \<open>
  Messages between partitions (\<open>messaging/messages.rs\<close>) and the broker that collects what a
  partition sends in a tick, exchanges it with its neighbours and keeps messages that arrive
  too early (\<open>messaging/sim_communication/message_broker.rs\<close>,
  \<open>messaging/sim_communication/local_communicator.rs\<close>).

  The mpsc channel of a partition is the list of the messages in it, oldest first.
  \<open>receive_messages\<close> is the receiving loop on the messages that the channel will yield; where
  they run out while messages are still expected the real loop blocks, and the value is
  \<open>None\<close>. Theory \<open>Cluster\<close> runs the same pieces concurrently.
\<close>

section \<open>Messages\<close>

record sync_message =
  sm_time :: tick
  sm_from :: part_id
  sm_to :: part_id
  sm_vehicles :: "sim_vehicle list"
  sm_storage :: "storage_update list"

definition msg_new :: "tick \<Rightarrow> part_id \<Rightarrow> part_id \<Rightarrow> sync_message" where
  "msg_new time from_part to_part =
     \<lparr>sm_time = time, sm_from = from_part, sm_to = to_part, sm_vehicles = [], sm_storage = []\<rparr>"

definition msg_add_veh :: "sim_vehicle \<Rightarrow> sync_message \<Rightarrow> sync_message" where
  "msg_add_veh v m = m\<lparr>sm_vehicles := sm_vehicles m @ [v]\<rparr>"

definition msg_add_storage_cap :: "storage_update \<Rightarrow> sync_message \<Rightarrow> sync_message" where
  "msg_add_storage_cap cap m = m\<lparr>sm_storage := sm_storage m @ [cap]\<rparr>"

text \<open>\<open>Ord for InternalSyncMessage\<close>: reversed, so that the earliest message is on top of the heap.\<close>

definition msg_le :: "sync_message \<Rightarrow> sync_message \<Rightarrow> bool" where
  "msg_le self other \<longleftrightarrow> sm_time other \<le> sm_time self"

section \<open>The broker\<close>

record net_broker =
  nb_rank :: part_id
  nb_out :: "part_id \<rightharpoonup> sync_message"
  nb_in :: "sync_message heap"
  nb_link_mapping :: "link_id \<rightharpoonup> part_id"
  nb_neighbors :: "part_id set"
  nb_global_sync :: bool

definition nb_new :: "part_id \<Rightarrow> network \<Rightarrow> sim_network \<Rightarrow> bool \<Rightarrow> net_broker" where
  "nb_new rank net snp global_sync = \<lparr>nb_rank = rank, nb_out = Map.empty, nb_in = [],
     nb_link_mapping = (\<lambda>l. map_option link_partition (net_links net l)),
     nb_neighbors = neighbors snp, nb_global_sync = global_sync\<rparr>"

definition rank_for_link :: "net_broker \<Rightarrow> link_id \<Rightarrow> part_id option" where
  "rank_for_link b l = nb_link_mapping b l"

text \<open>\<open>out_messages.entry(part).or_insert_with(..)\<close> followed by an update of the message.\<close>

definition with_out :: "part_id \<Rightarrow> tick \<Rightarrow> (sync_message \<Rightarrow> sync_message) \<Rightarrow> net_broker \<Rightarrow> net_broker" where
  "with_out part now f b =
     (let m = (case nb_out b part of Some m \<Rightarrow> m | None \<Rightarrow> msg_new now (nb_rank b) part)
      in b\<lparr>nb_out := (nb_out b)(part \<mapsto> f m)\<rparr>)"

definition nb_add_veh :: "sim_vehicle \<Rightarrow> tick \<Rightarrow> net_broker \<Rightarrow> net_broker option" where
  "nb_add_veh v now b = do {
     l \<leftarrow> veh_curr_link_id v;
     l \<leftarrow> l;
     part \<leftarrow> nb_link_mapping b l;
     Some (with_out part now (msg_add_veh v) b) }"

definition nb_add_cap_update :: "storage_update \<Rightarrow> tick \<Rightarrow> net_broker \<Rightarrow> net_broker" where
  "nb_add_cap_update cap now b =
     with_out (su_from_part cap) now
       (msg_add_storage_cap \<lparr>su_link_id = su_link_id cap, su_from_part = nb_rank b, su_released = su_released cap\<rparr>) b"

definition prepare_send_recv_vehicles :: "tick \<Rightarrow> net_broker \<Rightarrow> (part_id \<rightharpoonup> sync_message) \<times> net_broker" where
  "prepare_send_recv_vehicles now b =
     ((\<lambda>p. case nb_out b p of
             Some m \<Rightarrow> Some m
           | None \<Rightarrow> if p \<in> nb_neighbors b then Some (msg_new now (nb_rank b) p) else None),
      b\<lparr>nb_out := Map.empty\<rparr>)"

function pop_from_cache :: "tick \<Rightarrow> sync_message heap \<Rightarrow> part_id set \<Rightarrow> sync_message list \<times> part_id set \<times> sync_message heap" where
  "pop_from_cache now h expected =
     (case heap_pop msg_le h of
        None \<Rightarrow> ([], expected, h)
      | Some (m, h') \<Rightarrow>
          if sm_time m \<le> now
          then (let (ms, ex, h'') = pop_from_cache now h' (expected - {sm_from m}) in (m # ms, ex, h''))
          else ([], expected, h))"
  by pat_completeness auto
termination
  by (relation "measure (\<lambda>(now, h, ex). length h)") (auto dest!: heap_pop_length)

declare pop_from_cache.simps [simp del]

definition handle_incoming_msg :: "tick \<Rightarrow> sync_message \<Rightarrow> sync_message list \<times> sync_message heap \<Rightarrow>
    sync_message list \<times> sync_message heap" where
  "handle_incoming_msg now m s = (case s of (result, h) \<Rightarrow>
     if sm_time m \<le> now then (result @ [m], h) else (result, heap_push msg_le m h))"

text \<open>One round of the receiving loop.\<close>

definition receive_one :: "tick \<Rightarrow> sync_message \<Rightarrow> part_id set \<times> sync_message list \<times> sync_message heap \<Rightarrow>
    part_id set \<times> sync_message list \<times> sync_message heap" where
  "receive_one now m s = (case s of (expected, rh) \<Rightarrow>
     (if sm_time m = now then expected - {sm_from m} else expected, handle_incoming_msg now m rh))"

fun receive_messages :: "tick \<Rightarrow> sync_message list \<Rightarrow> part_id set \<times> sync_message list \<times> sync_message heap \<Rightarrow>
    (sync_message list \<times> sync_message heap \<times> sync_message list) option" where
  "receive_messages now [] (expected, result, h) = (if expected = {} then Some (result, h, []) else None)"
| "receive_messages now (m # ch) (expected, result, h) =
     (if expected = {} then Some (result, h, m # ch)
      else receive_messages now ch (receive_one now m (expected, result, h)))"

text \<open>
  \<open>send_recv\<close>: the messages sent, the messages received, the broker and the rest of the
  channel. \<open>incoming\<close> is what the channel yields. The barrier of global synchronisation only
  delays and is part of theory \<open>Cluster\<close>.
\<close>

definition send_recv :: "(part_id set \<Rightarrow> part_id list) \<Rightarrow> tick \<Rightarrow> sync_message list \<Rightarrow> net_broker \<Rightarrow>
    ((part_id \<times> sync_message) list \<times> sync_message list \<times> net_broker \<times> sync_message list) option" where
  "send_recv ord now incoming b =
     (let (msgs, b) = prepare_send_recv_vehicles now b;
          (cached, expected, h) = pop_from_cache now (nb_in b) (nb_neighbors b)
      in do {
        (result, h, rest) \<leftarrow> receive_messages now incoming (expected, cached, h);
        Some (map (\<lambda>p. (p, the (msgs p))) (ord (dom msgs)), result, b\<lparr>nb_in := h\<rparr>, rest) })"

section \<open>Laws of the broker\<close>

interpretation msg_heap: total_preorder msg_le
  by unfold_locales (auto simp: msg_le_def)

lemma msg_sel [simp]:
  "sm_time (msg_new t f p) = t" "sm_from (msg_new t f p) = f" "sm_to (msg_new t f p) = p" "sm_vehicles (msg_new t f p) = []"
  "sm_time (msg_add_veh v m) = sm_time m" "sm_from (msg_add_veh v m) = sm_from m" "sm_to (msg_add_veh v m) = sm_to m"
  "sm_vehicles (msg_add_veh v m) = sm_vehicles m @ [v]"
  "sm_time (msg_add_storage_cap c m) = sm_time m" "sm_from (msg_add_storage_cap c m) = sm_from m"
  "sm_to (msg_add_storage_cap c m) = sm_to m" "sm_vehicles (msg_add_storage_cap c m) = sm_vehicles m"
  by (simp_all add: msg_new_def msg_add_veh_def msg_add_storage_cap_def)

text \<open>What the cache hands out: exactly the messages that are due.\<close>

lemma pop_from_cache_spec:
  assumes "heap_inv msg_le h" and "pop_from_cache now h expected = (ms, ex, h')"
  shows "mset h = mset ms + mset h' \<and> heap_inv msg_le h' \<and> (\<forall>m \<in> set ms. sm_time m \<le> now) \<and>
    (\<forall>m \<in> set h'. now < sm_time m) \<and> ex = expected - sm_from ` set ms"
  using assms
proof (induction now h expected arbitrary: ms ex h' rule: pop_from_cache.induct)
  case (1 now h expected)
  show ?case
  proof (cases "heap_pop msg_le h")
    case None
    then have "ms = [] \<and> ex = expected \<and> h' = h" using "1.prems"(2) by (simp add: pop_from_cache.simps[of now h])
    moreover have "h = []" using None msg_heap.pop_None[OF "1.prems"(1)] by simp
    ultimately show ?thesis using "1.prems"(1) by simp
  next
    case (Some r)
    obtain m h1 where pop: "heap_pop msg_le h = Some (m, h1)" using Some by (cases r) auto
    note law = msg_heap.pop_Some[OF "1.prems"(1) pop] msg_heap.pop_greatest[OF "1.prems"(1) pop]
    show ?thesis
    proof (cases "sm_time m \<le> now")
      case True
      obtain ms1 ex1 h2 where rec: "pop_from_cache now h1 (expected - {sm_from m}) = (ms1, ex1, h2)"
        by (metis prod_cases3)
      have "ms = m # ms1" "ex = ex1" "h' = h2"
        using "1.prems"(2) pop True rec by (simp_all add: pop_from_cache.simps[of now h])
      then show ?thesis using "1.IH"[OF pop refl True, of ms1 ex1 h2] law(1) rec True by auto
    next
      case False
      have "now < sm_time m'" if "m' \<in> set h" for m'
        using law(2)[of m'] that False by (auto simp: msg_le_def)
      moreover have "ms = [] \<and> ex = expected \<and> h' = h"
        using "1.prems"(2) pop False by (simp add: pop_from_cache.simps[of now h])
      ultimately show ?thesis using "1.prems"(1) by simp
    qed
  qed
qed

lemma handle_incoming_mset:
  "heap_inv msg_le h \<Longrightarrow> handle_incoming_msg now m (result, h) = (result', h') \<Longrightarrow>
   mset result' + mset h' = add_mset m (mset result + mset h) \<and> heap_inv msg_le h'"
  by (auto simp: handle_incoming_msg_def msg_heap.elems_push msg_heap.invar_push split: if_splits)

lemma with_out_sel [simp]:
  "nb_rank (with_out part now f b) = nb_rank b" "nb_in (with_out part now f b) = nb_in b"
  "nb_neighbors (with_out part now f b) = nb_neighbors b" "nb_global_sync (with_out part now f b) = nb_global_sync b"
  "nb_link_mapping (with_out part now f b) = nb_link_mapping b"
  by (simp_all add: with_out_def Let_def)

lemma prepared_finite:
  "finite (dom (nb_out b)) \<Longrightarrow> finite (nb_neighbors b) \<Longrightarrow> finite (dom (fst (prepare_send_recv_vehicles now b)))"
  by (rule finite_subset[of _ "dom (nb_out b) \<union> nb_neighbors b"])
    (auto simp: prepare_send_recv_vehicles_def split: option.splits if_splits)

text \<open>What is summed over the messages sent is what the broker had collected.\<close>

lemma prepared_sum:
  fixes f :: "sync_message \<Rightarrow> 'm::comm_monoid_add"
  assumes ord: "hash_order ord" and fin: "finite (dom msgs)" and msgs: "msgs = fst (prepare_send_recv_vehicles now b)"
    and f: "\<And>t p q. f (msg_new t p q) = 0"
  shows "(\<Sum>p \<in># mset (ord (dom msgs)). f (the (msgs p))) = map_sum f (nb_out b)"
proof -
  have sub: "dom (nb_out b) \<subseteq> dom msgs" by (auto simp: msgs prepare_send_recv_vehicles_def)
  have "(\<Sum>p \<in># mset (ord (dom msgs)). f (the (msgs p))) = (\<Sum>p \<in> dom msgs. f (the (msgs p)))"
    using hash_order.ord_mset[OF ord fin] by (simp add: sum_unfold_sum_mset)
  also have "\<dots> = (\<Sum>p \<in> dom (nb_out b). f (the (nb_out b p)))"
    by (rule sum.mono_neutral_cong_right[OF fin sub])
      (auto simp: msgs prepare_send_recv_vehicles_def f split: option.splits if_splits)
  finally show ?thesis by (simp add: map_sum_def)
qed

lemma receive_messages_mset:
  assumes "receive_messages now ch (expected, result, h) = Some (result', h', rest)" and "heap_inv msg_le h"
  shows "mset ch + mset result + mset h = mset result' + mset h' + mset rest \<and> heap_inv msg_le h'"
  using assms
proof (induction ch arbitrary: expected result h)
  case (Cons m ch)
  obtain r1 h1 where hm: "handle_incoming_msg now m (result, h) = (r1, h1)" by (cases "handle_incoming_msg now m (result, h)")
  note law = handle_incoming_mset[OF Cons.prems(2) hm]
  show ?case
  proof (cases "expected = {}")
    case False
    then have "receive_messages now ch (if sm_time m = now then expected - {sm_from m} else expected, r1, h1) = Some (result', h', rest)"
      using Cons.prems(1) hm by (simp add: receive_one_def)
    from Cons.IH[OF this] law show ?thesis by (simp add: ac_simps)
  qed (use Cons.prems in auto)
qed (auto split: if_splits)

text \<open>Nothing that is in a message is lost in an exchange or doubled.\<close>

lemma send_recv_sum:
  fixes f :: "sync_message \<Rightarrow> 'm::comm_monoid_add"
  assumes ord: "hash_order ord" and inv: "heap_inv msg_le (nb_in b)" "finite (dom (nb_out b))" "finite (nb_neighbors b)"
    and step: "send_recv ord now incoming b = Some (sent, received, b', rest)" and f: "\<And>t p q. f (msg_new t p q) = 0"
  shows "map_sum f (nb_out b) = (\<Sum>m \<in># mset (map snd sent). f m)"
    and "mset (nb_in b) + mset incoming = mset received + mset (nb_in b') + mset rest"
    and "nb_out b' = Map.empty" and "heap_inv msg_le (nb_in b')" and "nb_neighbors b' = nb_neighbors b"
proof -
  let ?msgs = "fst (prepare_send_recv_vehicles now b)"
  obtain ms ex h h' where pop: "pop_from_cache now (nb_in b) (nb_neighbors b) = (ms, ex, h)"
    and rec: "receive_messages now incoming (ex, ms, h) = Some (received, h', rest)"
    and sent: "sent = map (\<lambda>p. (p, the (?msgs p))) (ord (dom ?msgs))" and b': "b' = b\<lparr>nb_out := Map.empty, nb_in := h'\<rparr>"
    using step by (auto simp: send_recv_def Let_def prepare_send_recv_vehicles_def split: prod.splits)
  note p = pop_from_cache_spec[OF inv(1) pop]
  note r = receive_messages_mset[OF rec]
  have "mset (map snd sent) = image_mset (\<lambda>p. the (?msgs p)) (mset (ord (dom ?msgs)))" by (simp add: sent comp_def)
  then show "map_sum f (nb_out b) = (\<Sum>m \<in># mset (map snd sent). f m)"
    using prepared_sum[where f = f and msgs = ?msgs and now = now and b = b, OF ord prepared_finite[OF inv(2,3)] refl f] by (simp add: multiset.map_comp comp_def)
  show "mset (nb_in b) + mset incoming = mset received + mset (nb_in b') + mset rest"
    using p r by (simp add: b' ac_simps)
  show "heap_inv msg_le (nb_in b')" using p r by (simp add: b')
  show "nb_out b' = Map.empty" and "nb_neighbors b' = nb_neighbors b" by (simp_all add: b')
qed

end
