(* ===== verification/Cluster.thy ===== *)
theory Cluster
  imports Broker
begin

text \<open>
  The processes of a simulation exchanging messages concurrently: \<open>NetMessageBroker::send_recv\<close>
  (\<open>messaging/sim_communication/message_broker.rs\<close>) over the channels of
  \<open>ChannelSimCommunicator\<close> (\<open>messaging/sim_communication/local_communicator.rs\<close>), one process per
  partition, in every interleaving of their sends and receives.

  A process works on its tick and collects outgoing messages; then it takes due messages from
  its cache, waits at the barrier if the simulation is globally synchronised, sends its messages
  one by one, receives until it has heard from every neighbour, and goes on to the next tick. The
  log of a process is what each of its \<open>send_recv\<close> calls returned.
\<close>

section \<open>Processes and their steps\<close>

datatype phase =
    Working
  | At_Barrier "(part_id \<times> sync_message) list" "part_id set" "sync_message list"
  | Sending "(part_id \<times> sync_message) list" "part_id set" "sync_message list"
  | Receiving "part_id set" "sync_message list"

record process =
  pr_now :: tick
  pr_broker :: net_broker
  pr_phase :: phase
  pr_log :: "(tick \<times> sync_message list) list"

record cluster =
  cl_procs :: "part_id \<rightharpoonup> process"
  cl_chan :: "part_id \<Rightarrow> sync_message list"

definition begin_exchange :: "(part_id set \<Rightarrow> part_id list) \<Rightarrow> process \<Rightarrow> process" where
  "begin_exchange ord pr =
     (let (msgs, b) = prepare_send_recv_vehicles (pr_now pr) (pr_broker pr);
          (cached, expected, h) = pop_from_cache (pr_now pr) (nb_in b) (nb_neighbors b);
          out = map (\<lambda>p. (p, the (msgs p))) (ord (dom msgs))
      in pr\<lparr>pr_broker := b\<lparr>nb_in := h\<rparr>,
            pr_phase := (if nb_global_sync b then At_Barrier out expected cached else Sending out expected cached)\<rparr>)"

fun release :: "phase \<Rightarrow> phase" where
  "release (At_Barrier out expected result) = Sending out expected result"
| "release ph = ph"

fun at_barrier :: "phase \<Rightarrow> bool" where
  "at_barrier (At_Barrier _ _ _) = True"
| "at_barrier _ = False"

definition receive_into :: "sync_message \<Rightarrow> part_id set \<Rightarrow> sync_message list \<Rightarrow> process \<Rightarrow> process" where
  "receive_into m expected result pr =
     (let (expected, result, h) = receive_one (pr_now pr) m (expected, result, nb_in (pr_broker pr))
      in pr\<lparr>pr_broker := (pr_broker pr)\<lparr>nb_in := h\<rparr>, pr_phase := Receiving expected result\<rparr>)"

definition set_proc :: "part_id \<Rightarrow> process \<Rightarrow> cluster \<Rightarrow> cluster" where
  "set_proc p pr c = c\<lparr>cl_procs := (cl_procs c)(p \<mapsto> pr)\<rparr>"

text \<open>What the engines of a partition do with its broker while it works on its tick.\<close>

inductive work_step :: "cluster \<Rightarrow> cluster \<Rightarrow> bool" where
  veh: "cl_procs c p = Some pr \<Longrightarrow> pr_phase pr = Working \<Longrightarrow> nb_add_veh v (pr_now pr) (pr_broker pr) = Some b \<Longrightarrow>
    work_step c (set_proc p (pr\<lparr>pr_broker := b\<rparr>) c)"
| cap: "cl_procs c p = Some pr \<Longrightarrow> pr_phase pr = Working \<Longrightarrow> su_from_part cap \<in> nb_neighbors (pr_broker pr) \<Longrightarrow>
    work_step c (set_proc p (pr\<lparr>pr_broker := nb_add_cap_update cap (pr_now pr) (pr_broker pr)\<rparr>) c)"

text \<open>The exchange of messages; a process takes part up to the tick \<open>last\<close>.\<close>

inductive comm_step :: "(part_id set \<Rightarrow> part_id list) \<Rightarrow> tick \<Rightarrow> cluster \<Rightarrow> cluster \<Rightarrow> bool" for ord last_tick where
  start: "cl_procs c p = Some pr \<Longrightarrow> pr_phase pr = Working \<Longrightarrow> pr_now pr \<le> last_tick \<Longrightarrow>
    comm_step ord last_tick c (set_proc p (begin_exchange ord pr) c)"
| barrier: "\<forall>p pr. cl_procs c p = Some pr \<longrightarrow> at_barrier (pr_phase pr) \<Longrightarrow> cl_procs c p \<noteq> None \<Longrightarrow>
    comm_step ord last_tick c
      (c\<lparr>cl_procs := (\<lambda>p. map_option (\<lambda>pr. pr\<lparr>pr_phase := release (pr_phase pr)\<rparr>) (cl_procs c p))\<rparr>)"
| send: "cl_procs c p = Some pr \<Longrightarrow> pr_phase pr = Sending ((t, m) # out) expected result \<Longrightarrow> cl_procs c t \<noteq> None \<Longrightarrow>
    comm_step ord last_tick c (set_proc p (pr\<lparr>pr_phase := Sending out expected result\<rparr>)
      (c\<lparr>cl_chan := (cl_chan c)(t := cl_chan c t @ [m])\<rparr>))"
| sent: "cl_procs c p = Some pr \<Longrightarrow> pr_phase pr = Sending [] expected result \<Longrightarrow>
    comm_step ord last_tick c (set_proc p (pr\<lparr>pr_phase := Receiving expected result\<rparr>) c)"
| recv: "cl_procs c p = Some pr \<Longrightarrow> pr_phase pr = Receiving expected result \<Longrightarrow> expected \<noteq> {} \<Longrightarrow> cl_chan c p = m # ch \<Longrightarrow>
    comm_step ord last_tick c (set_proc p (receive_into m expected result pr) (c\<lparr>cl_chan := (cl_chan c)(p := ch)\<rparr>))"
| finish: "cl_procs c p = Some pr \<Longrightarrow> pr_phase pr = Receiving {} result \<Longrightarrow>
    comm_step ord last_tick c (set_proc p (pr\<lparr>pr_now := tick_next (pr_now pr), pr_phase := Working,
      pr_log := pr_log pr @ [(pr_now pr, result)]\<rparr>) c)"

definition run_step :: "(part_id set \<Rightarrow> part_id list) \<Rightarrow> tick \<Rightarrow> cluster \<Rightarrow> cluster \<Rightarrow> bool" where
  "run_step ord last_tick c c' \<longleftrightarrow> work_step c c' \<or> comm_step ord last_tick c c'"

section \<open>Progress of a process, as seen by a neighbour\<close>

text \<open>
  \<open>heard q pr\<close> is the first tick for which the process has not yet taken the message of its
  neighbour \<open>q\<close> into a result; \<open>told p pr\<close> the first tick for which it has not yet sent to \<open>p\<close>.
\<close>

fun phase_heard :: "part_id \<Rightarrow> phase \<Rightarrow> nat" where
  "phase_heard q Working = 0"
| "phase_heard q (At_Barrier _ ex _) = (if q \<in> ex then 0 else 1)"
| "phase_heard q (Sending _ ex _) = (if q \<in> ex then 0 else 1)"
| "phase_heard q (Receiving ex _) = (if q \<in> ex then 0 else 1)"

fun phase_told :: "part_id \<Rightarrow> phase \<Rightarrow> nat" where
  "phase_told p Working = 0"
| "phase_told p (At_Barrier _ _ _) = 0"
| "phase_told p (Sending out _ _) = (if p \<in> fst ` set out then 0 else 1)"
| "phase_told p (Receiving _ _) = 1"

definition heard :: "part_id \<Rightarrow> process \<Rightarrow> tick" where
  "heard q pr = pr_now pr + phase_heard q (pr_phase pr)"

definition told :: "part_id \<Rightarrow> process \<Rightarrow> tick" where
  "told p pr = pr_now pr + phase_told p (pr_phase pr)"

text \<open>The times of the messages of \<open>q\<close> that are on their way to a process or in its cache.\<close>

definition pending :: "part_id \<Rightarrow> sync_message list \<Rightarrow> process \<Rightarrow> tick multiset" where
  "pending q ch pr = image_mset sm_time (filter_mset (\<lambda>m. sm_from m = q) (mset ch + mset (nb_in (pr_broker pr))))"

fun phase_out :: "phase \<Rightarrow> (part_id \<times> sync_message) list" where
  "phase_out (At_Barrier out _ _) = out"
| "phase_out (Sending out _ _) = out"
| "phase_out _ = []"

fun phase_result :: "phase \<Rightarrow> sync_message list" where
  "phase_result Working = []"
| "phase_result (At_Barrier _ _ res) = res"
| "phase_result (Sending _ _ res) = res"
| "phase_result (Receiving _ res) = res"

fun phase_expected :: "phase \<Rightarrow> part_id set" where
  "phase_expected Working = {}"
| "phase_expected (At_Barrier _ ex _) = ex"
| "phase_expected (Sending _ ex _) = ex"
| "phase_expected (Receiving ex _) = ex"

text \<open>A result holds exactly one message of every neighbour that is not expected any more, for the tick.\<close>

definition result_ok :: "part_id set \<Rightarrow> tick \<Rightarrow> part_id set \<Rightarrow> sync_message list \<Rightarrow> bool" where
  "result_ok N now ex res \<longleftrightarrow> ex \<subseteq> N \<and>
     (\<forall>q \<in> N. image_mset sm_time (filter_mset (\<lambda>m. sm_from m = q) (mset res)) = (if q \<in> ex then {#} else {#now#}))"

fun phase_all_out :: "part_id set \<Rightarrow> phase \<Rightarrow> bool" where
  "phase_all_out N (At_Barrier out _ _) = (N \<subseteq> fst ` set out)"
| "phase_all_out N _ = True"

record topology =
  tp_parts :: "part_id set"
  tp_neighbors :: "part_id \<Rightarrow> part_id set"
  tp_global_sync :: bool
  tp_start :: tick
  tp_last :: tick

definition proc_ok :: "topology \<Rightarrow> part_id \<Rightarrow> process \<Rightarrow> bool" where
  "proc_ok tp p pr \<longleftrightarrow>
     (let b = pr_broker pr; N = tp_neighbors tp p; ph = pr_phase pr; now = pr_now pr in
      nb_rank b = p \<and> nb_neighbors b = N \<and> nb_global_sync b = tp_global_sync tp \<and>
      heap_inv msg_le (nb_in b) \<and> ran (nb_link_mapping b) \<subseteq> tp_parts tp \<and>
      (\<forall>t m. nb_out b t = Some m \<longrightarrow> t \<in> tp_parts tp \<and> sm_time m = now \<and> sm_from m = p) \<and>
      distinct (map fst (phase_out ph)) \<and>
      (\<forall>(t, m) \<in> set (phase_out ph). t \<in> tp_parts tp \<and> sm_time m = now \<and> sm_from m = p) \<and>
      phase_all_out N ph \<and> (ph \<noteq> Working \<longrightarrow> nb_out b = Map.empty \<and> (\<forall>m \<in> set (nb_in b). now < sm_time m)) \<and>
      (ph \<noteq> Working \<longrightarrow> now \<le> tp_last tp \<and> result_ok N now (phase_expected ph) (phase_result ph)) \<and>
      now \<le> tp_last tp + 1 \<and> tp_start tp \<le> now \<and> (at_barrier ph \<longrightarrow> tp_global_sync tp) \<and>
      map fst (pr_log pr) = [tp_start tp..<now] \<and> (\<forall>(t, res) \<in> set (pr_log pr). result_ok N t {} res))"

definition pair_ok :: "part_id \<Rightarrow> part_id \<Rightarrow> process \<Rightarrow> process \<Rightarrow> sync_message list \<Rightarrow> bool" where
  "pair_ok q p prq pr ch \<longleftrightarrow> heard q pr \<le> told p prq \<and> pending q ch pr = mset [heard q pr..<told p prq]"

fun barrier_count :: "phase \<Rightarrow> nat" where
  "barrier_count Working = 0"
| "barrier_count (At_Barrier _ _ _) = 0"
| "barrier_count (Sending _ _ _) = 1"
| "barrier_count (Receiving _ _) = 1"

definition cluster_inv :: "topology \<Rightarrow> cluster \<Rightarrow> bool" where
  "cluster_inv tp c \<longleftrightarrow> dom (cl_procs c) = tp_parts tp \<and>
     (\<forall>p pr. cl_procs c p = Some pr \<longrightarrow> proc_ok tp p pr) \<and>
     (\<forall>p pr q prq. cl_procs c p = Some pr \<longrightarrow> cl_procs c q = Some prq \<longrightarrow> q \<in> tp_neighbors tp p \<longrightarrow>
        pair_ok q p prq pr (cl_chan c p)) \<and>
     (tp_global_sync tp \<longrightarrow> (\<forall>p pr q prq. cl_procs c p = Some pr \<longrightarrow> cl_procs c q = Some prq \<longrightarrow>
        pr_now pr + barrier_count (pr_phase pr) = pr_now prq + barrier_count (pr_phase prq)))"

section \<open>The invariant is kept by every step\<close>

lemma pending_filter:
  "filter (\<lambda>m. sm_from m = q) ch' = filter (\<lambda>m. sm_from m = q) ch \<Longrightarrow> pending q ch' pr = pending q ch pr"
  by (simp add: pending_def) (metis mset_filter)

lemma cluster_inv_update:
  assumes inv: "cluster_inv tp c" and p: "cl_procs c p = Some pr" and irrefl: "p \<notin> tp_neighbors tp p"
    and ok: "proc_ok tp p pr'"
    and recv: "\<And>q prq. cl_procs c q = Some prq \<Longrightarrow> q \<in> tp_neighbors tp p \<Longrightarrow> pair_ok q p prq pr' (ch' p)"
    and snd: "\<And>r prr. cl_procs c r = Some prr \<Longrightarrow> p \<in> tp_neighbors tp r \<Longrightarrow> r \<noteq> p \<Longrightarrow> pair_ok p r pr' prr (ch' r)"
    and oth: "\<And>q r. r \<noteq> p \<Longrightarrow> q \<noteq> p \<Longrightarrow> filter (\<lambda>m. sm_from m = q) (ch' r) = filter (\<lambda>m. sm_from m = q) (cl_chan c r)"
    and bar: "tp_global_sync tp \<Longrightarrow> pr_now pr' + barrier_count (pr_phase pr') = pr_now pr + barrier_count (pr_phase pr)"
  shows "cluster_inv tp (set_proc p pr' (c\<lparr>cl_chan := ch'\<rparr>))"
proof -
  let ?c = "set_proc p pr' (c\<lparr>cl_chan := ch'\<rparr>)"
  have procs: "cl_procs ?c = (cl_procs c)(p \<mapsto> pr')" and chan: "cl_chan ?c = ch'" by (simp_all add: set_proc_def)
  have "dom (cl_procs ?c) = tp_parts tp"
    using inv p unfolding cluster_inv_def procs by (metis dom_upd_same)
  moreover have "proc_ok tp q prq" if "cl_procs ?c q = Some prq" for q prq
    using that inv ok unfolding cluster_inv_def procs by (auto split: if_splits)
  moreover have "pair_ok q r prq prr (cl_chan ?c r)"
    if r: "cl_procs ?c r = Some prr" and q: "cl_procs ?c q = Some prq" and n: "q \<in> tp_neighbors tp r" for r prr q prq
  proof -
    consider (receiver) "r = p" "q \<noteq> p" | (sender) "q = p" "r \<noteq> p" | (other) "q \<noteq> p" "r \<noteq> p"
      using n irrefl by blast
    then show ?thesis
    proof cases
      case receiver
      then show ?thesis using r q n recv[of q prq] unfolding procs chan by simp
    next
      case sender
      then show ?thesis using r q n snd[of r prr] unfolding procs chan by simp
    next
      case other
      then have "pair_ok q r prq prr (cl_chan c r)" using r q n inv unfolding cluster_inv_def procs by simp
      then show ?thesis using pending_filter[OF oth[OF other(2,1)]] unfolding pair_ok_def chan by simp
    qed
  qed
  moreover have "pr_now prr + barrier_count (pr_phase prr) = pr_now prq + barrier_count (pr_phase prq)"
    if "tp_global_sync tp" and r: "cl_procs ?c r = Some prr" and q: "cl_procs ?c q = Some prq" for r prr q prq
  proof -
    have "pr_now x + barrier_count (pr_phase x) = pr_now pr + barrier_count (pr_phase pr)" if x: "cl_procs ?c j = Some x" for j x
    proof (cases "j = p")
      case True
      then show ?thesis using x bar \<open>tp_global_sync tp\<close> unfolding procs by simp
    next
      case False
      then have "cl_procs c j = Some x" using x unfolding procs by simp
      then show ?thesis using inv p \<open>tp_global_sync tp\<close> unfolding cluster_inv_def by blast
    qed
    then show ?thesis using r q by metis
  qed
  ultimately show ?thesis unfolding cluster_inv_def by blast
qed

lemma cluster_inv_update_local:
  assumes inv: "cluster_inv tp c" and p: "cl_procs c p = Some pr" and irrefl: "p \<notin> tp_neighbors tp p"
    and ok: "proc_ok tp p pr'"
    and recv: "\<And>q prq. cl_procs c q = Some prq \<Longrightarrow> q \<in> tp_neighbors tp p \<Longrightarrow> pair_ok q p prq pr' (cl_chan c p)"
    and tell: "\<And>r. p \<in> tp_neighbors tp r \<Longrightarrow> told r pr' = told r pr"
    and bar: "tp_global_sync tp \<Longrightarrow> pr_now pr' + barrier_count (pr_phase pr') = pr_now pr + barrier_count (pr_phase pr)"
  shows "cluster_inv tp (set_proc p pr' c)"
proof -
  have "cluster_inv tp (set_proc p pr' (c\<lparr>cl_chan := cl_chan c\<rparr>))"
  proof (rule cluster_inv_update[OF inv p irrefl ok recv _ refl bar])
    show "pair_ok p r pr' prr (cl_chan c r)" if "cl_procs c r = Some prr" "p \<in> tp_neighbors tp r" for r prr
      using that inv p tell[OF that(2)] unfolding cluster_inv_def pair_ok_def by simp
  qed
  then show ?thesis by simp
qed

lemma cluster_invD:
  assumes "cluster_inv tp c" and "cl_procs c p = Some pr"
  shows "proc_ok tp p pr" and "\<And>q prq. cl_procs c q = Some prq \<Longrightarrow> q \<in> tp_neighbors tp p \<Longrightarrow> pair_ok q p prq pr (cl_chan c p)"
    and "p \<in> tp_parts tp"
  using assms unfolding cluster_inv_def by blast+

text \<open>The neighbour relation of the partitions: symmetric, and no partition is its own neighbour.\<close>

locale neighbor_relation =
  fixes nbs :: "part_id \<Rightarrow> part_id set"
  assumes nbs_sym: "q \<in> nbs p \<Longrightarrow> p \<in> nbs q" and nbs_irrefl: "p \<notin> nbs p"

lemma proc_ok_with_out:
  assumes ok: "proc_ok tp p pr" and w: "pr_phase pr = Working" and part: "part \<in> tp_parts tp"
    and f: "\<And>m. sm_time (f m) = sm_time m" "\<And>m. sm_from (f m) = sm_from m"
  shows "proc_ok tp p (pr\<lparr>pr_broker := with_out part (pr_now pr) f (pr_broker pr)\<rparr>)"
proof -
  have "t \<in> tp_parts tp \<and> sm_time m = pr_now pr \<and> sm_from m = p"
    if "nb_out (with_out part (pr_now pr) f (pr_broker pr)) t = Some m" for t m
    using that ok part f by (auto simp: proc_ok_def Let_def with_out_def split: if_splits option.splits)
  then show ?thesis using ok w unfolding proc_ok_def Let_def by simp
qed

lemma work_step_inv:
  assumes step: "work_step c c'" and inv: "cluster_inv tp c" and nr: "neighbor_relation (tp_neighbors tp)"
    and sub: "\<And>p. tp_neighbors tp p \<subseteq> tp_parts tp"
  shows "cluster_inv tp c'"
proof -
  have main: "cluster_inv tp (set_proc p (pr\<lparr>pr_broker := with_out part (pr_now pr) f (pr_broker pr)\<rparr>) c)"
    if p: "cl_procs c p = Some pr" and w: "pr_phase pr = Working" and part: "part \<in> tp_parts tp"
      and f: "\<And>m. sm_time (f m) = sm_time m" "\<And>m. sm_from (f m) = sm_from m" for p pr part f
  proof (rule cluster_inv_update_local[OF inv p neighbor_relation.nbs_irrefl[OF nr]])
    show "proc_ok tp p (pr\<lparr>pr_broker := with_out part (pr_now pr) f (pr_broker pr)\<rparr>)"
      using proc_ok_with_out[OF cluster_invD(1)[OF inv p] w part f] .
    show "pair_ok q p prq (pr\<lparr>pr_broker := with_out part (pr_now pr) f (pr_broker pr)\<rparr>) (cl_chan c p)"
      if "cl_procs c q = Some prq" "q \<in> tp_neighbors tp p" for q prq
      using cluster_invD(2)[OF inv p that] by (simp add: pair_ok_def heard_def pending_def)
  qed (simp_all add: told_def)
  show ?thesis
    using step
  proof (cases rule: work_step.cases)
    case (veh p pr v b)
    then obtain part where b: "b = with_out part (pr_now pr) (msg_add_veh v) (pr_broker pr)"
      and "part \<in> ran (nb_link_mapping (pr_broker pr))"
      by (auto simp: nb_add_veh_def ranI)
    moreover have "ran (nb_link_mapping (pr_broker pr)) \<subseteq> tp_parts tp"
      using cluster_invD(1)[OF inv veh(2)] by (simp add: proc_ok_def Let_def)
    ultimately show ?thesis using veh main[of p pr part "msg_add_veh v"] by auto
  next
    case (cap p pr cap)
    have "su_from_part cap \<in> tp_parts tp"
      using cap sub[of p] cluster_invD(1)[OF inv cap(2)] by (auto simp: proc_ok_def Let_def)
    then show ?thesis using cap main[of p pr "su_from_part cap"] unfolding nb_add_cap_update_def by simp
  qed
qed

subsection \<open>Beginning the exchange\<close>

lemma upt_mset_split:
  assumes "A + B = mset [a..<b]" and "\<And>x. x \<in># A \<Longrightarrow> x \<le> a"
  shows "A = {#} \<or> A = {#a#} \<and> a < b \<and> B = mset [Suc a..<b]"
proof (cases "A = {#}")
  case False
  then obtain x A' where A: "A = add_mset x A'" by (meson multiset_cases)
  have ge: "a \<le> y \<and> y < b" if "y \<in># A" for y
  proof -
    have "y \<in># mset [a..<b]" using that assms(1) by (metis union_iff)
    then show ?thesis by simp
  qed
  have x: "x = a" and ab: "a < b" using ge[of x] assms(2)[of x] A by auto
  have "mset [a..<b] = add_mset a (mset [Suc a..<b])" using ab by (simp add: upt_conv_Cons)
  then have rest: "A' + B = mset [Suc a..<b]" using assms(1) A x by simp
  have "A' = {#}"
  proof (rule ccontr)
    assume "A' \<noteq> {#}"
    then obtain y where y: "y \<in># A'" by auto
    then have "y \<in># mset [Suc a..<b]" using rest by (metis union_iff)
    moreover have "y \<le> a" using y assms(2) A by simp
    ultimately show False by simp
  qed
  then show ?thesis using A x ab rest by simp
qed simp

definition from_times :: "part_id \<Rightarrow> sync_message multiset \<Rightarrow> tick multiset" where
  "from_times q M = image_mset sm_time (filter_mset (\<lambda>m. sm_from m = q) M)"

lemma from_times_simps [simp]:
  "from_times q {#} = {#}" "from_times q (M + M') = from_times q M + from_times q M'"
  "from_times q (add_mset m M) = (if sm_from m = q then add_mset (sm_time m) (from_times q M) else from_times q M)"
  by (simp_all add: from_times_def)

lemma from_times_empty: "from_times q (mset ms) = {#} \<longleftrightarrow> q \<notin> sm_from ` set ms"
  by (induction ms) auto

lemma from_times_le: "x \<in># from_times q (mset ms) \<Longrightarrow> \<forall>m \<in> set ms. sm_time m \<le> t \<Longrightarrow> x \<le> t"
  by (auto simp: from_times_def)

lemma pending_from_times: "pending q ch pr = from_times q (mset ch) + from_times q (mset (nb_in (pr_broker pr)))"
  by (simp add: pending_def from_times_def)

lemma result_ok_from_times:
  "result_ok N now ex res \<longleftrightarrow> ex \<subseteq> N \<and> (\<forall>q \<in> N. from_times q (mset res) = (if q \<in> ex then {#} else {#now#}))"
  by (simp add: result_ok_def from_times_def)

text \<open>The cache: what it hands out is the message of the tick of every neighbour that is ahead.\<close>

lemma pop_cache_pair:
  assumes heap: "heap_inv msg_le (nb_in (pr_broker pr))" and w: "pr_phase pr = Working"
    and pop: "pop_from_cache (pr_now pr) (nb_in (pr_broker pr)) N = (ms, ex, h)" and q: "q \<in> N"
    and pair: "pair_ok q p prq pr ch"
  shows "from_times q (mset ms) = (if q \<in> ex then {#} else {#pr_now pr#})"
    and "pr_now pr + (if q \<in> ex then 0 else 1) \<le> told p prq"
    and "from_times q (mset ch) + from_times q (mset h) = mset [pr_now pr + (if q \<in> ex then 0 else 1)..<told p prq]"
proof -
  note spec = pop_from_cache_spec[OF heap pop]
  have "from_times q (mset ms) + (from_times q (mset ch) + from_times q (mset h)) = mset [pr_now pr..<told p prq]"
    using pair w spec by (simp add: pair_ok_def heard_def pending_from_times ac_simps)
  from upt_mset_split[OF this] spec
  have "from_times q (mset ms) = {#} \<or> from_times q (mset ms) = {#pr_now pr#} \<and> pr_now pr < told p prq \<and>
      from_times q (mset ch) + from_times q (mset h) = mset [Suc (pr_now pr)..<told p prq]"
    using from_times_le by blast
  moreover have "q \<in> ex \<longleftrightarrow> from_times q (mset ms) = {#}" using spec q by (auto simp: from_times_empty)
  moreover have "from_times q (mset ms) = {#} \<Longrightarrow>
      from_times q (mset ch) + from_times q (mset h) = mset [pr_now pr..<told p prq] \<and> pr_now pr \<le> told p prq"
    using pair w spec by (simp add: pair_ok_def heard_def pending_from_times ac_simps)
  ultimately show "from_times q (mset ms) = (if q \<in> ex then {#} else {#pr_now pr#})"
    and "pr_now pr + (if q \<in> ex then 0 else 1) \<le> told p prq"
    and "from_times q (mset ch) + from_times q (mset h) = mset [pr_now pr + (if q \<in> ex then 0 else 1)..<told p prq]"
    by auto
qed

lemma begin_exchange_cases:
  obtains ms ex h msgs out where "pop_from_cache (pr_now pr) (nb_in (pr_broker pr)) (nb_neighbors (pr_broker pr)) = (ms, ex, h)"
    and "msgs = fst (prepare_send_recv_vehicles (pr_now pr) (pr_broker pr))"
    and "out = map (\<lambda>p. (p, the (msgs p))) (ord (dom msgs))"
    and "begin_exchange ord pr = pr\<lparr>pr_broker := (pr_broker pr)\<lparr>nb_out := Map.empty, nb_in := h\<rparr>,
       pr_phase := (if nb_global_sync (pr_broker pr) then At_Barrier out ex ms else Sending out ex ms)\<rparr>"
proof -
  obtain ms ex h where "pop_from_cache (pr_now pr) (nb_in (pr_broker pr)) (nb_neighbors (pr_broker pr)) = (ms, ex, h)"
    by (metis prod_cases3)
  then show ?thesis using that by (simp add: begin_exchange_def prepare_send_recv_vehicles_def Let_def)
qed

lemma prepared_messages:
  assumes ok: "proc_ok tp p pr" and sub: "tp_neighbors tp p \<subseteq> tp_parts tp"
    and msgs: "msgs = fst (prepare_send_recv_vehicles (pr_now pr) (pr_broker pr))"
  shows "dom msgs \<subseteq> tp_parts tp" and "tp_neighbors tp p \<subseteq> dom msgs"
    and "\<And>t m. msgs t = Some m \<Longrightarrow> sm_time m = pr_now pr \<and> sm_from m = p"
  using ok sub unfolding msgs
  by (auto simp: prepare_send_recv_vehicles_def proc_ok_def Let_def split: option.splits if_splits)

lemma start_inv:
  assumes inv: "cluster_inv tp c" and p: "cl_procs c p = Some pr" and w: "pr_phase pr = Working"
    and now: "pr_now pr \<le> tp_last tp" and nr: "neighbor_relation (tp_neighbors tp)"
    and sub: "\<And>p. tp_neighbors tp p \<subseteq> tp_parts tp" and fin: "finite (tp_parts tp)" and ord: "hash_order ord"
  shows "cluster_inv tp (set_proc p (begin_exchange ord pr) c)"
proof -
  let ?N = "tp_neighbors tp p"
  note ok = cluster_invD(1)[OF inv p]
  have N: "nb_neighbors (pr_broker pr) = ?N" and heap: "heap_inv msg_le (nb_in (pr_broker pr))"
    and G: "nb_global_sync (pr_broker pr) = tp_global_sync tp"
    using ok by (simp_all add: proc_ok_def Let_def)
  obtain ms ex h msgs out where pop: "pop_from_cache (pr_now pr) (nb_in (pr_broker pr)) (nb_neighbors (pr_broker pr)) = (ms, ex, h)"
    and msgs: "msgs = fst (prepare_send_recv_vehicles (pr_now pr) (pr_broker pr))"
    and out: "out = map (\<lambda>p. (p, the (msgs p))) (ord (dom msgs))"
    and pr': "begin_exchange ord pr = pr\<lparr>pr_broker := (pr_broker pr)\<lparr>nb_out := Map.empty, nb_in := h\<rparr>,
       pr_phase := (if nb_global_sync (pr_broker pr) then At_Barrier out ex ms else Sending out ex ms)\<rparr>"
    by (rule begin_exchange_cases)
  note spec = pop_from_cache_spec[OF heap pop[unfolded N]] and prep = prepared_messages[OF ok sub msgs]
  have dom: "set (ord (dom msgs)) = dom msgs" "distinct (ord (dom msgs))"
    using hash_order.ord_set[OF ord] hash_order.ord_distinct[OF ord] finite_subset[OF prep(1) fin] by auto
  have fst: "map fst out = ord (dom msgs)" by (simp add: out comp_def)
  then have fst_set: "fst ` set out = dom msgs" using dom(1) by (metis list.set_map)
  have outs: "t \<in> tp_parts tp \<and> sm_time m = pr_now pr \<and> sm_from m = p" if tm: "(t, m) \<in> set out" for t m
  proof -
    from tm have "t \<in> dom msgs" "m = the (msgs t)" unfolding out using dom(1) by auto
    then obtain "msgs t = Some m" by auto
    then show ?thesis using prep(1,3) by auto
  qed
  note pairs = pop_cache_pair[OF heap w pop[unfolded N], of _ p]
  have exq: "\<exists>prq. cl_procs c q = Some prq" if "q \<in> ?N" for q
    using that sub[of p] inv unfolding cluster_inv_def by blast
  have res: "result_ok ?N (pr_now pr) ex ms"
    unfolding result_ok_from_times
  proof (intro conjI ballI)
    show "ex \<subseteq> ?N" using spec by auto
    show "from_times q (mset ms) = (if q \<in> ex then {#} else {#pr_now pr#})" if q: "q \<in> ?N" for q
      using exq[OF q] pairs(1)[OF q] cluster_invD(2)[OF inv p] q by blast
  qed
  show ?thesis
  proof (rule cluster_inv_update_local[OF inv p neighbor_relation.nbs_irrefl[OF nr]])
    show "proc_ok tp p (begin_exchange ord pr)"
      using ok now spec dom prep res outs fst fst_set G N
      unfolding pr' by (auto simp: proc_ok_def Let_def)
    show "pair_ok q p prq (begin_exchange ord pr) (cl_chan c p)" if "cl_procs c q = Some prq" "q \<in> ?N" for q prq
      using pairs(2,3)[OF that(2) cluster_invD(2)[OF inv p that]] unfolding pr'
      by (auto simp: pair_ok_def heard_def pending_from_times)
    show "told r (begin_exchange ord pr) = told r pr" if r: "p \<in> tp_neighbors tp r" for r
    proof -
      have "r \<in> fst ` set out" using neighbor_relation.nbs_sym[OF nr r] prep(2) fst_set by auto
      then show ?thesis using w unfolding pr' told_def by simp
    qed
    show "pr_now (begin_exchange ord pr) + barrier_count (pr_phase (begin_exchange ord pr)) = pr_now pr + barrier_count (pr_phase pr)"
      if "tp_global_sync tp"
      using that G w unfolding pr' by simp
  qed
qed

subsection \<open>Sending and receiving\<close>

lemma send_inv:
  assumes inv: "cluster_inv tp c" and p: "cl_procs c p = Some pr" and ph: "pr_phase pr = Sending ((t, m) # out) ex res"
    and nr: "neighbor_relation (tp_neighbors tp)"
  shows "cluster_inv tp (set_proc p (pr\<lparr>pr_phase := Sending out ex res\<rparr>)
      (c\<lparr>cl_chan := (cl_chan c)(t := cl_chan c t @ [m])\<rparr>))"
proof (rule cluster_inv_update[OF inv p neighbor_relation.nbs_irrefl[OF nr]])
  note ok = cluster_invD(1)[OF inv p]
  have m: "sm_time m = pr_now pr" "sm_from m = p" and fresh: "t \<notin> fst ` set out"
    using ok ph by (auto simp: proc_ok_def Let_def)
  show "proc_ok tp p (pr\<lparr>pr_phase := Sending out ex res\<rparr>)" using ok ph by (auto simp: proc_ok_def Let_def)
  show "pair_ok q p prq (pr\<lparr>pr_phase := Sending out ex res\<rparr>) (((cl_chan c)(t := cl_chan c t @ [m])) p)"
    if q: "cl_procs c q = Some prq" "q \<in> tp_neighbors tp p" for q prq
  proof -
    have "q \<noteq> p" using q(2) neighbor_relation.nbs_irrefl[OF nr, of p] by blast
    then show ?thesis
      using cluster_invD(2)[OF inv p q] ph m by (auto simp: pair_ok_def heard_def pending_from_times)
  qed
  show "pair_ok p r (pr\<lparr>pr_phase := Sending out ex res\<rparr>) prr (((cl_chan c)(t := cl_chan c t @ [m])) r)"
    if r: "cl_procs c r = Some prr" "p \<in> tp_neighbors tp r" for r prr
  proof -
    have old: "pair_ok p r pr prr (cl_chan c r)" using inv p r unfolding cluster_inv_def by blast
    show ?thesis
    proof (cases "r = t")
      case True
      have "heard p prr \<le> pr_now pr" "pending p (cl_chan c r) prr = mset [heard p prr..<pr_now pr]"
        using old ph True by (simp_all add: pair_ok_def told_def)
      then show ?thesis using True fresh m by (simp add: pair_ok_def told_def pending_from_times del: mset_upt)
    next
      case False
      then show ?thesis using old ph by (simp add: pair_ok_def told_def pending_from_times)
    qed
  qed
qed (use ph cluster_invD(1)[OF inv p] in \<open>auto simp: proc_ok_def Let_def\<close>)

lemma sent_inv:
  assumes inv: "cluster_inv tp c" and p: "cl_procs c p = Some pr" and ph: "pr_phase pr = Sending [] ex res"
    and nr: "neighbor_relation (tp_neighbors tp)"
  shows "cluster_inv tp (set_proc p (pr\<lparr>pr_phase := Receiving ex res\<rparr>) c)"
proof (rule cluster_inv_update_local[OF inv p neighbor_relation.nbs_irrefl[OF nr]])
  show "proc_ok tp p (pr\<lparr>pr_phase := Receiving ex res\<rparr>)"
    using cluster_invD(1)[OF inv p] ph by (auto simp: proc_ok_def Let_def)
  show "pair_ok q p prq (pr\<lparr>pr_phase := Receiving ex res\<rparr>) (cl_chan c p)"
    if "cl_procs c q = Some prq" "q \<in> tp_neighbors tp p" for q prq
    using cluster_invD(2)[OF inv p that] ph by (simp add: pair_ok_def heard_def pending_from_times)
qed (use ph in \<open>simp_all add: told_def\<close>)

lemma finish_inv:
  assumes inv: "cluster_inv tp c" and p: "cl_procs c p = Some pr" and ph: "pr_phase pr = Receiving {} res"
    and nr: "neighbor_relation (tp_neighbors tp)" and last: "tp_last tp < u64_max"
  shows "cluster_inv tp (set_proc p (pr\<lparr>pr_now := tick_next (pr_now pr), pr_phase := Working,
      pr_log := pr_log pr @ [(pr_now pr, res)]\<rparr>) c)"
proof (rule cluster_inv_update_local[OF inv p neighbor_relation.nbs_irrefl[OF nr]])
  note ok = cluster_invD(1)[OF inv p]
  have nxt: "tick_next (pr_now pr) = pr_now pr + 1"
    using ok ph last by (simp add: proc_ok_def Let_def tick_next_def saturating_add_u64_def)
  have out: "nb_out (pr_broker pr) = Map.empty"
    using ok ph by (simp add: proc_ok_def Let_def)
  show "proc_ok tp p (pr\<lparr>pr_now := tick_next (pr_now pr), pr_phase := Working, pr_log := pr_log pr @ [(pr_now pr, res)]\<rparr>)"
    using ok ph nxt out by (auto simp: proc_ok_def Let_def)
  show "pair_ok q p prq (pr\<lparr>pr_now := tick_next (pr_now pr), pr_phase := Working, pr_log := pr_log pr @ [(pr_now pr, res)]\<rparr>) (cl_chan c p)"
    if "cl_procs c q = Some prq" "q \<in> tp_neighbors tp p" for q prq
    using cluster_invD(2)[OF inv p that] ph nxt by (simp add: pair_ok_def heard_def pending_from_times)
qed (use ph last cluster_invD(1)[OF inv p] in \<open>simp_all add: told_def proc_ok_def Let_def tick_next_def saturating_add_u64_def\<close>)

lemma receive_one_cases:
  assumes "receive_one now m (ex, res, h) = (ex', res', h')"
  obtains (on_time) "sm_time m = now" and "ex' = ex - {sm_from m}" and "res' = res @ [m]" and "h' = h"
  | (late) "sm_time m < now" and "ex' = ex" and "res' = res @ [m]" and "h' = h"
  | (early) "now < sm_time m" and "ex' = ex" and "res' = res" and "h' = heap_push msg_le m h"
  using assms by (auto simp: receive_one_def handle_incoming_msg_def split: if_splits)

lemma receive_one_pair:
  assumes rec: "receive_one now m (ex, res, h) = (ex', res', h')"
    and pend: "from_times q (mset (m # ch)) + from_times q (mset h) = mset [now + (if q \<in> ex then 0 else 1)..<s]"
    and le: "now + (if q \<in> ex then 0 else 1) \<le> s"
    and res: "from_times q (mset res) = (if q \<in> ex then {#} else {#now#})"
  shows "from_times q (mset ch) + from_times q (mset h') = mset [now + (if q \<in> ex' then 0 else 1)..<s]"
    and "now + (if q \<in> ex' then 0 else 1) \<le> s"
    and "from_times q (mset res') = (if q \<in> ex' then {#} else {#now#})"
proof -
  let ?d = "now + (if q \<in> ex then 0 else 1)"
  have push: "from_times q (mset (heap_push msg_le m h)) = from_times q (add_mset m (mset h))"
    by (simp add: heap_push_def mset_sift_up)
  have time: "?d \<le> sm_time m \<and> sm_time m < s" if "sm_from m = q"
  proof -
    have "sm_time m \<in># mset [?d..<s]" unfolding pend[symmetric] using that by simp
    then show ?thesis by simp
  qed
  have split: "mset [now..<s] = add_mset now (mset [Suc now..<s])" if "now < s"
    using that by (simp add: upt_conv_Cons)
  have "(from_times q (mset ch) + from_times q (mset h') = mset [now + (if q \<in> ex' then 0 else 1)..<s]) \<and>
    now + (if q \<in> ex' then 0 else 1) \<le> s \<and> from_times q (mset res') = (if q \<in> ex' then {#} else {#now#})"
    using rec
  proof (cases rule: receive_one_cases)
    case on_time
    show ?thesis
    proof (cases "sm_from m = q")
      case True
      then have "q \<in> ex" "now < s" using time[OF True] on_time(1) by (auto split: if_splits)
      then show ?thesis using on_time True pend res split[OF \<open>now < s\<close>] by simp
    next
      case False
      then show ?thesis using on_time pend le res by auto
    qed
  next
    case late
    then have "sm_from m \<noteq> q" using time by fastforce
    then show ?thesis using late pend le res by auto
  next
    case early
    then show ?thesis using pend le res push by auto
  qed
  then show "from_times q (mset ch) + from_times q (mset h') = mset [now + (if q \<in> ex' then 0 else 1)..<s]"
    and "now + (if q \<in> ex' then 0 else 1) \<le> s"
    and "from_times q (mset res') = (if q \<in> ex' then {#} else {#now#})" by auto
qed

lemma recv_inv:
  assumes inv: "cluster_inv tp c" and p: "cl_procs c p = Some pr" and ph: "pr_phase pr = Receiving ex res"
    and ch: "cl_chan c p = m # ch" and nr: "neighbor_relation (tp_neighbors tp)"
    and sub: "\<And>p. tp_neighbors tp p \<subseteq> tp_parts tp"
  shows "cluster_inv tp (set_proc p (receive_into m ex res pr) (c\<lparr>cl_chan := (cl_chan c)(p := ch)\<rparr>))"
proof -
  let ?now = "pr_now pr" and ?N = "tp_neighbors tp p"
  note ok = cluster_invD(1)[OF inv p]
  obtain ex' res' h' where rec: "receive_one ?now m (ex, res, nb_in (pr_broker pr)) = (ex', res', h')"
    by (metis prod_cases3)
  have pr': "receive_into m ex res pr = pr\<lparr>pr_broker := (pr_broker pr)\<lparr>nb_in := h'\<rparr>, pr_phase := Receiving ex' res'\<rparr>"
    using rec by (simp add: receive_into_def)
  have heap: "heap_inv msg_le h' \<and> (\<forall>m \<in> set h'. ?now < sm_time m)"
  proof -
    have set: "set (heap_push msg_le m (nb_in (pr_broker pr))) = insert m (set (nb_in (pr_broker pr)))"
      by (metis heap_push_def mset_sift_up set_mset_mset length_append_singleton lessI mset_append
          mset_single_iff_right set_append list.set(2) list.set(1) Un_insert_right sup_bot_right)
    have "heap_inv msg_le (nb_in (pr_broker pr)) \<and> (\<forall>m \<in> set (nb_in (pr_broker pr)). ?now < sm_time m)"
      using ok ph by (simp add: proc_ok_def Let_def)
    with rec show ?thesis by (elim receive_one_cases) (simp_all add: msg_heap.invar_push set)
  qed
  have sub': "ex' \<subseteq> ex" using rec by (auto simp: receive_one_def split: prod.splits if_splits)
  have res_ok: "result_ok ?N ?now ex res" using ok ph by (simp add: proc_ok_def Let_def)
  have pair: "from_times q (mset ch) + from_times q (mset h') = mset [?now + (if q \<in> ex' then 0 else 1)..<told p prq] \<and>
      ?now + (if q \<in> ex' then 0 else 1) \<le> told p prq \<and> from_times q (mset res') = (if q \<in> ex' then {#} else {#?now#})"
    if q: "cl_procs c q = Some prq" "q \<in> ?N" for q prq
  proof -
    have P: "from_times q (mset (m # ch)) + from_times q (mset (nb_in (pr_broker pr))) = mset [?now + (if q \<in> ex then 0 else 1)..<told p prq]"
      "?now + (if q \<in> ex then 0 else 1) \<le> told p prq"
      using cluster_invD(2)[OF inv p q] ph ch by (simp_all add: pair_ok_def heard_def pending_from_times)
    have R: "from_times q (mset res) = (if q \<in> ex then {#} else {#?now#})"
      using res_ok q(2) by (simp add: result_ok_from_times)
    show ?thesis using receive_one_pair[OF rec P(1) P(2) R] by blast
  qed
  have exq: "\<exists>prq. cl_procs c q = Some prq" if "q \<in> ?N" for q
    using that sub[of p] inv unfolding cluster_inv_def by blast
  have res_ok': "result_ok ?N ?now ex' res'"
    using res_ok sub' pair exq unfolding result_ok_from_times by blast
  show ?thesis
  proof (rule cluster_inv_update[OF inv p neighbor_relation.nbs_irrefl[OF nr]])
    show "proc_ok tp p (receive_into m ex res pr)"
      using ok ph heap res_ok' unfolding pr' by (auto simp: proc_ok_def Let_def)
    show "pair_ok q p prq (receive_into m ex res pr) (((cl_chan c)(p := ch)) p)"
      if "cl_procs c q = Some prq" "q \<in> ?N" for q prq
      using pair[OF that] unfolding pr' by (simp add: pair_ok_def heard_def pending_from_times)
    show "pair_ok p r (receive_into m ex res pr) prr (((cl_chan c)(p := ch)) r)"
      if "cl_procs c r = Some prr" "p \<in> tp_neighbors tp r" "r \<noteq> p" for r prr
      using cluster_invD(2)[OF inv that(1) p that(2)] that(3) ph unfolding pr' by (simp add: pair_ok_def told_def del: mset_upt)
    show "filter (\<lambda>m. sm_from m = q) (((cl_chan c)(p := ch)) r) = filter (\<lambda>m. sm_from m = q) (cl_chan c r)"
      if "r \<noteq> p" for q r using that by simp
    show "pr_now (receive_into m ex res pr) + barrier_count (pr_phase (receive_into m ex res pr)) = ?now + barrier_count (pr_phase pr)"
      using ph unfolding pr' by simp
  qed
qed

subsection \<open>The barrier\<close>

lemma release_props:
  assumes "at_barrier ph"
  shows "phase_heard q (release ph) = phase_heard q ph" and "phase_out (release ph) = phase_out ph"
    and "phase_result (release ph) = phase_result ph" and "phase_expected (release ph) = phase_expected ph"
    and "release ph \<noteq> Working" and "\<not> at_barrier (release ph)" and "barrier_count (release ph) = 1" and "barrier_count ph = 0"
    and "phase_all_out N (release ph)" and "p \<in> fst ` set (phase_out ph) \<Longrightarrow> phase_told p (release ph) = phase_told p ph"
    and "ph \<noteq> Working"
  using assms by (cases ph; simp)+

lemma barrier_inv:
  assumes inv: "cluster_inv tp c" and all: "\<forall>p pr. cl_procs c p = Some pr \<longrightarrow> at_barrier (pr_phase pr)"
    and nr: "neighbor_relation (tp_neighbors tp)"
  shows "cluster_inv tp (c\<lparr>cl_procs := (\<lambda>p. map_option (\<lambda>pr. pr\<lparr>pr_phase := release (pr_phase pr)\<rparr>) (cl_procs c p))\<rparr>)"
proof -
  let ?r = "\<lambda>pr. pr\<lparr>pr_phase := release (pr_phase pr)\<rparr>"
  let ?c = "c\<lparr>cl_procs := (\<lambda>p. map_option ?r (cl_procs c p))\<rparr>"
  have ok: "proc_ok tp p (?r pr)" if p: "cl_procs c p = Some pr" for p pr
    using cluster_invD(1)[OF inv p] release_props[OF all[rule_format, OF p]] by (simp add: proc_ok_def Let_def)
  have pair: "pair_ok q p (?r prq) (?r pr) (cl_chan c p)"
    if p: "cl_procs c p = Some pr" and q: "cl_procs c q = Some prq" and n: "q \<in> tp_neighbors tp p" for p pr q prq
  proof -
    have "phase_all_out (tp_neighbors tp q) (pr_phase prq)"
      using cluster_invD(1)[OF inv q] by (simp add: proc_ok_def Let_def)
    moreover have "p \<in> tp_neighbors tp q" using neighbor_relation.nbs_sym[OF nr n] .
    ultimately have "p \<in> fst ` set (phase_out (pr_phase prq))"
      using all[rule_format, OF q] by (cases "pr_phase prq") auto
    then show ?thesis
      using cluster_invD(2)[OF inv p q n] release_props[OF all[rule_format, OF p]] release_props[OF all[rule_format, OF q]]
      by (simp add: pair_ok_def heard_def told_def pending_from_times)
  qed
  have same: "pr_now pr = pr_now prq"
    if "tp_global_sync tp" and p: "cl_procs c p = Some pr" and q: "cl_procs c q = Some prq" for p pr q prq
    using inv that release_props(8)[OF all[rule_format, OF p]] release_props(8)[OF all[rule_format, OF q]]
    unfolding cluster_inv_def by (metis add.right_neutral)
  have procs: "\<exists>pr0. cl_procs c p = Some pr0 \<and> pr = ?r pr0" if "cl_procs ?c p = Some pr" for p pr
    using that by auto
  show ?thesis
    unfolding cluster_inv_def
  proof (intro conjI allI impI)
    have "dom (cl_procs ?c) = dom (cl_procs c)" by (auto simp: dom_def)
    then show "dom (cl_procs ?c) = tp_parts tp" using inv by (simp add: cluster_inv_def)
    show "proc_ok tp p pr" if "cl_procs ?c p = Some pr" for p pr using procs[OF that] ok by blast
    show "pair_ok q p prq pr (cl_chan ?c p)"
      if p: "cl_procs ?c p = Some pr" and q: "cl_procs ?c q = Some prq" and n: "q \<in> tp_neighbors tp p" for p pr q prq
      using procs[OF p] procs[OF q] pair[OF _ _ n] by auto
    show "pr_now pr + barrier_count (pr_phase pr) = pr_now prq + barrier_count (pr_phase prq)"
      if g: "tp_global_sync tp" and p: "cl_procs ?c p = Some pr" and q: "cl_procs ?c q = Some prq" for p pr q prq
    proof -
      obtain pr0 prq0 where 0: "cl_procs c p = Some pr0" "pr = ?r pr0" "cl_procs c q = Some prq0" "prq = ?r prq0"
        using procs[OF p] procs[OF q] by blast
      show ?thesis
        using same[OF g 0(1,3)] release_props(7)[OF all[rule_format, OF 0(1)]] release_props(7)[OF all[rule_format, OF 0(3)]] 0(2,4)
        by simp
    qed
  qed
qed

text \<open>What the theorems need of the topology, and what they say in every state that a run reaches.\<close>

definition topology_ok :: "topology \<Rightarrow> bool" where
  "topology_ok tp \<longleftrightarrow> finite (tp_parts tp) \<and> neighbor_relation (tp_neighbors tp) \<and>
     (\<forall>p. tp_neighbors tp p \<subseteq> tp_parts tp) \<and> tp_last tp < u64_max"

lemma run_step_inv:
  assumes "run_step ord (tp_last tp) c c'" and inv: "cluster_inv tp c" and tp: "topology_ok tp" and ord: "hash_order ord"
  shows "cluster_inv tp c'"
proof -
  have nr: "neighbor_relation (tp_neighbors tp)" and sub: "\<And>p. tp_neighbors tp p \<subseteq> tp_parts tp"
    and fin: "finite (tp_parts tp)" and last: "tp_last tp < u64_max"
    using tp by (auto simp: topology_ok_def)
  from assms(1) consider (work) "work_step c c'" | (comm) "comm_step ord (tp_last tp) c c'"
    by (auto simp: run_step_def)
  then show ?thesis
  proof cases
    case work
    then show ?thesis using work_step_inv[OF _ inv nr sub] by blast
  next
    case comm
    then show ?thesis
    proof (cases rule: comm_step.cases)
      case (start p pr)
      then show ?thesis using start_inv[OF inv _ _ _ nr sub fin ord] by blast
    next
      case (barrier p)
      then show ?thesis using barrier_inv[OF inv _ nr] by blast
    next
      case (send p pr t m out ex res)
      then show ?thesis using send_inv[OF inv _ _ nr] by blast
    next
      case (sent p pr ex res)
      then show ?thesis using sent_inv[OF inv _ _ nr] by blast
    next
      case (recv p pr ex res m ch)
      then show ?thesis using recv_inv[OF inv _ _ _ nr sub] by blast
    next
      case (finish p pr res)
      then show ?thesis using finish_inv[OF inv _ _ nr last] by blast
    qed
  qed
qed

lemma run_inv:
  assumes "(run_step ord (tp_last tp))\<^sup>*\<^sup>* c c'" and "cluster_inv tp c" and "topology_ok tp" and "hash_order ord"
  shows "cluster_inv tp c'"
  using assms by (induction rule: rtranclp_induct) (auto intro: run_step_inv)

section \<open>Neighbours stay within one tick\<close>

lemma neighbor_ticks:
  assumes inv: "cluster_inv tp c" and "cl_procs c p = Some pr" and "cl_procs c q = Some prq" and "q \<in> tp_neighbors tp p"
  shows "pr_now pr \<le> pr_now prq + 1"
proof -
  have "heard q pr \<le> told p prq" using cluster_invD(2)[OF assms(1,2,3,4)] by (simp add: pair_ok_def)
  moreover have "phase_told p (pr_phase prq) \<le> 1" by (cases "pr_phase prq") auto
  ultimately show ?thesis by (simp add: heard_def told_def)
qed

section \<open>No deadlock\<close>

lemma progress:
  assumes inv: "cluster_inv tp c" and tp: "topology_ok tp"
    and p0: "cl_procs c p0 = Some pr0" and now0: "pr_now pr0 \<le> tp_last tp"
  shows "\<exists>c'. comm_step ord (tp_last tp) c c'"
proof (rule ccontr)
  assume stuck: "\<nexists>c'. comm_step ord (tp_last tp) c c'"
  have fin: "finite (dom (cl_procs c))" and sub: "\<And>p. tp_neighbors tp p \<subseteq> dom (cl_procs c)"
    using inv tp by (auto simp: cluster_inv_def topology_ok_def)
  have dom: "dom (cl_procs c) = tp_parts tp" using inv by (simp add: cluster_inv_def)
  have working: "tp_last tp < pr_now pr" if "cl_procs c p = Some pr" "pr_phase pr = Working" for p pr
    using comm_step.start[OF that] stuck by (meson linorder_not_less)
  have sending: False if p: "cl_procs c p = Some pr" and ph: "pr_phase pr = Sending out ex res" for p pr out ex res
  proof (cases out)
    case Nil
    then show ?thesis using comm_step.sent[OF p] ph stuck by blast
  next
    case (Cons tm out')
    obtain t m where tm: "tm = (t, m)" by (cases tm)
    have "t \<in> tp_parts tp" using cluster_invD(1)[OF inv p] ph Cons tm by (auto simp: proc_ok_def Let_def)
    then have "cl_procs c t \<noteq> None" using dom by blast
    then show ?thesis using comm_step.send[OF p, of t m out' ex res] ph Cons tm stuck by blast
  qed
  have receiving: "ex \<noteq> {} \<and> cl_chan c p = []" if p: "cl_procs c p = Some pr" and ph: "pr_phase pr = Receiving ex res" for p pr ex res
    using comm_step.finish[OF p] comm_step.recv[OF p ph] ph stuck by (cases "cl_chan c p"; cases "ex = {}") blast+
  obtain p pr where p: "cl_procs c p = Some pr"
    and least: "\<And>q prq. cl_procs c q = Some prq \<Longrightarrow> pr_now pr \<le> pr_now prq"
  proof -
    let ?f = "\<lambda>p. pr_now (the (cl_procs c p))"
    obtain p where pd: "p \<in> dom (cl_procs c)" and l: "\<forall>q \<in> dom (cl_procs c). ?f p \<le> ?f q"
      using ex_has_least_nat[of "\<lambda>p. p \<in> dom (cl_procs c)" p0 ?f] p0 by blast
    show ?thesis
    proof (rule that[of p "the (cl_procs c p)"])
      show "cl_procs c p = Some (the (cl_procs c p))" using pd by auto
      show "?f p \<le> pr_now prq" if "cl_procs c q = Some prq" for q prq
        using l that by (metis domI option.sel)
    qed
  qed
  have now: "pr_now pr \<le> tp_last tp" using least[OF p0] now0 by simp
  have count: "pr_now pr + barrier_count (pr_phase pr) = pr_now prq + barrier_count (pr_phase prq)"
    if "tp_global_sync tp" "cl_procs c q = Some prq" for q prq
    using inv that p unfolding cluster_inv_def by blast
  show False
  proof (cases "pr_phase pr")
    case Working
    then show False using working[OF p] now by simp
  next
    case (At_Barrier out ex res)
    have g: "tp_global_sync tp" using cluster_invD(1)[OF inv p] At_Barrier by (simp add: proc_ok_def Let_def)
    obtain r prr where r: "cl_procs c r = Some prr" "\<not> at_barrier (pr_phase prr)"
      using comm_step.barrier[of c p] p stuck by blast
    show False
    proof (cases "pr_phase prr")
      case Working
      then show False using working[OF r(1)] count[OF g r(1)] now At_Barrier by simp
    next
      case (Receiving ex' res')
      then show False using count[OF g r(1)] least[OF r(1)] At_Barrier by simp
    qed (use r sending in auto)
  next
    case (Sending out ex res)
    then show False using sending[OF p] by blast
  next
    case (Receiving ex res)
    note ok = cluster_invD(1)[OF inv p]
    obtain q where q: "q \<in> ex" and qN: "q \<in> tp_neighbors tp p" and empty: "cl_chan c p = []"
    proof -
      have "ex \<subseteq> tp_neighbors tp p" using ok Receiving by (simp add: proc_ok_def Let_def result_ok_def)
      then show ?thesis using receiving[OF p Receiving] that by blast
    qed
    obtain prq where prq: "cl_procs c q = Some prq" using qN sub by blast
    have pair: "pr_now pr \<le> told p prq" "from_times q (mset (nb_in (pr_broker pr))) = mset [pr_now pr..<told p prq]"
      using cluster_invD(2)[OF inv p prq qN] Receiving q empty by (simp_all add: pair_ok_def heard_def pending_from_times)
    have "told p prq = pr_now pr"
    proof (rule ccontr)
      assume "told p prq \<noteq> pr_now pr"
      then have "pr_now pr \<in># from_times q (mset (nb_in (pr_broker pr)))" using pair by simp
      then obtain m where "m \<in> set (nb_in (pr_broker pr))" "sm_time m = pr_now pr" by (auto simp: from_times_def)
      then show False using ok Receiving by (auto simp: proc_ok_def Let_def)
    qed
    then have eq: "pr_now prq = pr_now pr" and "phase_told p (pr_phase prq) = 0"
      using least[OF prq] by (auto simp: told_def)
    then show False
    proof (cases "pr_phase prq")
      case Working
      then show False using working[OF prq] eq now by simp
    next
      case (At_Barrier out ex' res')
      then have "tp_global_sync tp" using cluster_invD(1)[OF inv prq] by (simp add: proc_ok_def Let_def)
      then show False using count[OF _ prq] At_Barrier Receiving eq by simp
    qed (use prq sending in auto)
  qed
qed

section \<open>The exchange ends\<close>

text \<open>
  The work a process still has: for each tick to come at most one message to every other
  process, which is sent and received once, and a bounded number of changes of phase.
\<close>

definition tick_work :: "topology \<Rightarrow> nat" where
  "tick_work tp = 2 * card (tp_parts tp) + 5"

fun phase_work :: "phase \<Rightarrow> nat" where
  "phase_work Working = 0"
| "phase_work (At_Barrier out _ _) = 3 + 2 * length out"
| "phase_work (Sending out _ _) = 2 + 2 * length out"
| "phase_work (Receiving _ _) = 1"

definition proc_work :: "topology \<Rightarrow> process \<Rightarrow> nat" where
  "proc_work tp pr = (tp_last tp + (if pr_phase pr = Working then 1 else 0) - pr_now pr) * tick_work tp + phase_work (pr_phase pr)"

definition work_left :: "topology \<Rightarrow> cluster \<Rightarrow> nat" where
  "work_left tp c = (\<Sum>p \<in> tp_parts tp. proc_work tp (the (cl_procs c p)) + length (cl_chan c p))"

lemma work_left_update:
  assumes "finite (tp_parts tp)" and "p \<in> tp_parts tp"
    and "proc_work tp pr' + length (ch' p) < proc_work tp (the (cl_procs c p)) + length (cl_chan c p)"
    and "\<And>r. r \<noteq> p \<Longrightarrow> ch' r = cl_chan c r"
  shows "work_left tp (set_proc p pr' (c\<lparr>cl_chan := ch'\<rparr>)) < work_left tp c"
  unfolding work_left_def
proof (rule sum_strict_mono_ex1[OF assms(1)])
  show "\<forall>q \<in> tp_parts tp. proc_work tp (the (cl_procs (set_proc p pr' (c\<lparr>cl_chan := ch'\<rparr>)) q)) +
      length (cl_chan (set_proc p pr' (c\<lparr>cl_chan := ch'\<rparr>)) q) \<le> proc_work tp (the (cl_procs c q)) + length (cl_chan c q)"
    using assms(3,4) by (auto simp: set_proc_def)
  show "\<exists>q \<in> tp_parts tp. proc_work tp (the (cl_procs (set_proc p pr' (c\<lparr>cl_chan := ch'\<rparr>)) q)) +
      length (cl_chan (set_proc p pr' (c\<lparr>cl_chan := ch'\<rparr>)) q) < proc_work tp (the (cl_procs c q)) + length (cl_chan c q)"
    using assms(2,3) by (auto simp: set_proc_def intro!: bexI[of _ p])
qed

lemma phase_out_length:
  assumes "proc_ok tp p pr" and "finite (tp_parts tp)"
  shows "length (phase_out (pr_phase pr)) \<le> card (tp_parts tp)"
proof -
  have "distinct (map fst (phase_out (pr_phase pr)))" "fst ` set (phase_out (pr_phase pr)) \<subseteq> tp_parts tp"
    using assms(1) unfolding proc_ok_def Let_def by force+
  then show ?thesis using assms(2) by (metis card_mono distinct_card length_map list.set_map)
qed

lemma send_work:
  assumes fin: "finite (tp_parts tp)" and p: "p \<in> tp_parts tp" and t: "t \<in> tp_parts tp"
    and ph: "pr_phase pr = Sending ((t, m) # out) ex res" and pr: "cl_procs c p = Some pr"
  shows "work_left tp (set_proc p (pr\<lparr>pr_phase := Sending out ex res\<rparr>) (c\<lparr>cl_chan := (cl_chan c)(t := cl_chan c t @ [m])\<rparr>))
     < work_left tp c"
proof -
  let ?pr = "pr\<lparr>pr_phase := Sending out ex res\<rparr>" and ?ch = "(cl_chan c)(t := cl_chan c t @ [m])"
  have w: "proc_work tp pr = proc_work tp ?pr + 2" using ph by (simp add: proc_work_def)
  have procs: "(\<Sum>q \<in> tp_parts tp. proc_work tp (the (((cl_procs c)(p \<mapsto> ?pr)) q))) + 2 =
      (\<Sum>q \<in> tp_parts tp. proc_work tp (the (cl_procs c q)))"
    using fin p pr w by (simp add: sum.remove[of _ p])
  have chans: "(\<Sum>q \<in> tp_parts tp. length (?ch q)) = (\<Sum>q \<in> tp_parts tp. length (cl_chan c q)) + 1"
    using fin t by (simp add: sum.remove[of _ t])
  show ?thesis unfolding work_left_def sum.distrib using procs chans by (simp add: set_proc_def)
qed

lemma comm_step_work:
  assumes step: "comm_step ord (tp_last tp) c c'" and inv: "cluster_inv tp c" and tp: "topology_ok tp" and ord: "hash_order ord"
  shows "work_left tp c' < work_left tp c"
proof -
  have fin: "finite (tp_parts tp)" and last: "tp_last tp < u64_max" using tp by (auto simp: topology_ok_def)
  have inv': "cluster_inv tp c'" using run_step_inv[OF _ inv tp ord] step by (simp add: run_step_def)
  note upd = work_left_update[where c = c, OF fin cluster_invD(3)[OF inv]]
  have same: "c\<lparr>cl_chan := cl_chan c\<rparr> = c" by simp
  show ?thesis
    using step
  proof (cases rule: comm_step.cases)
    case (start p pr)
    let ?pr = "begin_exchange ord pr"
    have ok: "proc_ok tp p ?pr" using cluster_invD(1)[OF inv', of p ?pr] start by (simp add: set_proc_def)
    have "pr_now ?pr = pr_now pr" "pr_phase ?pr \<noteq> Working" "phase_work (pr_phase ?pr) \<le> 3 + 2 * length (phase_out (pr_phase ?pr))"
      by (rule begin_exchange_cases[of pr ord], simp)+
    moreover have "tp_last tp + 1 - pr_now pr = (tp_last tp - pr_now pr) + 1" using start by simp
    ultimately have "proc_work tp ?pr < proc_work tp pr"
      using phase_out_length[OF ok fin] start by (simp add: proc_work_def tick_work_def)
    then show ?thesis using upd[OF start(2), of ?pr "cl_chan c"] start same by simp
  next
    case (barrier p)
    have each: "proc_work tp (pr\<lparr>pr_phase := release (pr_phase pr)\<rparr>) < proc_work tp pr" if "cl_procs c q = Some pr" for q pr
      using barrier(2)[rule_format, OF that] by (cases "pr_phase pr") (simp_all add: proc_work_def)
    have "dom (cl_procs c) = tp_parts tp" using inv by (simp add: cluster_inv_def)
    then have "\<forall>q \<in> tp_parts tp. \<exists>pr. cl_procs c q = Some pr" and "tp_parts tp \<noteq> {}" using barrier(3) by blast+
    then show ?thesis
      unfolding barrier work_left_def using each by (intro sum_strict_mono[OF fin]) fastforce+
  next
    case (send p pr t m out ex res)
    have "t \<in> tp_parts tp" using send inv by (auto simp: cluster_inv_def)
    then show ?thesis using send_work[OF fin cluster_invD(3)[OF inv send(2)]] send by blast
  next
    case (sent p pr ex res)
    then show ?thesis using upd[OF sent(2), of "pr\<lparr>pr_phase := Receiving ex res\<rparr>" "cl_chan c"] same by (simp add: proc_work_def)
  next
    case (recv p pr ex res m ch)
    have "proc_work tp (receive_into m ex res pr) = proc_work tp pr"
      using recv by (auto simp: receive_into_def proc_work_def split: prod.splits)
    then show ?thesis using upd[OF recv(2), of "receive_into m ex res pr" "(cl_chan c)(p := ch)"] recv by simp
  next
    case (finish p pr res)
    have "pr_now pr \<le> tp_last tp" using cluster_invD(1)[OF inv finish(2)] finish by (simp add: proc_ok_def Let_def)
    then have "tick_next (pr_now pr) = pr_now pr + 1" using last by (simp add: tick_next_def saturating_add_u64_def)
    then show ?thesis
      using upd[OF finish(2), of "pr\<lparr>pr_now := tick_next (pr_now pr), pr_phase := Working, pr_log := pr_log pr @ [(pr_now pr, res)]\<rparr>" "cl_chan c"]
        finish same by (simp add: proc_work_def)
  qed
qed

section \<open>The neighbours of a partition\<close>

definition net_neighbors :: "network \<Rightarrow> part_id \<Rightarrow> part_id set" where
  "net_neighbors net p = {q. q \<noteq> p \<and> (\<exists>i l nf nt. net_links net i = Some l \<and> net_nodes net (link_from l) = Some nf \<and>
     net_nodes net (link_to l) = Some nt \<and>
     (node_partition nf = p \<and> node_partition nt = q \<or> node_partition nf = q \<and> node_partition nt = p))}"

interpretation net_neighbors: neighbor_relation "net_neighbors net" for net
  by unfold_locales (auto simp: net_neighbors_def)

lemma add_sim_links_spec:
  assumes "foldM (add_sim_link part config net) ids m = Some links" and "net_inv net"
  shows "\<And>i. i \<notin> set ids \<Longrightarrow> links i = m i"
    and "\<And>i. i \<in> set ids \<Longrightarrow> \<exists>l sl. net_links net i = Some l \<and> links i = Some sl \<and>
      create_sim_link l part (effective_cell_size net) config net = Some sl"
proof -
  have "(\<forall>i. i \<notin> set ids \<longrightarrow> links i = m i) \<and> (\<forall>i \<in> set ids. \<exists>l sl. net_links net i = Some l \<and> links i = Some sl \<and>
      create_sim_link l part (effective_cell_size net) config net = Some sl)"
    using assms(1)
  proof (induction ids arbitrary: m)
    case (Cons i ids)
    then obtain l sl where l: "net_links net i = Some l"
      and sl: "create_sim_link l part (effective_cell_size net) config net = Some sl"
      and rest: "foldM (add_sim_link part config net) ids (m(link_ident l \<mapsto> sl)) = Some links"
    proof -
      obtain m' where m': "add_sim_link part config net i m = Some m'" "foldM (add_sim_link part config net) ids m' = Some links"
        using Cons.prems by auto
      then show ?thesis using that by (auto simp: add_sim_link_def[of _ _ _ i] get_link_def)
    qed
    have id: "link_ident l = i" using net_invD(2)[OF assms(2) l] by simp
    show ?case using Cons.IH[OF rest] l sl id by (cases "i \<in> set ids") auto
  qed simp
  then show "\<And>i. i \<notin> set ids \<Longrightarrow> links i = m i"
    and "\<And>i. i \<in> set ids \<Longrightarrow> \<exists>l sl. net_links net i = Some l \<and> links i = Some sl \<and>
      create_sim_link l part (effective_cell_size net) config net = Some sl" by blast+
qed

text \<open>The links of a partition: those that touch one of its nodes.\<close>

definition touches :: "network \<Rightarrow> part_id \<Rightarrow> link_id \<Rightarrow> link \<Rightarrow> node \<Rightarrow> node \<Rightarrow> bool" where
  "touches net part i l nf nt \<longleftrightarrow> net_links net i = Some l \<and> net_nodes net (link_from l) = Some nf \<and>
     net_nodes net (link_to l) = Some nt \<and> (node_partition nf = part \<or> node_partition nt = part)"

lemma partition_link_ids:
  assumes inv: "net_inv net" and o: "set js = dom (net_nodes net)"
  shows "i \<in> set (concat (map (\<lambda>n. in_links n @ out_links n)
      (filter (\<lambda>n. node_partition n = part) (map (\<lambda>i. the (net_nodes net i)) js)))) \<longleftrightarrow> (\<exists>l nf nt. touches net part i l nf nt)"
    (is "i \<in> set ?ids \<longleftrightarrow> ?R")
proof
  assume "i \<in> set ?ids"
  then obtain j n where n: "net_nodes net j = Some n" "node_partition n = part" "i \<in> ins_of net j \<or> i \<in> outs_of net j"
    using o net_invD(1)[OF inv] by fastforce
  then obtain l where l: "net_links net i = Some l" "link_to l = j \<or> link_from l = j" by (auto simp: ins_of_def outs_of_def)
  then show ?R using net_invD(2)[OF inv l(1)] n by (auto simp: touches_def)
next
  assume ?R
  then obtain l nf nt where l: "net_links net i = Some l" and nf: "net_nodes net (link_from l) = Some nf"
    and nt: "net_nodes net (link_to l) = Some nt" and p: "node_partition nf = part \<or> node_partition nt = part"
    by (auto simp: touches_def)
  let ?nodes = "filter (\<lambda>n. node_partition n = part) (map (\<lambda>i. the (net_nodes net i)) js)"
  have "i \<in> set (out_links nf)" "i \<in> set (in_links nt)"
    using net_invD(1)[OF inv nf] net_invD(1)[OF inv nt] l by (auto simp: outs_of_def ins_of_def)
  moreover have "nf \<in> set ?nodes \<or> nt \<in> set ?nodes" using p nf nt o by force
  ultimately show "i \<in> set ?ids" by auto
qed

lemma from_network_links:
  assumes net: "from_network ord net part config rnd = Some snp" and inv: "net_inv net" and ord: "hash_order ord"
  shows "snp_links snp i = Some sl \<Longrightarrow> \<exists>l nf nt. touches net part i l nf nt \<and>
      create_sim_link l part (effective_cell_size net) config net = Some sl"
    and "touches net part i l nf nt \<Longrightarrow> \<exists>sl. snp_links snp i = Some sl \<and>
      create_sim_link l part (effective_cell_size net) config net = Some sl"
proof -
  obtain ids links nodes clock where ids: "ids = concat (map (\<lambda>n. in_links n @ out_links n)
      (filter (\<lambda>n. node_partition n = part) (map (\<lambda>i. the (net_nodes net i)) (ord (dom (net_nodes net))))))"
    and f: "foldM (add_sim_link part config net) ids Map.empty = Some links"
    and snp: "snp = snp_build nodes links part rnd clock"
    using net by (auto simp: from_network_def Let_def)
  have links: "snp_links snp = links" by (simp add: snp snp_build_def)
  have o: "set (ord (dom (net_nodes net))) = dom (net_nodes net)"
    using hash_order.ord_set[OF ord] net_invD(3)[OF inv] by blast
  note mem = partition_link_ids[OF inv o, of _ part, folded ids]
  show "\<exists>l nf nt. touches net part i l nf nt \<and> create_sim_link l part (effective_cell_size net) config net = Some sl"
    if "snp_links snp i = Some sl"
  proof -
    have "i \<in> set ids" using that add_sim_links_spec(1)[OF f inv] links by (metis option.distinct(1))
    then show ?thesis using that add_sim_links_spec(2)[OF f inv] mem[of i] links by (fastforce simp: touches_def)
  qed
  show "\<exists>sl. snp_links snp i = Some sl \<and> create_sim_link l part (effective_cell_size net) config net = Some sl"
    if t: "touches net part i l nf nt"
  proof -
    have "i \<in> set ids" using mem t by blast
    then show ?thesis using add_sim_links_spec(2)[OF f inv] t links by (fastforce simp: touches_def)
  qed
qed

lemma create_sim_link_neighbor:
  assumes "create_sim_link l part cell config net = Some sl" and "touches net part i l nf nt"
  shows "is_split sl \<longleftrightarrow> node_partition nf \<noteq> node_partition nt"
    and "is_split sl \<Longrightarrow> neighbor_part sl = Some (if node_partition nt = part then node_partition nf else node_partition nt)"
  using assms by (auto simp: create_sim_link_def touches_def get_node_def Let_def il_new_def ol_new_def split: if_splits)

lemma neighbors_from_network:
  assumes net: "from_network ord net part config rnd = Some snp" and inv: "net_inv net" and ord: "hash_order ord"
  shows "neighbors snp = net_neighbors net part"
proof (intro set_eqI iffI)
  fix q assume "q \<in> neighbors snp"
  then obtain i sl where sl: "snp_links snp i = Some sl" "is_split sl" "neighbor_part sl = Some q"
    by (auto simp: neighbors_def)
  then obtain l nf nt where t: "touches net part i l nf nt"
    and c: "create_sim_link l part (effective_cell_size net) config net = Some sl"
    using from_network_links(1)[OF net inv ord] by blast
  show "q \<in> net_neighbors net part"
    using create_sim_link_neighbor[OF c t] sl t unfolding net_neighbors_def touches_def by (auto split: if_splits)
next
  fix q assume "q \<in> net_neighbors net part"
  then obtain i l nf nt where t: "touches net part i l nf nt" and q: "q \<noteq> part"
    and p: "node_partition nf = part \<and> node_partition nt = q \<or> node_partition nf = q \<and> node_partition nt = part"
    by (auto simp: net_neighbors_def touches_def)
  obtain sl where sl: "snp_links snp i = Some sl" and c: "create_sim_link l part (effective_cell_size net) config net = Some sl"
    using from_network_links(2)[OF net inv ord t] by blast
  have "is_split sl" "neighbor_part sl = Some q" using create_sim_link_neighbor[OF c t] p q by auto
  then show "q \<in> neighbors snp" using sl by (auto simp: neighbors_def)
qed

section \<open>Vehicles in messages\<close>

definition msgs_vehicles :: "sync_message multiset \<Rightarrow> sim_vehicle multiset" where
  "msgs_vehicles M = (\<Sum>m \<in># M. mset (sm_vehicles m))"

lemma msgs_vehicles_simps [simp]:
  "msgs_vehicles {#} = {#}" "msgs_vehicles (add_mset m M) = mset (sm_vehicles m) + msgs_vehicles M"
  "msgs_vehicles (M + M') = msgs_vehicles M + msgs_vehicles M'"
  by (simp_all add: msgs_vehicles_def)

text \<open>The vehicles that a process holds in messages: collected, being sent, received, cached or handed out.\<close>

definition proc_vehicles :: "process \<Rightarrow> sim_vehicle multiset" where
  "proc_vehicles pr = map_sum (\<lambda>m. mset (sm_vehicles m)) (nb_out (pr_broker pr)) +
     msgs_vehicles (mset (map snd (phase_out (pr_phase pr))) + mset (phase_result (pr_phase pr)) +
       mset (nb_in (pr_broker pr)) + mset (concat (map snd (pr_log pr))))"

definition cluster_vehicles :: "topology \<Rightarrow> cluster \<Rightarrow> sim_vehicle multiset" where
  "cluster_vehicles tp c = (\<Sum>p \<in> tp_parts tp. proc_vehicles (the (cl_procs c p)) + msgs_vehicles (mset (cl_chan c p)))"

lemma cluster_vehicles_update:
  assumes "finite (tp_parts tp)" and "p \<in> tp_parts tp"
    and "proc_vehicles pr' + msgs_vehicles (mset (ch' p)) = X + (proc_vehicles (the (cl_procs c p)) + msgs_vehicles (mset (cl_chan c p)))"
    and "\<And>r. r \<noteq> p \<Longrightarrow> ch' r = cl_chan c r"
  shows "cluster_vehicles tp (set_proc p pr' (c\<lparr>cl_chan := ch'\<rparr>)) = X + cluster_vehicles tp c"
proof -
  let ?f = "\<lambda>c q. proc_vehicles (the (cl_procs c q)) + msgs_vehicles (mset (cl_chan c q))"
  let ?c = "set_proc p pr' (c\<lparr>cl_chan := ch'\<rparr>)"
  have "(\<Sum>q \<in> tp_parts tp - {p}. ?f ?c q) = (\<Sum>q \<in> tp_parts tp - {p}. ?f c q)"
    using assms(4) by (intro sum.cong) (auto simp: set_proc_def)
  moreover have "?f ?c p = X + ?f c p" using assms(3) by (simp add: set_proc_def)
  ultimately show ?thesis
    unfolding cluster_vehicles_def sum.remove[OF assms(1,2)] by (simp add: ac_simps)
qed

lemma proc_vehicles_begin:
  assumes ok: "proc_ok tp p pr" and w: "pr_phase pr = Working" and sub: "tp_neighbors tp p \<subseteq> tp_parts tp"
    and fin: "finite (tp_parts tp)" and ord: "hash_order ord"
  shows "proc_vehicles (begin_exchange ord pr) = proc_vehicles pr"
proof -
  have heap: "heap_inv msg_le (nb_in (pr_broker pr))" using ok by (simp add: proc_ok_def Let_def)
  obtain ms ex h msgs out where pop: "pop_from_cache (pr_now pr) (nb_in (pr_broker pr)) (nb_neighbors (pr_broker pr)) = (ms, ex, h)"
    and msgs: "msgs = fst (prepare_send_recv_vehicles (pr_now pr) (pr_broker pr))"
    and out: "out = map (\<lambda>p. (p, the (msgs p))) (ord (dom msgs))"
    and pr': "begin_exchange ord pr = pr\<lparr>pr_broker := (pr_broker pr)\<lparr>nb_out := Map.empty, nb_in := h\<rparr>,
       pr_phase := (if nb_global_sync (pr_broker pr) then At_Barrier out ex ms else Sending out ex ms)\<rparr>"
    by (rule begin_exchange_cases)
  note prep = prepared_messages[OF ok sub msgs]
  have fd: "finite (dom msgs)" using finite_subset[OF prep(1) fin] .
  have "msgs_vehicles (mset (map snd out)) = (\<Sum>t \<in># mset (ord (dom msgs)). mset (sm_vehicles (the (msgs t))))"
    by (simp add: out msgs_vehicles_def comp_def multiset.map_comp)
  also have "\<dots> = map_sum (\<lambda>m. mset (sm_vehicles m)) (nb_out (pr_broker pr))"
    by (rule prepared_sum[OF ord fd msgs]) simp
  finally have o: "msgs_vehicles (mset (map snd out)) = map_sum (\<lambda>m. mset (sm_vehicles m)) (nb_out (pr_broker pr))" .
  have "mset (nb_in (pr_broker pr)) = mset ms + mset h" using pop_from_cache_spec[OF heap pop] by simp
  then show ?thesis
    using o w unfolding pr' proc_vehicles_def by (simp add: map_sum_def ac_simps)
qed

lemma comm_step_vehicles:
  assumes step: "comm_step ord (tp_last tp) c c'" and inv: "cluster_inv tp c" and tp: "topology_ok tp" and ord: "hash_order ord"
  shows "cluster_vehicles tp c' = cluster_vehicles tp c"
proof -
  have fin: "finite (tp_parts tp)" and sub: "\<And>p. tp_neighbors tp p \<subseteq> tp_parts tp" using tp by (auto simp: topology_ok_def)
  note upd = cluster_vehicles_update[where c = c and X = "{#}", OF fin cluster_invD(3)[OF inv]]
  have same: "c\<lparr>cl_chan := cl_chan c\<rparr> = c" by simp
  show ?thesis
    using step
  proof (cases rule: comm_step.cases)
    case (start p pr)
    then show ?thesis
      using upd[OF start(2), of "begin_exchange ord pr" "cl_chan c"] same
        proc_vehicles_begin[OF cluster_invD(1)[OF inv start(2)] _ sub fin ord] by simp
  next
    case (barrier p)
    have "proc_vehicles (pr\<lparr>pr_phase := release (pr_phase pr)\<rparr>) = proc_vehicles pr" if "cl_procs c q = Some pr" for q pr
      using release_props[OF barrier(2)[rule_format, OF that]] by (simp add: proc_vehicles_def)
    moreover have "\<forall>q \<in> tp_parts tp. \<exists>pr. cl_procs c q = Some pr" using inv by (auto simp: cluster_inv_def)
    ultimately show ?thesis unfolding barrier cluster_vehicles_def by (intro sum.cong) fastforce+
  next
    case (send p pr t m out ex res)
    let ?pr = "pr\<lparr>pr_phase := Sending out ex res\<rparr>" and ?ch = "(cl_chan c)(t := cl_chan c t @ [m])"
    have p: "p \<in> tp_parts tp" and t: "t \<in> tp_parts tp" using send inv by (auto simp: cluster_inv_def)
    have "proc_vehicles pr = mset (sm_vehicles m) + proc_vehicles ?pr" using send by (simp add: proc_vehicles_def ac_simps)
    then have "mset (sm_vehicles m) + (\<Sum>q \<in> tp_parts tp. proc_vehicles (the (((cl_procs c)(p \<mapsto> ?pr)) q))) =
        (\<Sum>q \<in> tp_parts tp. proc_vehicles (the (cl_procs c q)))"
      using fin p send by (simp add: sum.remove[of _ p])
    moreover have "(\<Sum>q \<in> tp_parts tp. msgs_vehicles (mset (?ch q))) =
        mset (sm_vehicles m) + (\<Sum>q \<in> tp_parts tp. msgs_vehicles (mset (cl_chan c q)))"
      using fin t by (simp add: sum.remove[of _ t] ac_simps)
    ultimately show ?thesis unfolding send cluster_vehicles_def sum.distrib by (simp add: set_proc_def ac_simps)
  next
    case (sent p pr ex res)
    then show ?thesis using upd[OF sent(2), of "pr\<lparr>pr_phase := Receiving ex res\<rparr>" "cl_chan c"] same by (simp add: proc_vehicles_def)
  next
    case (recv p pr ex res m ch)
    have heap: "heap_inv msg_le (nb_in (pr_broker pr))"
      using cluster_invD(1)[OF inv recv(2)] by (simp add: proc_ok_def Let_def)
    obtain ex' res' h' where r: "receive_one (pr_now pr) m (ex, res, nb_in (pr_broker pr)) = (ex', res', h')" by (metis prod_cases3)
    then have "mset res' + mset h' = add_mset m (mset res + mset (nb_in (pr_broker pr)))"
      using handle_incoming_mset[OF heap, of "pr_now pr" m res res' h'] by (auto simp: receive_one_def split: if_splits)
    then have "msgs_vehicles (mset res') + msgs_vehicles (mset h') =
        mset (sm_vehicles m) + (msgs_vehicles (mset res) + msgs_vehicles (mset (nb_in (pr_broker pr))))"
      by (metis msgs_vehicles_simps(2,3))
    then have "proc_vehicles (receive_into m ex res pr) = mset (sm_vehicles m) + proc_vehicles pr"
      using recv r by (simp add: proc_vehicles_def receive_into_def)
    then show ?thesis using upd[OF recv(2), of "receive_into m ex res pr" "(cl_chan c)(p := ch)"] recv by (simp add: ac_simps)
  next
    case (finish p pr res)
    then show ?thesis
      using upd[OF finish(2), of "pr\<lparr>pr_now := tick_next (pr_now pr), pr_phase := Working, pr_log := pr_log pr @ [(pr_now pr, res)]\<rparr>" "cl_chan c"]
        same by (simp add: proc_vehicles_def ac_simps)
  qed
qed

section \<open>The processes of a partitioned network\<close>

definition net_topology :: "network \<Rightarrow> nat \<Rightarrow> bool \<Rightarrow> tick \<Rightarrow> tick \<Rightarrow> topology" where
  "net_topology net n global_sync start_tick last_tick = \<lparr>tp_parts = {..<n}, tp_neighbors = net_neighbors net,
     tp_global_sync = global_sync, tp_start = start_tick, tp_last = last_tick\<rparr>"

text \<open>One process per partition, each with its network, a new broker and an empty channel.\<close>

definition cluster_init :: "(part_id \<Rightarrow> sim_network) \<Rightarrow> network \<Rightarrow> bool \<Rightarrow> nat \<Rightarrow> tick \<Rightarrow> cluster" where
  "cluster_init snps net global_sync n start_tick = \<lparr>cl_procs = (\<lambda>p. if p < n
       then Some \<lparr>pr_now = start_tick, pr_broker = nb_new p net (snps p) global_sync, pr_phase = Working, pr_log = []\<rparr>
       else None), cl_chan = (\<lambda>_. [])\<rparr>"

definition partitioned :: "network \<Rightarrow> nat \<Rightarrow> bool" where
  "partitioned net n \<longleftrightarrow> net_inv net \<and> (\<forall>i nd. net_nodes net i = Some nd \<longrightarrow> node_partition nd < n) \<and>
     (\<forall>i l. net_links net i = Some l \<longrightarrow> link_partition l < n)"

text \<open>A simulation: the network of every partition is built from the partitioned network.\<close>

definition simulation_setup :: "(node_id set \<Rightarrow> node_id list) \<Rightarrow> network \<Rightarrow> nat \<Rightarrow> f64 qsim_config \<Rightarrow>
    (part_id \<Rightarrow> node_id \<Rightarrow> nat \<Rightarrow> f64) \<Rightarrow> (part_id \<Rightarrow> sim_network) \<Rightarrow> bool" where
  "simulation_setup ord net n config rnd snps \<longleftrightarrow> hash_order ord \<and> partitioned net n \<and>
     (\<forall>p < n. from_network ord net p config (rnd p) = Some (snps p))"

lemma net_topology_ok:
  assumes "partitioned net n" and "last_tick < u64_max"
  shows "topology_ok (net_topology net n global_sync start_tick last_tick)"
  using assms net_neighbors.neighbor_relation_axioms
  by (auto simp: topology_ok_def net_topology_def partitioned_def net_neighbors_def)

lemma cluster_init_inv:
  assumes sim: "simulation_setup ord net n config rnd snps" and start: "start_tick \<le> last_tick + 1"
  shows "cluster_inv (net_topology net n global_sync start_tick last_tick) (cluster_init snps net global_sync n start_tick)"
proof -
  let ?pr = "\<lambda>p. \<lparr>pr_now = start_tick, pr_broker = nb_new p net (snps p) global_sync, pr_phase = Working, pr_log = []\<rparr>"
  have inv: "net_inv net" and ord: "hash_order ord" using sim by (auto simp: simulation_setup_def partitioned_def)
  have nb: "neighbors (snps p) = net_neighbors net p" if "p < n" for p
    using neighbors_from_network[OF _ inv ord] sim that by (auto simp: simulation_setup_def)
  have ran: "ran (\<lambda>l. map_option link_partition (net_links net l)) \<subseteq> {..<n}"
    using sim by (auto simp: simulation_setup_def partitioned_def ran_def)
  have "proc_ok (net_topology net n global_sync start_tick last_tick) p (?pr p)" if "p < n" for p
    using nb[OF that] ran start by (simp add: proc_ok_def net_topology_def nb_new_def heap_inv_def)
  moreover have "pair_ok q p (?pr q) (?pr p) []" for q p
    by (simp add: pair_ok_def heard_def told_def pending_def nb_new_def)
  ultimately show ?thesis
    by (auto simp: cluster_inv_def cluster_init_def net_topology_def split: if_splits)
qed

lemma simulation_inv:
  assumes "simulation_setup ord net n config rnd snps" and "start_tick \<le> last_tick + 1" and "last_tick < u64_max"
    and "hash_order pord" and "(run_step pord last_tick)\<^sup>*\<^sup>* (cluster_init snps net global_sync n start_tick) c"
  shows "cluster_inv (net_topology net n global_sync start_tick last_tick) c"
    and "topology_ok (net_topology net n global_sync start_tick last_tick)"
proof -
  let ?tp = "net_topology net n global_sync start_tick last_tick"
  show tp: "topology_ok ?tp" using net_topology_ok assms(1,3) by (simp add: simulation_setup_def)
  have "tp_last ?tp = last_tick" by (simp add: net_topology_def)
  then show "cluster_inv ?tp c" using run_inv[of pord ?tp] assms cluster_init_inv[OF assms(1,2)] tp by metis
qed

section \<open>Nothing is handed out before its tick\<close>

definition proc_due :: "process \<Rightarrow> bool" where
  "proc_due pr \<longleftrightarrow> (\<forall>m \<in> set (phase_result (pr_phase pr)). sm_time m \<le> pr_now pr) \<and>
     (\<forall>x \<in> set (pr_log pr). \<forall>m \<in> set (snd x). sm_time m \<le> fst x)"

definition log_due :: "cluster \<Rightarrow> bool" where
  "log_due c \<longleftrightarrow> (\<forall>p pr. cl_procs c p = Some pr \<longrightarrow> proc_due pr)"

lemma pop_from_cache_due: "pop_from_cache now h expected = (ms, ex, h') \<Longrightarrow> m \<in> set ms \<Longrightarrow> sm_time m \<le> now"
proof (induction now h expected arbitrary: ms ex h' rule: pop_from_cache.induct)
  case (1 now h expected)
  then show ?case
    by (subst (asm) (2) pop_from_cache.simps) (auto split: option.splits prod.splits if_splits)
qed

lemma log_due_set_proc:
  assumes "log_due c" and "proc_due pr"
  shows "log_due (set_proc p pr (c\<lparr>cl_chan := ch\<rparr>))" "log_due (set_proc p pr c)"
  using assms by (simp_all add: log_due_def set_proc_def)

lemma begin_exchange_due:
  assumes "proc_due pr"
  shows "proc_due (begin_exchange ord pr)"
proof -
  obtain cached ex h where pop: "pop_from_cache (pr_now pr) (nb_in (pr_broker pr)) (nb_neighbors (pr_broker pr)) = (cached, ex, h)"
    by (metis prod_cases3)
  then have "phase_result (pr_phase (begin_exchange ord pr)) = cached" "pr_now (begin_exchange ord pr) = pr_now pr"
      "pr_log (begin_exchange ord pr) = pr_log pr"
    by (simp_all add: begin_exchange_def prepare_send_recv_vehicles_def Let_def)
  then show ?thesis using pop_from_cache_due[OF pop] assms by (simp add: proc_due_def)
qed

lemma receive_into_due:
  assumes "proc_due pr" and "pr_phase pr = Receiving expected result"
  shows "proc_due (receive_into m expected result pr)"
proof -
  obtain ex res h where r: "receive_one (pr_now pr) m (expected, result, nb_in (pr_broker pr)) = (ex, res, h)"
    by (metis prod_cases3)
  then have "\<forall>x \<in> set res. sm_time x \<le> pr_now pr"
    using assms by (auto simp: proc_due_def receive_one_def handle_incoming_msg_def split: if_splits)
  then show ?thesis using r assms(1) by (simp add: receive_into_def proc_due_def)
qed

lemma run_step_due:
  assumes "run_step ord last_tick c c'" and due: "log_due c"
  shows "log_due c'"
  using assms(1)[unfolded run_step_def]
proof
  have old: "proc_due pr" if "cl_procs c p = Some pr" for p pr using due that by (auto simp: log_due_def)
  assume "work_step c c'"
  then show ?thesis
  proof cases
    case (veh p pr v b)
    then show ?thesis using old[OF veh(2)] by (auto intro: log_due_set_proc[OF due] simp: proc_due_def)
  next
    case (cap p pr cap)
    then show ?thesis using old[OF cap(2)] by (auto intro: log_due_set_proc[OF due] simp: proc_due_def)
  qed
next
  have old: "proc_due pr" if "cl_procs c p = Some pr" for p pr using due that by (auto simp: log_due_def)
  assume "comm_step ord last_tick c c'"
  then show ?thesis
  proof cases
    case (start p pr)
    then show ?thesis using begin_exchange_due[OF old[OF start(2)]] log_due_set_proc(2)[OF due] by blast
  next
    case barrier
    have "phase_result (release ph) = phase_result ph" for ph by (cases ph) simp_all
    then have "proc_due (pr\<lparr>pr_phase := release (pr_phase pr)\<rparr>)" if "cl_procs c p = Some pr" for p pr
      using old[OF that] by (simp add: proc_due_def)
    then show ?thesis unfolding barrier(1) by (auto simp: log_due_def)
  next
    case (send p pr t m out expected result)
    then show ?thesis using old[OF send(2)] log_due_set_proc(1)[OF due] by (simp add: proc_due_def)
  next
    case (sent p pr expected result)
    then show ?thesis using old[OF sent(2)] log_due_set_proc(2)[OF due] by (simp add: proc_due_def)
  next
    case (recv p pr expected result m ch)
    then show ?thesis using receive_into_due[OF old[OF recv(2)] recv(3)] log_due_set_proc(1)[OF due] by blast
  next
    case (finish p pr result)
    then have "proc_due (pr\<lparr>pr_now := tick_next (pr_now pr), pr_phase := Working, pr_log := pr_log pr @ [(pr_now pr, result)]\<rparr>)"
      using old[OF finish(2)] by (auto simp: proc_due_def)
    then show ?thesis using finish(1) log_due_set_proc(2)[OF due] by blast
  qed
qed

lemma run_due:
  assumes "(run_step ord last_tick)\<^sup>*\<^sup>* (cluster_init snps net global_sync n start_tick) c"
  shows "log_due c"
  using assms
proof (induction rule: rtranclp_induct)
  case base
  then show ?case by (simp add: log_due_def proc_due_def cluster_init_def)
qed (rule run_step_due)

text \<open>
  C17. In every run of the processes of a partitioned network, in every interleaving of their
  work, sends and receives and for every hash order: neighbouring partitions are never more than
  one tick apart, and each call of \<open>send_recv\<close> returned, for each neighbour, exactly one message,
  the one the neighbour sent in the same tick, and no message of a later tick. A vehicle can be sent
  to a partition that is no neighbour; such a message comes in addition.
\<close>

theorem neighbors_in_step:
  assumes "simulation_setup ord net n config rnd snps" and "start_tick \<le> last_tick + 1" and "last_tick < u64_max"
    and "hash_order pord" and "(run_step pord last_tick)\<^sup>*\<^sup>* (cluster_init snps net global_sync n start_tick) c"
    and "cl_procs c p = Some pr" and "cl_procs c q = Some prq" and "q \<in> net_neighbors net p"
  shows "pr_now pr \<le> pr_now prq + 1 \<and> pr_now prq \<le> pr_now pr + 1 \<and> map fst (pr_log pr) = [start_tick..<pr_now pr] \<and>
    (\<forall>(t, received) \<in> set (pr_log pr).
       image_mset sm_time (filter_mset (\<lambda>m. sm_from m = q) (mset received)) = {#t#} \<and>
       (\<forall>m \<in> set received. sm_time m \<le> t))"
proof -
  let ?tp = "net_topology net n global_sync start_tick last_tick"
  note inv = simulation_inv(1)[OF assms(1-5)]
  have N: "tp_neighbors ?tp = net_neighbors net" and S: "tp_start ?tp = start_tick" by (simp_all add: net_topology_def)
  have "p \<in> net_neighbors net q" using net_neighbors.nbs_sym[OF assms(8)] .
  then have "pr_now pr \<le> pr_now prq + 1" "pr_now prq \<le> pr_now pr + 1"
    using neighbor_ticks[OF inv assms(6,7)] neighbor_ticks[OF inv assms(7,6)] assms(8) N by auto
  moreover have "map fst (pr_log pr) = [start_tick..<pr_now pr]"
    "\<forall>(t, received) \<in> set (pr_log pr). result_ok (net_neighbors net p) t {} received"
    using cluster_invD(1)[OF inv assms(6)] N S by (simp_all add: proc_ok_def Let_def)
  moreover have "\<forall>(t, received) \<in> set (pr_log pr). \<forall>m \<in> set received. sm_time m \<le> t"
    using run_due[OF assms(5)] assms(6) by (force simp: log_due_def proc_due_def)
  ultimately show ?thesis using assms(8) by (fastforce simp: result_ok_def)
qed

text \<open>
  C18. The exchange of messages can neither deadlock nor go on forever: from every state that a
  run reaches, with or without the global barrier, there is no infinite sequence of exchange
  steps, and whenever no step is possible all processes have finished the last tick and every
  message of a neighbour has been handed out.
\<close>

theorem exchange_completes:
  assumes "simulation_setup ord net n config rnd snps" and "start_tick \<le> last_tick + 1" and "last_tick < u64_max"
    and "hash_order pord" and "(run_step pord last_tick)\<^sup>*\<^sup>* (cluster_init snps net global_sync n start_tick) c"
  shows "(\<nexists>f. f 0 = c \<and> (\<forall>i. comm_step pord last_tick (f i) (f (Suc i)))) \<and>
    ((\<nexists>c'. comm_step pord last_tick c c') \<longrightarrow> (\<forall>p < n. \<exists>pr. cl_procs c p = Some pr \<and> pr_now pr = last_tick + 1 \<and>
       (\<forall>m \<in> set (cl_chan c p) \<union> set (nb_in (pr_broker pr)). sm_from m \<notin> net_neighbors net p)))"
proof (intro conjI impI notI allI)
  let ?tp = "net_topology net n global_sync start_tick last_tick"
  note inv = simulation_inv(1)[OF assms] and tp = simulation_inv(2)[OF assms]
  have T: "tp_last ?tp = last_tick" "tp_neighbors ?tp = net_neighbors net" "tp_parts ?tp = {..<n}"
    by (simp_all add: net_topology_def)
  assume "\<exists>f. f 0 = c \<and> (\<forall>i. comm_step pord last_tick (f i) (f (Suc i)))"
  then obtain f where f0: "f 0 = c" and f: "\<And>i. comm_step pord last_tick (f i) (f (Suc i))" by blast
  have inv_i: "cluster_inv ?tp (f i)" for i
  proof (induction i)
    case (Suc i)
    then show ?case using run_step_inv[of pord ?tp "f i" "f (Suc i)"] f tp assms(4) T(1) by (simp add: run_step_def)
  qed (simp add: f0 inv)
  have "work_left ?tp (f (Suc i)) < work_left ?tp (f i)" for i
    using comm_step_work[of pord ?tp "f i" "f (Suc i)"] f inv_i tp assms(4) T(1) by simp
  then show False using wf_less wf_no_infinite_down_chainE[of "{(x, y). x < (y::nat)}" "\<lambda>i. work_left ?tp (f i)"] by auto
next
  let ?tp = "net_topology net n global_sync start_tick last_tick"
  note inv = simulation_inv(1)[OF assms] and tp = simulation_inv(2)[OF assms]
  have T: "tp_last ?tp = last_tick" "tp_neighbors ?tp = net_neighbors net" "tp_parts ?tp = {..<n}"
    by (simp_all add: net_topology_def)
  assume stuck: "\<nexists>c'. comm_step pord last_tick c c'"
  have finished: "pr_now pr = last_tick + 1 \<and> pr_phase pr = Working" if p: "cl_procs c p = Some pr" for p pr
  proof -
    have "\<not> pr_now pr \<le> last_tick" using progress[OF inv tp p, of pord] stuck T(1) by auto
    then show ?thesis using cluster_invD(1)[OF inv p] T(1) by (auto simp: proc_ok_def Let_def)
  qed
  fix p assume "p < n"
  moreover have "dom (cl_procs c) = {..<n}" using inv T(3) by (simp add: cluster_inv_def)
  ultimately have "p \<in> dom (cl_procs c)" by simp
  then obtain pr where p: "cl_procs c p = Some pr" by blast
  have "sm_from m \<notin> net_neighbors net p" if m: "m \<in> set (cl_chan c p) \<union> set (nb_in (pr_broker pr))" for m
  proof
    assume q: "sm_from m \<in> net_neighbors net p"
    then have "sm_from m \<in> dom (cl_procs c)" using inv tp T by (auto simp: cluster_inv_def topology_ok_def)
    then obtain prq where prq: "cl_procs c (sm_from m) = Some prq" by blast
    have "pending (sm_from m) (cl_chan c p) pr = {#}"
      using cluster_invD(2)[OF inv p prq] q T(2) finished[OF p] finished[OF prq] by (simp add: pair_ok_def heard_def told_def)
    then show False using m by (auto simp: pending_from_times from_times_empty)
  qed
  then show "\<exists>pr. cl_procs c p = Some pr \<and> pr_now pr = last_tick + 1 \<and>
      (\<forall>m \<in> set (cl_chan c p) \<union> set (nb_in (pr_broker pr)). sm_from m \<notin> net_neighbors net p)"
    using p finished[OF p] by blast
qed

text \<open>
  C19. No vehicle is lost or duplicated in the exchange of messages: every step of it keeps the
  bag of the vehicles that are collected for sending, in channels, in caches, in results under
  construction and in results already handed out.
\<close>

theorem exchange_conserves_vehicles:
  assumes "simulation_setup ord net n config rnd snps" and "start_tick \<le> last_tick + 1" and "last_tick < u64_max"
    and "hash_order pord" and "(run_step pord last_tick)\<^sup>*\<^sup>* (cluster_init snps net global_sync n start_tick) c"
    and "comm_step pord last_tick c c'"
  shows "cluster_vehicles (net_topology net n global_sync start_tick last_tick) c' =
    cluster_vehicles (net_topology net n global_sync start_tick last_tick) c"
proof -
  have "tp_last (net_topology net n global_sync start_tick last_tick) = last_tick" by (simp add: net_topology_def)
  then show ?thesis using comm_step_vehicles[OF _ simulation_inv[OF assms(1-5)] assms(4)] assms(6) by simp
qed

section \<open>Example: two partitions\<close>

lemma from_network_total:
  assumes inv: "net_inv net" and ord: "hash_order ord" and clock: "clock_new (qc_ticks_per_second config) = Some clock"
    and threshold: "secs_to_tick clock (qc_stuck_threshold config) = Some t"
  shows "\<exists>snp. from_network ord net part config rnd = Some snp"
proof -
  let ?nodes = "filter (\<lambda>n. node_partition n = part) (map (\<lambda>i. the (net_nodes net i)) (ord (dom (net_nodes net))))"
  let ?ids = "concat (map (\<lambda>n. in_links n @ out_links n) ?nodes)"
  have o: "set (ord (dom (net_nodes net))) = dom (net_nodes net)"
    using hash_order.ord_set[OF ord] net_invD(3)[OF inv] by blast
  have "\<exists>links. foldM (add_sim_link part config net) ?ids Map.empty = Some links \<and> True"
  proof (rule foldM_total[where P = "\<lambda>_. True"])
    fix i m assume "i \<in> set ?ids"
    then obtain l nf nt where "touches net part i l nf nt" using partition_link_ids[OF inv o] by blast
    then show "\<exists>links. add_sim_link part config net i m = Some links \<and> True"
      using clock threshold
      by (auto simp: touches_def add_sim_link_def get_link_def create_sim_link_def get_node_def Let_def from_link_def ll_build_def)
  qed simp
  then show ?thesis using clock by (auto simp: from_network_def Let_def)
qed

definition ex_net2 :: network where
  "ex_net2 = \<lparr>net_nodes = [1 \<mapsto> (node_new 1 ex_coord 0 1)\<lparr>out_links := [1]\<rparr>,
      2 \<mapsto> (node_new 2 ex_coord 0 1)\<lparr>in_links := [1], out_links := [2]\<rparr>,
      3 \<mapsto> (node_new 3 ex_coord 1 1)\<lparr>in_links := [2]\<rparr>],
     net_links = [1 \<mapsto> link_new 1 1 2 100 3600 20 1 {} 0, 2 \<mapsto> link_new 2 2 3 100 3600 20 1 {} 1],
     effective_cell_size = 15 / 2\<rparr>"

lemma ex_net2_inv: "net_inv ex_net2"
  by (auto simp: net_inv_def ex_net2_def node_new_def link_new_def ins_of_def outs_of_def split: if_splits)

lemma ex_net2_setup: "\<exists>snps. simulation_setup sorted_list_of_set ex_net2 2 ex_config (\<lambda>_ _ _. 0) snps"
proof -
  have "\<exists>snp. from_network sorted_list_of_set ex_net2 p ex_config (\<lambda>_ _. 0) = Some snp" for p
    by (rule from_network_total[OF ex_net2_inv sorted_order.hash_order_axioms, of ex_config 1 10])
      (simp_all add: ex_config_def clock_new_def secs_to_tick_def from_secs_def from_duration_def
        assert_duration_fits_simtime_def duration_from_secs_def nanos_per_second_def u64_max_def time_to_tick_def
        div_ceil_def as_nanos_def Let_def)
  then obtain snps where "\<And>p. from_network sorted_list_of_set ex_net2 p ex_config (\<lambda>_ _. 0) = Some (snps p)" by metis
  moreover have "partitioned ex_net2 2" using ex_net2_inv by (auto simp: partitioned_def ex_net2_def node_new_def link_new_def split: if_splits)
  ultimately show ?thesis using sorted_order.hash_order_axioms by (auto simp: simulation_setup_def)
qed

lemma ex_net2_neighbors: "1 \<in> net_neighbors ex_net2 0"
proof -
  have "net_links ex_net2 2 = Some (link_new 2 2 3 100 3600 20 1 {} 1)" by (simp add: ex_net2_def)
  moreover have "net_nodes ex_net2 2 = Some ((node_new 2 ex_coord 0 1)\<lparr>in_links := [1], out_links := [2]\<rparr>)"
    "net_nodes ex_net2 3 = Some ((node_new 3 ex_coord 1 1)\<lparr>in_links := [2]\<rparr>)" by (simp_all add: ex_net2_def)
  ultimately show ?thesis unfolding net_neighbors_def by (fastforce simp: link_new_sel node_new_def)
qed

theorem neighbors_in_step_witness:
  "\<exists>snps pr prq. simulation_setup sorted_list_of_set ex_net2 2 ex_config (\<lambda>_ _ _. 0) snps \<and>
     cl_procs (cluster_init snps ex_net2 False 2 0) 0 = Some pr \<and> cl_procs (cluster_init snps ex_net2 False 2 0) 1 = Some prq \<and>
     pr_now pr \<le> pr_now prq + 1"
proof -
  obtain snps where sim: "simulation_setup sorted_list_of_set ex_net2 2 ex_config (\<lambda>_ _ _. 0) snps" using ex_net2_setup by blast
  let ?c = "cluster_init snps ex_net2 False 2 0"
  obtain pr prq where pr: "cl_procs ?c 0 = Some pr" "cl_procs ?c 1 = Some prq" by (simp add: cluster_init_def)
  have "0 \<le> 10 + (1::nat)" "(10::nat) < u64_max" by (simp_all add: u64_max_def)
  then have "pr_now pr \<le> pr_now prq + 1"
    using neighbors_in_step[OF sim _ _ sorted_order.hash_order_axioms rtranclp.rtrancl_refl pr ex_net2_neighbors] by blast
  then show ?thesis using sim pr by blast
qed

theorem exchange_completes_witness:
  "\<exists>snps. simulation_setup sorted_list_of_set ex_net2 2 ex_config (\<lambda>_ _ _. 0) snps \<and>
     (\<nexists>f. f 0 = cluster_init snps ex_net2 True 2 0 \<and> (\<forall>i. comm_step sorted_list_of_set 10 (f i) (f (Suc i))))"
proof -
  obtain snps where sim: "simulation_setup sorted_list_of_set ex_net2 2 ex_config (\<lambda>_ _ _. 0) snps" using ex_net2_setup by blast
  have "0 \<le> 10 + (1::nat)" "(10::nat) < u64_max" by (simp_all add: u64_max_def)
  from exchange_completes[OF sim this sorted_order.hash_order_axioms rtranclp.rtrancl_refl] show ?thesis using sim by blast
qed

theorem exchange_conserves_vehicles_witness:
  "\<exists>snps c'. simulation_setup sorted_list_of_set ex_net2 2 ex_config (\<lambda>_ _ _. 0) snps \<and>
     comm_step sorted_list_of_set 10 (cluster_init snps ex_net2 False 2 0) c' \<and>
     cluster_vehicles (net_topology ex_net2 2 False 0 10) c' =
       cluster_vehicles (net_topology ex_net2 2 False 0 10) (cluster_init snps ex_net2 False 2 0)"
proof -
  obtain snps where sim: "simulation_setup sorted_list_of_set ex_net2 2 ex_config (\<lambda>_ _ _. 0) snps" using ex_net2_setup by blast
  let ?c = "cluster_init snps ex_net2 False 2 0"
  obtain pr where pr: "cl_procs ?c 0 = Some pr" "pr_phase pr = Working" "pr_now pr \<le> 10" by (simp add: cluster_init_def)
  note step = comm_step.start[OF pr, of sorted_list_of_set]
  have "0 \<le> 10 + (1::nat)" "(10::nat) < u64_max" by (simp_all add: u64_max_def)
  from exchange_conserves_vehicles[OF sim this sorted_order.hash_order_axioms rtranclp.rtrancl_refl step]
  show ?thesis using sim step by blast
qed

end
