(* ===== verification/Population.thy ===== *)
theory Population
  imports Agents Net_Graph "HOL-Library.Char_ord" "HOL-Library.List_Lexorder"
begin

text \<open>
  The population (\<open>scenario/population.rs\<close>, \<open>Population\<close>): persons by id, and the operations
  that split it over the partitions of the network and put it together again
  (\<open>scenario/mod.rs\<close>, \<open>population/agent_source.rs\<close>).

  A hash map of persons is a map; where the code iterates over one, the order is the
  parameter \<open>ord\<close>.
\<close>

section \<open>Data and operations\<close>

type_synonym population = "person_id \<rightharpoonup> internal_person"

definition population_new :: population where
  "population_new = Map.empty"

definition from_persons :: "internal_person list \<Rightarrow> population" where
  "from_persons ps = map_of (rev (map (\<lambda>p. (person_ident p, p)) ps))"

definition from_agents :: "agent list \<Rightarrow> population" where
  "from_agents as = from_persons (List.map_filter into_person as)"

definition first_activity :: "internal_person \<Rightarrow> internal_activity option" where
  "first_activity p = do { e \<leftarrow> plan_element_at p 0; e \<leftarrow> e; as_activity e }"

definition split_one :: "network \<Rightarrow> nat \<Rightarrow> population \<Rightarrow> person_id \<Rightarrow> population list \<Rightarrow> population list option" where
  "split_one net num_parts persons i parts = do {
     p \<leftarrow> persons i;
     a \<leftarrow> first_activity p;
     l \<leftarrow> get_link net (act_link_id a);
     _ \<leftarrow> ensure (link_partition l < num_parts);
     Some (parts[link_partition l := (parts ! link_partition l)(i \<mapsto> p)]) }"

definition split_by_start_link_partition :: "(person_id set \<Rightarrow> person_id list) \<Rightarrow> network \<Rightarrow> nat \<Rightarrow> population \<Rightarrow>
    population list option" where
  "split_by_start_link_partition ord net num_parts persons =
     foldM (split_one net num_parts persons) (ord (dom persons)) (replicate num_parts population_new)"

text \<open>\<open>take_from_filter\<close>: the population of the persons moved, and what is left.\<close>

definition take_one :: "person_id \<Rightarrow> population \<times> population \<Rightarrow> population \<times> population" where
  "take_one k s = (case s of (taken, left) \<Rightarrow>
     (case left k of Some p \<Rightarrow> (taken(k \<mapsto> p), left(k := None)) | None \<Rightarrow> (taken, left)))"

definition take_from_filter :: "(person_id set \<Rightarrow> person_id list) \<Rightarrow> (internal_person \<Rightarrow> bool) \<Rightarrow> population \<Rightarrow>
    population \<times> population" where
  "take_from_filter ord f persons =
     fold take_one (filter (\<lambda>k. case persons k of Some p \<Rightarrow> f p | None \<Rightarrow> False) (ord (dom persons))) (population_new, persons)"

definition starts_on_part :: "network \<Rightarrow> part_id \<Rightarrow> internal_person \<Rightarrow> bool option" where
  "starts_on_part net part p = do {
     a \<leftarrow> first_activity p;
     l \<leftarrow> get_link net (act_link_id a);
     Some (link_partition l = part) }"

text \<open>\<open>ControllerScenario::split_for_mobsim\<close> takes the population out of the controller.\<close>

definition split_for_mobsim :: "(person_id set \<Rightarrow> person_id list) \<Rightarrow> network \<Rightarrow> nat \<Rightarrow> population \<Rightarrow>
    (population list \<times> population) option" where
  "split_for_mobsim ord net num_parts persons = do {
     parts \<leftarrow> split_by_start_link_partition ord net num_parts persons;
     Some (parts, population_new) }"

definition replace_population :: "population \<Rightarrow> population \<Rightarrow> population option" where
  "replace_population new old = do { _ \<leftarrow> ensure (dom old = {}); Some new }"

section \<open>Agents of a population\<close>

datatype routing_mode = AdHoc | UsePlans

type_synonym agent_set = "person_id \<rightharpoonup> agent"

definition population_create_agents :: "(person_id set \<Rightarrow> person_id list) \<Rightarrow> population \<Rightarrow> agent_set option" where
  "population_create_agents ord persons = foldM (\<lambda>i agents. do {
     p \<leftarrow> persons i;
     a \<leftarrow> new_plan_based p;
     Some (agents(i \<mapsto> a)) }) (ord (dom persons)) Map.empty"

definition identify_logic :: "routing_mode \<Rightarrow> internal_person \<Rightarrow> agent option" where
  "identify_logic mode p =
     (if mode = UsePlans then new_plan_based p
      else do {
        plan \<leftarrow> selected_plan p;
        (if list_ex (\<lambda>a. act_attributes a ''preplanningHorizon'' \<noteq> None) (plan_acts plan)
         then new_adaptive_plan_based p else new_plan_based p) })"

definition preplanning_create_agents :: "(person_id set \<Rightarrow> person_id list) \<Rightarrow> routing_mode \<Rightarrow> population \<Rightarrow> agent_set option" where
  "preplanning_create_agents ord mode persons = foldM (\<lambda>i agents. do {
     p \<leftarrow> persons i;
     a \<leftarrow> identify_logic mode p;
     Some (agents(i \<mapsto> a)) }) (ord (dom persons)) Map.empty"

section \<open>Every person is stored under the own id\<close>

definition population_inv :: "population \<Rightarrow> bool" where
  "population_inv persons \<longleftrightarrow> finite (dom persons) \<and> (\<forall>i p. persons i = Some p \<longrightarrow> person_ident p = i)"

lemma from_persons_inv: "population_inv (from_persons ps)"
  using map_of_SomeD by (fastforce simp: population_inv_def from_persons_def finite_dom_map_of)

lemma foldM_insert:
  assumes "foldM (\<lambda>i m. do { v \<leftarrow> g i; Some (m(i \<mapsto> v)) }) xs m = Some m'"
  shows "m' = (\<lambda>i. if i \<in> set xs then g i else m i) \<and> (\<forall>i \<in> set xs. g i \<noteq> None)"
  using assms
proof (induction xs arbitrary: m)
  case (Cons x xs)
  then obtain v where v: "g x = Some v"
    and "foldM (\<lambda>i m. do { v \<leftarrow> g i; Some (m(i \<mapsto> v)) }) xs (m(x \<mapsto> v)) = Some m'"
    by (auto simp del: fun_upd_apply)
  from Cons.IH[OF this(2)] v show ?case by auto
qed simp

lemma bind_assoc_create:
  "(do { p \<leftarrow> persons i; a \<leftarrow> f p; Some (agents(i \<mapsto> a)) }) = (do { a \<leftarrow> Option.bind (persons i) f; Some (agents(i \<mapsto> a)) })"
  by (cases "persons i") simp_all

lemma new_agent_person:
  "new_plan_based p = Some a \<Longrightarrow> into_person a = Some p" "new_adaptive_plan_based p = Some a \<Longrightarrow> into_person a = Some p"
  by (auto simp: new_plan_based_def new_adaptive_plan_based_def pb_new_def ad_new_def into_person_def)

lemma identify_logic_person: "identify_logic mode p = Some a \<Longrightarrow> into_person a = Some p"
  by (auto simp: identify_logic_def new_agent_person split: if_splits)

lemma preplanning_create_agents_spec:
  assumes "preplanning_create_agents ord mode persons = Some agents" and "hash_order ord" and "finite (dom persons)"
  shows "agents i = Option.bind (persons i) (identify_logic mode)" and "i \<in> dom persons \<Longrightarrow> i \<in> dom agents"
proof -
  have "foldM (\<lambda>i agents. do { a \<leftarrow> Option.bind (persons i) (identify_logic mode); Some (agents(i \<mapsto> a)) }) (ord (dom persons)) Map.empty = Some agents"
    using assms(1) unfolding preplanning_create_agents_def bind_assoc_create .
  from foldM_insert[OF this] hash_order.ord_set[OF assms(2,3)]
  show "agents i = Option.bind (persons i) (identify_logic mode)" and "i \<in> dom persons \<Longrightarrow> i \<in> dom agents"
    by (auto simp: domIff)
qed

section \<open>Splitting\<close>

definition start_partition :: "network \<Rightarrow> internal_person \<Rightarrow> part_id option" where
  "start_partition net p = do { a \<leftarrow> first_activity p; l \<leftarrow> get_link net (act_link_id a); Some (link_partition l) }"

lemma split_one_cases:
  assumes "split_one net n persons i parts = Some parts'"
  obtains p r where "persons i = Some p" and "start_partition net p = Some r" and "r < n"
    and "parts' = parts[r := (parts ! r)(i \<mapsto> p)]"
  using assms by (auto simp: split_one_def start_partition_def)

lemma split_fold:
  assumes "foldM (split_one net n persons) xs parts = Some parts'" and "length parts = n"
  shows "length parts' = n \<and> (\<forall>i \<in> set xs. \<exists>p r. persons i = Some p \<and> start_partition net p = Some r \<and> r < n) \<and>
    (\<forall>r < n. parts' ! r = (\<lambda>i. if i \<in> set xs \<and> Option.bind (persons i) (start_partition net) = Some r then persons i else (parts ! r) i))"
  using assms
proof (induction xs arbitrary: parts)
  case (Cons x xs)
  then obtain p1 where 1: "split_one net n persons x parts = Some p1" and rest: "foldM (split_one net n persons) xs p1 = Some parts'"
    by auto
  obtain p r where p: "persons x = Some p" and r: "start_partition net p = Some r" "r < n"
    and p1: "p1 = parts[r := (parts ! r)(x \<mapsto> p)]" by (rule split_one_cases[OF 1])
  have "length p1 = n" using Cons.prems(2) by (simp add: p1)
  note ih = Cons.IH[OF rest this]
  have "parts' ! k = (\<lambda>i. if i \<in> set (x # xs) \<and> Option.bind (persons i) (start_partition net) = Some k then persons i else (parts ! k) i)"
    if "k < n" for k
    using ih that p r Cons.prems(2) by (auto simp: p1 nth_list_update fun_eq_iff)
  then show ?case using ih p r by auto
qed auto

text \<open>
  The split of a population over partitions: every person goes, unchanged, to the
  partition of the link of its first activity and to no other, and nobody is added. So the
  parts are disjoint and together they are the population.
\<close>

theorem split_by_start_link_spec:
  assumes "split_by_start_link_partition ord net n persons = Some parts" and "hash_order ord" and "finite (dom persons)"
  shows "length parts = n \<and>
    (\<forall>r < n. \<forall>i. (parts ! r) i = (if Option.bind (persons i) (start_partition net) = Some r then persons i else None)) \<and>
    (\<forall>i p. persons i = Some p \<longleftrightarrow> (\<exists>!r. r < n \<and> (parts ! r) i = Some p))"
proof -
  note s = split_fold[OF assms(1)[unfolded split_by_start_link_partition_def]] and o = hash_order.ord_set[OF assms(2,3)]
  have len: "length parts = n" using s by simp
  have at: "(parts ! r) i = (if Option.bind (persons i) (start_partition net) = Some r then persons i else None)" if "r < n" for r i
  proof -
    have "parts ! r = (\<lambda>i. if i \<in> set (ord (dom persons)) \<and> Option.bind (persons i) (start_partition net) = Some r
        then persons i else (replicate n population_new ! r) i)" using s that by simp
    then show ?thesis using that o by (auto simp: population_new_def dom_def)
  qed
  have "persons i = Some p \<longleftrightarrow> (\<exists>!r. r < n \<and> (parts ! r) i = Some p)" for i p
  proof
    assume p: "persons i = Some p"
    then have "i \<in> set (ord (dom persons))" using o by auto
    then obtain p' r where "persons i = Some p'" "start_partition net p' = Some r" "r < n" using s by fastforce
    with p at show "\<exists>!r. r < n \<and> (parts ! r) i = Some p" by (intro ex1I[of _ r]) (auto split: if_splits)
  next
    assume "\<exists>!r. r < n \<and> (parts ! r) i = Some p"
    then show "persons i = Some p" using at by (metis option.distinct(1))
  qed
  with len at show ?thesis by blast
qed

lemma take_fold:
  "fold take_one ks (taken, left) =
     ((\<lambda>i. if i \<in> set ks \<and> left i \<noteq> None then left i else taken i), (\<lambda>i. if i \<in> set ks then None else left i))"
  by (induction ks arbitrary: taken left) (auto simp: take_one_def fun_eq_iff split: option.splits)

text \<open>
  Moving persons out of a population by a predicate: the population taken holds exactly the
  persons that satisfy it, the population left exactly the others.
\<close>

theorem take_from_filter_spec:
  assumes "hash_order ord" and "finite (dom persons)"
  shows "take_from_filter ord f persons =
    ((\<lambda>i. case persons i of Some p \<Rightarrow> if f p then Some p else None | None \<Rightarrow> None),
     (\<lambda>i. case persons i of Some p \<Rightarrow> if f p then None else Some p | None \<Rightarrow> None))"
  using hash_order.ord_set[OF assms]
  by (auto simp: take_from_filter_def take_fold population_new_def fun_eq_iff domIff split: option.splits)

section \<open>Example\<close>

definition ex_links :: network where
  "ex_links = network_new\<lparr>net_links := [1 \<mapsto> link_new 1 1 2 100 3600 20 1 {} 1]\<rparr>"

lemma ex_first: "first_activity ex_person = Some ex_home"
  by (simp add: first_activity_def plan_element_at_def selected_plan_def ex_person_def person_new_def plan_default_def ex_elements_def list_get_def)

theorem split_by_start_link_spec_witness:
  "\<exists>parts. split_by_start_link_partition sorted_list_of_set ex_links 2 [''p'' \<mapsto> ex_person] = Some parts \<and>
     (parts ! 1) ''p'' = Some ex_person \<and> (parts ! 0) ''p'' = None"
proof -
  have l: "get_link ex_links 1 = Some (link_new 1 1 2 100 3600 20 1 {} 1)" by (simp add: ex_links_def get_link_def)
  have a: "act_link_id ex_home = 1" by (simp add: ex_defs)
  have s: "start_partition ex_links ex_person = Some 1" using ex_first l a by (simp add: start_partition_def link_new_def)
  have "\<exists>parts. split_by_start_link_partition sorted_list_of_set ex_links 2 [''p'' \<mapsto> ex_person] = Some parts"
    using ex_first l a by (simp add: split_by_start_link_partition_def split_one_def link_new_def)
  then obtain parts where parts: "split_by_start_link_partition sorted_list_of_set ex_links 2 [''p'' \<mapsto> ex_person] = Some parts" by blast
  from split_by_start_link_spec[OF this sorted_order.hash_order_axioms]
  have "\<forall>r < 2. \<forall>i. (parts ! r) i = (if Option.bind ([''p'' \<mapsto> ex_person] i) (start_partition ex_links) = Some r
      then [''p'' \<mapsto> ex_person] i else None)" by simp
  then show ?thesis using parts s by simp
qed

theorem take_from_filter_spec_witness:
  "(fst (take_from_filter sorted_list_of_set (\<lambda>p. person_ident p = ''q'') [''p'' \<mapsto> ex_person])) ''p'' = None"
  using take_from_filter_spec[OF sorted_order.hash_order_axioms, of "[''p'' \<mapsto> ex_person]" "\<lambda>p. person_ident p = ''q''"]
  by (simp add: ex_person_def person_new_def)

end
