(* ===== verification/Routing_Graph.thy ===== *)
theory Routing_Graph
  imports Net_Graph
begin

text \<open>
  The graph that routes are searched on (\<open>replanning/routing/graph.rs\<close>): nodes and links by
  index, adjacency in compressed sparse rows for both directions, and the conversion of the road
  network into it (\<open>replanning/routing/network_converter.rs\<close>).

  A lookup that returns a \<open>Result\<close> has values in \<open>graph_error + 'a\<close>; where it can panic too, these
  are wrapped in \<open>option\<close>.
\<close>

section \<open>Data\<close>

datatype graph_error =
    LinkIdNotFound link_id
  | LinkIndexNotFound nat
  | LinkRangeNotFound nat nat
  | NodeIdNotFound node_id
  | NodeIndexNotFound nat
  | NodeRangeNotFound nat nat

type_synonym 'a graph_result = "graph_error + 'a"

record csr_graph =
  first_out :: "nat list"
  head :: "nat list"

record routing_graph =
  forward_graph :: csr_graph
  backward_graph :: csr_graph
  rg_network :: network
  node_index_by_id :: "node_id \<rightharpoonup> nat"
  node_id_by_index :: "node_id list"
  forward_link_id_by_index :: "link_id list"
  backward_link_id_by_index :: "link_id list"
  forward_link_index_by_id :: "link_id \<rightharpoonup> nat"
  backward_link_index_by_id :: "link_id \<rightharpoonup> nat"

text \<open>The operator \<open>?\<close>: an error is returned, a value is passed on.\<close>

definition try_res :: "'a graph_result \<Rightarrow> ('a \<Rightarrow> 'b graph_result option) \<Rightarrow> 'b graph_result option" where
  "try_res r f = (case r of Inl e \<Rightarrow> Some (Inl e) | Inr x \<Rightarrow> f x)"

definition graph_new :: "routing_graph \<Rightarrow> routing_graph option" where
  "graph_new g = do {
     _ \<leftarrow> ensure (length (head (forward_graph g)) = length (head (backward_graph g)));
     _ \<leftarrow> ensure (length (first_out (forward_graph g)) = length (first_out (backward_graph g)));
     Some g }"

section \<open>Lookups\<close>

definition graph_node :: "routing_graph \<Rightarrow> node_id \<Rightarrow> node graph_result" where
  "graph_node g i = ok_or (NodeIdNotFound i) (net_nodes (rg_network g) i)"

definition graph_edge :: "routing_graph \<Rightarrow> link_id \<Rightarrow> link graph_result" where
  "graph_edge g i = ok_or (LinkIdNotFound i) (net_links (rg_network g) i)"

definition num_nodes :: "routing_graph \<Rightarrow> nat" where
  "num_nodes g = length (first_out (forward_graph g)) - 1"

definition get_node_id_from_idx :: "routing_graph \<Rightarrow> nat \<Rightarrow> node_id graph_result" where
  "get_node_id_from_idx g i = ok_or (NodeIndexNotFound i) (list_get (node_id_by_index g) i)"

definition get_link_id_from_idx :: "routing_graph \<Rightarrow> nat \<Rightarrow> link_id graph_result" where
  "get_link_id_from_idx g i = ok_or (LinkIndexNotFound i) (list_get (forward_link_id_by_index g) i)"

definition get_node_idx_from_id :: "routing_graph \<Rightarrow> node_id \<Rightarrow> nat option" where
  "get_node_idx_from_id g i = node_index_by_id g i"

definition get_link_idx_from_id :: "routing_graph \<Rightarrow> link_id \<Rightarrow> nat graph_result" where
  "get_link_idx_from_id g l = ok_or (LinkIdNotFound l) (forward_link_index_by_id g l)"

definition get_backward_link_index :: "routing_graph \<Rightarrow> nat \<Rightarrow> nat graph_result" where
  "get_backward_link_index g i =
     (case get_link_id_from_idx g i of
        Inl e \<Rightarrow> Inl e
      | Inr l \<Rightarrow> ok_or (LinkIdNotFound l) (backward_link_index_by_id g l))"

definition get_node_from_idx :: "routing_graph \<Rightarrow> nat \<Rightarrow> node graph_result" where
  "get_node_from_idx g i = (case get_node_id_from_idx g i of Inl e \<Rightarrow> Inl e | Inr n \<Rightarrow> graph_node g n)"

definition get_link_from_idx :: "routing_graph \<Rightarrow> nat \<Rightarrow> link graph_result" where
  "get_link_from_idx g i = (case get_link_id_from_idx g i of Inl e \<Rightarrow> Inl e | Inr l \<Rightarrow> graph_edge g l)"

definition get_end_node_as_idx :: "routing_graph \<Rightarrow> nat \<Rightarrow> nat graph_result" where
  "get_end_node_as_idx g e = ok_or (LinkIndexNotFound e) (list_get (head (forward_graph g)) e)"

definition get_start_node_as_idx :: "routing_graph \<Rightarrow> nat \<Rightarrow> nat graph_result" where
  "get_start_node_as_idx g e =
     (case get_backward_link_index g e of
        Inl err \<Rightarrow> Inl err
      | Inr b \<Rightarrow> ok_or (LinkIndexNotFound b) (list_get (head (backward_graph g)) b))"

definition get_end_node :: "routing_graph \<Rightarrow> link_id \<Rightarrow> node_id graph_result option" where
  "get_end_node g l = try_res (get_link_idx_from_id g l) (\<lambda>i. do {
     n \<leftarrow> list_get (head (forward_graph g)) i;
     j \<leftarrow> list_get (node_id_by_index g) n;
     Some (Inr j) })"

definition get_start_node :: "routing_graph \<Rightarrow> link_id \<Rightarrow> node_id graph_result" where
  "get_start_node g l =
     (case get_link_idx_from_id g l of
        Inl e \<Rightarrow> Inl e
      | Inr i \<Rightarrow> (case get_start_node_as_idx g i of Inl e \<Rightarrow> Inl e | Inr n \<Rightarrow> get_node_id_from_idx g n))"

text \<open>A range of a vector; \<open>get\<close> on it fails where the range is not inside.\<close>

definition get_range :: "'a list \<Rightarrow> nat \<Rightarrow> nat \<Rightarrow> 'a list option" where
  "get_range xs i j = (if i \<le> j \<and> j \<le> length xs then Some (take (j - i) (drop i xs)) else None)"

definition edges_of :: "csr_graph \<Rightarrow> link_id list \<Rightarrow> (node_id \<rightharpoonup> nat) \<Rightarrow> node_id \<Rightarrow> link_id list graph_result option" where
  "edges_of csr ids idx n =
     (case idx n of
        None \<Rightarrow> Some (Inl (NodeIdNotFound n))
      | Some u \<Rightarrow> do {
          i \<leftarrow> list_get (first_out csr) u;
          j \<leftarrow> list_get (first_out csr) (u + 1);
          Some (ok_or (LinkRangeNotFound i j) (get_range ids i j)) })"

definition outgoing_edges :: "routing_graph \<Rightarrow> node_id \<Rightarrow> link_id list graph_result option" where
  "outgoing_edges g n = edges_of (forward_graph g) (forward_link_id_by_index g) (node_index_by_id g) n"

definition incoming_edges :: "routing_graph \<Rightarrow> node_id \<Rightarrow> link_id list graph_result option" where
  "incoming_edges g n = edges_of (backward_graph g) (backward_link_id_by_index g) (node_index_by_id g) n"

definition outgoing_edges_as_idx :: "routing_graph \<Rightarrow> nat \<Rightarrow> nat list option" where
  "outgoing_edges_as_idx g u = do {
     i \<leftarrow> list_get (first_out (forward_graph g)) u;
     j \<leftarrow> list_get (first_out (forward_graph g)) (u + 1);
     Some [i..<j] }"

definition incoming_edges_as_idx :: "routing_graph \<Rightarrow> nat \<Rightarrow> nat list option" where
  "incoming_edges_as_idx g u = do {
     i \<leftarrow> list_get (first_out (backward_graph g)) u;
     j \<leftarrow> list_get (first_out (backward_graph g)) (u + 1);
     ids \<leftarrow> mapM (list_get (backward_link_id_by_index g)) [i..<j];
     mapM (forward_link_index_by_id g) ids }"

section \<open>Conversion of a network\<close>

definition for_mode :: "mode option \<Rightarrow> link \<Rightarrow> bool" where
  "for_mode m l \<longleftrightarrow> (case m of None \<Rightarrow> True | Some m \<Rightarrow> contains_mode m l)"

definition get_links :: "link_id list \<Rightarrow> network \<Rightarrow> mode option \<Rightarrow> link list option" where
  "get_links ids net m = do {
     ls \<leftarrow> mapM (get_link net) (sort ids);
     Some (filter (for_mode m) ls) }"

record conv_state =
  cs_node_index_by_id :: "node_id \<rightharpoonup> nat"
  cs_node_id_by_index :: "node_id list"
  cs_forward_first_out :: "nat list"
  cs_forward_head :: "nat list"
  cs_forward_ids :: "link_id list"
  cs_forward_before :: nat
  cs_backward_first_out :: "nat list"
  cs_backward_head :: "nat list"
  cs_backward_ids :: "link_id list"
  cs_backward_before :: nat

definition conv_init :: conv_state where
  "conv_init = \<lparr>cs_node_index_by_id = Map.empty, cs_node_id_by_index = [],
     cs_forward_first_out = [], cs_forward_head = [], cs_forward_ids = [], cs_forward_before = 0,
     cs_backward_first_out = [], cs_backward_head = [], cs_backward_ids = [], cs_backward_before = 0\<rparr>"

definition convert_node :: "(node_id \<rightharpoonup> nat) \<Rightarrow> network \<Rightarrow> mode option \<Rightarrow> nat \<times> node \<Rightarrow> conv_state \<Rightarrow> conv_state option" where
  "convert_node node_indices net m inode s = (case inode of (i, n) \<Rightarrow> do {
     outs \<leftarrow> get_links (out_links n) net m;
     ins \<leftarrow> get_links (in_links n) net m;
     out_heads \<leftarrow> mapM (\<lambda>l. node_indices (link_to l)) outs;
     in_heads \<leftarrow> mapM (\<lambda>l. node_indices (link_from l)) ins;
     Some (s\<lparr>cs_node_index_by_id := (cs_node_index_by_id s)(node_ident n \<mapsto> i),
       cs_node_id_by_index := cs_node_id_by_index s @ [node_ident n],
       cs_forward_first_out := cs_forward_first_out s @ [cs_forward_before s],
       cs_forward_head := cs_forward_head s @ out_heads,
       cs_forward_ids := cs_forward_ids s @ map link_ident outs,
       cs_forward_before := cs_forward_before s + length outs,
       cs_backward_first_out := cs_backward_first_out s @ [cs_backward_before s],
       cs_backward_head := cs_backward_head s @ in_heads,
       cs_backward_ids := cs_backward_ids s @ map link_ident ins,
       cs_backward_before := cs_backward_before s + length ins\<rparr>) })"

definition index_by_id :: "'a list \<Rightarrow> 'a \<rightharpoonup> nat" where
  "index_by_id xs = map_of (rev (zip xs [0..<length xs]))"

definition convert_network_for_mode :: "network \<Rightarrow> mode option \<Rightarrow> routing_graph option" where
  "convert_network_for_mode net m =
     (let nodes = get_all_nodes_sorted net;
          node_indices = index_by_id (map node_ident nodes)
      in do {
        s \<leftarrow> foldM (convert_node node_indices net m) (zip [0..<length nodes] nodes) conv_init;
        graph_new \<lparr>forward_graph = \<lparr>first_out = cs_forward_first_out s @ [length (cs_forward_head s)], head = cs_forward_head s\<rparr>,
          backward_graph = \<lparr>first_out = cs_backward_first_out s @ [length (cs_backward_head s)], head = cs_backward_head s\<rparr>,
          rg_network = net, node_index_by_id = cs_node_index_by_id s, node_id_by_index = cs_node_id_by_index s,
          forward_link_id_by_index = cs_forward_ids s, backward_link_id_by_index = cs_backward_ids s,
          forward_link_index_by_id = index_by_id (cs_forward_ids s),
          backward_link_index_by_id = index_by_id (cs_backward_ids s)\<rparr> })"

definition convert_network_with_modes :: "network \<Rightarrow> mode list \<Rightarrow> (mode \<rightharpoonup> routing_graph) option" where
  "convert_network_with_modes net modes = do {
     gs \<leftarrow> mapM (\<lambda>m. do { g \<leftarrow> convert_network_for_mode net (Some m); Some (m, g) }) modes;
     Some (map_of (rev gs)) }"

section \<open>Rows of a compressed matrix\<close>

definition row_start :: "'a list list \<Rightarrow> nat \<Rightarrow> nat" where
  "row_start xss k = length (concat (take k xss))"

lemma row_start_0 [simp]: "row_start xss 0 = 0"
  by (simp add: row_start_def)

lemma row_start_Suc: "k < length xss \<Longrightarrow> row_start xss (Suc k) = row_start xss k + length (xss ! k)"
  by (simp add: row_start_def take_Suc_conv_app_nth)

lemma row_start_append: "k \<le> length xss \<Longrightarrow> row_start (xss @ yss) k = row_start xss k"
  by (simp add: row_start_def)

lemma row_start_all: "row_start xss (length xss) = length (concat xss)"
  by (simp add: row_start_def)

lemma row_start_le: "row_start xss k \<le> length (concat xss)"
proof -
  have "concat xss = concat (take k xss) @ concat (drop k xss)" by (metis append_take_drop_id concat_append)
  then show ?thesis by (simp add: row_start_def)
qed

lemma concat_row:
  assumes "k < length xss" and "j < length (xss ! k)"
  shows "concat xss ! (row_start xss k + j) = xss ! k ! j" and "row_start xss k + j < length (concat xss)"
proof -
  have "concat xss = concat (take k xss) @ xss ! k @ concat (drop (Suc k) xss)"
    using assms(1) by (metis append_take_drop_id concat_append Cons_nth_drop_Suc concat.simps(2))
  then show "concat xss ! (row_start xss k + j) = xss ! k ! j"
    and "row_start xss k + j < length (concat xss)"
    using assms(2) by (simp_all add: row_start_def nth_append)
qed

lemma row_exists:
  "e < length (concat xss) \<Longrightarrow> \<exists>k < length xss. row_start xss k \<le> e \<and> e < row_start xss (Suc k)"
proof (induction xss arbitrary: e)
  case (Cons xs xss)
  show ?case
  proof (cases "e < length xs")
    case True
    then show ?thesis by (intro exI[of _ 0]) (simp add: row_start_def)
  next
    case False
    then have "e - length xs < length (concat xss)" using Cons.prems by (simp del: length_concat)
    then obtain k where "k < length xss" "row_start xss k \<le> e - length xs" "e - length xs < row_start xss (Suc k)"
      using Cons.IH by blast
    then show ?thesis using False by (intro exI[of _ "Suc k"]) (auto simp: row_start_def)
  qed
qed simp

text \<open>Where a key tells the row of an entry, the indices of a row are those of the entries with its key.\<close>

lemma row_by_key:
  assumes key: "\<And>k x. k < length xss \<Longrightarrow> x \<in> set (xss ! k) \<Longrightarrow> key x = k"
    and k: "k < length xss" and e: "e < length (concat xss)"
  shows "row_start xss k \<le> e \<and> e < row_start xss (Suc k) \<longleftrightarrow> key (concat xss ! e) = k"
proof -
  obtain k' where k': "k' < length xss" "row_start xss k' \<le> e" "e < row_start xss (Suc k')"
    using row_exists[OF e] by blast
  have row: "key (concat xss ! e) = i" if "i < length xss" "row_start xss i \<le> e" "e < row_start xss (Suc i)" for i
  proof -
    have "e - row_start xss i < length (xss ! i)" using that by (simp add: row_start_Suc less_diff_conv2)
    then have "concat xss ! e \<in> set (xss ! i)"
      using concat_row(1)[OF that(1), of "e - row_start xss i"] that(2) by simp
    then show ?thesis using key that(1) by simp
  qed
  show ?thesis using row[OF k'] row[OF k] k' by blast
qed

lemma index_by_id_eq:
  assumes "distinct xs"
  shows "index_by_id xs x = Some i \<longleftrightarrow> i < length xs \<and> xs ! i = x"
proof -
  have "distinct (map fst (rev (zip xs [0..<length xs])))" using assms by (simp add: rev_map[symmetric])
  then have "index_by_id xs x = Some i \<longleftrightarrow> (x, i) \<in> set (zip xs [0..<length xs])" by (simp add: index_by_id_def)
  then show ?thesis by (auto simp: set_zip)
qed

section \<open>The converted graph\<close>

definition outs_row :: "network \<Rightarrow> mode option \<Rightarrow> node \<Rightarrow> link list" where
  "outs_row net m n = filter (for_mode m) (map (\<lambda>l. the (get_link net l)) (sort (out_links n)))"

definition ins_row :: "network \<Rightarrow> mode option \<Rightarrow> node \<Rightarrow> link list" where
  "ins_row net m n = filter (for_mode m) (map (\<lambda>l. the (get_link net l)) (sort (in_links n)))"

lemma mapM_map: "(\<And>x. x \<in> set xs \<Longrightarrow> f x = Some (g x)) \<Longrightarrow> mapM f xs = Some (map g xs)"
  by (induction xs) simp_all

lemma get_links_eq:
  assumes "set ids \<subseteq> dom (net_links net)"
  shows "get_links ids net m = Some (filter (for_mode m) (map (\<lambda>l. the (get_link net l)) (sort ids)))"
proof -
  have "mapM (get_link net) (sort ids) = Some (map (\<lambda>l. the (get_link net l)) (sort ids))"
    using assms by (intro mapM_map) (auto simp: get_link_def)
  then show ?thesis by (simp add: get_links_def)
qed

definition conv_ok :: "(node_id \<rightharpoonup> nat) \<Rightarrow> network \<Rightarrow> mode option \<Rightarrow> node list \<Rightarrow> conv_state \<Rightarrow> bool" where
  "conv_ok idx net m ns s \<longleftrightarrow>
     (let outs = map (outs_row net m) ns; ins = map (ins_row net m) ns in
      cs_node_id_by_index s = map node_ident ns \<and>
      cs_node_index_by_id s = index_by_id (map node_ident ns) \<and>
      cs_forward_first_out s = map (row_start outs) [0..<length ns] \<and>
      cs_forward_head s = map (\<lambda>l. the (idx (link_to l))) (concat outs) \<and>
      cs_forward_ids s = map link_ident (concat outs) \<and> cs_forward_before s = length (concat outs) \<and>
      cs_backward_first_out s = map (row_start ins) [0..<length ns] \<and>
      cs_backward_head s = map (\<lambda>l. the (idx (link_from l))) (concat ins) \<and>
      cs_backward_ids s = map link_ident (concat ins) \<and> cs_backward_before s = length (concat ins))"

lemma index_by_id_snoc: "index_by_id (xs @ [x]) = (index_by_id xs)(x \<mapsto> length xs)"
  by (simp add: index_by_id_def)

lemma convert_fold:
  assumes rows: "\<And>n. n \<in> set ns \<Longrightarrow> get_links (out_links n) net m = Some (outs_row net m n) \<and> get_links (in_links n) net m = Some (ins_row net m n)"
    and idx: "\<And>n l. n \<in> set ns \<Longrightarrow> l \<in> set (outs_row net m n) \<union> set (ins_row net m n) \<Longrightarrow> idx (link_from l) \<noteq> None \<and> idx (link_to l) \<noteq> None"
  shows "\<exists>s. foldM (convert_node idx net m) (zip [0..<length ns] ns) conv_init = Some s \<and> conv_ok idx net m ns s"
  using assms
proof (induction ns rule: rev_induct)
  case Nil
  show ?case by (simp add: conv_ok_def conv_init_def index_by_id_def)
next
  case (snoc n ns)
  have "\<exists>s. foldM (convert_node idx net m) (zip [0..<length ns] ns) conv_init = Some s \<and> conv_ok idx net m ns s"
    by (rule snoc.IH) (use snoc.prems in auto)
  then obtain s where s: "foldM (convert_node idx net m) (zip [0..<length ns] ns) conv_init = Some s" and ok: "conv_ok idx net m ns s"
    by blast
  have links: "get_links (out_links n) net m = Some (outs_row net m n)" "get_links (in_links n) net m = Some (ins_row net m n)"
    using snoc.prems(1) by auto
  have heads: "mapM (\<lambda>l. idx (link_to l)) (outs_row net m n) = Some (map (\<lambda>l. the (idx (link_to l))) (outs_row net m n))"
    "mapM (\<lambda>l. idx (link_from l)) (ins_row net m n) = Some (map (\<lambda>l. the (idx (link_from l))) (ins_row net m n))"
    using snoc.prems(2)[of n] by (auto intro!: mapM_map)
  have first: "map (row_start (rows @ [r])) [0..<Suc (length ns)] = map (row_start rows) [0..<length ns] @ [length (concat rows)]"
    if "length rows = length ns" for rows and r :: "link list"
    using that row_start_all[of rows] by (auto simp: row_start_append simp del: length_concat)
  have "zip [0..<length (ns @ [n])] (ns @ [n]) = zip [0..<length ns] ns @ [(length ns, n)]" by simp
  then show ?case
    using s ok links heads
    by (simp add: foldM_append convert_node_def[of idx net m "(length ns, n)"])
      (simp add: conv_ok_def Let_def first index_by_id_snoc del: upt_Suc length_concat)
qed

lemma distinct_rows:
  assumes "\<And>k. k < length xss \<Longrightarrow> distinct (xss ! k)" and "\<And>k x. k < length xss \<Longrightarrow> x \<in> set (xss ! k) \<Longrightarrow> key x = k"
  shows "distinct (concat xss)"
  using assms
proof (induction xss rule: rev_induct)
  case (snoc xs xss)
  have key: "key x < length xss" if x: "x \<in> set (concat xss)" for x
  proof -
    obtain k where "k < length xss" "x \<in> set (xss ! k)" using x by (auto simp: in_set_conv_nth[of _ xss])
    then show ?thesis using snoc.prems(2)[of k x] by (simp add: nth_append)
  qed
  moreover have "key x = length xss" if "x \<in> set xs" for x using snoc.prems(2)[of "length xss" x] that by simp
  ultimately have "set (concat xss) \<inter> set xs = {}" by (metis disjoint_iff less_irrefl)
  moreover have "distinct (concat xss)"
  proof (rule snoc.IH)
    show "distinct (xss ! k)" if "k < length xss" for k using snoc.prems(1)[of k] that by (simp add: nth_append)
    show "key x = k" if "k < length xss" "x \<in> set (xss ! k)" for k x using snoc.prems(2)[of k x] that by (simp add: nth_append)
  qed
  moreover have "distinct xs" using snoc.prems(1)[of "length xss"] by simp
  ultimately show ?case by simp
qed simp

text \<open>The links of a network that a mode may use.\<close>

definition mode_links :: "network \<Rightarrow> mode option \<Rightarrow> link set" where
  "mode_links net m = {l \<in> ran (net_links net). for_mode m l}"

abbreviation sorted_ids :: "network \<Rightarrow> node_id list" where
  "sorted_ids net \<equiv> sorted_list_of_set (dom (net_nodes net))"

lemma nodes_sorted:
  assumes "net_inv net"
  shows "map node_ident (get_all_nodes_sorted net) = sorted_ids net" and "distinct (sorted_ids net)"
    and "length (get_all_nodes_sorted net) = length (sorted_ids net)"
    and "set (sorted_ids net) = dom (net_nodes net)"
    and "\<And>k. k < length (sorted_ids net) \<Longrightarrow> net_nodes net (sorted_ids net ! k) = Some (get_all_nodes_sorted net ! k)"
proof -
  have fin: "finite (dom (net_nodes net))" using assms by (simp add: net_inv_def)
  show dom: "set (sorted_ids net) = dom (net_nodes net)" using fin by simp
  have "node_ident (the (net_nodes net i)) = i" if "i \<in> dom (net_nodes net)" for i
    using that net_invD(1)[OF assms] by fastforce
  then show "map node_ident (get_all_nodes_sorted net) = sorted_ids net"
    using dom by (auto simp: get_all_nodes_sorted_def intro!: map_idI)
  show "distinct (sorted_ids net)" "length (get_all_nodes_sorted net) = length (sorted_ids net)"
    by (simp_all add: get_all_nodes_sorted_def)
  show "net_nodes net (sorted_ids net ! k) = Some (get_all_nodes_sorted net ! k)" if "k < length (sorted_ids net)" for k
  proof -
    have "sorted_ids net ! k \<in> dom (net_nodes net)" using that dom nth_mem by blast
    then show ?thesis using that by (auto simp: get_all_nodes_sorted_def)
  qed
qed

lemma row_links:
  assumes inv: "net_inv net" and n: "net_nodes net i = Some n"
  shows "set (outs_row net m n) = {l \<in> mode_links net m. link_from l = i}" and "distinct (outs_row net m n)"
    and "set (ins_row net m n) = {l \<in> mode_links net m. link_to l = i}" and "distinct (ins_row net m n)"
    and "get_links (out_links n) net m = Some (outs_row net m n)" and "get_links (in_links n) net m = Some (ins_row net m n)"
proof -
  have ids: "distinct (in_links n)" "set (in_links n) = ins_of net i" "distinct (out_links n)" "set (out_links n) = outs_of net i"
    using net_invD(1)[OF inv n] by auto
  have ident: "link_ident l = j" if "net_links net j = Some l" for j l using inv that by (simp add: net_inv_def)
  have inj: "inj_on (\<lambda>l. the (get_link net l)) (dom (net_links net))"
    by (rule inj_onI) (metis domD get_link_def ident option.sel)
  have sub: "ins_of net i \<subseteq> dom (net_links net)" "outs_of net i \<subseteq> dom (net_links net)" by (auto simp: ins_of_def outs_of_def)
  show "set (outs_row net m n) = {l \<in> mode_links net m. link_from l = i}"
    using ids(4) by (force simp: outs_row_def mode_links_def ran_def outs_of_def get_link_def image_iff)
  show "set (ins_row net m n) = {l \<in> mode_links net m. link_to l = i}"
    using ids(2) by (force simp: ins_row_def mode_links_def ran_def ins_of_def get_link_def image_iff)
  show "distinct (outs_row net m n)" "distinct (ins_row net m n)"
    using ids sub inj by (auto simp: outs_row_def ins_row_def distinct_map intro!: distinct_filter inj_on_subset[OF inj])
  show "get_links (out_links n) net m = Some (outs_row net m n)" "get_links (in_links n) net m = Some (ins_row net m n)"
    using get_links_eq[of "out_links n" net m] get_links_eq[of "in_links n" net m] ids sub by (simp_all add: outs_row_def ins_row_def)
qed

text \<open>What routing needs of a graph: \<open>edge_at g e u v l\<close> holds of the link \<open>l\<close> with index \<open>e\<close> from node index \<open>u\<close> to node index \<open>v\<close>.\<close>

definition num_edges :: "routing_graph \<Rightarrow> nat" where
  "num_edges g = length (head (forward_graph g))"

definition edge_at :: "routing_graph \<Rightarrow> nat \<Rightarrow> nat \<Rightarrow> nat \<Rightarrow> link \<Rightarrow> bool" where
  "edge_at g e u v l \<longleftrightarrow> get_start_node_as_idx g e = Inr u \<and> get_end_node_as_idx g e = Inr v \<and> get_link_from_idx g e = Inr l"

definition graph_ok :: "routing_graph \<Rightarrow> bool" where
  "graph_ok g \<longleftrightarrow>
     (\<forall>e < num_edges g. \<exists>u v l. edge_at g e u v l \<and> u < num_nodes g \<and> v < num_nodes g \<and>
        get_link_id_from_idx g e = Inr (link_ident l) \<and>
        list_get (node_id_by_index g) u = Some (link_from l) \<and> list_get (node_id_by_index g) v = Some (link_to l)) \<and>
     (\<forall>u < num_nodes g. \<exists>es. outgoing_edges_as_idx g u = Some es \<and> set es = {e. e < num_edges g \<and> get_start_node_as_idx g e = Inr u}) \<and>
     (\<forall>u < num_nodes g. \<exists>es. incoming_edges_as_idx g u = Some es \<and> set es = {e. e < num_edges g \<and> get_end_node_as_idx g e = Inr u}) \<and>
     length (node_id_by_index g) = num_nodes g \<and>
     (\<forall>i u. node_index_by_id g i = Some u \<longleftrightarrow> list_get (node_id_by_index g) u = Some i) \<and>
     (\<forall>l e. forward_link_index_by_id g l = Some e \<longleftrightarrow> e < num_edges g \<and> get_link_id_from_idx g e = Inr l)"

lemma list_get_eq [simp]: "list_get xs i = Some x \<longleftrightarrow> i < length xs \<and> xs ! i = x"
  by (auto simp: list_get_def)

lemma list_get_less [simp]: "i < length xs \<Longrightarrow> list_get xs i = Some (xs ! i)"
  by simp

lemma ok_or_eq [simp]: "ok_or e x = Inr y \<longleftrightarrow> x = Some y"
  by (cases x) (auto simp: ok_or_def)

locale csr_pair =
  fixes ids :: "node_id list" and outs ins :: "link list list" and L :: "link set"
  assumes len: "length outs = length ids" "length ins = length ids" and ids_distinct: "distinct ids"
    and outs_row: "\<And>k. k < length ids \<Longrightarrow> set (outs ! k) = {l \<in> L. link_from l = ids ! k} \<and> distinct (outs ! k)"
    and ins_row: "\<And>k. k < length ids \<Longrightarrow> set (ins ! k) = {l \<in> L. link_to l = ids ! k} \<and> distinct (ins ! k)"
    and ends: "\<And>l. l \<in> L \<Longrightarrow> link_from l \<in> set ids \<and> link_to l \<in> set ids"
    and ident: "inj_on link_ident L"
begin

definition idx :: "node_id \<Rightarrow> nat" where
  "idx i = the (index_by_id ids i)"

lemma idx_nth: "k < length ids \<Longrightarrow> idx (ids ! k) = k"
  using index_by_id_eq[OF ids_distinct, of "ids ! k" k] by (simp add: idx_def)

lemma idx_mem: "i \<in> set ids \<Longrightarrow> index_by_id ids i = Some (idx i) \<and> idx i < length ids \<and> ids ! idx i = i"
  using index_by_id_eq[OF ids_distinct] idx_nth by (auto simp: in_set_conv_nth)

lemma outs_key: "k < length outs \<Longrightarrow> l \<in> set (outs ! k) \<Longrightarrow> idx (link_from l) = k"
  using outs_row len idx_nth by auto

lemma ins_key: "k < length ins \<Longrightarrow> l \<in> set (ins ! k) \<Longrightarrow> idx (link_to l) = k"
  using ins_row len idx_nth by auto

lemma outs_slice:
  assumes "u < length ids"
  shows "set [row_start outs u..<row_start outs (Suc u)] = {e. e < length (concat outs) \<and> idx (link_from (concat outs ! e)) = u}"
proof -
  have "u < length outs" using assms len by simp
  note key = row_by_key[of outs "\<lambda>l. idx (link_from l)" u, OF outs_key this]
  show ?thesis
  proof (intro set_eqI)
    fix e
    show "e \<in> set [row_start outs u..<row_start outs (Suc u)] \<longleftrightarrow>
        e \<in> {e. e < length (concat outs) \<and> idx (link_from (concat outs ! e)) = u}"
      using key[of e] row_start_le[of outs "Suc u"] by (cases "e < length (concat outs)") (auto simp del: length_concat)
  qed
qed

lemma ins_slice:
  assumes "u < length ids"
  shows "set [row_start ins u..<row_start ins (Suc u)] = {e. e < length (concat ins) \<and> idx (link_to (concat ins ! e)) = u}"
proof -
  have "u < length ins" using assms len by simp
  note key = row_by_key[of ins "\<lambda>l. idx (link_to l)" u, OF ins_key this]
  show ?thesis
  proof (intro set_eqI)
    fix e
    show "e \<in> set [row_start ins u..<row_start ins (Suc u)] \<longleftrightarrow>
        e \<in> {e. e < length (concat ins) \<and> idx (link_to (concat ins ! e)) = u}"
      using key[of e] row_start_le[of ins "Suc u"] by (cases "e < length (concat ins)") (auto simp del: length_concat)
  qed
qed

lemma outs_all: "set (concat outs) = L"
proof
  show "set (concat outs) \<subseteq> L" using outs_row len by (fastforce simp: in_set_conv_nth[of _ outs])
  show "L \<subseteq> set (concat outs)"
  proof
    fix l assume l: "l \<in> L"
    then have "idx (link_from l) < length ids" "l \<in> set (outs ! idx (link_from l))" using ends[OF l] idx_mem outs_row by auto
    then show "l \<in> set (concat outs)" using len by (auto intro!: bexI[of _ "outs ! idx (link_from l)"])
  qed
qed

lemma ins_all: "set (concat ins) = L"
proof
  show "set (concat ins) \<subseteq> L" using ins_row len by (fastforce simp: in_set_conv_nth[of _ ins])
  show "L \<subseteq> set (concat ins)"
  proof
    fix l assume l: "l \<in> L"
    then have "idx (link_to l) < length ids" "l \<in> set (ins ! idx (link_to l))" using ends[OF l] idx_mem ins_row by auto
    then show "l \<in> set (concat ins)" using len by (auto intro!: bexI[of _ "ins ! idx (link_to l)"])
  qed
qed

lemma distinct_links: "distinct (map link_ident (concat outs))" "distinct (map link_ident (concat ins))"
proof -
  have "distinct (concat outs)" using outs_row len outs_key by (intro distinct_rows[of outs "\<lambda>l. idx (link_from l)"]) auto
  then show "distinct (map link_ident (concat outs))" using ident outs_all by (simp add: distinct_map)
  have "distinct (concat ins)" using ins_row len ins_key by (intro distinct_rows[of ins "\<lambda>l. idx (link_to l)"]) auto
  then show "distinct (map link_ident (concat ins))" using ident ins_all by (simp add: distinct_map)
qed

lemma same_size: "length (concat outs) = length (concat ins)"
  using distinct_links outs_all ins_all by (metis distinct_card distinct_map)

text \<open>The forward index of a link, and its backward index.\<close>

lemma forward_index: "index_by_id (map link_ident (concat outs)) i = Some e \<longleftrightarrow> e < length (concat outs) \<and> link_ident (concat outs ! e) = i"
  using index_by_id_eq[OF distinct_links(1)] by (auto simp del: length_concat)

lemma backward_index:
  assumes "l \<in> L"
  obtains b where "index_by_id (map link_ident (concat ins)) (link_ident l) = Some b" and "b < length (concat ins)" and "concat ins ! b = l"
proof -
  obtain b where b: "b < length (concat ins)" "concat ins ! b = l" using assms ins_all by (metis in_set_conv_nth)
  then have "index_by_id (map link_ident (concat ins)) (link_ident l) = Some b"
    using index_by_id_eq[OF distinct_links(2)] by (simp del: length_concat)
  with b that show thesis by blast
qed

end

text \<open>The rows of a converted network. They are empty for a network with inconsistent adjacency.\<close>

definition conv_ids :: "network \<Rightarrow> node_id list" where
  "conv_ids net = (if net_inv net then sorted_ids net else [])"

definition conv_outs :: "network \<Rightarrow> mode option \<Rightarrow> link list list" where
  "conv_outs net m = (if net_inv net then map (outs_row net m) (get_all_nodes_sorted net) else [])"

definition conv_ins :: "network \<Rightarrow> mode option \<Rightarrow> link list list" where
  "conv_ins net m = (if net_inv net then map (ins_row net m) (get_all_nodes_sorted net) else [])"

definition conv_links :: "network \<Rightarrow> mode option \<Rightarrow> link set" where
  "conv_links net m = (if net_inv net then mode_links net m else {})"

interpretation conv: csr_pair "conv_ids net" "conv_outs net m" "conv_ins net m" "conv_links net m" for net m
proof (cases "net_inv net")
  case True
  note n = nodes_sorted[OF True] and r = row_links[OF True]
  have rows: "conv_outs net m ! k = outs_row net m (get_all_nodes_sorted net ! k)" "conv_ins net m ! k = ins_row net m (get_all_nodes_sorted net ! k)"
    if "k < length (conv_ids net)" for k using True that n(3) by (simp_all add: conv_outs_def conv_ins_def conv_ids_def)
  have nk: "net_nodes net (conv_ids net ! k) = Some (get_all_nodes_sorted net ! k)" if "k < length (conv_ids net)" for k
    using True that n(5) by (simp add: conv_ids_def)
  show "csr_pair (conv_ids net) (conv_outs net m) (conv_ins net m) (conv_links net m)"
  proof
    show "length (conv_outs net m) = length (conv_ids net)" "length (conv_ins net m) = length (conv_ids net)" "distinct (conv_ids net)"
      using True n by (simp_all add: conv_outs_def conv_ins_def conv_ids_def)
    show "set (conv_outs net m ! k) = {l \<in> conv_links net m. link_from l = conv_ids net ! k} \<and> distinct (conv_outs net m ! k)"
      "set (conv_ins net m ! k) = {l \<in> conv_links net m. link_to l = conv_ids net ! k} \<and> distinct (conv_ins net m ! k)"
      if "k < length (conv_ids net)" for k
      using r(1-4)[OF nk[OF that]] rows[OF that] True by (simp_all add: conv_links_def)
    show "link_from l \<in> set (conv_ids net) \<and> link_to l \<in> set (conv_ids net)" if "l \<in> conv_links net m" for l
      using that True n(4) by (auto simp: conv_links_def mode_links_def conv_ids_def ran_def net_inv_def)
    show "inj_on link_ident (conv_links net m)"
      by (rule inj_onI) (use True in \<open>auto simp: conv_links_def mode_links_def ran_def net_inv_def\<close>)
  qed
qed (unfold_locales, simp_all add: conv_ids_def conv_outs_def conv_ins_def conv_links_def)

lemma concat_row_length: "length (map f (concat xss)) = length (concat xss)"
  by simp

text \<open>The graph in terms of its rows.\<close>

lemma convert_view:
  assumes inv: "net_inv net"
  obtains g where "convert_network_for_mode net m = Some g" and "rg_network g = net" and "node_id_by_index g = conv_ids net"
    and "node_index_by_id g = index_by_id (conv_ids net)"
    and "first_out (forward_graph g) = map (row_start (conv_outs net m)) [0..<Suc (length (conv_ids net))]"
    and "head (forward_graph g) = map (\<lambda>l. conv.idx net (link_to l)) (concat (conv_outs net m))"
    and "forward_link_id_by_index g = map link_ident (concat (conv_outs net m))"
    and "forward_link_index_by_id g = index_by_id (map link_ident (concat (conv_outs net m)))"
    and "first_out (backward_graph g) = map (row_start (conv_ins net m)) [0..<Suc (length (conv_ids net))]"
    and "head (backward_graph g) = map (\<lambda>l. conv.idx net (link_from l)) (concat (conv_ins net m))"
    and "backward_link_id_by_index g = map link_ident (concat (conv_ins net m))"
    and "backward_link_index_by_id g = index_by_id (map link_ident (concat (conv_ins net m)))"
proof -
  let ?ns = "get_all_nodes_sorted net" and ?idx = "index_by_id (conv_ids net)"
  note n = nodes_sorted[OF inv]
  have ids: "conv_ids net = map node_ident ?ns" using inv n(1) by (simp add: conv_ids_def)
  have len: "length ?ns = length (conv_ids net)" by (simp add: ids)
  have node: "\<exists>i. net_nodes net i = Some x" if "x \<in> set ?ns" for x
    using that n(3,5) by (metis in_set_conv_nth)
  have "\<exists>s. foldM (convert_node ?idx net m) (zip [0..<length ?ns] ?ns) conv_init = Some s \<and> conv_ok ?idx net m ?ns s"
  proof (rule convert_fold)
    show "get_links (out_links x) net m = Some (outs_row net m x) \<and> get_links (in_links x) net m = Some (ins_row net m x)" if "x \<in> set ?ns" for x
      using node[OF that] row_links(5,6)[OF inv] by blast
    show "?idx (link_from l) \<noteq> None \<and> ?idx (link_to l) \<noteq> None" if "x \<in> set ?ns" "l \<in> set (outs_row net m x) \<union> set (ins_row net m x)" for x l
    proof -
      have "l \<in> conv_links net m" using node[OF that(1)] row_links(1,3)[OF inv] that(2) inv by (auto simp: conv_links_def)
      then show ?thesis using conv.ends[of l net m] conv.idx_mem[of _ net] by (metis option.distinct(1))
    qed
  qed
  then obtain s where s: "foldM (convert_node ?idx net m) (zip [0..<length ?ns] ?ns) conv_init = Some s" and ok: "conv_ok ?idx net m ?ns s" by blast
  have rows: "map (outs_row net m) ?ns = conv_outs net m" "map (ins_row net m) ?ns = conv_ins net m"
    using inv by (simp_all add: conv_outs_def conv_ins_def)
  have first: "map (row_start rows) [0..<length (conv_ids net)] @ [length (concat rows)] = map (row_start rows) [0..<Suc (length (conv_ids net))]"
    if "length rows = length (conv_ids net)" for rows :: "link list list"
    using that row_start_all[of rows] by (simp del: length_concat)
  let ?g = "\<lparr>forward_graph = \<lparr>first_out = map (row_start (conv_outs net m)) [0..<Suc (length (conv_ids net))],
        head = map (\<lambda>l. conv.idx net (link_to l)) (concat (conv_outs net m))\<rparr>,
      backward_graph = \<lparr>first_out = map (row_start (conv_ins net m)) [0..<Suc (length (conv_ids net))],
        head = map (\<lambda>l. conv.idx net (link_from l)) (concat (conv_ins net m))\<rparr>,
      rg_network = net, node_index_by_id = ?idx, node_id_by_index = conv_ids net,
      forward_link_id_by_index = map link_ident (concat (conv_outs net m)),
      backward_link_id_by_index = map link_ident (concat (conv_ins net m)),
      forward_link_index_by_id = index_by_id (map link_ident (concat (conv_outs net m))),
      backward_link_index_by_id = index_by_id (map link_ident (concat (conv_ins net m)))\<rparr>"
  have fields: "cs_node_id_by_index s = conv_ids net" "cs_node_index_by_id s = ?idx"
    "cs_forward_first_out s @ [length (cs_forward_head s)] = map (row_start (conv_outs net m)) [0..<Suc (length (conv_ids net))]"
    "cs_forward_head s = map (\<lambda>l. conv.idx net (link_to l)) (concat (conv_outs net m))"
    "cs_forward_ids s = map link_ident (concat (conv_outs net m))"
    "cs_backward_first_out s @ [length (cs_backward_head s)] = map (row_start (conv_ins net m)) [0..<Suc (length (conv_ids net))]"
    "cs_backward_head s = map (\<lambda>l. conv.idx net (link_from l)) (concat (conv_ins net m))"
    "cs_backward_ids s = map link_ident (concat (conv_ins net m))"
    using ok first[OF conv.len(1)] first[OF conv.len(2)] unfolding conv_ok_def Let_def rows len conv.idx_def ids[symmetric]
    by (simp_all del: upt_Suc length_concat)
  have "convert_network_for_mode net m = Some ?g"
    unfolding convert_network_for_mode_def Let_def ids[symmetric] s bind.bind_lunit fields(3,6)
    using conv.same_size[of net m] by (simp add: fields graph_new_def del: upt_Suc length_concat)
  then show thesis by (rule that) simp_all
qed

lemma convert_graph_ok:
  assumes inv: "net_inv net" and g: "convert_network_for_mode net m = Some g"
  shows "graph_ok g" and "num_nodes g = length (conv_ids net)"
    and "\<And>e. e < num_edges g \<Longrightarrow> get_link_from_idx g e = Inr (concat (conv_outs net m) ! e)"
    and "num_edges g = length (concat (conv_outs net m))"
proof -
  let ?O = "concat (conv_outs net m)" and ?I = "concat (conv_ins net m)" and ?n = "length (conv_ids net)"
  obtain g' where "convert_network_for_mode net m = Some g'" and net: "rg_network g' = net" and ids: "node_id_by_index g' = conv_ids net"
    "node_index_by_id g' = index_by_id (conv_ids net)"
    and fwd: "first_out (forward_graph g') = map (row_start (conv_outs net m)) [0..<Suc (length (conv_ids net))]"
    "head (forward_graph g') = map (\<lambda>l. conv.idx net (link_to l)) ?O"
    "forward_link_id_by_index g' = map link_ident ?O" "forward_link_index_by_id g' = index_by_id (map link_ident ?O)"
    and bwd: "first_out (backward_graph g') = map (row_start (conv_ins net m)) [0..<Suc (length (conv_ids net))]"
    "head (backward_graph g') = map (\<lambda>l. conv.idx net (link_from l)) ?I"
    "backward_link_id_by_index g' = map link_ident ?I" "backward_link_index_by_id g' = index_by_id (map link_ident ?I)"
    by (rule convert_view[OF inv, of m])
  moreover have "g' = g" using g calculation(1) by simp
  ultimately have view: "rg_network g = net" "node_id_by_index g = conv_ids net" "node_index_by_id g = index_by_id (conv_ids net)"
    "first_out (forward_graph g) = map (row_start (conv_outs net m)) [0..<Suc ?n]"
    "head (forward_graph g) = map (\<lambda>l. conv.idx net (link_to l)) ?O"
    "forward_link_id_by_index g = map link_ident ?O" "forward_link_index_by_id g = index_by_id (map link_ident ?O)"
    "first_out (backward_graph g) = map (row_start (conv_ins net m)) [0..<Suc ?n]"
    "head (backward_graph g) = map (\<lambda>l. conv.idx net (link_from l)) ?I"
    "backward_link_id_by_index g = map link_ident ?I" "backward_link_index_by_id g = index_by_id (map link_ident ?I)" by simp_all
  show nn: "num_nodes g = ?n" by (simp add: num_nodes_def view)
  show ne: "num_edges g = length ?O" by (simp add: num_edges_def view)
  have L: "?O ! e \<in> conv_links net m" if "e < length ?O" for e using that conv.outs_all[of net m] nth_mem by blast
  have lookup: "net_links net (link_ident l) = Some l" if "l \<in> conv_links net m" for l
    using that inv by (auto simp: conv_links_def mode_links_def ran_def net_inv_def)
  have id: "get_link_id_from_idx g e = Inr (link_ident (?O ! e))" if "e < length ?O" for e
    using that by (simp add: get_link_id_from_idx_def view del: length_concat)
  show link: "get_link_from_idx g e = Inr (?O ! e)" if "e < num_edges g" for e
    using that lookup L by (simp add: get_link_from_idx_def id ne graph_edge_def view del: length_concat)
  have start: "get_start_node_as_idx g e = Inr (conv.idx net (link_from (?O ! e)))" if e: "e < length ?O" for e
  proof -
    obtain b where "index_by_id (map link_ident ?I) (link_ident (?O ! e)) = Some b" "b < length ?I" "?I ! b = ?O ! e"
      by (rule conv.backward_index[OF L[OF e]])
    then show ?thesis
      by (simp add: get_start_node_as_idx_def get_backward_link_index_def id[OF e] view ok_or_def del: length_concat)
  qed
  have stop: "get_end_node_as_idx g e = Inr (conv.idx net (link_to (?O ! e)))" if "e < length ?O" for e
    using that by (simp add: get_end_node_as_idx_def view del: length_concat)
  have ends: "conv.idx net (link_from l) < ?n \<and> conv_ids net ! conv.idx net (link_from l) = link_from l \<and>
      conv.idx net (link_to l) < ?n \<and> conv_ids net ! conv.idx net (link_to l) = link_to l" if "l \<in> conv_links net m" for l
    using conv.ends[OF that] conv.idx_mem[of _ net] by blast
  have edges: "\<exists>u v l. edge_at g e u v l \<and> u < num_nodes g \<and> v < num_nodes g \<and> get_link_id_from_idx g e = Inr (link_ident l) \<and>
      list_get (node_id_by_index g) u = Some (link_from l) \<and> list_get (node_id_by_index g) v = Some (link_to l)" if "e < num_edges g" for e
    using that ends[OF L] start stop id link by (auto simp: edge_at_def ne nn view simp del: length_concat)
  have first: "list_get (map (row_start rows) [0..<Suc ?n]) u = Some (row_start rows u)"
    "list_get (map (row_start rows) [0..<Suc ?n]) (u + 1) = Some (row_start rows (Suc u))" if "u < ?n" for u and rows :: "link list list"
    using that by (simp_all add: list_get_def nth_append del: upt_Suc) 
  have out: "\<exists>es. outgoing_edges_as_idx g u = Some es \<and> set es = {e. e < num_edges g \<and> get_start_node_as_idx g e = Inr u}" if u: "u < num_nodes g" for u
  proof -
    have un: "u < length (conv_outs net m)" "u < ?n" using u conv.len(1)[of net m] by (simp_all add: nn)
    have "outgoing_edges_as_idx g u = Some [row_start (conv_outs net m) u..<row_start (conv_outs net m) (Suc u)]"
      unfolding outgoing_edges_as_idx_def view first[OF un(2)] by simp
    moreover have "set [row_start (conv_outs net m) u..<row_start (conv_outs net m) (Suc u)] = {e. e < length ?O \<and> conv.idx net (link_from (?O ! e)) = u}"
      by (rule conv.outs_slice[OF un(2)])
    ultimately show ?thesis using start by (auto simp: ne simp del: length_concat)
  qed
  have inc: "\<exists>es. incoming_edges_as_idx g u = Some es \<and> set es = {e. e < num_edges g \<and> get_end_node_as_idx g e = Inr u}" if u: "u < num_nodes g" for u
  proof -
    have un: "u < length (conv_ins net m)" "u < ?n" using u conv.len(2)[of net m] by (simp_all add: nn)
    let ?r = "[row_start (conv_ins net m) u..<row_start (conv_ins net m) (Suc u)]"
    have r: "set ?r = {b. b < length ?I \<and> conv.idx net (link_to (?I ! b)) = u}"
      by (rule conv.ins_slice[OF un(2)])
    define fe where "fe b = the (index_by_id (map link_ident ?O) (link_ident (?I ! b)))" for b
    have fe: "index_by_id (map link_ident ?O) (link_ident (?I ! b)) = Some (fe b) \<and> fe b < length ?O \<and> ?O ! fe b = ?I ! b" if "b < length ?I" for b
    proof -
      have "?I ! b \<in> set ?O" using that conv.outs_all[of net m] conv.ins_all[of net m] nth_mem by blast
      then obtain e where "e < length ?O" "?O ! e = ?I ! b" by (auto simp: in_set_conv_nth simp del: set_concat length_concat)
      then show ?thesis using conv.forward_index[of net m "link_ident (?I ! b)" e] by (simp add: fe_def)
    qed
    have "mapM (list_get (backward_link_id_by_index g)) ?r = Some (map (\<lambda>b. link_ident (?I ! b)) ?r)"
      using r by (intro mapM_map) (auto simp: view simp del: length_concat set_upt)
    moreover have "mapM (forward_link_index_by_id g) (map (\<lambda>b. link_ident (?I ! b)) ?r) = Some (map fe ?r)"
    proof -
      have "mapM (\<lambda>b. forward_link_index_by_id g (link_ident (?I ! b))) xs = mapM (forward_link_index_by_id g) (map (\<lambda>b. link_ident (?I ! b)) xs)" for xs
        by (induction xs) simp_all
      moreover have "mapM (\<lambda>b. forward_link_index_by_id g (link_ident (?I ! b))) ?r = Some (map fe ?r)"
        using r fe by (intro mapM_map) (auto simp: view simp del: length_concat set_upt)
      ultimately show ?thesis by simp
    qed
    ultimately have "incoming_edges_as_idx g u = Some (map fe ?r)"
      unfolding incoming_edges_as_idx_def view first[OF un(2)] by simp
    moreover have "fe ` {b. b < length ?I \<and> conv.idx net (link_to (?I ! b)) = u} = {e. e < length ?O \<and> conv.idx net (link_to (?O ! e)) = u}"
    proof (intro equalityI subsetI)
      fix e assume e: "e \<in> {e. e < length ?O \<and> conv.idx net (link_to (?O ! e)) = u}"
      then obtain b where b: "b < length ?I" "?I ! b = ?O ! e" using conv.backward_index[OF L] by (metis mem_Collect_eq)
      then have "fe b = e" using fe[OF b(1)] conv.forward_index[of net m "link_ident (?O ! e)" e] e by simp
      then show "e \<in> fe ` {b. b < length ?I \<and> conv.idx net (link_to (?I ! b)) = u}" using b e by force
    qed (use fe in fastforce)
    ultimately show ?thesis using stop r by (auto simp: ne simp del: length_concat set_upt)
  qed
  show "graph_ok g"
    unfolding graph_ok_def
  proof (intro conjI allI impI)
    show "node_index_by_id g i = Some u \<longleftrightarrow> list_get (node_id_by_index g) u = Some i" for i u
      using index_by_id_eq[OF conv.ids_distinct] by (simp add: view)
    show "forward_link_index_by_id g l = Some e \<longleftrightarrow> e < num_edges g \<and> get_link_id_from_idx g e = Inr l" for l e
      using conv.forward_index[of net m l e] id by (auto simp: view ne simp del: length_concat)
  qed (use edges out inc in \<open>simp_all add: view nn\<close>)
qed

section \<open>Correctness of the conversion\<close>

lemma convert_links:
  assumes inv: "net_inv net" and g: "convert_network_for_mode net m = Some g"
  shows "(\<exists>e < num_edges g. get_link_from_idx g e = Inr l) \<longleftrightarrow> net_links net (link_ident l) = Some l \<and> for_mode m l"
proof -
  have "(\<exists>e < num_edges g. get_link_from_idx g e = Inr l) \<longleftrightarrow> l \<in> set (concat (conv_outs net m))"
    using convert_graph_ok(3,4)[OF assms] by (auto simp: in_set_conv_nth simp del: length_concat set_concat)
  also have "\<dots> \<longleftrightarrow> net_links net (link_ident l) = Some l \<and> for_mode m l"
    unfolding conv.outs_all using inv by (auto simp: conv_links_def mode_links_def ran_def net_inv_def)
  finally show ?thesis .
qed

text \<open>A network of four nodes, with a detour \<open>0 \<rightarrow> 1 \<rightarrow> 3\<close> that is shorter than the link \<open>0 \<rightarrow> 3\<close>.\<close>

definition ex_node :: "node_id \<Rightarrow> link_id list \<Rightarrow> link_id list \<Rightarrow> node" where
  "ex_node i ins outs = (node_new i \<lparr>coord_x = 0, coord_y = 0, coord_z = 0\<rparr> 0 1)\<lparr>in_links := ins, out_links := outs\<rparr>"

definition ex_link :: "link_id \<Rightarrow> node_id \<Rightarrow> node_id \<Rightarrow> f64 \<Rightarrow> link" where
  "ex_link i u v len = link_new i u v len 3600 1 1 (if i = 5 then {''bike''} else {}) 0"

definition ex_net :: network where
  "ex_net = network_new\<lparr>
     net_nodes := [0 \<mapsto> ex_node 0 [4] [0, 2], 1 \<mapsto> ex_node 1 [0] [1], 2 \<mapsto> ex_node 2 [3] [4, 5], 3 \<mapsto> ex_node 3 [1, 2, 5] [3]],
     net_links := [0 \<mapsto> ex_link 0 0 1 1, 1 \<mapsto> ex_link 1 1 3 1, 2 \<mapsto> ex_link 2 0 3 3, 3 \<mapsto> ex_link 3 3 2 10,
       4 \<mapsto> ex_link 4 2 0 1, 5 \<mapsto> ex_link 5 2 3 1]\<rparr>"

definition ex_graph :: routing_graph where
  "ex_graph = \<lparr>forward_graph = \<lparr>first_out = [0, 2, 3, 4, 5], head = [1, 3, 3, 0, 2]\<rparr>,
     backward_graph = \<lparr>first_out = [0, 1, 2, 3, 5], head = [2, 0, 3, 1, 0]\<rparr>,
     rg_network = ex_net, node_index_by_id = index_by_id [0, 1, 2, 3], node_id_by_index = [0, 1, 2, 3],
     forward_link_id_by_index = [0, 2, 1, 4, 3], backward_link_id_by_index = [4, 0, 3, 1, 2],
     forward_link_index_by_id = index_by_id [0, 2, 1, 4, 3], backward_link_index_by_id = index_by_id [4, 0, 3, 1, 2]\<rparr>"

lemma ex_net_inv: "net_inv ex_net"
proof -
  have "outs_of ex_net i = (if i = 0 then {0, 2} else if i = 1 then {1} else if i = 2 then {4, 5} else if i = 3 then {3} else {})"
    "ins_of ex_net i = (if i = 0 then {4} else if i = 1 then {0} else if i = 2 then {3} else if i = 3 then {1, 2, 5} else {})" for i
    by (auto simp: outs_of_def ins_of_def ex_net_def ex_link_def link_new_def split: if_splits)
  then show ?thesis
    by (simp add: net_inv_def) (auto simp: ex_net_def ex_node_def ex_link_def node_new_def link_new_def split: if_splits)
qed

lemma ex_convert: "convert_network_for_mode ex_net (Some ''car'') = Some ex_graph"
proof -
  have dom: "dom (net_nodes ex_net) = {0, 1, 2, 3}" by (auto simp: ex_net_def split: if_splits)
  have nodes: "get_all_nodes_sorted ex_net = [ex_node 0 [4] [0, 2], ex_node 1 [0] [1], ex_node 2 [3] [4, 5], ex_node 3 [1, 2, 5] [3]]"
    unfolding get_all_nodes_sorted_def dom by (simp add: ex_net_def)
  have rows: "get_links [4] ex_net (Some ''car'') = Some [ex_link 4 2 0 1]" "get_links [0, 2] ex_net (Some ''car'') = Some [ex_link 0 0 1 1, ex_link 2 0 3 3]"
    "get_links [0] ex_net (Some ''car'') = Some [ex_link 0 0 1 1]" "get_links [1] ex_net (Some ''car'') = Some [ex_link 1 1 3 1]"
    "get_links [3] ex_net (Some ''car'') = Some [ex_link 3 3 2 10]" "get_links [4, 5] ex_net (Some ''car'') = Some [ex_link 4 2 0 1]"
    "get_links [1, 2, 5] ex_net (Some ''car'') = Some [ex_link 1 1 3 1, ex_link 2 0 3 3]"
    by (simp_all add: get_links_def get_link_def ex_net_def for_mode_def contains_mode_def ex_link_def link_new_def)
  have idx: "index_by_id [0::nat, 1, 2, 3] = [0 \<mapsto> 0, 1 \<mapsto> 1, 2 \<mapsto> 2, 3 \<mapsto> 3]" by (simp add: index_by_id_def eval_nat_numeral)
  have ids: "map node_ident (get_all_nodes_sorted ex_net) = [0, 1, 2, 3]" by (simp add: nodes ex_node_def node_new_def)
  have "foldM (convert_node (index_by_id [0, 1, 2, 3]) ex_net (Some ''car'')) (zip [0..<4] (get_all_nodes_sorted ex_net)) conv_init =
     Some \<lparr>cs_node_index_by_id = [0 \<mapsto> 0, 1 \<mapsto> 1, 2 \<mapsto> 2, 3 \<mapsto> 3], cs_node_id_by_index = [0, 1, 2, 3],
       cs_forward_first_out = [0, 2, 3, 4], cs_forward_head = [1, 3, 3, 0, 2], cs_forward_ids = [0, 2, 1, 4, 3], cs_forward_before = 5,
       cs_backward_first_out = [0, 1, 2, 3], cs_backward_head = [2, 0, 3, 1, 0], cs_backward_ids = [4, 0, 3, 1, 2], cs_backward_before = 5\<rparr>"
    unfolding idx
    by (simp add: nodes convert_node_def upt_rec rows rows[simplified] ex_node_def node_new_def conv_init_def ex_link_def link_new_def)
      (simp add: eval_nat_numeral)
  moreover have "length (get_all_nodes_sorted ex_net) = 4" by (simp add: nodes)
  ultimately show ?thesis
    by (simp add: convert_network_for_mode_def ids Let_def graph_new_def ex_graph_def idx idx[simplified])
qed

text \<open>
  C22. The conversion of a consistent network for a mode does not panic and yields a graph that
  routing can rely on: every lookup agrees with every other (\<open>graph_ok\<close>: both ends of an edge,
  the rows of outgoing and incoming edges, the indices of nodes and links), the nodes are those of
  the network, and the edges are exactly the links that allow the mode, each with one index.
\<close>

theorem convert_network_correct:
  assumes "net_inv net"
  shows "\<exists>g. convert_network_for_mode net m = Some g \<and> graph_ok g \<and> rg_network g = net \<and>
    set (node_id_by_index g) = dom (net_nodes net) \<and>
    (\<forall>l. (\<exists>e < num_edges g. get_link_from_idx g e = Inr l) \<longleftrightarrow> net_links net (link_ident l) = Some l \<and> for_mode m l) \<and>
    (\<forall>e < num_edges g. \<forall>e' < num_edges g. get_link_from_idx g e = get_link_from_idx g e' \<longrightarrow> e = e')"
proof -
  obtain g where g: "convert_network_for_mode net m = Some g" and net: "rg_network g = net" and ids: "node_id_by_index g = conv_ids net"
    by (rule convert_view[OF assms])
  note ok = convert_graph_ok[OF assms g]
  have ids': "set (node_id_by_index g) = dom (net_nodes net)"
    using nodes_sorted(4)[OF assms] assms by (simp add: ids conv_ids_def)
  have "distinct (concat (conv_outs net m))" using conv.distinct_links(1)[of net m] by (simp add: distinct_map del: length_concat)
  then have "e = e'" if "e < num_edges g" "e' < num_edges g" "get_link_from_idx g e = get_link_from_idx g e'" for e e'
    using that ok(3,4) by (simp add: nth_eq_iff_index_eq del: length_concat)
  then show ?thesis using g ok(1) net ids' convert_links[OF assms g] by blast
qed

theorem convert_network_correct_witness:
  "net_inv ex_net \<and> graph_ok ex_graph \<and> (\<exists>e < num_edges ex_graph. get_link_from_idx ex_graph e = Inr (ex_link 4 2 0 1)) \<and>
   \<not> (\<exists>e < num_edges ex_graph. get_link_from_idx ex_graph e = Inr (ex_link 5 2 3 1))"
proof -
  have l: "net_links ex_net (link_ident (ex_link 4 2 0 1)) = Some (ex_link 4 2 0 1)" "for_mode (Some ''car'') (ex_link 4 2 0 1)"
    "\<not> for_mode (Some ''car'') (ex_link 5 2 3 1)"
    by (simp_all add: ex_net_def ex_link_def link_new_def for_mode_def contains_mode_def)
  show ?thesis using convert_network_correct[OF ex_net_inv, of "Some ''car''"] ex_convert ex_net_inv l by (metis option.inject)
qed

end
