(* ===== verification/Disutility.thy ===== *)
theory Disutility
  imports Routing_Graph Vehicles Floats
begin

text \<open>
  Costs of routing (\<open>replanning/routing/least_cost_path_calculator.rs\<close>): travel times and travel
  disutilities of links. A disutility is an \<open>f64\<close> whose special values matter here, because the
  search starts from infinity and tests for it and for NaN; \<open>xf64\<close> has them as values of their own,
  with exact arithmetic between the finite ones.
\<close>

section \<open>Floating point numbers with their special values\<close>

datatype xf64 = Fin f64 | PosInf | NegInf | NaN

instantiation xf64 :: comm_monoid_add
begin

definition zero_xf64 :: xf64 where
  "zero_xf64 = Fin 0"

fun plus_xf64 :: "xf64 \<Rightarrow> xf64 \<Rightarrow> xf64" where
  "plus_xf64 (Fin a) (Fin b) = Fin (a + b)"
| "plus_xf64 NaN _ = NaN"
| "plus_xf64 _ NaN = NaN"
| "plus_xf64 PosInf NegInf = NaN"
| "plus_xf64 NegInf PosInf = NaN"
| "plus_xf64 PosInf _ = PosInf"
| "plus_xf64 _ PosInf = PosInf"
| "plus_xf64 NegInf _ = NegInf"
| "plus_xf64 _ NegInf = NegInf"

instance
proof
  fix x y z :: xf64
  show "0 + x = x" by (cases x) (auto simp: zero_xf64_def)
  show "x + y = y + x" by (cases y; cases x) auto
  show "(x + y) + z = x + (y + z)" by (cases z; cases y; cases x) auto
qed

end

text \<open>
  The total order of \<open>OrderedFloat\<close>, in which NaN is the greatest value. The operators of \<open>f64\<close>
  agree with it on all other values and are false on NaN.
\<close>

instantiation xf64 :: linorder
begin

fun less_eq_xf64 :: "xf64 \<Rightarrow> xf64 \<Rightarrow> bool" where
  "less_eq_xf64 (Fin a) (Fin b) \<longleftrightarrow> a \<le> b"
| "less_eq_xf64 _ NaN \<longleftrightarrow> True"
| "less_eq_xf64 NegInf _ \<longleftrightarrow> True"
| "less_eq_xf64 NaN _ \<longleftrightarrow> False"
| "less_eq_xf64 _ PosInf \<longleftrightarrow> True"
| "less_eq_xf64 PosInf _ \<longleftrightarrow> False"
| "less_eq_xf64 _ NegInf \<longleftrightarrow> False"

definition less_xf64 :: "xf64 \<Rightarrow> xf64 \<Rightarrow> bool" where
  "less_xf64 a b \<longleftrightarrow> a \<le> b \<and> \<not> b \<le> (a :: xf64)"

instance
proof
  fix x y z :: xf64
  show "x \<le> y \<or> y \<le> x" by (cases y; cases x) auto
  show "x \<le> x" by (cases x) auto
  show "x \<le> y \<Longrightarrow> y \<le> z \<Longrightarrow> x \<le> z" by (cases z; cases y; cases x) auto
  show "x \<le> y \<Longrightarrow> y \<le> x \<Longrightarrow> x = y" by (cases y; cases x) auto
  show "x < y \<longleftrightarrow> x \<le> y \<and> \<not> y \<le> x" by (rule less_xf64_def)
qed

end

definition f64_gt :: "xf64 \<Rightarrow> xf64 \<Rightarrow> bool" where
  "f64_gt a b \<longleftrightarrow> a \<noteq> NaN \<and> b \<noteq> NaN \<and> b < a"

text \<open>The disutilities that the contract of \<open>TravelDisutility\<close> allows: neither negative nor NaN.\<close>

definition nonneg :: "xf64 \<Rightarrow> bool" where
  "nonneg x \<longleftrightarrow> 0 \<le> x \<and> x \<noteq> NaN"

lemma nonneg_simps [simp]: "nonneg (Fin r) \<longleftrightarrow> 0 \<le> r" "nonneg PosInf" "\<not> nonneg NegInf" "\<not> nonneg NaN" "nonneg 0"
  by (simp_all add: nonneg_def zero_xf64_def)

lemma nonnegE:
  assumes "nonneg x"
  obtains (Fin) r where "x = Fin r" and "0 \<le> r" | (Inf) "x = PosInf"
  using assms by (cases x) simp_all

lemma nonneg_add [simp]: "nonneg a \<Longrightarrow> nonneg b \<Longrightarrow> nonneg (a + b)"
  by (elim nonnegE) simp_all

lemma nonneg_le_PosInf [simp]: "nonneg a \<Longrightarrow> a \<le> PosInf"
  by (elim nonnegE) simp_all

lemma nonneg_PosInf_le [simp]: "nonneg a \<Longrightarrow> PosInf \<le> a \<longleftrightarrow> a = PosInf"
  by (elim nonnegE) simp_all

lemma nonneg_ge_zero: "nonneg a \<Longrightarrow> 0 \<le> a"
  by (simp add: nonneg_def)

lemma f64_gt_nonneg: "nonneg a \<Longrightarrow> nonneg b \<Longrightarrow> f64_gt a b \<longleftrightarrow> b < a"
  by (auto simp: f64_gt_def)

lemma add_mono_nonneg: "nonneg a \<Longrightarrow> nonneg b \<Longrightarrow> nonneg c \<Longrightarrow> a \<le> b \<Longrightarrow> a + c \<le> b + c"
  by (elim nonnegE) simp_all

lemma add_Fin_cancel [simp]: "a + Fin x \<le> b + Fin x \<longleftrightarrow> a \<le> b"
  by (cases a; cases b) simp_all

lemma add_eq_PosInf: "nonneg a \<Longrightarrow> nonneg b \<Longrightarrow> a + b = PosInf \<longleftrightarrow> a = PosInf \<or> b = PosInf"
  by (elim nonnegE) simp_all

lemma add_Fin_eq_PosInf [simp]: "a + Fin x = PosInf \<longleftrightarrow> a = PosInf"
  by (cases a) simp_all

lemma add_Fin_mono: "nonneg a \<Longrightarrow> Fin x \<le> b \<Longrightarrow> b \<noteq> NaN \<Longrightarrow> a + Fin x \<le> a + b"
  by (cases b; elim nonnegE) simp_all

lemma le_add_nonneg: "nonneg a \<Longrightarrow> nonneg b \<Longrightarrow> a \<le> a + b"
  by (elim nonnegE) simp_all

section \<open>Travel times and disutilities\<close>

text \<open>
  The two traits \<open>TravelTime\<close> and \<open>TravelDisutility\<close>, by their methods. \<open>Duration::from_secs_f64\<close>
  panics on negative numbers, so the methods can panic.
\<close>

record travel_costs =
  travel_time :: "link \<Rightarrow> sim_time \<Rightarrow> internal_person option \<Rightarrow> internal_vehicle option \<Rightarrow> duration option"
  travel_disutility :: "link \<Rightarrow> sim_time \<Rightarrow> internal_person option \<Rightarrow> internal_vehicle option \<Rightarrow> xf64 option"
  get_link_min_travel_disutility :: "link \<Rightarrow> xf64 option"

definition f64_div :: "f64 \<Rightarrow> f64 \<Rightarrow> xf64" where
  "f64_div a b = (if b \<noteq> 0 then Fin (a / b) else if a = 0 then NaN else if 0 < a then PosInf else NegInf)"

fun duration_from_secs_f64 :: "xf64 \<Rightarrow> duration option" where
  "duration_from_secs_f64 (Fin x) =
     (let n = round_half_even (x * of_nat nanos_per_second) in if 0 \<le> x \<and> n \<le> duration_max then Some n else None)"
| "duration_from_secs_f64 _ = None"

definition free_speed_travel_time :: "link \<Rightarrow> duration option" where
  "free_speed_travel_time l = duration_from_secs_f64 (f64_div (link_length l) (link_freespeed l))"

definition FreeSpeedTravelTimeAndDisutility :: travel_costs where
  "FreeSpeedTravelTimeAndDisutility =
     (let tt = (\<lambda>l _ _ _. free_speed_travel_time l);
          td = (\<lambda>l t p v. map_option (\<lambda>d. Fin (duration_as_secs_f64 d * 1)) (tt l t p v))
      in \<lparr>travel_time = tt, travel_disutility = td, get_link_min_travel_disutility = (\<lambda>l. td l 0 None None)\<rparr>)"

definition free_or_max_speed_travel_time :: "link \<Rightarrow> internal_vehicle option \<Rightarrow> duration option" where
  "free_or_max_speed_travel_time l vehicle =
     (let max_speed = (case vehicle of Some v \<Rightarrow> min (iv_max_v v) (link_freespeed l) | None \<Rightarrow> link_freespeed l)
      in duration_from_secs_f64 (f64_div (link_length l) max_speed))"

definition FreeOrMaxSpeedTravelTimeAndDisutility :: travel_costs where
  "FreeOrMaxSpeedTravelTimeAndDisutility =
     (let tt = (\<lambda>l _ _ v. free_or_max_speed_travel_time l v);
          td = (\<lambda>l t p v. map_option (\<lambda>d. Fin (duration_as_secs_f64 d * 1)) (tt l t p v))
      in \<lparr>travel_time = tt, travel_disutility = td, get_link_min_travel_disutility = (\<lambda>l. td l 0 None None)\<rparr>)"

section \<open>The contract of travel disutilities\<close>

text \<open>
  What \<open>TravelDisutility\<close> demands of its implementations, on the links in \<open>L\<close>: no negative
  disutilities, and a lower bound over all times, persons and vehicles. In addition, the two
  implementations of the repository do not depend on the time.
\<close>

locale disutility_contract =
  fixes costs :: travel_costs and L :: "link set"
  assumes nonneg_disutility: "l \<in> L \<Longrightarrow> travel_disutility costs l t p v = Some d \<Longrightarrow> nonneg d"
    and lower_bound: "l \<in> L \<Longrightarrow> travel_disutility costs l t p v = Some d \<Longrightarrow>
      \<exists>m. get_link_min_travel_disutility costs l = Some m \<and> nonneg m \<and> m \<le> d"
    and static: "l \<in> L \<Longrightarrow> travel_disutility costs l t p v = travel_disutility costs l t' p v"
begin

lemma min_below_sum:
  assumes "set ls \<subseteq> L" and "mapM (\<lambda>l. travel_disutility costs l t p v) ls = Some ds"
  shows "\<exists>ms. mapM (get_link_min_travel_disutility costs) ls = Some ms \<and> nonneg (sum_list ms) \<and> nonneg (sum_list ds) \<and> sum_list ms \<le> sum_list ds"
  using assms
proof (induction ls arbitrary: ds)
  case (Cons l ls)
  then obtain d ds' where d: "travel_disutility costs l t p v = Some d" "mapM (\<lambda>l. travel_disutility costs l t p v) ls = Some ds'" "ds = d # ds'"
    by auto
  then obtain ms where ms: "mapM (get_link_min_travel_disutility costs) ls = Some ms" "nonneg (sum_list ms)" "nonneg (sum_list ds')" "sum_list ms \<le> sum_list ds'"
    using Cons by auto
  obtain m where m: "get_link_min_travel_disutility costs l = Some m" "nonneg m" "m \<le> d" using lower_bound[OF _ d(1)] Cons.prems(1) by auto
  have n: "nonneg d" using nonneg_disutility[OF _ d(1)] Cons.prems(1) by simp
  have "m + sum_list ms \<le> d + sum_list ms" using add_mono_nonneg[OF m(2) n ms(2) m(3)] .
  also have "\<dots> \<le> d + sum_list ds'" using add_mono_nonneg[OF ms(2,3) n ms(4)] by (simp add: add.commute)
  finally show ?case using d m ms n by auto
qed simp

end

lemma duration_from_secs_mono:
  assumes "duration_from_secs_f64 (Fin y) = Some d" and "0 \<le> x" and "x \<le> y"
  shows "\<exists>m. duration_from_secs_f64 (Fin x) = Some m \<and> m \<le> d"
proof -
  have "round_half_even (x * of_nat nanos_per_second) \<le> round_half_even (y * of_nat nanos_per_second)"
    using assms(2,3) by (intro round_half_even_mono mult_right_mono) simp_all
  then show ?thesis using assms by (auto simp: Let_def split: if_splits)
qed

text \<open>The links that drive: positive speed, no negative length.\<close>

definition drivable :: "link \<Rightarrow> bool" where
  "drivable l \<longleftrightarrow> 0 \<le> link_length l \<and> 0 < link_freespeed l"

lemma free_or_max_speed_bound:
  assumes "drivable l" and d: "free_or_max_speed_travel_time l v = Some d"
  shows "\<exists>m. free_or_max_speed_travel_time l None = Some m \<and> m \<le> d"
proof (cases v)
  case (Some w)
  let ?s = "min (iv_max_v w) (link_freespeed l)"
  have len: "0 \<le> link_length l" "0 < link_freespeed l" using assms(1) by (simp_all add: drivable_def)
  have s: "?s \<noteq> 0" and dd: "duration_from_secs_f64 (Fin (link_length l / ?s)) = Some d"
    using d Some by (auto simp: free_or_max_speed_travel_time_def f64_div_def Let_def[of "min _ _"] simp del: duration_from_secs_f64.simps(1) split: if_splits)
  then have "0 \<le> link_length l / ?s" by (auto simp: Let_def split: if_splits)
  then have "link_length l / link_freespeed l \<le> link_length l / ?s"
    using len s by (cases "0 < ?s") (auto simp: zero_le_divide_iff intro: divide_left_mono)
  moreover have "0 \<le> link_length l / link_freespeed l" using len by simp
  ultimately obtain m where "duration_from_secs_f64 (Fin (link_length l / link_freespeed l)) = Some m" "m \<le> d"
    using duration_from_secs_mono[OF dd] by blast
  then show ?thesis using len by (auto simp: free_or_max_speed_travel_time_def f64_div_def)
qed (use d in simp)

lemma duration_as_secs_le: "m \<le> d \<Longrightarrow> duration_as_secs_f64 m \<le> duration_as_secs_f64 d" and duration_as_secs_nonneg: "0 \<le> duration_as_secs_f64 d"
  by (simp_all add: duration_as_secs_f64_def divide_right_mono)

interpretation free_speed: disutility_contract FreeSpeedTravelTimeAndDisutility "Collect drivable"
  by unfold_locales (auto simp: FreeSpeedTravelTimeAndDisutility_def Let_def duration_as_secs_nonneg)

interpretation free_or_max: disutility_contract FreeOrMaxSpeedTravelTimeAndDisutility "Collect drivable"
proof
  fix l t p v d
  assume "l \<in> Collect drivable" and d: "travel_disutility FreeOrMaxSpeedTravelTimeAndDisutility l t p v = Some d"
  then have l: "drivable l" by simp
  then obtain e where e: "free_or_max_speed_travel_time l v = Some e" "d = Fin (duration_as_secs_f64 e)"
    using d by (auto simp: FreeOrMaxSpeedTravelTimeAndDisutility_def Let_def)
  then show "nonneg d" by (simp add: duration_as_secs_nonneg)
  obtain m where "free_or_max_speed_travel_time l None = Some m" "m \<le> e" using free_or_max_speed_bound[OF l e(1)] by blast
  then show "\<exists>m. get_link_min_travel_disutility FreeOrMaxSpeedTravelTimeAndDisutility l = Some m \<and> nonneg m \<and> m \<le> d"
    using e(2) by (auto simp: FreeOrMaxSpeedTravelTimeAndDisutility_def Let_def duration_as_secs_le duration_as_secs_nonneg)
qed (simp add: FreeOrMaxSpeedTravelTimeAndDisutility_def Let_def)

text \<open>
  The disutilities that respect the maximum speed of the vehicle keep the contract of
  \<open>TravelDisutility\<close>: along every sequence of links with positive speed, the sum of the minimum
  disutilities exists and is a lower bound of what any person with any vehicle pays at any time.
\<close>

theorem min_disutility_lower_bound:
  assumes "\<forall>l \<in> set ls. drivable l"
    and "mapM (\<lambda>l. travel_disutility FreeOrMaxSpeedTravelTimeAndDisutility l t p v) ls = Some ds"
  shows "\<exists>ms. mapM (get_link_min_travel_disutility FreeOrMaxSpeedTravelTimeAndDisutility) ls = Some ms \<and>
    0 \<le> sum_list ms \<and> sum_list ms \<le> sum_list ds"
  using free_or_max.min_below_sum[of ls t p v ds] assms by (auto dest: nonneg_ge_zero)

theorem min_disutility_lower_bound_witness:
  "\<exists>ms. mapM (get_link_min_travel_disutility FreeOrMaxSpeedTravelTimeAndDisutility) [ex_link 0 0 1 1] = Some ms \<and> sum_list ms \<le> Fin 2"
proof -
  let ?v = "\<lparr>iv_id = ''v'', iv_max_v = 1 / 2, iv_pce = 1, iv_vehicle_type = ''car'', iv_attributes = Map.empty\<rparr>"
  have "mapM (\<lambda>l. travel_disutility FreeOrMaxSpeedTravelTimeAndDisutility l 0 None (Some ?v)) [ex_link 0 0 1 1] = Some [Fin 2]"
    by (simp add: FreeOrMaxSpeedTravelTimeAndDisutility_def free_or_max_speed_travel_time_def ex_link_def link_new_def f64_div_def
        duration_as_secs_f64_def round_half_even_def nanos_per_second_def duration_max_def Let_def u64_max_def)
  moreover have "\<forall>l \<in> set [ex_link 0 0 1 1]. drivable l" by (simp add: drivable_def ex_link_def link_new_def)
  ultimately show ?thesis using min_disutility_lower_bound by fastforce
qed

end
