(* ===== verification/Label_Setting.thy ===== *)
theory Label_Setting
  imports Disutility
begin

text \<open>
  Label setting on a weighted graph, independent of how the graph and the queue are stored: the
  invariant of the search, its preservation when a node is popped and when an edge is scanned, and
  what it says of the labels in the end. The search in \<open>A_Star_Core\<close> interprets the locale on its
  own graph and costs.
\<close>

locale label_setting =
  fixes n :: nat and E :: "nat set" and src dst :: "nat \<Rightarrow> nat" and c :: "nat \<Rightarrow> xf64" and h :: "nat \<Rightarrow> f64"
    and s :: nat and tt :: "nat \<Rightarrow> sim_time \<Rightarrow> nat" and B :: nat and dep :: sim_time
  assumes ends: "e \<in> E \<Longrightarrow> src e < n \<and> dst e < n"
    and cost: "e \<in> E \<Longrightarrow> nonneg (c e)"
    and consistent: "e \<in> E \<Longrightarrow> Fin (h (src e)) \<le> c e + Fin (h (dst e))"
    and tt_bound: "e \<in> E \<Longrightarrow> tt e t \<le> B"
begin

primrec walk :: "nat \<Rightarrow> nat list \<Rightarrow> nat \<Rightarrow> bool" where
  "walk u [] v \<longleftrightarrow> u = v"
| "walk u (e # es) v \<longleftrightarrow> e \<in> E \<and> src e = u \<and> walk (dst e) es v"

definition weight :: "nat list \<Rightarrow> xf64" where
  "weight es = sum_list (map c es)"

primrec arrival :: "sim_time \<Rightarrow> nat list \<Rightarrow> sim_time" where
  "arrival t [] = t"
| "arrival t (e # es) = arrival (t + tt e t) es"

definition settled :: "(nat \<rightharpoonup> xf64) \<Rightarrow> nat set" where
  "settled P = {u. u < n \<and> P u = None}"

text \<open>The links that lead to a node, last first; all nodes before it are settled.\<close>

primrec chain :: "(nat \<rightharpoonup> xf64) \<Rightarrow> (nat \<rightharpoonup> nat) \<Rightarrow> nat \<Rightarrow> nat list \<Rightarrow> bool" where
  "chain P par v [] \<longleftrightarrow> v = s \<and> par s = None"
| "chain P par v (e # es) \<longleftrightarrow> par v = Some e \<and> e \<in> E \<and> dst e = v \<and> src e \<in> settled P \<and> chain P par (src e) es"

definition labelled :: "(nat \<Rightarrow> xf64) \<Rightarrow> (nat \<rightharpoonup> xf64) \<Rightarrow> (nat \<rightharpoonup> nat) \<Rightarrow> (nat \<Rightarrow> sim_time) \<Rightarrow> nat \<Rightarrow> bool" where
  "labelled d P par arr v \<longleftrightarrow> (\<exists>es. chain P par v es \<and> d v = weight es \<and> arr v = arrival dep (rev es))"

definition inv :: "nat set \<Rightarrow> (nat \<Rightarrow> xf64) \<Rightarrow> (nat \<rightharpoonup> xf64) \<Rightarrow> (nat \<rightharpoonup> nat) \<Rightarrow> (nat \<Rightarrow> sim_time) \<Rightarrow> bool" where
  "inv F d P par arr \<longleftrightarrow>
     s < n \<and> dom P \<subseteq> {..<n} \<and> (\<forall>v < n. nonneg (d v)) \<and> d s = 0 \<and> par s = None \<and>
     (\<forall>e \<in> E - F. src e \<in> settled P \<longrightarrow> d (dst e) \<le> d (src e) + c e) \<and>
     (\<forall>u \<in> settled P. \<forall>w \<in> dom P. d u + Fin (h u) \<le> d w + Fin (h w)) \<and>
     (\<forall>w p. P w = Some p \<longrightarrow> p = d w + Fin (h w) \<or> w = s \<and> p = 0 \<and> (\<forall>v < n. v \<noteq> s \<longrightarrow> d v = PosInf)) \<and>
     (\<forall>v < n. d v \<noteq> PosInf \<longrightarrow> labelled d P par arr v \<and> arr v \<le> dep + card (settled P) * B)"

text \<open>What holds in addition while the edges of the node \<open>u\<close> are scanned.\<close>

definition scanning :: "nat \<Rightarrow> nat set \<Rightarrow> (nat \<Rightarrow> xf64) \<Rightarrow> (nat \<rightharpoonup> xf64) \<Rightarrow> (nat \<rightharpoonup> nat) \<Rightarrow> (nat \<Rightarrow> sim_time) \<Rightarrow> bool" where
  "scanning u F d P par arr \<longleftrightarrow> inv F d P par arr \<and> u \<in> settled P \<and> d u \<noteq> PosInf \<and> arr u + B \<le> dep + card (settled P) * B \<and>
     (\<forall>x \<in> settled P. d x + Fin (h x) \<le> d u + Fin (h u))"

lemma invD:
  assumes "inv F d P par arr"
  shows "s < n" "dom P \<subseteq> {..<n}" "v < n \<Longrightarrow> nonneg (d v)" "d s = 0" "par s = None"
    and "e \<in> E \<Longrightarrow> e \<notin> F \<Longrightarrow> src e \<in> settled P \<Longrightarrow> d (dst e) \<le> d (src e) + c e"
    and "u \<in> settled P \<Longrightarrow> P w = Some p \<Longrightarrow> d u + Fin (h u) \<le> d w + Fin (h w)"
    and "P w = Some p \<Longrightarrow> p = d w + Fin (h w) \<or> w = s \<and> p = 0 \<and> (\<forall>v < n. v \<noteq> s \<longrightarrow> d v = PosInf)"
    and "v < n \<Longrightarrow> d v \<noteq> PosInf \<Longrightarrow> labelled d P par arr v" "v < n \<Longrightarrow> d v \<noteq> PosInf \<Longrightarrow> arr v \<le> dep + card (settled P) * B"
  using assms unfolding inv_def by blast+

lemma weight_simps [simp]: "weight [] = 0" "weight (e # es) = c e + weight es" "weight (es @ es') = weight es + weight es'" "weight (rev es) = weight es"
  by (simp_all add: weight_def rev_map[symmetric])

lemma arrival_append [simp]: "arrival t (es @ es') = arrival (arrival t es) es'"
  by (induction es arbitrary: t) simp_all

lemma walk_append: "walk u (es @ es') v \<longleftrightarrow> (\<exists>w. walk u es w \<and> walk w es' v)"
  by (induction es arbitrary: u) auto

lemma weight_nonneg: "walk u es v \<Longrightarrow> nonneg (weight es)"
  by (induction es arbitrary: u) (auto intro!: nonneg_add cost)

lemma chain_walk: "chain P par v es \<Longrightarrow> walk s (rev es) v"
  by (induction es arbitrary: v) (auto simp: walk_append)

lemma finite_settled [simp]: "finite (settled P)"
  by (simp add: settled_def)

lemma card_settled_le: "card (settled P) \<le> n"
  using card_mono[of "{..<n}" "settled P"] by (auto simp: settled_def)

text \<open>Chains survive that another node is popped and that the label of a queued node changes.\<close>

lemma chain_pop: "chain P par v es \<Longrightarrow> chain (P(u := None)) par v es"
  by (induction es arbitrary: v) (auto simp: settled_def)

lemma chain_update: "chain P par v es \<Longrightarrow> v \<noteq> w \<Longrightarrow> w \<in> dom P \<Longrightarrow> w \<noteq> s \<Longrightarrow> chain (P(w \<mapsto> p)) (par(w \<mapsto> e)) v es"
  by (induction es arbitrary: v) (auto simp: settled_def)

lemma settled_pop: "P u = Some p \<Longrightarrow> u < n \<Longrightarrow> settled (P(u := None)) = insert u (settled P) \<and> u \<notin> settled P"
  by (auto simp: settled_def)

lemma settled_update: "P w \<noteq> None \<Longrightarrow> settled (P(w \<mapsto> p)) = settled P"
  by (auto simp: settled_def)

lemma labelled_pop: "labelled d P par arr v \<Longrightarrow> labelled d (P(u := None)) par arr v"
  unfolding labelled_def using chain_pop by blast

lemma scan_bound:
  assumes "e \<in> E" and "nonneg (d (src e))"
  shows "d (src e) + Fin (h (src e)) \<le> d (src e) + c e + Fin (h (dst e))"
proof -
  have "c e + Fin (h (dst e)) \<noteq> NaN" using cost[OF assms(1)] by (elim nonnegE) simp_all
  then show ?thesis using add_Fin_mono[OF assms(2) consistent[OF assms(1)]] by (simp add: add.assoc)
qed

text \<open>Popping a node of least priority whose label is finite.\<close>

lemma pop_minimal:
  assumes inv: "inv F d P par arr" and u: "P u = Some p" "\<forall>w q. P w = Some q \<longrightarrow> p \<le> q" and w: "w \<in> dom P"
  shows "d u + Fin (h u) \<le> d w + Fin (h w)"
proof -
  obtain q where q: "P w = Some q" using w by blast
  have n: "u < n" "w < n" using inv u(1) w by (auto simp: inv_def)
  have I: "\<And>w p. P w = Some p \<Longrightarrow> p = d w + Fin (h w) \<or> w = s \<and> p = 0 \<and> (\<forall>v < n. v \<noteq> s \<longrightarrow> d v = PosInf)"
    and nn: "\<And>v. v < n \<Longrightarrow> nonneg (d v)" and ds: "d s = 0" using inv by (auto simp: inv_def)
  have le: "p \<le> q" using u(2) q by blast
  show ?thesis
  proof (cases "w = u")
    case False
    consider (all) "p = d u + Fin (h u)" "q = d w + Fin (h w)" | (source) "\<forall>v < n. v \<noteq> s \<longrightarrow> d v = PosInf" "u = s \<or> w = s \<and> p = d u + Fin (h u) \<and> q = 0"
      using I[OF u(1)] I[OF q] by blast
    then show ?thesis
    proof cases
      case source
      then show ?thesis
      proof (cases "u = s")
        case True
        then show ?thesis using source False n ds by (simp add: zero_xf64_def)
      next
        case False
        then have "q = 0" "p = PosInf" using source n by auto
        then show ?thesis using le by (simp add: zero_xf64_def)
      qed
    qed (use le in simp)
  qed simp
qed

lemma pop_step:
  assumes inv: "inv {} d P par arr" and u: "P u = Some p" "\<forall>w q. P w = Some q \<longrightarrow> p \<le> q" and fin: "d u \<noteq> PosInf"
  shows "scanning u {e \<in> E. src e = u} d (P(u := None)) par arr"
proof -
  let ?P = "P(u := None)"
  have un: "u < n" using inv u(1) by (auto simp: inv_def)
  note S = settled_pop[of P u p, OF u(1) un]
  have card: "card (settled ?P) = Suc (card (settled P))" using S by simp
  have min: "d u + Fin (h u) \<le> d w + Fin (h w)" if "w \<in> dom P" for w by (rule pop_minimal[OF inv u that])
  have arr: "arr v + B \<le> dep + card (settled ?P) * B" if "v < n" "d v \<noteq> PosInf" for v
    using inv that card by (auto simp: inv_def)
  have less: "d x + Fin (h x) \<le> d u + Fin (h u)" if "x \<in> settled ?P" for x
    using that invD(7)[OF inv _ u(1)] S by auto
  have "inv {e \<in> E. src e = u} d ?P par arr"
    unfolding inv_def
  proof (intro conjI allI impI ballI)
    show "d (dst e) \<le> d (src e) + c e" if "e \<in> E - {e \<in> E. src e = u}" "src e \<in> settled ?P" for e
      using that inv S by (auto simp: inv_def)
    show "d x + Fin (h x) \<le> d w + Fin (h w)" if "x \<in> settled ?P" "w \<in> dom ?P" for x w
      using less[OF that(1)] min[of w] that(2) by (auto split: if_splits)
    show "q = d w + Fin (h w) \<or> w = s \<and> q = 0 \<and> (\<forall>v < n. v \<noteq> s \<longrightarrow> d v = PosInf)" if "?P w = Some q" for w q
      using that inv by (auto simp: inv_def split: if_splits)
    show "labelled d ?P par arr v" "arr v \<le> dep + card (settled ?P) * B" if "v < n" "d v \<noteq> PosInf" for v
      using that inv arr[OF that] by (auto simp: inv_def intro: labelled_pop)
  qed (use inv in \<open>auto simp: inv_def\<close>)
  then show ?thesis using S fin arr[OF un fin] less by (simp add: scanning_def)
qed

text \<open>Scanning an edge that does not improve the label of its end.\<close>

lemma scan_skip:
  assumes sc: "scanning u F d P par arr" and e: "e \<in> E" "src e = u" and skip: "P (dst e) = None \<or> d (dst e) \<le> d u + c e"
  shows "scanning u (F - {e}) d P par arr"
proof -
  have inv: "inv F d P par arr" and u: "u \<in> settled P" and top: "\<And>x. x \<in> settled P \<Longrightarrow> d x + Fin (h x) \<le> d u + Fin (h u)"
    using sc by (auto simp: scanning_def)
  have nn: "nonneg (d u)" using inv u by (auto simp: inv_def settled_def)
  have "d (dst e) \<le> d u + c e"
  proof (cases "P (dst e) = None")
    case True
    then have "d (dst e) + Fin (h (dst e)) \<le> d u + Fin (h u)" using top ends[OF e(1)] by (simp add: settled_def)
    also have "\<dots> \<le> d u + c e + Fin (h (dst e))" using scan_bound[OF e(1)] nn e(2) by simp
    finally show ?thesis by simp
  qed (use skip in auto)
  then have "d (dst f) \<le> d (src f) + c f" if "f \<in> E - (F - {e})" "src f \<in> settled P" for f
    using that invD(6)[OF inv, of f] e(2) by (cases "f = e") auto
  then have "\<forall>f \<in> E - (F - {e}). src f \<in> settled P \<longrightarrow> d (dst f) \<le> d (src f) + c f" by blast
  then have "inv (F - {e}) d P par arr" using inv unfolding inv_def by (elim conjE) (intro conjI, assumption+)
  then show ?thesis using sc by (simp add: scanning_def)
qed

text \<open>Scanning an edge that improves the label of its end.\<close>

lemma scan_update:
  assumes sc: "scanning u F d P par arr" and e: "e \<in> E" "src e = u" "dst e = w"
    and w: "P w \<noteq> None" "\<not> d w \<le> d u + c e"
  shows "scanning u (F - {e}) (d(w := d u + c e)) (P(w \<mapsto> d u + c e + Fin (h w))) (par(w \<mapsto> e)) (arr(w := arr u + tt e (arr u)))"
    and "d u + c e \<noteq> PosInf" and "w \<noteq> s"
proof -
  let ?d = "d(w := d u + c e)" and ?P = "P(w \<mapsto> d u + c e + Fin (h w))" and ?par = "par(w \<mapsto> e)" and ?arr = "arr(w := arr u + tt e (arr u))"
  have inv: "inv F d P par arr" and u: "u \<in> settled P" "d u \<noteq> PosInf" and top: "\<And>x. x \<in> settled P \<Longrightarrow> d x + Fin (h x) \<le> d u + Fin (h u)"
    and arr: "arr u + B \<le> dep + card (settled P) * B"
    using sc by (auto simp: scanning_def)
  have un: "u < n" and wn: "w < n" and uw: "u \<noteq> w" using u ends[OF e(1)] e(3) w(1) by (auto simp: settled_def)
  have nn: "\<And>v. v < n \<Longrightarrow> nonneg (d v)" and ds: "d s = 0" and pars: "par s = None" using inv by (auto simp: inv_def)
  have ce: "nonneg (d u + c e)" using nn[OF un] cost[OF e(1)] by simp
  show fin: "d u + c e \<noteq> PosInf" using w(2) nn[OF wn] by auto
  show ws: "w \<noteq> s" using w(2) nonneg_ge_zero[OF ce] ds by auto
  have S: "settled ?P = settled P" using settled_update[of P w] w(1) by simp
  have wS: "w \<notin> settled P" using w(1) by (simp add: settled_def)
  have lab: "labelled ?d ?P ?par ?arr v" if lv: "labelled d P par arr v" and vw: "v \<noteq> w" for v
  proof -
    obtain es where "chain P par v es" "d v = weight es" "arr v = arrival dep (rev es)" using lv unfolding labelled_def by blast
    moreover have "chain ?P ?par v es" using chain_update[OF calculation(1) vw _ ws] w(1) by blast
    ultimately show ?thesis using vw by (auto simp: labelled_def)
  qed
  have labw: "labelled ?d ?P ?par ?arr w"
  proof -
    have "labelled ?d ?P ?par ?arr u" using lab inv u un uw by (auto simp: inv_def)
    then obtain es where "chain ?P ?par u es" "?d u = weight es" "?arr u = arrival dep (rev es)" by (auto simp: labelled_def)
    then show ?thesis using e S u(1) uw unfolding labelled_def by (intro exI[of _ "e # es"]) (auto simp: add.commute)
  qed
  have better: "?d v \<le> d v" if "v < n" for v using w(2) by auto
  have "inv (F - {e}) ?d ?P ?par ?arr"
    unfolding inv_def S
  proof (intro conjI allI impI ballI)
    show "?d (dst f) \<le> ?d (src f) + c f" if "f \<in> E - (F - {e})" "src f \<in> settled P" for f
    proof (cases "f = e")
      case True
      then show ?thesis using e uw by simp
    next
      case False
      then have "d (dst f) \<le> d (src f) + c f" using that inv by (auto simp: inv_def)
      then have "?d (dst f) \<le> d (src f) + c f" using better[of "dst f"] ends[of f] that(1) by auto
      then show ?thesis using that(2) wS by auto
    qed
    show "?d x + Fin (h x) \<le> ?d v + Fin (h v)" if x: "x \<in> settled P" and v: "v \<in> dom ?P" for x v
    proof (cases "v = w")
      case True
      have "d x + Fin (h x) \<le> d u + Fin (h u)" by (rule top[OF x])
      also have "\<dots> \<le> d u + c e + Fin (h w)" using scan_bound[OF e(1)] nn[OF un] e by simp
      finally show ?thesis using True x wS by auto
    next
      case False
      then have "v \<in> dom P" using v by (auto split: if_splits)
      then show ?thesis using False x wS inv by (auto simp: inv_def)
    qed
    show "q = ?d v + Fin (h v) \<or> v = s \<and> q = 0 \<and> (\<forall>x < n. x \<noteq> s \<longrightarrow> ?d x = PosInf)" if q: "?P v = Some q" for v q
    proof (cases "v = w")
      case False
      then have "P v = Some q" using q by simp
      then consider "q = d v + Fin (h v)" | "v = s" "\<forall>x < n. x \<noteq> s \<longrightarrow> d x = PosInf" using invD(8)[OF inv, of v q] by blast
      then show ?thesis
      proof cases
        case 2
        then have "u = s" using u(2) un by auto
        then show ?thesis using 2 u(1) \<open>P v = Some q\<close> by (simp add: settled_def)
      qed (use False in simp)
    qed (use q in simp)
    show "labelled ?d ?P ?par ?arr v" "?arr v \<le> dep + card (settled P) * B" if v: "v < n" "?d v \<noteq> PosInf" for v
      using v lab labw inv arr tt_bound[OF e(1), of "arr u"] by (auto simp: inv_def split: if_splits)
  qed (use inv ce ws wn in \<open>auto simp: inv_def\<close>)
  then show "scanning u (F - {e}) ?d ?P ?par ?arr"
    using u un uw arr top wS by (auto simp: scanning_def S)
qed

text \<open>The search starts with the label 0 at the source only.\<close>

lemma inv_start:
  assumes "s < n"
  shows "inv {} (\<lambda>v. if v = s then 0 else PosInf) (\<lambda>v. if v < n then Some (if v = s then 0 else PosInf) else None) Map.empty (\<lambda>v. if v = s then dep else t)"
proof -
  have "settled (\<lambda>v. if v < n then Some (if v = s then 0 else PosInf) else None) = {}" by (auto simp: settled_def)
  moreover have "labelled d P Map.empty (\<lambda>v. if v = s then dep else t) s" if "d s = 0" for d P
    using that unfolding labelled_def by (intro exI[of _ "[]"]) simp
  ultimately show ?thesis using assms by (auto simp: inv_def split: if_splits)
qed

section \<open>The labels in the end\<close>

text \<open>A walk from a node with label at most \<open>b\<close> stays settled, or leaves the settled nodes at a node whose label is bounded.\<close>

lemma walk_bound:
  assumes inv: "inv {} d P par arr" and "walk u es v" and "d u \<le> b" and "nonneg b" and "u < n"
  shows "v \<in> settled P \<and> d v \<le> b + weight es \<or> (\<exists>y \<in> dom P. d y + Fin (h y) \<le> b + weight es + Fin (h v))"
  using assms(2-5)
proof (induction es arbitrary: u b)
  case Nil
  then show ?case
  proof (cases "P u")
    case (Some q)
    then show ?thesis using Nil by (intro disjI2 bexI[of _ u]) auto
  qed (use Nil in \<open>simp add: settled_def\<close>)
next
  case (Cons e es)
  have e: "e \<in> E" "src e = u" and w: "walk (dst e) es v" using Cons.prems(1) by auto
  have nb: "nonneg (b + c e)" using Cons.prems(3) cost[OF e(1)] by simp
  have nu: "nonneg (d u)" using inv Cons.prems(4) by (simp add: inv_def)
  show ?case
  proof (cases "P u")
    case None
    then have "d (dst e) \<le> d u + c e" using inv e Cons.prems(4) by (auto simp: inv_def settled_def)
    also have "\<dots> \<le> b + c e" using add_mono_nonneg[OF nu Cons.prems(3) cost[OF e(1)] Cons.prems(2)] .
    finally show ?thesis using Cons.IH[OF w _ nb] ends[OF e(1)] by (simp add: add.assoc)
  next
    case (Some q)
    have "Fin (h u) \<le> weight (e # es) + Fin (h v)"
    proof -
      have pot: "Fin (h x) \<le> weight fs + Fin (h y)" if "walk x fs y" for x fs y
        using that
      proof (induction fs arbitrary: x)
        case (Cons f fs)
        have f: "f \<in> E" "src f = x" and IH: "Fin (h (dst f)) \<le> weight fs + Fin (h y)" using Cons by auto
        have "weight fs + Fin (h y) \<noteq> NaN" using weight_nonneg[of "dst f" fs y] Cons.prems by (auto elim!: nonnegE)
        then have "c f + Fin (h (dst f)) \<le> c f + (weight fs + Fin (h y))" by (rule add_Fin_mono[OF cost[OF f(1)] IH])
        then show ?case using consistent[OF f(1)] f(2) by (simp add: add.assoc)
      qed simp
      show ?thesis using pot[OF Cons.prems(1)] .
    qed
    moreover have "weight (e # es) + Fin (h v) \<noteq> NaN" using weight_nonneg[OF Cons.prems(1)] by (auto elim!: nonnegE)
    ultimately have "b + Fin (h u) \<le> b + (weight (e # es) + Fin (h v))" by (intro add_Fin_mono Cons.prems(3))
    moreover have "d u + Fin (h u) \<le> b + Fin (h u)" using Cons.prems(2) by simp
    ultimately have "d u + Fin (h u) \<le> b + weight (e # es) + Fin (h v)" by (simp only: add.assoc)
    then show ?thesis using Some by blast
  qed
qed

lemma settled_optimal:
  assumes inv: "inv {} d P par arr" and "walk s es v" and v: "v \<in> settled P"
  shows "d v \<le> weight es"
proof -
  have "s < n" "d s = 0" using inv by (auto simp: inv_def)
  then consider "d v \<le> weight es" | y where "y \<in> dom P" "d y + Fin (h y) \<le> weight es + Fin (h v)"
    using walk_bound[OF inv assms(2), of 0] by auto
  then show ?thesis
  proof cases
    case (2 y)
    then have "d v + Fin (h v) \<le> d y + Fin (h y)" using invD(7)[OF inv v, of y] by auto
    then have "d v + Fin (h v) \<le> weight es + Fin (h v)" using 2(2) by (rule order_trans)
    then show ?thesis by simp
  qed
qed

lemma popped_optimal:
  assumes inv: "inv {} d P par arr" and u: "P u = Some p" "\<forall>w q. P w = Some q \<longrightarrow> p \<le> q" and "walk s es v" and v: "v = u \<or> d u = PosInf \<or> v \<in> settled P"
  shows "d v \<le> weight es"
proof (cases "v \<in> settled P")
  case False
  have s: "s < n" "d s = 0" using inv by (auto simp: inv_def)
  have "\<exists>y \<in> dom P. d y + Fin (h y) \<le> weight es + Fin (h v)" using walk_bound[OF inv assms(4), of 0] s False by auto
  then obtain y where "y \<in> dom P" "d y + Fin (h y) \<le> weight es + Fin (h v)" by blast
  moreover from this(1) have "d u + Fin (h u) \<le> d y + Fin (h y)" by (rule pop_minimal[OF inv u])
  ultimately have le: "d u + Fin (h u) \<le> weight es + Fin (h v)" by (metis order_trans)
  show ?thesis
  proof (cases "v = u")
    case True
    then show ?thesis using le by simp
  next
    case False
    have w: "nonneg (weight es)" by (rule weight_nonneg[OF assms(4)])
    have "d u = PosInf" using False \<open>v \<notin> settled P\<close> v by blast
    then have "weight es = PosInf" using le w by (elim nonnegE) simp_all
    moreover have "v < n" using assms(4) s(1) ends by (cases es rule: rev_cases) (auto simp: walk_append)
    ultimately show ?thesis using invD(3)[OF inv] by simp
  qed
qed (rule settled_optimal[OF inv assms(4)])

end

end
