(* ===== verification/A_Star_Core.thy ===== *)
theory A_Star_Core
  imports Label_Setting "HOL-Library.AList"
begin

text \<open>
  The search for least cost paths (\<open>replanning/routing/a_star_core.rs\<close>), in its two uses: from one
  node to one other, with parent links and arrival times, and from one node to all others, forward
  or backward, for the landmarks of a heuristic.

  The priority queue is the crate \<open>keyed_priority_queue\<close>: its operations are the parameter \<open>Q\<close>,
  and what its documentation promises is the locale \<open>keyed_queue\<close>. The loop of the search is a
  partial function; \<open>None\<close> is a panic or not returning.
\<close>

section \<open>The priority queue\<close>

record 'q queue_ops =
  q_new :: 'q
  q_push :: "nat \<Rightarrow> xf64 \<Rightarrow> 'q \<Rightarrow> 'q"
  q_contains :: "'q \<Rightarrow> nat \<Rightarrow> bool"
  q_set_priority :: "nat \<Rightarrow> xf64 \<Rightarrow> 'q \<Rightarrow> 'q"
  q_pop :: "'q \<Rightarrow> ((nat \<times> xf64) \<times> 'q) option"

text \<open>\<open>NodePriority\<close> reverses the order of its number, so that the queue prefers small ones.\<close>

definition priority_le :: "xf64 \<Rightarrow> xf64 \<Rightarrow> bool" where
  "priority_le p q \<longleftrightarrow> q \<le> p"

locale keyed_queue =
  fixes Q :: "'q queue_ops" and entries :: "'q \<Rightarrow> nat \<rightharpoonup> xf64"
  assumes new: "entries (q_new Q) = Map.empty"
    and push: "entries q k = None \<Longrightarrow> entries (q_push Q k p q) = (entries q)(k \<mapsto> p)"
    and contains: "q_contains Q q k \<longleftrightarrow> entries q k \<noteq> None"
    and set_priority: "entries q k \<noteq> None \<Longrightarrow> entries (q_set_priority Q k p q) = (entries q)(k \<mapsto> p)"
    and pop_empty: "q_pop Q q = None \<longleftrightarrow> entries q = Map.empty"
    and pop: "q_pop Q q = Some ((k, p), q') \<Longrightarrow>
      entries q k = Some p \<and> (\<forall>j p'. entries q j = Some p' \<longrightarrow> priority_le p' p) \<and> entries q' = (entries q)(k := None)"

section \<open>Requests, actions and results\<close>

datatype heuristic_mode = WithHeuristic "node_id \<Rightarrow> node_id \<Rightarrow> xf64 option" | WithoutHeuristic

datatype a_star_core_result =
    DisutilityToAllWithoutParents "xf64 list"
  | SingleDisutilWithParents xf64 duration "nat option list"

record routing_actions =
  to_node :: nat
  parent_links :: "nat option list"
  arrival_times :: "sim_time list"

datatype a_star_actions = LandmarkCalcAStarActions | RoutingAStarActions routing_actions

definition routing_actions_new :: "nat \<Rightarrow> nat \<Rightarrow> a_star_actions" where
  "routing_actions_new t number_of_nodes = RoutingAStarActions
     \<lparr>to_node = t, parent_links = replicate number_of_nodes None, arrival_times = replicate number_of_nodes simtime_max\<rparr>"

record a_star_request =
  req_heuristic_mode :: heuristic_mode
  req_from :: nat
  req_graph :: routing_graph
  req_options :: a_star_actions
  req_costs :: travel_costs
  req_departure_time :: sim_time
  req_person :: "internal_person option"
  req_vehicle :: "internal_vehicle option"
  req_backward :: bool

text \<open>An assignment to an element of a vector, which panics out of range.\<close>

definition list_set :: "'a list \<Rightarrow> nat \<Rightarrow> 'a \<Rightarrow> 'a list option" where
  "list_set xs i x = (if i < length xs then Some (xs[i := x]) else None)"

fun reached_end :: "a_star_actions \<Rightarrow> nat \<Rightarrow> bool" where
  "reached_end LandmarkCalcAStarActions current \<longleftrightarrow> False"
| "reached_end (RoutingAStarActions r) current \<longleftrightarrow> to_node r = current"

fun set_parent_link_opt :: "nat \<Rightarrow> nat \<Rightarrow> a_star_actions \<Rightarrow> a_star_actions option" where
  "set_parent_link_opt child parent LandmarkCalcAStarActions = Some LandmarkCalcAStarActions"
| "set_parent_link_opt child parent (RoutingAStarActions r) = do {
     ps \<leftarrow> list_set (parent_links r) child (Some parent);
     Some (RoutingAStarActions (r\<lparr>parent_links := ps\<rparr>)) }"

fun get_to_node_opt :: "a_star_actions \<Rightarrow> nat option" where
  "get_to_node_opt LandmarkCalcAStarActions = None"
| "get_to_node_opt (RoutingAStarActions r) = Some (to_node r)"

fun set_arrival_time_opt :: "nat \<Rightarrow> sim_time \<Rightarrow> a_star_actions \<Rightarrow> a_star_actions option" where
  "set_arrival_time_opt n t LandmarkCalcAStarActions = Some LandmarkCalcAStarActions"
| "set_arrival_time_opt n t (RoutingAStarActions r) = do {
     ts \<leftarrow> list_set (arrival_times r) n t;
     Some (RoutingAStarActions (r\<lparr>arrival_times := ts\<rparr>)) }"

fun set_arrival_time_at_neighbour_opt :: "a_star_request \<Rightarrow> nat \<Rightarrow> nat \<Rightarrow> link \<Rightarrow> a_star_actions \<Rightarrow> a_star_actions option" where
  "set_arrival_time_at_neighbour_opt req current neighbour l LandmarkCalcAStarActions = Some LandmarkCalcAStarActions"
| "set_arrival_time_at_neighbour_opt req current neighbour l (RoutingAStarActions r) = do {
     start \<leftarrow> list_get (arrival_times r) current;
     tt \<leftarrow> travel_time (req_costs req) l start (req_person req) (req_vehicle req);
     arrival \<leftarrow> simtime_saturating_add start tt;
     set_arrival_time_opt neighbour arrival (RoutingAStarActions r) }"

fun get_disutility_of_link :: "a_star_request \<Rightarrow> link \<Rightarrow> nat \<Rightarrow> a_star_actions \<Rightarrow> xf64 option" where
  "get_disutility_of_link req l start_node LandmarkCalcAStarActions = get_link_min_travel_disutility (req_costs req) l"
| "get_disutility_of_link req l start_node (RoutingAStarActions r) = do {
     t \<leftarrow> list_get (arrival_times r) start_node;
     travel_disutility (req_costs req) l t (req_person req) (req_vehicle req) }"

fun build_result :: "xf64 option \<Rightarrow> sim_time \<Rightarrow> xf64 list \<Rightarrow> a_star_actions \<Rightarrow> a_star_core_result option" where
  "build_result current_disutility dep ds LandmarkCalcAStarActions = Some (DisutilityToAllWithoutParents ds)"
| "build_result current_disutility dep ds (RoutingAStarActions r) = do {
     arrival \<leftarrow> list_get (arrival_times r) (to_node r);
     d \<leftarrow> current_disutility;
     Some (SingleDisutilWithParents d (arrival - dep) (parent_links r)) }"

section \<open>The search\<close>

record 'q search =
  s_queue :: 'q
  s_disutilities :: "xf64 list"
  s_options :: a_star_actions

definition get_initial_queue :: "'q queue_ops \<Rightarrow> nat \<Rightarrow> nat \<Rightarrow> 'q \<times> xf64 list" where
  "get_initial_queue Q node_count start =
     (let priority = (\<lambda>n. if n = start then Fin 0 else PosInf)
      in fold (\<lambda>n (q, ds). (q_push Q n (priority n) q, ds @ [priority n])) [0..<node_count] (q_new Q, []))"

definition bind_res :: "'a graph_result option \<Rightarrow> ('a \<Rightarrow> 'b graph_result option) \<Rightarrow> 'b graph_result option" where
  "bind_res m f = do { r \<leftarrow> m; try_res r f }"

primrec fold_res :: "('a \<Rightarrow> 's \<Rightarrow> 's graph_result option) \<Rightarrow> 'a list \<Rightarrow> 's \<Rightarrow> 's graph_result option" where
  "fold_res f [] s = Some (Inr s)"
| "fold_res f (x # xs) s = bind_res (f x s) (fold_res f xs)"

definition heuristic_estimate :: "a_star_request \<Rightarrow> a_star_actions \<Rightarrow> nat \<Rightarrow> xf64 graph_result option" where
  "heuristic_estimate req opts neighbour =
     (case req_heuristic_mode req of
        WithoutHeuristic \<Rightarrow> Some (Inr (Fin 0))
      | WithHeuristic h \<Rightarrow> do {
          to_idx \<leftarrow> get_to_node_opt opts;
          try_res (get_node_id_from_idx (req_graph req) to_idx) (\<lambda>to_id.
          try_res (get_node_id_from_idx (req_graph req) neighbour) (\<lambda>n_id. do {
            x \<leftarrow> h n_id to_id;
            Some (Inr x) })) })"

definition neighbour_edges :: "a_star_request \<Rightarrow> nat \<Rightarrow> nat list option" where
  "neighbour_edges req current =
     (if req_backward req then incoming_edges_as_idx (req_graph req) current else outgoing_edges_as_idx (req_graph req) current)"

definition neighbour_of :: "a_star_request \<Rightarrow> nat \<Rightarrow> nat graph_result" where
  "neighbour_of req i =
     (if req_backward req then get_start_node_as_idx (req_graph req) i else get_end_node_as_idx (req_graph req) i)"

definition update_neighbour :: "'q queue_ops \<Rightarrow> a_star_request \<Rightarrow> nat \<Rightarrow> nat \<Rightarrow> nat \<Rightarrow> link \<Rightarrow> xf64 \<Rightarrow> 'q search \<Rightarrow> 'q search graph_result option" where
  "update_neighbour Q req current i neighbour l d s = do {
     ds \<leftarrow> list_set (s_disutilities s) neighbour d;
     opts \<leftarrow> set_arrival_time_at_neighbour_opt req current neighbour l (s_options s);
     bind_res (heuristic_estimate req opts neighbour) (\<lambda>h. do {
       opts \<leftarrow> set_parent_link_opt neighbour i opts;
       Some (Inr (s\<lparr>s_queue := q_set_priority Q neighbour (d + h) (s_queue s), s_disutilities := ds, s_options := opts\<rparr>)) }) }"

definition scan_edge :: "'q queue_ops \<Rightarrow> a_star_request \<Rightarrow> nat \<Rightarrow> xf64 \<Rightarrow> nat \<Rightarrow> 'q search \<Rightarrow> 'q search graph_result option" where
  "scan_edge Q req current current_disutility i s =
     try_res (neighbour_of req i) (\<lambda>neighbour.
       if \<not> q_contains Q (s_queue s) neighbour then Some (Inr s)
       else try_res (get_link_from_idx (req_graph req) i) (\<lambda>l. do {
         c \<leftarrow> get_disutility_of_link req l current (s_options s);
         old \<leftarrow> list_get (s_disutilities s) neighbour;
         if f64_gt old (current_disutility + c)
         then update_neighbour Q req current i neighbour l (current_disutility + c) s
         else Some (Inr s) }))"

definition result_of :: "a_star_request \<Rightarrow> xf64 option \<Rightarrow> 'q search \<Rightarrow> a_star_core_result graph_result option" where
  "result_of req d s = do {
     r \<leftarrow> build_result d (req_departure_time req) (s_disutilities s) (s_options s);
     Some (Inr r) }"

partial_function (option) search_loop :: "'q queue_ops \<Rightarrow> a_star_request \<Rightarrow> 'q search \<Rightarrow> a_star_core_result graph_result option" where
  [code]: "search_loop Q req s =
     (case q_pop Q (s_queue s) of
        None \<Rightarrow> result_of req None s
      | Some ((current, _), q) \<Rightarrow> do {
          d \<leftarrow> list_get (s_disutilities s) current;
          if d = PosInf \<or> d = NaN \<or> reached_end (s_options s) current then result_of req (Some d) s
          else do {
            es \<leftarrow> neighbour_edges req current;
            r \<leftarrow> fold_res (scan_edge Q req current d) es (s\<lparr>s_queue := q\<rparr>);
            case r of Inl e \<Rightarrow> Some (Inl e) | Inr s' \<Rightarrow> search_loop Q req s' } })"

definition a_star_core :: "'q queue_ops \<Rightarrow> a_star_request \<Rightarrow> a_star_core_result graph_result option" where
  "a_star_core Q req = do {
     let (q, ds) = get_initial_queue Q (num_nodes (req_graph req)) (req_from req);
     opts \<leftarrow> set_arrival_time_opt (req_from req) (req_departure_time req) (req_options req);
     search_loop Q req \<lparr>s_queue = q, s_disutilities = ds, s_options = opts\<rparr> }"

section \<open>The searched graph\<close>

definition e_link :: "a_star_request \<Rightarrow> nat \<Rightarrow> link" where
  "e_link req e = projr (get_link_from_idx (req_graph req) e)"

definition e_src :: "a_star_request \<Rightarrow> nat \<Rightarrow> nat" where
  "e_src req e = projr (if req_backward req then get_end_node_as_idx (req_graph req) e else get_start_node_as_idx (req_graph req) e)"

definition e_dst :: "a_star_request \<Rightarrow> nat \<Rightarrow> nat" where
  "e_dst req e = projr (neighbour_of req e)"

definition e_cost :: "a_star_request \<Rightarrow> nat \<Rightarrow> xf64" where
  "e_cost req e = (case req_options req of
     LandmarkCalcAStarActions \<Rightarrow> the (get_link_min_travel_disutility (req_costs req) (e_link req e))
   | RoutingAStarActions _ \<Rightarrow> the (travel_disutility (req_costs req) (e_link req e) (req_departure_time req) (req_person req) (req_vehicle req)))"

definition e_time :: "a_star_request \<Rightarrow> nat \<Rightarrow> sim_time \<Rightarrow> nat" where
  "e_time req e t = (case req_options req of
     LandmarkCalcAStarActions \<Rightarrow> 0
   | RoutingAStarActions _ \<Rightarrow> the (travel_time (req_costs req) (e_link req e) t (req_person req) (req_vehicle req)))"

definition estimate_of :: "a_star_request \<Rightarrow> nat \<Rightarrow> xf64" where
  "estimate_of req u = (case heuristic_estimate req (req_options req) u of Some (Inr x) \<Rightarrow> x | _ \<Rightarrow> NaN)"

definition n_h :: "a_star_request \<Rightarrow> nat \<Rightarrow> f64" where
  "n_h req u = (case estimate_of req u of Fin x \<Rightarrow> x | _ \<Rightarrow> 0)"

text \<open>
  What the search relies on: a graph whose lookups agree, disutilities that are not negative and do
  not depend on the time, travel times that cannot overflow the clock on the way, and a heuristic
  that is consistent, that is, never falls by more than the disutility of a link.
\<close>

definition costs_ok :: "nat \<Rightarrow> a_star_request \<Rightarrow> nat \<Rightarrow> bool" where
  "costs_ok B req e \<longleftrightarrow> nonneg (e_cost req e) \<and>
     (case req_options req of
        LandmarkCalcAStarActions \<Rightarrow> get_link_min_travel_disutility (req_costs req) (e_link req e) = Some (e_cost req e)
      | RoutingAStarActions _ \<Rightarrow>
          (\<forall>t. travel_disutility (req_costs req) (e_link req e) t (req_person req) (req_vehicle req) = Some (e_cost req e)) \<and>
          (\<forall>t. travel_time (req_costs req) (e_link req e) t (req_person req) (req_vehicle req) = Some (e_time req e t) \<and> e_time req e t \<le> B))"

definition options_ok :: "nat \<Rightarrow> a_star_request \<Rightarrow> bool" where
  "options_ok B req \<longleftrightarrow>
     (case req_options req of
        LandmarkCalcAStarActions \<Rightarrow> True
      | RoutingAStarActions r \<Rightarrow> to_node r < num_nodes (req_graph req) \<and>
          req_options req = routing_actions_new (to_node r) (num_nodes (req_graph req)) \<and>
          req_departure_time req + num_nodes (req_graph req) * B \<le> simtime_max)"

definition req_ok :: "nat \<Rightarrow> a_star_request \<Rightarrow> bool" where
  "req_ok B req \<longleftrightarrow> graph_ok (req_graph req) \<and> req_from req < num_nodes (req_graph req) \<and> options_ok B req \<and>
     (\<forall>e < num_edges (req_graph req). costs_ok B req e) \<and>
     (\<forall>u < num_nodes (req_graph req). \<exists>x. heuristic_estimate req (req_options req) u = Some (Inr (Fin x))) \<and>
     (\<forall>e < num_edges (req_graph req). Fin (n_h req (e_src req e)) \<le> e_cost req e + Fin (n_h req (e_dst req e)))"

definition req_edges :: "nat \<Rightarrow> a_star_request \<Rightarrow> nat set" where
  "req_edges B req = (if req_ok B req then {..<num_edges (req_graph req)} else {})"

lemma edge_ends:
  assumes "graph_ok (req_graph req)" and "e < num_edges (req_graph req)"
  shows "neighbour_of req e = Inr (e_dst req e)" and "get_link_from_idx (req_graph req) e = Inr (e_link req e)"
    and "(if req_backward req then get_end_node_as_idx (req_graph req) e else get_start_node_as_idx (req_graph req) e) = Inr (e_src req e)"
    and "e_src req e < num_nodes (req_graph req)" and "e_dst req e < num_nodes (req_graph req)"
proof -
  obtain u v l where "edge_at (req_graph req) e u v l" "u < num_nodes (req_graph req)" "v < num_nodes (req_graph req)"
    using assms unfolding graph_ok_def by blast
  then show "neighbour_of req e = Inr (e_dst req e)" "get_link_from_idx (req_graph req) e = Inr (e_link req e)"
    "(if req_backward req then get_end_node_as_idx (req_graph req) e else get_start_node_as_idx (req_graph req) e) = Inr (e_src req e)"
    "e_src req e < num_nodes (req_graph req)" "e_dst req e < num_nodes (req_graph req)"
    by (simp_all add: edge_at_def e_dst_def e_src_def e_link_def neighbour_of_def)
qed

lemma neighbour_edges_eq:
  assumes "graph_ok (req_graph req)" and "u < num_nodes (req_graph req)"
  obtains es where "neighbour_edges req u = Some es" and "set es = {e. e < num_edges (req_graph req) \<and> e_src req e = u}"
proof -
  have "\<exists>es. outgoing_edges_as_idx (req_graph req) u = Some es \<and> set es = {e. e < num_edges (req_graph req) \<and> get_start_node_as_idx (req_graph req) e = Inr u}"
    "\<exists>es. incoming_edges_as_idx (req_graph req) u = Some es \<and> set es = {e. e < num_edges (req_graph req) \<and> get_end_node_as_idx (req_graph req) e = Inr u}"
    using assms unfolding graph_ok_def by blast+
  then obtain es where es: "neighbour_edges req u = Some es"
    "set es = {e. e < num_edges (req_graph req) \<and> (if req_backward req then get_end_node_as_idx (req_graph req) e else get_start_node_as_idx (req_graph req) e) = Inr u}"
    by (cases "req_backward req") (auto simp: neighbour_edges_def)
  then have "set es = {e. e < num_edges (req_graph req) \<and> e_src req e = u}" using edge_ends(3)[OF assms(1), of _] by (auto simp del: if_split_asm) (metis sum.inject(2))
  then show thesis using es(1) that by blast
qed

interpretation ls: label_setting "num_nodes (req_graph req)" "req_edges B req" "e_src req" "e_dst req" "e_cost req" "n_h req" "req_from req" "e_time req" B "req_departure_time req"
  for B req
  by unfold_locales
    (auto simp: req_edges_def req_ok_def costs_ok_def e_time_def edge_ends split: if_splits a_star_actions.splits)

text \<open>The value \<open>x\<close> is the least disutility of a way to \<open>v\<close>, or infinity if there is none.\<close>

definition is_least :: "nat \<Rightarrow> a_star_request \<Rightarrow> nat \<Rightarrow> xf64 \<Rightarrow> bool" where
  "is_least B req v x \<longleftrightarrow> (\<forall>es. ls.walk B req (req_from req) es v \<longrightarrow> x \<le> ls.weight req es) \<and>
     (x \<noteq> PosInf \<longrightarrow> (\<exists>es. ls.walk B req (req_from req) es v \<and> x = ls.weight req es))"

text \<open>Paths of the graph, as lists of link indices, and the least disutility between two nodes.\<close>

primrec gpath :: "routing_graph \<Rightarrow> nat \<Rightarrow> nat list \<Rightarrow> nat \<Rightarrow> bool" where
  "gpath g u [] v \<longleftrightarrow> u = v"
| "gpath g u (e # es) v \<longleftrightarrow> e < num_edges g \<and> get_start_node_as_idx g e = Inr u \<and> (\<exists>w. get_end_node_as_idx g e = Inr w \<and> gpath g w es v)"

definition gweight :: "routing_graph \<Rightarrow> (link \<Rightarrow> xf64) \<Rightarrow> nat list \<Rightarrow> xf64" where
  "gweight g cost es = sum_list (map (\<lambda>e. cost (projr (get_link_from_idx g e))) es)"

definition least_disutility :: "routing_graph \<Rightarrow> (link \<Rightarrow> xf64) \<Rightarrow> nat \<Rightarrow> nat \<Rightarrow> xf64 \<Rightarrow> bool" where
  "least_disutility g cost u v x \<longleftrightarrow> (\<forall>es. gpath g u es v \<longrightarrow> x \<le> gweight g cost es) \<and>
     (x \<noteq> PosInf \<longrightarrow> (\<exists>es. gpath g u es v \<and> x = gweight g cost es))"

lemma gpath_append: "gpath g u (es @ es') v \<longleftrightarrow> (\<exists>w. gpath g u es w \<and> gpath g w es' v)"
  by (induction es arbitrary: u) auto

lemma gweight_rev: "gweight g cost (rev es) = gweight g cost es"
  by (simp add: gweight_def rev_map[symmetric])

definition req_cost :: "a_star_request \<Rightarrow> link \<Rightarrow> xf64" where
  "req_cost req l = (case req_options req of
     LandmarkCalcAStarActions \<Rightarrow> the (get_link_min_travel_disutility (req_costs req) l)
   | RoutingAStarActions _ \<Rightarrow> the (travel_disutility (req_costs req) l (req_departure_time req) (req_person req) (req_vehicle req)))"

lemma weight_gweight: "ls.weight req es = gweight (req_graph req) (req_cost req) es"
proof -
  have eq: "e_cost req = (\<lambda>e. req_cost req (projr (get_link_from_idx (req_graph req) e)))"
    by (simp add: fun_eq_iff e_cost_def req_cost_def e_link_def split: a_star_actions.splits)
  show ?thesis unfolding ls.weight_def gweight_def unfolding eq ..
qed

lemma walk_forward:
  assumes ok: "req_ok B req" and "\<not> req_backward req"
  shows "ls.walk B req u es v \<longleftrightarrow> gpath (req_graph req) u es v"
proof (induction es arbitrary: u)
  case (Cons e es)
  have g: "graph_ok (req_graph req)" and E: "e \<in> req_edges B req \<longleftrightarrow> e < num_edges (req_graph req)" using ok by (auto simp: req_ok_def req_edges_def)
  show ?case using edge_ends(1,3)[OF g, of e] assms(2) by (auto simp: Cons.IH E neighbour_of_def)
qed simp

lemma walk_backward:
  assumes ok: "req_ok B req" and "req_backward req"
  shows "ls.walk B req u es v \<longleftrightarrow> gpath (req_graph req) v (rev es) u"
proof (induction es arbitrary: u)
  case (Cons e es)
  have g: "graph_ok (req_graph req)" and E: "e \<in> req_edges B req \<longleftrightarrow> e < num_edges (req_graph req)" using ok by (auto simp: req_ok_def req_edges_def)
  show ?case using edge_ends(1,3)[OF g, of e] assms(2) by (auto simp: Cons.IH E neighbour_of_def gpath_append)
qed auto

lemma is_least_forward:
  "req_ok B req \<Longrightarrow> \<not> req_backward req \<Longrightarrow> is_least B req v x \<longleftrightarrow> least_disutility (req_graph req) (req_cost req) (req_from req) v x"
  by (simp add: is_least_def least_disutility_def walk_forward weight_gweight)

lemma is_least_backward:
  assumes "req_ok B req" and "req_backward req"
  shows "is_least B req v x \<longleftrightarrow> least_disutility (req_graph req) (req_cost req) v (req_from req) x"
proof -
  have "(\<forall>es. gpath (req_graph req) v (rev es) (req_from req) \<longrightarrow> x \<le> gweight (req_graph req) (req_cost req) es) \<longleftrightarrow>
      (\<forall>es. gpath (req_graph req) v es (req_from req) \<longrightarrow> x \<le> gweight (req_graph req) (req_cost req) es)"
    "(\<exists>es. gpath (req_graph req) v (rev es) (req_from req) \<and> x = gweight (req_graph req) (req_cost req) es) \<longleftrightarrow>
      (\<exists>es. gpath (req_graph req) v es (req_from req) \<and> x = gweight (req_graph req) (req_cost req) es)"
    by (metis gweight_rev rev_rev_ident)+
  then show ?thesis using assms by (simp add: is_least_def least_disutility_def walk_backward weight_gweight)
qed

section \<open>The search implements label setting\<close>

definition rel :: "a_star_request \<Rightarrow> xf64 list \<Rightarrow> a_star_actions \<Rightarrow> (nat \<Rightarrow> xf64) \<Rightarrow> (nat \<rightharpoonup> nat) \<Rightarrow> (nat \<Rightarrow> sim_time) \<Rightarrow> bool" where
  "rel req ds opts d par arr \<longleftrightarrow> (let n = num_nodes (req_graph req) in
     length ds = n \<and> (\<forall>v < n. ds ! v = d v) \<and>
     (case req_options req of
        LandmarkCalcAStarActions \<Rightarrow> opts = LandmarkCalcAStarActions
      | RoutingAStarActions r0 \<Rightarrow> (\<exists>r. opts = RoutingAStarActions r \<and> to_node r = to_node r0 \<and>
          length (parent_links r) = n \<and> (\<forall>v < n. parent_links r ! v = par v) \<and>
          length (arrival_times r) = n \<and> (\<forall>v < n. d v \<noteq> PosInf \<longrightarrow> arrival_times r ! v = arr v))))"

lemma rel_label: "rel req ds opts d par arr \<Longrightarrow> v < num_nodes (req_graph req) \<Longrightarrow> list_get ds v = Some (d v)"
  by (simp add: rel_def Let_def)

lemma rel_cost:
  assumes "rel req ds opts d par arr" and "costs_ok B req e" and "u < num_nodes (req_graph req)"
  shows "get_disutility_of_link req (e_link req e) u opts = Some (e_cost req e)"
  using assms by (auto simp: rel_def costs_ok_def Let_def list_get_less split: a_star_actions.splits)

lemma rel_estimate:
  assumes "rel req ds opts d par arr" and "heuristic_estimate req (req_options req) u = Some (Inr (Fin x))"
  shows "heuristic_estimate req opts u = Some (Inr (Fin (n_h req u)))"
proof -
  have "get_to_node_opt opts = get_to_node_opt (req_options req)" using assms(1) by (auto simp: rel_def Let_def split: a_star_actions.splits)
  then have "heuristic_estimate req opts u = heuristic_estimate req (req_options req) u" by (simp add: heuristic_estimate_def split: heuristic_mode.splits)
  then show ?thesis using assms(2) by (simp add: n_h_def estimate_of_def)
qed

text \<open>The actions on a better way to a node.\<close>

lemma rel_update:
  assumes rel: "rel req ds opts d par arr" and ok: "costs_ok B req e" and n: "u < num_nodes (req_graph req)" "w < num_nodes (req_graph req)"
    and fin: "d u \<noteq> PosInf" and time: "req_options req = LandmarkCalcAStarActions \<or> arr u + B \<le> simtime_max"
  obtains opts1 opts2 where "set_arrival_time_at_neighbour_opt req u w (e_link req e) opts = Some opts1" and "set_parent_link_opt w e opts1 = Some opts2"
    and "rel req (ds[w := x]) opts2 (d(w := x)) (par(w \<mapsto> e)) (arr(w := arr u + e_time req e (arr u)))"
    and "get_to_node_opt opts1 = get_to_node_opt opts"
proof (cases "req_options req")
  case LandmarkCalcAStarActions
  then show thesis using rel that[of LandmarkCalcAStarActions LandmarkCalcAStarActions] by (auto simp: rel_def Let_def nth_list_update)
next
  case (RoutingAStarActions r0)
  then obtain r where r: "opts = RoutingAStarActions r" "to_node r = to_node r0" "length (parent_links r) = num_nodes (req_graph req)"
    "\<forall>v < num_nodes (req_graph req). parent_links r ! v = par v" "length (arrival_times r) = num_nodes (req_graph req)"
    "\<forall>v < num_nodes (req_graph req). d v \<noteq> PosInf \<longrightarrow> arrival_times r ! v = arr v"
    using rel by (auto simp: rel_def Let_def)
  have start: "list_get (arrival_times r) u = Some (arr u)" using r n(1) fin by simp
  have tt: "travel_time (req_costs req) (e_link req e) (arr u) (req_person req) (req_vehicle req) = Some (e_time req e (arr u))"
    and B: "e_time req e (arr u) \<le> B" using ok RoutingAStarActions by (auto simp: costs_ok_def)
  have add: "simtime_saturating_add (arr u) (e_time req e (arr u)) = Some (arr u + e_time req e (arr u))"
    using B time RoutingAStarActions by (simp add: simtime_saturating_add_fits)
  let ?r1 = "r\<lparr>arrival_times := (arrival_times r)[w := arr u + e_time req e (arr u)]\<rparr>"
  let ?r2 = "?r1\<lparr>parent_links := (parent_links r)[w := Some e]\<rparr>"
  show thesis
  proof (rule that[of "RoutingAStarActions ?r1" "RoutingAStarActions ?r2"])
    show "set_arrival_time_at_neighbour_opt req u w (e_link req e) opts = Some (RoutingAStarActions ?r1)"
      using tt add r(5) n(2) by (simp add: r(1) start list_set_def)
    show "set_parent_link_opt w e (RoutingAStarActions ?r1) = Some (RoutingAStarActions ?r2)" using r(3) n(2) by (simp add: list_set_def)
    show "rel req (ds[w := x]) (RoutingAStarActions ?r2) (d(w := x)) (par(w \<mapsto> e)) (arr(w := arr u + e_time req e (arr u)))"
      using rel r RoutingAStarActions by (auto simp: rel_def Let_def nth_list_update)
    show "get_to_node_opt (RoutingAStarActions ?r1) = get_to_node_opt opts" using r(1) by simp
  qed
qed

lemma reqD:
  assumes "req_ok B req"
  shows "graph_ok (req_graph req)" and "req_from req < num_nodes (req_graph req)" and "options_ok B req"
    and "e < num_edges (req_graph req) \<Longrightarrow> costs_ok B req e"
    and "u < num_nodes (req_graph req) \<Longrightarrow> \<exists>x. heuristic_estimate req (req_options req) u = Some (Inr (Fin x))"
    and "e \<in> req_edges B req \<longleftrightarrow> e < num_edges (req_graph req)"
  using assms unfolding req_ok_def req_edges_def by auto

lemma res_simps [simp]:
  "bind_res (Some (Inr x)) f = f x" "try_res (Inr x) f = f x"
  by (simp_all add: bind_res_def try_res_def)

context keyed_queue
begin

text \<open>One edge.\<close>

lemma scan_edge_step:
  assumes ok: "req_ok B req" and rel: "rel req (s_disutilities s) (s_options s) d par arr"
    and sc: "ls.scanning req B u F d (entries (s_queue s)) par arr" and e: "e < num_edges (req_graph req)" "e_src req e = u"
  shows "\<exists>s' d' par' arr'. scan_edge Q req u (d u) e s = Some (Inr s') \<and> rel req (s_disutilities s') (s_options s') d' par' arr' \<and>
    ls.scanning req B u (F - {e}) d' (entries (s_queue s')) par' arr' \<and> d' u = d u \<and> arr' u = arr u \<and>
    dom (entries (s_queue s')) = dom (entries (s_queue s))"
proof -
  let ?n = "num_nodes (req_graph req)" and ?w = "e_dst req e" and ?P = "entries (s_queue s)"
  note g = reqD(1)[OF ok]
  note ends = edge_ends[OF g e(1)]
  have E: "e \<in> req_edges B req" using reqD(6)[OF ok] e(1) by simp
  have inv: "ls.inv req B F d ?P par arr" and uS: "u \<in> ls.settled req ?P" and fin: "d u \<noteq> PosInf" using sc by (auto simp: ls.scanning_def)
  have un: "u < ?n" using uS by (simp add: ls.settled_def)
  have nn: "nonneg (d ?w)" "nonneg (d u + e_cost req e)"
    using ls.invD(3)[OF inv] ends un ls.cost[OF E] by auto
  note cost = rel_cost[OF rel reqD(4)[OF ok e(1)] un]
  note old = rel_label[OF rel ends(5)]
  show ?thesis
  proof (cases "?P ?w = None \<or> d ?w \<le> d u + e_cost req e")
    case True
    have "scan_edge Q req u (d u) e s = Some (Inr s)"
      using True f64_gt_nonneg[OF nn] by (auto simp: scan_edge_def ends(1,2) contains cost old)
    then show ?thesis using rel ls.scan_skip[OF sc E e(2) True] by auto
  next
    case False
    have w: "?P ?w \<noteq> None" "\<not> d ?w \<le> d u + e_cost req e" using False by auto
    note up = ls.scan_update[OF sc E e(2) refl w]
    have uw: "u \<noteq> ?w" using uS w(1) by (auto simp: ls.settled_def)
    have "req_options req = LandmarkCalcAStarActions \<or> arr u + B \<le> simtime_max"
    proof -
      have "arr u + B \<le> req_departure_time req + card (ls.settled req ?P) * B" using sc by (simp add: ls.scanning_def)
      also have "\<dots> \<le> req_departure_time req + ?n * B" using ls.card_settled_le by simp
      finally show ?thesis using reqD(3)[OF ok] by (auto simp: options_ok_def split: a_star_actions.splits)
    qed
    from rel_update[OF rel reqD(4)[OF ok e(1)] un ends(5) fin this, of "d u + e_cost req e"]
    obtain opts1 opts2 where o: "set_arrival_time_at_neighbour_opt req u ?w (e_link req e) (s_options s) = Some opts1" "set_parent_link_opt ?w e opts1 = Some opts2"
      "rel req ((s_disutilities s)[?w := d u + e_cost req e]) opts2 (d(?w := d u + e_cost req e)) (par(?w \<mapsto> e)) (arr(?w := arr u + e_time req e (arr u)))"
      "get_to_node_opt opts1 = get_to_node_opt (s_options s)" by blast
    obtain x where "heuristic_estimate req (req_options req) ?w = Some (Inr (Fin x))" using reqD(5)[OF ok ends(5)] by blast
    then have "heuristic_estimate req (s_options s) ?w = Some (Inr (Fin (n_h req ?w)))" by (rule rel_estimate[OF rel])
    then have h: "heuristic_estimate req opts1 ?w = Some (Inr (Fin (n_h req ?w)))" using o(4) by (simp add: heuristic_estimate_def split: heuristic_mode.splits)
    let ?s = "s\<lparr>s_queue := q_set_priority Q ?w (d u + e_cost req e + Fin (n_h req ?w)) (s_queue s),
      s_disutilities := (s_disutilities s)[?w := d u + e_cost req e], s_options := opts2\<rparr>"
    have len: "?w < length (s_disutilities s)" using rel ends(5) by (simp add: rel_def Let_def)
    have gt: "f64_gt (d ?w) (d u + e_cost req e)" using w(2) f64_gt_nonneg[OF nn] by simp
    have "scan_edge Q req u (d u) e s = Some (Inr ?s)"
      using w(1) gt len o(1,2) h by (auto simp: scan_edge_def ends(1,2) contains cost old update_neighbour_def list_set_def)
    moreover have "entries (s_queue ?s) = ?P(?w \<mapsto> d u + e_cost req e + Fin (n_h req ?w))" using set_priority[OF w(1)] by simp
    ultimately show ?thesis using up(1) o(3) uw w(1)
      by (intro exI[of _ ?s] exI[of _ "d(?w := d u + e_cost req e)"] exI[of _ "par(?w \<mapsto> e)"] exI[of _ "arr(?w := arr u + e_time req e (arr u))"]) auto
  qed
qed

text \<open>All edges of a node.\<close>

lemma scan_edges:
  assumes ok: "req_ok B req" and "\<forall>e \<in> set es. e < num_edges (req_graph req) \<and> e_src req e = u"
    and "rel req (s_disutilities s) (s_options s) d par arr" and "ls.scanning req B u F d (entries (s_queue s)) par arr"
  shows "\<exists>s' d' par' arr'. fold_res (scan_edge Q req u (d u)) es s = Some (Inr s') \<and> rel req (s_disutilities s') (s_options s') d' par' arr' \<and>
    ls.scanning req B u (F - set es) d' (entries (s_queue s')) par' arr' \<and> dom (entries (s_queue s')) = dom (entries (s_queue s))"
  using assms(2-4)
proof (induction es arbitrary: s d par arr F)
  case Nil
  then show ?case by auto
next
  case (Cons e es)
  obtain s1 d1 par1 arr1 where s1: "scan_edge Q req u (d u) e s = Some (Inr s1)" "rel req (s_disutilities s1) (s_options s1) d1 par1 arr1"
    "ls.scanning req B u (F - {e}) d1 (entries (s_queue s1)) par1 arr1" "d1 u = d u" "dom (entries (s_queue s1)) = dom (entries (s_queue s))"
    using scan_edge_step[OF ok Cons.prems(2,3), of e] Cons.prems(1) by auto
  have F: "F - {e} - set es = F - set (e # es)" by auto
  obtain s2 d2 par2 arr2 where "fold_res (scan_edge Q req u (d1 u)) es s1 = Some (Inr s2)" "rel req (s_disutilities s2) (s_options s2) d2 par2 arr2"
    "ls.scanning req B u (F - set (e # es)) d2 (entries (s_queue s2)) par2 arr2" "dom (entries (s_queue s2)) = dom (entries (s_queue s1))"
    using Cons.IH[OF _ s1(2,3)] Cons.prems(1) unfolding F by auto
  then show ?case using s1(1,4,5) by (intro exI[of _ s2] exI[of _ d2] exI[of _ par2] exI[of _ arr2]) simp
qed

text \<open>The loop. In a search for one node, this node is in the queue until it is reached.\<close>

definition pending :: "a_star_request \<Rightarrow> (nat \<rightharpoonup> xf64) \<Rightarrow> bool" where
  "pending req P \<longleftrightarrow> (\<forall>t. get_to_node_opt (req_options req) = Some t \<longrightarrow> P t \<noteq> None)"

fun result_ok :: "nat \<Rightarrow> a_star_request \<Rightarrow> a_star_core_result \<Rightarrow> bool" where
  "result_ok B req (DisutilityToAllWithoutParents ds) \<longleftrightarrow> req_options req = LandmarkCalcAStarActions \<and>
     length ds = num_nodes (req_graph req) \<and> (\<forall>v < num_nodes (req_graph req). is_least B req v (ds ! v))"
| "result_ok B req (SingleDisutilWithParents x time ps) \<longleftrightarrow>
     (\<exists>t. get_to_node_opt (req_options req) = Some t \<and> is_least B req t x \<and> length ps = num_nodes (req_graph req) \<and>
       (x \<noteq> PosInf \<longrightarrow> (\<exists>P par es. ls.chain req B P par t es \<and> (\<forall>v < num_nodes (req_graph req). ps ! v = par v) \<and>
          x = ls.weight req es \<and> time = ls.arrival req (req_departure_time req) (rev es) - req_departure_time req)))"

lemma label_is_least:
  assumes inv: "ls.inv req B {} d P par arr" and "v < num_nodes (req_graph req)"
    and least: "\<And>es. ls.walk B req (req_from req) es v \<Longrightarrow> d v \<le> ls.weight req es"
  shows "is_least B req v (d v)"
proof -
  have "\<exists>es. ls.walk B req (req_from req) es v \<and> d v = ls.weight req es" if "d v \<noteq> PosInf"
    using ls.invD(9)[OF inv assms(2) that] ls.chain_walk unfolding ls.labelled_def by (metis ls.weight_simps(4))
  then show ?thesis using least by (auto simp: is_least_def)
qed

lemma rel_result:
  assumes ok: "req_ok B req" and rel: "rel req (s_disutilities s) (s_options s) d par arr" and inv: "ls.inv req B {} d P par arr"
    and least: "\<And>v es. v < num_nodes (req_graph req) \<Longrightarrow> get_to_node_opt (req_options req) = None \<or> get_to_node_opt (req_options req) = Some v \<Longrightarrow>
        ls.walk B req (req_from req) es v \<Longrightarrow> d v \<le> ls.weight req es"
    and x: "\<And>t. get_to_node_opt (req_options req) = Some t \<Longrightarrow> x = Some (d t)"
  shows "\<exists>r. result_of req x s = Some (Inr r) \<and> result_ok B req r"
proof (cases "req_options req")
  case LandmarkCalcAStarActions
  then have "s_options s = LandmarkCalcAStarActions" using rel by (simp add: rel_def Let_def)
  moreover have "is_least B req v (s_disutilities s ! v)" if "v < num_nodes (req_graph req)" for v
    using label_is_least[OF inv that] least[OF that] rel that LandmarkCalcAStarActions by (simp add: rel_def Let_def)
  ultimately show ?thesis using rel LandmarkCalcAStarActions by (simp add: result_of_def rel_def Let_def)
next
  case (RoutingAStarActions r0)
  let ?t = "to_node r0" and ?n = "num_nodes (req_graph req)"
  have t: "?t < ?n" using reqD(3)[OF ok] RoutingAStarActions by (simp add: options_ok_def)
  have to: "get_to_node_opt (req_options req) = Some ?t" using RoutingAStarActions by simp
  obtain r where r: "s_options s = RoutingAStarActions r" "to_node r = ?t" "length (parent_links r) = ?n"
    "\<forall>v < ?n. parent_links r ! v = par v" "length (arrival_times r) = ?n" "\<forall>v < ?n. d v \<noteq> PosInf \<longrightarrow> arrival_times r ! v = arr v"
    using rel RoutingAStarActions by (auto simp: rel_def Let_def)
  have lst: "is_least B req ?t (d ?t)" using label_is_least[OF inv t] least[OF t] to by blast
  have arr: "list_get (arrival_times r) (to_node r) = Some (arrival_times r ! ?t)" using r(2,5) t by simp
  have "result_of req x s = Some (Inr (SingleDisutilWithParents (d ?t) (arrival_times r ! ?t - req_departure_time req) (parent_links r)))"
    unfolding result_of_def r(1) build_result.simps x[OF to] arr by simp
  moreover have "\<exists>P par es. ls.chain req B P par ?t es \<and> (\<forall>v < ?n. parent_links r ! v = par v) \<and> d ?t = ls.weight req es \<and>
      arrival_times r ! ?t - req_departure_time req = ls.arrival req (req_departure_time req) (rev es) - req_departure_time req" if fin: "d ?t \<noteq> PosInf"
  proof -
    obtain es where "ls.chain req B P par ?t es" "d ?t = ls.weight req es" "arr ?t = ls.arrival req (req_departure_time req) (rev es)"
      using ls.invD(9)[OF inv t fin] unfolding ls.labelled_def by blast
    then show ?thesis using r(4,6) t fin by (intro exI[of _ P] exI[of _ par] exI[of _ es]) auto
  qed
  ultimately show ?thesis using to lst r(3) by auto
qed

lemma loop_correct:
  assumes ok: "req_ok B req" and "rel req (s_disutilities s) (s_options s) d par arr" and "ls.inv req B {} d (entries (s_queue s)) par arr"
    and "pending req (entries (s_queue s))"
  shows "\<exists>r. search_loop Q req s = Some (Inr r) \<and> result_ok B req r"
  using assms(2-4)
proof (induction "card (dom (entries (s_queue s)))" arbitrary: s d par arr rule: less_induct)
  case less
  let ?P = "entries (s_queue s)" and ?n = "num_nodes (req_graph req)"
  note rel = less.prems(1) and inv = less.prems(2) and pend = less.prems(3)
  show ?case
  proof (cases "q_pop Q (s_queue s)")
    case None
    then have P: "?P = Map.empty" by (simp add: pop_empty)
    have "\<exists>r. result_of req None s = Some (Inr r) \<and> result_ok B req r"
      using pend P by (intro rel_result[OF ok rel inv] ls.settled_optimal[OF inv]) (auto simp: pending_def ls.settled_def)
    then show ?thesis by (simp add: search_loop.simps[of Q req s] None)
  next
    case (Some a)
    obtain u p q where a: "a = ((u, p), q)" by (metis surj_pair)
    have u: "?P u = Some p" "\<forall>w q. ?P w = Some q \<longrightarrow> p \<le> q" and q: "entries q = ?P(u := None)"
      using pop[of "s_queue s" u p q] Some a by (auto simp: priority_le_def)
    have un: "u < ?n" using ls.invD(2)[OF inv] u(1) by auto
    note lab = rel_label[OF rel un]
    have nn: "nonneg (d u)" by (rule ls.invD(3)[OF inv un])
    have opts: "get_to_node_opt (s_options s) = get_to_node_opt (req_options req)" using rel by (auto simp: rel_def Let_def split: a_star_actions.splits)
    have reach: "reached_end (s_options s) u \<longleftrightarrow> get_to_node_opt (req_options req) = Some u"
      by (cases "s_options s") (auto simp: opts[symmetric])
    show ?thesis
    proof (cases "d u = PosInf \<or> get_to_node_opt (req_options req) = Some u")
      case True
      have inf: "d t = d u" if t: "get_to_node_opt (req_options req) = Some t" for t
      proof (cases "t = u")
        case False
        have "t \<in> dom ?P" using pend t by (auto simp: pending_def)
        then have "d u + Fin (n_h req u) \<le> d t + Fin (n_h req t)" "t < ?n" using ls.pop_minimal[OF inv u] ls.invD(2)[OF inv] by auto
        then show ?thesis using True False t ls.invD(3)[OF inv, of t] by (auto elim!: nonnegE)
      qed simp
      have "\<exists>r. result_of req (Some (d u)) s = Some (Inr r) \<and> result_ok B req r"
      proof (rule rel_result[OF ok rel inv])
        show "d v \<le> ls.weight req es" if v: "v < ?n" "get_to_node_opt (req_options req) = None \<or> get_to_node_opt (req_options req) = Some v"
          and w: "ls.walk B req (req_from req) es v" for v es
          using True v(2) by (intro ls.popped_optimal[OF inv u w]) auto
        show "Some (d u) = Some (d t)" if "get_to_node_opt (req_options req) = Some t" for t using inf[OF that] by simp
      qed
      moreover have "search_loop Q req s = result_of req (Some (d u)) s"
        unfolding search_loop.simps[of Q req s] Some a option.case prod.case lab using True reach by auto
      ultimately show ?thesis by simp
    next
      case False
      then have fin: "d u \<noteq> PosInf" "d u \<noteq> NaN" "\<not> reached_end (s_options s) u" using nn reach by auto
      obtain es where es: "neighbour_edges req u = Some es" "set es = {e. e < num_edges (req_graph req) \<and> e_src req e = u}"
        by (rule neighbour_edges_eq[OF reqD(1)[OF ok] un])
      have F: "{e \<in> req_edges B req. e_src req e = u} = set es" using es(2) reqD(6)[OF ok] by auto
      have "ls.scanning req B u (set es) d (?P(u := None)) par arr" using ls.pop_step[OF inv u fin(1)] unfolding F .
      then have sc: "ls.scanning req B u (set es) d (entries (s_queue (s\<lparr>s_queue := q\<rparr>))) par arr" by (simp add: q)
      obtain s' d' par' arr' where s': "fold_res (scan_edge Q req u (d u)) es (s\<lparr>s_queue := q\<rparr>) = Some (Inr s')"
        "rel req (s_disutilities s') (s_options s') d' par' arr'" "ls.scanning req B u (set es - set es) d' (entries (s_queue s')) par' arr'"
        "dom (entries (s_queue s')) = dom (?P(u := None))"
        using scan_edges[OF ok _ _ sc, of es] es(2) rel q by auto
      have inv': "ls.inv req B {} d' (entries (s_queue s')) par' arr'" using s'(3) by (simp add: ls.scanning_def)
      have "finite (dom ?P)" using ls.invD(2)[OF inv] finite_subset by blast
      then have "card (dom (entries (s_queue s'))) < card (dom ?P)" unfolding s'(4) using u(1) by (auto intro!: psubset_card_mono)
      moreover have "pending req (entries (s_queue s'))" using pend s'(4) False by (auto simp: pending_def dom_def)
      ultimately have "\<exists>r. search_loop Q req s' = Some (Inr r) \<and> result_ok B req r" using less.hyps[OF _ s'(2) inv'] by blast
      moreover have "search_loop Q req s = search_loop Q req s'"
        unfolding search_loop.simps[of Q req s] Some a option.case prod.case lab using fin es(1) s'(1) by simp
      ultimately show ?thesis by simp
    qed
  qed
qed

lemma initial_queue:
  "entries (fst (get_initial_queue Q n src)) = (\<lambda>v. if v < n then Some (if v = src then Fin 0 else PosInf) else None)"
  "snd (get_initial_queue Q n src) = map (\<lambda>v. if v = src then Fin 0 else PosInf) [0..<n]"
proof (induction n)
  case 0
  show "entries (fst (get_initial_queue Q 0 src)) = (\<lambda>v. if v < 0 then Some (if v = src then Fin 0 else PosInf) else None)"
    "snd (get_initial_queue Q 0 src) = map (\<lambda>v. if v = src then Fin 0 else PosInf) [0..<0]"
    by (simp_all add: get_initial_queue_def new fun_eq_iff)
next
  case (Suc n)
  have step: "get_initial_queue Q (Suc n) src = (q_push Q n (if n = src then Fin 0 else PosInf) (fst (get_initial_queue Q n src)),
      snd (get_initial_queue Q n src) @ [if n = src then Fin 0 else PosInf])"
    by (simp add: get_initial_queue_def Let_def case_prod_beta)
  have "entries (fst (get_initial_queue Q n src)) n = None" by (simp add: Suc)
  then show "entries (fst (get_initial_queue Q (Suc n) src)) = (\<lambda>v. if v < Suc n then Some (if v = src then Fin 0 else PosInf) else None)"
    by (auto simp: step push Suc(1) fun_eq_iff less_Suc_eq)
  show "snd (get_initial_queue Q (Suc n) src) = map (\<lambda>v. if v = src then Fin 0 else PosInf) [0..<Suc n]" by (simp add: step Suc)
qed

lemma a_star_core_correct:
  assumes ok: "req_ok B req"
  shows "\<exists>r. a_star_core Q req = Some (Inr r) \<and> result_ok B req r"
proof -
  let ?n = "num_nodes (req_graph req)" and ?s = "req_from req"
  let ?d = "\<lambda>v. if v = ?s then 0 else PosInf" and ?arr = "\<lambda>v. if v = ?s then req_departure_time req else simtime_max"
  obtain q ds where q: "get_initial_queue Q ?n ?s = (q, ds)" by fastforce
  have P: "entries q = (\<lambda>v. if v < ?n then Some (?d v) else None)" and ds: "ds = map ?d [0..<?n]"
    using initial_queue[of ?n ?s] by (auto simp: q zero_xf64_def)
  have sn: "?s < ?n" by (rule reqD(2)[OF ok])
  have "\<exists>opts. set_arrival_time_opt ?s (req_departure_time req) (req_options req) = Some opts \<and> rel req ds opts ?d Map.empty ?arr"
  proof (cases "req_options req")
    case LandmarkCalcAStarActions
    then show ?thesis by (simp add: rel_def Let_def ds)
  next
    case (RoutingAStarActions r)
    then have "RoutingAStarActions r = routing_actions_new (to_node r) ?n" using reqD(3)[OF ok] by (simp add: options_ok_def)
    then have "parent_links r = replicate ?n None" "arrival_times r = replicate ?n simtime_max"
      unfolding routing_actions_new_def by (metis a_star_actions.inject routing_actions.select_convs(2,3))+
    then show ?thesis using sn RoutingAStarActions by (simp add: list_set_def rel_def Let_def ds nth_list_update)
  qed
  then obtain opts where opts: "set_arrival_time_opt ?s (req_departure_time req) (req_options req) = Some opts" "rel req ds opts ?d Map.empty ?arr" by blast
  let ?st = "\<lparr>s_queue = q, s_disutilities = ds, s_options = opts\<rparr>"
  have "pending req (entries q)" using reqD(3)[OF ok] by (auto simp: pending_def options_ok_def P split: a_star_actions.splits)
  then have "\<exists>r. search_loop Q req ?st = Some (Inr r) \<and> result_ok B req r"
    using loop_correct[OF ok, of ?st ?d Map.empty ?arr] opts(2) ls.inv_start[OF sn] by (simp add: P)
  then show ?thesis using q opts(1) by (simp add: a_star_core_def)
qed

end

section \<open>A queue\<close>

text \<open>An association list is a keyed priority queue.\<close>

primrec best_entry :: "nat \<times> xf64 \<Rightarrow> (nat \<times> xf64) list \<Rightarrow> nat \<times> xf64" where
  "best_entry x [] = x"
| "best_entry x (y # ys) = best_entry (if snd y < snd x then y else x) ys"

definition list_queue :: "(nat \<times> xf64) list queue_ops" where
  "list_queue = \<lparr>q_new = [], q_push = (\<lambda>k p q. (k, p) # q), q_contains = (\<lambda>q k. map_of q k \<noteq> None),
     q_set_priority = (\<lambda>k p q. AList.update k p q),
     q_pop = (\<lambda>q. case AList.clearjunk q of
        [] \<Rightarrow> None
      | x # xs \<Rightarrow> let b = best_entry x xs in Some (b, AList.delete (fst b) (x # xs)))\<rparr>"

lemma best_entry: "best_entry x ys \<in> insert x (set ys) \<and> snd (best_entry x ys) \<le> snd x \<and> (\<forall>y \<in> set ys. snd (best_entry x ys) \<le> snd y)"
proof (induction ys arbitrary: x)
  case (Cons y ys)
  show ?case using Cons.IH[of "if snd y < snd x then y else x"] by (auto split: if_splits)
qed simp

interpretation list_queue: keyed_queue list_queue map_of
proof
  fix q k p q'
  assume pop: "q_pop list_queue q = Some ((k, p), q')"
  then obtain x xs where xs: "AList.clearjunk q = x # xs" by (auto simp: list_queue_def split: list.splits)
  then have b: "best_entry x xs = (k, p)" and q': "q' = AList.delete k (x # xs)" using pop by (auto simp: list_queue_def Let_def)
  have m: "map_of q = map_of (x # xs)" by (metis map_of_clearjunk xs)
  have d: "distinct (map fst (x # xs))" by (metis distinct_clearjunk xs)
  have "(k, p) \<in> set (x # xs)" using best_entry[of x xs] b by auto
  moreover have "p \<le> p'" if "map_of q j = Some p'" for j p'
    using map_of_SomeD[OF that[unfolded m]] best_entry[of x xs] b by auto
  moreover have "map_of q' = (map_of q)(k := None)" unfolding q' m by (rule delete_conv')
  ultimately show "map_of q k = Some p \<and> (\<forall>j p'. map_of q j = Some p' \<longrightarrow> priority_le p' p) \<and> map_of q' = (map_of q)(k := None)"
    using d unfolding m by (auto simp: priority_le_def simp del: map_of.simps distinct.simps list.map)
next
  show "q_pop list_queue q = None \<longleftrightarrow> map_of q = Map.empty" for q
    by (cases "AList.clearjunk q") (auto simp: list_queue_def Let_def dest: arg_cong[of _ _ map_of] simp flip: map_of_clearjunk[of q])
qed (simp_all add: list_queue_def update_conv')

end
