(* ===== verification/Alt_Landmarks.thy ===== *)
theory Alt_Landmarks
  imports A_Star_Core
begin

text \<open>
  The heuristics of the search: the zero heuristic, and the estimate from the distances of
  landmarks, with the calculation of these distances (\<open>replanning/routing/alt_landmark_data.rs\<close> and
  the heuristics of \<open>replanning/routing/a_star.rs\<close>). The random choice of the landmarks is a
  parameter \<open>pick\<close>, from the number of nodes and of landmarks to a list of node indices.
\<close>

section \<open>Landmark data\<close>

record alt_landmark_data =
  landmarks :: "nat list"
  travel_disutilities_to_all :: "(xf64 \<times> xf64) list list"
  node_id_to_idx :: "node_id \<rightharpoonup> nat"

definition DEFAULT_NUMBER_OF_LANDMARKS :: nat where
  "DEFAULT_NUMBER_OF_LANDMARKS = 16"

definition choose_landmarks :: "(nat \<Rightarrow> nat \<Rightarrow> nat list) \<Rightarrow> routing_graph \<Rightarrow> nat list" where
  "choose_landmarks pick g =
     (let number_of_landmarks =
        (if num_nodes g < DEFAULT_NUMBER_OF_LANDMARKS ^ 2 then nat \<lceil>of_nat (num_nodes g) / (16 :: f64)\<rceil> else DEFAULT_NUMBER_OF_LANDMARKS)
      in pick (num_nodes g) number_of_landmarks)"

definition landmark_request :: "routing_graph \<Rightarrow> travel_costs \<Rightarrow> nat \<Rightarrow> bool \<Rightarrow> a_star_request" where
  "landmark_request g costs start backward = \<lparr>req_heuristic_mode = WithoutHeuristic, req_from = start, req_graph = g,
     req_options = LandmarkCalcAStarActions, req_costs = costs, req_departure_time = 0, req_person = None, req_vehicle = None,
     req_backward = backward\<rparr>"

definition disutilities_one_2_many :: "'q queue_ops \<Rightarrow> routing_graph \<Rightarrow> travel_costs \<Rightarrow> nat \<Rightarrow> bool \<Rightarrow> xf64 list graph_result option" where
  "disutilities_one_2_many Q g costs start backward =
     bind_res (a_star_core Q (landmark_request g costs start backward)) (\<lambda>r.
       case r of DisutilityToAllWithoutParents ds \<Rightarrow> Some (Inr ds) | SingleDisutilWithParents _ _ _ \<Rightarrow> None)"

primrec collect_res :: "('a \<Rightarrow> 'b graph_result option) \<Rightarrow> 'a list \<Rightarrow> 'b list graph_result option" where
  "collect_res f [] = Some (Inr [])"
| "collect_res f (x # xs) = bind_res (f x) (\<lambda>y. bind_res (collect_res f xs) (\<lambda>ys. Some (Inr (y # ys))))"

definition calc_all_disutilities :: "'q queue_ops \<Rightarrow> routing_graph \<Rightarrow> travel_costs \<Rightarrow> nat list \<Rightarrow> (xf64 \<times> xf64) list list graph_result option" where
  "calc_all_disutilities Q g costs ls = collect_res (\<lambda>landmark_node.
     bind_res (disutilities_one_2_many Q g costs landmark_node False) (\<lambda>forward_disutilities.
     bind_res (disutilities_one_2_many Q g costs landmark_node True) (\<lambda>backward_disutilities.
     Some (Inr (zip forward_disutilities backward_disutilities))))) ls"

definition landmark_data_from_graph :: "'q queue_ops \<Rightarrow> (nat \<Rightarrow> nat \<Rightarrow> nat list) \<Rightarrow> routing_graph \<Rightarrow> travel_costs \<Rightarrow> alt_landmark_data graph_result option" where
  "landmark_data_from_graph Q pick g costs =
     (let ls = choose_landmarks pick g
      in bind_res (calc_all_disutilities Q g costs ls) (\<lambda>ds.
        Some (Inr \<lparr>landmarks = ls, travel_disutilities_to_all = ds, node_id_to_idx = node_index_by_id g\<rparr>)))"

section \<open>Heuristics\<close>

text \<open>One of the two bounds of a landmark, which only counts if both disutilities are finite.\<close>

fun max_diff :: "f64 \<Rightarrow> xf64 \<Rightarrow> xf64 \<Rightarrow> f64" where
  "max_diff h (Fin a) (Fin b) = max h (a - b)"
| "max_diff h _ _ = h"

definition alt_landmark_bound :: "nat \<Rightarrow> nat \<Rightarrow> (xf64 \<times> xf64) list \<Rightarrow> f64 \<Rightarrow> f64 option" where
  "alt_landmark_bound from_idx to_idx row h = do {
     from_disutility \<leftarrow> list_get row from_idx;
     to_disutility \<leftarrow> list_get row to_idx;
     let h = max_diff h (fst from_disutility) (snd to_disutility);
     Some (max_diff h (fst to_disutility) (snd from_disutility)) }"

definition alt_estimate :: "alt_landmark_data \<Rightarrow> node_id \<Rightarrow> node_id \<Rightarrow> xf64 option" where
  "alt_estimate data from_id to_id = do {
     from_idx \<leftarrow> node_id_to_idx data from_id;
     to_idx \<leftarrow> node_id_to_idx data to_id;
     h \<leftarrow> foldM (alt_landmark_bound from_idx to_idx) (travel_disutilities_to_all data) 0;
     Some (Fin (if h < 0 then 0 else h)) }"

datatype heuristic = ZeroHeuristic | AltHeuristic alt_landmark_data

fun estimate :: "heuristic \<Rightarrow> node_id \<Rightarrow> node_id \<Rightarrow> xf64 option" where
  "estimate ZeroHeuristic from_id to_id = Some (Fin 0)"
| "estimate (AltHeuristic data) from_id to_id = alt_estimate data from_id to_id"

datatype heuristic_kind = Dijkstra | Alt

fun heuristic_create :: "'q queue_ops \<Rightarrow> (nat \<Rightarrow> nat \<Rightarrow> nat list) \<Rightarrow> heuristic_kind \<Rightarrow> routing_graph \<Rightarrow> travel_costs \<Rightarrow> heuristic graph_result option" where
  "heuristic_create Q pick Dijkstra g costs = Some (Inr ZeroHeuristic)"
| "heuristic_create Q pick Alt g costs = bind_res (landmark_data_from_graph Q pick g costs) (\<lambda>data. Some (Inr (AltHeuristic data)))"

section \<open>The distances of a landmark\<close>

definition min_costs_ok :: "travel_costs \<Rightarrow> routing_graph \<Rightarrow> bool" where
  "min_costs_ok costs g \<longleftrightarrow> (\<forall>e < num_edges g. \<forall>l. get_link_from_idx g e = Inr l \<longrightarrow>
     (\<exists>x. get_link_min_travel_disutility costs l = Some x \<and> nonneg x))"

abbreviation min_cost :: "travel_costs \<Rightarrow> link \<Rightarrow> xf64" where
  "min_cost costs l \<equiv> the (get_link_min_travel_disutility costs l)"

lemma landmark_request_ok:
  assumes "graph_ok g" and "min_costs_ok costs g" and "L < num_nodes g"
  shows "req_ok 0 (landmark_request g costs L b)"
proof -
  let ?req = "landmark_request g costs L b"
  have "costs_ok 0 ?req e" if e: "e < num_edges g" for e
  proof -
    have "get_link_from_idx g e = Inr (e_link ?req e)" using edge_ends(2)[of ?req e] e assms(1) by (simp add: landmark_request_def)
    then obtain x where "get_link_min_travel_disutility costs (e_link ?req e) = Some x" "nonneg x" using assms(2) e by (auto simp: min_costs_ok_def)
    then show ?thesis by (simp add: costs_ok_def e_cost_def landmark_request_def)
  qed
  moreover have h: "heuristic_estimate ?req (req_options ?req) u = Some (Inr (Fin 0))" for u by (simp add: heuristic_estimate_def landmark_request_def)
  moreover have "n_h ?req u = 0" for u by (simp add: n_h_def estimate_of_def h)
  moreover have "options_ok 0 ?req" "req_graph ?req = g" "req_from ?req = L" by (simp_all add: options_ok_def landmark_request_def)
  moreover have "\<exists>x. heuristic_estimate ?req (req_options ?req) u = Some (Inr (Fin x))" for u using h by blast
  moreover have "Fin 0 \<le> x + Fin 0" if "nonneg x" for x using that by (elim nonnegE) simp_all
  ultimately show ?thesis using assms unfolding req_ok_def by (simp add: costs_ok_def)
qed

context keyed_queue
begin

lemma one_2_many_correct:
  assumes "graph_ok g" and "min_costs_ok costs g" and "L < num_nodes g"
  shows "\<exists>ds. disutilities_one_2_many Q g costs L b = Some (Inr ds) \<and> length ds = num_nodes g \<and>
    (\<forall>v < num_nodes g. least_disutility g (min_cost costs) (if b then v else L) (if b then L else v) (ds ! v))"
proof -
  let ?req = "landmark_request g costs L b"
  note ok = landmark_request_ok[OF assms, of b]
  have sel: "req_graph ?req = g" "req_from ?req = L" "req_backward ?req = b" "req_options ?req = LandmarkCalcAStarActions" by (simp_all add: landmark_request_def)
  have cost: "req_cost ?req = min_cost costs" by (simp add: fun_eq_iff req_cost_def landmark_request_def)
  obtain r where r: "a_star_core Q ?req = Some (Inr r)" "result_ok 0 ?req r" using a_star_core_correct[OF ok] by blast
  then obtain ds where ds: "r = DisutilityToAllWithoutParents ds" using sel(4) by (cases r) auto
  have "least_disutility g (min_cost costs) (if b then v else L) (if b then L else v) (ds ! v)" if "v < num_nodes g" for v
    using r(2) that sel(3) is_least_forward[OF ok, where v = v and x = "ds ! v"] is_least_backward[OF ok, where v = v and x = "ds ! v"] unfolding ds sel cost by (cases b) (simp_all add: landmark_request_def)
  then show ?thesis using r by (simp add: disutilities_one_2_many_def ds sel)
qed

end

lemma gweight_nonneg:
  assumes "graph_ok g" and "min_costs_ok costs g" and "gpath g u es v"
  shows "nonneg (gweight g (min_cost costs) es)"
  using assms(3)
proof (induction es arbitrary: u)
  case (Cons e es)
  then have e: "e < num_edges g" by simp
  obtain l where "get_link_from_idx g e = Inr l" using assms(1) e unfolding graph_ok_def edge_at_def by blast
  then show ?case using Cons assms(2) e by (fastforce simp: gweight_def min_costs_ok_def)
qed (simp add: gweight_def)

lemma least_nonneg:
  assumes "graph_ok g" and "min_costs_ok costs g" and "least_disutility g (min_cost costs) u v x"
  shows "nonneg x"
  using assms(3) gweight_nonneg[OF assms(1,2)] by (cases "x = PosInf") (auto simp: least_disutility_def)

lemma least_unique:
  assumes "graph_ok g" and "min_costs_ok costs g" and "least_disutility g (min_cost costs) u v x" and "least_disutility g (min_cost costs) u v y"
  shows "x = y"
  using assms(3,4) least_nonneg[OF assms(1,2)] unfolding least_disutility_def
  by (metis antisym assms(3,4) nonneg_PosInf_le)

text \<open>The triangle inequalities at an edge.\<close>

lemma least_edge:
  assumes "graph_ok g" and "min_costs_ok costs g" and e: "e < num_edges g" "get_start_node_as_idx g e = Inr u" "get_end_node_as_idx g e = Inr v"
    and k: "k = min_cost costs (projr (get_link_from_idx g e))"
  shows "least_disutility g (min_cost costs) a u x \<Longrightarrow> least_disutility g (min_cost costs) a v y \<Longrightarrow> y \<le> x + k"
    and "least_disutility g (min_cost costs) v a x \<Longrightarrow> least_disutility g (min_cost costs) u a y \<Longrightarrow> y \<le> k + x"
proof -
  have w: "gweight g (min_cost costs) [e] = k" by (simp add: gweight_def k)
  have edge: "gpath g u [e] v" using e by simp
  have nk: "nonneg k" using gweight_nonneg[OF assms(1,2) edge] w by simp
  have app: "gweight g (min_cost costs) (es @ es') = gweight g (min_cost costs) es + gweight g (min_cost costs) es'" for es es'
    by (simp add: gweight_def)
  show "y \<le> x + k" if xy: "least_disutility g (min_cost costs) a u x" "least_disutility g (min_cost costs) a v y"
  proof (cases "x = PosInf")
    case True
    then show ?thesis using least_nonneg[OF assms(1,2) xy(2)] nk by (auto elim!: nonnegE)
  next
    case False
    then obtain es where "gpath g a es u" "x = gweight g (min_cost costs) es" using xy(1) by (auto simp: least_disutility_def)
    then have "gpath g a (es @ [e]) v" "x + k = gweight g (min_cost costs) (es @ [e])" using edge by (auto simp: gpath_append app w)
    then show ?thesis using xy(2) unfolding least_disutility_def by metis
  qed
  show "y \<le> k + x" if xy: "least_disutility g (min_cost costs) v a x" "least_disutility g (min_cost costs) u a y"
  proof (cases "x = PosInf")
    case True
    then show ?thesis using least_nonneg[OF assms(1,2) xy(2)] nk by (auto elim!: nonnegE)
  next
    case False
    then obtain es where "gpath g v es a" "x = gweight g (min_cost costs) es" using xy(1) by (auto simp: least_disutility_def)
    then have "gpath g u ([e] @ es) a" "k + x = gweight g (min_cost costs) ([e] @ es)" unfolding app w using edge by auto
    then show ?thesis using xy(2) unfolding least_disutility_def by metis
  qed
qed

text \<open>The landmark data of all landmarks.\<close>

definition landmark_row_ok :: "routing_graph \<Rightarrow> travel_costs \<Rightarrow> nat \<Rightarrow> (xf64 \<times> xf64) list \<Rightarrow> bool" where
  "landmark_row_ok g costs L row \<longleftrightarrow> length row = num_nodes g \<and>
     (\<forall>v < num_nodes g. least_disutility g (min_cost costs) L v (fst (row ! v)) \<and> least_disutility g (min_cost costs) v L (snd (row ! v)))"

context keyed_queue
begin

lemma all_disutilities_correct:
  assumes "graph_ok g" and "min_costs_ok costs g" and "\<forall>L \<in> set ls. L < num_nodes g"
  shows "\<exists>rows. calc_all_disutilities Q g costs ls = Some (Inr rows) \<and> list_all2 (landmark_row_ok g costs) ls rows"
  using assms(3)
proof (induction ls)
  case (Cons L ls)
  obtain f where f: "disutilities_one_2_many Q g costs L False = Some (Inr f)" "length f = num_nodes g"
    "\<forall>v < num_nodes g. least_disutility g (min_cost costs) L v (f ! v)"
    using one_2_many_correct[OF assms(1,2), of L False] Cons.prems by auto
  obtain b where b: "disutilities_one_2_many Q g costs L True = Some (Inr b)" "length b = num_nodes g"
    "\<forall>v < num_nodes g. least_disutility g (min_cost costs) v L (b ! v)"
    using one_2_many_correct[OF assms(1,2), of L True] Cons.prems by auto
  obtain rows where "calc_all_disutilities Q g costs ls = Some (Inr rows)" "list_all2 (landmark_row_ok g costs) ls rows"
    using Cons by auto
  moreover have "landmark_row_ok g costs L (zip f b)" using f b by (simp add: landmark_row_ok_def)
  ultimately show ?case using f b by (auto simp: calc_all_disutilities_def)
qed (simp add: calc_all_disutilities_def)

end

text \<open>
  C32. The landmark data is what it is documented to be: for every landmark \<open>L\<close> and node \<open>v\<close> of a
  converted network, the first disutility is the least over all paths from \<open>L\<close> to \<open>v\<close>, the second
  the least over all paths from \<open>v\<close> to \<open>L\<close> (found by the search over incoming links), and infinity
  if there is no path. The calculation neither panics nor returns an error.
\<close>

theorem landmark_distances:
  assumes "keyed_queue Q entries" and "net_inv net" and "convert_network_for_mode net m = Some g" and "min_costs_ok costs g"
    and "\<forall>L \<in> set ls. L < num_nodes g"
  shows "\<exists>rows. calc_all_disutilities Q g costs ls = Some (Inr rows) \<and> length rows = length ls \<and>
    (\<forall>i < length ls. \<forall>v < num_nodes g.
       least_disutility g (min_cost costs) (ls ! i) v (fst (rows ! i ! v)) \<and> least_disutility g (min_cost costs) v (ls ! i) (snd (rows ! i ! v)))"
proof -
  have "graph_ok g" by (rule convert_graph_ok(1)[OF assms(2,3)])
  from keyed_queue.all_disutilities_correct[OF assms(1) this assms(4,5)] show ?thesis
    by (auto simp: landmark_row_ok_def list_all2_conv_all_nth)
qed

lemma ex_min_costs: "min_costs_ok FreeSpeedTravelTimeAndDisutility ex_graph"
proof -
  have "\<exists>x. get_link_min_travel_disutility FreeSpeedTravelTimeAndDisutility l = Some x \<and> nonneg x" if "net_links ex_net i = Some l" for i l
    using that by (auto simp: ex_net_def FreeSpeedTravelTimeAndDisutility_def free_speed_travel_time_def ex_link_def link_new_def f64_div_def
        round_half_even_def nanos_per_second_def duration_max_def Let_def u64_max_def duration_as_secs_f64_def split: if_splits)
  moreover have "net_links ex_net (link_ident l) = Some l" if "e < num_edges ex_graph" "get_link_from_idx ex_graph e = Inr l" for e l
    using that convert_links[OF ex_net_inv ex_convert] by blast
  ultimately show ?thesis unfolding min_costs_ok_def by blast
qed

theorem landmark_distances_witness:
  "\<exists>rows. calc_all_disutilities list_queue ex_graph FreeSpeedTravelTimeAndDisutility [3] = Some (Inr rows) \<and>
     least_disutility ex_graph (min_cost FreeSpeedTravelTimeAndDisutility) 1 3 (snd (rows ! 0 ! 1))"
proof -
  have "num_nodes ex_graph = 4" by (simp add: num_nodes_def ex_graph_def)
  then have "\<forall>L \<in> set [3]. L < num_nodes ex_graph" by simp
  from landmark_distances[OF list_queue.keyed_queue_axioms ex_net_inv ex_convert ex_min_costs this] show ?thesis
    using \<open>num_nodes ex_graph = 4\<close> by auto
qed

section \<open>Estimates on symmetric distances\<close>

definition symmetric_row :: "(xf64 \<times> xf64) list \<Rightarrow> bool" where
  "symmetric_row row \<longleftrightarrow> (\<forall>p \<in> set row. fst p = snd p)"

lemma alt_landmark_bound_eq:
  assumes "u < length row" and "t < length row" and "symmetric_row row"
  shows "alt_landmark_bound u t row h = Some (max_diff (max_diff h (fst (row ! u)) (fst (row ! t))) (fst (row ! t)) (fst (row ! u)))"
  using assms by (simp add: alt_landmark_bound_def symmetric_row_def)

lemma max_diff_ge: "h \<le> max_diff h a b"
  by (cases a; cases b) auto

lemma max_diff_step:
  assumes "hu \<le> c + hv" and "0 \<le> c" and "dv \<le> du + Fin c" and "du \<le> Fin c + dv" and "nonneg du" and "nonneg dv"
  shows "max_diff (max_diff hu du dt) dt du \<le> c + max_diff (max_diff hv dv dt) dt dv"
  using assms by (cases dt; elim nonnegE) (auto simp: max_def)

lemma alt_fold_step:
  assumes rows: "\<forall>row \<in> set rows. symmetric_row row \<and> length row = n" and n: "u < n" "v < n" "t < n"
    and d: "\<forall>row \<in> set rows. nonneg (fst (row ! u)) \<and> nonneg (fst (row ! v)) \<and> fst (row ! v) \<le> fst (row ! u) + Fin c \<and> fst (row ! u) \<le> Fin c + fst (row ! v)"
    and c: "0 \<le> c" and h: "hu \<le> c + hv"
  shows "\<exists>xu xv. foldM (alt_landmark_bound u t) rows hu = Some xu \<and> foldM (alt_landmark_bound v t) rows hv = Some xv \<and> xu \<le> c + xv"
  using rows d h
proof (induction rows arbitrary: hu hv)
  case (Cons row rows)
  have r: "symmetric_row row" "u < length row" "v < length row" "t < length row" using Cons.prems(1) n by auto
  have "max_diff (max_diff hu (fst (row ! u)) (fst (row ! t))) (fst (row ! t)) (fst (row ! u)) \<le>
      c + max_diff (max_diff hv (fst (row ! v)) (fst (row ! t))) (fst (row ! t)) (fst (row ! v))"
    using Cons.prems(2,3) c by (intro max_diff_step) auto
  then show ?case using Cons alt_landmark_bound_eq[OF r(2,4,1)] alt_landmark_bound_eq[OF r(3,4,1)] by auto
qed simp

lemma alt_fold_total:
  "\<forall>row \<in> set rows. symmetric_row row \<and> length row = n \<Longrightarrow> u < n \<Longrightarrow> t < n \<Longrightarrow> \<exists>x. foldM (alt_landmark_bound u t) rows h = Some x"
proof (induction rows arbitrary: h)
  case (Cons row rows)
  then show ?case using alt_landmark_bound_eq[of u row t h] by auto
qed simp

definition symmetric_distances :: "routing_graph \<Rightarrow> travel_costs \<Rightarrow> bool" where
  "symmetric_distances g costs \<longleftrightarrow> (\<forall>u < num_nodes g. \<forall>v < num_nodes g. \<forall>x.
     least_disutility g (min_cost costs) u v x \<longleftrightarrow> least_disutility g (min_cost costs) v u x)"

lemma rows_symmetric:
  assumes g: "graph_ok g" and costs: "min_costs_ok costs g" and rows: "list_all2 (landmark_row_ok g costs) ls rows"
    and sym: "symmetric_distances g costs" and ls: "\<forall>L \<in> set ls. L < num_nodes g" and r: "r \<in> set rows"
  shows "\<exists>L < num_nodes g. landmark_row_ok g costs L r" and "symmetric_row r \<and> length r = num_nodes g"
proof -
  show row: "\<exists>L < num_nodes g. landmark_row_ok g costs L r"
    using r rows ls by (metis in_set_conv_nth list_all2_conv_all_nth)
  then obtain L where L: "L < num_nodes g" "landmark_row_ok g costs L r" by blast
  then have len: "length r = num_nodes g" by (simp add: landmark_row_ok_def)
  have "fst (r ! w) = snd (r ! w)" if w: "w < num_nodes g" for w
    using L w sym least_unique[OF g costs] unfolding landmark_row_ok_def symmetric_distances_def by blast
  then show "symmetric_row r \<and> length r = num_nodes g" using len unfolding symmetric_row_def by (metis in_set_conv_nth)
qed

text \<open>Where all distances are the same in both directions, the estimate is consistent.\<close>

lemma alt_consistent:
  assumes g: "graph_ok g" and costs: "min_costs_ok costs g" and rows: "list_all2 (landmark_row_ok g costs) ls rows"
    and sym: "symmetric_distances g costs"
    and ls: "\<forall>L \<in> set ls. L < num_nodes g" and e: "e < num_edges g" "get_start_node_as_idx g e = Inr u" "get_end_node_as_idx g e = Inr v"
    and n: "u < num_nodes g" "v < num_nodes g" "t < num_nodes g" and c: "Fin c = min_cost costs (projr (get_link_from_idx g e))" "0 \<le> c"
  shows "\<exists>xu xv. foldM (alt_landmark_bound u t) rows 0 = Some xu \<and> foldM (alt_landmark_bound v t) rows 0 = Some xv \<and> xu \<le> c + xv"
proof (rule alt_fold_step)
  note rs = rows_symmetric[OF g costs rows sym ls]
  show "\<forall>r \<in> set rows. symmetric_row r \<and> length r = num_nodes g" using rs(2) by blast
  show "\<forall>r \<in> set rows. nonneg (fst (r ! u)) \<and> nonneg (fst (r ! v)) \<and> fst (r ! v) \<le> fst (r ! u) + Fin c \<and> fst (r ! u) \<le> Fin c + fst (r ! v)"
  proof
    fix r assume "r \<in> set rows"
    then obtain L where L: "L < num_nodes g" "landmark_row_ok g costs L r" using rs(1) by blast
    then have uv: "least_disutility g (min_cost costs) L u (fst (r ! u))" "least_disutility g (min_cost costs) L v (fst (r ! v))"
      using n by (auto simp: landmark_row_ok_def)
    then have vu: "least_disutility g (min_cost costs) u L (fst (r ! u))" "least_disutility g (min_cost costs) v L (fst (r ! v))"
      using sym n L(1) unfolding symmetric_distances_def by blast+
    show "nonneg (fst (r ! u)) \<and> nonneg (fst (r ! v)) \<and> fst (r ! v) \<le> fst (r ! u) + Fin c \<and> fst (r ! u) \<le> Fin c + fst (r ! v)"
      using least_nonneg[OF g costs uv(1)] least_nonneg[OF g costs uv(2)] least_edge(1)[OF g costs e c(1) uv] least_edge(2)[OF g costs e c(1) vu(2,1)]
      by blast
  qed
qed (use n c(2) in simp_all)

end
