(* ===== verification/A_Star.thy ===== *)
theory A_Star
  imports Alt_Landmarks "HOL-Library.Code_Target_Nat"
begin

text \<open>
  The router (\<open>replanning/routing/a_star.rs\<close>): it owns the graph, the heuristic and the costs,
  answers requests between links and reads the path off the parent links.
\<close>

section \<open>Router\<close>

record a_star =
  as_graph :: routing_graph
  as_heuristic :: heuristic
  as_costs :: travel_costs

record least_cost_path_request =
  lcp_from :: link_id
  lcp_to :: link_id
  lcp_departure_time :: sim_time
  lcp_person :: "internal_person option"
  lcp_vehicle :: "internal_vehicle option"

record least_cost_path =
  lcp_path :: "link_id list"
  lcp_travel_time :: duration
  lcp_travel_disutility :: xf64

definition a_star_with_graph :: "'q queue_ops \<Rightarrow> (nat \<Rightarrow> nat \<Rightarrow> nat list) \<Rightarrow> heuristic_kind \<Rightarrow> travel_costs \<Rightarrow> routing_graph \<Rightarrow> a_star graph_result option" where
  "a_star_with_graph Q pick kind costs g = bind_res (heuristic_create Q pick kind g costs) (\<lambda>h.
     Some (Inr \<lparr>as_graph = g, as_heuristic = h, as_costs = costs\<rparr>))"

definition a_star_new :: "'q queue_ops \<Rightarrow> (nat \<Rightarrow> nat \<Rightarrow> nat list) \<Rightarrow> heuristic_kind \<Rightarrow> network \<Rightarrow> mode option \<Rightarrow> travel_costs \<Rightarrow> a_star graph_result option" where
  "a_star_new Q pick kind net m costs = do {
     g \<leftarrow> convert_network_for_mode net m;
     a_star_with_graph Q pick kind costs g }"

definition a_star_new_for_modes :: "'q queue_ops \<Rightarrow> (nat \<Rightarrow> nat \<Rightarrow> nat list) \<Rightarrow> heuristic_kind \<Rightarrow> (mode set \<Rightarrow> mode list) \<Rightarrow> network \<Rightarrow> mode list \<Rightarrow>
    travel_costs \<Rightarrow> (mode \<rightharpoonup> a_star) graph_result option" where
  "a_star_new_for_modes Q pick kind ord net modes costs = do {
     graphs \<leftarrow> convert_network_with_modes net modes;
     fold_res (\<lambda>m routers. do {
       g \<leftarrow> graphs m;
       bind_res (a_star_with_graph Q pick kind costs g) (\<lambda>r. Some (Inr (routers(m \<mapsto> r)))) }) (ord (dom graphs)) Map.empty }"

text \<open>Following the parent links from a node, and turning the links around.\<close>

partial_function (option) follow_parents :: "routing_graph \<Rightarrow> nat option list \<Rightarrow> nat \<Rightarrow> link_id list \<Rightarrow> link_id list graph_result option" where
  [code]: "follow_parents g parents current link_path = do {
     parent \<leftarrow> list_get parents current;
     case parent of
       None \<Rightarrow> Some (Inr link_path)
     | Some e \<Rightarrow>
         (case get_link_id_from_idx g e of
            Inl err \<Rightarrow> Some (Inl err)
          | Inr l \<Rightarrow>
              (case get_start_node_as_idx g e of
                 Inl err \<Rightarrow> Some (Inl err)
               | Inr n \<Rightarrow> follow_parents g parents n (link_path @ [l]))) }"

definition verify_path :: "routing_graph \<Rightarrow> link_id list \<Rightarrow> link_id \<Rightarrow> link_id \<Rightarrow> bool graph_result option" where
  "verify_path g path from_link to_link =
     bind_res (get_end_node g from_link) (\<lambda>end_node_of_from_link.
     try_res (get_start_node g to_link) (\<lambda>start_node_of_to_link.
       if path = [] then Some (Inr (end_node_of_from_link = start_node_of_to_link))
       else try_res (get_start_node g (hd path)) (\<lambda>first_node_of_path.
         bind_res (get_end_node g (last path)) (\<lambda>last_node_of_path.
         Some (Inr (first_node_of_path = end_node_of_from_link \<and> last_node_of_path = start_node_of_to_link))))))"

definition extract_link_path :: "routing_graph \<Rightarrow> link_id \<Rightarrow> link_id \<Rightarrow> nat option list \<Rightarrow> link_id list option graph_result option" where
  "extract_link_path g to_link from_link parents =
     try_res (get_start_node g to_link) (\<lambda>to_node_id. do {
       to_node_idx \<leftarrow> get_node_idx_from_id g to_node_id;
       bind_res (follow_parents g parents to_node_idx []) (\<lambda>link_path.
       let link_path = rev link_path in
       bind_res (verify_path g link_path from_link to_link) (\<lambda>ok.
       Some (Inr (if ok then Some link_path else None)))) })"

definition routing_request :: "a_star \<Rightarrow> least_cost_path_request \<Rightarrow> nat \<Rightarrow> nat \<Rightarrow> a_star_request" where
  "routing_request r req from_idx to_idx = \<lparr>req_heuristic_mode = WithHeuristic (estimate (as_heuristic r)), req_from = from_idx, req_graph = as_graph r,
     req_options = routing_actions_new to_idx (num_nodes (as_graph r)), req_costs = as_costs r, req_departure_time = lcp_departure_time req,
     req_person = lcp_person req, req_vehicle = lcp_vehicle req, req_backward = False\<rparr>"

text \<open>The outer option is a panic, the inner one the result: a path or none.\<close>

definition calc_least_cost_path :: "'q queue_ops \<Rightarrow> a_star \<Rightarrow> least_cost_path_request \<Rightarrow> least_cost_path option option" where
  "calc_least_cost_path Q r req =
     (case get_start_node (as_graph r) (lcp_to req) of
        Inl _ \<Rightarrow> Some None
      | Inr to_node_id \<Rightarrow> do {
          to_node_idx \<leftarrow> get_node_idx_from_id (as_graph r) to_node_id;
          from_node \<leftarrow> get_end_node (as_graph r) (lcp_from req);
          case from_node of
            Inl _ \<Rightarrow> Some None
          | Inr from_node_id \<Rightarrow> do {
              from_idx \<leftarrow> get_node_idx_from_id (as_graph r) from_node_id;
              result \<leftarrow> a_star_core Q (routing_request r req from_idx to_node_idx);
              case result of
                Inl _ \<Rightarrow> Some None
              | Inr (DisutilityToAllWithoutParents _) \<Rightarrow> None
              | Inr (SingleDisutilWithParents distance time parents) \<Rightarrow>
                  if distance = PosInf \<or> distance = NaN then Some None
                  else do {
                    path \<leftarrow> extract_link_path (as_graph r) (lcp_to req) (lcp_from req) parents;
                    case path of
                      Inr (Some link_path) \<Rightarrow> Some (Some \<lparr>lcp_path = link_path, lcp_travel_time = time, lcp_travel_disutility = distance\<rparr>)
                    | Inr None \<Rightarrow> Some None
                    | Inl _ \<Rightarrow> Some None } } })"

section \<open>Paths of links\<close>

definition src_at :: "routing_graph \<Rightarrow> nat \<Rightarrow> nat" where "src_at g e = projr (get_start_node_as_idx g e)"
definition dst_at :: "routing_graph \<Rightarrow> nat \<Rightarrow> nat" where "dst_at g e = projr (get_end_node_as_idx g e)"
definition link_at :: "routing_graph \<Rightarrow> nat \<Rightarrow> link" where "link_at g e = projr (get_link_from_idx g e)"

lemma edge_facts:
  assumes g: "graph_ok g" and e: "e < num_edges g"
  shows "get_start_node_as_idx g e = Inr (src_at g e)" "get_end_node_as_idx g e = Inr (dst_at g e)" "get_link_from_idx g e = Inr (link_at g e)"
    and "get_link_id_from_idx g e = Inr (link_ident (link_at g e))" "src_at g e < num_nodes g" "dst_at g e < num_nodes g"
    and "get_node_id_from_idx g (src_at g e) = Inr (link_from (link_at g e))" "get_node_id_from_idx g (dst_at g e) = Inr (link_to (link_at g e))"
    and "get_node_idx_from_id g (link_from (link_at g e)) = Some (src_at g e)" "get_node_idx_from_id g (link_to (link_at g e)) = Some (dst_at g e)"
    and "get_start_node g (link_ident (link_at g e)) = Inr (link_from (link_at g e))"
    and "get_end_node g (link_ident (link_at g e)) = Some (Inr (link_to (link_at g e)))"
proof -
  obtain u v l where edge: "get_start_node_as_idx g e = Inr u" "get_end_node_as_idx g e = Inr v" "get_link_from_idx g e = Inr l"
    and n: "u < num_nodes g" "v < num_nodes g" and id: "get_link_id_from_idx g e = Inr (link_ident l)"
    and nodes: "list_get (node_id_by_index g) u = Some (link_from l)" "list_get (node_id_by_index g) v = Some (link_to l)"
    using g e unfolding graph_ok_def edge_at_def by blast
  have at: "src_at g e = u" "dst_at g e = v" "link_at g e = l" using edge by (simp_all add: src_at_def dst_at_def link_at_def)
  have idx: "node_index_by_id g (link_from l) = Some u" "node_index_by_id g (link_to l) = Some v" using g nodes unfolding graph_ok_def by blast+
  have fwd: "forward_link_index_by_id g (link_ident l) = Some e" using g e id unfolding graph_ok_def by blast
  have hd: "list_get (head (forward_graph g)) e = Some v" using edge(2) by (simp add: get_end_node_as_idx_def)
  show "get_start_node_as_idx g e = Inr (src_at g e)" "get_end_node_as_idx g e = Inr (dst_at g e)" "get_link_from_idx g e = Inr (link_at g e)"
    "get_link_id_from_idx g e = Inr (link_ident (link_at g e))" "src_at g e < num_nodes g" "dst_at g e < num_nodes g"
    using edge n id by (simp_all add: at)
  show ids: "get_node_id_from_idx g (src_at g e) = Inr (link_from (link_at g e))" "get_node_id_from_idx g (dst_at g e) = Inr (link_to (link_at g e))"
    unfolding at get_node_id_from_idx_def nodes by simp_all
  show "get_node_idx_from_id g (link_from (link_at g e)) = Some (src_at g e)" "get_node_idx_from_id g (link_to (link_at g e)) = Some (dst_at g e)"
    unfolding at get_node_idx_from_id_def idx by simp_all
  show "get_start_node g (link_ident (link_at g e)) = Inr (link_from (link_at g e))"
    using ids(1) edge(1) by (simp add: get_start_node_def get_link_idx_from_id_def fwd at)
  show "get_end_node g (link_ident (link_at g e)) = Some (Inr (link_to (link_at g e)))"
    unfolding get_end_node_def get_link_idx_from_id_def at fwd by (simp add: hd nodes)
qed

text \<open>The links of a network that a mode may drive in a row, from one node to another.\<close>

primrec drives :: "network \<Rightarrow> mode option \<Rightarrow> node_id \<Rightarrow> link_id list \<Rightarrow> node_id \<Rightarrow> bool" where
  "drives net m i [] j \<longleftrightarrow> i = j"
| "drives net m i (l # ls) j \<longleftrightarrow> (\<exists>k. net_links net l = Some k \<and> for_mode m k \<and> link_from k = i \<and> drives net m (link_to k) ls j)"

definition path_disutility :: "network \<Rightarrow> (link \<Rightarrow> xf64) \<Rightarrow> link_id list \<Rightarrow> xf64" where
  "path_disutility net cost ls = sum_list (map (\<lambda>l. cost (the (net_links net l))) ls)"

text \<open>A graph with exactly the links of a network that allow a mode.\<close>

definition graph_of :: "network \<Rightarrow> mode option \<Rightarrow> routing_graph \<Rightarrow> bool" where
  "graph_of net m g \<longleftrightarrow> graph_ok g \<and> (\<forall>i l. net_links net i = Some l \<longrightarrow> link_ident l = i) \<and>
     (\<forall>l. (\<exists>e < num_edges g. get_link_from_idx g e = Inr l) \<longleftrightarrow> net_links net (link_ident l) = Some l \<and> for_mode m l)"

lemma gpath_drives:
  assumes g: "graph_of net m g" and "gpath g u es v" and "get_node_id_from_idx g u = Inr i" and "get_node_id_from_idx g v = Inr j"
  shows "drives net m i (map (link_ident \<circ> link_at g) es) j \<and> path_disutility net cost (map (link_ident \<circ> link_at g) es) = gweight g cost es"
  using assms(2,3)
proof (induction es arbitrary: u i)
  case Nil
  then show ?case using assms(4) by (simp add: path_disutility_def gweight_def)
next
  case (Cons e es)
  have ok: "graph_ok g" and e: "e < num_edges g" using g Cons.prems(1) by (auto simp: graph_of_def)
  note f = edge_facts[OF ok e]
  have u: "src_at g e = u" "gpath g (dst_at g e) es v" using Cons.prems(1) f by auto
  have i: "i = link_from (link_at g e)" using Cons.prems(2) f(7) u(1) by simp
  have l: "net_links net (link_ident (link_at g e)) = Some (link_at g e)" "for_mode m (link_at g e)"
    using g f(3) e unfolding graph_of_def by blast+
  show ?case using Cons.IH[OF u(2) f(8)] l i by (simp add: path_disutility_def gweight_def link_at_def)
qed

lemma drives_gpath:
  assumes g: "graph_of net m g" and "drives net m i ls j" and "get_node_idx_from_id g i = Some u" and "get_node_idx_from_id g j = Some v"
  shows "\<exists>es. gpath g u es v \<and> map (link_ident \<circ> link_at g) es = ls"
  using assms(2,3)
proof (induction ls arbitrary: u i)
  case Nil
  then show ?case using assms(4) by (intro exI[of _ "[]"]) simp
next
  case (Cons l ls)
  obtain k where k: "net_links net l = Some k" "for_mode m k" "link_from k = i" "drives net m (link_to k) ls j" using Cons.prems(1) by auto
  have ok: "graph_ok g" and id: "link_ident k = l" using g k by (auto simp: graph_of_def)
  then obtain e where e: "e < num_edges g" "get_link_from_idx g e = Inr k" using g k(1,2) unfolding graph_of_def by blast
  note f = edge_facts[OF ok e(1)]
  have at: "link_at g e = k" using e(2) by (simp add: link_at_def)
  then have u: "src_at g e = u" using f(9) Cons.prems(2) k(3) by simp
  obtain es where "gpath g (dst_at g e) es v" "map (link_ident \<circ> link_at g) es = ls" using Cons.IH[OF k(4)] f(10) at by auto
  then show ?case using f(1,2) e(1) u at id by (intro exI[of _ "e # es"]) (simp add: comp_def)
qed

lemma graph_ok_ids:
  assumes "graph_ok g"
  shows "get_node_idx_from_id g i = Some u \<longleftrightarrow> get_node_id_from_idx g u = Inr i" and "get_node_idx_from_id g i = Some u \<Longrightarrow> u < num_nodes g"
  using assms unfolding graph_ok_def by (auto simp: get_node_idx_from_id_def get_node_id_from_idx_def)

lemma convert_graph_of:
  assumes inv: "net_inv net" and g: "convert_network_for_mode net m = Some g"
  shows "graph_of net m g"
  using convert_graph_ok(1)[OF assms] convert_links[OF assms] inv by (simp add: graph_of_def net_inv_def)

section \<open>Following the parents\<close>

lemma chain_gpath:
  assumes ok: "req_ok B req" "\<not> req_backward req" and "ls.chain req B P par t es"
  shows "gpath (req_graph req) (req_from req) (rev es) t"
  using ls.chain_walk[OF assms(3)] walk_forward[OF ok] by simp

lemma follow_parents_chain:
  assumes ok: "req_ok B req" "\<not> req_backward req" and ps: "length ps = num_nodes (req_graph req)" "\<forall>v < num_nodes (req_graph req). ps ! v = par v"
    and "ls.chain req B P par t es" and "t < num_nodes (req_graph req)"
  shows "follow_parents (req_graph req) ps t acc = Some (Inr (acc @ map (link_ident \<circ> link_at (req_graph req)) es))"
  using assms(5,6)
proof (induction es arbitrary: t acc)
  case Nil
  then have "list_get ps t = Some None" using ps by (simp add: list_get_def)
  then show ?case unfolding follow_parents.simps[of _ _ t] by simp
next
  case (Cons e es)
  let ?g = "req_graph req"
  have par: "list_get ps t = Some (Some e)" using Cons.prems ps by (simp add: list_get_def)
  have g: "graph_ok ?g" and e: "e < num_edges ?g" using Cons.prems(1) reqD(1,6)[OF ok(1)] by auto
  note f = edge_facts[OF g e]
  have src: "src_at ?g e = e_src req e" using ok(2) by (simp add: src_at_def e_src_def)
  have "follow_parents ?g ps (src_at ?g e) (acc @ [link_ident (link_at ?g e)]) =
      Some (Inr ((acc @ [link_ident (link_at ?g e)]) @ map (link_ident \<circ> link_at ?g) es))"
    using Cons.IH[of "e_src req e"] Cons.prems(1) f(5) src by simp
  then show ?case unfolding follow_parents.simps[of _ _ t] par by (simp add: f(1,4))
qed

section \<open>Least cost paths\<close>

primrec travel_until :: "network \<Rightarrow> (link \<Rightarrow> sim_time \<Rightarrow> duration) \<Rightarrow> sim_time \<Rightarrow> link_id list \<Rightarrow> sim_time" where
  "travel_until net tt t [] = t"
| "travel_until net tt t (l # ls) = travel_until net tt (t + tt (the (net_links net l)) t) ls"

definition req_disutility :: "travel_costs \<Rightarrow> least_cost_path_request \<Rightarrow> link \<Rightarrow> xf64" where
  "req_disutility costs req l = the (travel_disutility costs l (lcp_departure_time req) (lcp_person req) (lcp_vehicle req))"

definition req_travel_time :: "travel_costs \<Rightarrow> least_cost_path_request \<Rightarrow> link \<Rightarrow> sim_time \<Rightarrow> duration" where
  "req_travel_time costs req l t = the (travel_time costs l t (lcp_person req) (lcp_vehicle req))"

text \<open>
  What a router promises for a request from the link \<open>kf\<close> to the link \<open>kt\<close>: a path of least
  disutility with its travel time, or nothing if every path has infinite disutility.
\<close>

definition least_cost_result :: "network \<Rightarrow> mode option \<Rightarrow> travel_costs \<Rightarrow> least_cost_path_request \<Rightarrow> link \<Rightarrow> link \<Rightarrow> least_cost_path option \<Rightarrow> bool" where
  "least_cost_result net m costs req kf kt res \<longleftrightarrow>
     (let cost = path_disutility net (req_disutility costs req);
          path = (\<lambda>ls. drives net m (link_to kf) ls (link_from kt))
      in case res of
        None \<Rightarrow> \<forall>ls. path ls \<longrightarrow> cost ls = PosInf
      | Some p \<Rightarrow> path (lcp_path p) \<and> lcp_travel_disutility p = cost (lcp_path p) \<and>
          (\<forall>ls. path ls \<longrightarrow> lcp_travel_disutility p \<le> cost ls) \<and>
          lcp_travel_time p = travel_until net (req_travel_time costs req) (lcp_departure_time req) (lcp_path p) - lcp_departure_time req)"

lemma arrival_travel_until:
  assumes g: "graph_of net m (as_graph r)" and ok: "req_ok B (routing_request r req u t)"
    and "gpath (as_graph r) x es y"
  shows "ls.arrival (routing_request r req u t) now es =
    travel_until net (req_travel_time (as_costs r) req) now (map (link_ident \<circ> link_at (as_graph r)) es)"
  using assms(3)
proof (induction es arbitrary: x now)
  case (Cons e es)
  let ?g = "as_graph r"
  have e: "e < num_edges ?g" using Cons.prems by simp
  then have l: "net_links net (link_ident (link_at ?g e)) = Some (link_at ?g e)"
    using g edge_facts(3)[of ?g e] unfolding graph_of_def by blast
  have "e_time (routing_request r req u t) e now = req_travel_time (as_costs r) req (link_at ?g e) now"
    by (simp add: e_time_def routing_request_def routing_actions_new_def req_travel_time_def e_link_def link_at_def)
  then show ?case using Cons l by auto
qed simp

lemma request_ends:
  assumes g: "graph_of net m g" and kf: "net_links net lf = Some kf" "for_mode m kf" and kt: "net_links net lt = Some kt" "for_mode m kt"
  shows "get_end_node g lf = Some (Inr (link_to kf))" and "get_start_node g lt = Inr (link_from kt)"
proof -
  have ok: "graph_ok g" using g by (simp add: graph_of_def)
  have lookup: "\<exists>e < num_edges g. link_at g e = k \<and> link_ident k = l" if "net_links net l = Some k" "for_mode m k" for l k
  proof -
    have "link_ident k = l" using g that(1) by (simp add: graph_of_def)
    then show ?thesis using g that unfolding graph_of_def by (metis link_at_def sum.sel(2))
  qed
  show "get_end_node g lf = Some (Inr (link_to kf))" using lookup[OF kf] edge_facts(12)[OF ok] by blast
  show "get_start_node g lt = Inr (link_from kt)" using lookup[OF kt] edge_facts(11)[OF ok] by blast
qed

lemma verify_path_ok:
  assumes g: "graph_of net m g" and kf: "net_links net lf = Some kf" "for_mode m kf" and kt: "net_links net lt = Some kt" "for_mode m kt"
    and u: "get_node_idx_from_id g (link_to kf) = Some u" and t: "get_node_idx_from_id g (link_from kt) = Some t"
    and path: "gpath g u es t"
  shows "verify_path g (map (link_ident \<circ> link_at g) es) lf lt = Some (Inr True)"
proof -
  have ok: "graph_ok g" using g by (simp add: graph_of_def)
  note ends = request_ends[OF g kf kt]
  show ?thesis
  proof (cases "es = []")
    case True
    then have "u = t" using path by simp
    then have "link_to kf = link_from kt" using u t graph_ok_ids(1)[OF ok] by simp
    then show ?thesis using True by (simp add: verify_path_def ends)
  next
    case False
    let ?a = "hd es" and ?b = "last es"
    have "gpath g u (?a # tl es) t" using path False by simp
    then have a: "?a < num_edges g" "get_start_node_as_idx g ?a = Inr u" by simp_all
    have "gpath g u (butlast es @ [?b]) t" using path False by simp
    then have b: "?b < num_edges g" "get_end_node_as_idx g ?b = Inr t" by (auto simp: gpath_append)
    have "link_from (link_at g ?a) = link_to kf" using edge_facts(1,9)[OF ok a(1)] a(2) u graph_ok_ids(1)[OF ok] by simp
    moreover have "link_to (link_at g ?b) = link_from kt" using edge_facts(2,10)[OF ok b(1)] b(2) t graph_ok_ids(1)[OF ok] by simp
    ultimately show ?thesis using False edge_facts(11)[OF ok a(1)] edge_facts(12)[OF ok b(1)]
      by (simp add: verify_path_def ends hd_map last_map)
  qed
qed

context keyed_queue
begin

lemma calc_correct:
  assumes g: "graph_of net m (as_graph r)" and kf: "net_links net (lcp_from req) = Some kf" "for_mode m kf"
    and kt: "net_links net (lcp_to req) = Some kt" "for_mode m kt"
    and u: "get_node_idx_from_id (as_graph r) (link_to kf) = Some u" and t: "get_node_idx_from_id (as_graph r) (link_from kt) = Some t"
    and ok: "req_ok B (routing_request r req u t)"
  shows "\<exists>res. calc_least_cost_path Q r req = Some res \<and> least_cost_result net m (as_costs r) req kf kt res"
proof -
  let ?g = "as_graph r" and ?req = "routing_request r req u t" and ?cost = "req_disutility (as_costs r) req"
  have gok: "graph_ok ?g" using g by (simp add: graph_of_def)
  note ids = graph_ok_ids(1)[OF gok]
  have sel: "req_graph ?req = ?g" "req_from ?req = u" "\<not> req_backward ?req" "get_to_node_opt (req_options ?req) = Some t" "req_departure_time ?req = lcp_departure_time req"
    by (simp_all add: routing_request_def routing_actions_new_def)
  have cost: "req_cost ?req = ?cost" by (simp add: fun_eq_iff req_cost_def routing_request_def routing_actions_new_def req_disutility_def)
  have tn: "t < num_nodes ?g" using graph_ok_ids(2)[OF gok t] .
  obtain res where res: "a_star_core Q ?req = Some (Inr res)" "result_ok B ?req res" using a_star_core_correct[OF ok] by blast
  have "res \<noteq> DisutilityToAllWithoutParents ds" for ds using res(2) sel(4) by auto
  then obtain x time ps where r: "res = SingleDisutilWithParents x time ps" by (cases res) auto
  have least: "least_disutility ?g ?cost u t x" using res(2) is_least_forward[OF ok sel(3)] sel by (simp add: r cost)
  have to_gpath: "x \<le> path_disutility net ?cost ls" if path: "drives net m (link_to kf) ls (link_from kt)" for ls
  proof -
    obtain es where es: "gpath ?g u es t" "map (link_ident \<circ> link_at ?g) es = ls" using drives_gpath[OF g path u t] by blast
    then have "path_disutility net ?cost ls = gweight ?g ?cost es" using gpath_drives[OF g es(1), of _ _ ?cost] u t ids by auto
    then show ?thesis using least es(1) by (simp add: least_disutility_def)
  qed
  note ends = request_ends[OF g kf kt]
  show ?thesis
  proof (cases "x = PosInf")
    case True
    have "path_disutility net ?cost ls = PosInf" if path: "drives net m (link_to kf) ls (link_from kt)" for ls
    proof -
      obtain es where es: "gpath ?g u es t" "map (link_ident \<circ> link_at ?g) es = ls" using drives_gpath[OF g path u t] by blast
      have "path_disutility net ?cost ls = ls.weight ?req es"
        using gpath_drives[OF g es(1), of _ _ ?cost] u t ids es(2) by (auto simp: weight_gweight sel cost)
      moreover have "nonneg (ls.weight ?req es)" using ls.weight_nonneg walk_forward[OF ok sel(3)] es(1) sel by metis
      ultimately show ?thesis using to_gpath[OF path] True by simp
    qed
    moreover have "calc_least_cost_path Q r req = Some None"
      using True res(1) ends t u by (simp add: calc_least_cost_path_def r)
    ultimately show ?thesis by (simp add: least_cost_result_def)
  next
    case False
    then obtain P par es where chain: "ls.chain ?req B P par t es" and ps: "length ps = num_nodes ?g" "\<forall>v < num_nodes ?g. ps ! v = par v"
      and x: "x = ls.weight ?req es" and time: "time = ls.arrival ?req (lcp_departure_time req) (rev es) - lcp_departure_time req"
      using res(2) by (auto simp: r sel)
    let ?path = "map (link_ident \<circ> link_at ?g) (rev es)"
    have gp: "gpath ?g u (rev es) t" using chain_gpath[OF ok sel(3) chain] by (simp add: sel)
    have "nonneg x" using ls.weight_nonneg[OF ls.chain_walk[OF chain]] x by simp
    then have fin: "x \<noteq> NaN" by auto
    have "follow_parents ?g ps t [] = Some (Inr (map (link_ident \<circ> link_at ?g) es))"
      using follow_parents_chain[OF ok sel(3) _ _ chain, of ps "[]"] ps tn by (simp add: sel(1))
    then have "extract_link_path ?g (lcp_to req) (lcp_from req) ps = Some (Inr (Some ?path))"
      using verify_path_ok[OF g kf kt u t gp] by (simp add: extract_link_path_def ends t rev_map Let_def)
    then have "calc_least_cost_path Q r req = Some (Some \<lparr>lcp_path = ?path, lcp_travel_time = time, lcp_travel_disutility = x\<rparr>)"
      using False fin res(1) ends t u by (simp add: calc_least_cost_path_def r)
    moreover have "drives net m (link_to kf) ?path (link_from kt) \<and> path_disutility net ?cost ?path = x"
      using gpath_drives[OF g gp, of _ _ ?cost] u t ids x by (auto simp: weight_gweight sel cost gweight_rev)
    moreover have "time = travel_until net (req_travel_time (as_costs r) req) (lcp_departure_time req) ?path - lcp_departure_time req"
      unfolding time using arrival_travel_until[OF g ok gp] by simp
    ultimately show ?thesis using to_gpath by (simp add: least_cost_result_def)
  qed
qed

end

section \<open>Routers\<close>

text \<open>The disutilities and travel times of a link do not depend on the time and are bounded.\<close>

definition static_costs :: "nat \<Rightarrow> travel_costs \<Rightarrow> least_cost_path_request \<Rightarrow> link \<Rightarrow> bool" where
  "static_costs B costs req l \<longleftrightarrow>
     (\<exists>c. nonneg c \<and> (\<forall>t. travel_disutility costs l t (lcp_person req) (lcp_vehicle req) = Some c)) \<and>
     (\<forall>t. \<exists>d \<le> B. travel_time costs l t (lcp_person req) (lcp_vehicle req) = Some d)"

definition h_at :: "a_star \<Rightarrow> nat \<Rightarrow> nat \<Rightarrow> xf64" where
  "h_at r t u = the (estimate (as_heuristic r) (projr (get_node_id_from_idx (as_graph r) u)) (projr (get_node_id_from_idx (as_graph r) t)))"

lemma routing_request_ok:
  assumes g: "graph_of net m (as_graph r)" and static: "\<forall>l \<in> mode_links net m. static_costs B (as_costs r) req l"
    and n: "u < num_nodes (as_graph r)" "t < num_nodes (as_graph r)"
    and time: "lcp_departure_time req + num_nodes (as_graph r) * B \<le> simtime_max"
    and h: "\<And>w. w < num_nodes (as_graph r) \<Longrightarrow> \<exists>x. estimate (as_heuristic r) (projr (get_node_id_from_idx (as_graph r) w))
        (projr (get_node_id_from_idx (as_graph r) t)) = Some (Fin x)"
    and consistent: "\<And>e. e < num_edges (as_graph r) \<Longrightarrow>
        h_at r t (src_at (as_graph r) e) \<le> req_disutility (as_costs r) req (link_at (as_graph r) e) + h_at r t (dst_at (as_graph r) e)"
  shows "req_ok B (routing_request r req u t)"
proof -
  let ?g = "as_graph r" and ?req = "routing_request r req u t"
  have ok: "graph_ok ?g" using g by (simp add: graph_of_def)
  have sel: "req_graph ?req = ?g" "req_from ?req = u" "req_options ?req = routing_actions_new t (num_nodes ?g)"
    "req_departure_time ?req = lcp_departure_time req" "e_src ?req e = src_at ?g e" "e_dst ?req e = dst_at ?g e" "e_link ?req e = link_at ?g e"
    "req_costs ?req = as_costs r" "req_person ?req = lcp_person req" "req_vehicle ?req = lcp_vehicle req" for e
    by (simp_all add: routing_request_def e_src_def src_at_def e_dst_def dst_at_def neighbour_of_def e_link_def link_at_def)
  have cost: "e_cost ?req e = req_disutility (as_costs r) req (link_at ?g e)" for e
    unfolding e_cost_def sel routing_actions_new_def req_disutility_def by simp
  have costs: "costs_ok B ?req e" if e: "e < num_edges ?g" for e
  proof -
    have "net_links net (link_ident (link_at ?g e)) = Some (link_at ?g e) \<and> for_mode m (link_at ?g e)"
      using g edge_facts(3)[OF ok e] e unfolding graph_of_def by blast
    then have "link_at ?g e \<in> mode_links net m" by (auto simp: mode_links_def ran_def)
    then have "static_costs B (as_costs r) req (link_at ?g e)" using static by blast
    then obtain c where "nonneg c" "\<And>t. travel_disutility (as_costs r) (link_at ?g e) t (lcp_person req) (lcp_vehicle req) = Some c"
      and "\<forall>t. \<exists>d \<le> B. travel_time (as_costs r) (link_at ?g e) t (lcp_person req) (lcp_vehicle req) = Some d"
      unfolding static_costs_def by blast
    moreover have "e_time ?req e s = the (travel_time (as_costs r) (link_at ?g e) s (lcp_person req) (lcp_vehicle req))" for s
      unfolding e_time_def sel routing_actions_new_def by simp
    ultimately show ?thesis
      unfolding costs_ok_def cost sel routing_actions_new_def req_disutility_def
      by auto (metis option.sel)+
  qed
  have ids: "get_node_id_from_idx ?g w = Inr (projr (get_node_id_from_idx ?g w))" if "w < num_nodes ?g" for w
    using that ok by (simp add: graph_ok_def get_node_id_from_idx_def)
  have est: "heuristic_estimate ?req (req_options ?req) w =
      Some (Inr (h_at r t w)) \<and> (\<exists>x. h_at r t w = Fin x)" if w: "w < num_nodes ?g" for w
  proof -
    have "heuristic_estimate ?req (req_options ?req) w = do {
        x \<leftarrow> estimate (as_heuristic r) (projr (get_node_id_from_idx ?g w)) (projr (get_node_id_from_idx ?g t));
        Some (Inr x) }"
    proof -
      obtain i j where "get_node_id_from_idx ?g w = Inr i" "get_node_id_from_idx ?g t = Inr j" using ids[OF w] ids[OF n(2)] by blast
      then show ?thesis by (simp add: heuristic_estimate_def routing_request_def routing_actions_new_def)
    qed
    then show ?thesis using h[OF w] by (auto simp: h_at_def)
  qed
  have nh: "Fin (n_h ?req w) = h_at r t w" if "w < num_nodes ?g" for w
    using est[OF that] by (auto simp: n_h_def estimate_of_def)
  have opts: "options_ok B ?req" using n(2) time by (simp add: options_ok_def sel routing_actions_new_def)
  show ?thesis
    unfolding req_ok_def sel(1,2)
  proof (intro conjI allI impI)
    show "\<exists>x. heuristic_estimate ?req (req_options ?req) w = Some (Inr (Fin x))" if "w < num_nodes ?g" for w using est[OF that] by auto
    show "Fin (n_h ?req (e_src ?req e)) \<le> e_cost ?req e + Fin (n_h ?req (e_dst ?req e))" if e: "e < num_edges ?g" for e
      using consistent[OF e] nh edge_facts(5,6)[OF ok e] by (simp add: cost sel)
  qed (use ok n(1) opts costs in auto)
qed

context keyed_queue
begin

text \<open>A router whose estimates are finite and never fall by more than the disutility of a link.\<close>

lemma router_correct:
  assumes inv: "net_inv net" and g: "convert_network_for_mode net m = Some (as_graph r)"
    and kf: "net_links net (lcp_from req) = Some kf" "for_mode m kf" and kt: "net_links net (lcp_to req) = Some kt" "for_mode m kt"
    and static: "\<forall>l \<in> mode_links net m. static_costs B (as_costs r) req l"
    and time: "lcp_departure_time req + card (dom (net_nodes net)) * B \<le> simtime_max"
    and h: "\<And>t w. w < num_nodes (as_graph r) \<Longrightarrow> t < num_nodes (as_graph r) \<Longrightarrow>
        \<exists>x. estimate (as_heuristic r) (projr (get_node_id_from_idx (as_graph r) w)) (projr (get_node_id_from_idx (as_graph r) t)) = Some (Fin x)"
    and consistent: "\<And>t e. t < num_nodes (as_graph r) \<Longrightarrow> e < num_edges (as_graph r) \<Longrightarrow>
        h_at r t (src_at (as_graph r) e) \<le> req_disutility (as_costs r) req (link_at (as_graph r) e) + h_at r t (dst_at (as_graph r) e)"
  shows "\<exists>res. calc_least_cost_path Q r req = Some res \<and> least_cost_result net m (as_costs r) req kf kt res"
proof -
  have go: "graph_of net m (as_graph r)" by (rule convert_graph_of[OF inv g])
  then have ok: "graph_ok (as_graph r)" by (simp add: graph_of_def)
  have nn: "num_nodes (as_graph r) = card (dom (net_nodes net))"
    using convert_graph_ok(2)[OF inv g] nodes_sorted(2,4)[OF inv] inv by (metis conv_ids_def distinct_card)
  have node: "\<exists>u. get_node_idx_from_id (as_graph r) i = Some u" if "i \<in> dom (net_nodes net)" for i
  proof -
    have "i \<in> set (node_id_by_index (as_graph r))" using that nodes_sorted(4)[OF inv] inv by (metis conv_ids_def convert_view[OF inv, of m] g option.inject)
    then obtain u where "list_get (node_id_by_index (as_graph r)) u = Some i" by (auto simp: in_set_conv_nth)
    then show ?thesis using ok by (auto simp: get_node_idx_from_id_def graph_ok_def)
  qed
  have "link_to kf \<in> dom (net_nodes net)" "link_from kt \<in> dom (net_nodes net)" using net_invD(2)[OF inv kf(1)] net_invD(2)[OF inv kt(1)] by auto
  then obtain u t where ut: "get_node_idx_from_id (as_graph r) (link_to kf) = Some u" "get_node_idx_from_id (as_graph r) (link_from kt) = Some t"
    using node by blast
  have n: "u < num_nodes (as_graph r)" "t < num_nodes (as_graph r)" using graph_ok_ids(2)[OF ok] ut by blast+
  have "req_ok B (routing_request r req u t)"
    using time by (intro routing_request_ok[OF go static n] h consistent n) (simp_all add: nn)
  then show ?thesis by (rule calc_correct[OF go kf kt ut])
qed

end

text \<open>
  C23. The Dijkstra router of a network finds what it promises: for links that allow the mode, it
  returns without a panic a sequence of connected links of the mode from the end of the one to the
  start of the other, whose disutility is the sum over its links and least among all such
  sequences, with the travel time of the sequence; it returns nothing exactly if every
  sequence has infinite disutility. Costs must keep the contract of \<open>TravelDisutility\<close>, not
  depend on the time, and the travel times must fit the clock.
\<close>

theorem dijkstra_finds_least_cost_path:
  assumes "keyed_queue Q entries" and inv: "net_inv net" and r: "a_star_new Q pick Dijkstra net m costs = Some (Inr r)"
    and kf: "net_links net (lcp_from req) = Some kf" "for_mode m kf" and kt: "net_links net (lcp_to req) = Some kt" "for_mode m kt"
    and static: "\<forall>l \<in> mode_links net m. static_costs B costs req l"
    and time: "lcp_departure_time req + card (dom (net_nodes net)) * B \<le> simtime_max"
  shows "\<exists>res. calc_least_cost_path Q r req = Some res \<and> least_cost_result net m costs req kf kt res"
proof -
  obtain g where g: "convert_network_for_mode net m = Some g" and r': "r = \<lparr>as_graph = g, as_heuristic = ZeroHeuristic, as_costs = costs\<rparr>"
    using r by (auto simp: a_star_new_def a_star_with_graph_def)
  have ok: "graph_of net m g" by (rule convert_graph_of[OF inv g])
  have "0 \<le> req_disutility costs req (link_at g e)" if "e < num_edges g" for e
  proof -
    have "link_at g e \<in> mode_links net m" using ok edge_facts(3)[of g e] that unfolding graph_of_def mode_links_def ran_def by blast
    then show ?thesis using static by (fastforce simp: static_costs_def req_disutility_def dest: nonneg_ge_zero)
  qed
  then have "Fin 0 \<le> req_disutility costs req (link_at g e) + Fin 0" if "e < num_edges g" for e
    using that by (simp add: zero_xf64_def[symmetric])
  then have "\<exists>res. calc_least_cost_path Q r req = Some res \<and> least_cost_result net m (as_costs r) req kf kt res"
    using g by (intro keyed_queue.router_correct[OF assms(1) inv _ kf kt _ time]) (simp_all add: r' static h_at_def)
  then show ?thesis by (simp add: r')
qed

definition ex_req :: least_cost_path_request where
  "ex_req = \<lparr>lcp_from = 4, lcp_to = 3, lcp_departure_time = 0, lcp_person = None, lcp_vehicle = None\<rparr>"

definition ex_router :: "heuristic \<Rightarrow> a_star" where
  "ex_router h = \<lparr>as_graph = ex_graph, as_heuristic = h, as_costs = FreeSpeedTravelTimeAndDisutility\<rparr>"

lemma ex_dijkstra: "calc_least_cost_path list_queue (ex_router ZeroHeuristic) ex_req =
   Some (Some \<lparr>lcp_path = [0, 1], lcp_travel_time = 2000000000, lcp_travel_disutility = Fin 2\<rparr>)"
  by code_simp

lemma ex_static: "l \<in> mode_links ex_net m \<Longrightarrow> static_costs 10000000000 FreeSpeedTravelTimeAndDisutility ex_req l"
  by (auto simp: mode_links_def ran_def ex_net_def static_costs_def FreeSpeedTravelTimeAndDisutility_def free_speed_travel_time_def
      ex_link_def link_new_def f64_div_def round_half_even_def nanos_per_second_def duration_max_def Let_def u64_max_def duration_as_secs_f64_def split: if_splits)

theorem dijkstra_finds_least_cost_path_witness:
  "least_cost_result ex_net (Some ''car'') FreeSpeedTravelTimeAndDisutility ex_req (ex_link 4 2 0 1) (ex_link 3 3 2 10)
     (Some \<lparr>lcp_path = [0, 1], lcp_travel_time = 2000000000, lcp_travel_disutility = Fin 2\<rparr>)"
proof -
  have r: "a_star_new list_queue pick Dijkstra ex_net (Some ''car'') FreeSpeedTravelTimeAndDisutility = Some (Inr (ex_router ZeroHeuristic))" for pick
    by (simp add: a_star_new_def a_star_with_graph_def ex_convert ex_router_def)
  have k: "net_links ex_net (lcp_from ex_req) = Some (ex_link 4 2 0 1)" "for_mode (Some ''car'') (ex_link 4 2 0 1)"
    "net_links ex_net (lcp_to ex_req) = Some (ex_link 3 3 2 10)" "for_mode (Some ''car'') (ex_link 3 3 2 10)"
    by (simp_all add: ex_net_def ex_req_def ex_link_def link_new_def for_mode_def contains_mode_def)
  have "dom (net_nodes ex_net) = {0, 1, 2, 3}" by (auto simp: ex_net_def split: if_splits)
  then have "lcp_departure_time ex_req + card (dom (net_nodes ex_net)) * 10000000000 \<le> simtime_max" by (simp add: ex_req_def simtime_max_def u64_max_def)
  then show ?thesis
    using dijkstra_finds_least_cost_path[OF list_queue.keyed_queue_axioms ex_net_inv r k] ex_static ex_dijkstra by auto
qed

section \<open>The ALT heuristic\<close>

text \<open>
  C24. The ALT heuristic overestimates on networks whose distances depend on the direction, and
  the router then misses the best path. The code combines the distances from a landmark and to a
  landmark the wrong way round: for the landmark 3 (the one that the seeded choice takes of four
  nodes) it estimates 12 from node 1 to node 3, which one link of disutility 1 connects, and
  returns the direct link of disutility 3 although a detour has disutility 2.
\<close>

theorem alt_misses_least_cost_path:
  "\<exists>r. a_star_new list_queue (\<lambda>_ _. [3]) Alt ex_net (Some ''car'') FreeSpeedTravelTimeAndDisutility = Some (Inr r) \<and>
     estimate (as_heuristic r) 1 3 = Some (Fin 12) \<and>
     drives ex_net (Some ''car'') 1 [1] 3 \<and> path_disutility ex_net (req_disutility FreeSpeedTravelTimeAndDisutility ex_req) [1] = Fin 1 \<and>
     calc_least_cost_path list_queue r ex_req = Some (Some \<lparr>lcp_path = [2], lcp_travel_time = 3000000000, lcp_travel_disutility = Fin 3\<rparr>) \<and>
     drives ex_net (Some ''car'') 0 [0, 1] 3 \<and> path_disutility ex_net (req_disutility FreeSpeedTravelTimeAndDisutility ex_req) [0, 1] = Fin 2"
proof -
  let ?rows = "[[(Fin 11, Fin 2), (Fin 12, Fin 1), (Fin 10, Fin 3), (Fin 0, Fin 0)]]"
  let ?data = "\<lparr>landmarks = [3], travel_disutilities_to_all = ?rows, node_id_to_idx = index_by_id [0, 1, 2, 3]\<rparr>"
  have rows: "calc_all_disutilities list_queue ex_graph FreeSpeedTravelTimeAndDisutility [3] = Some (Inr ?rows)"
    by code_simp
  have "calc_least_cost_path list_queue (ex_router (AltHeuristic ?data)) ex_req =
      Some (Some \<lparr>lcp_path = [2], lcp_travel_time = 3000000000, lcp_travel_disutility = Fin 3\<rparr>)"
    by code_simp
  moreover have "a_star_new list_queue (\<lambda>_ _. [3]) Alt ex_net (Some ''car'') FreeSpeedTravelTimeAndDisutility = Some (Inr (ex_router (AltHeuristic ?data)))"
    by (simp add: a_star_new_def a_star_with_graph_def ex_convert landmark_data_from_graph_def choose_landmarks_def rows ex_router_def Let_def)
      (simp add: ex_graph_def)
  moreover have "alt_estimate ?data 1 3 = Some (Fin 12)" by code_simp
  moreover have "drives ex_net (Some ''car'') 1 [1] 3" "drives ex_net (Some ''car'') 0 [0, 1] 3"
    by (simp_all add: ex_net_def ex_link_def link_new_def for_mode_def contains_mode_def)
  moreover have "path_disutility ex_net (req_disutility FreeSpeedTravelTimeAndDisutility ex_req) [1] = Fin 1"
    "path_disutility ex_net (req_disutility FreeSpeedTravelTimeAndDisutility ex_req) [0, 1] = Fin 2"
    by code_simp+
  ultimately show ?thesis by (intro exI[of _ "ex_router (AltHeuristic ?data)"]) (simp add: ex_router_def)
qed

text \<open>
  C25. Where the distances between any two nodes are the same in both directions, the ALT router
  finds a path of least disutility like the Dijkstra router, for every choice of landmarks.
\<close>

theorem alt_optimal_if_symmetric:
  assumes "keyed_queue Q entries" and inv: "net_inv net" and r: "a_star_new Q pick Alt net m costs = Some (Inr r)"
    and pick: "\<forall>n k. \<forall>L \<in> set (pick n k). L < n"
    and kf: "net_links net (lcp_from req) = Some kf" "for_mode m kf" and kt: "net_links net (lcp_to req) = Some kt" "for_mode m kt"
    and static: "\<forall>l \<in> mode_links net m. static_costs B costs req l"
    and min: "\<forall>l \<in> mode_links net m. \<exists>x. get_link_min_travel_disutility costs l = Some x \<and> nonneg x \<and> x \<le> req_disutility costs req l"
    and sym: "symmetric_distances (as_graph r) costs"
    and time: "lcp_departure_time req + card (dom (net_nodes net)) * B \<le> simtime_max"
  shows "\<exists>res. calc_least_cost_path Q r req = Some res \<and> least_cost_result net m costs req kf kt res"
proof -
  obtain g where g: "convert_network_for_mode net m = Some g" and "a_star_with_graph Q pick Alt costs g = Some (Inr r)"
    using r by (auto simp: a_star_new_def)
  have go: "graph_of net m g" by (rule convert_graph_of[OF inv g])
  then have ok: "graph_ok g" by (simp add: graph_of_def)
  have in_mode: "link_at g e \<in> mode_links net m" if "e < num_edges g" for e
    using go edge_facts(3)[OF ok that] that unfolding graph_of_def mode_links_def ran_def by blast
  have mins: "min_costs_ok costs g" using in_mode min edge_facts(3)[OF ok] by (fastforce simp: min_costs_ok_def)
  let ?ls = "choose_landmarks pick g"
  have ls: "\<forall>L \<in> set ?ls. L < num_nodes g" using pick by (auto simp: choose_landmarks_def Let_def)
  obtain rows where rows: "calc_all_disutilities Q g costs ?ls = Some (Inr rows)" "list_all2 (landmark_row_ok g costs) ?ls rows"
    using keyed_queue.all_disutilities_correct[OF assms(1) ok mins ls] by blast
  let ?data = "\<lparr>landmarks = ?ls, travel_disutilities_to_all = rows, node_id_to_idx = node_index_by_id g\<rparr>"
  have r': "r = \<lparr>as_graph = g, as_heuristic = AltHeuristic ?data, as_costs = costs\<rparr>"
    using \<open>a_star_with_graph Q pick Alt costs g = Some (Inr r)\<close> rows(1) by (simp add: a_star_with_graph_def landmark_data_from_graph_def Let_def)
  have sym': "symmetric_distances g costs" using sym by (simp add: r')
  note rs = rows_symmetric[OF ok mins rows(2) sym' ls]
  have id: "node_index_by_id g (projr (get_node_id_from_idx g w)) = Some w" if "w < num_nodes g" for w
    using that ok by (simp add: graph_ok_def get_node_id_from_idx_def)
  define F where "F t w = the (foldM (alt_landmark_bound w t) rows 0)" for t w
  have fold: "foldM (alt_landmark_bound w t) rows 0 = Some (F t w)" if wt: "w < num_nodes g" "t < num_nodes g" for w t
  proof -
    have "\<exists>x. foldM (alt_landmark_bound w t) rows 0 = Some x" by (rule alt_fold_total[OF _ wt]) (use rs(2) in blast)
    then show ?thesis by (auto simp: F_def)
  qed
  have est: "alt_estimate ?data (projr (get_node_id_from_idx g w)) (projr (get_node_id_from_idx g t)) = Some (Fin (max 0 (F t w)))"
    if "w < num_nodes g" "t < num_nodes g" for w t
    using id that fold by (simp add: alt_estimate_def max_def)
  have consistent: "h_at r t (src_at g e) \<le> req_disutility costs req (link_at g e) + h_at r t (dst_at g e)" if t: "t < num_nodes g" and e: "e < num_edges g" for t e
  proof -
    note f = edge_facts[OF ok e]
    have at: "h_at r t w = Fin (max 0 (F t w))" if "w < num_nodes g" for w using est[OF that t] by (simp add: h_at_def r')
    obtain k where k: "get_link_min_travel_disutility costs (link_at g e) = Some k" "nonneg k" "k \<le> req_disutility costs req (link_at g e)"
      using min in_mode[OF e] by blast
    have d: "nonneg (req_disutility costs req (link_at g e))" using static in_mode[OF e] by (fastforce simp: static_costs_def req_disutility_def)
    show ?thesis
    proof (cases "req_disutility costs req (link_at g e) = PosInf")
      case False
      then obtain c d' where c: "k = Fin c" "0 \<le> c" and d': "req_disutility costs req (link_at g e) = Fin d'" "c \<le> d'"
        using k(2,3) d by (auto elim!: nonnegE)
      have "F t (src_at g e) \<le> c + F t (dst_at g e)"
        using alt_consistent[OF ok mins rows(2) sym' ls e f(1,2,5,6) t, of c] k(1) c fold[OF f(5) t] fold[OF f(6) t] by (simp add: link_at_def)
      then show ?thesis using at f(5,6) d' c(2) by (auto simp: max_def)
    qed (use at f(5,6) in simp)
  qed
  have "\<exists>res. calc_least_cost_path Q r req = Some res \<and> least_cost_result net m (as_costs r) req kf kt res"
    by (rule keyed_queue.router_correct[OF assms(1) inv _ kf kt _ time]) (use g static est consistent in \<open>simp_all add: r'\<close>)
  then show ?thesis by (simp add: r')
qed

text \<open>A street of two nodes with a link in each direction.\<close>

lemma symmetric_if_reversible:
  assumes flip: "\<And>e. e < num_edges g \<Longrightarrow> flip e < num_edges g \<and> get_start_node_as_idx g (flip e) = get_end_node_as_idx g e \<and>
      get_end_node_as_idx g (flip e) = get_start_node_as_idx g e \<and> min_cost costs (link_at g (flip e)) = min_cost costs (link_at g e)"
  shows "symmetric_distances g costs"
proof -
  have rev: "gpath g v (rev (map flip es)) u \<and> gweight g (min_cost costs) (rev (map flip es)) = gweight g (min_cost costs) es" if "gpath g u es v" for u es v
    using that
  proof (induction es arbitrary: u)
    case (Cons e es)
    then obtain w where e: "e < num_edges g" "get_start_node_as_idx g e = Inr u" "get_end_node_as_idx g e = Inr w" "gpath g w es v" by auto
    then show ?case using Cons.IH[OF e(4)] flip[OF e(1)] by (simp add: gpath_append gweight_def link_at_def add.commute)
  qed simp
  have "least_disutility g (min_cost costs) v u x" if l: "least_disutility g (min_cost costs) u v x" for u v x
    using l rev unfolding least_disutility_def by metis
  then show ?thesis unfolding symmetric_distances_def by blast
qed

definition street_net :: network where
  "street_net = network_new\<lparr>net_nodes := [0 \<mapsto> ex_node 0 [1] [0], 1 \<mapsto> ex_node 1 [0] [1]],
     net_links := [0 \<mapsto> ex_link 0 0 1 1, 1 \<mapsto> ex_link 1 1 0 1]\<rparr>"

definition street_graph :: routing_graph where
  "street_graph = \<lparr>forward_graph = \<lparr>first_out = [0, 1, 2], head = [1, 0]\<rparr>, backward_graph = \<lparr>first_out = [0, 1, 2], head = [1, 0]\<rparr>,
     rg_network = street_net, node_index_by_id = index_by_id [0, 1], node_id_by_index = [0, 1],
     forward_link_id_by_index = [0, 1], backward_link_id_by_index = [1, 0],
     forward_link_index_by_id = index_by_id [0, 1], backward_link_index_by_id = index_by_id [1, 0]\<rparr>"

lemma street_inv: "net_inv street_net"
proof -
  have "outs_of street_net i = (if i = 0 then {0} else if i = 1 then {1} else {})" "ins_of street_net i = (if i = 0 then {1} else if i = 1 then {0} else {})" for i
    by (auto simp: outs_of_def ins_of_def street_net_def ex_link_def link_new_def split: if_splits)
  then show ?thesis
    by (simp add: net_inv_def) (auto simp: street_net_def ex_node_def ex_link_def node_new_def link_new_def split: if_splits)
qed

lemma street_convert: "convert_network_for_mode street_net None = Some street_graph"
proof -
  have dom: "dom (net_nodes street_net) = {0, 1}" by (auto simp: street_net_def split: if_splits)
  have nodes: "get_all_nodes_sorted street_net = [ex_node 0 [1] [0], ex_node 1 [0] [1]]"
    unfolding get_all_nodes_sorted_def dom by (simp add: street_net_def)
  have rows: "get_links [0] street_net None = Some [ex_link 0 0 1 1]" "get_links [1] street_net None = Some [ex_link 1 1 0 1]"
    by (simp_all add: get_links_def get_link_def street_net_def for_mode_def)
  have idx: "index_by_id [0::nat, 1] = [0 \<mapsto> 0, 1 \<mapsto> 1]" by (simp add: index_by_id_def)
  show ?thesis
    by (simp add: convert_network_for_mode_def nodes rows rows[simplified] convert_node_def conv_init_def ex_node_def node_new_def ex_link_def link_new_def
        graph_new_def street_graph_def idx idx[simplified] Let_def eval_nat_numeral)
qed

lemma street_links: "net_links street_net i = Some l \<longleftrightarrow> i = 0 \<and> l = ex_link 0 0 1 1 \<or> i = 1 \<and> l = ex_link 1 1 0 1"
  by (auto simp: street_net_def)

lemma ex_link_cost: "travel_disutility FreeSpeedTravelTimeAndDisutility (ex_link i u v 1) t p w = Some (Fin 1)"
  "travel_time FreeSpeedTravelTimeAndDisutility (ex_link i u v 1) t p w = Some 1000000000"
  "get_link_min_travel_disutility FreeSpeedTravelTimeAndDisutility (ex_link i u v 1) = Some (Fin 1)"
  by (simp_all add: FreeSpeedTravelTimeAndDisutility_def free_speed_travel_time_def ex_link_def link_new_def f64_div_def
      round_half_even_def nanos_per_second_def duration_max_def Let_def u64_max_def duration_as_secs_f64_def)

lemma street_symmetric: "symmetric_distances street_graph FreeSpeedTravelTimeAndDisutility"
proof (rule symmetric_if_reversible[of _ "\<lambda>e. 1 - e"])
  fix e assume "e < num_edges street_graph"
  then have "e = 0 \<or> e = 1" by (auto simp: num_edges_def street_graph_def)
  then show "1 - e < num_edges street_graph \<and> get_start_node_as_idx street_graph (1 - e) = get_end_node_as_idx street_graph e \<and>
      get_end_node_as_idx street_graph (1 - e) = get_start_node_as_idx street_graph e \<and>
      min_cost FreeSpeedTravelTimeAndDisutility (link_at street_graph (1 - e)) = min_cost FreeSpeedTravelTimeAndDisutility (link_at street_graph e)"
    by (auto simp: num_edges_def get_start_node_as_idx_def get_end_node_as_idx_def get_backward_link_index_def get_link_id_from_idx_def link_at_def
        get_link_from_idx_def graph_edge_def index_by_id_def street_graph_def list_get_def street_net_def ex_link_cost)
qed

definition last_node :: "nat \<Rightarrow> nat \<Rightarrow> nat list" where
  "last_node n k = (if n = 0 then [] else [n - 1])"

theorem alt_optimal_if_symmetric_witness:
  "\<exists>r res. a_star_new list_queue last_node Alt street_net None FreeSpeedTravelTimeAndDisutility = Some (Inr r) \<and>
     calc_least_cost_path list_queue r (ex_req\<lparr>lcp_from := 0, lcp_to := 0\<rparr>) = Some res \<and>
     least_cost_result street_net None FreeSpeedTravelTimeAndDisutility (ex_req\<lparr>lcp_from := 0, lcp_to := 0\<rparr>) (ex_link 0 0 1 1) (ex_link 0 0 1 1) res"
proof -
  let ?req = "ex_req\<lparr>lcp_from := 0, lcp_to := 0\<rparr>"
  let ?data = "\<lparr>landmarks = [1], travel_disutilities_to_all = [[(Fin 1, Fin 1), (Fin 0, Fin 0)]], node_id_to_idx = index_by_id [0, 1]\<rparr>"
  let ?r = "\<lparr>as_graph = street_graph, as_heuristic = AltHeuristic ?data, as_costs = FreeSpeedTravelTimeAndDisutility\<rparr>"
  have "calc_all_disutilities list_queue street_graph FreeSpeedTravelTimeAndDisutility [1] = Some (Inr [[(Fin 1, Fin 1), (Fin 0, Fin 0)]])"
    by code_simp
  moreover have "num_nodes street_graph = 2" "node_index_by_id street_graph = index_by_id [0, 1]" by (simp_all add: num_nodes_def street_graph_def)
  ultimately have r: "a_star_new list_queue last_node Alt street_net None FreeSpeedTravelTimeAndDisutility = Some (Inr ?r)"
    by (simp add: a_star_new_def a_star_with_graph_def street_convert landmark_data_from_graph_def choose_landmarks_def last_node_def Let_def)
  have modes: "l = ex_link 0 0 1 1 \<or> l = ex_link 1 1 0 1" if "l \<in> mode_links street_net None" for l
    using that by (auto simp: mode_links_def ran_def street_links)
  have pick: "\<forall>n k. \<forall>L \<in> set (last_node n k). L < n" by (simp add: last_node_def)
  have k: "net_links street_net (lcp_from ?req) = Some (ex_link 0 0 1 1)" "for_mode None (ex_link 0 0 1 1)" "net_links street_net (lcp_to ?req) = Some (ex_link 0 0 1 1)"
    by (simp_all add: street_net_def for_mode_def)
  have static: "\<forall>l \<in> mode_links street_net None. static_costs 1000000000 FreeSpeedTravelTimeAndDisutility ?req l"
    using modes by (fastforce simp: static_costs_def ex_link_cost)
  have min: "\<forall>l \<in> mode_links street_net None. \<exists>x. get_link_min_travel_disutility FreeSpeedTravelTimeAndDisutility l = Some x \<and> nonneg x \<and>
      x \<le> req_disutility FreeSpeedTravelTimeAndDisutility ?req l"
    using modes by (fastforce simp: req_disutility_def ex_link_cost)
  have "dom (net_nodes street_net) = {0, 1}" by (auto simp: street_net_def split: if_splits)
  then have time: "lcp_departure_time ?req + card (dom (net_nodes street_net)) * 1000000000 \<le> simtime_max" by (simp add: ex_req_def simtime_max_def u64_max_def)
  have sym: "symmetric_distances (as_graph ?r) FreeSpeedTravelTimeAndDisutility" using street_symmetric by simp
  show ?thesis
    using alt_optimal_if_symmetric[OF list_queue.keyed_queue_axioms street_inv r pick k(1,2,3,2) static min sym time] r by blast
qed

end
