(* ===== verification/Router_Paths.thy ===== *)
theory Router_Paths
  imports A_Star
begin

text \<open>
  What holds of the router (\<open>replanning/routing/a_star.rs\<close>) with every heuristic, also one that is
  not consistent: a path that it returns is a chain of links that the mode may drive from the end
  of the first link to the start of the last one.
\<close>

section \<open>Parent links of a search\<close>

definition parents_ok :: "routing_graph \<Rightarrow> nat option list \<Rightarrow> bool" where
  "parents_ok g ps \<longleftrightarrow> (\<forall>v e. list_get ps v = Some (Some e) \<longrightarrow> get_end_node_as_idx g e = Inr v)"

fun actions_ok :: "routing_graph \<Rightarrow> a_star_actions \<Rightarrow> bool" where
  "actions_ok g LandmarkCalcAStarActions \<longleftrightarrow> True"
| "actions_ok g (RoutingAStarActions r) \<longleftrightarrow> parents_ok g (parent_links r)"

lemma actions_ok_parent:
  assumes "set_parent_link_opt v e opts = Some opts'" and "actions_ok g opts" and "get_end_node_as_idx g e = Inr v"
  shows "actions_ok g opts'"
  using assms by (cases opts) (auto simp: parents_ok_def list_set_def nth_list_update split: if_splits)

lemma actions_ok_time: "set_arrival_time_opt n t opts = Some opts' \<Longrightarrow> actions_ok g opts \<Longrightarrow> actions_ok g opts'"
  by (cases opts) auto

lemma actions_ok_neighbour_time:
  "set_arrival_time_at_neighbour_opt req c n l opts = Some opts' \<Longrightarrow> actions_ok g opts \<Longrightarrow> actions_ok g opts'"
  by (cases opts) (auto dest: actions_ok_time)

lemma bind_res_Inr: "bind_res m f = Some (Inr y) \<longleftrightarrow> (\<exists>x. m = Some (Inr x) \<and> f x = Some (Inr y))"
  by (cases m) (auto simp: bind_res_def try_res_def split: sum.splits)

lemma try_res_Inr: "try_res m f = Some (Inr y) \<longleftrightarrow> (\<exists>x. m = Inr x \<and> f x = Some (Inr y))"
  by (cases m) (auto simp: try_res_def)

lemma scan_edge_actions:
  assumes "scan_edge Q req current d i s = Some (Inr s')" and "\<not> req_backward req" and "actions_ok (req_graph req) (s_options s)"
  shows "actions_ok (req_graph req) (s_options s')"
  using assms
  by (auto simp: scan_edge_def update_neighbour_def try_res_Inr bind_res_Inr neighbour_of_def
      split: if_splits
      dest!: actions_ok_neighbour_time[where g = "req_graph req"]) (meson actions_ok_parent)

lemma fold_res_inv:
  assumes "fold_res f xs s = Some (Inr t)" and "P s" and "\<And>x s s'. f x s = Some (Inr s') \<Longrightarrow> P s \<Longrightarrow> P s'"
  shows "P t"
  using assms by (induction xs arbitrary: s) (auto simp: bind_res_Inr)

lemma search_loop_parents:
  assumes "search_loop Q req s = Some (Inr (SingleDisutilWithParents d t ps))"
    and "\<not> req_backward req" and "actions_ok (req_graph req) (s_options s)"
  shows "parents_ok (req_graph req) ps"
proof -
  have "\<forall>d t ps. r = Inr (SingleDisutilWithParents d t ps) \<longrightarrow> \<not> req_backward req \<longrightarrow>
      actions_ok (req_graph req) (s_options s) \<longrightarrow> parents_ok (req_graph req) ps"
    if "search_loop Q req s = Some r" for r
    using that
  proof (induction rule: search_loop.raw_induct[rotated, consumes 1])
    case (1 rec Q req s r)
    show ?case
    proof (cases "q_pop Q (s_queue s)")
      case None
      then show ?thesis using "1.hyps" by (cases "s_options s") (auto simp: result_of_def)
    next
      case (Some x)
      obtain current p q where x: "x = ((current, p), q)" by (metis surj_pair)
      obtain d0 where d0: "list_get (s_disutilities s) current = Some d0" using "1.hyps" Some x by (auto split: if_splits)
      show ?thesis
      proof (cases "d0 = PosInf \<or> d0 = NaN \<or> reached_end (s_options s) current")
        case True
        then have "result_of req (Some d0) s = Some r" using "1.hyps" Some x d0 by auto
        then show ?thesis by (cases "s_options s") (auto simp: result_of_def)
      next
        case False
        then obtain es r' where es: "fold_res (scan_edge Q req current d0) es (s\<lparr>s_queue := q\<rparr>) = Some r'"
          "(case r' of Inl e \<Rightarrow> Some (Inl e) | Inr s' \<Rightarrow> rec Q req s') = Some r"
          using "1.hyps" Some x d0 by auto
        show ?thesis
        proof (cases r')
          case (Inr s')
          have "actions_ok (req_graph req) (s_options s')" if "actions_ok (req_graph req) (s_options s)" "\<not> req_backward req"
            using that(1) by (intro fold_res_inv[OF es(1)[unfolded Inr], of "\<lambda>s. actions_ok (req_graph req) (s_options s)"])
              (simp, rule scan_edge_actions[OF _ that(2)])
          then show ?thesis using "1.IH"[of Q req s' r] es(2) Inr by auto
        qed (use es(2) in auto)
      qed
    qed
  qed
  then show ?thesis using assms by blast
qed

lemma a_star_core_parents:
  assumes "a_star_core Q (routing_request r req u t) = Some (Inr (SingleDisutilWithParents d a ps))"
  shows "parents_ok (as_graph r) ps"
proof -
  let ?req = "routing_request r req u t"
  obtain q ds opts where opts: "set_arrival_time_opt (req_from ?req) (req_departure_time ?req) (req_options ?req) = Some opts"
    and loop: "search_loop Q ?req \<lparr>s_queue = q, s_disutilities = ds, s_options = opts\<rparr> = Some (Inr (SingleDisutilWithParents d a ps))"
    using assms by (auto simp: a_star_core_def Let_def split: prod.splits)
  have "actions_ok (req_graph ?req) (req_options ?req)"
    by (auto simp: routing_request_def routing_actions_new_def parents_ok_def)
  then have "actions_ok (req_graph ?req) opts" by (rule actions_ok_time[OF opts])
  then have "parents_ok (req_graph ?req) ps" using search_loop_parents[OF loop] by (simp add: routing_request_def)
  then show ?thesis by (simp add: routing_request_def)
qed

section \<open>Paths of the router\<close>

lemma follow_parents_path:
  assumes "follow_parents g ps t acc = Some (Inr path)" and "parents_ok g ps" and "graph_ok g"
  shows "\<exists>u es. path = acc @ map (link_ident \<circ> link_at g) es \<and> gpath g u (rev es) t"
proof -
  have "\<forall>path. r = Inr path \<longrightarrow> parents_ok g ps \<longrightarrow> graph_ok g \<longrightarrow>
      (\<exists>u es. path = acc @ map (link_ident \<circ> link_at g) es \<and> gpath g u (rev es) t)"
    if "follow_parents g ps t acc = Some r" for r
    using that
  proof (induction rule: follow_parents.raw_induct[rotated, consumes 1])
    case (1 rec g ps t acc r)
    show ?case
    proof (intro allI impI)
      fix path assume r: "r = Inr path" and ps: "parents_ok g ps" and g: "graph_ok g"
      obtain parent where parent: "list_get ps t = Some parent" using "1.hyps" by (auto split: if_splits)
      show "\<exists>u es. path = acc @ map (link_ident \<circ> link_at g) es \<and> gpath g u (rev es) t"
      proof (cases parent)
        case None
        then show ?thesis using "1.hyps" parent r by (intro exI[of _ t] exI[of _ "[]"]) auto
      next
        case (Some e)
        have e: "get_end_node_as_idx g e = Inr t" using ps parent Some by (auto simp: parents_ok_def simp del: list_get_eq)
        then have n: "e < num_edges g" by (simp add: get_end_node_as_idx_def num_edges_def)
        note f = edge_facts[OF g n]
        have "rec g ps (src_at g e) (acc @ [link_ident (link_at g e)]) = Some r"
          using "1.hyps" parent Some f(1,4) by simp
        from "1.IH"[OF this] obtain u es where "path = (acc @ [link_ident (link_at g e)]) @ map (link_ident \<circ> link_at g) es"
          "gpath g u (rev es) (src_at g e)" using r ps g by blast
        then show ?thesis using e n f(1)
          by (intro exI[of _ u] exI[of _ "e # es"]) (auto simp: gpath_append)
      qed
    qed
  qed
  then show ?thesis using assms by blast
qed

lemma mode_link_of_graph:
  assumes g: "graph_of net m g" and e: "e < num_edges g"
  shows "net_links net (link_ident (link_at g e)) = Some (link_at g e)" and "for_mode m (link_at g e)"
  using g edge_facts(3)[of g e] e unfolding graph_of_def by blast+

lemma get_start_node_link:
  assumes g: "graph_of net m g" and "get_start_node g l = Inr n"
  obtains k where "net_links net l = Some k" and "for_mode m k" and "link_from k = n"
proof -
  have ok: "graph_ok g" using g by (simp add: graph_of_def)
  obtain e where "forward_link_index_by_id g l = Some e"
    using assms(2) by (auto simp: get_start_node_def get_link_idx_from_id_def split: sum.splits)
  then have e: "e < num_edges g" "get_link_id_from_idx g e = Inr l" using ok by (auto simp: graph_ok_def)
  note f = edge_facts[OF ok e(1)]
  show thesis using that mode_link_of_graph[OF g e(1)] f(4,11) e(2) assms(2) by auto
qed

lemma get_end_node_link:
  assumes g: "graph_of net m g" and "get_end_node g l = Some (Inr n)"
  obtains k where "net_links net l = Some k" and "for_mode m k" and "link_to k = n"
proof -
  have ok: "graph_ok g" using g by (simp add: graph_of_def)
  obtain e where "forward_link_index_by_id g l = Some e"
    using assms(2) by (auto simp: get_end_node_def get_link_idx_from_id_def try_res_Inr)
  then have e: "e < num_edges g" "get_link_id_from_idx g e = Inr l" using ok by (auto simp: graph_ok_def)
  note f = edge_facts[OF ok e(1)]
  show thesis using that mode_link_of_graph[OF g e(1)] f(4,12) e(2) assms(2) by auto
qed

lemma gpath_first: "gpath g u es v \<Longrightarrow> es \<noteq> [] \<Longrightarrow> hd es < num_edges g \<and> get_start_node_as_idx g (hd es) = Inr u"
  by (cases es) auto

lemma router_path:
  assumes g: "graph_of net m (as_graph r)" and res: "calc_least_cost_path Q r req = Some (Some p)"
  shows "\<exists>kf kt. net_links net (lcp_from req) = Some kf \<and> for_mode m kf \<and> net_links net (lcp_to req) = Some kt \<and> for_mode m kt \<and>
    drives net m (link_to kf) (lcp_path p) (link_from kt)"
proof -
  let ?g = "as_graph r"
  have ok: "graph_ok ?g" using g by (simp add: graph_of_def)
  obtain nt it nf fi d t ps where nt: "get_start_node ?g (lcp_to req) = Inr nt" "get_node_idx_from_id ?g nt = Some it"
    and nf: "get_end_node ?g (lcp_from req) = Some (Inr nf)"
    and core: "a_star_core Q (routing_request r req fi it) = Some (Inr (SingleDisutilWithParents d t ps))"
    and path: "extract_link_path ?g (lcp_to req) (lcp_from req) ps = Some (Inr (Some (lcp_path p)))"
    using res by (auto simp: calc_least_cost_path_def split: sum.splits a_star_core_result.splits if_splits option.splits)
  obtain kt where kt: "net_links net (lcp_to req) = Some kt" "for_mode m kt" "link_from kt = nt" by (rule get_start_node_link[OF g nt(1)])
  obtain kf where kf: "net_links net (lcp_from req) = Some kf" "for_mode m kf" "link_to kf = nf" by (rule get_end_node_link[OF g nf])
  obtain ls where ls: "follow_parents ?g ps it [] = Some (Inr ls)" "lcp_path p = rev ls"
    and ver: "verify_path ?g (rev ls) (lcp_from req) (lcp_to req) = Some (Inr True)"
    using path nt by (auto simp: extract_link_path_def try_res_Inr bind_res_Inr Let_def split: if_splits)
  obtain u es where es: "ls = map (link_ident \<circ> link_at ?g) es" "gpath ?g u (rev es) it"
    using follow_parents_path[OF ls(1) a_star_core_parents[OF core] ok] by auto
  have it: "get_node_id_from_idx ?g it = Inr nt" using graph_ok_ids(1)[OF ok] nt(2) by simp
  have "drives net m nf (lcp_path p) nt"
  proof (cases "es = []")
    case True
    then show ?thesis using ver nf nt(1) ls(2) es(1) by (simp add: verify_path_def bind_res_Inr try_res_Inr)
  next
    case False
    then have h: "hd (rev es) < num_edges ?g" "get_start_node_as_idx ?g (hd (rev es)) = Inr u"
      using gpath_first[OF es(2)] by auto
    note f = edge_facts[OF ok h(1)]
    have "hd (rev ls) = link_ident (link_at ?g (hd (rev es)))" using False es(1) by (simp add: hd_rev last_map)
    then have "link_from (link_at ?g (hd (rev es))) = nf"
      using ver nf nt(1) f(11) False es(1) by (auto simp: verify_path_def bind_res_Inr try_res_Inr)
    then have "get_node_id_from_idx ?g u = Inr nf" using f(1,7) h(2) by simp
    from gpath_drives[OF g es(2) this it] show ?thesis using ls(2) es(1) by (simp add: rev_map)
  qed
  then show ?thesis using kf kt by auto
qed

text \<open>
  C26. Whatever the heuristic, a path that the router returns leads over links that allow the mode,
  each beginning where the one before ends, from the end of the first link to the start of the
  last one, and both of these allow the mode.
\<close>

theorem router_returns_drivable_path:
  assumes "net_inv net" and "a_star_new Q pick kind net m costs = Some (Inr r)"
    and "calc_least_cost_path Q r req = Some (Some p)"
  shows "\<exists>kf kt. net_links net (lcp_from req) = Some kf \<and> for_mode m kf \<and> net_links net (lcp_to req) = Some kt \<and> for_mode m kt \<and>
    drives net m (link_to kf) (lcp_path p) (link_from kt)"
proof -
  obtain g where g: "convert_network_for_mode net m = Some g" "as_graph r = g"
    using assms(2) by (auto simp: a_star_new_def a_star_with_graph_def bind_res_Inr)
  show ?thesis using router_path[OF _ assms(3)] convert_graph_of[OF assms(1) g(1)] g(2) by simp
qed

theorem router_returns_drivable_path_witness:
  "drives ex_net (Some ''car'') 0 [0, 1] 3"
proof -
  have r: "a_star_new list_queue (\<lambda>_ _. []) Dijkstra ex_net (Some ''car'') FreeSpeedTravelTimeAndDisutility = Some (Inr (ex_router ZeroHeuristic))"
    by (simp add: a_star_new_def a_star_with_graph_def ex_convert ex_router_def)
  have k: "net_links ex_net (lcp_from ex_req) = Some (ex_link 4 2 0 1)" "net_links ex_net (lcp_to ex_req) = Some (ex_link 3 3 2 10)"
    by (simp_all add: ex_net_def ex_req_def)
  from router_returns_drivable_path[OF ex_net_inv r ex_dijkstra] show ?thesis using k by (simp add: ex_link_def link_new_def)
qed

end
