(* ===== verification/Facilities.thy ===== *)
theory Facilities
  imports Net_Graph
begin

text \<open>
  Coordinates (\<open>scenario/mod.rs\<close>) and facilities (\<open>scenario/facilities.rs\<close>), the ends of a trip that
  is to be routed, and the nearest point on a link (\<open>scenario/network.rs\<close>).

  The square root of \<open>f64\<close> is the parameter \<open>sq\<close>. A coordinate that is not a number, as the
  projection on a line through one point twice, is \<open>None\<close>.
\<close>

section \<open>Coordinates\<close>

definition new_3d :: "f64 \<Rightarrow> f64 \<Rightarrow> f64 \<Rightarrow> coordinate" where
  "new_3d x y z = \<lparr>coord_x = x, coord_y = y, coord_z = z\<rparr>"

definition euclidean_distance :: "(f64 \<Rightarrow> f64) \<Rightarrow> coordinate \<Rightarrow> coordinate \<Rightarrow> f64" where
  "euclidean_distance sq a b =
     (let dx = coord_x a - coord_x b; dy = coord_y a - coord_y b; dz = coord_z a - coord_z b
      in sq (dx * dx + dy * dy + dz * dz))"

definition middle :: "coordinate \<Rightarrow> coordinate \<Rightarrow> coordinate" where
  "middle a b = new_3d ((coord_x a + coord_x b) / 2) ((coord_y a + coord_y b) / 2) ((coord_z a + coord_z b) / 2)"

definition orthogonal_projection :: "coordinate \<Rightarrow> coordinate \<Rightarrow> coordinate \<Rightarrow> coordinate option" where
  "orthogonal_projection point line_from line_to =
     (let dx = coord_x line_to - coord_x line_from;
          dy = coord_y line_to - coord_y line_from;
          dz = coord_z line_to - coord_z line_from;
          d = dx * dx + dy * dy + dz * dz;
          t = ((coord_x point - coord_x line_from) * dx + (coord_y point - coord_y line_from) * dy
               + (coord_z point - coord_z line_from) * dz) / d
      in if d = 0 then None
         else Some (new_3d (coord_x line_from + t * dx) (coord_y line_from + t * dy) (coord_z line_from + t * dz)))"

text \<open>The outer option is the panic of a link or node that does not exist.\<close>

definition find_nearest_point_on_link :: "coordinate option \<Rightarrow> link_id \<Rightarrow> network \<Rightarrow> coordinate option option" where
  "find_nearest_point_on_link coord l net = do {
     k \<leftarrow> get_link net l;
     from_node \<leftarrow> get_node net (link_from k);
     to_node \<leftarrow> get_node net (link_to k);
     Some (do { c \<leftarrow> coord; orthogonal_projection c (node_coord from_node) (node_coord to_node) }) }"

text \<open>The projection lies on the line, and the vector from it to the point is orthogonal to the line.\<close>

definition dot :: "coordinate \<Rightarrow> coordinate \<Rightarrow> coordinate \<Rightarrow> coordinate \<Rightarrow> f64" where
  "dot a b c d = (coord_x b - coord_x a) * (coord_x d - coord_x c) + (coord_y b - coord_y a) * (coord_y d - coord_y c)
     + (coord_z b - coord_z a) * (coord_z d - coord_z c)"

lemma sum_squares_zero: "(x * x + y * y + z * z = 0) = (x = 0 \<and> y = 0 \<and> z = (0::f64))"
  by (metis add_nonneg_eq_0_iff mult_eq_0_iff zero_le_square add_nonneg_nonneg)

lemma projection_orthogonal:
  assumes "orthogonal_projection p a b = Some q"
  shows "dot q p a b = 0" and "\<exists>t. coord_x q = coord_x a + t * (coord_x b - coord_x a) \<and>
    coord_y q = coord_y a + t * (coord_y b - coord_y a) \<and> coord_z q = coord_z a + t * (coord_z b - coord_z a)"
proof -
  define dx dy dz where d: "dx = coord_x b - coord_x a" "dy = coord_y b - coord_y a" "dz = coord_z b - coord_z a"
  define t where "t = ((coord_x p - coord_x a) * dx + (coord_y p - coord_y a) * dy + (coord_z p - coord_z a) * dz) / (dx * dx + dy * dy + dz * dz)"
  have ne: "dx * dx + dy * dy + dz * dz \<noteq> 0" and q: "q = new_3d (coord_x a + t * dx) (coord_y a + t * dy) (coord_z a + t * dz)"
    using assms by (auto simp: orthogonal_projection_def Let_def d t_def split: if_splits)
  have "t * (dx * dx + dy * dy + dz * dz) = (coord_x p - coord_x a) * dx + (coord_y p - coord_y a) * dy + (coord_z p - coord_z a) * dz"
    using ne by (simp add: t_def)
  then show "dot q p a b = 0" unfolding dot_def d[symmetric] q new_3d_def by (simp add: algebra_simps)
  show "\<exists>t. coord_x q = coord_x a + t * (coord_x b - coord_x a) \<and>
    coord_y q = coord_y a + t * (coord_y b - coord_y a) \<and> coord_z q = coord_z a + t * (coord_z b - coord_z a)"
    unfolding d[symmetric] q new_3d_def by auto
qed

lemma projection_undefined: "orthogonal_projection p a b = None \<longleftrightarrow> a = b"
  by (cases a; cases b) (auto simp: orthogonal_projection_def Let_def sum_squares_zero)

section \<open>Facilities\<close>

datatype open_day = Mon | Tue | Wed | Thu | Fri | Sat | Sun | Wkday | Wkend | Wk

record opening_time =
  ot_day :: open_day
  ot_start_time :: sim_time
  ot_end_time :: sim_time

record activity_option =
  ao_activity_type :: string
  ao_capacity :: "f64 option"
  ao_open_times :: "opening_time list"

record activity_facility =
  af_id :: string
  af_coord :: "coordinate option"
  af_link_id :: link_id
  af_mode_to_link :: "mode \<rightharpoonup> link_id"
  af_desc :: "string option"
  af_activities :: "activity_option list"
  af_attributes :: internal_attributes

record link_wrapper_facility =
  lw_coord :: "coordinate option"
  lw_link_id :: link_id
  lw_mode_to_link :: "mode \<rightharpoonup> link_id"

record transit_stop_facility =
  ts_id :: string
  ts_coord :: "coordinate option"
  ts_link_ref_id :: "link_id option"

datatype facility =
    LinkWrapperFacility link_wrapper_facility
  | ActivityFacility activity_facility
  | TransitFacility transit_stop_facility

fun facility_coord :: "facility \<Rightarrow> coordinate option" where
  "facility_coord (LinkWrapperFacility f) = lw_coord f"
| "facility_coord (ActivityFacility f) = af_coord f"
| "facility_coord (TransitFacility f) = ts_coord f"

text \<open>\<open>None\<close> is the panic of a transit facility without a link.\<close>

fun facility_link :: "facility \<Rightarrow> link_id option" where
  "facility_link (LinkWrapperFacility f) = Some (lw_link_id f)"
| "facility_link (ActivityFacility f) = Some (af_link_id f)"
| "facility_link (TransitFacility f) = ts_link_ref_id f"

fun modal_link :: "mode \<Rightarrow> facility \<Rightarrow> link_id option" where
  "modal_link m (LinkWrapperFacility f) = lw_mode_to_link f m"
| "modal_link m (ActivityFacility f) = af_mode_to_link f m"
| "modal_link m (TransitFacility _) = None"

definition wrapper_of_activity :: "activity_facility \<Rightarrow> link_wrapper_facility" where
  "wrapper_of_activity f = \<lparr>lw_coord = af_coord f, lw_link_id = af_link_id f, lw_mode_to_link = af_mode_to_link f\<rparr>"

definition wrapper_of_transit :: "transit_stop_facility \<Rightarrow> link_wrapper_facility option" where
  "wrapper_of_transit f = do {
     l \<leftarrow> ts_link_ref_id f;
     Some \<lparr>lw_coord = ts_coord f, lw_link_id = l, lw_mode_to_link = Map.empty\<rparr> }"

definition new_link_wrapper_from :: "facility \<Rightarrow> coordinate option \<Rightarrow> facility option" where
  "new_link_wrapper_from fac coordinate = do {
     f \<leftarrow> (case fac of
             LinkWrapperFacility f \<Rightarrow> Some f
           | ActivityFacility f \<Rightarrow> Some (wrapper_of_activity f)
           | TransitFacility f \<Rightarrow> wrapper_of_transit f);
     Some (LinkWrapperFacility (f\<lparr>lw_coord := coordinate\<rparr>)) }"

definition new_link_wrapper :: "coordinate \<Rightarrow> link_id \<Rightarrow> facility" where
  "new_link_wrapper coord l = LinkWrapperFacility \<lparr>lw_coord = Some coord, lw_link_id = l, lw_mode_to_link = Map.empty\<rparr>"

text \<open>The link at which a mode leaves or enters the network.\<close>

definition mode_link :: "mode \<Rightarrow> facility \<Rightarrow> link_id option" where
  "mode_link m f = (case modal_link m f of Some l \<Rightarrow> Some l | None \<Rightarrow> facility_link f)"

lemma wrapper_from_simps:
  assumes "new_link_wrapper_from f c = Some g"
  shows "facility_coord g = c" and "facility_link g = facility_link f" and "modal_link m g = modal_link m f"
    and "mode_link m g = mode_link m f"
proof -
  show c: "facility_coord g = c" and l: "facility_link g = facility_link f"
    using assms by (cases f; auto simp: new_link_wrapper_from_def wrapper_of_activity_def wrapper_of_transit_def)+
  show m: "modal_link m g = modal_link m f"
    using assms by (cases f; auto simp: new_link_wrapper_from_def wrapper_of_activity_def wrapper_of_transit_def)
  show "mode_link m g = mode_link m f" unfolding mode_link_def m l ..
qed

lemma new_link_wrapper_simps [simp]:
  "facility_coord (new_link_wrapper c l) = Some c" "facility_link (new_link_wrapper c l) = Some l"
  "mode_link m (new_link_wrapper c l) = Some l"
  by (simp_all add: new_link_wrapper_def mode_link_def)

section \<open>The facilities of a file\<close>

record io_open_time =
  io_day :: open_day
  io_start_time :: string
  io_end_time :: string

record io_facility_activity =
  io_activity_type :: string
  io_capacity :: "f64 option"
  io_open_times :: "io_open_time list"

record io_facility =
  io_id :: string
  io_x :: "f64 option"
  io_y :: "f64 option"
  io_z :: "f64 option"
  io_link_id :: "string option"
  io_desc :: "string option"
  io_activities :: "io_facility_activity list"
  io_attributes :: "internal_attributes option"

record activity_facilities =
  fs_facilities :: "string \<rightharpoonup> activity_facility"
  fs_name :: "string option"
  fs_attributes :: internal_attributes

record io_facilities =
  io_fs_name :: "string option"
  io_fs_attributes :: "internal_attributes option"
  io_facilities :: "io_facility list"

definition unwrap_or_default :: "internal_attributes option \<Rightarrow> internal_attributes" where
  "unwrap_or_default a = (case a of None \<Rightarrow> Map.empty | Some a \<Rightarrow> a)"

definition facilities_new :: "string option \<Rightarrow> internal_attributes \<Rightarrow> activity_facilities" where
  "facilities_new name attributes = \<lparr>fs_facilities = Map.empty, fs_name = name, fs_attributes = attributes\<rparr>"

definition add_facility :: "activity_facility \<Rightarrow> activity_facilities \<Rightarrow> activity_facilities option" where
  "add_facility f fs = do {
     _ \<leftarrow> ensure (fs_facilities fs (af_id f) = None);
     Some (fs\<lparr>fs_facilities := (fs_facilities fs)(af_id f \<mapsto> f)\<rparr>) }"

definition facilities_get :: "string \<Rightarrow> activity_facilities \<Rightarrow> activity_facility option" where
  "facilities_get i fs = fs_facilities fs i"

definition parse_open_time :: "string \<Rightarrow> sim_time option" where
  "parse_open_time v = (case simtime_parse v of Inl _ \<Rightarrow> None | Inr t \<Rightarrow> Some t)"

definition opening_time_from_io :: "io_open_time \<Rightarrow> opening_time option" where
  "opening_time_from_io io = do {
     s \<leftarrow> parse_open_time (io_start_time io);
     e \<leftarrow> parse_open_time (io_end_time io);
     Some \<lparr>ot_day = io_day io, ot_start_time = s, ot_end_time = e\<rparr> }"

definition activity_option_from_io :: "io_facility_activity \<Rightarrow> activity_option option" where
  "activity_option_from_io io = do {
     ts \<leftarrow> mapM opening_time_from_io (io_open_times io);
     Some \<lparr>ao_activity_type = io_activity_type io, ao_capacity = io_capacity io, ao_open_times = ts\<rparr> }"

text \<open>The id store turns the text of a link into its id; it is the parameter \<open>link_of\<close>.\<close>

definition facility_from_io :: "(string \<Rightarrow> link_id) \<Rightarrow> io_facility \<Rightarrow> activity_facility option" where
  "facility_from_io link_of io = do {
     x \<leftarrow> io_x io;
     y \<leftarrow> io_y io;
     l \<leftarrow> io_link_id io;
     as \<leftarrow> mapM activity_option_from_io (io_activities io);
     Some \<lparr>af_id = io_id io,
           af_coord = Some (new_3d x y (case io_z io of None \<Rightarrow> 0 | Some z \<Rightarrow> z)),
           af_link_id = link_of l, af_mode_to_link = Map.empty, af_desc = io_desc io, af_activities = as,
           af_attributes = unwrap_or_default (io_attributes io)\<rparr> }"

definition facilities_from_io :: "(string \<Rightarrow> link_id) \<Rightarrow> io_facilities \<Rightarrow> activity_facilities option" where
  "facilities_from_io link_of io =
     foldM (\<lambda>f fs. do { f \<leftarrow> facility_from_io link_of f; add_facility f fs }) (io_facilities io)
       (facilities_new (io_fs_name io) (unwrap_or_default (io_fs_attributes io)))"

text \<open>Every facility of the file is found under its id, and no other one.\<close>

lemma facilities_fold:
  assumes "foldM (\<lambda>f fs. do { f \<leftarrow> facility_from_io link_of f; add_facility f fs }) ios fs = Some fs'"
  shows "distinct (map io_id ios) \<and> set (map io_id ios) \<inter> dom (fs_facilities fs) = {} \<and>
    (\<forall>i. fs_facilities fs' i = (case map_of (map (\<lambda>f. (io_id f, f)) ios) i of
       None \<Rightarrow> fs_facilities fs i | Some f \<Rightarrow> facility_from_io link_of f))"
  using assms
proof (induction ios arbitrary: fs)
  case (Cons io ios)
  then obtain f fs1 where f: "facility_from_io link_of io = Some f" "add_facility f fs = Some fs1"
    and rest: "foldM (\<lambda>f fs. do { f \<leftarrow> facility_from_io link_of f; add_facility f fs }) ios fs1 = Some fs'" by auto
  have id: "af_id f = io_id io" using f(1) by (auto simp: facility_from_io_def)
  have fs1: "fs_facilities fs (io_id io) = None" "fs_facilities fs1 = (fs_facilities fs)(io_id io \<mapsto> f)"
    using f(2) id by (auto simp: add_facility_def)
  note ih = Cons.IH[OF rest]
  have new: "io_id io \<notin> set (map io_id ios)" using ih fs1 by auto
  then have "map_of (map (\<lambda>f. (io_id f, f)) ios) (io_id io) = None" by (auto simp: map_of_eq_None_iff comp_def)
  then show ?case using ih fs1 f(1) new by (auto split: option.splits)
qed simp

lemma facilities_from_io_spec:
  assumes "facilities_from_io link_of io = Some fs"
  shows "distinct (map io_id (io_facilities io)) \<and>
    (\<forall>f\<in>set (io_facilities io). facilities_get (io_id f) fs = facility_from_io link_of f) \<and>
    dom (fs_facilities fs) \<subseteq> io_id ` set (io_facilities io)"
proof -
  note s = facilities_fold[OF assms[unfolded facilities_from_io_def]]
  have "map_of (map (\<lambda>f. (io_id f, f)) (io_facilities io)) (io_id f) = Some f" if "f \<in> set (io_facilities io)" for f
    using s that by (intro map_of_is_SomeI) (auto simp: comp_def)
  moreover have "x \<in> io_id ` set (io_facilities io)" if "fs_facilities fs x = Some y" for x y
  proof (rule ccontr)
    assume "x \<notin> io_id ` set (io_facilities io)"
    then have "map_of (map (\<lambda>f. (io_id f, f)) (io_facilities io)) x = None" by (auto simp: map_of_eq_None_iff)
    then show False using s that by (simp add: facilities_new_def)
  qed
  ultimately show ?thesis using s by (auto simp: facilities_get_def)
qed

end
