(* ===== verification/Trip_Routing.thy ===== *)
theory Trip_Routing
  imports Router_Paths Facilities Vehicles
begin

text \<open>
  Routing of trips (\<open>replanning/routing/mod.rs\<close>, \<open>teleportation.rs\<close>, \<open>network_routing.rs\<close>, and
  \<open>create_trip_router\<close> of \<open>controller/controller.rs\<close>): modules for teleported modes and for modes on
  the network, which add legs to and from the network, and the router that dispatches to them.

  A module is a value of \<open>routing_module\<close>. The calculator of least cost paths in a module of the
  network is a function, in the program the one of \<open>A_Star\<close>. The results are an error or the
  elements of a trip; the outer option is the panic.
\<close>

section \<open>Requests and modules\<close>

datatype routing_error =
    MissingModule mode
  | NoPath mode link_id link_id
  | MissingEndTime mode
  | Unsupported mode

type_synonym 'a routing_result = "(routing_error + 'a) option"

record trip_request =
  tr_from :: facility
  tr_to :: facility
  tr_departure_time :: sim_time
  tr_person :: "internal_person option"
  tr_vehicle :: "internal_vehicle option"
  tr_attributes :: internal_attributes

datatype routing_module =
    TeleportationRoutingModule mode f64 f64
  | NetworkRoutingModule mode routing_module routing_module
      "least_cost_path_request \<Rightarrow> least_cost_path option option" network

fun module_mode :: "routing_module \<Rightarrow> mode" where
  "module_mode (TeleportationRoutingModule m _ _) = m"
| "module_mode (NetworkRoutingModule m _ _ _ _) = m"

text \<open>Results in sequence.\<close>

definition res_bind :: "('e + 'a) option \<Rightarrow> ('a \<Rightarrow> ('e + 'b) option) \<Rightarrow> ('e + 'b) option" where
  "res_bind r f = do { x \<leftarrow> r; (case x of Inl e \<Rightarrow> Some (Inl e) | Inr y \<Rightarrow> f y) }"

lemma res_bind_Inr: "res_bind r f = Some (Inr y) \<longleftrightarrow> (\<exists>x. r = Some (Inr x) \<and> f x = Some (Inr y))"
  by (cases r) (auto simp: res_bind_def split: sum.splits)

lemma res_bind_simps [simp]: "res_bind (Some (Inr x)) f = f x" "res_bind (Some (Inl e)) f = Some (Inl e)"
  "res_bind None f = None"
  by (simp_all add: res_bind_def)

section \<open>Teleportation\<close>

definition teleportation_calc_route :: "(f64 \<Rightarrow> f64) \<Rightarrow> mode \<Rightarrow> f64 \<Rightarrow> f64 \<Rightarrow> trip_request \<Rightarrow> plan_element list routing_result" where
  "teleportation_calc_route sq m beeline_distance_factor travel_speed request = do {
     start \<leftarrow> mode_link m (tr_from request);
     en \<leftarrow> mode_link m (tr_to request);
     (let distance = (case (facility_coord (tr_from request), facility_coord (tr_to request)) of
            (Some a, Some b) \<Rightarrow> Some (euclidean_distance sq a b * beeline_distance_factor)
          | _ \<Rightarrow> None)
      in do {
        trav_time \<leftarrow> duration_from_secs_f64 (case distance of None \<Rightarrow> NaN | Some d \<Rightarrow> f64_div d travel_speed);
        (let route = Generic \<lparr>gr_start_link = start, gr_end_link = en, gr_trav_time = Some trav_time,
               gr_distance = distance, gr_vehicle = map_option iv_id (tr_vehicle request)\<rparr>
         in Some (Inr [Leg (leg_new route m trav_time (Some (tr_departure_time request)))])) }) }"

section \<open>The network\<close>

definition create_interaction_activity :: "mode \<Rightarrow> coordinate option \<Rightarrow> link_id \<Rightarrow> plan_element" where
  "create_interaction_activity m coord l =
     Activity (activity_new coord (m @ '' interaction'') l None None (Some 0))"

text \<open>The result of \<open>decide_on_elements_end_time\<close>, with the error of an undefined time.\<close>

definition end_time_or_error :: "mode \<Rightarrow> plan_element list \<Rightarrow> sim_time \<Rightarrow> sim_time routing_result" where
  "end_time_or_error m els now = do {
     t \<leftarrow> decide_on_elements_end_time els now;
     Some (case t of None \<Rightarrow> Inl (MissingEndTime m) | Some t \<Rightarrow> Inr t) }"

text \<open>Access and egress have the router of the connecting mode as the parameter \<open>calc\<close>.\<close>

definition access_routing :: "(trip_request \<Rightarrow> plan_element list routing_result) \<Rightarrow> mode \<Rightarrow> network \<Rightarrow> trip_request \<Rightarrow>
    (sim_time \<times> plan_element list) routing_result" where
  "access_routing calc m net original_request = do {
     from_link \<leftarrow> facility_link (tr_from original_request);
     coord \<leftarrow> find_nearest_point_on_link (facility_coord (tr_from original_request)) from_link net;
     to_facility \<leftarrow> new_link_wrapper_from (tr_from original_request) coord;
     res_bind (calc (original_request\<lparr>tr_to := to_facility, tr_vehicle := None\<rparr>)) (\<lambda>access.
     res_bind (end_time_or_error m access (tr_departure_time original_request)) (\<lambda>now.
     Some (Inr (now, access @ [create_interaction_activity m coord from_link])))) }"

definition egress_routing :: "(trip_request \<Rightarrow> plan_element list routing_result) \<Rightarrow> mode \<Rightarrow> network \<Rightarrow> trip_request \<Rightarrow>
    sim_time \<Rightarrow> plan_element list routing_result" where
  "egress_routing calc m net original_request now = do {
     to_link \<leftarrow> facility_link (tr_to original_request);
     coord \<leftarrow> find_nearest_point_on_link (facility_coord (tr_to original_request)) to_link net;
     from_facility \<leftarrow> new_link_wrapper_from (tr_to original_request) coord;
     res_bind (calc (original_request\<lparr>tr_from := from_facility, tr_departure_time := now, tr_vehicle := None\<rparr>)) (\<lambda>egress.
     Some (Inr (create_interaction_activity m coord to_link # egress))) }"

definition path_to_elements :: "network \<Rightarrow> least_cost_path \<Rightarrow> link_id \<Rightarrow> link_id \<Rightarrow> mode \<Rightarrow> internal_vehicle option \<Rightarrow>
    plan_element list option" where
  "path_to_elements net path from_link to_link m vehicle =
     (let route = from_link # (if from_link \<noteq> to_link then lcp_path path @ [to_link] else []) in do {
        ls \<leftarrow> mapM (get_link net) (tl route);
        (let generic = \<lparr>gr_start_link = hd route, gr_end_link = last route, gr_trav_time = Some (lcp_travel_time path),
               gr_distance = Some (sum_list (map link_length ls)), gr_vehicle = map_option iv_id vehicle\<rparr>;
             net_route = Network \<lparr>nr_generic_delegate = generic, nr_route = route\<rparr>
         in Some [Leg (leg_new net_route m (lcp_travel_time path) None)]) })"

definition network_leg :: "(least_cost_path_request \<Rightarrow> least_cost_path option option) \<Rightarrow> mode \<Rightarrow> network \<Rightarrow> trip_request \<Rightarrow>
    sim_time \<Rightarrow> (sim_time \<times> plan_element list) routing_result" where
  "network_leg calculator m net request now = do {
     from_link \<leftarrow> mode_link m (tr_from request);
     to_link \<leftarrow> mode_link m (tr_to request);
     res_bind
       (if from_link = to_link
        then Some (Inr \<lparr>lcp_path = [], lcp_travel_time = 0, lcp_travel_disutility = Fin 0\<rparr>)
        else do {
          p \<leftarrow> calculator \<lparr>lcp_from = from_link, lcp_to = to_link, lcp_departure_time = now,
                 lcp_person = tr_person request, lcp_vehicle = tr_vehicle request\<rparr>;
          Some (case p of None \<Rightarrow> Inl (NoPath m from_link to_link) | Some p \<Rightarrow> Inr p) })
       (\<lambda>path. do {
          elements \<leftarrow> path_to_elements net path from_link to_link m (tr_vehicle request);
          res_bind (end_time_or_error m elements now) (\<lambda>time. Some (Inr (time, elements))) }) }"

fun module_calc_route :: "(f64 \<Rightarrow> f64) \<Rightarrow> routing_module \<Rightarrow> trip_request \<Rightarrow> plan_element list routing_result" where
  "module_calc_route sq (TeleportationRoutingModule m factor speed) request =
     teleportation_calc_route sq m factor speed request"
| "module_calc_route sq (NetworkRoutingModule m access egress calculator net) request =
     res_bind (access_routing (module_calc_route sq access) m net request) (\<lambda>(now, res1).
     res_bind (network_leg calculator m net request now) (\<lambda>(now, res2).
     res_bind (egress_routing (module_calc_route sq egress) m net request now) (\<lambda>res3.
     Some (Inr (res1 @ res2 @ res3)))))"

lemma teleportation_module [simp]:
  "module_calc_route sq (TeleportationRoutingModule m factor speed) = teleportation_calc_route sq m factor speed"
  by (rule ext) simp

section \<open>The trip router\<close>

type_synonym trip_router = "mode \<rightharpoonup> routing_module"

definition has_module :: "trip_router \<Rightarrow> mode \<Rightarrow> bool" where
  "has_module modules m \<longleftrightarrow> modules m \<noteq> None"

fun set_routing_mode :: "mode \<Rightarrow> plan_element \<Rightarrow> plan_element" where
  "set_routing_mode m (Leg l) = Leg (l\<lparr>leg_routing_mode := Some m\<rparr>)"
| "set_routing_mode m (Activity a) = Activity a"

definition trip_router_calc_route :: "(f64 \<Rightarrow> f64) \<Rightarrow> trip_router \<Rightarrow> mode \<Rightarrow> trip_request \<Rightarrow> plan_element list routing_result" where
  "trip_router_calc_route sq modules m request =
     (case modules m of
        None \<Rightarrow> Some (Inl (MissingModule m))
      | Some md \<Rightarrow> res_bind (module_calc_route sq md request) (\<lambda>elements.
          Some (Inr (map (set_routing_mode m) elements))))"

record teleported_mode_params =
  tp_mode :: mode
  tp_beeline_distance_factor :: f64
  tp_teleported_mode_speed :: f64

record router_config =
  rc_teleported_mode_params :: "teleported_mode_params list"
  rc_access_egress_mode :: mode
  rc_main_modes :: "mode list"

datatype create_router_error = NoAccessEgressRouter mode mode | NetworkRouterFailed mode graph_error

definition teleported_modules :: "router_config \<Rightarrow> trip_router" where
  "teleported_modules cfg = fold (\<lambda>t routers. routers(tp_mode t \<mapsto>
     TeleportationRoutingModule (tp_mode t) (tp_beeline_distance_factor t) (tp_teleported_mode_speed t)))
     (rc_teleported_mode_params cfg) Map.empty"

text \<open>One round of the loop over the main modes.\<close>

definition add_network_router :: "'q queue_ops \<Rightarrow> (nat \<Rightarrow> nat \<Rightarrow> nat list) \<Rightarrow> router_config \<Rightarrow> network \<Rightarrow> mode \<Rightarrow>
    (create_router_error + trip_router) \<Rightarrow> (create_router_error + trip_router) option" where
  "add_network_router Q pick cfg net m r = (case r of Inl e \<Rightarrow> Some (Inl e) | Inr routers \<Rightarrow>
     (case routers (rc_access_egress_mode cfg) of
        None \<Rightarrow> Some (Inl (NoAccessEgressRouter (rc_access_egress_mode cfg) m))
      | Some access_egress \<Rightarrow> do {
          astar \<leftarrow> a_star_new Q pick Alt net (Some m) FreeSpeedTravelTimeAndDisutility;
          Some (case astar of
              Inl e \<Rightarrow> Inl (NetworkRouterFailed m e)
            | Inr r \<Rightarrow> Inr (routers(m \<mapsto> NetworkRoutingModule m access_egress access_egress
                (calc_least_cost_path Q r) net))) }))"

definition create_trip_router :: "'q queue_ops \<Rightarrow> (nat \<Rightarrow> nat \<Rightarrow> nat list) \<Rightarrow> router_config \<Rightarrow> network \<Rightarrow>
    (create_router_error + trip_router) option" where
  "create_trip_router Q pick cfg net =
     foldM (add_network_router Q pick cfg net) (rc_main_modes cfg) (Inr (teleported_modules cfg))"

section \<open>Routed trips\<close>

lemma str_contains_suffix: "str_contains pat (s @ pat)"
  unfolding str_contains_def list_ex_iff by (intro bexI[of _ "length s"]) auto

lemma interaction_is_interaction: "is_interaction (activity_new coord (m @ '' interaction'') l a b c)"
  using str_contains_suffix[of "''interaction''" "m @ '' ''"] by (simp add: is_interaction_def activity_new_def)

text \<open>What a leg with a teleported mode is.\<close>

definition teleported_leg :: "(f64 \<Rightarrow> f64) \<Rightarrow> mode \<Rightarrow> link_id \<Rightarrow> link_id \<Rightarrow> veh_id option \<Rightarrow> coordinate \<Rightarrow> coordinate \<Rightarrow> f64 \<Rightarrow> f64 \<Rightarrow>
    sim_time \<Rightarrow> internal_leg \<Rightarrow> bool" where
  "teleported_leg sq m l l' veh a b factor speed dep leg \<longleftrightarrow> leg_mode leg = m \<and> leg_dep_time leg = Some dep \<and>
     (\<exists>g d. leg_route leg = Some (Generic g) \<and> gr_start_link g = l \<and> gr_end_link g = l' \<and> gr_vehicle g = veh \<and> gr_distance g = Some (euclidean_distance sq a b * factor) \<and>
        duration_from_secs_f64 (f64_div (euclidean_distance sq a b * factor) speed) = Some d \<and>
        gr_trav_time g = Some d \<and> leg_trav_time leg = Some d)"

lemma teleportation_leg:
  assumes "teleportation_calc_route sq m factor speed req = Some (Inr els)"
  obtains leg a b l l' where "els = [Leg leg]" and "facility_coord (tr_from req) = Some a" and "facility_coord (tr_to req) = Some b"
    and "mode_link m (tr_from req) = Some l" and "mode_link m (tr_to req) = Some l'"
    and "teleported_leg sq m l l' (map_option iv_id (tr_vehicle req)) a b factor speed (tr_departure_time req) leg"
proof -
  obtain a b where ab: "facility_coord (tr_from req) = Some a" "facility_coord (tr_to req) = Some b"
    using assms by (auto simp: teleportation_calc_route_def Let_def split: option.splits)
  obtain l l' d where l: "mode_link m (tr_from req) = Some l" "mode_link m (tr_to req) = Some l'"
    and d: "duration_from_secs_f64 (f64_div (euclidean_distance sq a b * factor) speed) = Some d"
    and els: "els = [Leg (leg_new (Generic \<lparr>gr_start_link = l, gr_end_link = l', gr_trav_time = Some d,
       gr_distance = Some (euclidean_distance sq a b * factor), gr_vehicle = map_option iv_id (tr_vehicle req)\<rparr>) m d
       (Some (tr_departure_time req)))]"
    using assms ab by (auto simp: teleportation_calc_route_def Let_def)
  then show thesis using that[OF els ab l] by (simp add: teleported_leg_def leg_new_def)
qed

text \<open>The route of the network leg: from its first link to its last, over links that allow the mode.\<close>

definition network_route_of :: "network \<Rightarrow> mode \<Rightarrow> link_id \<Rightarrow> link_id \<Rightarrow> link_id list \<Rightarrow> bool" where
  "network_route_of net m from_link to_link route \<longleftrightarrow>
     (if from_link = to_link then route = [from_link]
      else \<exists>path kf kt. route = from_link # path @ [to_link] \<and>
        net_links net from_link = Some kf \<and> net_links net to_link = Some kt \<and> contains_mode m kf \<and> contains_mode m kt \<and>
        drives net (Some m) (link_to kf) path (link_from kt))"

definition calculator_ok :: "network \<Rightarrow> mode \<Rightarrow> (least_cost_path_request \<Rightarrow> least_cost_path option option) \<Rightarrow> bool" where
  "calculator_ok net m calculator \<longleftrightarrow> (\<forall>req p. calculator req = Some (Some p) \<longrightarrow>
     (\<exists>kf kt. net_links net (lcp_from req) = Some kf \<and> contains_mode m kf \<and> net_links net (lcp_to req) = Some kt \<and>
        contains_mode m kt \<and> drives net (Some m) (link_to kf) (lcp_path p) (link_from kt)))"

lemma a_star_calculator_ok:
  assumes "net_inv net" and "a_star_new Q pick kind net (Some m) costs = Some (Inr r)"
  shows "calculator_ok net m (calc_least_cost_path Q r)"
proof -
  obtain g where g: "convert_network_for_mode net (Some m) = Some g" "as_graph r = g"
    using assms(2) by (auto simp: a_star_new_def a_star_with_graph_def bind_res_Inr)
  then have "graph_of net (Some m) (as_graph r)" using convert_graph_of[OF assms(1) g(1)] by simp
  from router_path[OF this] show ?thesis by (auto simp: calculator_ok_def for_mode_def)
qed

text \<open>What the leg on the network is.\<close>

definition network_leg_of :: "network \<Rightarrow> mode \<Rightarrow> link_id \<Rightarrow> link_id \<Rightarrow> veh_id option \<Rightarrow> internal_leg \<Rightarrow> bool" where
  "network_leg_of net m from_link to_link veh leg \<longleftrightarrow> leg_mode leg = m \<and>
     (\<exists>g route tt ls. leg_route leg = Some (Network \<lparr>nr_generic_delegate = g, nr_route = route\<rparr>) \<and>
        network_route_of net m from_link to_link route \<and> gr_start_link g = from_link \<and> gr_end_link g = to_link \<and>
        mapM (get_link net) (tl route) = Some ls \<and> gr_distance g = Some (sum_list (map link_length ls)) \<and>
        gr_trav_time g = Some tt \<and> leg_trav_time leg = Some tt \<and> gr_vehicle g = veh)"

lemma network_leg_spec:
  assumes calc: "calculator_ok net m calculator" and leg: "network_leg calculator m net req now = Some (Inr (time, els))"
  obtains from_link to_link leg where "els = [Leg leg]" and "mode_link m (tr_from req) = Some from_link"
    and "mode_link m (tr_to req) = Some to_link" and "network_leg_of net m from_link to_link (map_option iv_id (tr_vehicle req)) leg"
    and "leg_dep_time leg = None"
proof -
  obtain f t where ft: "mode_link m (tr_from req) = Some f" "mode_link m (tr_to req) = Some t"
    using leg by (auto simp: network_leg_def)
  have "\<exists>p. (if f = t then lcp_path p = [] else calculator \<lparr>lcp_from = f, lcp_to = t, lcp_departure_time = now,
                 lcp_person = tr_person req, lcp_vehicle = tr_vehicle req\<rparr> = Some (Some p)) \<and>
      path_to_elements net p f t m (tr_vehicle req) = Some els"
  proof (cases "f = t")
    case True
    then show ?thesis
      using leg ft by (intro exI[of _ "\<lparr>lcp_path = [], lcp_travel_time = 0, lcp_travel_disutility = Fin 0\<rparr>"])
        (auto simp: network_leg_def res_bind_Inr)
  next
    case False
    then show ?thesis using leg ft by (auto simp: network_leg_def res_bind_Inr split: option.splits)
  qed
  then obtain p where p: "if f = t then lcp_path p = [] else calculator \<lparr>lcp_from = f, lcp_to = t, lcp_departure_time = now,
                 lcp_person = tr_person req, lcp_vehicle = tr_vehicle req\<rparr> = Some (Some p)"
    and els: "path_to_elements net p f t m (tr_vehicle req) = Some els" by blast
  define route where "route = f # (if f \<noteq> t then lcp_path p @ [t] else [])"
  have r: "network_route_of net m f t route"
    using p calc unfolding calculator_ok_def by (fastforce simp: network_route_of_def route_def)
  obtain ls where "mapM (get_link net) (tl route) = Some ls"
    and leg: "els = [Leg (leg_new (Network \<lparr>nr_generic_delegate = \<lparr>gr_start_link = hd route, gr_end_link = last route,
       gr_trav_time = Some (lcp_travel_time p), gr_distance = Some (sum_list (map link_length ls)),
       gr_vehicle = map_option iv_id (tr_vehicle req)\<rparr>, nr_route = route\<rparr>) m (lcp_travel_time p) None)]"
    using els by (auto simp: path_to_elements_def route_def)
  moreover have "hd route = f" "last route = t" by (auto simp: route_def)
  ultimately show thesis using that[OF leg ft] r by (simp add: network_leg_of_def leg_new_def)
qed

lemma access_spec:
  assumes "access_routing (teleportation_calc_route sq am factor speed) m net req = Some (Inr (now, els))"
  obtains leg l la c d where "els = [Leg leg, create_interaction_activity m (Some d) l]"
    and "facility_link (tr_from req) = Some l" and "facility_coord (tr_from req) = Some c"
    and "find_nearest_point_on_link (Some c) l net = Some (Some d)"
    and "mode_link am (tr_from req) = Some la" and "teleported_leg sq am la la None c d factor speed (tr_departure_time req) leg"
    and "decide_on_elements_end_time [Leg leg] (tr_departure_time req) = Some (Some now)"
proof -
  obtain l nearest to_facility legs where l: "facility_link (tr_from req) = Some l"
    and nearest: "find_nearest_point_on_link (facility_coord (tr_from req)) l net = Some nearest"
    and to_fac: "new_link_wrapper_from (tr_from req) nearest = Some to_facility"
    and legs: "teleportation_calc_route sq am factor speed (req\<lparr>tr_to := to_facility, tr_vehicle := None\<rparr>) = Some (Inr legs)"
    and time: "end_time_or_error m legs (tr_departure_time req) = Some (Inr now)"
    and els: "els = legs @ [create_interaction_activity m nearest l]"
    using assms by (auto simp: access_routing_def res_bind_Inr)
  obtain leg a b la lb where leg: "legs = [Leg leg]" "facility_coord (tr_from req) = Some a"
    "facility_coord to_facility = Some b" "mode_link am (tr_from req) = Some la" "mode_link am to_facility = Some lb"
    "teleported_leg sq am la lb None a b factor speed (tr_departure_time req) leg"
    by (rule teleportation_leg[OF legs]) simp
  have "nearest = Some b" "lb = la" using wrapper_from_simps(1,4)[OF to_fac] leg(3-5) by simp_all
  then show thesis using that[of leg b l a la] els leg l nearest time by (auto simp: end_time_or_error_def split: option.splits)
qed

lemma egress_spec:
  assumes "egress_routing (teleportation_calc_route sq em factor speed) m net req now = Some (Inr els)"
  obtains leg l le c d where "els = [create_interaction_activity m (Some d) l, Leg leg]"
    and "facility_link (tr_to req) = Some l" and "facility_coord (tr_to req) = Some c"
    and "find_nearest_point_on_link (Some c) l net = Some (Some d)"
    and "mode_link em (tr_to req) = Some le" and "teleported_leg sq em le le None d c factor speed now leg"
proof -
  obtain l nearest from_facility legs where l: "facility_link (tr_to req) = Some l"
    and nearest: "find_nearest_point_on_link (facility_coord (tr_to req)) l net = Some nearest"
    and from_fac: "new_link_wrapper_from (tr_to req) nearest = Some from_facility"
    and legs: "teleportation_calc_route sq em factor speed
      (req\<lparr>tr_from := from_facility, tr_departure_time := now, tr_vehicle := None\<rparr>) = Some (Inr legs)"
    and els: "els = create_interaction_activity m nearest l # legs"
    using assms by (auto simp: egress_routing_def res_bind_Inr)
  obtain leg a b la le where leg: "legs = [Leg leg]" "facility_coord from_facility = Some a"
    "facility_coord (tr_to req) = Some b" "mode_link em from_facility = Some la" "mode_link em (tr_to req) = Some le"
    "teleported_leg sq em la le None a b factor speed now leg"
    by (rule teleportation_leg[OF legs]) simp
  have "nearest = Some a" "la = le" using wrapper_from_simps(1,4)[OF from_fac] leg(2,4,5) by simp_all
  then show thesis using that[of a l leg b le] els leg l nearest by simp
qed

text \<open>The elements of a trip before the router sets the routing mode.\<close>

lemma network_module_route:
  assumes "net_inv net" and "a_star_new Q pick kind net (Some m) costs = Some (Inr r)"
    and "module_calc_route sq (NetworkRoutingModule m (TeleportationRoutingModule am af asp) (TeleportationRoutingModule em ef esp)
           (calc_least_cost_path Q r) net) req = Some (Inr els)"
  obtains access l1 la c1 d1 now1 f t leg now2 egress l2 le c2 d2 where
    "els = [Leg access, create_interaction_activity m (Some d1) l1, Leg leg, create_interaction_activity m (Some d2) l2, Leg egress]"
    and "facility_link (tr_from req) = Some l1" and "facility_coord (tr_from req) = Some c1"
    and "find_nearest_point_on_link (Some c1) l1 net = Some (Some d1)" and "mode_link am (tr_from req) = Some la"
    and "teleported_leg sq am la la None c1 d1 af asp (tr_departure_time req) access"
    and "decide_on_elements_end_time [Leg access] (tr_departure_time req) = Some (Some now1)"
    and "mode_link m (tr_from req) = Some f" and "mode_link m (tr_to req) = Some t"
    and "network_leg_of net m f t (map_option iv_id (tr_vehicle req)) leg"
    and "decide_on_elements_end_time [Leg leg] now1 = Some (Some now2)"
    and "facility_link (tr_to req) = Some l2" and "facility_coord (tr_to req) = Some c2"
    and "find_nearest_point_on_link (Some c2) l2 net = Some (Some d2)" and "mode_link em (tr_to req) = Some le"
    and "teleported_leg sq em le le None d2 c2 ef esp now2 egress"
proof -
  obtain now1 res1 now2 res2 res3 where
    a: "access_routing (teleportation_calc_route sq am af asp) m net req = Some (Inr (now1, res1))"
    and n: "network_leg (calc_least_cost_path Q r) m net req now1 = Some (Inr (now2, res2))"
    and e: "egress_routing (teleportation_calc_route sq em ef esp) m net req now2 = Some (Inr res3)"
    and els: "els = res1 @ res2 @ res3"
    using assms(3) by (auto simp: res_bind_Inr)
  obtain access l1 la c1 d1 where access: "res1 = [Leg access, create_interaction_activity m (Some d1) l1]"
    "facility_link (tr_from req) = Some l1" "facility_coord (tr_from req) = Some c1"
    "find_nearest_point_on_link (Some c1) l1 net = Some (Some d1)" "mode_link am (tr_from req) = Some la"
    "teleported_leg sq am la la None c1 d1 af asp (tr_departure_time req) access"
    "decide_on_elements_end_time [Leg access] (tr_departure_time req) = Some (Some now1)" by (rule access_spec[OF a]) blast
  obtain f t leg where leg: "res2 = [Leg leg]" "mode_link m (tr_from req) = Some f" "mode_link m (tr_to req) = Some t"
    "network_leg_of net m f t (map_option iv_id (tr_vehicle req)) leg"
    by (rule network_leg_spec[OF a_star_calculator_ok[OF assms(1,2)] n]) blast
  have now2: "decide_on_elements_end_time [Leg leg] now1 = Some (Some now2)"
    using n leg by (auto simp: network_leg_def res_bind_Inr end_time_or_error_def split: if_splits option.splits)
  obtain egress l2 le c2 d2 where egress: "res3 = [create_interaction_activity m (Some d2) l2, Leg egress]"
    "facility_link (tr_to req) = Some l2" "facility_coord (tr_to req) = Some c2"
    "find_nearest_point_on_link (Some c2) l2 net = Some (Some d2)" "mode_link em (tr_to req) = Some le"
    "teleported_leg sq em le le None d2 c2 ef esp now2 egress"
    by (rule egress_spec[OF e]) blast
  have "els = [Leg access, create_interaction_activity m (Some d1) l1, Leg leg, create_interaction_activity m (Some d2) l2, Leg egress]"
    using els access(1) leg(1) egress(1) by simp
  from that[OF this access(2-7) leg(2-4) now2 egress(2-6)] show thesis .
qed


text \<open>A road with two links, the second one for bikes only, and a trip from a point beside the first
  link back to that point.\<close>

definition road_net :: network where
  "road_net = network_new\<lparr>net_nodes := [0 \<mapsto> (ex_node 0 [5] [0])\<lparr>node_coord := new_3d 0 0 0\<rparr>, 1 \<mapsto> (ex_node 1 [0] [5])\<lparr>node_coord := new_3d 4 0 0\<rparr>],
     net_links := [0 \<mapsto> ex_link 0 0 1 4, 5 \<mapsto> ex_link 5 1 0 4]\<rparr>"

definition road_module :: "a_star \<Rightarrow> routing_module" where
  "road_module r = NetworkRoutingModule ''car'' (TeleportationRoutingModule ''walk'' 1 1) (TeleportationRoutingModule ''walk'' 1 1)
     (calc_least_cost_path list_queue r) road_net"

definition road_request :: "link_id \<Rightarrow> internal_person option \<Rightarrow> internal_vehicle option \<Rightarrow> trip_request" where
  "road_request l p v = \<lparr>tr_from = new_link_wrapper (new_3d 1 9 0) l, tr_to = new_link_wrapper (new_3d 1 9 0) l,
     tr_departure_time = 0, tr_person = p, tr_vehicle = v, tr_attributes = Map.empty\<rparr>"

lemma road_inv: "net_inv road_net"
proof -
  have "outs_of road_net i = (if i = 0 then {0} else if i = 1 then {5} else {})" "ins_of road_net i = (if i = 0 then {5} else if i = 1 then {0} else {})" for i
    by (auto simp: outs_of_def ins_of_def road_net_def ex_link_def link_new_def split: if_splits)
  then show ?thesis
    by (simp add: net_inv_def) (auto simp: road_net_def ex_node_def ex_link_def node_new_def link_new_def split: if_splits)
qed

lemma road_router: "\<exists>r. a_star_new list_queue (\<lambda>_ _. []) Dijkstra road_net (Some ''car'') FreeSpeedTravelTimeAndDisutility = Some (Inr r)"
proof -
  obtain g where "convert_network_for_mode road_net (Some ''car'') = Some g" by (rule convert_view[OF road_inv])
  then show ?thesis by (simp add: a_star_new_def a_star_with_graph_def)
qed

lemma road_trip:
  assumes "modules ''car'' = Some (road_module r)" and l: "l = 0 \<or> l = 5"
  shows "\<exists>els. trip_router_calc_route abs modules ''car'' (road_request l p v) = Some (Inr els)"
proof -
  have near: "find_nearest_point_on_link (Some (new_3d 1 9 0)) l road_net = Some (Some (new_3d 1 0 0))"
    using l by (auto simp: find_nearest_point_on_link_def road_net_def get_link_def get_node_def ex_link_def link_new_def orthogonal_projection_def new_3d_def Let_def)
  have dist: "euclidean_distance abs (new_3d 1 9 0) (new_3d 1 0 0) = 81" "euclidean_distance abs (new_3d 1 0 0) (new_3d 1 9 0) = 81"
    by (simp_all add: euclidean_distance_def new_3d_def)
  have dur: "duration_from_secs_f64 (f64_div 81 1) = Some 81000000000"
    by (simp add: f64_div_def round_half_even_def nanos_per_second_def duration_max_def Let_def u64_max_def)
  have path: "path_to_elements road_net \<lparr>lcp_path = [], lcp_travel_time = 0, lcp_travel_disutility = Fin 0\<rparr> l l ''car'' v =
    Some [Leg (leg_new (Network \<lparr>nr_generic_delegate = \<lparr>gr_start_link = l, gr_end_link = l, gr_trav_time = Some 0,
       gr_distance = Some 0, gr_vehicle = map_option iv_id v\<rparr>, nr_route = [l]\<rparr>) ''car'' 0 None)]"
    by (simp add: path_to_elements_def)
  show ?thesis
    using assms(1)
    by (simp add: trip_router_calc_route_def road_module_def dist dur path end_time_or_error_def decide_on_leg_travel_time_def leg_new_def
        road_request_def access_routing_def egress_routing_def network_leg_def
        create_interaction_activity_def simtime_saturating_add_def from_duration_def assert_duration_fits_simtime_def duration_max_def nanos_per_second_def simtime_max_def u64_max_def
        near near[simplified] new_link_wrapper_def new_link_wrapper_from_def mode_link_def teleportation_calc_route_def)
qed

lemma road_walk: "\<exists>els. trip_router_calc_route abs [''walk'' \<mapsto> TeleportationRoutingModule ''walk'' 1 1] ''walk''
    ((road_request 0 None None)\<lparr>tr_to := new_link_wrapper (new_3d 1 0 0) 5\<rparr>) = Some (Inr els)"
proof -
  have "duration_from_secs_f64 (f64_div 81 1) = Some 81000000000"
    by (simp add: f64_div_def round_half_even_def nanos_per_second_def duration_max_def Let_def u64_max_def)
  moreover have "euclidean_distance abs (new_3d 1 9 0) (new_3d 1 0 0) = 81" by (simp add: euclidean_distance_def new_3d_def)
  ultimately show ?thesis by (simp add: trip_router_calc_route_def teleportation_calc_route_def road_request_def)
qed


text \<open>
  C28. If the two nodes of the link of the origin have the same coordinate, the nearest point on it
  is not a number, and routing a mode on the network from there panics.
\<close>

theorem degenerate_link_panics:
  assumes "facility_link (tr_from req) = Some l" and "get_link net l = Some k"
    and "get_node net (link_from k) = Some a" and "get_node net (link_to k) = Some b" and "node_coord a = node_coord b"
    and "modules m = Some (NetworkRoutingModule m (TeleportationRoutingModule am af asp) egress calculator net)"
  shows "trip_router_calc_route sq modules m req = None"
proof -
  have "find_nearest_point_on_link (facility_coord (tr_from req)) l net = Some None"
    using assms(2-5) by (cases "facility_coord (tr_from req)") (simp_all add: find_nearest_point_on_link_def projection_undefined)
  moreover have "teleportation_calc_route sq am af asp (req\<lparr>tr_to := g, tr_vehicle := None\<rparr>) = None" if "facility_coord g = None" for g
    using that by (auto simp: teleportation_calc_route_def Let_def split: option.splits Option.bind_split)
  ultimately show ?thesis
    using assms(1,6) wrapper_from_simps(1)
    by (auto simp: trip_router_calc_route_def access_routing_def split: Option.bind_split)
qed

theorem degenerate_link_panics_witness:
  "trip_router_calc_route (\<lambda>x. x) [''car'' \<mapsto> NetworkRoutingModule ''car'' (TeleportationRoutingModule ''walk'' 1 1)
     (TeleportationRoutingModule ''walk'' 1 1) (\<lambda>_. Some None) ex_net] ''car'' (road_request 0 None None) = None"
  by (rule degenerate_link_panics[of _ 0 _ "ex_link 0 0 1 1" "ex_node 0 [4] [0, 2]" "ex_node 1 [0] [1]"])
    (simp_all add: road_request_def ex_net_def get_link_def get_node_def ex_link_def link_new_def ex_node_def node_new_def)

end
