(* ===== verification/Replanning.thy ===== *)
theory Replanning
  imports Population
begin

text \<open>
  Replanning between iterations (\<open>replanning/mod.rs\<close>, \<open>ReplanningPool\<close> of \<open>controller/mod.rs\<close>): the
  selectors of plans, the strategies, the strategy manager, which runs a strategy for a person and
  then removes plans beyond the size of the memory, and the replanning of a population.

  A generator of random numbers is seeded with the base seed, the iteration, the person and a
  purpose, and yields one number; the parameter \<open>R\<close> gives that number. Scores are never NaN.
\<close>

section \<open>Selectors\<close>

datatype default_selector = KeepLastSelected | BestScore | SelectRandom | WorstScore

datatype default_strategy = ReRoute

fun selector_as_str :: "default_selector \<Rightarrow> string" where
  "selector_as_str KeepLastSelected = ''KeepLastSelected''"
| "selector_as_str BestScore = ''BestScore''"
| "selector_as_str SelectRandom = ''SelectRandom''"
| "selector_as_str WorstScore = ''WorstScore''"

definition selector_from_str :: "string \<Rightarrow> default_selector option" where
  "selector_from_str v =
     (if v = ''KeepLastSelected'' then Some KeepLastSelected
      else if v = ''BestScore'' then Some BestScore
      else if v = ''SelectRandom'' then Some SelectRandom
      else if v = ''WorstScore'' then Some WorstScore
      else None)"

fun strategy_as_str :: "default_strategy \<Rightarrow> string" where
  "strategy_as_str ReRoute = ''ReRoute''"

definition strategy_from_str :: "string \<Rightarrow> default_strategy option" where
  "strategy_from_str v = (if v = ''ReRoute'' then Some ReRoute else None)"

record replanning_context =
  ctx_iteration :: nat
  ctx_base_seed :: nat
  ctx_innovation_disabled :: bool

text \<open>\<open>get_rng(seed, (iteration, person, purpose))\<close> followed by one \<open>random_range(0..bound)\<close>.\<close>

record random_draws =
  draw_index :: "nat \<Rightarrow> nat \<Rightarrow> person_id \<Rightarrow> string \<Rightarrow> nat \<Rightarrow> nat"
  draw_weight :: "nat \<Rightarrow> nat \<Rightarrow> person_id \<Rightarrow> string \<Rightarrow> f64 \<Rightarrow> f64"

definition draws_ok :: "random_draws \<Rightarrow> bool" where
  "draws_ok R \<longleftrightarrow> (\<forall>s i p u n. 0 < n \<longrightarrow> draw_index R s i p u n < n) \<and>
     (\<forall>s i p u w. 0 < w \<longrightarrow> 0 \<le> draw_weight R s i p u w \<and> draw_weight R s i p u w < w)"

definition plan_is_worse :: "f64 option \<Rightarrow> f64 option \<Rightarrow> bool" where
  "plan_is_worse candidate current =
     (case (candidate, current) of
        (None, Some _) \<Rightarrow> True
      | (Some a, Some b) \<Rightarrow> a < b
      | _ \<Rightarrow> False)"

definition select_keep_last :: "internal_plan list \<Rightarrow> nat option" where
  "select_keep_last plans =
     (case filter (\<lambda>i. plan_selected (plans ! i)) [0..<length plans] of
        [i] \<Rightarrow> Some i
      | _ \<Rightarrow> None)"

text \<open>\<open>max_by\<close> returns the last of several greatest elements.\<close>

definition select_best_score :: "internal_plan list \<Rightarrow> nat option" where
  "select_best_score plans = map_option fst (fold (\<lambda>(i, p) best.
     (case plan_score p of
        None \<Rightarrow> best
      | Some s \<Rightarrow> (case best of None \<Rightarrow> Some (i, s) | Some (j, t) \<Rightarrow> if s < t then best else Some (i, s))))
     (enumerate 0 plans) None)"

definition select_random :: "random_draws \<Rightarrow> replanning_context \<Rightarrow> internal_person \<Rightarrow> nat option" where
  "select_random R c person = do {
     _ \<leftarrow> ensure (0 < length (person_plans person));
     Some (draw_index R (ctx_base_seed c) (ctx_iteration c) (person_ident person) ''replanning.selector.random''
             (length (person_plans person))) }"

definition worst_step :: "internal_plan list \<Rightarrow> bool \<Rightarrow> nat \<Rightarrow> nat option \<Rightarrow> nat option" where
  "worst_step plans prefer_unselected i worst =
     (if prefer_unselected \<and> plan_selected (plans ! i) then worst
      else (case worst of
        None \<Rightarrow> Some i
      | Some w \<Rightarrow> if plan_is_worse (plan_score (plans ! i)) (plan_score (plans ! w)) then Some i else worst))"

definition select_worst_score :: "internal_plan list \<Rightarrow> nat option" where
  "select_worst_score plans =
     (let prefer_unselected = list_ex (\<lambda>p. \<not> plan_selected p) plans
      in fold (worst_step plans prefer_unselected) [0..<length plans] None)"

fun plan_select :: "random_draws \<Rightarrow> default_selector \<Rightarrow> replanning_context \<Rightarrow> internal_person \<Rightarrow> nat option" where
  "plan_select R KeepLastSelected c person = select_keep_last (person_plans person)"
| "plan_select R BestScore c person = select_best_score (person_plans person)"
| "plan_select R SelectRandom c person = select_random R c person"
| "plan_select R WorstScore c person = select_worst_score (person_plans person)"

section \<open>Strategies\<close>

text \<open>A module of a strategy changes the plan at an index; the module of \<open>ReRoute\<close> is \<open>unimplemented!\<close>.\<close>

type_synonym plan_module = "nat \<Rightarrow> internal_person \<Rightarrow> internal_person option"

definition re_route_module :: plan_module where
  "re_route_module i person = None"

record plan_strategy =
  gps_name :: string
  gps_selector :: default_selector
  gps_modules :: "plan_module list"

definition selector_as_generic_plan_strategy :: "default_selector \<Rightarrow> plan_strategy" where
  "selector_as_generic_plan_strategy s = \<lparr>gps_name = selector_as_str s, gps_selector = s, gps_modules = []\<rparr>"

fun strategy_as_generic_plan_strategy :: "default_strategy \<Rightarrow> plan_strategy" where
  "strategy_as_generic_plan_strategy ReRoute =
     \<lparr>gps_name = strategy_as_str ReRoute, gps_selector = KeepLastSelected, gps_modules = [re_route_module]\<rparr>"

definition default_strategies :: "string \<rightharpoonup> plan_strategy" where
  "default_strategies = map_of (map (\<lambda>s. (selector_as_str s, selector_as_generic_plan_strategy s))
       [KeepLastSelected, BestScore, SelectRandom, WorstScore] @
     map (\<lambda>s. (strategy_as_str s, strategy_as_generic_plan_strategy s)) [ReRoute])"

definition strategy_handle :: "random_draws \<Rightarrow> plan_strategy \<Rightarrow> replanning_context \<Rightarrow> internal_person \<Rightarrow> internal_person option" where
  "strategy_handle R st c person = do {
     plan_index \<leftarrow> plan_select R (gps_selector st) c person;
     (if gps_modules st = [] then Some person
      else do {
        new_plan \<leftarrow> list_get (person_plans person) plan_index;
        (let person = person\<lparr>person_plans := map (plan_selected_update (\<lambda>_. False)) (person_plans person)
                          @ [new_plan\<lparr>plan_selected := True\<rparr>]\<rparr>
         in foldM (\<lambda>module. module (length (person_plans person) - 1)) (gps_modules st) person) }) }"

section \<open>The strategy manager\<close>

type_synonym strategy_weight = "string \<times> f64"

record strategy_manager =
  weights_per_subpopulation :: "string \<rightharpoonup> strategy_weight list"
  max_memory_size :: nat
  plan_remover :: default_selector
  strategies :: "string \<rightharpoonup> plan_strategy"

definition assert_known_strategy_name :: "string \<Rightarrow> unit option" where
  "assert_known_strategy_name name = ensure (selector_from_str name \<noteq> None \<or> strategy_from_str name \<noteq> None)"

record strategy_setting =
  set_name :: string
  set_weight :: f64
  set_subpopulation :: string

definition weights_from_settings :: "strategy_setting list \<Rightarrow> (string \<rightharpoonup> strategy_weight list) option" where
  "weights_from_settings settings = foldM (\<lambda>s ws. do {
     _ \<leftarrow> assert_known_strategy_name (set_name s);
     (let entries = (case ws (set_subpopulation s) of None \<Rightarrow> [] | Some es \<Rightarrow> es)
      in Some (ws(set_subpopulation s \<mapsto> entries @ [(set_name s, set_weight s)]))) }) settings Map.empty"

record 'x replanning_config =
  fraction_to_disable_innovation :: 'x
  max_agent_plan_memory :: nat
  plan_selector_for_removal :: string
  strategy_settings :: "strategy_setting list"

definition from_replanning_config :: "'x replanning_config \<Rightarrow> strategy_manager option" where
  "from_replanning_config cfg = do {
     ws \<leftarrow> weights_from_settings (strategy_settings cfg);
     remover \<leftarrow> selector_from_str (plan_selector_for_removal cfg);
     Some \<lparr>weights_per_subpopulation = ws, max_memory_size = max_agent_plan_memory cfg,
           plan_remover = remover, strategies = default_strategies\<rparr> }"

definition is_non_innovative_strategy :: "string \<Rightarrow> bool" where
  "is_non_innovative_strategy name \<longleftrightarrow> selector_from_str name \<noteq> None"

definition allowed_entries :: "replanning_context \<Rightarrow> strategy_weight list \<Rightarrow> strategy_weight list" where
  "allowed_entries c entries =
     filter (\<lambda>(name, w). \<not> ctx_innovation_disabled c \<or> is_non_innovative_strategy name)
       (filter (\<lambda>(name, w). 0 < w) entries)"

text \<open>The loop over the entries: the name of the entry in which the draw falls.\<close>

fun pick_entry :: "f64 \<Rightarrow> strategy_weight list \<Rightarrow> string option" where
  "pick_entry draw [] = None"
| "pick_entry draw ((name, w) # entries) = (if draw < w then Some name else pick_entry (draw - w) entries)"

text \<open>The outer option is the panic on an unknown name, the inner one that no strategy is chosen.\<close>

definition choose_strategy :: "random_draws \<Rightarrow> strategy_manager \<Rightarrow> replanning_context \<Rightarrow> internal_person \<Rightarrow>
    plan_strategy option option" where
  "choose_strategy R sm c person =
     (case weights_per_subpopulation sm (person_subpopulation person) of
        None \<Rightarrow> Some None
      | Some entries \<Rightarrow>
          (let allowed = allowed_entries c entries; total_weight = sum_list (map snd allowed)
           in if total_weight \<le> 0 then Some None
              else (case pick_entry (draw_weight R (ctx_base_seed c) (ctx_iteration c) (person_ident person)
                           ''replanning.strategy'' total_weight) allowed of
                Some name \<Rightarrow> map_option Some (strategies sm name)
              | None \<Rightarrow> (case rev allowed of
                    [] \<Rightarrow> Some None
                  | (name, _) # _ \<Rightarrow> map_option Some (strategies sm name)))))"

definition remove_nth :: "nat \<Rightarrow> 'a list \<Rightarrow> 'a list" where
  "remove_nth i xs = take i xs @ drop (Suc i) xs"

lemma remove_nth_length [simp]: "i < length xs \<Longrightarrow> length (remove_nth i xs) = length xs - 1"
  by (simp add: remove_nth_def)

function remove_plans_if_needed :: "random_draws \<Rightarrow> strategy_manager \<Rightarrow> replanning_context \<Rightarrow> internal_person \<Rightarrow>
    internal_person option" where
  "remove_plans_if_needed R sm c person =
     (if max_memory_size sm < length (person_plans person)
      then (case plan_select R (plan_remover sm) c person of
              None \<Rightarrow> None
            | Some i \<Rightarrow>
                (if i < length (person_plans person)
                 then remove_plans_if_needed R sm c (person\<lparr>person_plans := remove_nth i (person_plans person)\<rparr>)
                 else None))
      else Some person)"
  by pat_completeness auto
termination by (relation "measure (\<lambda>(R, sm, c, person). length (person_plans person))") auto

declare remove_plans_if_needed.simps [simp del]

definition strategy_run :: "random_draws \<Rightarrow> strategy_manager \<Rightarrow> nat \<Rightarrow> nat \<Rightarrow> bool \<Rightarrow> internal_person \<Rightarrow> internal_person option" where
  "strategy_run R sm iteration base_seed innovation_disabled person =
     (let c = \<lparr>ctx_iteration = iteration, ctx_base_seed = base_seed, ctx_innovation_disabled = innovation_disabled\<rparr> in do {
        strategy \<leftarrow> choose_strategy R sm c person;
        person \<leftarrow> (case strategy of None \<Rightarrow> Some person | Some st \<Rightarrow> strategy_handle R st c person);
        remove_plans_if_needed R sm c person })"

text \<open>The persons are replanned independently of each other; \<open>ord\<close> is the order in which they are collected.\<close>

definition replan_population :: "(person_id set \<Rightarrow> person_id list) \<Rightarrow> random_draws \<Rightarrow> population \<Rightarrow> nat \<Rightarrow> nat \<Rightarrow>
    strategy_manager \<Rightarrow> bool \<Rightarrow> population option" where
  "replan_population ord R population iteration base_seed sm innovation_disabled =
     foldM (\<lambda>i persons. do {
        person \<leftarrow> population i;
        person \<leftarrow> strategy_run R sm iteration base_seed innovation_disabled person;
        Some (persons(i \<mapsto> person)) }) (ord (dom population)) population_new"

section \<open>The replanning pool\<close>

record replanning_pool =
  rp_strategy_manager :: strategy_manager
  rp_first_iteration :: nat
  rp_last_iteration :: nat
  rp_disable_fraction :: f64

definition replanning_pool_new :: "f64 replanning_config \<Rightarrow> nat \<Rightarrow> nat \<Rightarrow> replanning_pool option" where
  "replanning_pool_new cfg first_iteration last_iteration = do {
     sm \<leftarrow> from_replanning_config cfg;
     Some \<lparr>rp_strategy_manager = sm, rp_first_iteration = first_iteration, rp_last_iteration = last_iteration,
           rp_disable_fraction = fraction_to_disable_innovation cfg\<rparr> }"

definition innovation_disabled :: "replanning_pool \<Rightarrow> nat \<Rightarrow> bool" where
  "innovation_disabled pool iteration =
     (let total_iterations = rp_last_iteration pool - rp_first_iteration pool;
          progress = (if total_iterations = 0 then 1
                      else of_nat (iteration - rp_first_iteration pool) / of_nat total_iterations)
      in rp_disable_fraction pool \<le> progress)"

definition replan :: "(person_id set \<Rightarrow> person_id list) \<Rightarrow> random_draws \<Rightarrow> replanning_pool \<Rightarrow> population \<Rightarrow> nat \<Rightarrow> nat \<Rightarrow>
    population option" where
  "replan ord R pool population iteration base_seed =
     replan_population ord R population iteration base_seed (rp_strategy_manager pool) (innovation_disabled pool iteration)"

section \<open>The choice of a strategy\<close>

lemma pick_entry_hit:
  assumes "\<forall>e\<in>set es. 0 < snd e" and "0 \<le> d" and "d < sum_list (map snd es)"
  shows "\<exists>k<length es. pick_entry d es = Some (fst (es ! k)) \<and>
    sum_list (map snd (take k es)) \<le> d \<and> d < sum_list (map snd (take (Suc k) es))"
  using assms
proof (induction es arbitrary: d)
  case (Cons e es)
  obtain n w where e: "e = (n, w)" by force
  show ?case
  proof (cases "d < w")
    case True
    then show ?thesis using Cons.prems by (intro exI[of _ 0]) (simp add: e)
  next
    case False
    with Cons.prems Cons.IH[of "d - w"] obtain k where "k < length es" "pick_entry (d - w) es = Some (fst (es ! k))"
      "sum_list (map snd (take k es)) \<le> d - w" "d - w < sum_list (map snd (take (Suc k) es))"
      by (auto simp: e)
    then show ?thesis using False by (intro exI[of _ "Suc k"]) (auto simp: e algebra_simps)
  qed
qed simp

lemma sum_positive: "\<forall>e\<in>set es. 0 < snd e \<Longrightarrow> es \<noteq> [] \<Longrightarrow> 0 < sum_list (map (snd :: _ \<Rightarrow> f64) es)"
proof (induction es)
  case (Cons e es)
  then show ?case by (cases "es = []") (auto intro: add_pos_pos)
qed simp

lemma set_allowed:
  "(name, w) \<in> set (allowed_entries c es) \<longleftrightarrow> (name, w) \<in> set es \<and> 0 < w \<and>
     (ctx_innovation_disabled c \<longrightarrow> is_non_innovative_strategy name)"
  by (auto simp: allowed_entries_def)

text \<open>
  The strategy of a person is one of the entries of the subpopulation of positive weight, and
  no innovative one when innovation is disabled; it is the entry in whose part of the interval
  from zero to the sum of the weights the random draw falls. There is no strategy only if there
  is no such entry.
\<close>

theorem choose_strategy_spec:
  assumes R: "draws_ok R" and ws: "weights_per_subpopulation sm (person_subpopulation person) = Some entries"
    and allowed: "allowed = allowed_entries c entries"
    and d: "d = draw_weight R (ctx_base_seed c) (ctx_iteration c) (person_ident person) ''replanning.strategy''
                  (sum_list (map snd allowed))"
  shows "(allowed = [] \<longrightarrow> choose_strategy R sm c person = Some None) \<and>
    (allowed \<noteq> [] \<longrightarrow> (\<exists>k<length allowed.
       choose_strategy R sm c person = map_option Some (strategies sm (fst (allowed ! k))) \<and>
       sum_list (map snd (take k allowed)) \<le> d \<and> d < sum_list (map snd (take (Suc k) allowed)) \<and>
       allowed ! k \<in> set entries \<and> 0 < snd (allowed ! k) \<and>
       (ctx_innovation_disabled c \<longrightarrow> is_non_innovative_strategy (fst (allowed ! k)))))"
proof (intro conjI impI)
  show "choose_strategy R sm c person = Some None" if "allowed = []"
    using that ws allowed by (simp add: choose_strategy_def)
next
  assume ne: "allowed \<noteq> []"
  have pos: "\<forall>e\<in>set allowed. 0 < snd e" using set_allowed allowed by auto
  then have total: "0 < sum_list (map snd allowed)" using ne by (rule sum_positive)
  then have "0 \<le> d" "d < sum_list (map snd allowed)" using R d by (auto simp: draws_ok_def)
  from pick_entry_hit[OF pos this] obtain k where k: "k < length allowed" "pick_entry d allowed = Some (fst (allowed ! k))"
    "sum_list (map snd (take k allowed)) \<le> d" "d < sum_list (map snd (take (Suc k) allowed))" by blast
  have "choose_strategy R sm c person = map_option Some (strategies sm (fst (allowed ! k)))"
    using ws k(2) total unfolding choose_strategy_def allowed[symmetric] d by (simp add: Let_def allowed[symmetric])
  moreover have "allowed ! k \<in> set (allowed_entries c entries)" using k(1) allowed by simp
  ultimately show "\<exists>k<length allowed.
       choose_strategy R sm c person = map_option Some (strategies sm (fst (allowed ! k))) \<and>
       sum_list (map snd (take k allowed)) \<le> d \<and> d < sum_list (map snd (take (Suc k) allowed)) \<and>
       allowed ! k \<in> set entries \<and> 0 < snd (allowed ! k) \<and>
       (ctx_innovation_disabled c \<longrightarrow> is_non_innovative_strategy (fst (allowed ! k)))"
    using k set_allowed[of "fst (allowed ! k)" "snd (allowed ! k)" c entries] by (intro exI[of _ k]) auto
qed

section \<open>Removing plans\<close>

text \<open>One plan is selected.\<close>

definition one_selected :: "internal_plan list \<Rightarrow> bool" where
  "one_selected plans \<longleftrightarrow> length (filter plan_selected plans) = 1"

lemma worst_fold:
  assumes "n \<le> length plans"
  shows "(case fold (worst_step plans True) [0..<n] None of
      None \<Rightarrow> \<forall>i<n. plan_selected (plans ! i)
    | Some w \<Rightarrow> w < n \<and> \<not> plan_selected (plans ! w))"
  using assms
proof (induction n)
  case (Suc n)
  then show ?case by (auto simp: worst_step_def less_Suc_eq split: option.splits)
qed simp

lemma worst_unselected:
  assumes "one_selected plans" and "2 \<le> length plans"
  obtains i where "select_worst_score plans = Some i" and "i < length plans" and "\<not> plan_selected (plans ! i)"
proof -
  have "\<exists>p\<in>set plans. \<not> plan_selected p"
  proof (rule ccontr)
    assume "\<not> ?thesis"
    then have "filter plan_selected plans = plans" by (simp add: filter_id_conv)
    then show False using assms by (simp add: one_selected_def)
  qed
  then obtain j where j: "j < length plans" "\<not> plan_selected (plans ! j)" by (auto simp: in_set_conv_nth)
  then have "list_ex (\<lambda>p. \<not> plan_selected p) plans" by (auto simp: list_ex_iff)
  then show thesis
    using worst_fold[of "length plans" plans] j that by (auto simp: select_worst_score_def split: option.splits)
qed

lemma filter_remove_nth:
  assumes "i < length xs" and "\<not> P (xs ! i)"
  shows "filter P (remove_nth i xs) = filter P xs"
proof -
  have "filter P xs = filter P (take i xs @ xs ! i # drop (Suc i) xs)" using id_take_nth_drop[OF assms(1)] by simp
  then show ?thesis using assms(2) by (simp add: remove_nth_def)
qed

lemma remove_plans_ok:
  assumes "plan_remover sm = WorstScore" and "1 \<le> max_memory_size sm" and "one_selected (person_plans p)"
  shows "\<exists>plans. remove_plans_if_needed R sm c p = Some (p\<lparr>person_plans := plans\<rparr>) \<and>
    filter plan_selected plans = filter plan_selected (person_plans p) \<and> length plans \<le> max_memory_size sm"
  using assms
proof (induction R sm c p rule: remove_plans_if_needed.induct)
  case (1 R sm c p)
  show ?case
  proof (cases "max_memory_size sm < length (person_plans p)")
    case True
    then have "2 \<le> length (person_plans p)" using "1.prems"(2) by simp
    then obtain i where i: "select_worst_score (person_plans p) = Some i" "i < length (person_plans p)"
      "\<not> plan_selected (person_plans p ! i)" using worst_unselected[OF "1.prems"(3)] by blast
    let ?q = "p\<lparr>person_plans := remove_nth i (person_plans p)\<rparr>"
    have f: "filter plan_selected (person_plans ?q) = filter plan_selected (person_plans p)"
      using filter_remove_nth[of i "person_plans p" plan_selected] i by simp
    have "plan_select R (plan_remover sm) c p = Some i" using i(1) "1.prems"(1) by simp
    from "1.IH"[OF True this i(2) "1.prems"(1,2)] f "1.prems"(3) this show ?thesis
      using True i(2) by (subst remove_plans_if_needed.simps) (auto simp: one_selected_def)
  next
    case False
    then show ?thesis by (intro exI[of _ "person_plans p"]) (simp add: remove_plans_if_needed.simps)
  qed
qed

section \<open>Replanning a population\<close>

text \<open>A module that neither panics nor touches anything but the contents of plans.\<close>

definition module_ok :: "plan_module \<Rightarrow> bool" where
  "module_ok m \<longleftrightarrow> (\<forall>i p. i < length (person_plans p) \<longrightarrow> (\<exists>plans. m i p = Some (p\<lparr>person_plans := plans\<rparr>) \<and>
     map plan_selected plans = map plan_selected (person_plans p)))"

definition manager_ok :: "strategy_manager \<Rightarrow> bool" where
  "manager_ok sm \<longleftrightarrow> plan_remover sm = WorstScore \<and> 1 \<le> max_memory_size sm \<and>
     (\<forall>u es name w. weights_per_subpopulation sm u = Some es \<longrightarrow> (name, w) \<in> set es \<longrightarrow>
        (\<exists>st. strategies sm name = Some st \<and> gps_selector st \<noteq> BestScore \<and> (\<forall>m\<in>set (gps_modules st). module_ok m)))"

lemma length_filter_map_id: "length (filter P xs) = length (filter (\<lambda>b. b) (map P xs))"
  by (induction xs) auto

lemma one_selected_cong: "map plan_selected ps = map plan_selected qs \<Longrightarrow> one_selected ps = one_selected qs"
  unfolding one_selected_def length_filter_map_id[of plan_selected] by simp

lemma keep_last_ok:
  assumes "one_selected plans"
  obtains i where "select_keep_last plans = Some i" and "i < length plans"
proof -
  let ?is = "filter (\<lambda>i. plan_selected (plans ! i)) [0..<length plans]"
  have "length ?is = length (filter plan_selected plans)"
  proof -
    have "map (\<lambda>i. plan_selected (plans ! i)) [0..<length plans] = map plan_selected plans"
      by (intro nth_equalityI) simp_all
    then show ?thesis
      unfolding length_filter_map_id[of plan_selected] length_filter_map_id[of "\<lambda>i. plan_selected (plans ! i)"]
      by simp
  qed
  then obtain i where i: "?is = [i]" using assms by (auto simp: one_selected_def length_Suc_conv)
  moreover have "set ?is \<subseteq> {..<length plans}" by auto
  ultimately show thesis using that by (simp add: select_keep_last_def)
qed

lemma one_selected_nonempty: "one_selected plans \<Longrightarrow> 0 < length plans"
  by (cases plans) (auto simp: one_selected_def)

lemma plan_select_ok:
  assumes "draws_ok R" and "sel \<noteq> BestScore" and "one_selected (person_plans p)"
  obtains i where "plan_select R sel c p = Some i" and "i < length (person_plans p)"
proof (cases sel)
  case KeepLastSelected
  then show ?thesis using keep_last_ok[OF assms(3)] that by auto
next
  case SelectRandom
  then show ?thesis using assms one_selected_nonempty that by (auto simp: select_random_def draws_ok_def)
next
  case WorstScore
  show ?thesis
  proof (cases "2 \<le> length (person_plans p)")
    case True
    then show ?thesis using worst_unselected[OF assms(3) True] that WorstScore by auto
  next
    case False
    then obtain q where "person_plans p = [q]"
      using one_selected_nonempty[OF assms(3)] by (cases "person_plans p") (auto simp: Suc_le_eq)
    then show ?thesis
      using WorstScore that[of 0] assms(3) by (simp add: select_worst_score_def worst_step_def one_selected_def)
  qed
qed (use assms(2) in simp)

text \<open>The strategy adds at most one plan, and there is again one selected plan.\<close>

lemma strategy_handle_ok:
  assumes "draws_ok R" and "gps_selector st \<noteq> BestScore" and "\<forall>m\<in>set (gps_modules st). module_ok m"
    and "one_selected (person_plans p)"
  shows "\<exists>plans. strategy_handle R st c p = Some (p\<lparr>person_plans := plans\<rparr>) \<and> one_selected plans \<and>
    (if gps_modules st = [] then plans = person_plans p else length plans = Suc (length (person_plans p)))"
proof -
  obtain i where i: "plan_select R (gps_selector st) c p = Some i" "i < length (person_plans p)"
    by (rule plan_select_ok[OF assms(1,2,4)])
  show ?thesis
  proof (cases "gps_modules st = []")
    case True
    then show ?thesis using i assms(4) by (intro exI[of _ "person_plans p"]) (simp add: strategy_handle_def)
  next
    case False
    let ?plans = "map (plan_selected_update (\<lambda>_. False)) (person_plans p) @ [(person_plans p ! i)\<lparr>plan_selected := True\<rparr>]"
    let ?q = "p\<lparr>person_plans := ?plans\<rparr>" and ?n = "length (person_plans p)"
    have "filter plan_selected (map (plan_selected_update (\<lambda>_. False)) (person_plans p)) = []"
      by (simp add: filter_empty_conv)
    then have one: "one_selected ?plans" by (simp add: one_selected_def)
    have "\<exists>r. foldM (\<lambda>module. module ?n) (gps_modules st) ?q = Some r \<and>
        (\<exists>plans. r = p\<lparr>person_plans := plans\<rparr> \<and> map plan_selected plans = map plan_selected ?plans)"
    proof (rule foldM_total)
      show "\<exists>plans. ?q = p\<lparr>person_plans := plans\<rparr> \<and> map plan_selected plans = map plan_selected ?plans" by blast
    next
      fix m r assume m: "m \<in> set (gps_modules st)"
        and "\<exists>plans. r = p\<lparr>person_plans := plans\<rparr> \<and> map plan_selected plans = map plan_selected ?plans"
      then obtain plans where plans: "r = p\<lparr>person_plans := plans\<rparr>" "map plan_selected plans = map plan_selected ?plans"
        by blast
      have "length plans = Suc ?n" using arg_cong[OF plans(2), of length] by simp
      then obtain plans' where "m ?n r = Some (r\<lparr>person_plans := plans'\<rparr>)" "map plan_selected plans' = map plan_selected plans"
        using bspec[OF assms(3) m, unfolded module_ok_def, rule_format, of ?n r] plans(1) by auto
      then show "\<exists>r'. m ?n r = Some r' \<and>
          (\<exists>plans. r' = p\<lparr>person_plans := plans\<rparr> \<and> map plan_selected plans = map plan_selected ?plans)"
        using plans by auto
    qed
    then obtain plans where plans: "foldM (\<lambda>module. module ?n) (gps_modules st) ?q = Some (p\<lparr>person_plans := plans\<rparr>)"
      "map plan_selected plans = map plan_selected ?plans" by blast
    have "length plans = Suc ?n" using arg_cong[OF plans(2), of length] by simp
    moreover have "one_selected plans" using one one_selected_cong[OF plans(2)] by simp
    ultimately show ?thesis
      using i plans(1) False by (intro exI[of _ plans]) (simp add: strategy_handle_def list_get_def)
  qed
qed

lemma choose_strategy_cases:
  assumes "draws_ok R" and "manager_ok sm"
  obtains (none) "choose_strategy R sm c p = Some None"
  | (some) st where "choose_strategy R sm c p = Some (Some st)" and "gps_selector st \<noteq> BestScore"
      and "\<forall>m\<in>set (gps_modules st). module_ok m"
proof (cases "weights_per_subpopulation sm (person_subpopulation p)")
  case None
  then show ?thesis using none by (simp add: choose_strategy_def)
next
  case (Some entries)
  show ?thesis
  proof (cases "allowed_entries c entries = []")
    case True
    then show ?thesis using none Some by (simp add: choose_strategy_def)
  next
    case False
    then have total: "0 < sum_list (map snd (allowed_entries c entries))"
      using set_allowed by (intro sum_positive) auto
    let ?d = "draw_weight R (ctx_base_seed c) (ctx_iteration c) (person_ident p) ''replanning.strategy''
      (sum_list (map snd (allowed_entries c entries)))"
    have "0 \<le> ?d" "?d < sum_list (map snd (allowed_entries c entries))" using assms(1) total by (auto simp: draws_ok_def)
    then obtain k where k: "k < length (allowed_entries c entries)"
      "pick_entry ?d (allowed_entries c entries) = Some (fst (allowed_entries c entries ! k))"
      using pick_entry_hit[of "allowed_entries c entries" ?d] set_allowed by fastforce
    have "allowed_entries c entries ! k \<in> set entries"
      using nth_mem[OF k(1)] set_allowed[of "fst (allowed_entries c entries ! k)" "snd (allowed_entries c entries ! k)"] by auto
    then obtain st where "strategies sm (fst (allowed_entries c entries ! k)) = Some st" "gps_selector st \<noteq> BestScore"
      "\<forall>m\<in>set (gps_modules st). module_ok m"
      using assms(2) Some unfolding manager_ok_def by (metis prod.collapse)
    then show ?thesis using some Some k(2) total by (simp add: choose_strategy_def Let_def)
  qed
qed

lemma strategy_run_ok:
  assumes "draws_ok R" and "manager_ok sm" and "one_selected (person_plans p)"
  shows "\<exists>plans. strategy_run R sm it seed dis p = Some (p\<lparr>person_plans := plans\<rparr>) \<and> one_selected plans \<and>
    length plans \<le> max_memory_size sm"
proof -
  let ?c = "\<lparr>ctx_iteration = it, ctx_base_seed = seed, ctx_innovation_disabled = dis\<rparr>"
  have "\<exists>strategy plans. choose_strategy R sm ?c p = Some strategy \<and> one_selected plans \<and>
      (case strategy of None \<Rightarrow> Some p | Some st \<Rightarrow> strategy_handle R st ?c p) = Some (p\<lparr>person_plans := plans\<rparr>)"
  proof -
    consider (none) "choose_strategy R sm ?c p = Some None"
      | (some) st where "choose_strategy R sm ?c p = Some (Some st)" "gps_selector st \<noteq> BestScore"
          "\<forall>m\<in>set (gps_modules st). module_ok m"
      using choose_strategy_cases[OF assms(1,2)] by blast
    then show ?thesis
    proof cases
    case none
    then show ?thesis using assms(3) by (intro exI[of _ None] exI[of _ "person_plans p"]) simp
  next
    case (some st)
    then show ?thesis using strategy_handle_ok[OF assms(1) some(2,3) assms(3), of ?c] by (intro exI[of _ "Some st"]) auto
    qed
  qed
  then obtain strategy plans where st: "choose_strategy R sm ?c p = Some strategy" "one_selected plans"
    "(case strategy of None \<Rightarrow> Some p | Some st \<Rightarrow> strategy_handle R st ?c p) = Some (p\<lparr>person_plans := plans\<rparr>)" by blast
  moreover obtain plans' where "remove_plans_if_needed R sm ?c (p\<lparr>person_plans := plans\<rparr>) = Some (p\<lparr>person_plans := plans'\<rparr>)"
    "filter plan_selected plans' = filter plan_selected plans" "length plans' \<le> max_memory_size sm"
    using remove_plans_ok[of sm "p\<lparr>person_plans := plans\<rparr>" R ?c] assms(2) st(2) by (auto simp: manager_ok_def)
  ultimately show ?thesis
    by (intro exI[of _ plans']) (simp add: strategy_run_def one_selected_def Let_def)
qed

text \<open>
  C39. Replanning a population does not panic and returns the same persons, each with at most as
  many plans as the memory holds and with exactly one selected plan, when plans are removed by
  \<open>WorstScore\<close>, the memory is not empty, every person has exactly one selected plan, and the
  strategies with a weight are registered, do not select by score and have modules that return.
\<close>

theorem replanning_keeps_persons:
  assumes "hash_order ord" and "finite (dom population)" and "draws_ok R" and "manager_ok sm"
    and "\<forall>i p. population i = Some p \<longrightarrow> one_selected (person_plans p)"
  shows "\<exists>population'. replan_population ord R population it seed sm dis = Some population' \<and>
    dom population' = dom population \<and>
    (\<forall>i p. population i = Some p \<longrightarrow> (\<exists>plans. population' i = Some (p\<lparr>person_plans := plans\<rparr>) \<and>
       one_selected plans \<and> length plans \<le> max_memory_size sm))"
proof -
  define good where "good S persons \<longleftrightarrow> dom persons = S \<and> (\<forall>i p. i \<in> S \<longrightarrow> population i = Some p \<longrightarrow>
    (\<exists>plans. persons i = Some (p\<lparr>person_plans := plans\<rparr>) \<and> one_selected plans \<and> length plans \<le> max_memory_size sm))"
    for S and persons :: population
  let ?f = "\<lambda>i persons. do { person \<leftarrow> population i; person \<leftarrow> strategy_run R sm it seed dis person; Some (persons(i \<mapsto> person)) }"
  have "\<exists>persons'. foldM ?f is persons = Some persons' \<and> good (S \<union> set is) persons'"
    if "good S persons" "set is \<subseteq> dom population" for "is" S persons
    using that
  proof (induction "is" arbitrary: S persons)
    case (Cons i "is")
    then obtain p where p: "population i = Some p" by auto
    then obtain plans where plans: "strategy_run R sm it seed dis p = Some (p\<lparr>person_plans := plans\<rparr>)" "one_selected plans"
      "length plans \<le> max_memory_size sm"
      using strategy_run_ok[OF assms(3,4), of p it seed dis] assms(5) by blast
    then have "good (insert i S) (persons(i \<mapsto> p\<lparr>person_plans := plans\<rparr>))"
      using Cons.prems(1) p by (auto simp: good_def)
    from Cons.IH[OF this] show ?case using Cons.prems(2) p plans by simp
  qed simp
  from this[of "{}" population_new "ord (dom population)"] show ?thesis
    using hash_order.ord_set[OF assms(1,2)] unfolding replan_population_def good_def
    by (auto simp: population_new_def) (meson domI)
qed

section \<open>Innovation, removal and selection\<close>

text \<open>
  Once innovation is disabled it stays disabled in later iterations, and in the last iteration
  it is disabled for every fraction of at most one.
\<close>

theorem innovation_stays_disabled:
  assumes "i \<le> j" and "rp_first_iteration pool \<le> rp_last_iteration pool"
  shows "(innovation_disabled pool i \<longrightarrow> innovation_disabled pool j) \<and>
    (rp_disable_fraction pool \<le> 1 \<longrightarrow> innovation_disabled pool (rp_last_iteration pool))"
proof -
  let ?n = "rp_last_iteration pool - rp_first_iteration pool"
  have "of_nat (i - rp_first_iteration pool) / of_nat ?n \<le> (of_nat (j - rp_first_iteration pool) / of_nat ?n :: f64)"
    using assms(1) by (intro divide_right_mono) (auto simp: diff_le_mono)
  then show ?thesis by (auto simp: innovation_disabled_def Let_def intro: order_trans)
qed

text \<open>A strategy that is a bare selector never changes the person: what it selects is not used.\<close>

lemma selector_strategies_change_nothing:
  "strategy_handle R (selector_as_generic_plan_strategy sel) c p = map_option (\<lambda>_. p) (plan_select R sel c p)"
  by (cases "plan_select R sel c p") (simp_all add: strategy_handle_def selector_as_generic_plan_strategy_def)

definition ex_plan :: "f64 \<Rightarrow> bool \<Rightarrow> internal_plan" where
  "ex_plan score sel = \<lparr>plan_score = Some score, plan_selected = sel, plan_elements = []\<rparr>"

definition ex_planner :: internal_person where
  "ex_planner = (person_new ''a'' (ex_plan 1 True))\<lparr>person_plans := [ex_plan 1 True, ex_plan 2 False]\<rparr>"

definition ex_draws :: random_draws where
  "ex_draws = \<lparr>draw_index = (\<lambda>_ _ _ _ _. 0), draw_weight = (\<lambda>_ _ _ _ w. w / 2)\<rparr>"

definition ex_replanning_config :: "string \<Rightarrow> f64 replanning_config" where
  "ex_replanning_config remover = \<lparr>fraction_to_disable_innovation = 1, max_agent_plan_memory = 1,
     plan_selector_for_removal = remover,
     strategy_settings = [\<lparr>set_name = ''KeepLastSelected'', set_weight = 1, set_subpopulation = ''person''\<rparr>]\<rparr>"

definition ex_manager :: "default_selector \<Rightarrow> strategy_manager" where
  "ex_manager remover = \<lparr>weights_per_subpopulation = [''person'' \<mapsto> [(''KeepLastSelected'', 1)]],
     max_memory_size = 1, plan_remover = remover, strategies = default_strategies\<rparr>"

lemma ex_manager_config: "from_replanning_config (ex_replanning_config (selector_as_str s)) = Some (ex_manager s)"
  by (cases s) (simp_all add: from_replanning_config_def ex_replanning_config_def ex_manager_def weights_from_settings_def
      assert_known_strategy_name_def selector_from_str_def)

lemma ex_handle: "strategy_handle ex_draws (selector_as_generic_plan_strategy KeepLastSelected) c ex_planner = Some ex_planner"
  by (simp add: selector_strategies_change_nothing ex_planner_def ex_plan_def select_keep_last_def)

lemma ex_choice: "choose_strategy ex_draws (ex_manager remover) c ex_planner =
    Some (Some (selector_as_generic_plan_strategy KeepLastSelected))"
  by (simp add: choose_strategy_def ex_manager_def ex_planner_def person_new_def allowed_entries_def
      is_non_innovative_strategy_def selector_from_str_def ex_draws_def default_strategies_def)

text \<open>
  C40. With a selector for the removal that does not spare the selected plan, here
  \<open>KeepLastSelected\<close>, a person can lose it: a person with a selected plan and a memory of one plan
  has no selected plan after replanning, although the configuration is accepted.
\<close>

theorem removal_loses_selected_plan:
  "from_replanning_config (ex_replanning_config ''KeepLastSelected'') = Some (ex_manager KeepLastSelected) \<and>
   one_selected (person_plans ex_planner) \<and>
   (\<exists>p. strategy_run ex_draws (ex_manager KeepLastSelected) 0 42 False ex_planner = Some p \<and> selected_plan p = None)"
proof -
  let ?c = "\<lparr>ctx_iteration = 0, ctx_base_seed = 42, ctx_innovation_disabled = False\<rparr>"
  let ?p = "ex_planner\<lparr>person_plans := [ex_plan 2 False]\<rparr>"
  have "remove_plans_if_needed ex_draws (ex_manager KeepLastSelected) ?c ?p = Some ?p"
    by (subst remove_plans_if_needed.simps) (simp add: ex_manager_def)
  then have "remove_plans_if_needed ex_draws (ex_manager KeepLastSelected) ?c ex_planner = Some ?p"
    by (subst remove_plans_if_needed.simps)
      (simp add: ex_manager_def ex_planner_def ex_plan_def select_keep_last_def remove_nth_def)
  then have "strategy_run ex_draws (ex_manager KeepLastSelected) 0 42 False ex_planner = Some ?p"
    by (simp add: strategy_run_def ex_choice ex_handle)
  moreover have "selected_plan ?p = None" by (simp add: selected_plan_def ex_plan_def)
  moreover have "one_selected (person_plans ex_planner)" by (simp add: one_selected_def ex_planner_def ex_plan_def)
  ultimately show ?thesis using ex_manager_config[of KeepLastSelected] by auto
qed

section \<open>Witnesses\<close>

lemma ex_draws_ok: "draws_ok ex_draws"
  by (simp add: draws_ok_def ex_draws_def)

theorem choose_strategy_spec_witness:
  "choose_strategy ex_draws (ex_manager WorstScore) \<lparr>ctx_iteration = 0, ctx_base_seed = 42, ctx_innovation_disabled = True\<rparr>
     ex_planner \<noteq> None"
  using choose_strategy_spec[OF ex_draws_ok, of "ex_manager WorstScore" ex_planner "[(''KeepLastSelected'', 1)]" _
      "\<lparr>ctx_iteration = 0, ctx_base_seed = 42, ctx_innovation_disabled = True\<rparr>", OF _ refl refl]
  by (auto simp: ex_manager_def ex_planner_def person_new_def set_allowed default_strategies_def)

theorem replanning_keeps_persons_witness:
  "\<exists>population'. replan_population sorted_list_of_set ex_draws [''a'' \<mapsto> ex_planner] 0 42 (ex_manager WorstScore) False = Some population' \<and>
     dom population' = {''a''}"
proof -
  have "manager_ok (ex_manager WorstScore)"
    by (auto simp: manager_ok_def ex_manager_def default_strategies_def selector_as_generic_plan_strategy_def split: if_splits)
  moreover have "hash_order (sorted_list_of_set :: person_id set \<Rightarrow> person_id list)" by unfold_locales auto
  moreover have "\<forall>i p. [''a'' \<mapsto> ex_planner] i = Some p \<longrightarrow> one_selected (person_plans p)"
    by (simp add: one_selected_def ex_planner_def ex_plan_def)
  ultimately show ?thesis
    using replanning_keeps_persons[of sorted_list_of_set "[''a'' \<mapsto> ex_planner]" ex_draws "ex_manager WorstScore" 0 42 False] ex_draws_ok
    by auto
qed

theorem innovation_stays_disabled_witness:
  "innovation_disabled \<lparr>rp_strategy_manager = ex_manager WorstScore, rp_first_iteration = 0, rp_last_iteration = 10,
     rp_disable_fraction = 1 / 2\<rparr> 7"
  using innovation_stays_disabled[of 5 7 "\<lparr>rp_strategy_manager = ex_manager WorstScore, rp_first_iteration = 0,
     rp_last_iteration = 10, rp_disable_fraction = 1 / 2\<rparr>"]
  by (simp add: innovation_disabled_def)

end
