(* ===== verification/Config.thy ===== *)
theory Config
  imports Links Population Trip_Routing Replanning "HOL-Library.Sublist"
begin

text \<open>
  The configuration (\<open>config.rs\<close>) and the paths of files (\<open>io/mod.rs\<close>): the modules by name, the
  defaults, the migration of the deprecated module \<open>simulation\<close> and the overrides of the command
  line. A trait object of \<open>ConfigModule\<close> is a value of the datatype \<open>config_module\<close>; a downcast to
  another type than the one that is stored panics. A method that hands out a mutable reference is
  a function that applies an update to what it refers to.

  Reading YAML is done by serde; what it delivers for a file is a parameter. The two \<open>f64\<close> that
  the command line can set hold infinities and NaN too (\<open>xf64\<close>). Text is ASCII.
\<close>

section \<open>Reading values\<close>

definition parse_u32 :: "string \<Rightarrow> nat option" where
  "parse_u32 s = (case parse_u64 s of Some n \<Rightarrow> if n \<le> u32_max then Some n else None | None \<Rightarrow> None)"

definition parse_bool :: "string \<Rightarrow> bool option" where
  "parse_bool s = (if s = ''true'' then Some True else if s = ''false'' then Some False else None)"

definition read_sign :: "string \<Rightarrow> bool \<times> string" where
  "read_sign s = (case s of c # cs \<Rightarrow> if c = CHR ''-'' then (True, cs) else if c = CHR ''+'' then (False, cs) else (False, s)
                  | [] \<Rightarrow> (False, []))"

text \<open>The digits before and after the point, at least one.\<close>

definition parse_mantissa :: "string \<Rightarrow> f64 option" where
  "parse_mantissa s = (let (i, f) = (case split_once CHR ''.'' s of None \<Rightarrow> (s, []) | Some p \<Rightarrow> p) in
     if (i \<noteq> [] \<or> f \<noteq> []) \<and> list_all is_ascii_digit (i @ f)
     then Some (of_nat (read_digits (i @ f)) / 10 ^ length f) else None)"

definition parse_exponent :: "string \<Rightarrow> f64 option" where
  "parse_exponent s = (let (neg, ds) = read_sign s in
     if ds \<noteq> [] \<and> list_all is_ascii_digit ds
     then Some (if neg then 1 / 10 ^ read_digits ds else 10 ^ read_digits ds) else None)"

definition to_lowercase :: "string \<Rightarrow> string" where
  "to_lowercase s = map (\<lambda>c. if 65 \<le> (of_char c :: nat) \<and> (of_char c :: nat) \<le> 90 then char_of (of_char c + 32 :: nat) else c) s"

text \<open>
  A value of at least \<open>2 ^ 1024 - 2 ^ 970\<close> is nearer to the infinity than to the greatest finite \<open>f64\<close>.
  The other numbers stay exact.
\<close>

definition xf64_of :: "f64 \<Rightarrow> xf64" where
  "xf64_of x = (let bound = 2 ^ 1024 - 2 ^ 970 in
     if bound \<le> x then PosInf else if x \<le> - bound then NegInf else Fin x)"

definition parse_number :: "string \<Rightarrow> f64 option" where
  "parse_number t = (let is_exp = (\<lambda>c. c = CHR ''e'' \<or> c = CHR ''E'') in do {
     x \<leftarrow> parse_mantissa (takeWhile (\<lambda>c. \<not> is_exp c) t);
     y \<leftarrow> (case dropWhile (\<lambda>c. \<not> is_exp c) t of [] \<Rightarrow> Some 1 | _ # ds \<Rightarrow> parse_exponent ds);
     Some (x * y) })"

text \<open>\<open>str::parse::<f64>\<close>: the words for infinity and NaN are read in any case, with a sign or without.\<close>

definition parse_f64 :: "string \<Rightarrow> xf64 option" where
  "parse_f64 s = (let (neg, t) = read_sign s; word = to_lowercase t in
     if word = ''nan'' then Some NaN
     else if word = ''inf'' \<or> word = ''infinity'' then Some (if neg then NegInf else PosInf)
     else map_option (\<lambda>x. xf64_of (if neg then - x else x)) (parse_number t))"

text \<open>\<open>replace(['-', '_'], "")\<close>\<close>

definition without_dashes :: "string \<Rightarrow> string" where
  "without_dashes s = filter (\<lambda>c. c \<noteq> CHR ''-'' \<and> c \<noteq> CHR ''_'') s"

definition is_ascii_space :: "char \<Rightarrow> bool" where
  "is_ascii_space c \<longleftrightarrow> (of_char c :: nat) = 32 \<or> 9 \<le> (of_char c :: nat) \<and> (of_char c :: nat) \<le> 13"

definition str_trim :: "string \<Rightarrow> string" where
  "str_trim s = rev (dropWhile is_ascii_space (rev (dropWhile is_ascii_space s)))"

text \<open>The value parser of \<open>--set KEY=VALUE\<close>.\<close>

definition parse_key_val :: "string \<Rightarrow> string + (string \<times> string)" where
  "parse_key_val s = ok_or (''invalid KEY=VALUE: no `=` found in `'' @ s @ ''`'') (split_once CHR ''='' s)"

section \<open>Modules\<close>

datatype overwrite_files = DeleteDirectoryIfExists | FailIfDirectoryExists | OverwriteExistingFiles

definition parse_overwrite_file :: "string \<Rightarrow> overwrite_files option" where
  "parse_overwrite_file value = (let s = without_dashes (to_lowercase value) in
     if s = ''deletedirectoryifexists'' then Some DeleteDirectoryIfExists
     else if s = ''failifdirectoryexists'' then Some FailIfDirectoryExists
     else if s = ''overwriteexistingfiles'' then Some OverwriteExistingFiles else None)"

datatype compression_type = NoCompression | Gz | Proto | Zst

fun extension :: "compression_type \<Rightarrow> string" where
  "extension NoCompression = ''xml''"
| "extension Gz = ''xml.gz''"
| "extension Proto = ''binpb''"
| "extension Zst = ''xml.zst''"

definition with_extension :: "compression_type \<Rightarrow> string \<Rightarrow> string" where
  "with_extension ct stem = stem @ ''.'' @ extension ct"

definition is_protobuf :: "compression_type \<Rightarrow> bool" where
  "is_protobuf ct \<longleftrightarrow> ct = Proto"

definition parse_compression_type :: "string \<Rightarrow> compression_type option" where
  "parse_compression_type value = (let s = without_dashes (to_lowercase value) in
     if s \<in> {''none'', ''xml''} then Some NoCompression
     else if s \<in> {''gz'', ''gzip'', ''xmlgz''} then Some Gz
     else if s \<in> {''protobuf'', ''proto'', ''binpb''} then Some Proto
     else if s \<in> {''zst'', ''zstd'', ''xmlzst''} then Some Zst else None)"

datatype vertex_weight = InLinkCapacity | InLinkCount | ConstantVertexWeight | PreComputed

datatype edge_weight = CapacityEdgeWeight | ConstantEdgeWeight

record metis_options =
  vertex_weight :: "vertex_weight list"
  edge_weight :: edge_weight
  imbalance_factor :: f64
  iteration_number :: nat
  contiguous :: bool

definition metis_options_default :: metis_options where
  "metis_options_default = \<lparr>vertex_weight = [], edge_weight = ConstantEdgeWeight, imbalance_factor = 3 / 100,
     iteration_number = 10, contiguous = True\<rparr>"

definition set_imbalance_factor :: "f64 \<Rightarrow> metis_options \<Rightarrow> metis_options" where
  "set_imbalance_factor x m = m\<lparr>imbalance_factor := x\<rparr>"

definition add_vertex_weight :: "vertex_weight \<Rightarrow> metis_options \<Rightarrow> metis_options" where
  "add_vertex_weight w m = m\<lparr>vertex_weight := vertex_weight m @ [w]\<rparr>"

definition set_edge_weight :: "edge_weight \<Rightarrow> metis_options \<Rightarrow> metis_options" where
  "set_edge_weight w m = m\<lparr>edge_weight := w\<rparr>"

definition set_iteration_number :: "nat \<Rightarrow> metis_options \<Rightarrow> metis_options" where
  "set_iteration_number n m = m\<lparr>iteration_number := n\<rparr>"

definition set_contiguous :: "bool \<Rightarrow> metis_options \<Rightarrow> metis_options" where
  "set_contiguous b m = m\<lparr>contiguous := b\<rparr>"

text \<open>The cast to an unsigned integer truncates and saturates.\<close>

definition ufactor :: "metis_options \<Rightarrow> nat" where
  "ufactor m = (let val = f64_as_u64 (imbalance_factor m * 1000) in if val = 0 then 1 else val)"

datatype partition_method = Metis metis_options | NoPartitioning

record partitioning =
  num_parts :: nat
  part_method :: partition_method

definition partitioning_default :: partitioning where
  "partitioning_default = \<lparr>num_parts = 1, part_method = NoPartitioning\<rparr>"

record path_config =
  cfg_path :: "string option"

definition path_config_default :: path_config where
  "path_config_default = \<lparr>cfg_path = None\<rparr>"

datatype tracing_level = INFO | TRACE

definition create_tracing_level :: "string \<Rightarrow> tracing_level option" where
  "create_tracing_level level = (if level = ''INFO'' then Some INFO else if level = ''TRACE'' then Some TRACE else None)"

datatype profiling = NoProfiling | CSV string | Parquet string nat

datatype logging = NoLogging | LoggingInfo

datatype write_events = NoEvents | EventsFile

record output_config =
  output_dir :: string
  overwrite_files :: overwrite_files
  profiling :: profiling
  logging :: logging
  write_events :: write_events

definition output_default :: output_config where
  "output_default = \<lparr>output_dir = ''./output'', overwrite_files = FailIfDirectoryExists,
     profiling = NoProfiling, logging = NoLogging, write_events = NoEvents\<rparr>"

record routing =
  rt_mode :: routing_mode
  rt_network_modes :: "mode list"
  rt_access_egress_mode :: mode
  rt_teleported_mode_params :: "teleported_mode_params list"

definition default_walk_teleported_params :: teleported_mode_params where
  "default_walk_teleported_params = \<lparr>tp_mode = ''walk'', tp_beeline_distance_factor = 13 / 10,
     tp_teleported_mode_speed = 3 / (36 / 10)\<rparr>"

definition default_teleported_mode_params :: "teleported_mode_params list" where
  "default_teleported_mode_params = [default_walk_teleported_params]"

text \<open>\<open>rposition\<close>\<close>

definition last_walk_index :: "teleported_mode_params list \<Rightarrow> nat option" where
  "last_walk_index params = (case filter (\<lambda>i. tp_mode (params ! i) = ''walk'') [0..<length params] of
     [] \<Rightarrow> None | i # is' \<Rightarrow> Some (last (i # is')))"

definition deserialize_teleported_mode_params :: "teleported_mode_params list \<Rightarrow> teleported_mode_params list" where
  "deserialize_teleported_mode_params params = (case last_walk_index params of
       Some i \<Rightarrow> map snd (filter (\<lambda>(index, param). tp_mode param \<noteq> ''walk'' \<or> index = i) (enumerate 0 params))
     | None \<Rightarrow> params @ [default_walk_teleported_params])"

text \<open>A missing field takes the default, a given one goes through the function.\<close>

definition read_teleported_mode_params :: "teleported_mode_params list option \<Rightarrow> teleported_mode_params list" where
  "read_teleported_mode_params field = (case field of None \<Rightarrow> default_teleported_mode_params
     | Some params \<Rightarrow> deserialize_teleported_mode_params params)"

definition routing_default :: routing where
  "routing_default = \<lparr>rt_mode = UsePlans, rt_network_modes = [], rt_access_egress_mode = ''walk'',
     rt_teleported_mode_params = default_teleported_mode_params\<rparr>"

definition replanning_default :: "xf64 replanning_config" where
  "replanning_default = \<lparr>fraction_to_disable_innovation = Fin 1, max_agent_plan_memory = 5,
     plan_selector_for_removal = selector_as_str WorstScore,
     strategy_settings = [\<lparr>set_name = selector_as_str KeepLastSelected, set_weight = 1, set_subpopulation = ''person''\<rparr>]\<rparr>"

text \<open>The simulation and the replanning are modelled for finite values of what the configuration holds.\<close>

fun finite_f64 :: "xf64 \<Rightarrow> f64 option" where
  "finite_f64 (Fin x) = Some x"
| "finite_f64 _ = None"

definition finite_replanning :: "xf64 replanning_config \<Rightarrow> f64 replanning_config option" where
  "finite_replanning r = do {
     x \<leftarrow> finite_f64 (fraction_to_disable_innovation r);
     Some \<lparr>fraction_to_disable_innovation = x, max_agent_plan_memory = max_agent_plan_memory r,
           plan_selector_for_removal = plan_selector_for_removal r, strategy_settings = strategy_settings r\<rparr> }"

definition finite_qsim :: "xf64 qsim_config \<Rightarrow> f64 qsim_config option" where
  "finite_qsim q = do {
     x \<leftarrow> finite_f64 (qc_sample_size q);
     Some \<lparr>qc_start_time = qc_start_time q, qc_end_time = qc_end_time q, qc_ticks_per_second = qc_ticks_per_second q,
           qc_sample_size = x, qc_stuck_threshold = qc_stuck_threshold q, qc_main_modes = qc_main_modes q\<rparr> }"

definition qsim_default :: "xf64 qsim_config" where
  "qsim_default = \<lparr>qc_start_time = 0, qc_end_time = 86400, qc_ticks_per_second = 1, qc_sample_size = Fin 1,
     qc_stuck_threshold = 10, qc_main_modes = []\<rparr>"

record controller_config =
  cc_first_iteration :: nat
  cc_last_iteration :: nat
  cc_write_events_interval :: nat
  cc_write_plans_interval :: nat
  cc_compression_type :: compression_type

definition controller_default :: controller_config where
  "controller_default = \<lparr>cc_first_iteration = 0, cc_last_iteration = 1000, cc_write_events_interval = 50,
     cc_write_plans_interval = 50, cc_compression_type = Proto\<rparr>"

record simulation_config =
  sc_first_iteration :: nat
  sc_last_iteration :: nat
  sc_write_events_interval :: nat
  sc_write_plans_interval :: nat
  sc_start_time :: nat
  sc_end_time :: nat
  sc_ticks_per_second :: nat
  sc_sample_size :: xf64
  sc_stuck_threshold :: nat
  sc_main_modes :: "mode list"

definition simulation_default :: simulation_config where
  "simulation_default = (let qsim = qsim_default; controller = controller_default in
     \<lparr>sc_first_iteration = cc_first_iteration controller, sc_last_iteration = cc_last_iteration controller,
      sc_write_events_interval = cc_write_events_interval controller,
      sc_write_plans_interval = cc_write_plans_interval controller,
      sc_start_time = qc_start_time qsim, sc_end_time = qc_end_time qsim,
      sc_ticks_per_second = qc_ticks_per_second qsim, sc_sample_size = qc_sample_size qsim,
      sc_stuck_threshold = qc_stuck_threshold qsim, sc_main_modes = qc_main_modes qsim\<rparr>)"

definition qsim_from :: "simulation_config \<Rightarrow> xf64 qsim_config" where
  "qsim_from v = \<lparr>qc_start_time = sc_start_time v, qc_end_time = sc_end_time v,
     qc_ticks_per_second = sc_ticks_per_second v, qc_sample_size = sc_sample_size v,
     qc_stuck_threshold = sc_stuck_threshold v, qc_main_modes = sc_main_modes v\<rparr>"

definition controller_from :: "simulation_config \<Rightarrow> controller_config" where
  "controller_from v = \<lparr>cc_first_iteration = sc_first_iteration v, cc_last_iteration = sc_last_iteration v,
     cc_write_events_interval = sc_write_events_interval v,
     cc_write_plans_interval = sc_write_plans_interval v, cc_compression_type = Proto\<rparr>"

record computational_setup =
  cs_global_sync :: bool
  cs_adapter_worker_threads :: nat
  cs_replanning_threads :: nat
  cs_retry_time_seconds :: nat
  cs_random_seed :: nat

definition computational_setup_default :: computational_setup where
  "computational_setup_default = \<lparr>cs_global_sync = False, cs_adapter_worker_threads = 3,
     cs_replanning_threads = 0, cs_retry_time_seconds = 600, cs_random_seed = 4711\<rparr>"

datatype config_module =
    NetworkConfig path_config
  | PopulationConfig path_config
  | VehiclesConfig path_config
  | IdsConfig path_config
  | PartitioningConfig partitioning
  | OutputConfig output_config
  | RoutingConfig routing
  | ReplanningConfig "xf64 replanning_config"
  | QSimConfig "xf64 qsim_config"
  | ControllerConfig controller_config
  | SimulationConfig simulation_config
  | ComputationalSetupConfig computational_setup

record config =
  cfg_modules :: "string \<rightharpoonup> config_module"
  cfg_context :: "string option"

section \<open>Access\<close>

definition insert_module :: "string \<Rightarrow> config_module \<Rightarrow> config \<Rightarrow> config" where
  "insert_module key m c = c\<lparr>cfg_modules := (cfg_modules c)(key \<mapsto> m)\<rparr>"

definition insert_if_absent :: "string \<Rightarrow> config_module \<Rightarrow> config \<Rightarrow> config" where
  "insert_if_absent key m c = (if cfg_modules c key = None then insert_module key m c else c)"

definition cfg_network :: "config \<Rightarrow> path_config option" where
  "cfg_network c = (case cfg_modules c ''network'' of Some (NetworkConfig m) \<Rightarrow> Some m | _ \<Rightarrow> None)"

definition network_mut :: "(path_config \<Rightarrow> path_config) \<Rightarrow> config \<Rightarrow> config option" where
  "network_mut f c = (let c' = insert_if_absent ''network'' (NetworkConfig path_config_default) c in
     case cfg_modules c' ''network'' of Some (NetworkConfig m) \<Rightarrow> Some (insert_module ''network'' (NetworkConfig (f m)) c') | _ \<Rightarrow> None)"

definition set_network :: "path_config \<Rightarrow> config \<Rightarrow> config" where
  "set_network m c = insert_module ''network'' (NetworkConfig m) c"

definition cfg_population :: "config \<Rightarrow> path_config option" where
  "cfg_population c = (case cfg_modules c ''population'' of Some (PopulationConfig m) \<Rightarrow> Some m | _ \<Rightarrow> None)"

definition population_mut :: "(path_config \<Rightarrow> path_config) \<Rightarrow> config \<Rightarrow> config option" where
  "population_mut f c = (let c' = insert_if_absent ''population'' (PopulationConfig path_config_default) c in
     case cfg_modules c' ''population'' of Some (PopulationConfig m) \<Rightarrow> Some (insert_module ''population'' (PopulationConfig (f m)) c') | _ \<Rightarrow> None)"

definition set_population :: "path_config \<Rightarrow> config \<Rightarrow> config" where
  "set_population m c = insert_module ''population'' (PopulationConfig m) c"

definition cfg_vehicles :: "config \<Rightarrow> path_config option" where
  "cfg_vehicles c = (case cfg_modules c ''vehicles'' of Some (VehiclesConfig m) \<Rightarrow> Some m | _ \<Rightarrow> None)"

definition vehicles_mut :: "(path_config \<Rightarrow> path_config) \<Rightarrow> config \<Rightarrow> config option" where
  "vehicles_mut f c = (let c' = insert_if_absent ''vehicles'' (VehiclesConfig path_config_default) c in
     case cfg_modules c' ''vehicles'' of Some (VehiclesConfig m) \<Rightarrow> Some (insert_module ''vehicles'' (VehiclesConfig (f m)) c') | _ \<Rightarrow> None)"

definition set_vehicles :: "path_config \<Rightarrow> config \<Rightarrow> config" where
  "set_vehicles m c = insert_module ''vehicles'' (VehiclesConfig m) c"

definition cfg_ids :: "config \<Rightarrow> path_config option" where
  "cfg_ids c = (case cfg_modules c ''ids'' of Some (IdsConfig m) \<Rightarrow> Some m | _ \<Rightarrow> None)"

definition ids_mut :: "(path_config \<Rightarrow> path_config) \<Rightarrow> config \<Rightarrow> config option" where
  "ids_mut f c = (let c' = insert_if_absent ''ids'' (IdsConfig path_config_default) c in
     case cfg_modules c' ''ids'' of Some (IdsConfig m) \<Rightarrow> Some (insert_module ''ids'' (IdsConfig (f m)) c') | _ \<Rightarrow> None)"

definition set_ids :: "path_config \<Rightarrow> config \<Rightarrow> config" where
  "set_ids m c = insert_module ''ids'' (IdsConfig m) c"

definition cfg_partitioning :: "config \<Rightarrow> partitioning option" where
  "cfg_partitioning c = (case cfg_modules c ''partitioning'' of Some (PartitioningConfig m) \<Rightarrow> Some m | _ \<Rightarrow> None)"

definition partitioning_mut :: "(partitioning \<Rightarrow> partitioning) \<Rightarrow> config \<Rightarrow> config option" where
  "partitioning_mut f c = (let c' = insert_if_absent ''partitioning'' (PartitioningConfig partitioning_default) c in
     case cfg_modules c' ''partitioning'' of Some (PartitioningConfig m) \<Rightarrow> Some (insert_module ''partitioning'' (PartitioningConfig (f m)) c') | _ \<Rightarrow> None)"

definition set_partitioning :: "partitioning \<Rightarrow> config \<Rightarrow> config" where
  "set_partitioning m c = insert_module ''partitioning'' (PartitioningConfig m) c"

definition cfg_computational_setup :: "config \<Rightarrow> computational_setup option" where
  "cfg_computational_setup c = (case cfg_modules c ''computational_setup'' of Some (ComputationalSetupConfig m) \<Rightarrow> Some m | _ \<Rightarrow> None)"

definition computational_setup_mut :: "(computational_setup \<Rightarrow> computational_setup) \<Rightarrow> config \<Rightarrow> config option" where
  "computational_setup_mut f c = (let c' = insert_if_absent ''computational_setup'' (ComputationalSetupConfig computational_setup_default) c in
     case cfg_modules c' ''computational_setup'' of Some (ComputationalSetupConfig m) \<Rightarrow> Some (insert_module ''computational_setup'' (ComputationalSetupConfig (f m)) c') | _ \<Rightarrow> None)"

definition set_computational_setup :: "computational_setup \<Rightarrow> config \<Rightarrow> config" where
  "set_computational_setup m c = insert_module ''computational_setup'' (ComputationalSetupConfig m) c"

definition cfg_output :: "config \<Rightarrow> output_config option" where
  "cfg_output c = (case cfg_modules c ''output'' of Some (OutputConfig m) \<Rightarrow> Some m | _ \<Rightarrow> None)"

definition output_mut :: "(output_config \<Rightarrow> output_config) \<Rightarrow> config \<Rightarrow> config option" where
  "output_mut f c = (let c' = insert_if_absent ''output'' (OutputConfig output_default) c in
     case cfg_modules c' ''output'' of Some (OutputConfig m) \<Rightarrow> Some (insert_module ''output'' (OutputConfig (f m)) c') | _ \<Rightarrow> None)"

definition set_output :: "output_config \<Rightarrow> config \<Rightarrow> config" where
  "set_output m c = insert_module ''output'' (OutputConfig m) c"

definition cfg_routing :: "config \<Rightarrow> routing option" where
  "cfg_routing c = (case cfg_modules c ''routing'' of Some (RoutingConfig m) \<Rightarrow> Some m | _ \<Rightarrow> None)"

definition routing_mut :: "(routing \<Rightarrow> routing) \<Rightarrow> config \<Rightarrow> config option" where
  "routing_mut f c = (let c' = insert_if_absent ''routing'' (RoutingConfig routing_default) c in
     case cfg_modules c' ''routing'' of Some (RoutingConfig m) \<Rightarrow> Some (insert_module ''routing'' (RoutingConfig (f m)) c') | _ \<Rightarrow> None)"

definition set_routing :: "routing \<Rightarrow> config \<Rightarrow> config" where
  "set_routing m c = insert_module ''routing'' (RoutingConfig m) c"

definition cfg_replanning :: "config \<Rightarrow> xf64 replanning_config option" where
  "cfg_replanning c = (case cfg_modules c ''replanning'' of Some (ReplanningConfig m) \<Rightarrow> Some m | _ \<Rightarrow> None)"

definition replanning_mut :: "(xf64 replanning_config \<Rightarrow> xf64 replanning_config) \<Rightarrow> config \<Rightarrow> config option" where
  "replanning_mut f c = (let c' = insert_if_absent ''replanning'' (ReplanningConfig replanning_default) c in
     case cfg_modules c' ''replanning'' of Some (ReplanningConfig m) \<Rightarrow> Some (insert_module ''replanning'' (ReplanningConfig (f m)) c') | _ \<Rightarrow> None)"

definition set_replanning :: "xf64 replanning_config \<Rightarrow> config \<Rightarrow> config" where
  "set_replanning m c = insert_module ''replanning'' (ReplanningConfig m) c"

definition cfg_qsim :: "config \<Rightarrow> xf64 qsim_config option" where
  "cfg_qsim c = (case cfg_modules c ''qsim'' of Some (QSimConfig m) \<Rightarrow> Some m | _ \<Rightarrow> None)"

definition qsim_mut :: "(xf64 qsim_config \<Rightarrow> xf64 qsim_config) \<Rightarrow> config \<Rightarrow> config option" where
  "qsim_mut f c = (let c' = insert_if_absent ''qsim'' (QSimConfig qsim_default) c in
     case cfg_modules c' ''qsim'' of Some (QSimConfig m) \<Rightarrow> Some (insert_module ''qsim'' (QSimConfig (f m)) c') | _ \<Rightarrow> None)"

definition set_qsim :: "xf64 qsim_config \<Rightarrow> config \<Rightarrow> config" where
  "set_qsim m c = insert_module ''qsim'' (QSimConfig m) c"

definition cfg_controller :: "config \<Rightarrow> controller_config option" where
  "cfg_controller c = (case cfg_modules c ''controller'' of Some (ControllerConfig m) \<Rightarrow> Some m | _ \<Rightarrow> None)"

definition controller_mut :: "(controller_config \<Rightarrow> controller_config) \<Rightarrow> config \<Rightarrow> config option" where
  "controller_mut f c = (let c' = insert_if_absent ''controller'' (ControllerConfig controller_default) c in
     case cfg_modules c' ''controller'' of Some (ControllerConfig m) \<Rightarrow> Some (insert_module ''controller'' (ControllerConfig (f m)) c') | _ \<Rightarrow> None)"

definition set_controller :: "controller_config \<Rightarrow> config \<Rightarrow> config" where
  "set_controller m c = insert_module ''controller'' (ControllerConfig m) c"

definition migrate_deprecated_simulation_module :: "config \<Rightarrow> config" where
  "migrate_deprecated_simulation_module c = (case cfg_modules c ''simulation'' of
       Some (SimulationConfig simulation) \<Rightarrow>
         let c1 = (if cfg_modules c ''qsim'' = None then set_qsim (qsim_from simulation) c else c);
             c2 = (if cfg_modules c1 ''controller'' = None then set_controller (controller_from simulation) c1 else c1)
         in c2\<lparr>cfg_modules := (cfg_modules c2)(''simulation'' := None)\<rparr>
     | _ \<Rightarrow> c)"

definition ensure_defaults :: "config \<Rightarrow> config option" where
  "ensure_defaults c = do {
     c \<leftarrow> partitioning_mut id (migrate_deprecated_simulation_module c);
     c \<leftarrow> output_mut id c;
     c \<leftarrow> qsim_mut id c;
     c \<leftarrow> controller_mut id c;
     c \<leftarrow> routing_mut id c;
     c \<leftarrow> replanning_mut id c;
     c \<leftarrow> computational_setup_mut id c;
     c \<leftarrow> network_mut id c;
     c \<leftarrow> population_mut id c;
     c \<leftarrow> vehicles_mut id c;
     ids_mut id c }"

definition config_default :: "string option \<Rightarrow> config option" where
  "config_default current_dir = ensure_defaults \<lparr>cfg_modules = Map.empty, cfg_context = current_dir\<rparr>"

text \<open>\<open>Deserialize for Config\<close>, after the modules have been read.\<close>

definition deserialize_config :: "(string \<rightharpoonup> config_module) \<Rightarrow> config option" where
  "deserialize_config modules = ensure_defaults \<lparr>cfg_modules = modules, cfg_context = None\<rparr>"

section \<open>Overrides\<close>

definition override_network_path :: "config \<Rightarrow> string \<Rightarrow> config option" where
  "override_network_path c value = network_mut (\<lambda>m. m\<lparr>cfg_path := Some value\<rparr>) c"

definition override_population_path :: "config \<Rightarrow> string \<Rightarrow> config option" where
  "override_population_path c value = population_mut (\<lambda>m. m\<lparr>cfg_path := Some value\<rparr>) c"

definition override_vehicles_path :: "config \<Rightarrow> string \<Rightarrow> config option" where
  "override_vehicles_path c value = vehicles_mut (\<lambda>m. m\<lparr>cfg_path := Some value\<rparr>) c"

definition override_ids_path :: "config \<Rightarrow> string \<Rightarrow> config option" where
  "override_ids_path c value = Some (set_ids \<lparr>cfg_path = Some value\<rparr> c)"

definition override_partitioning_num_parts :: "config \<Rightarrow> string \<Rightarrow> config option" where
  "override_partitioning_num_parts c value = (case parse_u32 value of
       None \<Rightarrow> Some c
     | Some v \<Rightarrow> do {
         c1 \<leftarrow> partitioning_mut (\<lambda>m. m\<lparr>num_parts := v\<rparr>) c;
         out \<leftarrow> cfg_output c1;
         output_mut (\<lambda>m. m\<lparr>output_dir := output_dir out @ ''-'' @ show_nat v\<rparr>) c1 })"

definition override_output_output_dir :: "config \<Rightarrow> string \<Rightarrow> config option" where
  "override_output_output_dir c value = output_mut (\<lambda>m. m\<lparr>output_dir := value\<rparr>) c"

definition override_output_overwrite_files :: "config \<Rightarrow> string \<Rightarrow> config option" where
  "override_output_overwrite_files c value = do { v \<leftarrow> parse_overwrite_file value; output_mut (\<lambda>m. m\<lparr>overwrite_files := v\<rparr>) c }"

definition routing_mode_of :: "string \<Rightarrow> routing_mode option" where
  "routing_mode_of value = (let s = to_lowercase value in
     if s = ''ad-hoc'' \<or> s = ''adhoc'' then Some AdHoc
     else if s = ''use-plans'' \<or> s = ''useplans'' then Some UsePlans else None)"

definition override_routing_mode :: "config \<Rightarrow> string \<Rightarrow> config option" where
  "override_routing_mode c value = do {
     v \<leftarrow> routing_mode_of value;
     routing_mut (\<lambda>m. m\<lparr>rt_mode := v\<rparr>) c }"

definition override_replanning_fraction_of_iterations_to_disable_innovation :: "config \<Rightarrow> string \<Rightarrow> config option" where
  "override_replanning_fraction_of_iterations_to_disable_innovation c value = do { v \<leftarrow> parse_f64 value; replanning_mut (\<lambda>m. m\<lparr>fraction_to_disable_innovation := v\<rparr>) c }"

definition override_replanning_max_agent_plan_memory :: "config \<Rightarrow> string \<Rightarrow> config option" where
  "override_replanning_max_agent_plan_memory c value = do { v \<leftarrow> parse_u32 value; replanning_mut (\<lambda>m. m\<lparr>max_agent_plan_memory := v\<rparr>) c }"

definition override_replanning_plan_selector_for_removal :: "config \<Rightarrow> string \<Rightarrow> config option" where
  "override_replanning_plan_selector_for_removal c value = replanning_mut (\<lambda>m. m\<lparr>plan_selector_for_removal := value\<rparr>) c"

definition override_qsim_start_time :: "config \<Rightarrow> string \<Rightarrow> config option" where
  "override_qsim_start_time c value = do { v \<leftarrow> parse_u32 value; qsim_mut (\<lambda>m. m\<lparr>qc_start_time := v\<rparr>) c }"

definition override_qsim_end_time :: "config \<Rightarrow> string \<Rightarrow> config option" where
  "override_qsim_end_time c value = do { v \<leftarrow> parse_u32 value; qsim_mut (\<lambda>m. m\<lparr>qc_end_time := v\<rparr>) c }"

definition override_qsim_ticks_per_second :: "config \<Rightarrow> string \<Rightarrow> config option" where
  "override_qsim_ticks_per_second c value = do { v \<leftarrow> parse_u32 value; qsim_mut (\<lambda>m. m\<lparr>qc_ticks_per_second := v\<rparr>) c }"

definition override_qsim_sample_size :: "config \<Rightarrow> string \<Rightarrow> config option" where
  "override_qsim_sample_size c value = do { v \<leftarrow> parse_f64 value; qsim_mut (\<lambda>m. m\<lparr>qc_sample_size := v\<rparr>) c }"

definition override_qsim_stuck_threshold :: "config \<Rightarrow> string \<Rightarrow> config option" where
  "override_qsim_stuck_threshold c value = do { v \<leftarrow> parse_u32 value; qsim_mut (\<lambda>m. m\<lparr>qc_stuck_threshold := v\<rparr>) c }"

definition override_qsim_main_modes :: "config \<Rightarrow> string \<Rightarrow> config option" where
  "override_qsim_main_modes c value = qsim_mut (\<lambda>m. m\<lparr>qc_main_modes := filter (\<lambda>md. md \<noteq> []) (map str_trim (split_char CHR '','' value))\<rparr>) c"

definition override_controller_first_iteration :: "config \<Rightarrow> string \<Rightarrow> config option" where
  "override_controller_first_iteration c value = do { v \<leftarrow> parse_u32 value; controller_mut (\<lambda>m. m\<lparr>cc_first_iteration := v\<rparr>) c }"

definition override_controller_last_iteration :: "config \<Rightarrow> string \<Rightarrow> config option" where
  "override_controller_last_iteration c value = do { v \<leftarrow> parse_u32 value; controller_mut (\<lambda>m. m\<lparr>cc_last_iteration := v\<rparr>) c }"

definition override_controller_write_events_interval :: "config \<Rightarrow> string \<Rightarrow> config option" where
  "override_controller_write_events_interval c value = do { v \<leftarrow> parse_u32 value; controller_mut (\<lambda>m. m\<lparr>cc_write_events_interval := v\<rparr>) c }"

definition override_controller_write_plans_interval :: "config \<Rightarrow> string \<Rightarrow> config option" where
  "override_controller_write_plans_interval c value = do { v \<leftarrow> parse_u32 value; controller_mut (\<lambda>m. m\<lparr>cc_write_plans_interval := v\<rparr>) c }"

definition override_controller_compression_type :: "config \<Rightarrow> string \<Rightarrow> config option" where
  "override_controller_compression_type c value = do { v \<leftarrow> parse_compression_type value; controller_mut (\<lambda>m. m\<lparr>cc_compression_type := v\<rparr>) c }"

definition override_computational_setup_adapter_worker_threads :: "config \<Rightarrow> string \<Rightarrow> config option" where
  "override_computational_setup_adapter_worker_threads c value = do { v \<leftarrow> parse_u32 value; computational_setup_mut (\<lambda>m. m\<lparr>cs_adapter_worker_threads := v\<rparr>) c }"

definition override_computational_setup_replanning_threads :: "config \<Rightarrow> string \<Rightarrow> config option" where
  "override_computational_setup_replanning_threads c value = do { v \<leftarrow> parse_u32 value; computational_setup_mut (\<lambda>m. m\<lparr>cs_replanning_threads := v\<rparr>) c }"

definition override_computational_setup_global_sync :: "config \<Rightarrow> string \<Rightarrow> config option" where
  "override_computational_setup_global_sync c value = do { v \<leftarrow> parse_bool value; computational_setup_mut (\<lambda>m. m\<lparr>cs_global_sync := v\<rparr>) c }"

definition override_computational_setup_random_seed :: "config \<Rightarrow> string \<Rightarrow> config option" where
  "override_computational_setup_random_seed c value = do { v \<leftarrow> parse_u64 value; computational_setup_mut (\<lambda>m. m\<lparr>cs_random_seed := v\<rparr>) c }"

definition override_handlers :: "(string \<times> (config \<Rightarrow> string \<Rightarrow> config option)) list" where
  "override_handlers =
    [(''network.path'', override_network_path),
     (''population.path'', override_population_path),
     (''vehicles.path'', override_vehicles_path),
     (''ids.path'', override_ids_path),
     (''partitioning.num_parts'', override_partitioning_num_parts),
     (''output.output_dir'', override_output_output_dir),
     (''output.overwrite_files'', override_output_overwrite_files),
     (''routing.mode'', override_routing_mode),
     (''replanning.fraction_of_iterations_to_disable_innovation'', override_replanning_fraction_of_iterations_to_disable_innovation),
     (''replanning.max_agent_plan_memory'', override_replanning_max_agent_plan_memory),
     (''replanning.plan_selector_for_removal'', override_replanning_plan_selector_for_removal),
     (''qsim.start_time'', override_qsim_start_time),
     (''qsim.end_time'', override_qsim_end_time),
     (''qsim.ticks_per_second'', override_qsim_ticks_per_second),
     (''qsim.sample_size'', override_qsim_sample_size),
     (''qsim.stuck_threshold'', override_qsim_stuck_threshold),
     (''qsim.main_modes'', override_qsim_main_modes),
     (''controller.first_iteration'', override_controller_first_iteration),
     (''controller.last_iteration'', override_controller_last_iteration),
     (''controller.write_events_interval'', override_controller_write_events_interval),
     (''controller.write_plans_interval'', override_controller_write_plans_interval),
     (''controller.compression_type'', override_controller_compression_type),
     (''computational_setup.adapter_worker_threads'', override_computational_setup_adapter_worker_threads),
     (''computational_setup.replanning_threads'', override_computational_setup_replanning_threads),
     (''computational_setup.global_sync'', override_computational_setup_global_sync),
     (''computational_setup.random_seed'', override_computational_setup_random_seed)]"

definition apply_override :: "string \<times> string \<Rightarrow> config \<Rightarrow> config option" where
  "apply_override kv c = (case map_of override_handlers (fst kv) of Some apply \<Rightarrow> apply c (snd kv) | None \<Rightarrow> Some c)"

definition apply_overrides :: "(string \<times> string) list \<Rightarrow> config \<Rightarrow> config option" where
  "apply_overrides overrides c = foldM apply_override overrides c"

section \<open>Files\<close>

text \<open>
  Paths are text; \<open>path_components\<close> are the components of \<open>std::path\<close>: the root, a current
  directory at the beginning, and the names between separators.
\<close>

definition path_components :: "string \<Rightarrow> string list" where
  "path_components p = (let parts = split_char CHR ''/'' p in
     (if prefix ''/'' p then [''/''] else if hd parts = ''.'' then [''.''] else []) @
     filter (\<lambda>s. s \<noteq> '''' \<and> s \<noteq> ''.'') parts)"

definition is_url :: "string \<Rightarrow> bool" where
  "is_url path \<longleftrightarrow> prefix (path_components ''http://'') (path_components path) \<or>
     prefix (path_components ''https://'') (path_components path)"

text \<open>
  Reading the modules of the file is a parameter, once for local files and once for URLs, with
  \<open>None\<close> where it panics.
\<close>

definition from_path :: "(string \<Rightarrow> (string \<rightharpoonup> config_module) option) \<Rightarrow> (string \<Rightarrow> (string \<rightharpoonup> config_module) option) \<Rightarrow>
    string \<Rightarrow> config option" where
  "from_path local_file url_file path = do {
     modules \<leftarrow> (if is_url path then url_file path else local_file path);
     c \<leftarrow> deserialize_config modules;
     ensure_defaults (c\<lparr>cfg_context := Some path\<rparr>) }"

definition from_args :: "(string \<Rightarrow> (string \<rightharpoonup> config_module) option) \<Rightarrow> (string \<Rightarrow> (string \<rightharpoonup> config_module) option) \<Rightarrow>
    string \<Rightarrow> (string \<times> string) list \<Rightarrow> config option" where
  "from_args local_file url_file path overrides = do {
     c \<leftarrow> from_path local_file url_file path;
     apply_overrides overrides c }"

definition path_parent :: "string list \<Rightarrow> string list option" where
  "path_parent cs = (if cs = [] \<or> last cs = ''/'' then None else Some (butlast cs))"

definition path_join :: "string list \<Rightarrow> string list \<Rightarrow> string list" where
  "path_join a b = (if a = [] \<or> prefix [''/''] b then b else a @ dropWhile (\<lambda>s. s = ''.'') b)"

definition resolve_path :: "string option \<Rightarrow> string \<Rightarrow> string list" where
  "resolve_path config_path file_path = (let file = path_components file_path in
     if prefix [''/''] file \<or> prefix [''.''] file then file
     else case Option.bind (map_option path_components config_path) path_parent of
            Some dir \<Rightarrow> path_join dir file
          | None \<Rightarrow> file)"


section \<open>One module and its accessors\<close>

text \<open>
  What the methods of every module share: the read accessor returns the module stored under the
  key, the mutable one inserts the default where there is none and panics where the key holds a
  module of another type.
\<close>

locale config_slot =
  fixes key :: string and con :: "'t \<Rightarrow> config_module" and get :: "config \<Rightarrow> 't option"
    and upd :: "('t \<Rightarrow> 't) \<Rightarrow> config \<Rightarrow> config option" and dflt :: 't
  assumes con_eq: "con m = con m' \<longleftrightarrow> m = m'"
    and get_iff: "get c = Some m \<longleftrightarrow> cfg_modules c key = Some (con m)"
    and upd_absent: "cfg_modules c key = None \<Longrightarrow> upd f c = Some (insert_module key (con (f dflt)) c)"
    and upd_present: "cfg_modules c key = Some (con m) \<Longrightarrow> upd f c = Some (insert_module key (con (f m)) c)"
    and upd_other: "cfg_modules c key = Some x \<Longrightarrow> x \<notin> range con \<Longrightarrow> upd f c = None"
begin

definition slot_ok :: "config \<Rightarrow> bool" where
  "slot_ok c \<longleftrightarrow> (\<forall>x. cfg_modules c key = Some x \<longrightarrow> x \<in> range con)"

lemma upd_total: "upd f c \<noteq> None \<longleftrightarrow> slot_ok c"
proof (cases "cfg_modules c key")
  case None
  then show ?thesis by (simp add: upd_absent slot_ok_def)
next
  case (Some x)
  show ?thesis
  proof (cases "x \<in> range con")
    case True
    then obtain m where "x = con m" by blast
    then show ?thesis using upd_present[of c m f] Some by (auto simp: slot_ok_def)
  next
    case False
    then show ?thesis using upd_other[OF Some False] Some by (auto simp: slot_ok_def)
  qed
qed

lemma upd_cases:
  assumes "upd f c = Some c'"
  obtains m where "c' = insert_module key (con (f m)) c" and "m = (case get c of Some m \<Rightarrow> m | None \<Rightarrow> dflt)"
    and "cfg_modules c key = None \<or> cfg_modules c key = Some (con m)"
proof (cases "cfg_modules c key")
  case None
  have "get c = None" using get_iff[of c] None by (cases "get c") auto
  moreover have "c' = insert_module key (con (f dflt)) c" using assms upd_absent[OF None, of f] by simp
  ultimately show ?thesis using that None by simp
next
  case (Some x)
  then have "x \<in> range con" using upd_other[OF Some, of f] assms by auto
  then obtain m where m: "x = con m" by blast
  have present: "cfg_modules c key = Some (con m)" using Some m by simp
  have get: "get c = Some m" using present by (simp only: get_iff)
  have c': "c' = insert_module key (con (f m)) c" using assms upd_present[OF present, of f] by simp
  show ?thesis by (rule that[OF c' _ disjI2[OF present]]) (simp add: get)
qed

lemma upd_get: "upd f c = Some c' \<Longrightarrow> get c' = Some (f (case get c of Some m \<Rightarrow> m | None \<Rightarrow> dflt))"
  by (erule upd_cases) (simp add: get_iff insert_module_def)

lemma upd_frame:
  assumes "upd f c = Some c'"
  shows "cfg_context c' = cfg_context c" and "k \<noteq> key \<Longrightarrow> cfg_modules c' k = cfg_modules c k"
    and "dom (cfg_modules c') = insert key (dom (cfg_modules c))" and "slot_ok c'"
proof -
  obtain m where c': "c' = insert_module key (con (f m)) c" by (rule upd_cases[OF assms])
  show "cfg_context c' = cfg_context c" "k \<noteq> key \<Longrightarrow> cfg_modules c' k = cfg_modules c k"
    "dom (cfg_modules c') = insert key (dom (cfg_modules c))" "slot_ok c'"
    by (simp_all add: c' insert_module_def slot_ok_def)
qed

lemma upd_id_present: "get c = Some m \<Longrightarrow> upd id c = Some c"
  by (cases c) (auto simp: get_iff upd_present insert_module_def)

lemma upd_id_keeps: "upd id c = Some c' \<Longrightarrow> cfg_modules c k = Some x \<Longrightarrow> cfg_modules c' k = Some x"
  by (erule upd_cases) (auto simp: insert_module_def)

end

interpretation network_slot: config_slot "''network''" NetworkConfig cfg_network network_mut path_config_default
  by unfold_locales (auto simp: cfg_network_def network_mut_def insert_if_absent_def insert_module_def Let_def
      split: option.splits config_module.splits)

interpretation population_slot: config_slot "''population''" PopulationConfig cfg_population population_mut path_config_default
  by unfold_locales (auto simp: cfg_population_def population_mut_def insert_if_absent_def insert_module_def Let_def
      split: option.splits config_module.splits)

interpretation vehicles_slot: config_slot "''vehicles''" VehiclesConfig cfg_vehicles vehicles_mut path_config_default
  by unfold_locales (auto simp: cfg_vehicles_def vehicles_mut_def insert_if_absent_def insert_module_def Let_def
      split: option.splits config_module.splits)

interpretation ids_slot: config_slot "''ids''" IdsConfig cfg_ids ids_mut path_config_default
  by unfold_locales (auto simp: cfg_ids_def ids_mut_def insert_if_absent_def insert_module_def Let_def
      split: option.splits config_module.splits)

interpretation partitioning_slot: config_slot "''partitioning''" PartitioningConfig cfg_partitioning partitioning_mut partitioning_default
  by unfold_locales (auto simp: cfg_partitioning_def partitioning_mut_def insert_if_absent_def insert_module_def Let_def
      split: option.splits config_module.splits)

interpretation computational_setup_slot: config_slot "''computational_setup''" ComputationalSetupConfig cfg_computational_setup computational_setup_mut computational_setup_default
  by unfold_locales (auto simp: cfg_computational_setup_def computational_setup_mut_def insert_if_absent_def insert_module_def Let_def
      split: option.splits config_module.splits)

interpretation output_slot: config_slot "''output''" OutputConfig cfg_output output_mut output_default
  by unfold_locales (auto simp: cfg_output_def output_mut_def insert_if_absent_def insert_module_def Let_def
      split: option.splits config_module.splits)

interpretation routing_slot: config_slot "''routing''" RoutingConfig cfg_routing routing_mut routing_default
  by unfold_locales (auto simp: cfg_routing_def routing_mut_def insert_if_absent_def insert_module_def Let_def
      split: option.splits config_module.splits)

interpretation replanning_slot: config_slot "''replanning''" ReplanningConfig cfg_replanning replanning_mut replanning_default
  by unfold_locales (auto simp: cfg_replanning_def replanning_mut_def insert_if_absent_def insert_module_def Let_def
      split: option.splits config_module.splits)

interpretation qsim_slot: config_slot "''qsim''" QSimConfig cfg_qsim qsim_mut qsim_default
  by unfold_locales (auto simp: cfg_qsim_def qsim_mut_def insert_if_absent_def insert_module_def Let_def
      split: option.splits config_module.splits)

interpretation controller_slot: config_slot "''controller''" ControllerConfig cfg_controller controller_mut controller_default
  by unfold_locales (auto simp: cfg_controller_def controller_mut_def insert_if_absent_def insert_module_def Let_def
      split: option.splits config_module.splits)


section \<open>Defaults\<close>

fun module_key :: "config_module \<Rightarrow> string" where
  "module_key (NetworkConfig _) = ''network''"
| "module_key (PopulationConfig _) = ''population''"
| "module_key (VehiclesConfig _) = ''vehicles''"
| "module_key (IdsConfig _) = ''ids''"
| "module_key (PartitioningConfig _) = ''partitioning''"
| "module_key (OutputConfig _) = ''output''"
| "module_key (RoutingConfig _) = ''routing''"
| "module_key (ReplanningConfig _) = ''replanning''"
| "module_key (QSimConfig _) = ''qsim''"
| "module_key (ControllerConfig _) = ''controller''"
| "module_key (SimulationConfig _) = ''simulation''"
| "module_key (ComputationalSetupConfig _) = ''computational_setup''"

definition key_ok :: "string \<Rightarrow> config \<Rightarrow> bool" where
  "key_ok k c \<longleftrightarrow> (\<forall>x. cfg_modules c k = Some x \<longrightarrow> module_key x = k)"

definition default_modules :: "(string \<times> config_module) list" where
  "default_modules =
    [(''partitioning'', PartitioningConfig partitioning_default),
     (''output'', OutputConfig output_default),
     (''qsim'', QSimConfig qsim_default),
     (''controller'', ControllerConfig controller_default),
     (''routing'', RoutingConfig routing_default),
     (''replanning'', ReplanningConfig replanning_default),
     (''computational_setup'', ComputationalSetupConfig computational_setup_default),
     (''network'', NetworkConfig path_config_default),
     (''population'', PopulationConfig path_config_default),
     (''vehicles'', VehiclesConfig path_config_default),
     (''ids'', IdsConfig path_config_default)]"

definition config_ok :: "config \<Rightarrow> bool" where
  "config_ok c \<longleftrightarrow> (\<forall>k\<in>fst ` set default_modules. key_ok k c)"

text \<open>Every read accessor returns.\<close>

definition config_complete :: "config \<Rightarrow> bool" where
  "config_complete c \<longleftrightarrow> (\<forall>k\<in>fst ` set default_modules. \<exists>x. cfg_modules c k = Some x \<and> module_key x = k)"

definition ensure_module :: "string \<times> config_module \<Rightarrow> config \<Rightarrow> config option" where
  "ensure_module d c = (if key_ok (fst d) c then Some (insert_if_absent (fst d) (snd d) c) else None)"

lemma complete_config_ok: "config_complete c \<Longrightarrow> config_ok c"
  by (fastforce simp: config_complete_def config_ok_def key_ok_def)

locale known_slot = config_slot key con get upd dflt
  for key :: string and con :: "'t \<Rightarrow> config_module" and get :: "config \<Rightarrow> 't option"
    and upd :: "('t \<Rightarrow> 't) \<Rightarrow> config \<Rightarrow> config option" and dflt :: 't +
  assumes con_key: "m \<in> range con \<longleftrightarrow> module_key m = key"
    and known: "key \<in> fst ` set default_modules"
begin

lemma slot_ok_key: "slot_ok c \<longleftrightarrow> key_ok key c"
  by (simp add: slot_ok_def key_ok_def con_key)

lemma upd_id: "upd id c = ensure_module (key, con dflt) c"
proof (cases "upd id c")
  case None
  then show ?thesis using upd_total[of id c] by (simp add: slot_ok_key ensure_module_def)
next
  case (Some c')
  then have "key_ok key c" using upd_total[of id c] slot_ok_key by simp
  then show ?thesis using Some
    by (auto simp: ensure_module_def insert_if_absent_def insert_module_def get_iff fun_upd_idem elim!: upd_cases
        split: option.splits)
qed

lemma complete_get: "config_complete c \<Longrightarrow> \<exists>m. get c = Some m \<and> cfg_modules c key = Some (con m)"
  using known con_key get_iff by (fastforce simp: config_complete_def)

lemma upd_complete:
  assumes "config_complete c"
  shows "\<exists>m. get c = Some m \<and> upd f c = Some (insert_module key (con (f m)) c)"
  using complete_get[OF assms] upd_present by blast

lemma complete_insert: "config_complete c \<Longrightarrow> config_complete (insert_module key (con m) c)"
  using con_key by (auto simp: config_complete_def insert_module_def)

end

lemma default_keys: "fst ` set default_modules = {''network'', ''population'', ''vehicles'', ''ids'', ''partitioning'', ''computational_setup'', ''output'', ''routing'', ''replanning'', ''qsim'', ''controller''}"
  by (auto simp: default_modules_def)

interpretation network_known: known_slot "''network''" NetworkConfig cfg_network network_mut path_config_default
proof unfold_locales
  show "m \<in> range NetworkConfig \<longleftrightarrow> module_key m = ''network''" for m by (cases m) auto
qed (simp add: default_keys)

interpretation population_known: known_slot "''population''" PopulationConfig cfg_population population_mut path_config_default
proof unfold_locales
  show "m \<in> range PopulationConfig \<longleftrightarrow> module_key m = ''population''" for m by (cases m) auto
qed (simp add: default_keys)

interpretation vehicles_known: known_slot "''vehicles''" VehiclesConfig cfg_vehicles vehicles_mut path_config_default
proof unfold_locales
  show "m \<in> range VehiclesConfig \<longleftrightarrow> module_key m = ''vehicles''" for m by (cases m) auto
qed (simp add: default_keys)

interpretation ids_known: known_slot "''ids''" IdsConfig cfg_ids ids_mut path_config_default
proof unfold_locales
  show "m \<in> range IdsConfig \<longleftrightarrow> module_key m = ''ids''" for m by (cases m) auto
qed (simp add: default_keys)

interpretation partitioning_known: known_slot "''partitioning''" PartitioningConfig cfg_partitioning partitioning_mut partitioning_default
proof unfold_locales
  show "m \<in> range PartitioningConfig \<longleftrightarrow> module_key m = ''partitioning''" for m by (cases m) auto
qed (simp add: default_keys)

interpretation computational_setup_known: known_slot "''computational_setup''" ComputationalSetupConfig cfg_computational_setup computational_setup_mut computational_setup_default
proof unfold_locales
  show "m \<in> range ComputationalSetupConfig \<longleftrightarrow> module_key m = ''computational_setup''" for m by (cases m) auto
qed (simp add: default_keys)

interpretation output_known: known_slot "''output''" OutputConfig cfg_output output_mut output_default
proof unfold_locales
  show "m \<in> range OutputConfig \<longleftrightarrow> module_key m = ''output''" for m by (cases m) auto
qed (simp add: default_keys)

interpretation routing_known: known_slot "''routing''" RoutingConfig cfg_routing routing_mut routing_default
proof unfold_locales
  show "m \<in> range RoutingConfig \<longleftrightarrow> module_key m = ''routing''" for m by (cases m) auto
qed (simp add: default_keys)

interpretation replanning_known: known_slot "''replanning''" ReplanningConfig cfg_replanning replanning_mut replanning_default
proof unfold_locales
  show "m \<in> range ReplanningConfig \<longleftrightarrow> module_key m = ''replanning''" for m by (cases m) auto
qed (simp add: default_keys)

interpretation qsim_known: known_slot "''qsim''" QSimConfig cfg_qsim qsim_mut qsim_default
proof unfold_locales
  show "m \<in> range QSimConfig \<longleftrightarrow> module_key m = ''qsim''" for m by (cases m) auto
qed (simp add: default_keys)

interpretation controller_known: known_slot "''controller''" ControllerConfig cfg_controller controller_mut controller_default
proof unfold_locales
  show "m \<in> range ControllerConfig \<longleftrightarrow> module_key m = ''controller''" for m by (cases m) auto
qed (simp add: default_keys)


lemma ensure_defaults_foldM: "ensure_defaults c = foldM ensure_module default_modules (migrate_deprecated_simulation_module c)"
  by (simp add: ensure_defaults_def default_modules_def network_known.upd_id population_known.upd_id vehicles_known.upd_id ids_known.upd_id partitioning_known.upd_id computational_setup_known.upd_id output_known.upd_id routing_known.upd_id replanning_known.upd_id qsim_known.upd_id controller_known.upd_id)

lemma key_ok_insert: "k \<noteq> k' \<Longrightarrow> key_ok k (insert_if_absent k' x c) \<longleftrightarrow> key_ok k c"
  by (simp add: key_ok_def insert_if_absent_def insert_module_def)

lemma foldM_ensure_module:
  "distinct (map fst ds) \<Longrightarrow> foldM ensure_module ds c =
     (if \<forall>k\<in>fst ` set ds. key_ok k c then Some (c\<lparr>cfg_modules := map_of ds ++ cfg_modules c\<rparr>) else None)"
proof (induction ds arbitrary: c)
  case (Cons d ds)
  have keys: "(\<forall>k\<in>fst ` set ds. key_ok k (insert_if_absent (fst d) (snd d) c)) \<longleftrightarrow> (\<forall>k\<in>fst ` set ds. key_ok k c)"
    by (rule ball_cong[OF refl], rule key_ok_insert) (use Cons.prems in \<open>auto simp: image_iff\<close>)
  have mods: "map_of ds ++ cfg_modules (insert_if_absent (fst d) (snd d) c) = map_of (d # ds) ++ cfg_modules c"
  proof
    fix k
    show "(map_of ds ++ cfg_modules (insert_if_absent (fst d) (snd d) c)) k = (map_of (d # ds) ++ cfg_modules c) k"
      by (cases d; cases "cfg_modules c k") (auto simp: insert_if_absent_def insert_module_def map_add_def)
  qed
  have rest: "insert_if_absent (fst d) (snd d) c\<lparr>cfg_modules := m\<rparr> = c\<lparr>cfg_modules := m\<rparr>" for m
    by (simp add: insert_if_absent_def insert_module_def)
  show ?case
    using Cons.prems Cons.IH[of "insert_if_absent (fst d) (snd d) c"] keys mods rest
    by (simp add: ensure_module_def fun_upd_def)
qed simp

lemma default_distinct: "distinct (map fst default_modules)"
  by (simp add: default_modules_def)

lemma default_module_key: "map_of default_modules k = Some x \<Longrightarrow> module_key x = k"
  by (auto simp: default_modules_def split: if_splits)

lemma default_dom: "dom (map_of default_modules) = fst ` set default_modules"
  by (rule dom_map_of_conv_image_fst)

lemma migrate_idle:
  "(\<forall>s. cfg_modules c ''simulation'' \<noteq> Some (SimulationConfig s)) \<Longrightarrow> migrate_deprecated_simulation_module c = c"
  by (simp add: migrate_deprecated_simulation_module_def split: option.splits config_module.splits)

lemma migrate_simulation:
  assumes "cfg_modules c ''simulation'' = Some (SimulationConfig s)"
  shows "cfg_modules (migrate_deprecated_simulation_module c) =
     ((cfg_modules c)(''simulation'' := None))
       (''qsim'' \<mapsto> (case cfg_modules c ''qsim'' of None \<Rightarrow> QSimConfig (qsim_from s) | Some m \<Rightarrow> m),
        ''controller'' \<mapsto> (case cfg_modules c ''controller'' of None \<Rightarrow> ControllerConfig (controller_from s) | Some m \<Rightarrow> m))"
  using assms by (auto simp: migrate_deprecated_simulation_module_def set_qsim_def set_controller_def insert_module_def Let_def
      split: option.splits)

lemma migrate_keeps:
  assumes "cfg_modules c k = Some m" and "k \<noteq> ''simulation''"
  shows "cfg_modules (migrate_deprecated_simulation_module c) k = Some m"
proof (cases "\<exists>s. cfg_modules c ''simulation'' = Some (SimulationConfig s)")
  case True
  then obtain s where "cfg_modules c ''simulation'' = Some (SimulationConfig s)" by blast
  from migrate_simulation[OF this] show ?thesis
    using assms by (cases "k = ''qsim''"; cases "k = ''controller''") simp_all
next
  case False
  then show ?thesis using assms by (simp add: migrate_idle)
qed

lemma migrate_config_ok: "config_ok (migrate_deprecated_simulation_module c) \<longleftrightarrow> config_ok c"
proof (cases "\<exists>s. cfg_modules c ''simulation'' = Some (SimulationConfig s)")
  case True
  then obtain s where "cfg_modules c ''simulation'' = Some (SimulationConfig s)" by blast
  note mods = migrate_simulation[OF this]
  have "key_ok k (migrate_deprecated_simulation_module c) \<longleftrightarrow> key_ok k c" if "k \<noteq> ''simulation''" for k
    using that by (auto simp: key_ok_def mods split: option.splits)
  then show ?thesis by (auto simp: config_ok_def default_keys)
qed (simp add: migrate_idle)

lemma ensure_defaults_eq:
  "ensure_defaults c = (if config_ok c then Some ((migrate_deprecated_simulation_module c)
     \<lparr>cfg_modules := map_of default_modules ++ cfg_modules (migrate_deprecated_simulation_module c)\<rparr>) else None)"
  unfolding ensure_defaults_foldM foldM_ensure_module[OF default_distinct] config_ok_def[symmetric] migrate_config_ok ..

lemma config_complete_defaults: "config_ok c \<Longrightarrow> config_complete (c\<lparr>cfg_modules := map_of default_modules ++ cfg_modules c\<rparr>)"
  unfolding config_complete_def
proof
  fix k assume ok: "config_ok c" and k: "k \<in> fst ` set default_modules"
  then obtain d where d: "map_of default_modules k = Some d" using default_dom by blast
  show "\<exists>x. cfg_modules (c\<lparr>cfg_modules := map_of default_modules ++ cfg_modules c\<rparr>) k = Some x \<and> module_key x = k"
  proof (cases "cfg_modules c k")
    case None
    then show ?thesis using d default_module_key[OF d] by (simp add: map_add_def)
  next
    case (Some x)
    then show ?thesis using ok k by (auto simp: config_ok_def key_ok_def)
  qed
qed

lemma ensure_defaults_complete:
  assumes "config_complete c" and "\<forall>s. cfg_modules c ''simulation'' \<noteq> Some (SimulationConfig s)"
  shows "ensure_defaults c = Some c"
proof -
  have "map_of default_modules ++ cfg_modules c = cfg_modules c"
  proof
    fix k
    show "(map_of default_modules ++ cfg_modules c) k = cfg_modules c k"
    proof (cases "cfg_modules c k")
      case None
      then have "k \<notin> fst ` set default_modules" using assms(1) by (auto simp: config_complete_def)
      then have "map_of default_modules k = None" by (simp add: map_of_eq_None_iff)
      then show ?thesis using None by (simp add: map_add_def)
    qed (simp add: map_add_def)
  qed
  then show ?thesis using assms by (simp add: ensure_defaults_eq complete_config_ok migrate_idle)
qed

text \<open>
  C37. Filling in the defaults panics exactly if a known key holds a module of another type. Its
  result has every module, keeps every module of the file but the deprecated one, whose values
  become the modules \<open>qsim\<close> and \<open>controller\<close> where these are not given, and a second run changes
  nothing.
\<close>

theorem ensure_defaults_spec:
  "(ensure_defaults c = None \<longleftrightarrow> \<not> config_ok c) \<and>
   (\<forall>c'. ensure_defaults c = Some c' \<longrightarrow>
      config_complete c' \<and> ensure_defaults c' = Some c' \<and>
      (\<forall>k m. cfg_modules c k = Some m \<longrightarrow> k \<noteq> ''simulation'' \<longrightarrow> cfg_modules c' k = Some m) \<and>
      (\<forall>s. cfg_modules c ''simulation'' = Some (SimulationConfig s) \<longrightarrow>
         cfg_modules c' ''simulation'' = None \<and>
         (cfg_modules c ''qsim'' = None \<longrightarrow> cfg_qsim c' = Some (qsim_from s)) \<and>
         (cfg_modules c ''controller'' = None \<longrightarrow> cfg_controller c' = Some (controller_from s))))"
proof (cases "config_ok c")
  case True
  let ?m = "migrate_deprecated_simulation_module c"
  let ?c = "?m\<lparr>cfg_modules := map_of default_modules ++ cfg_modules ?m\<rparr>"
  have res: "ensure_defaults c = Some ?c" using True by (simp add: ensure_defaults_eq)
  have complete: "config_complete ?c" by (rule config_complete_defaults) (simp add: migrate_config_ok True)
  have keeps: "cfg_modules ?m k = Some m \<Longrightarrow> cfg_modules ?c k = Some m" for k m by simp
  have sim: "cfg_modules ?c ''simulation'' = None" if "cfg_modules c ''simulation'' = Some (SimulationConfig s)" for s
    using migrate_simulation[OF that] by (simp add: map_add_None default_modules_def)
  have nosim: "\<forall>s. cfg_modules ?c ''simulation'' \<noteq> Some (SimulationConfig s)"
  proof (cases "\<exists>s. cfg_modules c ''simulation'' = Some (SimulationConfig s)")
    case False
    then show ?thesis by (auto simp: migrate_idle map_add_Some_iff default_modules_def)
  qed (use sim in auto)
  have idem: "ensure_defaults ?c = Some ?c" by (rule ensure_defaults_complete[OF complete nosim])
  have q: "cfg_qsim ?c = Some (qsim_from s)"
    if "cfg_modules c ''simulation'' = Some (SimulationConfig s)" "cfg_modules c ''qsim'' = None" for s
    using that by (simp add: cfg_qsim_def migrate_simulation)
  have ct: "cfg_controller ?c = Some (controller_from s)"
    if "cfg_modules c ''simulation'' = Some (SimulationConfig s)" "cfg_modules c ''controller'' = None" for s
    using that by (simp add: cfg_controller_def migrate_simulation)
  have "cfg_modules ?c k = Some m" if "cfg_modules c k = Some m" "k \<noteq> ''simulation''" for k m
    by (rule keeps, rule migrate_keeps[OF that])
  then show ?thesis using True res complete idem sim q ct by simp
next
  case False
  then show ?thesis by (simp add: ensure_defaults_eq)
qed
lemma ensure_defaults_spec_witness:
  "\<exists>c'. ensure_defaults \<lparr>cfg_modules = [''simulation'' \<mapsto> SimulationConfig (simulation_default\<lparr>sc_end_time := 42\<rparr>),
        ''ids'' \<mapsto> IdsConfig \<lparr>cfg_path = Some ''ids.binpb''\<rparr>], cfg_context = None\<rparr> = Some c' \<and>
     config_complete c' \<and> cfg_modules c' ''ids'' = Some (IdsConfig \<lparr>cfg_path = Some ''ids.binpb''\<rparr>) \<and>
     cfg_modules c' ''simulation'' = None \<and> cfg_qsim c' = Some (qsim_default\<lparr>qc_end_time := 42\<rparr>)"
proof -
  let ?s = "simulation_default\<lparr>sc_end_time := 42\<rparr>"
  let ?c = "\<lparr>cfg_modules = [''simulation'' \<mapsto> SimulationConfig ?s, ''ids'' \<mapsto> IdsConfig \<lparr>cfg_path = Some ''ids.binpb''\<rparr>],
      cfg_context = None\<rparr> :: config"
  have "config_ok ?c" by (simp add: config_ok_def default_keys key_ok_def)
  then obtain c' where c': "ensure_defaults ?c = Some c'" using ensure_defaults_spec[of ?c] by blast
  have sim: "cfg_modules ?c ''simulation'' = Some (SimulationConfig ?s)" and qsim: "cfg_modules ?c ''qsim'' = None"
    and ids: "cfg_modules ?c ''ids'' = Some (IdsConfig \<lparr>cfg_path = Some ''ids.binpb''\<rparr>)" by simp_all
  have neq: "''ids'' \<noteq> ''simulation''" by simp
  have "config_complete c'" "cfg_modules c' ''simulation'' = None" "cfg_qsim c' = Some (qsim_from ?s)"
    using conjunct2[OF ensure_defaults_spec[of ?c]] c' sim qsim by blast+
  moreover have "cfg_modules c' ''ids'' = Some (IdsConfig \<lparr>cfg_path = Some ''ids.binpb''\<rparr>)"
    using conjunct2[OF ensure_defaults_spec[of ?c]] c' ids neq by blast
  moreover have "qsim_from ?s = qsim_default\<lparr>qc_end_time := 42\<rparr>"
    by (simp add: qsim_from_def simulation_default_def qsim_default_def Let_def)
  ultimately show ?thesis using c' by simp
qed

section \<open>Parameters of teleported modes\<close>

lemma last_walk_index_last:
  "last_walk_index ps = (if filter (\<lambda>i. tp_mode (ps ! i) = ''walk'') [0..<length ps] = [] then None
     else Some (last (filter (\<lambda>i. tp_mode (ps ! i) = ''walk'') [0..<length ps])))"
  by (simp add: last_walk_index_def split: list.split)

lemma last_walk_index_eq:
  assumes "tp_mode w = ''walk''" and "\<forall>p\<in>set zs. tp_mode p \<noteq> ''walk''"
  shows "last_walk_index (ys @ w # zs) = Some (length ys)"
proof -
  let ?P = "\<lambda>i. tp_mode ((ys @ w # zs) ! i) = ''walk''"
  have idx: "[0..<length (ys @ w # zs)] = [0..<length ys] @ length ys # [Suc (length ys)..<Suc (length ys + length zs)]"
    using upt_add_eq_append[of 0 "length ys" "Suc (length zs)"] by (simp add: upt_conv_Cons del: upt_Suc)
  have after: "\<not> ?P i" if "i \<in> set [Suc (length ys)..<Suc (length ys + length zs)]" for i
  proof -
    define j where "j = i - Suc (length ys)"
    have i: "i = length ys + Suc j" and j: "j < length zs"
      using that unfolding set_upt atLeastLessThan_iff j_def by arith+
    have "(ys @ w # zs) ! i = zs ! j" unfolding i nth_append_length_plus by simp
    then have "(ys @ w # zs) ! i \<in> set zs" using j by simp
    then show ?thesis using assms(2) by simp
  qed
  have none: "filter ?P [Suc (length ys)..<Suc (length ys + length zs)] = []"
    unfolding filter_empty_conv using after by blast
  have "filter ?P [0..<length (ys @ w # zs)] = filter ?P [0..<length ys] @ [length ys]"
    unfolding idx filter_append filter.simps none using assms(1) by simp
  then show ?thesis unfolding last_walk_index_last by simp
qed

lemma last_walk_index_None: "\<forall>p\<in>set ps. tp_mode p \<noteq> ''walk'' \<Longrightarrow> last_walk_index ps = None"
proof -
  assume "\<forall>p\<in>set ps. tp_mode p \<noteq> ''walk''"
  then have "filter (\<lambda>i. tp_mode (ps ! i) = ''walk'') [0..<length ps] = []" by (auto simp: filter_empty_conv)
  then show ?thesis by (simp add: last_walk_index_def)
qed

lemma filter_enumerate_from:
  "n \<notin> {k..<k + length xs} \<Longrightarrow> map snd (filter (\<lambda>(index, p). P p \<or> index = n) (enumerate k xs)) = filter P xs"
  by (induction xs arbitrary: k) auto

lemma deserialize_last_walk:
  assumes "tp_mode w = ''walk''" and "\<forall>p\<in>set zs. tp_mode p \<noteq> ''walk''"
  shows "deserialize_teleported_mode_params (ys @ w # zs) = filter (\<lambda>p. tp_mode p \<noteq> ''walk'') ys @ w # zs"
proof -
  have zs: "filter (\<lambda>p. tp_mode p \<noteq> ''walk'') zs = zs" using assms(2) by (simp add: filter_id_conv)
  have before: "map snd (filter (\<lambda>(index, p). tp_mode p \<noteq> ''walk'' \<or> index = length ys) (enumerate 0 ys)) =
      filter (\<lambda>p. tp_mode p \<noteq> ''walk'') ys"
    by (rule filter_enumerate_from) simp
  have after: "map snd (filter (\<lambda>(index, p). tp_mode p \<noteq> ''walk'' \<or> index = length ys) (enumerate (Suc (length ys)) zs)) =
      filter (\<lambda>p. tp_mode p \<noteq> ''walk'') zs"
    by (rule filter_enumerate_from) simp
  show ?thesis
    using before after
    by (simp add: deserialize_teleported_mode_params_def last_walk_index_eq[OF assms] enumerate_append_eq zs)
qed

text \<open>
  Whatever the file gives, the teleported modes that are read contain the mode walk exactly
  once, with the parameters of its last entry or the default ones, and the other entries in order;
  so a trip router made from them has a module for the default access mode.
\<close>

theorem teleported_mode_params_spec:
  "filter (\<lambda>p. tp_mode p \<noteq> ''walk'') (deserialize_teleported_mode_params params) = filter (\<lambda>p. tp_mode p \<noteq> ''walk'') params \<and>
   filter (\<lambda>p. tp_mode p = ''walk'') (deserialize_teleported_mode_params params) =
     [if \<exists>p\<in>set params. tp_mode p = ''walk'' then last (filter (\<lambda>p. tp_mode p = ''walk'') params)
      else default_walk_teleported_params] \<and>
   teleported_modules \<lparr>rc_teleported_mode_params = read_teleported_mode_params field,
      rc_access_egress_mode = rt_access_egress_mode routing_default, rc_main_modes = modes\<rparr> (rt_access_egress_mode routing_default) \<noteq> None"
proof (intro conjI)
  have both: "filter (\<lambda>p. tp_mode p \<noteq> ''walk'') (deserialize_teleported_mode_params ps) = filter (\<lambda>p. tp_mode p \<noteq> ''walk'') ps \<and>
    filter (\<lambda>p. tp_mode p = ''walk'') (deserialize_teleported_mode_params ps) =
      [if \<exists>p\<in>set ps. tp_mode p = ''walk'' then last (filter (\<lambda>p. tp_mode p = ''walk'') ps) else default_walk_teleported_params]" for ps
  proof (cases "\<exists>p\<in>set ps. tp_mode p = ''walk''")
    case True
    then obtain ys w zs where ps: "ps = ys @ w # zs" and w: "tp_mode w = ''walk''" "\<forall>p\<in>set zs. tp_mode p \<noteq> ''walk''"
      by (rule split_list_last_propE)
    have "filter (\<lambda>p. tp_mode p = ''walk'') zs = []" using w(2) by (simp add: filter_empty_conv)
    then show ?thesis using w(1) by (simp add: ps deserialize_last_walk[OF w])
  next
    case False
    then show ?thesis
      by (simp add: deserialize_teleported_mode_params_def last_walk_index_None default_walk_teleported_params_def
          filter_empty_conv)
  qed
  then show "filter (\<lambda>p. tp_mode p \<noteq> ''walk'') (deserialize_teleported_mode_params params) = filter (\<lambda>p. tp_mode p \<noteq> ''walk'') params"
    "filter (\<lambda>p. tp_mode p = ''walk'') (deserialize_teleported_mode_params params) =
     [if \<exists>p\<in>set params. tp_mode p = ''walk'' then last (filter (\<lambda>p. tp_mode p = ''walk'') params)
      else default_walk_teleported_params]" by blast+
  have has: "\<exists>p\<in>set (read_teleported_mode_params field). tp_mode p = ''walk''"
  proof (cases field)
    case (Some ps)
    have "filter (\<lambda>p. tp_mode p = ''walk'') (deserialize_teleported_mode_params ps) \<noteq> []" using both[of ps] by simp
    then show ?thesis using Some by (auto simp: read_teleported_mode_params_def filter_empty_conv)
  qed (simp add: read_teleported_mode_params_def default_teleported_mode_params_def default_walk_teleported_params_def)
  have fold: "(\<exists>p\<in>set ps. tp_mode p = k) \<or> m k \<noteq> None \<Longrightarrow> fold (\<lambda>t routers. routers(tp_mode t \<mapsto>
     TeleportationRoutingModule (tp_mode t) (tp_beeline_distance_factor t) (tp_teleported_mode_speed t))) ps m k \<noteq> None" for ps m k
    by (induction ps arbitrary: m) auto
  show "teleported_modules \<lparr>rc_teleported_mode_params = read_teleported_mode_params field,
      rc_access_egress_mode = rt_access_egress_mode routing_default, rc_main_modes = modes\<rparr> (rt_access_egress_mode routing_default) \<noteq> None"
    using fold[of "read_teleported_mode_params field" "''walk''" Map.empty] has
    by (simp add: teleported_modules_def routing_default_def)
qed

section \<open>Overrides\<close>

text \<open>The modules a handler changes, and the values its reader accepts, by key.\<close>

definition touched :: "string \<Rightarrow> string set" where
  "touched key = insert (takeWhile (\<lambda>c. c \<noteq> CHR ''.'') key) (if key = ''partitioning.num_parts'' then {''output''} else {})"

definition override_readers :: "(string \<times> (string \<Rightarrow> bool)) list" where
  "override_readers =
    [(''network.path'', \<lambda>_. True),
     (''population.path'', \<lambda>_. True),
     (''vehicles.path'', \<lambda>_. True),
     (''ids.path'', \<lambda>_. True),
     (''partitioning.num_parts'', \<lambda>v. parse_u32 v \<noteq> None),
     (''output.output_dir'', \<lambda>_. True),
     (''output.overwrite_files'', \<lambda>v. parse_overwrite_file v \<noteq> None),
     (''routing.mode'', \<lambda>v. routing_mode_of v \<noteq> None),
     (''replanning.fraction_of_iterations_to_disable_innovation'', \<lambda>v. parse_f64 v \<noteq> None),
     (''replanning.max_agent_plan_memory'', \<lambda>v. parse_u32 v \<noteq> None),
     (''replanning.plan_selector_for_removal'', \<lambda>_. True),
     (''qsim.start_time'', \<lambda>v. parse_u32 v \<noteq> None),
     (''qsim.end_time'', \<lambda>v. parse_u32 v \<noteq> None),
     (''qsim.ticks_per_second'', \<lambda>v. parse_u32 v \<noteq> None),
     (''qsim.sample_size'', \<lambda>v. parse_f64 v \<noteq> None),
     (''qsim.stuck_threshold'', \<lambda>v. parse_u32 v \<noteq> None),
     (''qsim.main_modes'', \<lambda>_. True),
     (''controller.first_iteration'', \<lambda>v. parse_u32 v \<noteq> None),
     (''controller.last_iteration'', \<lambda>v. parse_u32 v \<noteq> None),
     (''controller.write_events_interval'', \<lambda>v. parse_u32 v \<noteq> None),
     (''controller.write_plans_interval'', \<lambda>v. parse_u32 v \<noteq> None),
     (''controller.compression_type'', \<lambda>v. parse_compression_type v \<noteq> None),
     (''computational_setup.adapter_worker_threads'', \<lambda>v. parse_u32 v \<noteq> None),
     (''computational_setup.replanning_threads'', \<lambda>v. parse_u32 v \<noteq> None),
     (''computational_setup.global_sync'', \<lambda>v. parse_bool v \<noteq> None),
     (''computational_setup.random_seed'', \<lambda>v. parse_u64 v \<noteq> None)]"

definition readable :: "string \<times> string \<Rightarrow> bool" where
  "readable kv \<longleftrightarrow> (case map_of override_readers (fst kv) of None \<Rightarrow> True | Some P \<Rightarrow> P (snd kv))"

text \<open>The handler of \<open>partitioning.num_parts\<close> skips a value it cannot read, all others unwrap.\<close>

definition panics :: "string \<times> string \<Rightarrow> bool" where
  "panics kv \<longleftrightarrow> \<not> readable kv \<and> fst kv \<noteq> ''partitioning.num_parts''"

definition ignored :: "string \<times> string \<Rightarrow> bool" where
  "ignored kv \<longleftrightarrow> fst kv \<notin> fst ` set override_readers \<or> \<not> readable kv \<and> fst kv = ''partitioning.num_parts''"

definition handler_ok :: "string set \<Rightarrow> (string \<Rightarrow> bool) \<Rightarrow> (config \<Rightarrow> string \<Rightarrow> config option) \<Rightarrow> bool" where
  "handler_ok K P h \<longleftrightarrow> (\<forall>c v. config_complete c \<longrightarrow> (h c v = None \<longleftrightarrow> \<not> P v) \<and>
     (\<forall>c'. h c v = Some c' \<longrightarrow> config_complete c' \<and> cfg_context c' = cfg_context c \<and>
        (\<forall>k. k \<notin> K \<longrightarrow> cfg_modules c' k = cfg_modules c k)))"

lemma handler_okI:
  assumes "\<And>c v. config_complete c \<Longrightarrow> P v \<Longrightarrow> \<exists>c'. h c v = Some c' \<and> config_complete c' \<and> cfg_context c' = cfg_context c \<and>
        (\<forall>k. k \<notin> K \<longrightarrow> cfg_modules c' k = cfg_modules c k)"
    and "\<And>c v. config_complete c \<Longrightarrow> \<not> P v \<Longrightarrow> h c v = None"
  shows "handler_ok K P h"
  unfolding handler_ok_def
proof (intro allI impI)
  fix c v assume c: "config_complete c"
  show "(h c v = None \<longleftrightarrow> \<not> P v) \<and> (\<forall>c'. h c v = Some c' \<longrightarrow> config_complete c' \<and> cfg_context c' = cfg_context c \<and>
        (\<forall>k. k \<notin> K \<longrightarrow> cfg_modules c' k = cfg_modules c k))"
    by (cases "P v") (use assms(1)[OF c, of v] assms(2)[OF c, of v] in auto)
qed

context known_slot begin

lemma upd_handler:
  assumes "config_complete c"
  shows "\<exists>c'. upd f c = Some c' \<and> config_complete c' \<and> cfg_context c' = cfg_context c \<and>
     (\<forall>k. k \<noteq> key \<longrightarrow> cfg_modules c' k = cfg_modules c k)"
proof -
  obtain m where "upd f c = Some (insert_module key (con (f m)) c)" using upd_complete[OF assms] by blast
  then show ?thesis using complete_insert[OF assms, of "f m"] by (simp add: insert_module_def)
qed

lemma plain_handler: "handler_ok {key} (\<lambda>_. True) (\<lambda>c v. upd (f v) c)"
  by (rule handler_okI) (use upd_handler in auto)

lemma reading_handler: "handler_ok {key} (\<lambda>v. r v \<noteq> None) (\<lambda>c v. do { x \<leftarrow> r v; upd (f x) c })"
proof (rule handler_okI)
  fix c v assume c: "config_complete c" and "r v \<noteq> None"
  then obtain x where "r v = Some x" by blast
  then show "\<exists>c'. do { x \<leftarrow> r v; upd (f x) c } = Some c' \<and> config_complete c' \<and> cfg_context c' = cfg_context c \<and>
     (\<forall>k. k \<notin> {key} \<longrightarrow> cfg_modules c' k = cfg_modules c k)"
    using upd_handler[OF c, of "f x"] by simp
qed simp

end

lemma override_network_path_ok: "handler_ok (touched ''network.path'') (\<lambda>_. True) override_network_path"
  using network_known.plain_handler by (simp add: override_network_path_def[abs_def] touched_def)

lemma override_population_path_ok: "handler_ok (touched ''population.path'') (\<lambda>_. True) override_population_path"
  using population_known.plain_handler by (simp add: override_population_path_def[abs_def] touched_def)

lemma override_vehicles_path_ok: "handler_ok (touched ''vehicles.path'') (\<lambda>_. True) override_vehicles_path"
  using vehicles_known.plain_handler by (simp add: override_vehicles_path_def[abs_def] touched_def)

lemma override_output_output_dir_ok: "handler_ok (touched ''output.output_dir'') (\<lambda>_. True) override_output_output_dir"
  using output_known.plain_handler by (simp add: override_output_output_dir_def[abs_def] touched_def)

lemma override_output_overwrite_files_ok: "handler_ok (touched ''output.overwrite_files'') (\<lambda>v. parse_overwrite_file v \<noteq> None) override_output_overwrite_files"
  using output_known.reading_handler by (simp add: override_output_overwrite_files_def[abs_def] touched_def)

lemma override_replanning_fraction_of_iterations_to_disable_innovation_ok: "handler_ok (touched ''replanning.fraction_of_iterations_to_disable_innovation'') (\<lambda>v. parse_f64 v \<noteq> None) override_replanning_fraction_of_iterations_to_disable_innovation"
  using replanning_known.reading_handler by (simp add: override_replanning_fraction_of_iterations_to_disable_innovation_def[abs_def] touched_def)

lemma override_replanning_max_agent_plan_memory_ok: "handler_ok (touched ''replanning.max_agent_plan_memory'') (\<lambda>v. parse_u32 v \<noteq> None) override_replanning_max_agent_plan_memory"
  using replanning_known.reading_handler by (simp add: override_replanning_max_agent_plan_memory_def[abs_def] touched_def)

lemma override_replanning_plan_selector_for_removal_ok: "handler_ok (touched ''replanning.plan_selector_for_removal'') (\<lambda>_. True) override_replanning_plan_selector_for_removal"
  using replanning_known.plain_handler by (simp add: override_replanning_plan_selector_for_removal_def[abs_def] touched_def)

lemma override_qsim_start_time_ok: "handler_ok (touched ''qsim.start_time'') (\<lambda>v. parse_u32 v \<noteq> None) override_qsim_start_time"
  using qsim_known.reading_handler by (simp add: override_qsim_start_time_def[abs_def] touched_def)

lemma override_qsim_end_time_ok: "handler_ok (touched ''qsim.end_time'') (\<lambda>v. parse_u32 v \<noteq> None) override_qsim_end_time"
  using qsim_known.reading_handler by (simp add: override_qsim_end_time_def[abs_def] touched_def)

lemma override_qsim_ticks_per_second_ok: "handler_ok (touched ''qsim.ticks_per_second'') (\<lambda>v. parse_u32 v \<noteq> None) override_qsim_ticks_per_second"
  using qsim_known.reading_handler by (simp add: override_qsim_ticks_per_second_def[abs_def] touched_def)

lemma override_qsim_sample_size_ok: "handler_ok (touched ''qsim.sample_size'') (\<lambda>v. parse_f64 v \<noteq> None) override_qsim_sample_size"
  using qsim_known.reading_handler by (simp add: override_qsim_sample_size_def[abs_def] touched_def)

lemma override_qsim_stuck_threshold_ok: "handler_ok (touched ''qsim.stuck_threshold'') (\<lambda>v. parse_u32 v \<noteq> None) override_qsim_stuck_threshold"
  using qsim_known.reading_handler by (simp add: override_qsim_stuck_threshold_def[abs_def] touched_def)

lemma override_qsim_main_modes_ok: "handler_ok (touched ''qsim.main_modes'') (\<lambda>_. True) override_qsim_main_modes"
  using qsim_known.plain_handler by (simp add: override_qsim_main_modes_def[abs_def] touched_def)

lemma override_controller_first_iteration_ok: "handler_ok (touched ''controller.first_iteration'') (\<lambda>v. parse_u32 v \<noteq> None) override_controller_first_iteration"
  using controller_known.reading_handler by (simp add: override_controller_first_iteration_def[abs_def] touched_def)

lemma override_controller_last_iteration_ok: "handler_ok (touched ''controller.last_iteration'') (\<lambda>v. parse_u32 v \<noteq> None) override_controller_last_iteration"
  using controller_known.reading_handler by (simp add: override_controller_last_iteration_def[abs_def] touched_def)

lemma override_controller_write_events_interval_ok: "handler_ok (touched ''controller.write_events_interval'') (\<lambda>v. parse_u32 v \<noteq> None) override_controller_write_events_interval"
  using controller_known.reading_handler by (simp add: override_controller_write_events_interval_def[abs_def] touched_def)

lemma override_controller_write_plans_interval_ok: "handler_ok (touched ''controller.write_plans_interval'') (\<lambda>v. parse_u32 v \<noteq> None) override_controller_write_plans_interval"
  using controller_known.reading_handler by (simp add: override_controller_write_plans_interval_def[abs_def] touched_def)

lemma override_controller_compression_type_ok: "handler_ok (touched ''controller.compression_type'') (\<lambda>v. parse_compression_type v \<noteq> None) override_controller_compression_type"
  using controller_known.reading_handler by (simp add: override_controller_compression_type_def[abs_def] touched_def)

lemma override_computational_setup_adapter_worker_threads_ok: "handler_ok (touched ''computational_setup.adapter_worker_threads'') (\<lambda>v. parse_u32 v \<noteq> None) override_computational_setup_adapter_worker_threads"
  using computational_setup_known.reading_handler by (simp add: override_computational_setup_adapter_worker_threads_def[abs_def] touched_def)

lemma override_computational_setup_replanning_threads_ok: "handler_ok (touched ''computational_setup.replanning_threads'') (\<lambda>v. parse_u32 v \<noteq> None) override_computational_setup_replanning_threads"
  using computational_setup_known.reading_handler by (simp add: override_computational_setup_replanning_threads_def[abs_def] touched_def)

lemma override_computational_setup_global_sync_ok: "handler_ok (touched ''computational_setup.global_sync'') (\<lambda>v. parse_bool v \<noteq> None) override_computational_setup_global_sync"
  using computational_setup_known.reading_handler by (simp add: override_computational_setup_global_sync_def[abs_def] touched_def)

lemma override_computational_setup_random_seed_ok: "handler_ok (touched ''computational_setup.random_seed'') (\<lambda>v. parse_u64 v \<noteq> None) override_computational_setup_random_seed"
  using computational_setup_known.reading_handler by (simp add: override_computational_setup_random_seed_def[abs_def] touched_def)

lemma override_ids_path_ok: "handler_ok (touched ''ids.path'') (\<lambda>_. True) override_ids_path"
  by (rule handler_okI)
    (simp_all add: override_ids_path_def set_ids_def touched_def ids_known.complete_insert, simp_all add: insert_module_def)

lemma override_routing_mode_ok: "handler_ok (touched ''routing.mode'') (\<lambda>v. routing_mode_of v \<noteq> None) override_routing_mode"
  using routing_known.reading_handler by (simp add: override_routing_mode_def[abs_def] touched_def)

lemma override_partitioning_num_parts_ok:
  "handler_ok (touched ''partitioning.num_parts'') (\<lambda>_. True) override_partitioning_num_parts"
proof (rule handler_okI)
  fix c v assume c: "config_complete c"
  show "\<exists>c'. override_partitioning_num_parts c v = Some c' \<and> config_complete c' \<and> cfg_context c' = cfg_context c \<and>
     (\<forall>k. k \<notin> touched ''partitioning.num_parts'' \<longrightarrow> cfg_modules c' k = cfg_modules c k)"
  proof (cases "parse_u32 v")
    case None
    then show ?thesis using c by (simp add: override_partitioning_num_parts_def)
  next
    case (Some n)
    obtain c1 where c1: "partitioning_mut (\<lambda>m. m\<lparr>num_parts := n\<rparr>) c = Some c1" "config_complete c1" "cfg_context c1 = cfg_context c"
      "\<forall>k. k \<noteq> ''partitioning'' \<longrightarrow> cfg_modules c1 k = cfg_modules c k"
      using partitioning_known.upd_handler[OF c] by blast
    obtain out where out: "cfg_output c1 = Some out" using output_known.complete_get[OF c1(2)] by blast
    obtain c2 where c2: "output_mut (\<lambda>m. m\<lparr>output_dir := output_dir out @ ''-'' @ show_nat n\<rparr>) c1 = Some c2" "config_complete c2"
      "cfg_context c2 = cfg_context c1" "\<forall>k. k \<noteq> ''output'' \<longrightarrow> cfg_modules c2 k = cfg_modules c1 k"
      using output_known.upd_handler[OF c1(2)] by blast
    then show ?thesis using Some c1 out by (simp add: override_partitioning_num_parts_def touched_def)
  qed
qed simp

lemmas override_oks = override_network_path_ok override_population_path_ok override_vehicles_path_ok override_ids_path_ok override_partitioning_num_parts_ok override_output_output_dir_ok override_output_overwrite_files_ok override_routing_mode_ok override_replanning_fraction_of_iterations_to_disable_innovation_ok override_replanning_max_agent_plan_memory_ok override_replanning_plan_selector_for_removal_ok override_qsim_start_time_ok override_qsim_end_time_ok override_qsim_ticks_per_second_ok override_qsim_sample_size_ok override_qsim_stuck_threshold_ok override_qsim_main_modes_ok override_controller_first_iteration_ok override_controller_last_iteration_ok override_controller_write_events_interval_ok override_controller_write_plans_interval_ok override_controller_compression_type_ok override_computational_setup_adapter_worker_threads_ok override_computational_setup_replanning_threads_ok override_computational_setup_global_sync_ok override_computational_setup_random_seed_ok

lemma handlers_readers:
  "list_all2 (\<lambda>(k, h) (k', P). k = k' \<and>
     handler_ok (touched k) (if k = ''partitioning.num_parts'' then \<lambda>_. True else P) h) override_handlers override_readers"
  unfolding override_handlers_def override_readers_def list_all2_Cons split_conv
  by (intro conjI refl list.rel_intros; simp add: override_oks del: not_None_eq)

lemma handler_of_key:
  "list_all2 (\<lambda>(k, h) (k', P). k = k' \<and> handler_ok (T k) (F k P) h) hs ps \<Longrightarrow>
     (case map_of hs k of None \<Rightarrow> map_of ps k = None | Some h \<Rightarrow> \<exists>P. map_of ps k = Some P \<and> handler_ok (T k) (F k P) h)"
proof (induction hs ps rule: list_all2_induct)
  case (Cons h hs p ps)
  then show ?case by (cases h; cases p; cases "fst h = k") (auto split: option.splits)
qed simp

lemma apply_ignored: "ignored kv \<Longrightarrow> apply_override kv c = Some c"
proof -
  assume kv: "ignored kv"
  show ?thesis
  proof (cases "map_of override_handlers (fst kv)")
    case (Some h)
    then obtain P where P: "map_of override_readers (fst kv) = Some P"
      using handler_of_key[OF handlers_readers, of "fst kv"] by auto
    then have "fst kv \<in> fst ` set override_readers" by (metis domI dom_map_of_conv_image_fst)
    then have "fst kv = ''partitioning.num_parts''" "\<not> readable kv" using kv by (auto simp: ignored_def)
    then show ?thesis
      by (simp add: apply_override_def readable_def override_readers_def override_handlers_def override_partitioning_num_parts_def)
  qed (simp add: apply_override_def)
qed

lemma apply_override_spec:
  assumes "config_complete c"
  shows "(apply_override kv c = None \<longleftrightarrow> panics kv) \<and>
     (\<forall>c'. apply_override kv c = Some c' \<longrightarrow> config_complete c' \<and> cfg_context c' = cfg_context c \<and>
        (\<forall>k. k \<notin> touched (fst kv) \<longrightarrow> cfg_modules c' k = cfg_modules c k))"
proof -
  note h = handler_of_key[OF handlers_readers, of "fst kv"]
  show ?thesis
  proof (cases "map_of override_handlers (fst kv)")
    case None
    then show ?thesis using h assms by (simp add: apply_override_def panics_def readable_def)
  next
    case (Some a)
    then obtain P where "map_of override_readers (fst kv) = Some P"
        "handler_ok (touched (fst kv)) (if fst kv = ''partitioning.num_parts'' then \<lambda>_. True else P) a" using h by auto
    then show ?thesis using Some assms
      by (cases "fst kv = ''partitioning.num_parts''") (simp_all add: apply_override_def panics_def readable_def handler_ok_def)
  qed
qed

lemma apply_overrides_Cons: "apply_overrides (kv # overrides) c = Option.bind (apply_override kv c) (apply_overrides overrides)"
  by (simp add: apply_overrides_def[abs_def])

lemma apply_overrides_ignored: "apply_overrides overrides c = apply_overrides (filter (\<lambda>kv. \<not> ignored kv) overrides) c"
proof (induction overrides arbitrary: c)
  case (Cons kv overrides)
  show ?case
  proof (cases "ignored kv")
    case True
    then show ?thesis using Cons.IH[of c] by (simp add: apply_overrides_Cons apply_ignored)
  next
    case False
    then show ?thesis using Cons.IH by (simp add: apply_overrides_Cons cong: Option.bind_cong)
  qed
qed simp

lemma apply_overrides_frame:
  assumes "config_complete c"
  shows "(apply_overrides overrides c = None \<longleftrightarrow> (\<exists>kv\<in>set overrides. panics kv)) \<and>
     (\<forall>c'. apply_overrides overrides c = Some c' \<longrightarrow> config_complete c' \<and> cfg_context c' = cfg_context c \<and>
        (\<forall>k. k \<notin> (\<Union>kv\<in>set overrides. touched (fst kv)) \<longrightarrow> cfg_modules c' k = cfg_modules c k))"
  using assms
proof (induction overrides arbitrary: c)
  case Nil
  then show ?case by (simp add: apply_overrides_def)
next
  case (Cons kv overrides)
  have ok: "apply_override kv c = None \<longleftrightarrow> panics kv" by (rule conjunct1[OF apply_override_spec[OF Cons.prems]])
  show ?case
  proof (cases "apply_override kv c")
    case None
    then show ?thesis using ok by (simp add: apply_overrides_Cons)
  next
    case (Some c1)
    have c1: "config_complete c1" "cfg_context c1 = cfg_context c"
      and frame: "\<And>k. k \<notin> touched (fst kv) \<Longrightarrow> cfg_modules c1 k = cfg_modules c k"
      using apply_override_spec[OF Cons.prems, of kv] Some by blast+
    have eq: "apply_overrides (kv # overrides) c = apply_overrides overrides c1"
      using Some by (simp add: apply_overrides_Cons)
    have good: "\<not> panics kv" using ok Some by simp
    show ?thesis unfolding eq
    proof (intro conjI allI impI)
      show "apply_overrides overrides c1 = None \<longleftrightarrow> (\<exists>kv\<in>set (kv # overrides). panics kv)"
        using conjunct1[OF Cons.IH[OF c1(1)]] good by simp
    next
      fix c' assume c': "apply_overrides overrides c1 = Some c'"
      show "config_complete c'" using Cons.IH[OF c1(1)] c' by blast
      have "cfg_context c' = cfg_context c1" using Cons.IH[OF c1(1)] c' by blast
      then show "cfg_context c' = cfg_context c" using c1(2) by (rule trans)
      fix k assume k: "k \<notin> (\<Union>kv\<in>set (kv # overrides). touched (fst kv))"
      then have "cfg_modules c' k = cfg_modules c1 k" using Cons.IH[OF c1(1)] c' by (metis UN_iff list.set_intros(2))
      moreover have "cfg_modules c1 k = cfg_modules c k" by (rule frame) (use k in simp)
      ultimately show "cfg_modules c' k = cfg_modules c k" by (rule trans)
    qed
  qed
qed

text \<open>
  C38. On a complete configuration, the overrides of the command line panic exactly if the value of
  a known key cannot be read, other than that of \<open>partitioning.num_parts\<close>. An unknown key, and a
  number of partitions that cannot be read, have no effect: the result is the same without them.
  The configuration stays complete, and only the modules named by the keys of the other overrides
  change, and the output directory if the number of partitions is among them.
\<close>

theorem apply_overrides_spec:
  assumes "config_complete c"
  shows "(apply_overrides overrides c = None \<longleftrightarrow> (\<exists>kv\<in>set overrides. panics kv)) \<and>
     apply_overrides overrides c = apply_overrides (filter (\<lambda>kv. \<not> ignored kv) overrides) c \<and>
     (\<forall>c'. apply_overrides overrides c = Some c' \<longrightarrow> config_complete c' \<and> cfg_context c' = cfg_context c \<and>
        (\<forall>k. k \<notin> (\<Union>kv\<in>{kv\<in>set overrides. \<not> ignored kv}. touched (fst kv)) \<longrightarrow> cfg_modules c' k = cfg_modules c k))"
proof (intro conjI)
  show "apply_overrides overrides c = None \<longleftrightarrow> (\<exists>kv\<in>set overrides. panics kv)"
    by (rule conjunct1[OF apply_overrides_frame[OF assms]])
  show "apply_overrides overrides c = apply_overrides (filter (\<lambda>kv. \<not> ignored kv) overrides) c"
    by (rule apply_overrides_ignored)
  show "\<forall>c'. apply_overrides overrides c = Some c' \<longrightarrow> config_complete c' \<and> cfg_context c' = cfg_context c \<and>
        (\<forall>k. k \<notin> (\<Union>kv\<in>{kv\<in>set overrides. \<not> ignored kv}. touched (fst kv)) \<longrightarrow> cfg_modules c' k = cfg_modules c k)"
    using conjunct2[OF apply_overrides_frame[OF assms, of "filter (\<lambda>kv. \<not> ignored kv) overrides"]]
    unfolding apply_overrides_ignored[of overrides] set_filter .
qed

text \<open>
  The defaults with an end time, no number of partitions, an unknown key and an infinite sample
  size; the module of the partitioning is as before.
\<close>

lemma apply_overrides_spec_witness:
  "\<exists>c c'. config_default (Some ''run'') = Some c \<and>
     apply_overrides [(''qsim.end_time'', ''3600''), (''partitioning.num_parts'', ''abc''), (''unknown'', ''x''),
       (''qsim.sample_size'', ''-Inf'')] c = Some c' \<and>
     config_complete c' \<and> cfg_modules c' ''partitioning'' = cfg_modules c ''partitioning''"
proof -
  have "\<not> (config_default (Some ''run'') = None)"
    by (simp add: config_default_def ensure_defaults_eq config_ok_def key_ok_def)
  then obtain c where c: "config_default (Some ''run'') = Some c" by blast
  have complete: "config_complete c"
    using c config_complete_defaults by (auto simp: config_default_def ensure_defaults_eq migrate_config_ok split: if_splits)
  let ?ovs = "[(''qsim.end_time'', ''3600''), (''partitioning.num_parts'', ''abc''), (''unknown'', ''x''),
       (''qsim.sample_size'', ''-Inf'')]"
  have bad: "parse_u32 ''abc'' = None" "parse_u32 ''3600'' = Some 3600"
    by (simp_all add: parse_u32_def parse_u64_def parse_digits_def is_ascii_digit_def read_digits_def digit_val_def u64_max_def u32_max_def)
  have inf: "parse_f64 ''-Inf'' = Some NegInf" by (simp add: parse_f64_def read_sign_def to_lowercase_def char_of_def bit_0)
  have "\<not> (\<exists>kv\<in>set ?ovs. panics kv)" by (simp add: panics_def readable_def override_readers_def bad inf)
  moreover have "ignored (''partitioning.num_parts'', ''abc'')" by (simp add: ignored_def readable_def override_readers_def bad)
  then have "''partitioning'' \<notin> (\<Union>kv\<in>{kv\<in>set ?ovs. \<not> ignored kv}. touched (fst kv))" by (auto simp: touched_def)
  ultimately show ?thesis using apply_overrides_spec[OF complete, of ?ovs] c by blast
qed

end
