(* ===== verification/Event_Files.thy ===== *)
theory Event_Files
  imports Config
begin

text \<open>
  The files of a run: the output directory (\<open>controller/controller.rs\<close>) and the files of events that
  a worker writes per iteration (\<open>IterationEventsWriter\<close> of \<open>controller/mod.rs\<close>).

  The file system is a map from paths to contents. Errors of the operating system other than a
  file where a directory is needed are not modelled. The encoding of events in the file is left to
  the writers of \<open>io/\<close>; a file of events is the list of events given to its writer and whether the
  writer has been finished.
\<close>

section \<open>Files\<close>

datatype file_content =
    Directory
  | EventFile "event list" bool
  | PlansFile population
  | NetworkFile network
  | ConfigFile config
  | IdFile

type_synonym path = "string list"

type_synonym file_system = "path \<rightharpoonup> file_content"

definition is_dir_or_free :: "file_system \<Rightarrow> path \<Rightarrow> bool" where
  "is_dir_or_free fs p \<longleftrightarrow> fs p = None \<or> fs p = Some Directory"

text \<open>\<open>fs::create_dir_all\<close>, \<open>fs::remove_dir_all\<close> and \<open>File::create\<close> followed by writing.\<close>

definition create_dir_all :: "path \<Rightarrow> file_system \<Rightarrow> file_system option" where
  "create_dir_all p fs = do {
     _ \<leftarrow> ensure (list_all (is_dir_or_free fs) (prefixes p));
     Some (\<lambda>q. if prefix q p then Some Directory else fs q) }"

definition remove_dir_all :: "path \<Rightarrow> file_system \<Rightarrow> file_system option" where
  "remove_dir_all p fs = do {
     _ \<leftarrow> ensure (fs p = Some Directory);
     Some (\<lambda>q. if prefix p q then None else fs q) }"

definition write_file :: "path \<Rightarrow> file_content \<Rightarrow> file_system \<Rightarrow> file_system option" where
  "write_file p x fs = do {
     _ \<leftarrow> ensure (fs p \<noteq> Some Directory \<and> fs (butlast p) = Some Directory);
     Some (fs(p \<mapsto> x)) }"

datatype output_error = DeleteFailed path | OutputExists path | CreateFailed path

definition prepare_output_directory :: "path \<Rightarrow> overwrite_files \<Rightarrow> file_system \<Rightarrow> output_error + file_system" where
  "prepare_output_directory output_path ow fs =
     and_then
       (if fs output_path = None then Inr fs
        else (case ow of
            DeleteDirectoryIfExists \<Rightarrow> ok_or (DeleteFailed output_path) (remove_dir_all output_path fs)
          | FailIfDirectoryExists \<Rightarrow> Inl (OutputExists output_path)
          | OverwriteExistingFiles \<Rightarrow> Inr fs))
       (\<lambda>fs. ok_or (CreateFailed output_path) (create_dir_all output_path fs))"

text \<open>The name of an output file after the name of the input file.\<close>

definition create_output_filename :: "path \<Rightarrow> path \<Rightarrow> path option" where
  "create_output_filename out_dir input_file = do {
     _ \<leftarrow> ensure (input_file \<noteq> [] \<and> last input_file \<noteq> ''/'' \<and> last input_file \<noteq> ''..'');
     Some (out_dir @ [last input_file]) }"

definition strip_suffix :: "string \<Rightarrow> string \<Rightarrow> string option" where
  "strip_suffix suf s = (if suffix suf s then Some (take (length s - length suf) s) else None)"

definition insert_number_in_proto_filename :: "path \<Rightarrow> nat \<Rightarrow> path option" where
  "insert_number_in_proto_filename path part = do {
     _ \<leftarrow> ensure (path \<noteq> []);
     (let filename = last path in do {
        (stripped, ext) \<leftarrow> (case strip_suffix ''.xml.zst'' filename of Some s \<Rightarrow> Some (s, ''xml.zst'')
          | None \<Rightarrow> (case strip_suffix ''.xml.gz'' filename of Some s \<Rightarrow> Some (s, ''xml.gz'')
          | None \<Rightarrow> (case strip_suffix ''.xml'' filename of Some s \<Rightarrow> Some (s, ''xml'')
          | None \<Rightarrow> (case strip_suffix ''.binpb'' filename of Some s \<Rightarrow> Some (s, ''binpb'') | None \<Rightarrow> None))));
        (let stem = (case strip_suffix (''.'' @ show_nat part) stripped of Some s \<Rightarrow> s | None \<Rightarrow> stripped)
         in Some (butlast path @ [stem @ ''.'' @ show_nat part @ ''.'' @ ext])) }) }"

definition get_numbered_output_filename :: "path \<Rightarrow> path \<Rightarrow> nat \<Rightarrow> path option" where
  "get_numbered_output_filename out_dir input_file part = do {
     out \<leftarrow> create_output_filename out_dir input_file;
     insert_number_in_proto_filename out part }"

section \<open>The files of events\<close>

datatype active_iteration_events_writer = ProtoWriter path | XmlWriter path

fun writer_path :: "active_iteration_events_writer \<Rightarrow> path" where
  "writer_path (ProtoWriter p) = p"
| "writer_path (XmlWriter p) = p"

definition active_on_any :: "event \<Rightarrow> active_iteration_events_writer \<Rightarrow> file_system \<Rightarrow> file_system" where
  "active_on_any e a fs = (case fs (writer_path a) of
       Some (EventFile es False) \<Rightarrow> fs(writer_path a \<mapsto> EventFile (es @ [e]) False)
     | _ \<Rightarrow> fs)"

definition active_finish :: "active_iteration_events_writer \<Rightarrow> file_system \<Rightarrow> file_system" where
  "active_finish a fs = (case fs (writer_path a) of
       Some (EventFile es _) \<Rightarrow> fs(writer_path a \<mapsto> EventFile es True)
     | _ \<Rightarrow> fs)"

record iteration_events_writer =
  iew_output_path :: path
  iew_rank :: nat
  iew_write_events :: write_events
  iew_compression_type :: compression_type
  iew_write_events_interval :: nat
  iew_last_iteration :: nat
  iew_active_writer :: "active_iteration_events_writer option"

definition iew_should_write :: "iteration_events_writer \<Rightarrow> nat \<Rightarrow> bool option" where
  "iew_should_write w iteration =
     (if iteration = iew_last_iteration w then Some True
      else if iteration = 0 then Some False
      else do {
        _ \<leftarrow> ensure (iew_write_events_interval w \<noteq> 0);
        Some (iteration mod iew_write_events_interval w = 0) })"

definition iew_finish :: "iteration_events_writer \<times> file_system \<Rightarrow> iteration_events_writer \<times> file_system" where
  "iew_finish s = (case s of (w, fs) \<Rightarrow> (case iew_active_writer w of
       None \<Rightarrow> (w, fs)
     | Some a \<Rightarrow> (w\<lparr>iew_active_writer := None\<rparr>, active_finish a fs)))"

definition iew_on_any :: "event \<Rightarrow> iteration_events_writer \<times> file_system \<Rightarrow> iteration_events_writer \<times> file_system" where
  "iew_on_any e s = (case s of (w, fs) \<Rightarrow> (case iew_active_writer w of
       None \<Rightarrow> (w, fs)
     | Some a \<Rightarrow> (w, active_on_any e a fs)))"

definition events_dir :: "path \<Rightarrow> nat \<Rightarrow> path" where
  "events_dir output_path iteration = output_path @ [''ITERS'', ''it.'' @ show_nat iteration, ''events'']"

definition events_path :: "iteration_events_writer \<Rightarrow> nat \<Rightarrow> path" where
  "events_path w iteration = events_dir (iew_output_path w) iteration @
     [''events.'' @ show_nat (iew_rank w) @ ''.'' @ extension (iew_compression_type w)]"

definition iew_reset_iteration :: "nat \<Rightarrow> iteration_events_writer \<times> file_system \<Rightarrow>
    (iteration_events_writer \<times> file_system) option" where
  "iew_reset_iteration iteration s = (case iew_finish s of (w, fs) \<Rightarrow> do {
     write \<leftarrow> iew_should_write w iteration;
     (if \<not> write then Some (w, fs)
      else do {
        fs \<leftarrow> create_dir_all (events_dir (iew_output_path w) iteration) fs;
        (case iew_write_events w of
           NoEvents \<Rightarrow> Some (w, fs)
         | EventsFile \<Rightarrow> do {
             fs \<leftarrow> write_file (events_path w iteration) (EventFile [] False) fs;
             Some (w\<lparr>iew_active_writer := Some (if iew_compression_type w = Proto
                 then ProtoWriter (events_path w iteration) else XmlWriter (events_path w iteration))\<rparr>, fs) }) }) })"

text \<open>
  The writer registered by \<open>create_events\<close>, and what a worker does with it: at the start of an
  iteration it is reset, it gets all events of the iteration, and it is finished at the end.
\<close>

definition create_events :: "config \<Rightarrow> nat \<Rightarrow> iteration_events_writer option option" where
  "create_events config rank = do {
     out \<leftarrow> cfg_output config;
     (if write_events out = NoEvents then Some None
      else do {
        ctl \<leftarrow> cfg_controller config;
        _ \<leftarrow> ensure (0 < cc_write_events_interval ctl);
        Some (Some \<lparr>iew_output_path = resolve_path (cfg_context config) (output_dir out), iew_rank = rank,
           iew_write_events = write_events out, iew_compression_type = cc_compression_type ctl,
           iew_write_events_interval = cc_write_events_interval ctl, iew_last_iteration = cc_last_iteration ctl,
           iew_active_writer = None\<rparr>) }) }"

definition iew_iteration :: "nat \<times> event list \<Rightarrow> iteration_events_writer \<times> file_system \<Rightarrow>
    (iteration_events_writer \<times> file_system) option" where
  "iew_iteration it s = do {
     s \<leftarrow> iew_reset_iteration (fst it) s;
     Some (fold iew_on_any (snd it) s) }"

definition iew_run :: "(nat \<times> event list) list \<Rightarrow> iteration_events_writer \<times> file_system \<Rightarrow>
    (iteration_events_writer \<times> file_system) option" where
  "iew_run its s = do { s \<leftarrow> foldM iew_iteration its s; Some (iew_finish s) }"

section \<open>Which events are written\<close>

definition iew_writes :: "iteration_events_writer \<Rightarrow> nat \<Rightarrow> bool" where
  "iew_writes w it \<longleftrightarrow> it = iew_last_iteration w \<or> (it \<noteq> 0 \<and> it mod iew_write_events_interval w = 0)"

text \<open>Directories down to those of the iterations, and no directory where a file of events goes.\<close>

definition output_free :: "path \<Rightarrow> file_system \<Rightarrow> bool" where
  "output_free out_path fs \<longleftrightarrow>
     (\<forall>q x. fs q = Some x \<longrightarrow> prefix q out_path \<or> prefix out_path q \<longrightarrow> length q \<le> length out_path + 3 \<longrightarrow> x = Directory) \<and>
     (\<forall>q. prefix out_path q \<longrightarrow> length q = length out_path + 4 \<longrightarrow> fs q \<noteq> Some Directory)"

lemma events_dir_prefix: "prefix q (events_dir out_path it) \<Longrightarrow> prefix q out_path \<or> prefix out_path q"
  using prefix_same_cases[of q "events_dir out_path it" out_path] by (simp add: events_dir_def)

lemma events_path_dir [simp]: "butlast (events_path w it) = events_dir (iew_output_path w) it"
  by (simp add: events_path_def butlast_append)

lemma length_events [simp]: "length (events_dir out_path it) = length out_path + 3" "length (events_path w it) = length (iew_output_path w) + 4"
  by (simp_all add: events_dir_def events_path_def)

lemma events_path_inj: "events_path w i = events_path w j \<longleftrightarrow> i = j"
proof
  assume "events_path w i = events_path w j"
  then have "show_nat i = show_nat j" by (simp add: events_path_def events_dir_def)
  then show "i = j" by (metis read_show_nat)
qed simp

lemma output_free_write:
  assumes "output_free (iew_output_path w) fs"
  shows "list_all (is_dir_or_free fs) (prefixes (events_dir (iew_output_path w) it))" and "fs (events_path w it) \<noteq> Some Directory"
    and "output_free (iew_output_path w) ((\<lambda>q. if prefix q (events_dir (iew_output_path w) it) then Some Directory else fs q)
      (events_path w it \<mapsto> EventFile es c))"
proof -
  have short: "length q \<le> length (iew_output_path w) + 3" if "prefix q (events_dir (iew_output_path w) it)" for q
    using prefix_length_le[OF that] by simp
  show "list_all (is_dir_or_free fs) (prefixes (events_dir (iew_output_path w) it))"
    unfolding list_all_iff
  proof
    fix q assume "q \<in> set (prefixes (events_dir (iew_output_path w) it))"
    then have q: "prefix q (events_dir (iew_output_path w) it)" by simp
    show "is_dir_or_free fs q"
      using conjunct1[OF assms[unfolded output_free_def]] events_dir_prefix[OF q] short[OF q]
      by (cases "fs q") (auto simp: is_dir_or_free_def)
  qed
  have "prefix (iew_output_path w) (events_path w it)" by (simp add: events_path_def events_dir_def)
  then show "fs (events_path w it) \<noteq> Some Directory" using assms by (simp add: output_free_def)
  show "output_free (iew_output_path w) ((\<lambda>q. if prefix q (events_dir (iew_output_path w) it) then Some Directory else fs q)
      (events_path w it \<mapsto> EventFile es c))"
    unfolding output_free_def
  proof (intro conjI allI impI)
    fix q x assume x: "((\<lambda>q. if prefix q (events_dir (iew_output_path w) it) then Some Directory else fs q)
      (events_path w it \<mapsto> EventFile es c)) q = Some x" and rel: "prefix q (iew_output_path w) \<or> prefix (iew_output_path w) q"
      and len: "length q \<le> length (iew_output_path w) + 3"
    have "q \<noteq> events_path w it" using len by auto
    then show "x = Directory"
      using x conjunct1[OF assms[unfolded output_free_def]] rel len by (auto split: if_split_asm)
  next
    fix q assume pre: "prefix (iew_output_path w) q" and len: "length q = length (iew_output_path w) + 4"
    have "\<not> prefix q (events_dir (iew_output_path w) it)" using short[of q] len by auto
    then show "((\<lambda>q. if prefix q (events_dir (iew_output_path w) it) then Some Directory else fs q)
      (events_path w it \<mapsto> EventFile es c)) q \<noteq> Some Directory"
      using conjunct2[OF assms[unfolded output_free_def]] pre len by simp
  qed
qed

lemma iew_finish_idem: "iew_finish (iew_finish s) = iew_finish s"
  by (cases s) (auto simp: iew_finish_def split: option.splits)

lemma iew_iteration_finish: "iew_iteration it (iew_finish s) = iew_iteration it s"
  by (simp add: iew_iteration_def iew_reset_iteration_def iew_finish_idem)

lemma iew_run_Cons: "iew_run (it # its) s = do { s \<leftarrow> iew_iteration it s; iew_run its (iew_finish s) }"
proof (cases "iew_iteration it s")
  case (Some s1)
  then show ?thesis
    by (cases its) (simp_all add: iew_run_def iew_iteration_finish iew_finish_idem)
qed (simp add: iew_run_def)

lemma iew_on_any_fold:
  assumes "fs (writer_path a) = Some (EventFile xs False)" and "iew_active_writer w = Some a"
  shows "fold iew_on_any es (w, fs) = (w, fs(writer_path a \<mapsto> EventFile (xs @ es) False))"
  using assms
proof (induction es arbitrary: fs xs)
  case (Cons e es)
  have "iew_on_any e (w, fs) = (w, fs(writer_path a \<mapsto> EventFile (xs @ [e]) False))"
    using Cons.prems by (simp add: iew_on_any_def active_on_any_def)
  moreover have "fold iew_on_any es (w, fs(writer_path a \<mapsto> EventFile (xs @ [e]) False)) =
      (w, (fs(writer_path a \<mapsto> EventFile (xs @ [e]) False))(writer_path a \<mapsto> EventFile ((xs @ [e]) @ es) False))"
    by (rule Cons.IH) (simp_all add: Cons.prems(2))
  ultimately show ?case by (simp del: fun_upd_apply)
qed (simp add: fun_upd_idem)

lemma iew_on_any_idle: "iew_active_writer w = None \<Longrightarrow> fold iew_on_any es (w, fs) = (w, fs)"
  by (induction es) (simp_all add: iew_on_any_def)

lemma iew_step:
  assumes idle: "iew_active_writer w = None" and ev: "iew_write_events w = EventsFile" and "0 < iew_write_events_interval w"
    and free: "output_free (iew_output_path w) fs"
  shows "map_option iew_finish (iew_iteration (it, es) (w, fs)) =
    Some (w, if iew_writes w it then (\<lambda>q. if prefix q (events_dir (iew_output_path w) it) then Some Directory else fs q)
      (events_path w it \<mapsto> EventFile es True) else fs)"
proof (cases "iew_writes w it")
  case False
  then have "iew_should_write w it = Some False" using assms(3) by (auto simp: iew_should_write_def iew_writes_def)
  then show ?thesis using False idle by (simp add: iew_iteration_def iew_reset_iteration_def iew_finish_def iew_on_any_idle)
next
  case True
  then have should: "iew_should_write w it = Some True" using assms(3) by (auto simp: iew_should_write_def iew_writes_def)
  let ?dirs = "\<lambda>q. if prefix q (events_dir (iew_output_path w) it) then Some Directory else fs q"
  let ?a = "if iew_compression_type w = Proto then ProtoWriter (events_path w it) else XmlWriter (events_path w it)"
  have path: "writer_path ?a = events_path w it" by simp
  have "\<not> prefix (events_path w it) (events_dir (iew_output_path w) it)" by (auto dest: prefix_length_le)
  then have "iew_reset_iteration it (w, fs) = Some (w\<lparr>iew_active_writer := Some ?a\<rparr>, ?dirs(events_path w it \<mapsto> EventFile [] False))"
    using should idle ev output_free_write(1,2)[OF free, of it]
    by (simp add: iew_reset_iteration_def iew_finish_def create_dir_all_def write_file_def events_path_def[symmetric])
  moreover have "fold iew_on_any es (w\<lparr>iew_active_writer := Some ?a\<rparr>, ?dirs(events_path w it \<mapsto> EventFile [] False)) =
      (w\<lparr>iew_active_writer := Some ?a\<rparr>, ?dirs(events_path w it \<mapsto> EventFile es False))"
    using iew_on_any_fold[of "?dirs(events_path w it \<mapsto> EventFile [] False)" ?a "[]" "w\<lparr>iew_active_writer := Some ?a\<rparr>" es] path by simp
  ultimately show ?thesis using True idle
    by (simp add: iew_iteration_def iew_finish_def active_finish_def)
qed

text \<open>
  C36. Over all iterations of a worker, the file of events of an iteration holds exactly the events
  of this iteration and is finished, for the last iteration and every multiple of the interval but
  zero; for other iterations nothing is written.
\<close>

theorem event_files:
  assumes "iew_active_writer w = None" and "iew_write_events w = EventsFile" and "0 < iew_write_events_interval w"
    and "distinct (map fst its)" and "output_free (iew_output_path w) fs"
  shows "\<exists>fs'. iew_run its (w, fs) = Some (w, fs') \<and>
    (\<forall>(it, es)\<in>set its. fs' (events_path w it) = (if it = iew_last_iteration w \<or> it \<noteq> 0 \<and> it mod iew_write_events_interval w = 0
       then Some (EventFile es True) else fs (events_path w it))) \<and>
    (\<forall>it. it \<notin> fst ` set its \<longrightarrow> fs' (events_path w it) = fs (events_path w it))"
  using assms(4,5)
proof (induction its arbitrary: fs)
  case Nil
  then show ?case using assms(1) by (simp add: iew_run_def iew_finish_def)
next
  case (Cons x its)
  obtain i es where x: "x = (i, es)" by (cases x)
  let ?fs = "if iew_writes w i then (\<lambda>q. if prefix q (events_dir (iew_output_path w) i) then Some Directory else fs q)
      (events_path w i \<mapsto> EventFile es True) else fs"
  have free: "output_free (iew_output_path w) ?fs" using Cons.prems(2) output_free_write(3)[OF Cons.prems(2)] by simp
  obtain s1 where s1: "iew_iteration (i, es) (w, fs) = Some s1" "iew_finish s1 = (w, ?fs)"
    using iew_step[OF assms(1-3) Cons.prems(2), of i es] by auto
  obtain fs' where fs': "iew_run its (w, ?fs) = Some (w, fs')"
    and files: "\<forall>(it, es)\<in>set its. fs' (events_path w it) = (if it = iew_last_iteration w \<or> it \<noteq> 0 \<and> it mod iew_write_events_interval w = 0
       then Some (EventFile es True) else ?fs (events_path w it))"
    and others: "\<forall>it. it \<notin> fst ` set its \<longrightarrow> fs' (events_path w it) = ?fs (events_path w it)"
    using Cons.IH[OF _ free] Cons.prems(1) by auto
  have run: "iew_run (x # its) (w, fs) = Some (w, fs')" using s1 fs' by (simp add: iew_run_Cons x)
  have short: "\<not> prefix (events_path w j) (events_dir (iew_output_path w) i)" for j by (auto dest: prefix_length_le)
  have same: "?fs (events_path w j) = fs (events_path w j)" if "j \<noteq> i" for j using that short by (simp add: events_path_inj)
  have own: "?fs (events_path w i) = (if iew_writes w i then Some (EventFile es True) else fs (events_path w i))" by simp
  have fresh: "i \<notin> fst ` set its" using Cons.prems(1) x by simp
  have first: "fs' (events_path w i) = (if iew_writes w i then Some (EventFile es True) else fs (events_path w i))"
    using others[rule_format, OF fresh] own by (rule trans)
  have rest: "fs' (events_path w it) = (if it = iew_last_iteration w \<or> it \<noteq> 0 \<and> it mod iew_write_events_interval w = 0
       then Some (EventFile es' True) else fs (events_path w it))" if e: "(it, es') \<in> set its" for it es'
  proof -
    have "it \<noteq> i" using fresh e by force
    then show ?thesis using bspec[OF files e] same by simp
  qed
  have none: "fs' (events_path w it) = fs (events_path w it)" if n: "it \<notin> fst ` set (x # its)" for it
    using others n same x by simp
  show ?case
  proof (intro exI[of _ fs'] conjI ballI allI impI)
    show "iew_run (x # its) (w, fs) = Some (w, fs')" by (rule run)
  next
    fix y assume y: "y \<in> set (x # its)"
    obtain it es' where eq: "y = (it, es')" by (cases y)
    show "case y of (it, es) \<Rightarrow> fs' (events_path w it) = (if it = iew_last_iteration w \<or> it \<noteq> 0 \<and> it mod iew_write_events_interval w = 0
       then Some (EventFile es True) else fs (events_path w it))"
    proof (cases "y = x")
      case True
      then show ?thesis using first x unfolding iew_writes_def by simp
    next
      case False
      then have "(it, es') \<in> set its" using y eq by simp
      from rest[OF this] show ?thesis by (simp add: eq)
    qed
  qed (rule none)
qed

lemma prepared_output_free:
  assumes prep: "prepare_output_directory out_path DeleteDirectoryIfExists fs = Inr fs'"
    and wf: "\<And>p q. fs p \<noteq> None \<Longrightarrow> prefix q p \<Longrightarrow> fs q \<noteq> None"
  shows "output_free out_path fs'"
proof -
  let ?clean = "\<lambda>q. if prefix out_path q then None else fs q"
  have "\<exists>fs1. create_dir_all out_path fs1 = Some fs' \<and> (\<forall>q. prefix out_path q \<longrightarrow> fs1 q = None)"
  proof (cases "fs out_path")
    case None
    then have "fs q = None" if "prefix out_path q" for q using wf that by blast
    then show ?thesis using prep None
      by (intro exI[of _ fs]) (auto simp: prepare_output_directory_def ok_or_def split: option.splits)
  next
    case (Some y)
    then show ?thesis using prep
      by (intro exI[of _ ?clean]) (auto simp: prepare_output_directory_def ok_or_def remove_dir_all_def and_then_def split: option.splits if_splits)
  qed
  then obtain fs1 where dirs: "create_dir_all out_path fs1 = Some fs'" and free: "\<And>q. prefix out_path q \<Longrightarrow> fs1 q = None" by blast
  have fs': "fs' = (\<lambda>q. if prefix q out_path then Some Directory else fs1 q)" using dirs by (auto simp: create_dir_all_def)
  show ?thesis unfolding output_free_def fs' using free by (auto dest: prefix_length_le split: if_splits)
qed

definition ex_events_writer :: iteration_events_writer where
  "ex_events_writer = \<lparr>iew_output_path = [''out''], iew_rank = 0, iew_write_events = EventsFile, iew_compression_type = Proto,
     iew_write_events_interval = 2, iew_last_iteration = 3, iew_active_writer = None\<rparr>"

theorem event_files_witness:
  "\<exists>fs'. iew_run [(0, [LinkEnterEvent 1 2 ''v'']), (1, []), (2, [LinkLeaveEvent 5 2 ''v''])] (ex_events_writer, Map.empty) =
       Some (ex_events_writer, fs') \<and>
     fs' [''out'', ''ITERS'', ''it.2'', ''events'', ''events.0.binpb''] = Some (EventFile [LinkLeaveEvent 5 2 ''v''] True) \<and>
     fs' [''out'', ''ITERS'', ''it.0'', ''events'', ''events.0.binpb''] = None"
proof -
  have paths: "events_path ex_events_writer 2 = [''out'', ''ITERS'', ''it.2'', ''events'', ''events.0.binpb'']"
    "events_path ex_events_writer 0 = [''out'', ''ITERS'', ''it.0'', ''events'', ''events.0.binpb'']" by code_simp+
  have "output_free (iew_output_path ex_events_writer) Map.empty" by (simp add: output_free_def)
  moreover have "iew_active_writer ex_events_writer = None" "iew_write_events ex_events_writer = EventsFile"
    "0 < iew_write_events_interval ex_events_writer" "iew_write_events_interval ex_events_writer = 2" "iew_last_iteration ex_events_writer = 3"
    by (simp_all add: ex_events_writer_def)
  moreover have "distinct (map fst [(0 :: nat, [LinkEnterEvent 1 2 ''v'']), (1, []), (2, [LinkLeaveEvent 5 2 ''v''])])" by simp
  ultimately obtain fs' where "iew_run [(0, [LinkEnterEvent 1 2 ''v'']), (1, []), (2, [LinkLeaveEvent 5 2 ''v''])] (ex_events_writer, Map.empty) =
       Some (ex_events_writer, fs')"
    "fs' (events_path ex_events_writer 2) = Some (EventFile [LinkLeaveEvent 5 2 ''v''] True)" "fs' (events_path ex_events_writer 0) = None"
    using event_files[of ex_events_writer "[(0, [LinkEnterEvent 1 2 ''v'']), (1, []), (2, [LinkLeaveEvent 5 2 ''v''])]" Map.empty] by auto
  then show ?thesis unfolding paths by blast
qed

end
