(* ===== verification/Trips.thy ===== *)
theory Trips
  imports Plans
begin

text \<open>
  The trips of a plan as a list (\<open>scenario/trip_structure_utils.rs\<close>): what the spans of a plan
  are when it is put together from parts, and what replacing the elements of the \<open>k\<close>-th trip
  does to this list.
\<close>

definition trip_list :: "(internal_activity \<Rightarrow> bool) \<Rightarrow> plan_element list \<Rightarrow> plan_element list list" where
  "trip_list stage els = map (\<lambda>s. take (destination_index s - (origin_index s + 1)) (drop (origin_index s + 1) els)) (trip_spans stage els)"

fun last_origin :: "(internal_activity \<Rightarrow> bool) \<Rightarrow> int \<Rightarrow> int \<Rightarrow> plan_element list \<Rightarrow> int" where
  "last_origin stage origin c [] = origin"
| "last_origin stage origin c (e # es) = last_origin stage (if is_main stage e then c + 1 else origin) (c + 1) es"

lemma spans_append: "trip_spans_from stage origin c (xs @ ys) =
    trip_spans_from stage origin c xs @ trip_spans_from stage (last_origin stage origin c xs) (c + int (length xs)) ys"
  by (induction xs arbitrary: origin c) (simp_all add: trip_spans_from_Cons ac_simps)

lemma last_origin_append: "last_origin stage origin c (xs @ [e]) =
    (if is_main stage e then c + int (length xs) + 1 else last_origin stage origin c xs)"
  by (induction xs arbitrary: origin c) (simp_all add: ac_simps)

lemma spans_no_main:
  assumes "\<forall>e\<in>set xs. \<not> is_main stage e"
  shows "trip_spans_from stage origin c xs = []" and "last_origin stage origin c xs = origin"
  using assms by (induction xs arbitrary: c) (simp_all add: trip_spans_from_Cons)

definition shift :: "nat \<Rightarrow> trip_span \<Rightarrow> trip_span" where
  "shift a s = trip_at (a + origin_index s) (a + destination_index s)"

lemma spans_shift:
  "trip_spans_from stage (int (a + b)) (int (a + c)) ys = map (shift a) (trip_spans_from stage (int b) (int c) ys)"
proof (induction ys arbitrary: b c)
  case (Cons y ys)
  have "int (a + c) + 1 = int (a + Suc c)" "int c + 1 = int (Suc c)" by simp_all
  with Cons.IH[of b "Suc c"] Cons.IH[of "Suc c" "Suc c"] show ?case
    by (auto simp: trip_spans_from_Cons shift_def nat_add_distrib ac_simps simp del: of_nat_Suc of_nat_add)
      (simp_all add: ac_simps)
qed simp

lemma trip_spans_split:
  assumes "is_main stage x" and "is_main stage y" and "mid \<noteq> []" and no: "\<forall>e\<in>set mid. \<not> is_main stage e"
  shows "trip_spans stage (pre @ x # mid @ y # post) =
    trip_spans stage (pre @ [x]) @ trip_at (length pre) (length pre + length mid + 1) #
    map (shift (length pre + length mid + 1)) (trip_spans stage (y # post))"
proof -
  let ?a = "length pre + length mid + 1"
  have tail: "trip_spans stage (y # post) = trip_spans_from stage 0 0 post"
    using assms(2) by (simp add: trip_spans_def trip_spans_from_Cons)
  have "trip_spans stage ((pre @ [x]) @ mid @ y # post) =
      trip_spans stage (pre @ [x]) @ trip_spans_from stage (int (length pre)) (int (length pre)) (mid @ y # post)"
    unfolding trip_spans_def spans_append[of _ _ _ "pre @ [x]"] last_origin_append using assms(1) by simp
  also have "trip_spans_from stage (int (length pre)) (int (length pre)) (mid @ y # post) =
      trip_spans_from stage (int (length pre)) (int (length pre) + int (length mid)) (y # post)"
    using spans_no_main[OF no] by (simp add: spans_append)
  also have "\<dots> = trip_at (length pre) ?a # trip_spans_from stage (int ?a) (int ?a) post"
    using assms(2,3) by (auto simp: trip_spans_from_Cons nat_add_distrib ac_simps Suc_nat_eq_nat_zadd1)
  also have "trip_spans_from stage (int ?a) (int ?a) post = map (shift ?a) (trip_spans stage (y # post))"
    using spans_shift[of stage ?a 0 0 post] tail by simp
  finally show ?thesis by simp
qed

lemma trip_spans_bounds:
  assumes "s \<in> set (trip_spans stage els)"
  shows "origin_index s + 1 < destination_index s" and "destination_index s < length els"
  using assms set_trip_spans[of stage els] by (auto simp: is_trip_def)

lemma trip_list_split:
  assumes "is_main stage x" and "is_main stage y" and "mid \<noteq> []" and "\<forall>e\<in>set mid. \<not> is_main stage e"
  shows "trip_list stage (pre @ x # mid @ y # post) = trip_list stage (pre @ [x]) @ mid # trip_list stage (y # post)"
proof -
  have "take (destination_index s - (origin_index s + 1)) (drop (origin_index s + 1) (pre @ x # mid @ y # post)) =
      take (destination_index s - (origin_index s + 1)) (drop (origin_index s + 1) (pre @ [x]))"
    if "s \<in> set (trip_spans stage (pre @ [x]))" for s
    using trip_spans_bounds[OF that] by auto
  moreover have "take (destination_index s - (origin_index s + 1))
        (drop (Suc (length pre + length mid + 1 + origin_index s)) ((pre @ x # mid) @ y # post)) =
      take (destination_index s - (origin_index s + 1)) (drop (origin_index s + 1) (y # post))" for s
    by (simp only: drop_append) simp
  ultimately show ?thesis
    unfolding trip_list_def trip_spans_split[OF assms] by (simp add: shift_def)
qed

lemma distinct_trip_spans: "distinct (trip_spans stage els)"
proof -
  have "sorted_wrt (\<lambda>s t. s \<noteq> t) (trip_spans stage els)"
  proof (rule sorted_wrt_mono_rel[OF _ sorted_trip_spans])
    fix s t assume "s \<in> set (trip_spans stage els)" and "t \<in> set (trip_spans stage els)" and "destination_index s \<le> origin_index t"
    then show "s \<noteq> t" using trip_spans_bounds(1)[of s stage els] by auto
  qed
  then show ?thesis by (auto simp: sorted_wrt_iff_nth_less distinct_conv_nth) (metis nat_neq_iff)
qed

lemma trip_cases:
  assumes "k < length (trip_spans stage els)"
  obtains pre x mid y post where "els = pre @ x # mid @ y # post" and "is_main stage x" and "is_main stage y" and "mid \<noteq> []"
    and "\<forall>e\<in>set mid. \<not> is_main stage e" and "trip_spans stage els ! k = trip_at (length pre) (length pre + length mid + 1)"
    and "k = length (trip_spans stage (pre @ [x]))"
proof -
  obtain i j where ij: "trip_spans stage els ! k = trip_at i j" by (cases "trip_spans stage els ! k") auto
  have "is_trip stage els (trip_at i j)" using nth_mem[OF assms] set_trip_spans[of stage els] ij by auto
  then have t: "i + 1 < j" "j < length els" "is_main stage (els ! i)" "is_main stage (els ! j)"
    "\<And>q. i < q \<Longrightarrow> q < j \<Longrightarrow> \<not> is_main stage (els ! q)" by (auto simp: is_trip_def)
  define mid where "mid = take (j - (i + 1)) (drop (i + 1) els)"
  have parts: "els = take i els @ els ! i # mid @ els ! j # drop (Suc j) els"
  proof -
    have "drop (Suc i) els = mid @ drop (j - (i + 1)) (drop (i + 1) els)"
      unfolding mid_def by (simp only: append_take_drop_id Suc_eq_plus1)
    moreover have "drop (j - (i + 1)) (drop (i + 1) els) = els ! j # drop (Suc j) els"
      using t(1) Cons_nth_drop_Suc[OF t(2)] by simp
    moreover have "els = take i els @ els ! i # drop (Suc i) els" by (rule id_take_nth_drop) (use t in simp)
    ultimately show ?thesis by metis
  qed
  have mid: "mid \<noteq> []" "\<forall>e\<in>set mid. \<not> is_main stage e" and len: "length mid = j - (i + 1)"
    using t by (auto simp: mid_def in_set_conv_nth)
  let ?pre = "take i els"
  have at: "trip_at (length ?pre) (length ?pre + length mid + 1) = trip_at i j" using t len by simp
  note sp = trip_spans_split[OF t(3,4) mid, of ?pre "drop (Suc j) els", folded parts]
  have "trip_spans stage els ! length (trip_spans stage (?pre @ [els ! i])) = trip_at i j"
    "length (trip_spans stage (?pre @ [els ! i])) < length (trip_spans stage els)"
    unfolding at[symmetric] by (subst sp, simp)+
  then have "k = length (trip_spans stage (?pre @ [els ! i]))"
    using distinct_trip_spans[of stage els] assms ij nth_eq_iff_index_eq by metis
  then show thesis using that[OF parts t(3,4) mid] ij at by simp
qed

lemma trip_elements_nth:
  assumes "k < length (trip_spans stage els)"
  shows "trip_elements (trip_spans stage els ! k) els = Some (trip_list stage els ! k)"
  using trip_spans_bounds[OF nth_mem[OF assms]] assms by (simp add: trip_elements_def slice_def trip_list_def)

lemma length_trip_list [simp]: "length (trip_list stage els) = length (trip_spans stage els)"
  by (simp add: trip_list_def)

lemma replace_trip_list:
  assumes "k < length (trip_spans stage els)" and new: "new \<noteq> []" "\<forall>e\<in>set new. \<not> is_main stage e"
  obtains s' els' where "replace_trip_elements (trip_spans stage els ! k) els new = Some (s', els')"
    and "trip_list stage els' = (trip_list stage els)[k := new]"
    and "List.filter (is_main stage) els' = List.filter (is_main stage) els" and "set els' \<subseteq> set els \<union> set new"
proof -
  obtain pre x mid y post where p: "els = pre @ x # mid @ y # post" "is_main stage x" "is_main stage y" "mid \<noteq> []"
    "\<forall>e\<in>set mid. \<not> is_main stage e" "trip_spans stage els ! k = trip_at (length pre) (length pre + length mid + 1)"
    "k = length (trip_spans stage (pre @ [x]))" by (rule trip_cases[OF assms(1)])
  define els' where "els' = pre @ x # new @ y # post"
  have none: "List.filter (is_main stage) mid = []" "List.filter (is_main stage) new = []" using p(5) new(2) by (auto simp: filter_empty_conv)
  have "take (Suc (length pre)) els = pre @ [x]" "drop (Suc (length pre + length mid)) els = y # post" by (simp_all add: p(1))
  then have "\<exists>s'. replace_trip_elements (trip_spans stage els ! k) els new = Some (s', els')"
    unfolding p(6) by (simp add: replace_trip_elements_def els'_def) (simp add: p(1))
  moreover have "trip_list stage els' = (trip_list stage els)[k := new]"
    unfolding els'_def p(1) trip_list_split[OF p(2-5)] trip_list_split[OF p(2,3) new]
    by (metis p(7) length_trip_list list_update_length)
  moreover have "List.filter (is_main stage) els' = List.filter (is_main stage) els" "set els' \<subseteq> set els \<union> set new"
    using none by (auto simp: els'_def p(1))
  ultimately show thesis using that by blast
qed

text \<open>Changing the elements without making one a main activity, or unmaking one.\<close>

lemma trip_spans_same:
  "list_all2 (\<lambda>e e'. is_main stage e = is_main stage e') els els' \<Longrightarrow> trip_spans stage els' = trip_spans stage els"
proof -
  have "list_all2 (\<lambda>e e'. is_main stage e = is_main stage e') els els' \<Longrightarrow>
      trip_spans_from stage origin c els' = trip_spans_from stage origin c els" for origin c
    by (induction els els' arbitrary: origin c rule: list_all2_induct) (simp_all add: trip_spans_from_Cons)
  then show "list_all2 (\<lambda>e e'. is_main stage e = is_main stage e') els els' \<Longrightarrow> trip_spans stage els' = trip_spans stage els"
    by (simp add: trip_spans_def)
qed

end
