(* ===== verification/Prepare_For_Sim.thy ===== *)
theory Prepare_For_Sim
  imports Trips Trip_Routing Population "HOL-Library.Product_Lexorder" "HOL-Library.Option_ord"
begin

text \<open>
  The preparation of a population for the simulation (\<open>scenario/prepare_for_sim.rs\<close>): every trip
  of every plan is checked and routed anew when it is not valid; what cannot be prepared is
  reported.

  Plans are worked on by copies, as \<open>Cow\<close> in the source. The outer option of the results is the
  panic. The text of an issue is the error it is printed from.
\<close>

section \<open>Checks\<close>

record prepare_for_sim_context =
  pc_network :: network
  pc_garage :: garage
  pc_config :: router_config

datatype trip_preparation_error =
    NoLegs
  | AmbiguousMainMode
  | MissingDepartureTime
  | MissingVehicle mode string
  | Routing routing_error

record prepare_for_sim_issue =
  pi_person_id :: person_id
  pi_plan_index :: nat
  pi_trip_index :: "nat option"
  pi_message :: trip_preparation_error

datatype trip_assessment = Valid | NeedsRouting mode

definition is_network_mode :: "prepare_for_sim_context \<Rightarrow> mode \<Rightarrow> bool" where
  "is_network_mode context m \<longleftrightarrow> m \<in> set (rc_main_modes (pc_config context))"

definition resolve_main_mode :: "internal_leg list \<Rightarrow> trip_preparation_error + mode" where
  "resolve_main_mode legs =
     (if legs = [] then Inl NoLegs
      else let routing_modes = fold (\<lambda>m ms. if m \<in> set ms then ms else ms @ [m]) (List.map_filter leg_routing_mode legs) []
           in if length routing_modes = 1 then Inr (last routing_modes)
              else if length legs = 1 then Inr (leg_mode (hd legs))
              else Inl AmbiguousMainMode)"

definition generic_route_is_valid :: "generic_route \<Rightarrow> bool" where
  "generic_route_is_valid route = (case gr_distance route of None \<Rightarrow> False | Some d \<Rightarrow> gr_trav_time route \<noteq> None \<and> 0 \<le> d)"

definition network_route_is_valid :: "network \<Rightarrow> link_id list \<Rightarrow> mode \<Rightarrow> generic_route \<Rightarrow> bool option" where
  "network_route_is_valid net route m generic =
     (if route = [] \<or> hd route \<noteq> gr_start_link generic \<or> last route \<noteq> gr_end_link generic then Some False
      else do {
        links \<leftarrow> mapM (get_link net) route;
        Some (list_all (contains_mode m) links \<and> list_all (\<lambda>(a, b). link_to a = link_from b) (zip links (tl links))) })"

fun legs_are_valid :: "network \<Rightarrow> internal_leg list \<Rightarrow> bool option" where
  "legs_are_valid net [] = Some True"
| "legs_are_valid net (leg # legs) =
     (if leg_trav_time leg = None then Some False
      else case leg_route leg of
        None \<Rightarrow> Some False
      | Some route \<Rightarrow>
          (if \<not> generic_route_is_valid (as_generic route) then Some False
           else do {
             ok \<leftarrow> (case as_network route of
                None \<Rightarrow> Some True
              | Some n \<Rightarrow> network_route_is_valid net (nr_route n) (leg_mode leg) (as_generic route));
             (if ok then legs_are_valid net legs else Some False) }))"

definition trip_is_valid :: "prepare_for_sim_context \<Rightarrow> trip_span \<Rightarrow> plan_element list \<Rightarrow> mode \<Rightarrow> internal_leg list \<Rightarrow> bool option" where
  "trip_is_valid context tspan els m legs =
     (if list_ex (\<lambda>leg. leg_routing_mode leg \<noteq> Some m) legs then Some False
      else do {
        ok \<leftarrow> legs_are_valid (pc_network context) legs;
        (if \<not> ok then Some False
         else if is_network_mode context m then do {
           trip \<leftarrow> trip_elements tspan els;
           (let access_egress_mode = rc_access_egress_mode (pc_config context);
                first_is_access_egress = (legs \<noteq> [] \<and> leg_mode (hd legs) = access_egress_mode);
                last_is_access_egress = (legs \<noteq> [] \<and> leg_mode (last legs) = access_egress_mode);
                has_network_main_leg = list_ex (\<lambda>leg. leg_mode leg = m \<and> (\<exists>n. leg_route leg = Some (Network n))) legs;
                interaction_count = length (List.filter is_interaction (List.map_filter as_activity trip))
            in Some (first_is_access_egress \<and> last_is_access_egress \<and> has_network_main_leg \<and> 2 \<le> interaction_count)) }
         else Some True) })"

definition assess_trip :: "prepare_for_sim_context \<Rightarrow> trip_span \<Rightarrow> plan_element list \<Rightarrow>
    (trip_preparation_error + trip_assessment) option" where
  "assess_trip context tspan els = do {
     legs \<leftarrow> span_legs tspan els;
     (case resolve_main_mode legs of
        Inl e \<Rightarrow> Some (Inl e)
      | Inr m \<Rightarrow> do {
          valid \<leftarrow> trip_is_valid context tspan els m legs;
          Some (Inr (if valid then Valid else NeedsRouting m)) }) }"

section \<open>Preparation\<close>

definition vehicle_of_leg :: "prepare_for_sim_context \<Rightarrow> mode \<Rightarrow> internal_leg \<Rightarrow> internal_vehicle option" where
  "vehicle_of_leg context m leg = do {
     _ \<leftarrow> ensure (leg_mode leg = m);
     route \<leftarrow> leg_route leg;
     n \<leftarrow> as_network route;
     v \<leftarrow> gr_vehicle (nr_generic_delegate n);
     g_vehicles (pc_garage context) v }"

definition vehicle_for_trip :: "prepare_for_sim_context \<Rightarrow> internal_person \<Rightarrow> trip_span \<Rightarrow> plan_element list \<Rightarrow> mode \<Rightarrow>
    (trip_preparation_error + internal_vehicle option) option" where
  "vehicle_for_trip context person tspan els m =
     (if \<not> is_network_mode context m then Some (Inr None)
      else do {
        legs \<leftarrow> span_legs tspan els;
        (case List.map_filter (vehicle_of_leg context m) legs of
           v # _ \<Rightarrow> Some (Inr (Some v))
         | [] \<Rightarrow> (let default_id = person_ident person @ ''_'' @ m
                  in Some (case g_vehicles (pc_garage context) default_id of
                       Some v \<Rightarrow> Inr (Some v)
                     | None \<Rightarrow> Inl (MissingVehicle m default_id)))) })"

fun assign_coordinate :: "network \<Rightarrow> plan_element \<Rightarrow> plan_element option" where
  "assign_coordinate net (Leg l) = Some (Leg l)"
| "assign_coordinate net (Activity a) =
     (if act_coord a = None then do {
        l \<leftarrow> get_link net (act_link_id a);
        from_node \<leftarrow> get_node net (link_from l);
        to_node \<leftarrow> get_node net (link_to l);
        Some (Activity (a\<lparr>act_coord := Some (middle (node_coord from_node) (node_coord to_node))\<rparr>)) }
      else Some (Activity a))"

definition assign_activity_coordinates :: "prepare_for_sim_context \<Rightarrow> internal_plan \<Rightarrow> internal_plan option" where
  "assign_activity_coordinates context plan = do {
     els \<leftarrow> mapM (assign_coordinate (pc_network context)) (plan_elements plan);
     Some (plan\<lparr>plan_elements := els\<rparr>) }"

datatype working_plan = Borrowed internal_plan | Owned internal_plan

fun deref :: "working_plan \<Rightarrow> internal_plan" where
  "deref (Borrowed p) = p"
| "deref (Owned p) = p"

definition trip_request_of :: "prepare_for_sim_context \<Rightarrow> internal_person \<Rightarrow> trip_span \<Rightarrow> plan_element list \<Rightarrow> mode \<Rightarrow>
    (trip_preparation_error + trip_request) option" where
  "trip_request_of context person tspan els m = do {
     prefix \<leftarrow> slice els 0 (origin_index tspan + 1);
     departure \<leftarrow> decide_on_elements_end_time prefix 0;
     (case departure of
        None \<Rightarrow> Some (Inl MissingDepartureTime)
      | Some departure_time \<Rightarrow> do {
          origin \<leftarrow> span_origin tspan els;
          dest \<leftarrow> span_destination tspan els;
          from_coord \<leftarrow> act_coord origin;
          to_coord \<leftarrow> act_coord dest;
          vehicle \<leftarrow> vehicle_for_trip context person tspan els m;
          (case vehicle of
             Inl e \<Rightarrow> Some (Inl e)
           | Inr v \<Rightarrow> Some (Inr \<lparr>tr_from = new_link_wrapper from_coord (act_link_id origin),
               tr_to = new_link_wrapper to_coord (act_link_id dest), tr_departure_time = departure_time,
               tr_person = Some person, tr_vehicle = v, tr_attributes = Map.empty\<rparr>)) }) }"

definition check_and_adapt_trip :: "(f64 \<Rightarrow> f64) \<Rightarrow> trip_router \<Rightarrow> prepare_for_sim_context \<Rightarrow> internal_person \<Rightarrow> nat \<Rightarrow> working_plan \<Rightarrow>
    (trip_preparation_error + working_plan) option" where
  "check_and_adapt_trip sq router context person trip_index working = (let els = plan_elements (deref working) in do {
     tspan \<leftarrow> list_get (get_trip_spans_default els) trip_index;
     assessment \<leftarrow> assess_trip context tspan els;
     (case assessment of
        Inl e \<Rightarrow> Some (Inl e)
      | Inr Valid \<Rightarrow> Some (Inr working)
      | Inr (NeedsRouting m) \<Rightarrow> do {
          request \<leftarrow> trip_request_of context person tspan els m;
          (case request of
             Inl e \<Rightarrow> Some (Inl e)
           | Inr request \<Rightarrow> do {
               new_elements \<leftarrow> trip_router_calc_route sq router m request;
               (case new_elements of
                  Inl e \<Rightarrow> Some (Inl (Routing e))
                | Inr new_elements \<Rightarrow> do {
                    (_, els') \<leftarrow> replace_trip_elements tspan els new_elements;
                    Some (Inr (Owned ((deref working)\<lparr>plan_elements := els'\<rparr>))) }) }) }) })"

fun check_and_adapt_trips :: "(f64 \<Rightarrow> f64) \<Rightarrow> trip_router \<Rightarrow> prepare_for_sim_context \<Rightarrow> internal_person \<Rightarrow> nat list \<Rightarrow> working_plan \<Rightarrow>
    (nat \<times> trip_preparation_error + working_plan) option" where
  "check_and_adapt_trips sq router context person [] working = Some (Inr working)"
| "check_and_adapt_trips sq router context person (k # ks) working = do {
     r \<leftarrow> check_and_adapt_trip sq router context person k working;
     (case r of
        Inl e \<Rightarrow> Some (Inl (k, e))
      | Inr working \<Rightarrow> check_and_adapt_trips sq router context person ks working) }"

definition prepare_plan :: "(f64 \<Rightarrow> f64) \<Rightarrow> trip_router \<Rightarrow> prepare_for_sim_context \<Rightarrow> internal_person \<Rightarrow> internal_plan \<Rightarrow>
    (nat \<times> trip_preparation_error + internal_plan option) option" where
  "prepare_plan sq router context person plan = do {
     working \<leftarrow> (if list_ex (\<lambda>a. act_coord a = None) (plan_acts plan)
                then do { p \<leftarrow> assign_activity_coordinates context plan; Some (Owned p) }
                else Some (Borrowed plan));
     r \<leftarrow> check_and_adapt_trips sq router context person
            [0..<length (get_trip_spans_default (plan_elements (deref working)))] working;
     Some (case r of
         Inl failure \<Rightarrow> Inl failure
       | Inr (Borrowed _) \<Rightarrow> Inr None
       | Inr (Owned p) \<Rightarrow> Inr (Some p)) }"

definition new_plan :: "internal_plan \<Rightarrow> nat \<times> trip_preparation_error + internal_plan option \<Rightarrow> internal_plan" where
  "new_plan plan outcome = (case outcome of Inr (Some p) \<Rightarrow> p | _ \<Rightarrow> plan)"

definition plan_issue :: "person_id \<Rightarrow> nat \<Rightarrow> nat \<times> trip_preparation_error + internal_plan option \<Rightarrow> prepare_for_sim_issue list" where
  "plan_issue i plan_index outcome = (case outcome of
      Inl (trip_index, e) \<Rightarrow> [\<lparr>pi_person_id = i, pi_plan_index = plan_index, pi_trip_index = Some trip_index, pi_message = e\<rparr>]
    | Inr _ \<Rightarrow> [])"

definition prepare_person :: "(f64 \<Rightarrow> f64) \<Rightarrow> trip_router \<Rightarrow> prepare_for_sim_context \<Rightarrow> internal_person \<Rightarrow>
    (internal_person \<times> prepare_for_sim_issue list) option" where
  "prepare_person sq router context person = do {
     outcomes \<leftarrow> mapM (prepare_plan sq router context person) (person_plans person);
     Some (person\<lparr>person_plans := map2 new_plan (person_plans person) outcomes\<rparr>,
           concat (map2 (plan_issue (person_ident person)) [0..<length outcomes] outcomes)) }"

definition issue_key :: "prepare_for_sim_issue \<Rightarrow> person_id \<times> nat \<times> nat option" where
  "issue_key i = (pi_person_id i, pi_plan_index i, pi_trip_index i)"

definition error_new :: "prepare_for_sim_issue list \<Rightarrow> prepare_for_sim_issue list" where
  "error_new issues = sort_key issue_key issues"

definition prepare_for_sim :: "(person_id set \<Rightarrow> person_id list) \<Rightarrow> (f64 \<Rightarrow> f64) \<Rightarrow> trip_router \<Rightarrow> prepare_for_sim_context \<Rightarrow> population \<Rightarrow>
    (population \<times> (prepare_for_sim_issue list + unit)) option" where
  "prepare_for_sim ord sq router context persons = do {
     results \<leftarrow> mapM (\<lambda>i. do { p \<leftarrow> persons i; r \<leftarrow> prepare_person sq router context p; Some (i, r) }) (ord (dom persons));
     (let issues = concat (map (\<lambda>(_, _, issues). issues) results)
      in Some (map_of (map (\<lambda>(i, p, _). (i, p)) results), if issues = [] then Inr () else Inl (error_new issues))) }"

section \<open>What the router of the configuration returns is valid\<close>

definition teleported_module :: "router_config \<Rightarrow> mode \<Rightarrow> routing_module \<Rightarrow> bool" where
  "teleported_module cfg m md \<longleftrightarrow> (\<exists>t\<in>set (rc_teleported_mode_params cfg). tp_mode t = m \<and>
     md = TeleportationRoutingModule m (tp_beeline_distance_factor t) (tp_teleported_mode_speed t))"

definition network_module :: "'q queue_ops \<Rightarrow> (nat \<Rightarrow> nat \<Rightarrow> nat list) \<Rightarrow> router_config \<Rightarrow> network \<Rightarrow> mode \<Rightarrow> routing_module \<Rightarrow> bool" where
  "network_module Q pick cfg net m md \<longleftrightarrow> (\<exists>access r. teleported_module cfg (rc_access_egress_mode cfg) access \<and>
     a_star_new Q pick Alt net (Some m) FreeSpeedTravelTimeAndDisutility = Some (Inr r) \<and>
     md = NetworkRoutingModule m access access (calc_least_cost_path Q r) net)"

lemma teleported_modules_spec:
  assumes "teleported_modules cfg m = Some md"
  shows "teleported_module cfg m md"
proof -
  let ?P = "\<lambda>routers. \<forall>m md. routers m = Some md \<longrightarrow> teleported_module cfg m md"
  have "?P (teleported_modules cfg)"
    unfolding teleported_modules_def
    by (rule fold_invariant[where Q = "\<lambda>t. t \<in> set (rc_teleported_mode_params cfg)" and P = ?P]) (auto simp: teleported_module_def)
  then show ?thesis using assms by blast
qed

text \<open>Main modes are routed on the network and the others are teleported.\<close>

lemma add_network_router_spec:
  assumes "add_network_router Q pick cfg net m (Inr routers) = Some (Inr routers')" and "m \<noteq> rc_access_egress_mode cfg"
    and "\<And>md. routers (rc_access_egress_mode cfg) = Some md \<Longrightarrow> teleported_module cfg (rc_access_egress_mode cfg) md"
  obtains md where "routers' = routers(m \<mapsto> md)" and "network_module Q pick cfg net m md"
  using assms by (auto simp: add_network_router_def network_module_def split: option.splits sum.splits)

lemma create_trip_router_spec:
  assumes "create_trip_router Q pick cfg net = Some (Inr router)" and acc: "rc_access_egress_mode cfg \<notin> set (rc_main_modes cfg)"
    and "router m = Some md"
  shows "if m \<in> set (rc_main_modes cfg) then network_module Q pick cfg net m md else teleported_module cfg m md"
proof -
  let ?ok = "\<lambda>D routers. \<forall>m md. routers m = Some md \<longrightarrow> (if m \<in> D then network_module Q pick cfg net m md else teleported_module cfg m md)"
  have fails: "foldM (add_network_router Q pick cfg net) ms (Inl e) = Some (Inl e)" for ms e
    by (induction ms) (simp_all add: add_network_router_def)
  have "?ok (D \<union> set ms) final"
    if "foldM (add_network_router Q pick cfg net) ms (Inr routers) = Some (Inr final)" and "?ok D routers"
      and "rc_access_egress_mode cfg \<notin> D \<union> set ms" for ms routers final D
    using that
  proof (induction ms arbitrary: routers D)
    case (Cons m ms)
    then obtain routers' where step: "add_network_router Q pick cfg net m (Inr routers) = Some (Inr routers')"
      and rest: "foldM (add_network_router Q pick cfg net) ms (Inr routers') = Some (Inr final)"
      by (auto simp: fails split: sum.splits elim!: bind_SomeE) (metis fails old.sum.exhaust option.inject sum.distinct(1))
    obtain md where md: "routers' = routers(m \<mapsto> md)" "network_module Q pick cfg net m md"
      using Cons.prems(2,3) by (rule_tac add_network_router_spec[OF step]) auto
    then have "?ok (insert m D) routers'" using Cons.prems(2) by auto
    moreover have "rc_access_egress_mode cfg \<notin> insert m D \<union> set ms" using Cons.prems(3) by auto
    ultimately show ?case using Cons.IH[OF rest, of "insert m D"] by simp
  qed simp
  from this[OF assms(1)[unfolded create_trip_router_def], of "{}"] teleported_modules_spec acc assms(3)
  show ?thesis by auto
qed

section \<open>Valid trips\<close>

text \<open>The assessment of a trip depends on its elements only.\<close>

lemma assess_trip_cong: "trip_elements s els = trip_elements s' els' \<Longrightarrow> assess_trip context s els = assess_trip context s' els'"
proof -
  assume eq: "trip_elements s els = trip_elements s' els'"
  then have "trip_is_valid context s els = trip_is_valid context s' els'" unfolding trip_is_valid_def by (intro ext) presburger
  with eq show ?thesis unfolding assess_trip_def span_legs_def by presburger
qed

definition trip_valid :: "prepare_for_sim_context \<Rightarrow> plan_element list \<Rightarrow> bool" where
  "trip_valid context trip \<longleftrightarrow> (\<forall>s els. trip_elements s els = Some trip \<longrightarrow> assess_trip context s els = Some (Inr Valid))"

lemma resolve_routed:
  assumes "legs \<noteq> []" and "\<forall>leg\<in>set legs. leg_routing_mode leg = Some m"
  shows "resolve_main_mode legs = Inr m"
proof -
  let ?add = "\<lambda>m ms. if m \<in> set ms then ms else ms @ [m]"
  have again: "fold ?add ms [m] = [m]" if "set ms \<subseteq> {m}" for ms using that by (induction ms) auto
  have "set (List.map_filter leg_routing_mode legs) \<subseteq> {m}" using assms(2) by (auto simp: List.map_filter_def)
  moreover obtain leg legs' where "legs = leg # legs'" using assms(1) by (cases legs) auto
  ultimately have "fold ?add (List.map_filter leg_routing_mode legs) [] = [m]"
    using assms(2) again by (auto simp: List.map_filter_def)
  then show ?thesis using assms(1) by (simp add: resolve_main_mode_def)
qed

lemma legs_are_valid_all: "legs_are_valid net legs = Some True \<longleftrightarrow> (\<forall>leg\<in>set legs. legs_are_valid net [leg] = Some True)"
proof (induction legs)
  case (Cons leg legs)
  have "legs_are_valid net (leg # legs) = Some True \<longleftrightarrow> legs_are_valid net [leg] = Some True \<and> legs_are_valid net legs = Some True"
    by (auto split: option.splits if_splits)
  then show ?case using Cons.IH by simp
qed simp

definition nonneg_lengths :: "network \<Rightarrow> bool" where
  "nonneg_lengths net \<longleftrightarrow> (\<forall>l k. net_links net l = Some k \<longrightarrow> 0 \<le> link_length k)"

lemma teleported_leg_valid:
  assumes "teleported_leg sq m l l' veh a b factor speed dep leg" and "\<forall>x. 0 \<le> sq x" and "0 \<le> factor"
  shows "legs_are_valid net [leg] = Some True"
  using assms by (auto simp: teleported_leg_def generic_route_is_valid_def euclidean_distance_def Let_def)

lemma drives_links:
  assumes "drives net (Some m) i path j"
  obtains ks where "mapM (get_link net) path = Some ks" and "list_all (contains_mode m) ks"
    and "\<And>kf kt. link_to kf = i \<Longrightarrow> link_from kt = j \<Longrightarrow> list_all (\<lambda>(a, b). link_to a = link_from b) (zip (kf # ks @ [kt]) (ks @ [kt]))"
proof -
  have "\<exists>ks. mapM (get_link net) path = Some ks \<and> list_all (contains_mode m) ks \<and> (\<forall>kf kt. link_to kf = i \<longrightarrow> link_from kt = j \<longrightarrow>
      list_all (\<lambda>(a, b). link_to a = link_from b) (zip (kf # ks @ [kt]) (ks @ [kt])))"
    using assms
  proof (induction path arbitrary: i)
    case (Cons l path)
    then obtain k where k: "net_links net l = Some k" "contains_mode m k" "link_from k = i" "drives net (Some m) (link_to k) path j"
      by (auto simp: for_mode_def)
    obtain ks where ks: "mapM (get_link net) path = Some ks" "list_all (contains_mode m) ks"
      "\<And>kt. link_from kt = j \<Longrightarrow> list_all (\<lambda>(a, b). link_to a = link_from b) (zip (k # ks @ [kt]) (ks @ [kt]))"
      using Cons.IH[OF k(4)] by blast
    moreover have "get_link net l = Some k" using k(1) by (simp add: get_link_def)
    ultimately show ?case using k(2,3) by (intro exI[of _ "k # ks"]) simp
  qed simp
  then show thesis using that by blast
qed

lemma network_leg_valid:
  assumes leg: "network_leg_of net m f t veh leg" and lengths: "nonneg_lengths net"
    and same: "f = t \<Longrightarrow> \<exists>k. get_link net f = Some k \<and> contains_mode m k"
  shows "legs_are_valid net [leg] = Some True"
proof -
  obtain g route tt ls where r: "leg_route leg = Some (Network \<lparr>nr_generic_delegate = g, nr_route = route\<rparr>)" "leg_mode leg = m"
      "network_route_of net m f t route" "gr_start_link g = f" "gr_end_link g = t" "mapM (get_link net) (tl route) = Some ls"
      "gr_distance g = Some (sum_list (map link_length ls))" "gr_trav_time g = Some tt" "leg_trav_time leg = Some tt"
    using leg by (auto simp: network_leg_of_def)
  have "k \<in> set ls \<Longrightarrow> mapM (get_link net) xs = Some ls \<Longrightarrow> 0 \<le> link_length k" for k xs
    using lengths by (induction xs arbitrary: ls) (auto simp: nonneg_lengths_def get_link_def)
  then have "0 \<le> sum_list (map link_length ls)" using r(6) by (intro sum_list_nonneg) auto
  then have generic: "generic_route_is_valid g" using r(7,8) by (simp add: generic_route_is_valid_def)
  have "network_route_is_valid net route m g = Some True"
  proof (cases "f = t")
    case True
    then show ?thesis using r(3-5) same by (auto simp: network_route_of_def network_route_is_valid_def)
  next
    case False
    then obtain path kf kt where p: "route = f # path @ [t]" "net_links net f = Some kf" "net_links net t = Some kt"
        "contains_mode m kf" "contains_mode m kt" "drives net (Some m) (link_to kf) path (link_from kt)"
      using r(3) by (auto simp: network_route_of_def)
    obtain ks where ks: "mapM (get_link net) path = Some ks" "list_all (contains_mode m) ks"
      and chain: "list_all (\<lambda>(a, b). link_to a = link_from b) (zip (kf # ks @ [kt]) (ks @ [kt]))"
      using drives_links[OF p(6)] by (metis (no_types, lifting))
    have ends: "get_link net f = Some kf" "get_link net t = Some kt" using p(2,3) by (simp_all add: get_link_def)
    have "mapM (get_link net) route = Some (kf # ks @ [kt])" using p(1) ks(1) ends by (simp add: mapM_append)
    then show ?thesis using p(1,4,5) r(4,5) ks(2) chain by (simp add: network_route_is_valid_def)
  qed
  then show ?thesis using r(1,2,9) generic by simp
qed

text \<open>
  What the preparation relies on: the router is made from the configuration for the network, the
  mode of access is teleported, and square roots, factors and lengths are not negative.
\<close>

definition routing_setup :: "(f64 \<Rightarrow> f64) \<Rightarrow> 'q queue_ops \<Rightarrow> (nat \<Rightarrow> nat \<Rightarrow> nat list) \<Rightarrow> prepare_for_sim_context \<Rightarrow> trip_router \<Rightarrow> bool" where
  "routing_setup sq Q pick context router \<longleftrightarrow> net_inv (pc_network context) \<and>
     create_trip_router Q pick (pc_config context) (pc_network context) = Some (Inr router) \<and>
     rc_access_egress_mode (pc_config context) \<notin> set (rc_main_modes (pc_config context)) \<and>
     (\<forall>x. 0 \<le> sq x) \<and> (\<forall>t\<in>set (rc_teleported_mode_params (pc_config context)). 0 \<le> tp_beeline_distance_factor t) \<and>
     nonneg_lengths (pc_network context)"

definition allows_modes :: "prepare_for_sim_context \<Rightarrow> link_id \<Rightarrow> bool" where
  "allows_modes context l \<longleftrightarrow> (\<forall>m\<in>set (rc_main_modes (pc_config context)). \<exists>k. get_link (pc_network context) l = Some k \<and> contains_mode m k)"

text \<open>Elements that can replace those of a trip.\<close>

definition routed_elements :: "prepare_for_sim_context \<Rightarrow> plan_element list \<Rightarrow> bool" where
  "routed_elements context els \<longleftrightarrow> els \<noteq> [] \<and> (\<forall>e\<in>set els. \<not> is_main is_interaction e) \<and>
     (\<forall>a. Activity a \<in> set els \<longrightarrow> act_coord a \<noteq> None) \<and> trip_valid context els"

lemma trip_validI:
  assumes legs: "List.map_filter as_leg els = legs" "legs \<noteq> []" "\<forall>leg\<in>set legs. leg_routing_mode leg = Some m"
    and ok: "\<forall>leg\<in>set legs. legs_are_valid (pc_network context) [leg] = Some True"
    and net: "is_network_mode context m \<Longrightarrow> leg_mode (hd legs) = rc_access_egress_mode (pc_config context) \<and>
      leg_mode (last legs) = rc_access_egress_mode (pc_config context) \<and>
      (\<exists>leg\<in>set legs. leg_mode leg = m \<and> (\<exists>n. leg_route leg = Some (Network n))) \<and>
      2 \<le> length (List.filter is_interaction (List.map_filter as_activity els))"
  shows "trip_valid context els"
  using assms legs_are_valid_all[of "pc_network context" legs] resolve_routed[OF legs(2,3)]
  unfolding trip_valid_def
  by (auto simp: assess_trip_def span_legs_def trip_is_valid_def list_ex_iff Let_def)

lemma teleported_trip:
  assumes rs: "routing_setup sq Q pick context router" and md: "teleported_module (pc_config context) m md"
    and "\<not> is_network_mode context m" and "module_calc_route sq md req = Some (Inr els)"
  shows "routed_elements context (map (set_routing_mode m) els)"
proof -
  obtain t where t: "t \<in> set (rc_teleported_mode_params (pc_config context))"
      "md = TeleportationRoutingModule m (tp_beeline_distance_factor t) (tp_teleported_mode_speed t)"
    using md by (auto simp: teleported_module_def)
  obtain leg a b l l' where leg: "els = [Leg leg]"
      "teleported_leg sq m l l' (map_option iv_id (tr_vehicle req)) a b (tp_beeline_distance_factor t) (tp_teleported_mode_speed t) (tr_departure_time req) leg"
    using teleportation_leg[of sq m _ _ req els] assms(4) t(2) by (metis teleportation_module)
  let ?leg = "leg\<lparr>leg_routing_mode := Some m\<rparr>"
  have "teleported_leg sq m l l' (map_option iv_id (tr_vehicle req)) a b (tp_beeline_distance_factor t) (tp_teleported_mode_speed t) (tr_departure_time req) ?leg"
    using leg(2) by (simp add: teleported_leg_def)
  then have "legs_are_valid (pc_network context) [?leg] = Some True"
    using teleported_leg_valid rs t(1) unfolding routing_setup_def by blast
  then have "trip_valid context [Leg ?leg]"
    using assms(3) by (intro trip_validI[of _ "[?leg]" m]) (simp_all add: List.map_filter_def)
  then show ?thesis by (simp add: routed_elements_def leg(1) is_main_def)
qed

lemma network_trip_elements:
  assumes rs: "routing_setup sq Q pick context router" and md: "network_module Q pick (pc_config context) (pc_network context) m md"
    and route: "module_calc_route sq md req = Some (Inr els)"
    and same: "\<And>l. mode_link m (tr_from req) = Some l \<Longrightarrow> mode_link m (tr_to req) = Some l \<Longrightarrow>
      \<exists>k. get_link (pc_network context) l = Some k \<and> contains_mode m k"
  shows "routed_elements context (map (set_routing_mode m) els)"
proof -
  let ?acc = "rc_access_egress_mode (pc_config context)" and ?net = "pc_network context"
  obtain t r where t: "t \<in> set (rc_teleported_mode_params (pc_config context))"
      "md = NetworkRoutingModule m (TeleportationRoutingModule ?acc (tp_beeline_distance_factor t) (tp_teleported_mode_speed t))
         (TeleportationRoutingModule ?acc (tp_beeline_distance_factor t) (tp_teleported_mode_speed t)) (calc_least_cost_path Q r) ?net"
      "a_star_new Q pick Alt ?net (Some m) FreeSpeedTravelTimeAndDisutility = Some (Inr r)"
    using md by (auto simp: network_module_def teleported_module_def)
  have inv: "net_inv ?net" and sq: "\<forall>x. 0 \<le> sq x" and factor: "0 \<le> tp_beeline_distance_factor t" and len: "nonneg_lengths ?net"
    using rs t(1) by (auto simp: routing_setup_def)
  obtain access l1 la c1 d1 f g leg l2 le c2 d2 egress now2 where
    els: "els = [Leg access, create_interaction_activity m (Some d1) l1, Leg leg, create_interaction_activity m (Some d2) l2, Leg egress]"
    and acc: "teleported_leg sq ?acc la la None c1 d1 (tp_beeline_distance_factor t) (tp_teleported_mode_speed t) (tr_departure_time req) access"
    and leg: "mode_link m (tr_from req) = Some f" "mode_link m (tr_to req) = Some g" "network_leg_of ?net m f g (map_option iv_id (tr_vehicle req)) leg"
    and egr: "teleported_leg sq ?acc le le None d2 c2 (tp_beeline_distance_factor t) (tp_teleported_mode_speed t) now2 egress"
    by (rule network_module_route[OF inv t(3) route[unfolded t(2)]])
  let ?set = "leg_routing_mode_update (\<lambda>_. Some m)"
  have "teleported_leg sq ?acc la la None c1 d1 (tp_beeline_distance_factor t) (tp_teleported_mode_speed t) (tr_departure_time req) (?set access)"
    "teleported_leg sq ?acc le le None d2 c2 (tp_beeline_distance_factor t) (tp_teleported_mode_speed t) now2 (?set egress)"
    "network_leg_of ?net m f g (map_option iv_id (tr_vehicle req)) (?set leg)"
    using acc leg(3) egr by (simp_all add: teleported_leg_def network_leg_of_def)
  then have valid: "legs_are_valid ?net [?set access] = Some True" "legs_are_valid ?net [?set leg] = Some True" "legs_are_valid ?net [?set egress] = Some True"
    using teleported_leg_valid[OF _ sq factor] network_leg_valid[OF _ len] leg(1,2) same by (blast, metis, blast)
  have mode: "leg_mode (?set access) = ?acc" "leg_mode (?set egress) = ?acc" "leg_mode (?set leg) = m" "\<exists>n. leg_route (?set leg) = Some (Network n)"
    using acc egr leg(3) by (auto simp: teleported_leg_def network_leg_of_def)
  have inter: "is_interaction (activity_new (Some d) (m @ '' interaction'') l None None (Some 0))" for d l by (rule interaction_is_interaction)
  have els': "map (set_routing_mode m) els = [Leg (?set access), create_interaction_activity m (Some d1) l1, Leg (?set leg),
      create_interaction_activity m (Some d2) l2, Leg (?set egress)]"
    by (simp add: els create_interaction_activity_def)
  have "trip_valid context (map (set_routing_mode m) els)"
    unfolding els' using valid mode
    by (intro trip_validI[of _ "[?set access, ?set leg, ?set egress]" m]) (auto simp: List.map_filter_def create_interaction_activity_def inter)
  then show ?thesis
    unfolding routed_elements_def els' by (auto simp: is_main_def create_interaction_activity_def inter) (simp_all add: activity_new_def)
qed

lemma routed_trip_elements:
  assumes rs: "routing_setup sq Q pick context router" and route: "trip_router_calc_route sq router m req = Some (Inr els)"
    and same: "\<And>l. mode_link m (tr_from req) = Some l \<Longrightarrow> mode_link m (tr_to req) = Some l \<Longrightarrow> allows_modes context l"
  shows "routed_elements context els"
proof -
  obtain md els0 where md: "router m = Some md" "module_calc_route sq md req = Some (Inr els0)" "els = map (set_routing_mode m) els0"
    using route by (auto simp: trip_router_calc_route_def res_bind_Inr split: option.splits)
  have spec: "if m \<in> set (rc_main_modes (pc_config context)) then network_module Q pick (pc_config context) (pc_network context) m md
      else teleported_module (pc_config context) m md"
  proof (rule create_trip_router_spec[of Q pick "pc_config context" "pc_network context" router m md])
  qed (use rs md(1) in \<open>simp_all add: routing_setup_def\<close>)
  show ?thesis
  proof (cases "m \<in> set (rc_main_modes (pc_config context))")
    case True
    with spec have nm: "network_module Q pick (pc_config context) (pc_network context) m md" by simp
    show ?thesis
      unfolding md(3) by (rule network_trip_elements[OF rs nm md(2)]) (use True same in \<open>auto simp: allows_modes_def\<close>)
  next
    case False
    with spec have tm: "teleported_module (pc_config context) m md" by simp
    show ?thesis unfolding md(3) by (rule teleported_trip[OF rs tm _ md(2)]) (use False in \<open>simp add: is_network_mode_def\<close>)
  qed
qed

section \<open>Prepared plans\<close>

abbreviation trips :: "plan_element list \<Rightarrow> plan_element list list" where
  "trips \<equiv> trip_list is_interaction"

abbreviation mains :: "plan_element list \<Rightarrow> plan_element list" where
  "mains \<equiv> List.filter (is_main is_interaction)"

definition coords_known :: "plan_element list \<Rightarrow> bool" where
  "coords_known els \<longleftrightarrow> (\<forall>a. Activity a \<in> set els \<longrightarrow> act_coord a \<noteq> None)"

definition links_allowed :: "prepare_for_sim_context \<Rightarrow> plan_element list \<Rightarrow> bool" where
  "links_allowed context els \<longleftrightarrow> (\<forall>a. Activity a \<in> set (mains els) \<longrightarrow> allows_modes context (act_link_id a))"

definition prepared :: "prepare_for_sim_context \<Rightarrow> internal_plan \<Rightarrow> bool" where
  "prepared context plan \<longleftrightarrow> coords_known (plan_elements plan) \<and> (\<forall>trip\<in>set (trips (plan_elements plan)). trip_valid context trip)"

lemma length_spans: "length (get_trip_spans_default els) = length (trips els)"
  by (simp add: get_trip_spans_default_def)

lemma nth_span: "k < length (trips els) \<Longrightarrow> list_get (get_trip_spans_default els) k = Some (trip_spans is_interaction els ! k)"
  by (simp add: list_get_def get_trip_spans_default_def)

lemma assessed_valid:
  assumes "k < length (trips els)"
  shows "assess_trip context (trip_spans is_interaction els ! k) els = Some (Inr Valid) \<longleftrightarrow> trip_valid context (trips els ! k)"
  using trip_elements_nth[of k is_interaction els] assms assess_trip_cong[of _ _ "trip_spans is_interaction els ! k" els]
  unfolding trip_valid_def by (metis length_trip_list)

lemma span_origin_main:
  assumes "k < length (trips els)" and "span_origin (trip_spans is_interaction els ! k) els = Some a"
  shows "Activity a \<in> set (mains els)"
proof -
  let ?s = "trip_spans is_interaction els ! k"
  have "is_trip is_interaction els ?s" using nth_mem[of k "trip_spans is_interaction els"] assms(1) set_trip_spans[of is_interaction els] by auto
  then have "origin_index ?s < length els" "is_main is_interaction (els ! origin_index ?s)" by (auto simp: is_trip_def)
  moreover have "els ! origin_index ?s = Activity a"
    using assms(2) by (cases "els ! origin_index ?s") (auto simp: span_origin_def activity_at_def list_get_def split: if_splits)
  ultimately show ?thesis by (metis mem_Collect_eq nth_mem set_filter)
qed

lemma check_and_adapt_trip_spec:
  assumes rs: "routing_setup sq Q pick context router" and k: "k < length (trips (plan_elements (deref w)))"
    and links: "links_allowed context (plan_elements (deref w))" and coords: "coords_known (plan_elements (deref w))"
    and step: "check_and_adapt_trip sq router context person k w = Some (Inr w')"
  obtains els' trip where "deref w' = (deref w)\<lparr>plan_elements := els'\<rparr>" and "trips els' = (trips (plan_elements (deref w)))[k := trip]"
    and "trip_valid context trip" and "mains els' = mains (plan_elements (deref w))" and "coords_known els'" and "w' = w \<or> (\<exists>p. w' = Owned p)"
proof -
  let ?els = "plan_elements (deref w)" and ?s = "trip_spans is_interaction (plan_elements (deref w)) ! k"
  obtain assessment where assess: "assess_trip context ?s ?els = Some (Inr assessment)"
    using step nth_span[OF k] by (auto simp: check_and_adapt_trip_def Let_def split: sum.splits)
  show thesis
  proof (cases assessment)
    case Valid
    then have "w' = w" using step nth_span[OF k] assess by (simp add: check_and_adapt_trip_def Let_def)
    moreover have "trip_valid context (trips ?els ! k)" using assess assessed_valid[OF k] Valid by simp
    ultimately show thesis using that[of ?els "trips ?els ! k"] coords by simp
  next
    case (NeedsRouting m)
    obtain request new s' els' where req: "trip_request_of context person ?s ?els m = Some (Inr request)"
        and new: "trip_router_calc_route sq router m request = Some (Inr new)"
        and repl: "replace_trip_elements ?s ?els new = Some (s', els')" and w': "w' = Owned ((deref w)\<lparr>plan_elements := els'\<rparr>)"
      using step nth_span[OF k] assess NeedsRouting
      by (auto simp: check_and_adapt_trip_def Let_def split: sum.splits elim!: bind_SomeE)
    have "allows_modes context l" if "mode_link m (tr_from request) = Some l" for l
    proof -
      obtain a c where "span_origin ?s ?els = Some a" "tr_from request = new_link_wrapper c (act_link_id a)"
        using req by (auto simp: trip_request_of_def split: option.splits sum.splits)
      then show ?thesis using that span_origin_main[OF k] links by (auto simp: links_allowed_def)
    qed
    then have r: "routed_elements context new" using routed_trip_elements[OF rs new] by blast
    then have ok: "new \<noteq> []" "\<forall>e\<in>set new. \<not> is_main is_interaction e" by (auto simp: routed_elements_def)
    obtain s2 els2 where els2: "replace_trip_elements ?s ?els new = Some (s2, els2)" "trips els2 = (trips ?els)[k := new]"
        "mains els2 = mains ?els" "set els2 \<subseteq> set ?els \<union> set new"
      using replace_trip_list[OF _ ok] k by (metis length_trip_list)
    moreover have "coords_known els2" using els2(4) coords r by (auto simp: coords_known_def routed_elements_def)
    ultimately show thesis using that[of els' new] repl w' r by (simp add: routed_elements_def)
  qed
qed

lemma check_and_adapt_trips_spec:
  assumes rs: "routing_setup sq Q pick context router"
    and "check_and_adapt_trips sq router context person [i..<length (trips (plan_elements (deref w)))] w = Some (Inr w')"
    and "links_allowed context (plan_elements (deref w))" and "coords_known (plan_elements (deref w))"
    and "\<forall>k<i. k < length (trips (plan_elements (deref w))) \<longrightarrow> trip_valid context (trips (plan_elements (deref w)) ! k)"
  shows "prepared context (deref w') \<and> (\<exists>els'. deref w' = (deref w)\<lparr>plan_elements := els'\<rparr> \<and> mains els' = mains (plan_elements (deref w))) \<and>
    (w' = w \<or> (\<exists>p. w' = Owned p))"
  using assms(2-)
proof (induction "length (trips (plan_elements (deref w))) - i" arbitrary: i w)
  case 0
  then have "w' = w" by simp
  moreover have "prepared context (deref w)" using 0 by (auto simp: prepared_def in_set_conv_nth)
  moreover have "deref w = (deref w)\<lparr>plan_elements := plan_elements (deref w)\<rparr>" by simp
  ultimately show ?case by blast
next
  case (Suc n)
  let ?els = "plan_elements (deref w)"
  have i: "i < length (trips ?els)" using Suc.hyps(2) by simp
  then have "[i..<length (trips ?els)] = i # [Suc i..<length (trips ?els)]" by (rule upt_conv_Cons)
  then obtain w1 where step: "check_and_adapt_trip sq router context person i w = Some (Inr w1)"
    and rest: "check_and_adapt_trips sq router context person [Suc i..<length (trips ?els)] w1 = Some (Inr w')"
    using Suc.prems(1) by (auto split: sum.splits)
  obtain els1 trip where w1: "deref w1 = (deref w)\<lparr>plan_elements := els1\<rparr>" "trips els1 = (trips ?els)[i := trip]" "trip_valid context trip"
      "mains els1 = mains ?els" "coords_known els1" "w1 = w \<or> (\<exists>p. w1 = Owned p)"
    by (rule check_and_adapt_trip_spec[OF rs i Suc.prems(2,3) step])
  have len: "length (trips els1) = length (trips ?els)" using arg_cong[OF w1(2), of length] by (simp del: length_trip_list)
  have "links_allowed context els1" using Suc.prems(2) w1(4) by (simp add: links_allowed_def)
  moreover have "\<forall>k<Suc i. k < length (trips els1) \<longrightarrow> trip_valid context (trips els1 ! k)"
    using Suc.prems(4) w1(2,3) len by (auto simp: less_Suc_eq nth_list_update simp del: length_trip_list)
  moreover have "n = length (trips els1) - Suc i" using Suc.hyps(2) len by simp
  ultimately show ?case using Suc.hyps(1)[of w1 "Suc i"] rest w1 len by auto
qed

text \<open>Coordinates that were unknown are filled in.\<close>

definition same_but_coord :: "plan_element \<Rightarrow> plan_element \<Rightarrow> bool" where
  "same_but_coord e e' \<longleftrightarrow> e' = e \<or> (\<exists>a c. e = Activity a \<and> act_coord a = None \<and> e' = Activity (a\<lparr>act_coord := Some c\<rparr>))"

lemma same_but_coord_main: "same_but_coord e e' \<Longrightarrow> is_main is_interaction e = is_main is_interaction e'"
  by (auto simp: same_but_coord_def is_main_def is_interaction_def)

lemma assign_coordinates_spec:
  assumes "mapM (assign_coordinate net) els = Some els'"
  shows "list_all2 same_but_coord els els' \<and> coords_known els' \<and> list_all2 same_but_coord (mains els) (mains els')"
  using assms
proof (induction els arbitrary: els')
  case (Cons e els)
  then obtain e' es where e: "assign_coordinate net e = Some e'" "mapM (assign_coordinate net) els = Some es" "els' = e' # es" by auto
  have "same_but_coord e e' \<and> (\<forall>a. e' = Activity a \<longrightarrow> act_coord a \<noteq> None)"
    using e(1) by (cases e) (auto simp: same_but_coord_def split: if_splits)
  then show ?case using Cons.IH[OF e(2)] e(3) same_but_coord_main[of e e'] by (auto simp: coords_known_def)
qed (simp add: coords_known_def)

definition prepared_from :: "internal_plan \<Rightarrow> internal_plan \<Rightarrow> bool" where
  "prepared_from plan plan' \<longleftrightarrow> list_all2 same_but_coord (mains (plan_elements plan)) (mains (plan_elements plan')) \<and>
     plan_selected plan' = plan_selected plan \<and> plan_score plan' = plan_score plan"

lemma links_allowed_same:
  assumes "list_all2 same_but_coord (mains els) (mains els')" and "links_allowed context els"
  shows "links_allowed context els'"
proof -
  have "allows_modes context (act_link_id a)" if a: "Activity a \<in> set (mains els')" for a
  proof -
    obtain j where j: "j < length (mains els')" "mains els' ! j = Activity a" using a by (metis in_set_conv_nth)
    have "same_but_coord (mains els ! j) (Activity a)" "j < length (mains els)"
      using assms(1) j by (auto simp: list_all2_conv_all_nth)
    then obtain b where "mains els ! j = Activity b" "act_link_id b = act_link_id a" unfolding same_but_coord_def
      by (metis internal_activity.select_convs(2) internal_activity.surjective internal_activity.update_convs(3) plan_element.inject(1))
    then show ?thesis using assms(2) nth_mem[OF \<open>j < length (mains els)\<close>] unfolding links_allowed_def by metis
  qed
  then show ?thesis unfolding links_allowed_def by blast
qed

lemma prepare_plan_spec:
  assumes rs: "routing_setup sq Q pick context router" and links: "links_allowed context (plan_elements plan)"
    and prep: "prepare_plan sq router context person plan = Some (Inr r)"
  shows "prepared context (new_plan plan (Inr r)) \<and> prepared_from plan (new_plan plan (Inr r))"
proof -
  obtain w rr where w: "(if list_ex (\<lambda>a. act_coord a = None) (plan_acts plan)
                then do { p \<leftarrow> assign_activity_coordinates context plan; Some (Owned p) } else Some (Borrowed plan)) = Some w"
      and check: "check_and_adapt_trips sq router context person [0..<length (trips (plan_elements (deref w)))] w = Some rr"
      and rr: "(case rr of Inl failure \<Rightarrow> Inl failure | Inr (Borrowed _) \<Rightarrow> Inr None | Inr (Owned p) \<Rightarrow> Inr (Some p)) = Inr r"
    using prep unfolding prepare_plan_def length_spans by (elim bind_SomeE) simp
  then obtain w' where w': "rr = Inr w'" by (cases rr) auto
  have r: "r = (case w' of Borrowed _ \<Rightarrow> None | Owned p \<Rightarrow> Some p)" using rr w' by (cases w') auto
  note step = check[unfolded w']
  have start: "prepared_from plan (deref w) \<and> coords_known (plan_elements (deref w)) \<and> (w = Borrowed plan \<or> (\<exists>p. w = Owned p))"
  proof (cases "list_ex (\<lambda>a. act_coord a = None) (plan_acts plan)")
    case True
    then show ?thesis using w assign_coordinates_spec by (auto simp: assign_activity_coordinates_def prepared_from_def)
  next
    case False
    then have "w = Borrowed plan" using w by simp
    moreover have "coords_known (plan_elements plan)"
      using False by (force simp: coords_known_def plan_acts_def list_ex_iff List.map_filter_def)
    ultimately show ?thesis by (simp add: prepared_from_def list_all2_refl same_but_coord_def)
  qed
  have "links_allowed context (plan_elements (deref w))"
    using start links links_allowed_same by (auto simp: prepared_from_def)
  from check_and_adapt_trips_spec[OF rs step this] start
  have "prepared context (deref w')" and "\<exists>els'. deref w' = (deref w)\<lparr>plan_elements := els'\<rparr> \<and> mains els' = mains (plan_elements (deref w))"
    and "w' = w \<or> (\<exists>p. w' = Owned p)" by auto
  moreover from this have "deref w' = new_plan plan (Inr r)" using r start by (auto simp: new_plan_def)
  ultimately show ?thesis using start by (auto simp: prepared_from_def)
qed

text \<open>A plan that is prepared is left alone.\<close>

lemma prepare_prepared:
  assumes "prepared context plan"
  shows "prepare_plan sq router context person plan = Some (Inr None)"
proof -
  let ?els = "plan_elements plan"
  have "check_and_adapt_trip sq router context person k (Borrowed plan) = Some (Inr (Borrowed plan))" if "k < length (trips ?els)" for k
  proof -
    have "trip_valid context (trips ?els ! k)" using assms nth_mem[OF that] unfolding prepared_def by blast
    then have "assess_trip context (trip_spans is_interaction ?els ! k) ?els = Some (Inr Valid)" by (simp only: assessed_valid[OF that])
    then show ?thesis using nth_span[OF that] by (simp add: check_and_adapt_trip_def Let_def)
  qed
  then have "check_and_adapt_trips sq router context person ks (Borrowed plan) = Some (Inr (Borrowed plan))"
    if "set ks \<subseteq> {..<length (trips ?els)}" for ks using that by (induction ks) auto
  then have "check_and_adapt_trips sq router context person [0..<length (get_trip_spans_default ?els)] (Borrowed plan) = Some (Inr (Borrowed plan))"
    by (metis length_spans atLeast_upt order_refl)
  moreover have "\<not> list_ex (\<lambda>a. act_coord a = None) (plan_acts plan)"
    using assms by (auto simp: prepared_def coords_known_def plan_acts_def list_ex_iff List.map_filter_def)
      (metis as_activity.elims option.distinct(1) option.sel)
  ultimately show ?thesis by (simp add: prepare_plan_def)
qed

section \<open>Prepared populations\<close>

definition plan_key :: "prepare_for_sim_issue \<Rightarrow> person_id \<times> nat" where
  "plan_key i = (pi_person_id i, pi_plan_index i)"

lemma distinct_issue_key: "distinct (map plan_key is') \<Longrightarrow> distinct (map issue_key is')"
proof -
  assume "distinct (map plan_key is')"
  moreover have "map plan_key is' = map (\<lambda>(p, k, _). (p, k)) (map issue_key is')" by (simp add: plan_key_def issue_key_def comp_def)
  ultimately show "distinct (map issue_key is')" by (metis distinct_map)
qed

lemma plan_issues:
  "distinct (map plan_key (concat (map2 (plan_issue pid) [a..<a + length outcomes] outcomes))) \<and>
   (\<forall>i\<in>set (concat (map2 (plan_issue pid) [a..<a + length outcomes] outcomes)). pi_person_id i = pid \<and> a \<le> pi_plan_index i) \<and>
   (concat (map2 (plan_issue pid) [a..<a + length outcomes] outcomes) = [] \<longleftrightarrow> (\<forall>r\<in>set outcomes. \<exists>p. r = Inr p))"
proof (induction outcomes arbitrary: a)
  case (Cons r outcomes)
  define rest where "rest = concat (map2 (plan_issue pid) [Suc a..<Suc a + length outcomes] outcomes)"
  have ih: "distinct (map plan_key rest)" "\<forall>i\<in>set rest. pi_person_id i = pid \<and> Suc a \<le> pi_plan_index i"
    "rest = [] \<longleftrightarrow> (\<forall>r\<in>set outcomes. \<exists>p. r = Inr p)" using Cons.IH[of "Suc a"] unfolding rest_def by blast+
  have "[a..<a + length (r # outcomes)] = a # [Suc a..<Suc a + length outcomes]"
    by (simp only: upt_conv_Cons list.size add_Suc_right add_Suc add_0_right less_add_Suc1)
  have eq: "concat (map2 (plan_issue pid) [a..<a + length (r # outcomes)] (r # outcomes)) = plan_issue pid a r @ rest"
    unfolding rest_def \<open>[a..<a + length (r # outcomes)] = _\<close> by (simp only: zip_Cons_Cons list.map case_prod_conv concat.simps)
  show ?case
  proof (cases r)
    case (Inl f)
    then obtain t e where i: "plan_issue pid a r = [\<lparr>pi_person_id = pid, pi_plan_index = a, pi_trip_index = Some t, pi_message = e\<rparr>]"
      by (cases f) (simp add: plan_issue_def)
    have "pi_plan_index i \<noteq> a" if "i \<in> set rest" for i using ih(2) that by (metis Suc_n_not_le_n)
    then have "(pid, a) \<notin> plan_key ` set rest" unfolding image_iff plan_key_def by (metis Pair_inject)
    moreover have "\<forall>i\<in>set rest. pi_person_id i = pid \<and> a \<le> pi_plan_index i" using ih(2) by auto
    ultimately show ?thesis unfolding eq i using ih(1) Inl by (simp add: plan_key_def[of "\<lparr>pi_person_id = _, pi_plan_index = _, pi_trip_index = _, pi_message = _\<rparr>"])
  next
    case (Inr x)
    then have i: "plan_issue pid a r = []" by (simp add: plan_issue_def)
    have "\<forall>i\<in>set rest. pi_person_id i = pid \<and> a \<le> pi_plan_index i" using ih(2) by auto
    then show ?thesis unfolding eq i using ih(1,3) Inr by simp
  qed
qed simp

lemma prepare_person_spec:
  assumes rs: "routing_setup sq Q pick context router" and links: "\<forall>pl\<in>set (person_plans p). links_allowed context (plan_elements pl)"
    and prep: "prepare_person sq router context p = Some (p', [])"
  shows "person_ident p' = person_ident p \<and> list_all2 prepared_from (person_plans p) (person_plans p') \<and>
    (\<forall>pl\<in>set (person_plans p'). prepared context pl)"
proof -
  obtain outcomes where out: "mapM (prepare_plan sq router context p) (person_plans p) = Some outcomes"
      and p': "p' = p\<lparr>person_plans := map2 new_plan (person_plans p) outcomes\<rparr>"
      and none: "concat (map2 (plan_issue (person_ident p)) [0..<0 + length outcomes] outcomes) = []"
    using prep by (auto simp: prepare_person_def)
  have inr: "\<exists>x. r = Inr x" if "r \<in> set outcomes" for r using that none plan_issues[of "person_ident p" 0 outcomes] by blast
  note all = mapM_list_all2[OF out]
  have nth: "prepared_from (person_plans p ! j) (map2 new_plan (person_plans p) outcomes ! j) \<and> prepared context (map2 new_plan (person_plans p) outcomes ! j)"
    if "j < length (person_plans p)" for j
  proof -
    have j: "j < length outcomes" "prepare_plan sq router context p (person_plans p ! j) = Some (outcomes ! j)"
      using all that by (auto simp: list_all2_conv_all_nth)
    then obtain x where x: "outcomes ! j = Inr x" using inr[of "outcomes ! j"] by auto
    show ?thesis using prepare_plan_spec[OF rs, of "person_plans p ! j" p x] links j that x by simp
  qed
  have "length outcomes = length (person_plans p)" using all by (auto dest: list_all2_lengthD)
  then show ?thesis unfolding p' using nth by (auto simp: list_all2_conv_all_nth in_set_conv_nth)
qed

lemma prepare_prepared_person:
  assumes "\<forall>pl\<in>set (person_plans p). prepared context pl"
  shows "prepare_person sq router context p = Some (p, [])"
proof -
  have "mapM (prepare_plan sq router context p) (person_plans p) = Some (replicate (length (person_plans p)) (Inr None))"
    using assms prepare_prepared by (intro mapM_const) auto
  moreover have "map2 new_plan xs (replicate (length xs) (Inr None)) = xs" for xs
    by (induction xs) (simp_all add: new_plan_def)
  moreover have "concat (map2 (plan_issue (person_ident p)) [0..<0 + length (replicate n (Inr None))] (replicate n (Inr None))) = []" for n
    using plan_issues[of "person_ident p" 0 "replicate n (Inr None)"] by simp
  ultimately show ?thesis by (simp add: prepare_person_def)
qed

text \<open>The result in terms of the results for the persons.\<close>

definition person_result :: "(f64 \<Rightarrow> f64) \<Rightarrow> trip_router \<Rightarrow> prepare_for_sim_context \<Rightarrow> population \<Rightarrow> person_id \<Rightarrow>
    (internal_person \<times> prepare_for_sim_issue list) option" where
  "person_result sq router context persons i = do { p \<leftarrow> persons i; prepare_person sq router context p }"

lemma person_results:
  assumes "mapM (\<lambda>i. do { p \<leftarrow> persons i; r \<leftarrow> prepare_person sq router context p; Some (i, r) }) ks = Some results"
  shows "map_of (map (\<lambda>(i, p, _). (i, p)) results) i = (if i \<in> set ks then map_option fst (person_result sq router context persons i) else None) \<and>
    map (\<lambda>(_, _, issues). issues) results = map (\<lambda>i. snd (the (person_result sq router context persons i))) ks \<and>
    (\<forall>i\<in>set ks. person_result sq router context persons i \<noteq> None)"
  using assms
proof (induction ks arbitrary: results)
  case (Cons k ks)
  then obtain p p' issues rest where "persons k = Some p" "prepare_person sq router context p = Some (p', issues)"
      "mapM (\<lambda>i. do { p \<leftarrow> persons i; r \<leftarrow> prepare_person sq router context p; Some (i, r) }) ks = Some rest"
      "results = (k, p', issues) # rest" by auto
  then show ?case using Cons.IH[of rest] by (auto simp: person_result_def)
qed simp

lemma prepare_for_sim_result:
  assumes "hash_order ord" and "finite (dom persons)" and "prepare_for_sim ord sq router context persons = Some (persons', r)"
  shows "persons' = (\<lambda>i. map_option fst (person_result sq router context persons i)) \<and>
    (\<forall>i\<in>dom persons. person_result sq router context persons i \<noteq> None) \<and>
    (let issues = concat (map (\<lambda>i. snd (the (person_result sq router context persons i))) (ord (dom persons)))
     in r = (if issues = [] then Inr () else Inl (error_new issues)))"
proof -
  obtain results where m: "mapM (\<lambda>i. do { p \<leftarrow> persons i; r \<leftarrow> prepare_person sq router context p; Some (i, r) }) (ord (dom persons)) = Some results"
      and eqs: "persons' = map_of (map (\<lambda>(i, p, _). (i, p)) results)"
        "r = (let issues = concat (map (\<lambda>(_, _, issues). issues) results) in if issues = [] then Inr () else Inl (error_new issues))"
    using assms(3) by (auto simp: prepare_for_sim_def Let_def)
  have "set (ord (dom persons)) = dom persons" using hash_order.ord_set[OF assms(1,2)] .
  moreover have "person_result sq router context persons i = None" if "i \<notin> dom persons" for i
    using that by (auto simp: person_result_def dom_def)
  ultimately show ?thesis using person_results[OF m] eqs by (auto simp: fun_eq_iff Let_def)
qed

lemma prepare_for_sim_total:
  assumes "hash_order ord" and "finite (dom persons)" and "\<forall>i\<in>dom persons. person_result sq router context persons i \<noteq> None"
  obtains persons' r where "prepare_for_sim ord sq router context persons = Some (persons', r)"
proof -
  let ?step = "\<lambda>i. do { p \<leftarrow> persons i; r \<leftarrow> prepare_person sq router context p; Some (i, r) }"
  have "?step i = map_option (Pair i) (person_result sq router context persons i)" for i
    by (cases "persons i") (auto simp: person_result_def map_option_case split: option.splits Option.bind_split)
  then have "?step i \<noteq> None" if "i \<in> set (ord (dom persons))" for i
    using assms(3) hash_order.ord_set[OF assms(1,2)] that by simp
  then obtain results where "mapM ?step (ord (dom persons)) = Some results" using mapM_total[of "ord (dom persons)" ?step] by blast
  then show thesis using that by (simp add: prepare_for_sim_def Let_def)
qed

lemma prepare_for_sim_ready:
  assumes "hash_order ord" and "finite (dom persons)"
    and "\<forall>i\<in>dom persons. \<exists>p. persons i = Some p \<and> prepare_person sq router context p = Some (p, [])"
  shows "prepare_for_sim ord sq router context persons = Some (persons, Inr ())"
proof -
  have same: "person_result sq router context persons i = map_option (\<lambda>p. (p, [])) (persons i)" for i
    using assms(3) by (cases "persons i") (force simp: person_result_def)+
  then have "\<forall>i\<in>dom persons. person_result sq router context persons i \<noteq> None" by auto
  then obtain persons' r where prep: "prepare_for_sim ord sq router context persons = Some (persons', r)"
    by (rule prepare_for_sim_total[OF assms(1,2)])
  note res = prepare_for_sim_result[OF assms(1,2) prep]
  have "persons' = persons" using res by (auto simp: same fun_eq_iff option.map_comp comp_def option.map_ident)
  moreover have "snd (the (map_option (\<lambda>p. (p, [])) (persons i))) = []" if "i \<in> set (ord (dom persons))" for i
    using that hash_order.ord_set[OF assms(1,2)] by auto
  then have "concat (map (\<lambda>i. snd (the (person_result sq router context persons i))) (ord (dom persons))) = []"
    unfolding same concat_eq_Nil_conv by auto
  ultimately show ?thesis using res prep by (simp add: Let_def)
qed

text \<open>
  C29. If the router is made from the configuration and the links of the main activities allow all
  modes of the network, then after a preparation without issues every trip of every plan is valid and
  every activity has a coordinate; no person, plan or main activity is lost, and a second preparation
  changes nothing. Without the condition on the links a trip from a link to itself can stay invalid.
\<close>

theorem preparation_succeeds_for_good:
  assumes "routing_setup sq Q pick context router" and "hash_order ord" and "finite (dom persons)"
    and "\<forall>p\<in>ran persons. \<forall>pl\<in>set (person_plans p). links_allowed context (plan_elements pl)"
    and "prepare_for_sim ord sq router context persons = Some (persons', Inr ())"
  shows "dom persons' = dom persons \<and> prepare_for_sim ord sq router context persons' = Some (persons', Inr ()) \<and>
    (\<forall>i p. persons i = Some p \<longrightarrow> (\<exists>p'. persons' i = Some p' \<and> person_ident p' = person_ident p \<and>
       list_all2 prepared_from (person_plans p) (person_plans p') \<and> (\<forall>pl\<in>set (person_plans p'). prepared context pl)))"
proof -
  note res = prepare_for_sim_result[OF assms(2,3,5)]
  have ord: "set (ord (dom persons)) = dom persons" using hash_order.ord_set[OF assms(2,3)] .
  have person: "\<exists>p'. persons' i = Some p' \<and> person_ident p' = person_ident p \<and>
       list_all2 prepared_from (person_plans p) (person_plans p') \<and> (\<forall>pl\<in>set (person_plans p'). prepared context pl)" if i: "persons i = Some p" for i p
  proof -
    have "i \<in> set (ord (dom persons))" using ord i by auto
    moreover have "concat (map (\<lambda>i. snd (the (person_result sq router context persons i))) (ord (dom persons))) = []"
      using res by (auto simp: Let_def split: if_splits)
    ultimately have none: "snd (the (person_result sq router context persons i)) = []" by auto
    obtain p' where prep: "prepare_person sq router context p = Some (p', [])" and "persons' i = Some p'"
      using res i none by (cases "prepare_person sq router context p") (force simp: person_result_def dom_def)+
    then show ?thesis using prepare_person_spec[OF assms(1) _ prep] assms(4) i by (auto simp: ran_def)
  qed
  have dom: "dom persons' = dom persons"
  proof -
    have "persons' i = None \<longleftrightarrow> persons i = None" for i using res person[of i] by (cases "persons i") (auto simp: person_result_def)
    then show ?thesis by (simp add: dom_def)
  qed
  have "\<forall>i\<in>dom persons'. \<exists>p. persons' i = Some p \<and> prepare_person sq router context p = Some (p, [])"
    using person dom prepare_prepared_person by fastforce
  then have "prepare_for_sim ord sq router context persons' = Some (persons', Inr ())"
    using prepare_for_sim_ready[OF assms(2)] dom assms(3) by simp
  then show ?thesis using dom person by blast
qed

lemma error_new_keys:
  "sorted (map issue_key (error_new is'))" "distinct (map issue_key (error_new is')) \<longleftrightarrow> distinct (map issue_key is')"
proof -
  show "sorted (map issue_key (error_new is'))" by (simp add: error_new_def)
  have "mset (map issue_key (error_new is')) = mset (map issue_key is')" by (simp add: error_new_def)
  then show "distinct (map issue_key (error_new is')) \<longleftrightarrow> distinct (map issue_key is')" by (rule mset_eq_imp_distinct_iff)
qed

lemma error_new_plans: "distinct (map plan_key (error_new is')) \<longleftrightarrow> distinct (map plan_key is')"
proof -
  have "mset (map plan_key (error_new is')) = mset (map plan_key is')" by (simp add: error_new_def)
  then show ?thesis by (rule mset_eq_imp_distinct_iff)
qed

lemma person_issues:
  assumes "person_result sq router context persons i = Some r" and "population_inv persons"
  shows "distinct (map plan_key (snd r)) \<and> (\<forall>x\<in>set (snd r). pi_person_id x = i)"
proof -
  obtain p outcomes where p: "persons i = Some p" and r: "snd r = concat (map2 (plan_issue (person_ident p)) [0..<0 + length outcomes] outcomes)"
    using assms(1) by (auto simp: person_result_def prepare_person_def)
  have "person_ident p = i" using p assms(2) by (simp add: population_inv_def)
  then show ?thesis using plan_issues[of i 0 outcomes] unfolding r by blast
qed

text \<open>
  C30. What the preparation returns does not depend on the order in which the persons are visited,
  and the issues are reported in the order of persons, plans and trips, at most one for each plan of
  a person.
\<close>

theorem preparation_deterministic:
  assumes "hash_order ord" and "hash_order ord'" and inv: "population_inv persons"
    and prep: "prepare_for_sim ord sq router context persons = Some (persons', r)"
  shows "prepare_for_sim ord' sq router context persons = Some (persons', r) \<and>
    (\<forall>issues. r = Inl issues \<longrightarrow> sorted (map issue_key issues) \<and>
      distinct (map (\<lambda>i. (pi_person_id i, pi_plan_index i)) issues))"
proof -
  have fin: "finite (dom persons)" using inv by (simp add: population_inv_def)
  let ?issues = "\<lambda>i. snd (the (person_result sq router context persons i))"
  note res = prepare_for_sim_result[OF assms(1) fin prep]
  note ord = hash_order.ord_set[OF assms(1) fin] and ord' = hash_order.ord_set[OF assms(2) fin]
  obtain persons2 r2 where prep2: "prepare_for_sim ord' sq router context persons = Some (persons2, r2)"
    by (rule prepare_for_sim_total[OF assms(2) fin conjunct1[OF conjunct2[OF res]]])
  note res2 = prepare_for_sim_result[OF assms(2) fin prep2]
  have each: "distinct (map plan_key (?issues i)) \<and> (\<forall>x\<in>set (?issues i). pi_person_id x = i)" if "i \<in> dom persons" for i
  proof -
    obtain x where x: "person_result sq router context persons i = Some x"
      using bspec[OF conjunct1[OF conjunct2[OF res]] \<open>i \<in> dom persons\<close>] by (cases "person_result sq router context persons i") simp_all
    show ?thesis using person_issues[OF x inv] unfolding x option.sel .
  qed
  have distinct: "distinct (map plan_key (concat (map ?issues is')))" if "distinct is'" "set is' \<subseteq> dom persons" for is'
    using that
  proof (induction is')
    case (Cons i is')
    have new: "pi_person_id y \<noteq> i" if y: "y \<in> set (concat (map ?issues is'))" for y
    proof -
      obtain j where j: "j \<in> set is'" "y \<in> set (?issues j)" using y unfolding set_concat set_map by blast
      then have "pi_person_id y = j" using each[of j] Cons.prems(2) by (meson list.set_intros(2) subsetD)
      then show ?thesis using j(1) Cons.prems(1) by auto
    qed
    have here: "pi_person_id x = i" if "x \<in> set (?issues i)" for x using each[of i] that Cons.prems(2) by simp
    have ne: "plan_key x \<noteq> plan_key y" if "x \<in> set (?issues i)" "y \<in> set (concat (map ?issues is'))" for x y
      using here[OF that(1)] new[OF that(2)] by (simp add: plan_key_def)
    have "plan_key ` set (?issues i) \<inter> plan_key ` set (concat (map ?issues is')) = {}"
    proof (rule equals0I)
      fix z assume z: "z \<in> plan_key ` set (?issues i) \<inter> plan_key ` set (concat (map ?issues is'))"
      obtain x where x: "z = plan_key x" "x \<in> set (?issues i)" by (rule imageE[OF IntD1[OF z]])
      obtain y where y: "z = plan_key y" "y \<in> set (concat (map ?issues is'))" by (rule imageE[OF IntD2[OF z]])
      show False using ne[OF x(2) y(2)] x(1) y(1) by simp
    qed
    moreover have "distinct (map plan_key (concat (map ?issues is')))" using Cons by simp
    ultimately show ?case using each[of i] Cons.prems(2) unfolding list.map concat.simps map_append distinct_append set_map by simp
  qed simp
  let ?all = "\<lambda>ord. concat (map ?issues (ord (dom persons)))"
  have same: "mset (?all ord) = mset (?all ord')"
    unfolding mset_concat_map hash_order.ord_mset[OF assms(1) fin] hash_order.ord_mset[OF assms(2) fin] ..
  have d: "distinct (map plan_key (?all ord))" using distinct[OF hash_order.ord_distinct[OF assms(1) fin]] ord by simp
  have "error_new (?all ord) = error_new (?all ord')"
  proof (rule sort_key_unique[where k = issue_key])
    show "mset (error_new (?all ord)) = mset (error_new (?all ord'))" using same by (simp add: error_new_def)
    show "distinct (map issue_key (error_new (?all ord)))" using distinct_issue_key[OF d] by (simp add: error_new_keys)
  qed (simp_all add: error_new_keys)
  moreover have "?all ord = [] \<longleftrightarrow> ?all ord' = []" using same by (metis mset_zero_iff)
  ultimately have "r2 = r"
    using conjunct2[OF conjunct2[OF res]] conjunct2[OF conjunct2[OF res2]] unfolding Let_def by presburger
  moreover have "sorted (map issue_key issues) \<and> distinct (map plan_key issues)" if "r = Inl issues" for issues
  proof -
    have "issues = error_new (?all ord)" using conjunct2[OF conjunct2[OF res]] that unfolding Let_def by (auto split: if_splits)
    then show ?thesis using d by (simp add: error_new_keys error_new_plans)
  qed
  ultimately show ?thesis using prep2 conjunct1[OF res] conjunct1[OF res2] by (simp add: plan_key_def[abs_def])
qed

section \<open>Trips from a link to itself\<close>

lemma create_trip_router_main:
  assumes "create_trip_router Q pick cfg net = Some (Inr router)" and "m \<in> set (rc_main_modes cfg)"
  shows "\<exists>md. router m = Some md"
proof -
  have fails: "foldM (add_network_router Q pick cfg net) ms (Inl e) = Some (Inl e)" for ms e
    by (induction ms) (simp_all add: add_network_router_def)
  have keeps: "dom routers \<subseteq> dom final \<and> set ms \<subseteq> dom final"
    if "foldM (add_network_router Q pick cfg net) ms (Inr routers) = Some (Inr final)" for ms routers final
    using that
  proof (induction ms arbitrary: routers)
    case (Cons k ms)
    then obtain x where x: "add_network_router Q pick cfg net k (Inr routers) = Some x"
      "foldM (add_network_router Q pick cfg net) ms x = Some (Inr final)" by auto
    then obtain routers' where r: "x = Inr routers'" using fails by (cases x) auto
    then obtain md where "routers' = routers(k \<mapsto> md)"
      using x(1) by (auto simp: add_network_router_def split: option.splits sum.splits)
    then have "insert k (dom routers) \<subseteq> dom final \<and> set ms \<subseteq> dom final"
      using Cons.IH[of routers'] x(2) r by (metis dom_fun_upd option.distinct(1))
    then show ?case by simp
  qed simp
  show ?thesis using keeps[OF assms(1)[unfolded create_trip_router_def]] assms(2) by blast
qed

lemma teleportation_no_error:
  "teleportation_calc_route sq m factor speed req \<noteq> Some (Inl e)"
  "teleportation_calc_route sq m factor speed req = Some (Inr els) \<Longrightarrow> end_time_or_error k els now \<noteq> Some (Inl e')"
  by (auto simp: teleportation_calc_route_def Let_def end_time_or_error_def decide_on_leg_travel_time_def leg_new_def
      split: option.splits Option.bind_splits)

lemma res_bind_Inl: "res_bind r f = Some (Inl e) \<longleftrightarrow> r = Some (Inl e) \<or> (\<exists>x. r = Some (Inr x) \<and> f x = Some (Inl e))"
  by (cases r) (auto simp: res_bind_def split: sum.splits)

lemma network_leg_same_link:
  assumes "mode_link m (tr_from req) = Some l" and "mode_link m (tr_to req) = Some l"
  shows "network_leg calculator m net req now \<noteq> Some (Inl e)"
  using assms
  by (auto simp: network_leg_def path_to_elements_def end_time_or_error_def decide_on_leg_travel_time_def leg_new_def res_bind_Inl
      split: option.splits Option.bind_splits)

text \<open>The module of a mode on the network reports no error for such a trip.\<close>

lemma same_link_no_error:
  assumes "mode_link m (tr_from req) = Some l" and "mode_link m (tr_to req) = Some l"
  shows "module_calc_route sq (NetworkRoutingModule m (TeleportationRoutingModule am af asp) (TeleportationRoutingModule em ef esp)
    calculator net) req \<noteq> Some (Inl e)"
proof
  assume err: "module_calc_route sq (NetworkRoutingModule m (TeleportationRoutingModule am af asp) (TeleportationRoutingModule em ef esp)
    calculator net) req = Some (Inl e)"
  have "access_routing (teleportation_calc_route sq am af asp) m net req \<noteq> Some (Inl e)"
    using teleportation_no_error by (auto simp: access_routing_def res_bind_Inl)
  moreover have "egress_routing (teleportation_calc_route sq em ef esp) m net req now \<noteq> Some (Inl e)" for now
    using teleportation_no_error(1) by (auto simp: egress_routing_def res_bind_Inl)
  ultimately show False using err network_leg_same_link[OF assms] by (auto simp: res_bind_Inl)
qed

lemma router_network_module:
  assumes rs: "routing_setup sq Q pick context router" and m: "is_network_mode context m"
  obtains am f sp r where "a_star_new Q pick Alt (pc_network context) (Some m) FreeSpeedTravelTimeAndDisutility = Some (Inr r)"
    and "router m = Some (NetworkRoutingModule m (TeleportationRoutingModule am f sp) (TeleportationRoutingModule am f sp)
           (calc_least_cost_path Q r) (pc_network context))"
proof -
  have create: "create_trip_router Q pick (pc_config context) (pc_network context) = Some (Inr router)"
    and acc: "rc_access_egress_mode (pc_config context) \<notin> set (rc_main_modes (pc_config context))"
    using rs by (simp_all add: routing_setup_def)
  obtain md where md: "router m = Some md" using create_trip_router_main[OF create] m by (auto simp: is_network_mode_def)
  show thesis
    using create_trip_router_spec[OF create acc md] m md that
    by (auto simp: is_network_mode_def network_module_def teleported_module_def)
qed

text \<open>Such a trip is routed whenever the routing does not panic, and the elements are not a valid trip.\<close>

lemma same_link_route:
  assumes rs: "routing_setup sq Q pick context router" and m: "is_network_mode context m"
    and k: "get_link (pc_network context) l = Some k" "\<not> contains_mode m k"
    and req: "tr_from req = new_link_wrapper c l" "tr_to req = new_link_wrapper c' l"
    and route: "trip_router_calc_route sq router m req \<noteq> None"
  shows "\<exists>els. trip_router_calc_route sq router m req = Some (Inr els) \<and> els \<noteq> [] \<and> (\<forall>e\<in>set els. \<not> is_main is_interaction e) \<and>
    \<not> trip_valid context els"
proof -
  obtain am f sp r where n: "a_star_new Q pick Alt (pc_network context) (Some m) FreeSpeedTravelTimeAndDisutility = Some (Inr r)"
      "router m = Some (NetworkRoutingModule m (TeleportationRoutingModule am f sp) (TeleportationRoutingModule am f sp)
         (calc_least_cost_path Q r) (pc_network context))"
    by (rule router_network_module[OF rs m])
  let ?md = "NetworkRoutingModule m (TeleportationRoutingModule am f sp) (TeleportationRoutingModule am f sp) (calc_least_cost_path Q r) (pc_network context)"
  have ends: "mode_link m (tr_from req) = Some l" "mode_link m (tr_to req) = Some l" using req by simp_all
  obtain els0 where els0: "module_calc_route sq ?md req = Some (Inr els0)"
    and els: "trip_router_calc_route sq router m req = Some (Inr (map (set_routing_mode m) els0))"
  proof (cases "module_calc_route sq ?md req")
    case (Some x)
    then show thesis using that same_link_no_error[OF ends] n(2)
      by (cases x) (auto simp: trip_router_calc_route_def simp del: module_calc_route.simps)
  qed (use route n(2) in \<open>simp add: trip_router_calc_route_def del: module_calc_route.simps\<close>)
  have inv: "net_inv (pc_network context)" using rs by (simp add: routing_setup_def)
  let ?els = "map (set_routing_mode m) els0"
  obtain access l1 d1 leg l2 d2 egress where parts:
      "els0 = [Leg access, create_interaction_activity m (Some d1) l1, Leg leg, create_interaction_activity m (Some d2) l2, Leg egress]"
      "network_leg_of (pc_network context) m l l (map_option iv_id (tr_vehicle req)) leg"
  proof (rule network_module_route[OF inv n(1) els0])
  qed (use ends that in auto)
  have inter: "is_interaction (activity_new (Some d) (m @ '' interaction'') l None None (Some 0))" for d l by (rule interaction_is_interaction)
  have inner: "?els \<noteq> []" "\<forall>e\<in>set ?els. \<not> is_main is_interaction e"
    unfolding parts(1) by (auto simp: is_main_def create_interaction_activity_def inter)
  have "\<not> trip_valid context ?els"
  proof
    assume valid: "trip_valid context ?els"
    let ?leg = "leg\<lparr>leg_routing_mode := Some m\<rparr>"
    have "network_leg_of (pc_network context) m l l (map_option iv_id (tr_vehicle req)) ?leg"
      using parts(2) by (simp add: network_leg_of_def)
    then have "legs_are_valid (pc_network context) [?leg] \<noteq> Some True"
      using k by (auto simp: network_leg_of_def network_route_of_def network_route_is_valid_def split: if_splits)
    moreover have "?leg \<in> set (List.map_filter as_leg ?els)"
      unfolding parts(1) by (simp add: List.map_filter_def create_interaction_activity_def)
    ultimately have "legs_are_valid (pc_network context) (List.map_filter as_leg ?els) \<noteq> Some True"
      using legs_are_valid_all by metis
    moreover have trip: "trip_elements (trip_at 0 (length ?els + 1)) (Leg leg # ?els) = Some ?els" by (simp add: trip_elements_def slice_def)
    with valid have "assess_trip context (trip_at 0 (length ?els + 1)) (Leg leg # ?els) = Some (Inr Valid)" by (simp only: trip_valid_def)
    ultimately show False
      using trip by (auto simp: assess_trip_def span_legs_def trip_is_valid_def split: sum.splits if_splits)
  qed
  then show ?thesis using els inner by blast
qed


section \<open>Two persons on the road\<close>

text \<open>They live and work at one place, and their plans have a car trip that is not routed yet.\<close>

definition road_config :: router_config where
  "road_config = \<lparr>rc_teleported_mode_params = [\<lparr>tp_mode = ''walk'', tp_beeline_distance_factor = 1, tp_teleported_mode_speed = 1\<rparr>],
     rc_access_egress_mode = ''walk'', rc_main_modes = [''car'']\<rparr>"

definition road_vehicle :: "person_id \<Rightarrow> internal_vehicle" where
  "road_vehicle i = \<lparr>iv_id = i @ ''_car'', iv_max_v = 10, iv_pce = 1, iv_vehicle_type = ''car'', iv_attributes = Map.empty\<rparr>"

definition road_context :: prepare_for_sim_context where
  "road_context = \<lparr>pc_network = road_net,
     pc_garage = garage_new\<lparr>g_vehicles := [''p_car'' \<mapsto> road_vehicle ''p'', ''q_car'' \<mapsto> road_vehicle ''q'']\<rparr>, pc_config = road_config\<rparr>"

definition road_leg :: internal_leg where
  "road_leg = \<lparr>leg_mode = ''car'', leg_routing_mode = None, leg_dep_time = None, leg_trav_time = None, leg_route = None, leg_attributes = Map.empty\<rparr>"

definition road_plan :: "link_id \<Rightarrow> internal_plan" where
  "road_plan l = plan_default\<lparr>plan_elements :=
     [Activity (activity_new (Some (new_3d 1 9 0)) ''home'' l None (Some 0) None),
      Leg road_leg,
      Activity (activity_new (Some (new_3d 1 9 0)) ''work'' l None None None)]\<rparr>"

definition road_person :: "link_id \<Rightarrow> person_id \<Rightarrow> internal_person" where
  "road_person l i = person_new i (road_plan l)"

definition road_persons :: "link_id \<Rightarrow> population" where
  "road_persons l = [''p'' \<mapsto> road_person l ''p'', ''q'' \<mapsto> road_person l ''q'']"

lemma road_main: "is_main is_interaction (Activity (activity_new c ''home'' l a b d))" "is_main is_interaction (Activity (activity_new c ''work'' l a b d))"
  "\<not> is_main is_interaction (Leg leg)"
  by (simp_all add: is_main_def is_interaction_def activity_new_def str_contains_def upt_rec)

lemma road_spans: "get_trip_spans_default (plan_elements (road_plan l)) = [trip_at 0 2]"
  by (simp add: get_trip_spans_default_def trip_spans_def trip_spans_from_Cons road_plan_def road_main)

lemma road_assess: "assess_trip road_context (trip_at 0 2) (plan_elements (road_plan l)) = Some (Inr (NeedsRouting ''car''))"
proof -
  let ?els = "plan_elements (road_plan l)"
  have "trip_elements (trip_at 0 2) ?els = Some [?els ! 1]" by (simp add: trip_elements_def slice_def road_plan_def)
  then show ?thesis
    by (simp add: assess_trip_def span_legs_def road_plan_def resolve_main_mode_def trip_is_valid_def road_leg_def List.map_filter_def)
qed

lemma road_ends:
  "span_origin (trip_at 0 2) (plan_elements (road_plan l)) = Some (activity_new (Some (new_3d 1 9 0)) ''home'' l None (Some 0) None)"
  "span_destination (trip_at 0 2) (plan_elements (road_plan l)) = Some (activity_new (Some (new_3d 1 9 0)) ''work'' l None None None)"
  by (simp_all add: span_origin_def span_destination_def activity_at_def list_get_def road_plan_def)

lemma road_request_of:
  assumes "i = ''p'' \<or> i = ''q''"
  shows "trip_request_of road_context (road_person l i) (trip_at 0 2) (plan_elements (road_plan l)) ''car'' =
    Some (Inr (road_request l (Some (road_person l i)) (Some (road_vehicle i))))"
proof -
  let ?els = "plan_elements (road_plan l)"
  have "trip_elements (trip_at 0 2) ?els = Some [?els ! 1]" by (simp add: trip_elements_def slice_def road_plan_def)
  then have legs: "span_legs (trip_at 0 2) ?els = Some [road_leg]" by (simp add: span_legs_def road_plan_def List.map_filter_def)
  have vehicle: "vehicle_for_trip road_context (road_person l i) (trip_at 0 2) ?els ''car'' = Some (Inr (Some (road_vehicle i)))"
    unfolding vehicle_for_trip_def legs using assms
    by (auto simp: is_network_mode_def road_context_def road_config_def vehicle_of_leg_def road_leg_def List.map_filter_def
      road_person_def person_new_def)
  show ?thesis
    unfolding trip_request_of_def vehicle
    by (simp add: slice_def road_plan_def decide_on_activity_end_time_def activity_new_def span_origin_def span_destination_def
        activity_at_def list_get_def road_request_def)
qed

lemma road_span: "list_get (get_trip_spans_default (plan_elements (road_plan l))) 0 = Some (trip_at 0 2)"
  by (simp add: road_spans list_get_def)

lemma road_check:
  assumes "i = ''p'' \<or> i = ''q''"
  shows "check_and_adapt_trip sq router road_context (road_person l i) 0 (Borrowed (road_plan l)) =
    (case trip_router_calc_route sq router ''car'' (road_request l (Some (road_person l i)) (Some (road_vehicle i))) of
       None \<Rightarrow> None | Some (Inl e) \<Rightarrow> Some (Inl (Routing e))
     | Some (Inr new) \<Rightarrow> Some (Inr (Owned ((road_plan l)\<lparr>plan_elements :=
         hd (plan_elements (road_plan l)) # new @ [last (plan_elements (road_plan l))]\<rparr>))))"
proof -
  let ?els = "plan_elements (road_plan l)"
  have replace: "replace_trip_elements (trip_at 0 2) ?els new = Some (trip_at 0 (length new + 1), hd ?els # new @ [last ?els])" for new
    by (simp add: replace_trip_elements_def road_plan_def)
  show ?thesis
    by (auto simp: check_and_adapt_trip_def Let_def road_span road_assess road_request_of[OF assms] replace split: option.splits sum.splits)
qed

lemma road_prepare:
  assumes "i = ''p'' \<or> i = ''q''"
  shows "prepare_plan sq router road_context (road_person l i) (road_plan l) =
    (case trip_router_calc_route sq router ''car'' (road_request l (Some (road_person l i)) (Some (road_vehicle i))) of
       None \<Rightarrow> None | Some (Inl e) \<Rightarrow> Some (Inl (0, Routing e))
     | Some (Inr new) \<Rightarrow> Some (Inr (Some ((road_plan l)\<lparr>plan_elements :=
         hd (plan_elements (road_plan l)) # new @ [last (plan_elements (road_plan l))]\<rparr>))))"
proof -
  have "\<not> list_ex (\<lambda>a. act_coord a = None) (plan_acts (road_plan l))"
    by (simp add: plan_acts_def road_plan_def List.map_filter_def activity_new_def)
  then show ?thesis
    by (auto simp: prepare_plan_def road_spans road_check[OF assms] split: option.splits sum.splits)
qed

lemma road_population: "population_inv (road_persons l)" "dom (road_persons l) = {''p'', ''q''}"
  by (auto simp: population_inv_def road_persons_def road_person_def person_new_def split: if_splits)

lemma road_results:
  assumes "\<And>i. i = ''p'' \<or> i = ''q'' \<Longrightarrow> trip_router_calc_route sq router ''car'' (road_request l (Some (road_person l i)) (Some (road_vehicle i))) \<noteq> None"
  obtains persons' r where "prepare_for_sim sorted_list_of_set sq router road_context (road_persons l) = Some (persons', r)"
proof -
  have "person_result sq router road_context (road_persons l) i \<noteq> None" if "i \<in> dom (road_persons l)" for i
  proof -
    have i: "i = ''p'' \<or> i = ''q''" using that road_population(2)[of l] by auto
    have "prepare_plan sq router road_context (road_person l i) (road_plan l) \<noteq> None"
      using assms[OF i] by (auto simp: road_prepare[OF i] split: option.splits sum.splits)
    moreover have "road_persons l i = Some (road_person l i)" "person_plans (road_person l i) = [road_plan l]"
      using i by (auto simp: road_persons_def road_person_def person_new_def)
    ultimately show ?thesis by (auto simp: person_result_def prepare_person_def)
  qed
  then show thesis
    using prepare_for_sim_total[OF sorted_order.hash_order_axioms, of "road_persons l"] road_population(2)[of l] that by (metis finite.simps)
qed

lemma reverse_order: "hash_order (\<lambda>S :: string set. rev (sorted_list_of_set S))"
  by unfold_locales simp_all

theorem preparation_deterministic_witness:
  "\<exists>persons' r. prepare_for_sim sorted_list_of_set abs Map.empty road_context (road_persons 0) = Some (persons', r) \<and>
     prepare_for_sim (\<lambda>S. rev (sorted_list_of_set S)) abs Map.empty road_context (road_persons 0) = Some (persons', r)"
proof -
  obtain persons' r where prep: "prepare_for_sim sorted_list_of_set abs Map.empty road_context (road_persons 0) = Some (persons', r)"
    by (rule road_results[of abs Map.empty 0]) (simp add: trip_router_calc_route_def)
  show ?thesis
    using preparation_deterministic[OF sorted_order.hash_order_axioms reverse_order road_population(1) prep] prep by blast
qed

lemma road_setup:
  obtains router r where "routing_setup abs list_queue (\<lambda>_ _. []) road_context router" and "router ''car'' = Some (road_module r)"
proof -
  obtain g where g: "convert_network_for_mode road_net (Some ''car'') = Some g" by (rule convert_view[OF road_inv])
  then obtain r where r: "a_star_new list_queue (\<lambda>_ _. []) Alt road_net (Some ''car'') FreeSpeedTravelTimeAndDisutility = Some (Inr r)"
    by (simp add: a_star_new_def a_star_with_graph_def landmark_data_from_graph_def choose_landmarks_def calc_all_disutilities_def Let_def)
  let ?router = "(teleported_modules road_config)(''car'' \<mapsto> road_module r)"
  have tele: "teleported_modules road_config ''walk'' = Some (TeleportationRoutingModule ''walk'' 1 1)"
    by (simp add: teleported_modules_def road_config_def)
  have cfg: "rc_access_egress_mode road_config = ''walk''" "rc_main_modes road_config = [''car'']"
    "rc_teleported_mode_params road_config = [\<lparr>tp_mode = ''walk'', tp_beeline_distance_factor = 1, tp_teleported_mode_speed = 1\<rparr>]"
    by (simp_all add: road_config_def)
  have "create_trip_router list_queue (\<lambda>_ _. []) road_config road_net = Some (Inr ?router)"
    by (simp add: create_trip_router_def add_network_router_def cfg(1,2) tele r road_module_def)
  moreover have "nonneg_lengths road_net" by (simp add: nonneg_lengths_def road_net_def ex_link_def link_new_def)
  ultimately have "routing_setup abs list_queue (\<lambda>_ _. []) road_context ?router"
    using road_inv cfg by (simp add: routing_setup_def road_context_def)
  then show thesis using that by simp
qed

text \<open>With the router of the configuration no issue is reported, on the road and on the link for bikes.\<close>

lemma road_ready:
  assumes car: "router ''car'' = Some (road_module r)" and l: "l = 0 \<or> l = 5"
  obtains persons' where "prepare_for_sim sorted_list_of_set abs router road_context (road_persons l) = Some (persons', Inr ())"
proof -
  have route: "\<exists>els. trip_router_calc_route abs router ''car'' (road_request l p v) = Some (Inr els)" for p v
    using road_trip[where modules = router and r = r and l = l, OF car l] by blast
  obtain persons' o' where prep: "prepare_for_sim sorted_list_of_set abs router road_context (road_persons l) = Some (persons', o')"
    by (rule road_results[of abs router l]) (metis route option.distinct(1))
  have fin: "finite (dom (road_persons l))" by (simp add: road_population)
  have "snd (the (person_result abs router road_context (road_persons l) i)) = []" if "i = ''p'' \<or> i = ''q''" for i
  proof -
    obtain els where "trip_router_calc_route abs router ''car'' (road_request l (Some (road_person l i)) (Some (road_vehicle i))) = Some (Inr els)"
      using route by blast
    moreover have "road_persons l i = Some (road_person l i)" "person_plans (road_person l i) = [road_plan l]"
      using that by (auto simp: road_persons_def road_person_def person_new_def)
    ultimately show ?thesis by (simp add: person_result_def prepare_person_def road_prepare[OF that] plan_issue_def)
  qed
  then have "concat (map (\<lambda>i. snd (the (person_result abs router road_context (road_persons l) i))) (sorted_list_of_set (dom (road_persons l)))) = []"
    unfolding concat_eq_Nil_conv using fin by (auto simp: road_population(2))
  then have "o' = Inr ()" using prepare_for_sim_result[OF sorted_order.hash_order_axioms fin prep] unfolding Let_def by presburger
  then show thesis using prep that by blast
qed

theorem preparation_succeeds_for_good_witness:
  "\<exists>router persons' p'. prepare_for_sim sorted_list_of_set abs router road_context (road_persons 0) = Some (persons', Inr ()) \<and>
     persons' ''p'' = Some p' \<and> (\<forall>pl\<in>set (person_plans p'). prepared road_context pl)"
proof -
  obtain router r where rs: "routing_setup abs list_queue (\<lambda>_ _. []) road_context router" and car: "router ''car'' = Some (road_module r)"
    by (rule road_setup)
  obtain persons' where ready: "prepare_for_sim sorted_list_of_set abs router road_context (road_persons 0) = Some (persons', Inr ())"
    by (rule road_ready[where router = router and r = r and l = 0, OF car]) simp
  have fin: "finite (dom (road_persons 0))" by (simp add: road_population)
  have "links_allowed road_context (plan_elements (road_plan 0))"
    by (simp add: links_allowed_def road_plan_def road_main allows_modes_def road_context_def road_net_def get_link_def ex_link_def
        contains_mode_def link_new_def activity_new_def)
  then have links: "\<forall>p\<in>ran (road_persons 0). \<forall>pl\<in>set (person_plans p). links_allowed road_context (plan_elements pl)"
    by (auto simp: ran_def road_persons_def road_person_def person_new_def split: if_splits)
  have p: "road_persons 0 ''p'' = Some (road_person 0 ''p'')" by (simp add: road_persons_def)
  show ?thesis
    using preparation_succeeds_for_good[OF rs sorted_order.hash_order_axioms fin links ready] p ready by blast
qed


end
