(* ===== verification/Controller.thy ===== *)
theory Controller
  imports Event_Files Population Prepare_For_Sim
begin

text \<open>
  The controller (\<open>controller/controller.rs\<close>, \<open>controller/mod.rs\<close>): the collection of the results of
  the workers, and the iterations of preparation, simulation, scoring and replanning with their
  events and output files. The workers of the partitions are threads; their results arrive in any
  order.
\<close>

section \<open>The pool of workers\<close>

type_synonym worker_result = "nat \<times> nat \<times> agent list"

text \<open>
  \<open>MobsimWorkerPool::run_mobsim\<close>. \<open>split_for_mobsim\<close> gives the input at position \<open>k\<close> the rank \<open>k\<close>; it is
  sent to the worker of that rank, and the workers have the ranks below \<open>parts\<close>. \<open>arrivals\<close> are the
  rank, the iteration and the agents of each result, in the order in which they arrive.
\<close>

definition send_command :: "nat \<Rightarrow> nat \<times> population \<Rightarrow> unit option" where
  "send_command parts input = ensure (fst input < parts)"

definition receive_result :: "nat \<Rightarrow> worker_result \<Rightarrow> (nat \<rightharpoonup> agent list) \<Rightarrow> (nat \<rightharpoonup> agent list) option" where
  "receive_result iteration result results = (case result of (rank, it, agents) \<Rightarrow> do {
     _ \<leftarrow> ensure (it = iteration);
     _ \<leftarrow> ensure (results rank = None);
     Some (results(rank \<mapsto> agents)) })"

definition take_result :: "nat \<Rightarrow> agent list \<times> (nat \<rightharpoonup> agent list) \<Rightarrow> (agent list \<times> (nat \<rightharpoonup> agent list)) option" where
  "take_result rank s = (case s of (agents, results) \<Rightarrow> do {
     as \<leftarrow> results rank;
     Some (agents @ as, results(rank := None)) })"

definition run_mobsim :: "nat \<Rightarrow> nat \<Rightarrow> population list \<Rightarrow> worker_result list \<Rightarrow> agent list option" where
  "run_mobsim parts iteration inputs arrivals = do {
     _ \<leftarrow> ensure (length inputs = parts);
     _ \<leftarrow> mapM (send_command parts) (enumerate 0 inputs);
     _ \<leftarrow> ensure (parts \<le> length arrivals);
     results \<leftarrow> foldM (receive_result iteration) (take parts arrivals) Map.empty;
     (agents, _) \<leftarrow> foldM take_result [0..<parts] ([], results);
     Some agents }"

section \<open>The controller\<close>

datatype controller_event =
    Startup bool
  | IterationStarts bool
  | BeforeMobsim bool
  | AfterMobsim bool
  | Scoring bool
  | ReplanningStarts bool
  | IterationEnds bool
  | Shutdown bool

record controller =
  ctl_config :: config
  ctl_network :: network
  ctl_population :: population
  ctl_events_state :: event_runtime_state
  ctl_events :: "controller_event runtime_event list"
  ctl_files :: file_system

definition ctl_process_event :: "controller_event \<Rightarrow> controller \<Rightarrow> controller" where
  "ctl_process_event e c = (let (ev, st) = wrap e (ctl_events_state c)
     in c\<lparr>ctl_events_state := st, ctl_events := ctl_events c @ [ev]\<rparr>)"

text \<open>The phases of an iteration, as the controller calls them.\<close>

record phases =
  ph_prepare :: "population \<Rightarrow> (population \<times> (prepare_for_sim_issue list + unit)) option"
  ph_split :: "population \<Rightarrow> (population list \<times> population) option"
  ph_mobsim :: "nat \<Rightarrow> bool \<Rightarrow> population list \<Rightarrow> agent list option"
  ph_replan :: "population \<Rightarrow> nat \<Rightarrow> population option"

definition run_mobsim_phase :: "phases \<Rightarrow> nat \<Rightarrow> bool \<Rightarrow> controller \<Rightarrow> (population \<times> controller) option" where
  "run_mobsim_phase ph iteration is_last c = (let c = ctl_process_event (BeforeMobsim is_last) c in do {
     (prepared, outcome) \<leftarrow> ph_prepare ph (ctl_population c);
     _ \<leftarrow> ensure (outcome = Inr ());
     (inputs, rest) \<leftarrow> ph_split ph prepared;
     agents \<leftarrow> ph_mobsim ph iteration is_last inputs;
     Some (from_agents agents, ctl_process_event (AfterMobsim is_last) (c\<lparr>ctl_population := rest\<rparr>)) })"

definition run_scoring_phase :: "bool \<Rightarrow> population \<Rightarrow> controller \<Rightarrow> population \<times> controller" where
  "run_scoring_phase is_last population c = (population, ctl_process_event (Scoring is_last) c)"

definition run_replanning_phase :: "phases \<Rightarrow> nat \<Rightarrow> population \<Rightarrow> controller \<Rightarrow> (population \<times> controller) option" where
  "run_replanning_phase ph iteration population c = (let c = ctl_process_event (ReplanningStarts False) c in do {
     population \<leftarrow> ph_replan ph population iteration;
     Some (population, c) })"

definition should_write_iteration_plans :: "controller_config \<Rightarrow> nat \<Rightarrow> bool \<Rightarrow> bool" where
  "should_write_iteration_plans cc iteration is_last \<longleftrightarrow>
     is_last \<or> (iteration \<noteq> 0 \<and> iteration mod cc_write_plans_interval cc = 0)"

text \<open>The writers of populations, networks and ids create the directory of the file.\<close>

definition write_output :: "path \<Rightarrow> file_content \<Rightarrow> controller \<Rightarrow> controller option" where
  "write_output p x c = do {
     fs \<leftarrow> create_dir_all (butlast p) (ctl_files c);
     fs \<leftarrow> write_file p x fs;
     Some (c\<lparr>ctl_files := fs\<rparr>) }"

definition iteration_plans_path :: "controller_config \<Rightarrow> path \<Rightarrow> nat \<Rightarrow> path" where
  "iteration_plans_path cc iters_path iteration =
     iters_path @ [''it.'' @ show_nat iteration, with_extension (cc_compression_type cc) ''output_plans'']"

definition write_iteration_files :: "controller_config \<Rightarrow> nat \<Rightarrow> path \<Rightarrow> population \<Rightarrow> controller \<Rightarrow> controller option" where
  "write_iteration_files cc iteration iters_path population c =
     write_output (iteration_plans_path cc iters_path iteration) (PlansFile population) c"

definition run_iteration :: "phases \<Rightarrow> controller_config \<Rightarrow> path \<Rightarrow> nat \<Rightarrow> nat \<Rightarrow> controller \<Rightarrow> controller option" where
  "run_iteration ph cc iters_path end_iter iteration c = (let is_last = (iteration = end_iter) in do {
     (population, c) \<leftarrow> run_mobsim_phase ph iteration is_last (ctl_process_event (IterationStarts is_last) c);
     (population, c) \<leftarrow> Some (run_scoring_phase is_last population c);
     c \<leftarrow> (if should_write_iteration_plans cc iteration is_last
           then write_iteration_files cc iteration iters_path population c else Some c);
     (population, c) \<leftarrow> (if is_last then Some (population, c) else run_replanning_phase ph iteration population c);
     current \<leftarrow> replace_population population (ctl_population c);
     Some (ctl_process_event (IterationEnds is_last) (c\<lparr>ctl_population := current\<rparr>)) })"

definition write_outputs :: "controller_config \<Rightarrow> path \<Rightarrow> controller \<Rightarrow> controller option" where
  "write_outputs cc out_path c = do {
     c \<leftarrow> (if is_protobuf (cc_compression_type cc) then write_output (out_path @ [''output_ids.binpb'']) IdFile c else Some c);
     c \<leftarrow> do { fs \<leftarrow> write_file (out_path @ [''output_config.yml'']) (ConfigFile (ctl_config c)) (ctl_files c);
               Some (c\<lparr>ctl_files := fs\<rparr>) };
     net_path \<leftarrow> create_output_filename out_path [with_extension (cc_compression_type cc) ''output_network''];
     c \<leftarrow> write_output net_path (NetworkFile (ctl_network c)) c;
     pop_path \<leftarrow> create_output_filename out_path [with_extension (cc_compression_type cc) ''output_plans''];
     write_output pop_path (PlansFile (ctl_population c)) c }"

text \<open>\<open>Controller::run\<close>; starting and joining the threads of workers and adapters is left out.\<close>

definition controller_run :: "phases \<Rightarrow> controller \<Rightarrow> controller option" where
  "controller_run ph c = do {
     cc \<leftarrow> cfg_controller (ctl_config c);
     out \<leftarrow> cfg_output (ctl_config c);
     (let first_iteration = cc_first_iteration cc; last_iteration = cc_last_iteration cc in do {
        _ \<leftarrow> ensure (first_iteration \<le> last_iteration);
        _ \<leftarrow> ensure (write_events out = NoEvents \<or> 0 < cc_write_events_interval cc);
        _ \<leftarrow> ensure (0 < cc_write_plans_interval cc);
        c \<leftarrow> Some (ctl_process_event (Startup (first_iteration = last_iteration))
               (c\<lparr>ctl_events_state := state_reset_iteration first_iteration (ctl_events_state c)\<rparr>));
        (let out_path = resolve_path (cfg_context (ctl_config c)) (output_dir out);
             iters_path = out_path @ [''ITERS''] in do {
           fs \<leftarrow> (case prepare_output_directory out_path (overwrite_files out) (ctl_files c) of Inl _ \<Rightarrow> None | Inr fs \<Rightarrow> Some fs);
           fs \<leftarrow> create_dir_all iters_path fs;
           fs \<leftarrow> (if logging out = LoggingInfo then create_dir_all (out_path @ [''logs'']) fs else Some fs);
           c \<leftarrow> foldM (run_iteration ph cc iters_path last_iteration) [first_iteration..<Suc last_iteration] (c\<lparr>ctl_files := fs\<rparr>);
           c \<leftarrow> write_outputs cc out_path c;
           Some (ctl_process_event (Shutdown True) c) }) }) }"

text \<open>\<open>ControllerBuilder::build\<close>: the trip router of the configuration.\<close>

definition router_config_of :: "config \<Rightarrow> router_config option" where
  "router_config_of config = do {
     r \<leftarrow> cfg_routing config;
     q \<leftarrow> cfg_qsim config;
     Some \<lparr>rc_teleported_mode_params = rt_teleported_mode_params r, rc_access_egress_mode = rt_access_egress_mode r,
           rc_main_modes = qc_main_modes q\<rparr> }"

definition controller_build :: "'q queue_ops \<Rightarrow> (nat \<Rightarrow> nat \<Rightarrow> nat list) \<Rightarrow> config \<Rightarrow> network \<Rightarrow> population \<Rightarrow> file_system \<Rightarrow>
    (create_router_error + controller \<times> trip_router) option" where
  "controller_build Q pick config net persons fs = do {
     rc \<leftarrow> router_config_of config;
     r \<leftarrow> create_trip_router Q pick rc net;
     Some (case r of Inl e \<Rightarrow> Inl e
       | Inr router \<Rightarrow> Inr (\<lparr>ctl_config = config, ctl_network = net, ctl_population = persons,
           ctl_events_state = runtime_state_new Controller 0, ctl_events = [], ctl_files = fs\<rparr>, router)) }"

section \<open>The results of the workers\<close>

lemma receive_results:
  assumes "distinct (map fst xs)" and "\<forall>x\<in>set xs. fst (snd x) = it" and "fst ` set xs \<inter> dom m = {}"
  shows "foldM (receive_result it) xs m = Some (m ++ map_of (map (\<lambda>x. (fst x, snd (snd x))) xs))"
  using assms
proof (induction xs arbitrary: m)
  case (Cons x xs)
  obtain r i a where x: "x = (r, i, a)" by (cases x) auto
  have m: "m r = None" "i = it" using Cons.prems x by auto
  have "foldM (receive_result it) xs (m(r \<mapsto> a)) = Some (m(r \<mapsto> a) ++ map_of (map (\<lambda>x. (fst x, snd (snd x))) xs))"
  proof (rule Cons.IH)
    have "r \<notin> fst ` set xs" using Cons.prems(1) x by simp
    then show "fst ` set xs \<inter> dom (m(r \<mapsto> a)) = {}" using Cons.prems(3) by (simp add: disjoint_iff)
  qed (use Cons.prems x in auto)
  moreover have "m(r \<mapsto> a) ++ map_of (map (\<lambda>x. (fst x, snd (snd x))) xs) = m ++ map_of (map (\<lambda>x. (fst x, snd (snd x))) (x # xs))"
  proof -
    have "r \<notin> dom (map_of (map (\<lambda>x. (fst x, snd (snd x))) xs))" using Cons.prems(1) x by (simp add: dom_map_of_conv_image_fst image_image)
    then show ?thesis by (simp add: map_add_upd_left x)
  qed
  moreover have "receive_result it x m = Some (m(r \<mapsto> a))" by (simp add: x m receive_result_def)
  ultimately show ?case by (simp del: map_of.simps list.map)
qed simp

lemma take_results:
  "\<forall>r\<in>set rs. results r = Some (f r) \<Longrightarrow> distinct rs \<Longrightarrow>
     \<exists>rest. foldM take_result rs (as, results) = Some (as @ concat (map f rs), rest)"
proof (induction rs arbitrary: as results)
  case (Cons r rs)
  have "\<forall>q\<in>set rs. (results(r := None)) q = Some (f q)" using Cons.prems by auto
  then obtain rest where "foldM take_result rs (as @ f r, results(r := None)) = Some ((as @ f r) @ concat (map f rs), rest)"
    using Cons.IH Cons.prems(2) by (meson distinct.simps(2))
  moreover have "take_result r (as, results) = Some (as @ f r, results(r := None))"
    using Cons.prems(1) by (simp add: take_result_def)
  ultimately show ?case by simp
qed simp

lemma send_commands: "length inputs = parts \<Longrightarrow> mapM (send_command parts) (enumerate 0 inputs) = Some (replicate parts ())"
  using mapM_const[of "enumerate 0 inputs" "send_command parts" "()"] by (auto simp: send_command_def in_set_enumerate_eq)

text \<open>
  C35. In whatever order the results of the workers arrive, the pool returns the agents in the order
  of the ranks.
\<close>

theorem run_mobsim_deterministic:
  assumes "mset arrivals = mset (map (\<lambda>r. (r, it, f r)) [0..<parts])" and "length inputs = parts"
  shows "run_mobsim parts it inputs arrivals = Some (concat (map f [0..<parts]))"
proof -
  let ?sent = "map (\<lambda>r. (r, it, f r)) [0..<parts]"
  have len: "length arrivals = parts" using arg_cong[OF assms(1), of size] by simp
  have set: "set arrivals = set ?sent" using assms(1) by (rule mset_eq_setD)
  have "mset (map fst arrivals) = mset (map fst ?sent)" using assms(1) by (metis mset_map)
  then have "mset (map fst arrivals) = mset [0..<parts]" by (simp add: comp_def)
  then have dist: "distinct (map fst arrivals)" by (metis distinct_upt mset_eq_imp_distinct_iff)
  let ?m = "map_of (map (\<lambda>x. (fst x, snd (snd x))) arrivals)"
  have recv: "foldM (receive_result it) arrivals Map.empty = Some ?m"
    by (subst receive_results[OF dist]) (auto simp: set)
  have "?m r = Some (f r)" if "r < parts" for r
  proof (rule map_of_is_SomeI)
    show "distinct (map fst (map (\<lambda>x. (fst x, snd (snd x))) arrivals))" using dist by (simp add: comp_def)
    have "(r, it, f r) \<in> set arrivals" unfolding set using that by simp
    then show "(r, f r) \<in> set (map (\<lambda>x. (fst x, snd (snd x))) arrivals)" by force
  qed
  then obtain rest where "foldM take_result [0..<parts] ([], ?m) = Some ([] @ concat (map f [0..<parts]), rest)"
    using take_results[of "[0..<parts]" ?m f "[]"] by auto
  then show ?thesis using recv assms(2) len send_commands[OF assms(2)] by (simp add: run_mobsim_def)
qed

lemma run_mobsim_deterministic_witness:
  "run_mobsim 2 7 [Map.empty, Map.empty] [(1, 7, [PlanBased ex_logic]), (0, 7, [])] = Some [PlanBased ex_logic]"
  using run_mobsim_deterministic[of "[(1, 7, [PlanBased ex_logic]), (0, 7, [])]" 7 "\<lambda>r. if r = 1 then [PlanBased ex_logic] else []" 2
      "[Map.empty, Map.empty]"] by (simp add: numeral_2_eq_2)

section \<open>The events of the controller\<close>

definition stamped :: "event_runtime_state \<Rightarrow> 'e list \<Rightarrow> 'e runtime_event list" where
  "stamped st es = map2 (\<lambda>k e. \<lparr>meta_origin = ers_origin st, meta_iteration = ers_iteration st,
     meta_seq_no = next_seq_no st + k, payload = e\<rparr>) [0..<length es] es"

definition after_events :: "nat \<Rightarrow> event_runtime_state \<Rightarrow> event_runtime_state" where
  "after_events n st = st\<lparr>next_seq_no := next_seq_no st + n\<rparr>"

text \<open>From \<open>c\<close> to \<open>c'\<close> the controller has published exactly these events.\<close>

definition published :: "controller_event list \<Rightarrow> controller \<Rightarrow> controller \<Rightarrow> bool" where
  "published es c c' \<longleftrightarrow> ctl_events c' = ctl_events c @ stamped (ctl_events_state c) es \<and>
     ctl_events_state c' = after_events (length es) (ctl_events_state c) \<and>
     ctl_config c' = ctl_config c \<and> ctl_network c' = ctl_network c"

lemma stamped_append: "stamped st (xs @ ys) = stamped st xs @ stamped (after_events (length xs) st) ys"
proof -
  have "[0..<length xs + length ys] = [0..<length xs] @ map (\<lambda>k. length xs + k) [0..<length ys]"
    using upt_add_eq_append[of 0 "length xs" "length ys"] map_add_upt[of "length xs" "length ys"] by (simp add: add.commute)
  then show ?thesis unfolding stamped_def length_append by (simp add: after_events_def zip_map1 add.assoc split_def)
qed

lemma stamped_payload: "map payload (stamped st es) = es"
  by (simp add: stamped_def split_def comp_def map_snd_zip)

lemma published_trans: "published es c c1 \<Longrightarrow> published es' c1 c' \<Longrightarrow> published (es @ es') c c'"
  by (simp add: published_def stamped_append) (simp add: after_events_def)

lemma published_none: "published [] c c' \<longleftrightarrow> ctl_events c' = ctl_events c \<and> ctl_events_state c' = ctl_events_state c \<and>
    ctl_config c' = ctl_config c \<and> ctl_network c' = ctl_network c"
  by (simp add: published_def stamped_def after_events_def)

lemma published_event: "published [e] c (ctl_process_event e c)"
  by (simp add: published_def ctl_process_event_def wrap_def stamped_def after_events_def)

definition iteration_events :: "nat \<Rightarrow> nat \<Rightarrow> controller_event list" where
  "iteration_events last_iteration iteration = (let l = (iteration = last_iteration) in
     [IterationStarts l, BeforeMobsim l, AfterMobsim l, Scoring l] @ (if l then [] else [ReplanningStarts False]) @ [IterationEnds l])"

lemma run_iteration_published:
  assumes "run_iteration ph cc iters end_iter it c = Some c'"
  shows "published (iteration_events end_iter it) c c'"
proof -
  let ?l = "it = end_iter"
  obtain p1 c1 c2 p3 c3 current where mob: "run_mobsim_phase ph it ?l (ctl_process_event (IterationStarts ?l) c) = Some (p1, c1)"
    and plans: "(if should_write_iteration_plans cc it ?l
        then write_iteration_files cc it iters p1 (ctl_process_event (Scoring ?l) c1) else Some (ctl_process_event (Scoring ?l) c1)) = Some c2"
    and rep: "(if ?l then Some (p1, c2) else run_replanning_phase ph it p1 c2) = Some (p3, c3)"
    and c': "c' = ctl_process_event (IterationEnds ?l) (c3\<lparr>ctl_population := current\<rparr>)"
    using assms by (auto simp: run_iteration_def run_scoring_phase_def Let_def simp del: if_split_asm)
  have a: "published [IterationStarts ?l] c (ctl_process_event (IterationStarts ?l) c)" by (rule published_event)
  obtain rest where c1: "c1 = ctl_process_event (AfterMobsim ?l)
      ((ctl_process_event (BeforeMobsim ?l) (ctl_process_event (IterationStarts ?l) c))\<lparr>ctl_population := rest\<rparr>)"
    using mob by (auto simp: run_mobsim_phase_def Let_def)
  have pop: "published es d (x\<lparr>ctl_population := q\<rparr>) \<longleftrightarrow> published es d x"
    "published es (x\<lparr>ctl_population := q\<rparr>) d \<longleftrightarrow> published es x d"
    "published es d (x\<lparr>ctl_files := fs\<rparr>) \<longleftrightarrow> published es d x"
    for es d x q fs by (simp_all add: published_def)
  have b: "published [BeforeMobsim ?l, AfterMobsim ?l] (ctl_process_event (IterationStarts ?l) c) c1"
    using published_trans[OF published_event published_event[of "AfterMobsim ?l",
        where c = "(ctl_process_event (BeforeMobsim ?l) (ctl_process_event (IterationStarts ?l) c))\<lparr>ctl_population := rest\<rparr>", unfolded pop]] c1
    by simp
  have s: "published [Scoring ?l] c1 c2"
    using plans published_event[of "Scoring ?l" c1]
    by (auto simp: write_iteration_files_def write_output_def pop split: if_splits)
  have r: "published (if ?l then [] else [ReplanningStarts False]) c2 c3"
    using rep published_event[of "ReplanningStarts False" c2]
    by (auto simp: run_replanning_phase_def Let_def published_none split: if_splits)
  have e: "published [IterationEnds ?l] c3 c'" using published_event[of _ "c3\<lparr>ctl_population := current\<rparr>"] c' by (simp add: pop)
  from published_trans[OF published_trans[OF published_trans[OF published_trans[OF a b] s] r] e] show ?thesis
    by (simp add: iteration_events_def Let_def)
qed

lemma run_iterations_published:
  "foldM (run_iteration ph cc iters end_iter) its c = Some c' \<Longrightarrow> published (concat (map (iteration_events end_iter) its)) c c'"
proof (induction its arbitrary: c)
  case (Cons it its)
  then obtain c1 where c1: "run_iteration ph cc iters end_iter it c = Some c1"
    and rest: "foldM (run_iteration ph cc iters end_iter) its c1 = Some c'" by auto
  show ?case using published_trans[OF run_iteration_published[OF c1] Cons.IH[OF rest]] by simp
qed (simp add: published_none)

lemma write_output_published: "write_output p x c = Some c' \<Longrightarrow> published [] c c'"
  by (auto simp: write_output_def published_none)

lemma write_outputs_published:
  assumes "write_outputs cc out_path c = Some c'"
  shows "published [] c c'" and "ctl_population c' = ctl_population c"
proof -
  obtain c1 c2 c3 fs net_path pop_path where c1: "(if is_protobuf (cc_compression_type cc)
        then write_output (out_path @ [''output_ids.binpb'']) IdFile c else Some c) = Some c1"
    and c2: "Some (c1\<lparr>ctl_files := fs\<rparr>) = Some c2"
    and c3: "write_output net_path (NetworkFile (ctl_network c2)) c2 = Some c3"
    and c': "write_output pop_path (PlansFile (ctl_population c3)) c3 = Some c'"
    using assms unfolding write_outputs_def by (elim bind_SomeE) blast
  have "published [] c c1" using c1 write_output_published by (auto simp: published_none split: if_splits)
  moreover have "published [] c1 c2" using c2 by (auto simp: published_none)
  moreover have "published [] c2 c3" "published [] c3 c'" by (rule write_output_published[OF c3], rule write_output_published[OF c'])
  ultimately show "published [] c c'" by (simp add: published_none)
  show "ctl_population c' = ctl_population c"
    using c1 c2 c3 c' by (auto simp: write_output_def split: if_splits)
qed

text \<open>What a run that returns has done, step by step.\<close>

lemma controller_run_cases:
  assumes "controller_run ph c = Some c'" and "cfg_controller (ctl_config c) = Some cc"
  obtains out fs c1 c2 where "cfg_output (ctl_config c) = Some out" and "cc_first_iteration cc \<le> cc_last_iteration cc"
    and "0 < cc_write_plans_interval cc"
    and "foldM (run_iteration ph cc (resolve_path (cfg_context (ctl_config c)) (output_dir out) @ [''ITERS'']) (cc_last_iteration cc))
      [cc_first_iteration cc..<Suc (cc_last_iteration cc)]
      ((ctl_process_event (Startup (cc_first_iteration cc = cc_last_iteration cc))
         (c\<lparr>ctl_events_state := state_reset_iteration (cc_first_iteration cc) (ctl_events_state c)\<rparr>))\<lparr>ctl_files := fs\<rparr>) = Some c1"
    and "write_outputs cc (resolve_path (cfg_context (ctl_config c)) (output_dir out)) c1 = Some c2"
    and "c' = ctl_process_event (Shutdown True) c2"
proof -
  have conf: "ctl_config (ctl_process_event e d) = ctl_config d" for e d using published_event by (simp add: published_def)
  show thesis
    using assms unfolding controller_run_def Let_def
    apply (elim bind_SomeE)
    apply (simp only: option.inject controller.simps)
    subgoal for _ out _ _ _ _ _ _ fs c1 c2
      by (rule that[of out fs c1 c2]) (auto simp: conf)
    done
qed

text \<open>
  C34. A run of the controller publishes exactly the events of its phases in order, with sequence
  numbers that count up through the whole run; every event carries the number of the first
  iteration.
\<close>

theorem controller_events:
  assumes "controller_run ph c = Some c'" and "cfg_controller (ctl_config c) = Some cc" and "ctl_events c = []"
  shows "ctl_events c' = stamped (state_reset_iteration (cc_first_iteration cc) (ctl_events_state c))
     (Startup (cc_first_iteration cc = cc_last_iteration cc) #
      concat (map (iteration_events (cc_last_iteration cc)) [cc_first_iteration cc..<Suc (cc_last_iteration cc)]) @ [Shutdown True]) \<and>
    (\<forall>e\<in>set (ctl_events c'). meta_iteration e = cc_first_iteration cc)"
proof -
  let ?st = "state_reset_iteration (cc_first_iteration cc) (ctl_events_state c)"
  let ?c = "c\<lparr>ctl_events_state := ?st\<rparr>"
  let ?start = "Startup (cc_first_iteration cc = cc_last_iteration cc)"
  obtain fs c1 c2 iters out_path where loop: "foldM (run_iteration ph cc iters (cc_last_iteration cc))
      [cc_first_iteration cc..<Suc (cc_last_iteration cc)] ((ctl_process_event ?start ?c)\<lparr>ctl_files := fs\<rparr>) = Some c1"
    and out: "write_outputs cc out_path c1 = Some c2" and c': "c' = ctl_process_event (Shutdown True) c2"
    by (rule controller_run_cases[OF assms(1,2)]) blast
  let ?its = "concat (map (iteration_events (cc_last_iteration cc)) [cc_first_iteration cc..<Suc (cc_last_iteration cc)])"
  have "published [?start] ?c ((ctl_process_event ?start ?c)\<lparr>ctl_files := fs\<rparr>)"
    using published_event[of ?start ?c] by (simp add: published_def)
  from published_trans[OF published_trans[OF published_trans[OF this run_iterations_published[OF loop]]
        write_outputs_published(1)[OF out]] published_event[of "Shutdown True"]]
  have "published (?start # ?its @ [Shutdown True]) ?c c'" by (simp add: c')
  then have ev: "ctl_events c' = stamped ?st (?start # ?its @ [Shutdown True])"
    unfolding published_def using assms(3) by simp
  moreover have "meta_iteration e = cc_first_iteration cc" if "e \<in> set (stamped ?st es)" for e es
    using that by (auto simp: stamped_def state_reset_iteration_def dest!: set_zip_leftD)
  ultimately show ?thesis by metis
qed

end
