(* ===== verification/Activity_Engine.thy ===== *)
theory Activity_Engine
  imports Agents Time_Queue
begin

text \<open>
  The engine that performs activities (\<open>engines/activity_engine.rs\<close>). An agent that starts an
  activity sleeps in a time queue until its wake-up time; then it is awake, is told so in every
  tick, and leaves the engine when its activity ends.

  The environment is shared by all engines of a partition, so it is threaded through the calls.
\<close>

section \<open>Data\<close>

record asleep_agent =
  as_agent :: agent
  as_wakeup_time :: sim_time
  as_begin_time :: sim_time

record awake_agent =
  aw_agent :: agent
  aw_begin_time :: sim_time

record activity_engine =
  ae_asleep_q :: "asleep_agent time_queue"
  ae_awake_q :: "awake_agent list"
  ae_clock :: sim_clock

definition asleep_build :: "agent \<Rightarrow> sim_time \<Rightarrow> asleep_agent option" where
  "asleep_build a now = do {
     w \<leftarrow> agent_wakeup_time a now;
     Some \<lparr>as_agent = a, as_wakeup_time = w, as_begin_time = now\<rparr> }"

definition asleep_end_time :: "asleep_agent \<Rightarrow> sim_time \<Rightarrow> sim_time" where
  "asleep_end_time a now = as_wakeup_time a"

definition awake_from :: "asleep_agent \<Rightarrow> awake_agent" where
  "awake_from a = \<lparr>aw_agent = as_agent a, aw_begin_time = as_begin_time a\<rparr>"

definition awake_end_time :: "awake_agent \<Rightarrow> sim_time option" where
  "awake_end_time a = agent_end_time (aw_agent a) (aw_begin_time a)"

section \<open>Operations\<close>

definition ae_build :: "agent list \<Rightarrow> sim_clock \<Rightarrow> nat \<Rightarrow> activity_engine option" where
  "ae_build agents clock start_time = do {
     now \<leftarrow> secs_to_tick clock start_time;
     t \<leftarrow> tick_to_time clock now;
     q \<leftarrow> foldM (\<lambda>a q. do { s \<leftarrow> asleep_build a t; Some (tq_add asleep_end_time s t q) }) agents tq_new;
     Some \<lparr>ae_asleep_q = q, ae_awake_q = [], ae_clock = clock\<rparr> }"

definition ae_drain :: "activity_engine \<Rightarrow> agent list \<times> activity_engine" where
  "ae_drain e = (let (asleep, q) = tq_drain (ae_asleep_q e)
     in (map aw_agent (ae_awake_q e) @ map as_agent asleep, e\<lparr>ae_asleep_q := q, ae_awake_q := []\<rparr>))"

definition ae_receive_agent :: "tick \<Rightarrow> asleep_agent \<Rightarrow> env \<Rightarrow> activity_engine \<Rightarrow> (env \<times> activity_engine) option" where
  "ae_receive_agent now s env e = do {
     t \<leftarrow> tick_to_time (ae_clock e) now;
     act \<leftarrow> agent_curr_act (as_agent s);
     coord \<leftarrow> act_coord act;
     (let env = process_event (ActivityStartEvent t (agent_id (as_agent s)) (act_link_id act) coord (act_type act)) env
      in do {
        (env, a) \<leftarrow> notify_event ActivityStarted t env (as_agent s);
        Some (env, e\<lparr>ae_asleep_q := tq_add asleep_end_time (s\<lparr>as_agent := a\<rparr>) t (ae_asleep_q e)\<rparr>) }) }"

text \<open>The loop over the agents whose wake-up time has come.\<close>

fun sort_woken :: "sim_time \<Rightarrow> asleep_agent list \<Rightarrow> (agent list \<times> awake_agent list) option" where
  "sort_woken now [] = Some ([], [])"
| "sort_woken now (s # ss) = do {
     en \<leftarrow> awake_end_time (awake_from s);
     (ends, awake) \<leftarrow> sort_woken now ss;
     Some (if en \<le> now then (as_agent s # ends, awake) else (ends, awake_from s # awake)) }"

definition wake_up :: "sim_time \<Rightarrow> activity_engine \<Rightarrow> (agent list \<times> activity_engine) option" where
  "wake_up now e =
     (let (woken, q) = tq_pop now (ae_asleep_q e)
      in do {
        (ends, awake) \<leftarrow> sort_woken now woken;
        Some (ends, e\<lparr>ae_asleep_q := q, ae_awake_q := ae_awake_q e @ awake\<rparr>) })"

fun notify_awake :: "sim_time \<Rightarrow> awake_agent list \<Rightarrow> env \<Rightarrow> (awake_agent list \<times> env) option" where
  "notify_awake now [] env = Some ([], env)"
| "notify_awake now (w # ws) env = do {
     en \<leftarrow> awake_end_time w;
     (env, a) \<leftarrow> notify_event (WokeUp en) now env (aw_agent w);
     (ws, env) \<leftarrow> notify_awake now ws env;
     Some (w\<lparr>aw_agent := a\<rparr> # ws, env) }"

fun notify_woken :: "sim_time \<Rightarrow> agent list \<Rightarrow> env \<Rightarrow> (agent list \<times> env) option" where
  "notify_woken now [] env = Some ([], env)"
| "notify_woken now (a # as) env = do {
     (env, a) \<leftarrow> notify_event (WokeUp now) now env a;
     (as, env) \<leftarrow> notify_woken now as env;
     Some (a # as, env) }"

definition notify_wakeup_all :: "sim_time \<Rightarrow> agent list \<Rightarrow> env \<Rightarrow> activity_engine \<Rightarrow> (agent list \<times> env \<times> activity_engine) option" where
  "notify_wakeup_all now ends env e = do {
     (ends, env) \<leftarrow> notify_woken now ends env;
     (awake, env) \<leftarrow> notify_awake now (ae_awake_q e) env;
     Some (ends, env, e\<lparr>ae_awake_q := awake\<rparr>) }"

text \<open>\<open>Vec::swap_remove\<close>: the last element takes the place of the removed one.\<close>

definition swap_remove :: "nat \<Rightarrow> 'a list \<Rightarrow> 'a list" where
  "swap_remove i xs = butlast (xs[i := last xs])"

function end_loop :: "sim_time \<Rightarrow> nat \<Rightarrow> awake_agent list \<Rightarrow> (agent list \<times> awake_agent list) option" where
  "end_loop now i ws =
     (if i < length ws then do {
        en \<leftarrow> awake_end_time (ws ! i);
        (if en \<le> now then do {
           (ends, rest) \<leftarrow> end_loop now i (swap_remove i ws);
           Some (aw_agent (ws ! i) # ends, rest) }
         else end_loop now (i + 1) ws) }
      else Some ([], ws))"
  by pat_completeness auto
termination
  by (relation "measure (\<lambda>(now, i, ws). length ws - i)") (auto simp: swap_remove_def)

declare end_loop.simps [simp del]

definition ae_end :: "sim_time \<Rightarrow> activity_engine \<Rightarrow> (agent list \<times> activity_engine) option" where
  "ae_end now e = do { (ends, rest) \<leftarrow> end_loop now 0 (ae_awake_q e); Some (ends, e\<lparr>ae_awake_q := rest\<rparr>) }"

fun notify_end_all :: "sim_time \<Rightarrow> agent list \<Rightarrow> env \<Rightarrow> (agent list \<times> env) option" where
  "notify_end_all now [] env = Some ([], env)"
| "notify_end_all now (a # as) env = do {
     act \<leftarrow> agent_curr_act a;
     coord \<leftarrow> act_coord act;
     (let env = process_event (ActivityEndEvent now (agent_id a) (act_link_id act) coord (act_type act)) env
      in do {
        (env, a) \<leftarrow> notify_event ActivityFinished now env a;
        (as, env) \<leftarrow> notify_end_all now as env;
        Some (a # as, env) }) }"

definition ae_admit :: "tick \<Rightarrow> sim_time \<Rightarrow> agent \<Rightarrow> env \<times> activity_engine \<Rightarrow> (env \<times> activity_engine) option" where
  "ae_admit now t a s = (case s of (env, e) \<Rightarrow> do {
     a \<leftarrow> advance_plan t a;
     s \<leftarrow> asleep_build a t;
     ae_receive_agent now s env e })"

definition ae_do_step :: "tick \<Rightarrow> agent list \<Rightarrow> env \<Rightarrow> activity_engine \<Rightarrow> (agent list \<times> env \<times> activity_engine) option" where
  "ae_do_step now agents env e = do {
     t \<leftarrow> tick_to_time (ae_clock e) now;
     (env, e) \<leftarrow> foldM (ae_admit now t) agents (env, e);
     (woken, e) \<leftarrow> wake_up t e;
     (woken, env, e) \<leftarrow> notify_wakeup_all t woken env e;
     (ended, e) \<leftarrow> ae_end t e;
     (res, env) \<leftarrow> notify_end_all t (woken @ ended) env;
     Some (res, env, e) }"

section \<open>Conservation of agents\<close>

text \<open>The persons in the engine, asleep or awake.\<close>

definition ae_persons :: "activity_engine \<Rightarrow> person_id multiset" where
  "ae_persons e = image_mset (\<lambda>s. agent_id (as_agent s)) (tq_vals (ae_asleep_q e)) +
     mset (map (\<lambda>w. agent_id (aw_agent w)) (ae_awake_q e))"

abbreviation ids :: "agent list \<Rightarrow> person_id multiset" where
  "ids as \<equiv> mset (map agent_id as)"

text \<open>The queue orders the sleeping agents by their wake-up times.\<close>

definition ae_inv :: "activity_engine \<Rightarrow> bool" where
  "ae_inv e \<longleftrightarrow> tq_heap (ae_asleep_q e) \<and>
     (\<forall>en \<in> set (tq_q (ae_asleep_q e)). entry_end_time en = as_wakeup_time (entry_val en))"

lemma set_heap_push: "set (heap_push le x h) = insert x (set h)"
  by (metis heap_push_def mset_sift_up length_append_singleton lessI set_mset_mset set_append list.set(2) list.set(1)
      Un_insert_right sup_bot_right mset_append)

lemma asleep_add_inv:
  "ae_inv e \<Longrightarrow> ae_inv (e\<lparr>ae_asleep_q := tq_add asleep_end_time s t (ae_asleep_q e)\<rparr>)"
  by (auto simp: ae_inv_def set_heap_push tq_add_def asleep_end_time_def entry_heap.heap_inv_push)

lemma ae_receive_cases:
  assumes "ae_receive_agent now s env e = Some (env', e')"
  obtains a t where "agent_id a = agent_id (as_agent s)"
    and "e' = e\<lparr>ae_asleep_q := tq_add asleep_end_time (s\<lparr>as_agent := a\<rparr>) t (ae_asleep_q e)\<rparr>"
proof -
  obtain t env0 b where "notify_event ActivityStarted t env0 (as_agent s) = Some (env', b)"
    and "e' = e\<lparr>ae_asleep_q := tq_add asleep_end_time (s\<lparr>as_agent := b\<rparr>) t (ae_asleep_q e)\<rparr>"
    using assms by (auto simp: ae_receive_agent_def Let_def)
  then show ?thesis using that[of b t] notify_event_id by blast
qed

lemma ae_admit_persons:
  assumes "ae_admit now t a (env, e) = Some (env', e')"
  shows "ae_persons e' = add_mset (agent_id a) (ae_persons e)" and "ae_clock e' = ae_clock e" and "ae_inv e \<Longrightarrow> ae_inv e'"
proof -
  obtain a1 s where a1: "advance_plan t a = Some a1" "asleep_build a1 t = Some s" and rec: "ae_receive_agent now s env e = Some (env', e')"
    using assms by (auto simp: ae_admit_def)
  obtain a2 t2 where a2: "agent_id a2 = agent_id (as_agent s)"
    and e': "e' = e\<lparr>ae_asleep_q := tq_add asleep_end_time (s\<lparr>as_agent := a2\<rparr>) t2 (ae_asleep_q e)\<rparr>"
    by (rule ae_receive_cases[OF rec])
  have "agent_id (as_agent s) = agent_id a" using a1 by (auto simp: asleep_build_def)
  then show "ae_persons e' = add_mset (agent_id a) (ae_persons e)"
    using a2 by (simp add: e' ae_persons_def tq_vals_add)
  show "ae_clock e' = ae_clock e" and "ae_inv e \<Longrightarrow> ae_inv e'" using asleep_add_inv by (simp_all add: e')
qed

lemma ae_admit_all:
  assumes "foldM (ae_admit now t) agents (env, e) = Some (env', e')"
  shows "ae_persons e' = ids agents + ae_persons e \<and> ae_clock e' = ae_clock e \<and> (ae_inv e \<longrightarrow> ae_inv e')"
  using assms
proof (induction agents arbitrary: env e)
  case (Cons a agents)
  then obtain env1 e1 where 1: "ae_admit now t a (env, e) = Some (env1, e1)"
    and rest: "foldM (ae_admit now t) agents (env1, e1) = Some (env', e')" by auto
  show ?case using Cons.IH[OF rest] ae_admit_persons[OF 1] by simp
qed simp

lemma sort_woken_spec:
  assumes "sort_woken now ss = Some (ends, awake)"
  shows "mset (map (\<lambda>s. agent_id (as_agent s)) ss) = ids ends + mset (map (\<lambda>w. agent_id (aw_agent w)) awake)"
    and "\<forall>w \<in> set awake. \<exists>en > now. awake_end_time w = Some en"
  using assms
proof (induction ss arbitrary: ends awake)
  case (Cons s ss)
  { case 1 then show ?case using Cons.IH by (auto simp: awake_from_def split: if_splits) }
  { case 2 then show ?case using Cons.IH by (auto split: if_splits) }
qed auto

lemma notify_awake_ids:
  "notify_awake now ws env = Some (ws', env') \<Longrightarrow> map (\<lambda>w. agent_id (aw_agent w)) ws' = map (\<lambda>w. agent_id (aw_agent w)) ws"
  by (induction ws arbitrary: env ws') (auto split: prod.splits)

lemma notify_woken_ids: "notify_woken now as env = Some (as', env') \<Longrightarrow> map agent_id as' = map agent_id as"
  by (induction as arbitrary: env as') (auto split: prod.splits)

lemma notify_end_ids: "notify_end_all now as env = Some (as', env') \<Longrightarrow> map agent_id as' = map agent_id as"
  by (induction as arbitrary: env as') (auto simp: Let_def split: prod.splits)

lemma swap_remove_mset:
  assumes "i < length xs"
  shows "mset xs = add_mset (xs ! i) (mset (swap_remove i xs))"
proof -
  have ne: "xs \<noteq> []" using assms by auto
  have "last (xs[i := last xs]) = last xs" using ne assms by (simp add: last_list_update)
  then have "xs[i := last xs] = swap_remove i xs @ [last xs]"
    unfolding swap_remove_def using ne by (metis append_butlast_last_id list_update_nonempty)
  then have "mset (xs[i := last xs]) = add_mset (last xs) (mset (swap_remove i xs))" by simp
  then have "add_mset (last xs) (mset xs - {#xs ! i#}) = add_mset (last xs) (mset (swap_remove i xs))"
    using assms by (simp add: mset_update)
  then have "mset xs - {#xs ! i#} = mset (swap_remove i xs)" by simp
  then show ?thesis using assms by (metis insert_DiffM nth_mem_mset)
qed

lemma swap_remove_take: "i < length xs \<Longrightarrow> take i (swap_remove i xs) = take i xs"
  by (simp add: swap_remove_def take_butlast)

text \<open>The loop removes exactly the agents whose activity is over.\<close>

lemma end_loop_spec:
  assumes "end_loop now i ws = Some (ends, rest)" and "\<forall>w \<in> set (take i ws). \<exists>en > now. awake_end_time w = Some en"
  shows "mset (map aw_agent ws) = mset ends + mset (map aw_agent rest) \<and> (\<forall>w \<in> set rest. \<exists>en > now. awake_end_time w = Some en)"
  using assms
proof (induction now i ws arbitrary: ends rest rule: end_loop.induct)
  case (1 now i ws)
  show ?case
  proof (cases "i < length ws")
    case True
    obtain en where en: "awake_end_time (ws ! i) = Some en"
      using "1.prems"(1) True by (auto simp: end_loop.simps[of now i ws])
    show ?thesis
    proof (cases "en \<le> now")
      case le: True
      obtain ends' where ends: "ends = aw_agent (ws ! i) # ends'" and rec: "end_loop now i (swap_remove i ws) = Some (ends', rest)"
        using "1.prems"(1) True en le by (auto simp: end_loop.simps[of now i ws])
      have "mset (map aw_agent ws) = add_mset (aw_agent (ws ! i)) (mset (map aw_agent (swap_remove i ws)))"
        using swap_remove_mset[OF True] by simp
      then show ?thesis
        using "1.IH"(1)[OF True en le rec] "1.prems"(2) swap_remove_take[OF True] ends by simp
    next
      case gt: False
      have rec: "end_loop now (i + 1) ws = Some (ends, rest)"
        using "1.prems"(1) True en gt by (simp add: end_loop.simps[of now i ws])
      have "\<forall>w \<in> set (take (i + 1) ws). \<exists>en > now. awake_end_time w = Some en"
        using "1.prems"(2) True en gt by (simp add: take_Suc_conv_app_nth)
      then show ?thesis using "1.IH"(2)[OF True en gt rec] by simp
    qed
  next
    case False
    then show ?thesis using "1.prems" by (simp add: end_loop.simps[of now i ws])
  qed
qed

lemma wake_up_spec:
  assumes "wake_up now e = Some (ends, e')" and "ae_inv e"
  shows "ae_persons e = ids ends + ae_persons e'" and "ae_inv e'"
    and "\<forall>en \<in> set (tq_q (ae_asleep_q e')). now < as_wakeup_time (entry_val en)" and "ae_clock e' = ae_clock e"
proof -
  obtain woken q awake where pop: "tq_pop now (ae_asleep_q e) = (woken, q)" and sort: "sort_woken now woken = Some (ends, awake)"
    and e': "e' = e\<lparr>ae_asleep_q := q, ae_awake_q := ae_awake_q e @ awake\<rparr>"
    using assms(1) by (auto simp: wake_up_def split: prod.splits)
  have heap: "tq_heap (ae_asleep_q e)" using assms(2) by (simp add: ae_inv_def)
  have "tq_vals (ae_asleep_q e) = mset woken + tq_vals q" using tq_pop_conservation(2)[OF heap pop] .
  then show "ae_persons e = ids ends + ae_persons e'"
    using sort_woken_spec(1)[OF sort] by (simp add: ae_persons_def e' ac_simps)
  obtain es h where due: "pop_due now (tq_q (ae_asleep_q e)) = (es, h)" by fastforce
  then have q: "tq_q q = h" using pop by (auto simp: tq_pop_def)
  note spec = pop_due_spec[OF heap, of now, unfolded due]
  have "mset (tq_q (ae_asleep_q e)) = mset (es @ h)" using spec by simp
  then have sub: "set h \<subseteq> set (tq_q (ae_asleep_q e))" using mset_eq_setD by fastforce
  show "ae_inv e'" using assms(2) tq_pop_conservation(1)[OF heap pop] sub q by (auto simp: ae_inv_def e')
  then show "\<forall>en \<in> set (tq_q (ae_asleep_q e')). now < as_wakeup_time (entry_val en)"
    using spec q by (auto simp: ae_inv_def e')
  show "ae_clock e' = ae_clock e" by (simp add: e')
qed

lemma ae_do_step_spec:
  assumes "ae_do_step now agents env e = Some (res, env', e')" and "ae_inv e" and "tick_to_time (ae_clock e) now = Some t"
  shows "ids agents + ae_persons e = ids res + ae_persons e' \<and> ae_inv e' \<and>
    (\<forall>en \<in> set (tq_q (ae_asleep_q e')). t < as_wakeup_time (entry_val en)) \<and>
    (\<forall>w \<in> set (ae_awake_q e'). \<exists>en > t. awake_end_time w = Some en)"
proof -
  from assms obtain env1 e1 woken e2 woken' env3 e3 ended
    where admit: "foldM (ae_admit now t) agents (env, e) = Some (env1, e1)"
      and wake: "wake_up t e1 = Some (woken, e2)" and nw: "notify_wakeup_all t woken env1 e2 = Some (woken', env3, e3)"
      and en: "ae_end t e3 = Some (ended, e')" and ne: "notify_end_all t (woken' @ ended) env3 = Some (res, env')"
    by (auto simp: ae_do_step_def)
  note 1 = ae_admit_all[OF admit] and 2 = wake_up_spec[OF wake]
  obtain awake where 3: "map agent_id woken' = map agent_id woken" "e3 = e2\<lparr>ae_awake_q := awake\<rparr>"
    "map (\<lambda>w. agent_id (aw_agent w)) awake = map (\<lambda>w. agent_id (aw_agent w)) (ae_awake_q e2)"
    using nw by (auto simp: notify_wakeup_all_def dest: notify_woken_ids notify_awake_ids)
  obtain rest where loop: "end_loop t 0 (ae_awake_q e3) = Some (ended, rest)" and e': "e' = e3\<lparr>ae_awake_q := rest\<rparr>"
    using en by (auto simp: ae_end_def)
  have 4: "mset (map aw_agent (ae_awake_q e3)) = mset ended + mset (map aw_agent rest)"
    "\<forall>w \<in> set rest. \<exists>en > t. awake_end_time w = Some en"
    using end_loop_spec[OF loop] by auto
  have inv: "ae_inv e1" using 1 assms(2) by blast
  have "ids agents + ae_persons e = ids woken + ae_persons e2" using 1 2(1)[OF inv] by simp
  also have "\<dots> = ids woken' + ae_persons e3" using 3 by (simp add: ae_persons_def)
  also have "ae_persons e3 = ids ended + ae_persons e'"
    using arg_cong[OF 4(1), of "image_mset agent_id"] by (simp add: ae_persons_def e' multiset.map_comp comp_def ac_simps)
  also have "ids woken' + (ids ended + ae_persons e') = ids res + ae_persons e'"
    using notify_end_ids[OF ne] by (simp add: ac_simps)
  finally have cons: "ids agents + ae_persons e = ids res + ae_persons e'" .
  have q: "ae_asleep_q e' = ae_asleep_q e2" by (simp add: e' 3(2))
  have "ae_inv e'" using 2(2)[OF inv] by (simp add: ae_inv_def q)
  moreover have "ae_awake_q e' = rest" by (simp add: e')
  ultimately show ?thesis using cons 2(3)[OF inv] 4(2) unfolding q by simp
qed

lemma sum_agent_ids [simp]: "(\<Sum>a\<leftarrow>as. {#agent_id a#}) = ids as"
  by (induction as) simp_all

lemma ae_do_step_clock: "ae_do_step now agents env e = Some (res, env', e') \<Longrightarrow> ae_inv e \<Longrightarrow> ae_clock e' = ae_clock e"
  using ae_admit_all wake_up_spec(4)
  by (fastforce simp: ae_do_step_def notify_wakeup_all_def ae_end_def split: prod.splits)

lemma ae_drain_persons: "ids (fst (ae_drain e)) = ae_persons e"
proof -
  obtain vs q where d: "tq_drain (ae_asleep_q e) = (vs, q)" by fastforce
  then have "mset vs = tq_vals (ae_asleep_q e)" using tq_drain_conservation[of "ae_asleep_q e"] by simp
  then have "image_mset (\<lambda>s. agent_id (as_agent s)) (mset vs) = image_mset (\<lambda>s. agent_id (as_agent s)) (tq_vals (ae_asleep_q e))"
    by simp
  then show ?thesis using d by (simp add: ae_drain_def ae_persons_def multiset.map_comp comp_def ac_simps)
qed

lemma ae_build_persons:
  assumes "ae_build agents clock start = Some e"
  shows "ae_persons e = ids agents \<and> ae_inv e \<and> ae_clock e = clock"
proof -
  let ?add = "\<lambda>t a q. do { s \<leftarrow> asleep_build a t; Some (tq_add asleep_end_time s t q) }"
  let ?e = "\<lambda>q. \<lparr>ae_asleep_q = q, ae_awake_q = [], ae_clock = clock\<rparr>"
  obtain t q where fold: "foldM (?add t) agents tq_new = Some q" and e: "e = ?e q"
    using assms by (auto simp: ae_build_def)
  have step: "ae_persons (?e q2) = {#agent_id a#} + ae_persons (?e q1) \<and> ae_inv (?e q2)"
    if "?add t a q1 = Some q2" and "ae_inv (?e q1)" for a q1 q2
    using that asleep_add_inv[of "?e q1"] by (auto simp: ae_persons_def tq_vals_add asleep_build_def)
  have "ae_inv (?e tq_new)" by (simp add: ae_inv_def tq_new_def heap_inv_def)
  from foldM_weight[OF fold, of "\<lambda>q. ae_inv (?e q)" "\<lambda>q. ae_persons (?e q)" "\<lambda>a. {#agent_id a#}", OF this step]
  have "ae_persons e = (\<Sum>a\<leftarrow>agents. {#agent_id a#}) + ae_persons (?e tq_new) \<and> ae_inv e" by (simp add: e)
  then show ?thesis by (simp add: e ae_persons_def tq_vals_new)
qed

text \<open>
  A step of the activity engine neither loses nor invents an agent: those that enter and
  those already inside are afterwards inside or among the returned ones. Nobody oversleeps:
  afterwards every sleeping agent's wake-up time and every waking agent's end time lies in the
  future.
\<close>

theorem activity_engine_step:
  assumes "ae_do_step now agents env e = Some (res, env', e')" and "ae_inv e" and "tick_to_time (ae_clock e) now = Some t"
  shows "ids agents + ae_persons e = ids res + ae_persons e' \<and> ae_inv e' \<and>
    (\<forall>en \<in> set (tq_q (ae_asleep_q e')). t < as_wakeup_time (entry_val en)) \<and>
    (\<forall>w \<in> set (ae_awake_q e'). \<exists>en > t. awake_end_time w = Some en)"
  by (rule ae_do_step_spec[OF assms])

definition ex_sleeping :: activity_engine where
  "ex_sleeping = \<lparr>ae_asleep_q = tq_add asleep_end_time \<lparr>as_agent = PlanBased ex_logic, as_wakeup_time = 100, as_begin_time = 0\<rparr> 0 tq_new,
     ae_awake_q = [], ae_clock = 1\<rparr>"

lemma ex_sleeping_step: "ae_do_step 0 [] env ex_sleeping = Some ([], env, ex_sleeping)"
proof -
  let ?q = "tq_add asleep_end_time \<lparr>as_agent = PlanBased ex_logic, as_wakeup_time = 100, as_begin_time = 0\<rparr> 0 tq_new"
  have pop: "tq_pop 0 ?q = ([], ?q)"
    by (simp add: tq_add_def tq_new_def heap_push_def sift_up.simps tq_pop_def pop_due.simps heap_pop_def asleep_end_time_def)
  have "tick_to_time 1 0 = Some 0" by (simp add: tick_to_time_eq)
  then show ?thesis using pop by (simp add: ex_sleeping_def ae_do_step_def wake_up_def notify_wakeup_all_def ae_end_def end_loop.simps)
qed

theorem activity_engine_step_witness:
  "\<exists>res env' e'. ae_do_step 0 [] (env_new 0 0 Map.empty) ex_sleeping = Some (res, env', e') \<and>
     (\<forall>en \<in> set (tq_q (ae_asleep_q e')). 0 < as_wakeup_time (entry_val en))"
proof -
  have t: "tick_to_time (ae_clock ex_sleeping) 0 = Some 0" by (simp add: ex_sleeping_def tick_to_time_eq)
  have inv: "ae_inv ex_sleeping"
    by (simp add: ex_sleeping_def ae_inv_def tq_add_def tq_new_def heap_push_def sift_up.simps heap_inv_def asleep_end_time_def)
  show ?thesis using activity_engine_step[OF ex_sleeping_step inv t] ex_sleeping_step by blast
qed

end
