(* ===== verification/Leg_Engine.thy ===== *)
theory Leg_Engine
  imports Activity_Engine Broker Ids
begin

text \<open>
  The engines that perform legs: teleportation (\<open>engines/teleportation_engine.rs\<close>), the network
  (\<open>engines/network_engine.rs\<close>) and the leg engine that departs agents, chooses between the two,
  exchanges vehicles with the other partitions and publishes arrivals (\<open>engines/leg_engine.rs\<close>,
  \<open>engines/mod.rs\<close>).

  \<open>incoming\<close> is what the channel of the partition yields from now on; \<open>le_do_step\<close> returns what
  is left of it and the messages sent to the channels of the other partitions.
\<close>

section \<open>Data\<close>

record teleporting_vehicle =
  tv_vehicle :: sim_vehicle
  tv_arrival_time :: sim_time

record leg_engine =
  le_teleport_q :: "teleporting_vehicle time_queue"
  le_network :: sim_network
  le_garage :: garage
  le_broker :: net_broker
  le_main_modes :: "mode set"
  le_clock :: sim_clock

text \<open>A mode is the text of its id; a main mode whose text has no id in the store panics.\<close>

definition le_new :: "id_store \<Rightarrow> sim_network \<Rightarrow> garage \<Rightarrow> net_broker \<Rightarrow> f64 qsim_config \<Rightarrow> leg_engine option" where
  "le_new ids_store net g b config = do {
     clock \<leftarrow> clock_new (qc_ticks_per_second config);
     _ \<leftarrow> mapM (\<lambda>m. get_from_ext StringT m ids_store) (qc_main_modes config);
     Some \<lparr>le_teleport_q = tq_new, le_network = net, le_garage = g, le_broker = b,
       le_main_modes = set (qc_main_modes config), le_clock = clock\<rparr> }"

section \<open>Leaving and entering a partition\<close>

definition emit_partition_leave_events :: "sim_vehicle \<Rightarrow> part_id \<Rightarrow> sim_time \<Rightarrow> env \<Rightarrow> env option" where
  "emit_partition_leave_events v to_part now env = do {
     d \<leftarrow> driver v;
     Some (fold (\<lambda>a. process_partition_event (AgentLeavesPartition (agent_id a) to_part now)) (sv_passengers v)
       (process_partition_event (AgentLeavesPartition (agent_id d) to_part now)
         (process_partition_event (VehicleLeavesPartition (veh_id v) to_part now) env))) }"

definition emit_partition_enter_events :: "sim_vehicle \<Rightarrow> part_id \<Rightarrow> sim_time \<Rightarrow> env \<Rightarrow> env option" where
  "emit_partition_enter_events v from_part now env = do {
     d \<leftarrow> driver v;
     Some (fold (\<lambda>a. process_partition_event (AgentEntersPartition (agent_id a) from_part now)) (sv_passengers v)
       (process_partition_event (AgentEntersPartition (agent_id d) from_part now)
         (process_partition_event (VehicleEntersPartition (veh_id v) from_part now) env))) }"

section \<open>Teleportation\<close>

definition is_local_route :: "sim_vehicle \<Rightarrow> net_broker \<Rightarrow> bool option" where
  "is_local_route v b = do {
     d \<leftarrow> driver v;
     leg \<leftarrow> agent_curr_leg d;
     r \<leftarrow> leg_route leg;
     to_part \<leftarrow> rank_for_link b (route_end_link r);
     Some (nb_rank b = to_part) }"

definition teleporting_build :: "sim_vehicle \<Rightarrow> sim_time \<Rightarrow> teleporting_vehicle option" where
  "teleporting_build v now = do {
     d \<leftarrow> driver v;
     t \<leftarrow> agent_end_time d now;
     Some \<lparr>tv_vehicle = v, tv_arrival_time = t\<rparr> }"

definition teleporting_end_time :: "teleporting_vehicle \<Rightarrow> sim_time \<Rightarrow> sim_time" where
  "teleporting_end_time v now = tv_arrival_time v"

definition te_receive_vehicle :: "tick \<Rightarrow> sim_vehicle \<Rightarrow> env \<Rightarrow> leg_engine \<Rightarrow> (env \<times> leg_engine) option" where
  "te_receive_vehicle now v env e = do {
     t \<leftarrow> tick_to_time (le_clock e) now;
     (env, v) \<leftarrow> veh_notify_event TeleportationStarted t env v;
     here \<leftarrow> is_local_route v (le_broker e);
     (if here then do {
        tv \<leftarrow> teleporting_build v t;
        Some (env, e\<lparr>le_teleport_q := tq_add teleporting_end_time tv t (le_teleport_q e)\<rparr>) }
      else do {
        l \<leftarrow> veh_curr_link_id v;
        l \<leftarrow> l;
        to_part \<leftarrow> rank_for_link (le_broker e) l;
        env \<leftarrow> emit_partition_leave_events v to_part t env;
        b \<leftarrow> nb_add_veh v now (le_broker e);
        Some (env, e\<lparr>le_broker := b\<rparr>) }) }"

definition emit_travelled :: "sim_time \<Rightarrow> agent \<Rightarrow> env \<Rightarrow> env option" where
  "emit_travelled t a env = do {
     leg \<leftarrow> agent_curr_leg a;
     r \<leftarrow> leg_route leg;
     d \<leftarrow> gr_distance (as_generic r);
     Some (process_event (TeleportationArrivalEvent t (agent_id a) (leg_mode leg) d) env) }"

definition emit_travelled_with_pt :: "sim_time \<Rightarrow> agent \<Rightarrow> env \<Rightarrow> env option" where
  "emit_travelled_with_pt t a env = do {
     leg \<leftarrow> agent_curr_leg a;
     r \<leftarrow> leg_route leg;
     pt \<leftarrow> as_pt r;
     d \<leftarrow> gr_distance (as_generic r);
     Some (process_event (PtTeleportationArrivalEvent t (agent_id a) d (leg_mode leg)
       (ptd_transit_line_id (pt_description pt)) (ptd_transit_route_id (pt_description pt))) env) }"

definition emit_arrival :: "sim_time \<Rightarrow> teleporting_vehicle \<Rightarrow> env \<Rightarrow> env option" where
  "emit_arrival t tv env = do {
     a \<leftarrow> driver (tv_vehicle tv);
     leg \<leftarrow> agent_curr_leg a;
     r \<leftarrow> leg_route leg;
     (case r of
        Generic _ \<Rightarrow> emit_travelled t a env
      | Network _ \<Rightarrow> emit_travelled t a env
      | Pt _ \<Rightarrow> emit_travelled_with_pt t a env) }"

definition te_do_step :: "tick \<Rightarrow> env \<Rightarrow> leg_engine \<Rightarrow> (sim_vehicle list \<times> env \<times> leg_engine) option" where
  "te_do_step now env e = do {
     t \<leftarrow> tick_to_time (le_clock e) now;
     (let (tvs, q) = tq_pop t (le_teleport_q e)
      in do {
        env \<leftarrow> foldM (emit_arrival t) tvs env;
        Some (map tv_vehicle tvs, env, e\<lparr>le_teleport_q := q\<rparr>) }) }"

section \<open>The network engine\<close>

definition ne_receive_vehicle :: "tick \<Rightarrow> sim_vehicle \<Rightarrow> bool \<Rightarrow> env \<Rightarrow> leg_engine \<Rightarrow> (env \<times> leg_engine) option" where
  "ne_receive_vehicle now v route_begin env e = do {
     (env, net) \<leftarrow> send_veh_en_route v route_begin now env (le_network e);
     Some (env, e\<lparr>le_network := net\<rparr>) }"

definition ne_move_nodes :: "(node_id set \<Rightarrow> node_id list) \<Rightarrow> tick \<Rightarrow> env \<Rightarrow> leg_engine \<Rightarrow> (env \<times> leg_engine) option" where
  "ne_move_nodes ord now env e = do {
     (env, net) \<leftarrow> move_nodes ord now env (le_network e);
     Some (env, e\<lparr>le_network := net\<rparr>) }"

definition ne_hand_over :: "tick \<Rightarrow> sim_vehicle \<Rightarrow> env \<times> leg_engine \<Rightarrow> (env \<times> leg_engine) option" where
  "ne_hand_over now v s = (case s of (env, e) \<Rightarrow> do {
     l \<leftarrow> veh_curr_link_id v;
     l \<leftarrow> l;
     to_part \<leftarrow> rank_for_link (le_broker e) l;
     t \<leftarrow> tick_to_time (le_clock e) now;
     env \<leftarrow> emit_partition_leave_events v to_part t env;
     b \<leftarrow> nb_add_veh v now (le_broker e);
     Some (env, e\<lparr>le_broker := b\<rparr>) })"

definition ne_move_links :: "(link_id set \<Rightarrow> link_id list) \<Rightarrow> tick \<Rightarrow> env \<Rightarrow> leg_engine \<Rightarrow>
    (sim_vehicle list \<times> env \<times> leg_engine) option" where
  "ne_move_links ord now env e = do {
     (res, env, net) \<leftarrow> move_links ord now env (le_network e);
     (env, e) \<leftarrow> foldM (ne_hand_over now) (vehicles_exit_partition res) (env, e\<lparr>le_network := net\<rparr>);
     (let e = e\<lparr>le_broker := fold (\<lambda>cap. nb_add_cap_update cap now) (storage_cap_updates res) (le_broker e)\<rparr>
      in Some (vehicles_end_leg res, env, e)) }"

section \<open>The leg engine\<close>

text \<open>
  \<open>VehicularDepartureHandler::handle_departure\<close>. The id of a vehicle that the route does not name
  is looked up by its external name; an id that was never created is not in the garage either.
\<close>

definition handle_departure :: "sim_time \<Rightarrow> agent \<Rightarrow> mode set \<Rightarrow> garage \<Rightarrow> env \<Rightarrow> (env \<times> sim_vehicle) option" where
  "handle_departure now a main_modes g env = do {
     _ \<leftarrow> ensure (agent_state a = LEG);
     leg \<leftarrow> agent_curr_leg a;
     r \<leftarrow> leg_route leg;
     routing_mode \<leftarrow> leg_routing_mode leg;
     (let env = process_event (PersonDepartureEvent now (agent_id a) (route_start_link r) (leg_mode leg) routing_mode) env;
          i = (case gr_vehicle (as_generic r) of Some v \<Rightarrow> v | None \<Rightarrow> agent_id a @ ''_'' @ leg_mode leg)
      in do {
        env \<leftarrow> (if leg_mode leg \<in> main_modes
                then do { _ \<leftarrow> as_network r; Some (process_event (PersonEntersVehicleEvent now (agent_id a) i) env) }
                else Some env);
        v \<leftarrow> unpark_veh a i g;
        Some (env, v) }) }"

definition pass_vehicle_to_engine :: "tick \<Rightarrow> sim_vehicle \<Rightarrow> bool \<Rightarrow> env \<Rightarrow> leg_engine \<Rightarrow> (env \<times> leg_engine) option" where
  "pass_vehicle_to_engine now v route_begin env e = do {
     d \<leftarrow> driver v;
     leg \<leftarrow> agent_curr_leg d;
     (if leg_mode leg \<notin> le_main_modes e then te_receive_vehicle now v env e
      else do {
        r \<leftarrow> leg_route leg;
        (case r of
           Network _ \<Rightarrow> ne_receive_vehicle now v route_begin env e
         | _ \<Rightarrow> te_receive_vehicle now v env e) }) }"

definition le_receive_agent :: "tick \<Rightarrow> agent \<Rightarrow> env \<times> leg_engine \<Rightarrow> (env \<times> leg_engine) option" where
  "le_receive_agent now a s = (case s of (env, e) \<Rightarrow> do {
     t \<leftarrow> tick_to_time (le_clock e) now;
     a \<leftarrow> advance_plan t a;
     (env, v) \<leftarrow> handle_departure t a (le_main_modes e) (le_garage e) env;
     pass_vehicle_to_engine now v True env e })"

definition publish_end_event :: "sim_time \<Rightarrow> bool \<Rightarrow> sim_vehicle \<Rightarrow> agent list \<times> env \<Rightarrow> (agent list \<times> env) option" where
  "publish_end_event t leave v s = (case s of (agents, env) \<Rightarrow> do {
     d \<leftarrow> driver v;
     (let env = (if leave then fold (\<lambda>a. process_event (PersonLeavesVehicleEvent t (agent_id a) (veh_id v))) (d # sv_passengers v) env
                 else env)
      in do {
        leg \<leftarrow> agent_curr_leg d;
        l \<leftarrow> veh_curr_link_id v;
        l \<leftarrow> l;
        as \<leftarrow> into_agents v;
        Some (agents @ as, process_event (PersonArrivalEvent t (agent_id d) l (leg_mode leg)) env) }) })"

definition publish_end_events :: "tick \<Rightarrow> sim_vehicle list \<Rightarrow> bool \<Rightarrow> env \<Rightarrow> leg_engine \<Rightarrow> (agent list \<times> env) option" where
  "publish_end_events now vs leave env e = do {
     t \<leftarrow> tick_to_time (le_clock e) now;
     foldM (publish_end_event t leave) vs ([], env) }"

definition le_receive_vehicle :: "tick \<Rightarrow> part_id \<Rightarrow> sim_vehicle \<Rightarrow> env \<times> leg_engine \<Rightarrow> (env \<times> leg_engine) option" where
  "le_receive_vehicle now from_part v s = (case s of (env, e) \<Rightarrow> do {
     t \<leftarrow> tick_to_time (le_clock e) now;
     env \<leftarrow> emit_partition_enter_events v from_part t env;
     pass_vehicle_to_engine now v False env e })"

definition le_receive_message :: "tick \<Rightarrow> sync_message \<Rightarrow> env \<times> leg_engine \<Rightarrow> (env \<times> leg_engine) option" where
  "le_receive_message now m s = (case s of (env, e) \<Rightarrow> do {
     net \<leftarrow> apply_storage_cap_updates (sm_storage m) (le_network e);
     foldM (le_receive_vehicle now (sm_from m)) (sm_vehicles m) (env, e\<lparr>le_network := net\<rparr>) })"

record hash_orders =
  ho_nodes :: "node_id set \<Rightarrow> node_id list"
  ho_links :: "link_id set \<Rightarrow> link_id list"
  ho_parts :: "part_id set \<Rightarrow> part_id list"

definition le_do_step :: "hash_orders \<Rightarrow> tick \<Rightarrow> agent list \<Rightarrow> sync_message list \<Rightarrow> env \<Rightarrow> leg_engine \<Rightarrow>
    (agent list \<times> (part_id \<times> sync_message) list \<times> sync_message list \<times> env \<times> leg_engine) option" where
  "le_do_step ho now agents incoming env e = do {
     (env, e) \<leftarrow> foldM (le_receive_agent now) agents (env, e);
     (teleported, env, e) \<leftarrow> te_do_step now env e;
     (env, e) \<leftarrow> ne_move_nodes (ho_nodes ho) now env e;
     (arrived, env, e) \<leftarrow> ne_move_links (ho_links ho) now env e;
     (sent, received, b, rest) \<leftarrow> send_recv (ho_parts ho) now incoming (le_broker e);
     (env, e) \<leftarrow> foldM (le_receive_message now) received (env, e\<lparr>le_broker := b\<rparr>);
     (as1, env) \<leftarrow> publish_end_events now arrived True env e;
     (as2, env) \<leftarrow> publish_end_events now teleported False env e;
     Some (as1 @ as2, sent, rest, env, e) }"

definition te_drain :: "leg_engine \<Rightarrow> (agent list \<times> leg_engine) option" where
  "te_drain e = (let (tvs, q) = tq_drain (le_teleport_q e)
     in do { as \<leftarrow> mapM into_agents (map tv_vehicle tvs); Some (concat as, e\<lparr>le_teleport_q := q\<rparr>) })"

definition le_drain :: "hash_orders \<Rightarrow> leg_engine \<Rightarrow> (agent list \<times> leg_engine) option" where
  "le_drain ho e = do {
     (as1, net) \<leftarrow> snp_drain (ho_links ho) (le_network e);
     (as2, e) \<leftarrow> te_drain (e\<lparr>le_network := net\<rparr>);
     Some (as1 @ as2, e) }"

section \<open>Conservation of persons\<close>

definition msgs_persons :: "sync_message multiset \<Rightarrow> person_id multiset" where
  "msgs_persons M = (\<Sum>m \<in># M. vehs_persons (sm_vehicles m))"

definition broker_persons :: "net_broker \<Rightarrow> person_id multiset" where
  "broker_persons b = map_sum (\<lambda>m. vehs_persons (sm_vehicles m)) (nb_out b) + msgs_persons (mset (nb_in b))"

definition net_persons :: "sim_network \<Rightarrow> person_id multiset" where
  "net_persons net = (\<Sum>t \<in># net_tokens net. snd t)"

definition teleport_persons :: "teleporting_vehicle time_queue \<Rightarrow> person_id multiset" where
  "teleport_persons q = (\<Sum>tv \<in># tq_vals q. veh_persons (tv_vehicle tv))"

text \<open>All persons that a leg engine has: on the network, teleporting, and in messages to be sent or read.\<close>

definition le_persons :: "leg_engine \<Rightarrow> person_id multiset" where
  "le_persons e = net_persons (le_network e) + teleport_persons (le_teleport_q e) + broker_persons (le_broker e)"

definition le_inv :: "leg_engine \<Rightarrow> bool" where
  "le_inv e \<longleftrightarrow> book_inv (le_network e) \<and> tq_heap (le_teleport_q e) \<and> heap_inv msg_le (nb_in (le_broker e)) \<and>
     finite (dom (nb_out (le_broker e))) \<and> finite (nb_neighbors (le_broker e))"

lemma msgs_persons_simps [simp]:
  "msgs_persons {#} = {#}" "msgs_persons (add_mset m M) = vehs_persons (sm_vehicles m) + msgs_persons M"
  "msgs_persons (M + M') = msgs_persons M + msgs_persons M'"
  by (simp_all add: msgs_persons_def)

lemma tokens_persons: "(\<Sum>t \<in># tokens vs. snd t) = vehs_persons vs"
  by (induction vs) (simp_all add: veh_token_def)

lemma with_out_persons:
  assumes fin: "finite (dom (nb_out b))" and f: "\<And>m. vehs_persons (sm_vehicles (f m)) = X + vehs_persons (sm_vehicles m)"
  shows "broker_persons (with_out part now f b) = X + broker_persons b" and "finite (dom (nb_out (with_out part now f b)))"
proof -
  let ?v = "\<lambda>m. vehs_persons (sm_vehicles m)"
  have "map_sum ?v (nb_out (with_out part now f b)) = X + map_sum ?v (nb_out b)"
  proof (cases "nb_out b part")
    case None
    then show ?thesis using map_sum_insert[OF fin None, of ?v] f by (simp add: with_out_def)
  next
    case (Some m)
    then show ?thesis using map_sum_upd[OF fin Some, of ?v "f m"] f[of m] by (simp add: with_out_def)
  qed
  then show "broker_persons (with_out part now f b) = X + broker_persons b" by (simp add: broker_persons_def with_out_def Let_def)
  show "finite (dom (nb_out (with_out part now f b)))" using fin by (simp add: with_out_def Let_def)
qed

lemma add_veh_persons:
  assumes "nb_add_veh v now b = Some b'" and "finite (dom (nb_out b))"
  shows "broker_persons b' = veh_persons v + broker_persons b" and "finite (dom (nb_out b'))"
    and "nb_in b' = nb_in b" and "nb_neighbors b' = nb_neighbors b"
proof -
  obtain part where b': "b' = with_out part now (msg_add_veh v) b" using assms(1) by (auto simp: nb_add_veh_def)
  show "broker_persons b' = veh_persons v + broker_persons b" and "finite (dom (nb_out b'))"
    unfolding b' by (rule with_out_persons[OF assms(2)], simp add: add.commute)+
  show "nb_in b' = nb_in b" and "nb_neighbors b' = nb_neighbors b" by (simp_all add: b')
qed

lemma add_caps_persons:
  assumes "finite (dom (nb_out b))"
  shows "broker_persons (fold (\<lambda>cap. nb_add_cap_update cap now) caps b) = broker_persons b \<and>
    finite (dom (nb_out (fold (\<lambda>cap. nb_add_cap_update cap now) caps b))) \<and>
    nb_in (fold (\<lambda>cap. nb_add_cap_update cap now) caps b) = nb_in b \<and>
    nb_neighbors (fold (\<lambda>cap. nb_add_cap_update cap now) caps b) = nb_neighbors b"
  using assms
proof (induction caps arbitrary: b)
  case (Cons cap caps)
  have "broker_persons (nb_add_cap_update cap now b) = {#} + broker_persons b"
    and fin: "finite (dom (nb_out (nb_add_cap_update cap now b)))"
    unfolding nb_add_cap_update_def by (rule with_out_persons[OF Cons.prems], simp)+
  then show ?case using Cons.IH[OF fin] by (simp add: nb_add_cap_update_def)
qed simp

lemma te_receive_persons:
  assumes "te_receive_vehicle now v env e = Some (env', e')" and inv: "le_inv e"
  shows "le_persons e' = veh_persons v + le_persons e" and "le_inv e'"
proof -
  obtain t env1 v' here where n: "veh_notify_event TeleportationStarted t env v = Some (env1, v')"
    and here: "is_local_route v' (le_broker e) = Some here"
    and rest: "if here then \<exists>tv. teleporting_build v' t = Some tv \<and> e' = e\<lparr>le_teleport_q := tq_add teleporting_end_time tv t (le_teleport_q e)\<rparr>
       else \<exists>b. nb_add_veh v' now (le_broker e) = Some b \<and> e' = e\<lparr>le_broker := b\<rparr>"
    using assms(1) by (auto simp: te_receive_vehicle_def split: if_splits)
  have p: "veh_persons v' = veh_persons v" using veh_notify_event_frame(4)[OF n] .
  have "le_persons e' = veh_persons v + le_persons e \<and> le_inv e'"
  proof (cases here)
    case True
    then obtain tv where tv: "teleporting_build v' t = Some tv"
      and e': "e' = e\<lparr>le_teleport_q := tq_add teleporting_end_time tv t (le_teleport_q e)\<rparr>" using rest by auto
    have "tv_vehicle tv = v'" using tv by (auto simp: teleporting_build_def)
    then show ?thesis using p inv by (simp add: e' le_persons_def teleport_persons_def tq_vals_add le_inv_def ac_simps)
  next
    case False
    then obtain b where b: "nb_add_veh v' now (le_broker e) = Some b" and e': "e' = e\<lparr>le_broker := b\<rparr>" using rest by auto
    have "finite (dom (nb_out (le_broker e)))" using inv by (simp add: le_inv_def)
    from add_veh_persons[OF b this] show ?thesis using p inv by (simp add: e' le_persons_def le_inv_def ac_simps)
  qed
  then show "le_persons e' = veh_persons v + le_persons e" and "le_inv e'" by auto
qed

lemma ne_receive_persons:
  assumes "ne_receive_vehicle now v begin_route env e = Some (env', e')" and inv: "le_inv e"
  shows "le_persons e' = veh_persons v + le_persons e" and "le_inv e'"
proof -
  obtain net where net: "send_veh_en_route v begin_route now env (le_network e) = Some (env', net)" and e': "e' = e\<lparr>le_network := net\<rparr>"
    using assms(1) by (auto simp: ne_receive_vehicle_def)
  have book: "book_inv (le_network e)" using inv by (simp add: le_inv_def)
  show "le_persons e' = veh_persons v + le_persons e"
    using send_veh_tokens(1)[OF book net] by (simp add: e' le_persons_def net_persons_def veh_token_def ac_simps)
  show "le_inv e'" using send_veh_tokens(2)[OF book net] inv by (simp add: e' le_inv_def)
qed

lemma pass_vehicle_persons:
  assumes "pass_vehicle_to_engine now v begin_route env e = Some (env', e')" and inv: "le_inv e"
  shows "le_persons e' = veh_persons v + le_persons e \<and> le_inv e'"
  using assms te_receive_persons[OF _ inv] ne_receive_persons[OF _ inv]
  by (auto simp: pass_vehicle_to_engine_def split: if_splits internal_route.splits)

lemma le_receive_agent_persons:
  assumes "le_receive_agent now a (env, e) = Some (env', e')" and inv: "le_inv e"
  shows "le_persons e' = add_mset (agent_id a) (le_persons e) \<and> le_inv e'"
proof -
  obtain t a1 env1 v where a1: "advance_plan t a = Some a1"
    and dep: "handle_departure t a1 (le_main_modes e) (le_garage e) env = Some (env1, v)"
    and pass: "pass_vehicle_to_engine now v True env1 e = Some (env', e')"
    using assms(1) by (auto simp: le_receive_agent_def)
  obtain i where "unpark_veh a1 i (le_garage e) = Some v" using dep by (auto simp: handle_departure_def Let_def split: if_splits)
  then have "veh_persons v = {#agent_id a#}" using unpark_veh_persons a1 by fastforce
  then show ?thesis using pass_vehicle_persons[OF pass inv] by simp
qed

lemma sum_vehs [simp]: "sum_list (map veh_persons vs) = vehs_persons vs"
  by (induction vs) simp_all

lemma sum_msgs [simp]: "(\<Sum>m\<leftarrow>ms. vehs_persons (sm_vehicles m)) = msgs_persons (mset ms)"
  by (induction ms) simp_all

abbreviation persons_of :: "env \<times> leg_engine \<Rightarrow> person_id multiset" where
  "persons_of s \<equiv> le_persons (snd s)"

lemma le_receive_agents_persons:
  assumes "foldM (le_receive_agent now) agents s = Some s'" and "le_inv (snd s)"
  shows "persons_of s' = ids agents + persons_of s \<and> le_inv (snd s')"
  using foldM_weight[OF assms(1), of "\<lambda>s. le_inv (snd s)" persons_of "\<lambda>a. {#agent_id a#}"] assms(2) le_receive_agent_persons
  by fastforce

lemma le_receive_vehicle_persons:
  assumes "le_receive_vehicle now p v s = Some s'" and "le_inv (snd s)"
  shows "persons_of s' = veh_persons v + persons_of s \<and> le_inv (snd s')"
proof -
  obtain env1 where "pass_vehicle_to_engine now v False env1 (snd s) = Some (fst s', snd s')"
    using assms(1) by (cases s) (auto simp: le_receive_vehicle_def)
  from pass_vehicle_persons[OF this assms(2)] show ?thesis .
qed

lemma le_receive_message_persons:
  assumes "le_receive_message now m s = Some s'" and inv: "le_inv (snd s)"
  shows "persons_of s' = vehs_persons (sm_vehicles m) + persons_of s \<and> le_inv (snd s')"
proof -
  obtain env e net where s: "s = (env, e)" and net: "apply_storage_cap_updates (sm_storage m) (le_network e) = Some net"
    and fold: "foldM (le_receive_vehicle now (sm_from m)) (sm_vehicles m) (env, e\<lparr>le_network := net\<rparr>) = Some s'"
    using assms(1) by (cases s) (auto simp: le_receive_message_def)
  have book: "book_inv (le_network e)" using inv by (simp add: s le_inv_def)
  have "net_tokens net = net_tokens (le_network e)"
    using apply_cap_conserved[OF _ net] book by (simp add: book_inv_def Sim_Network.ids_ok_def net_conserved_def conserved_def)
  then have "le_persons (e\<lparr>le_network := net\<rparr>) = le_persons e" by (simp add: le_persons_def net_persons_def)
  moreover have "le_inv (e\<lparr>le_network := net\<rparr>)" using apply_cap_book[OF book net] inv by (simp add: s le_inv_def)
  ultimately show ?thesis
    using foldM_weight[OF fold, of "\<lambda>s. le_inv (snd s)" persons_of veh_persons] le_receive_vehicle_persons by (simp add: s)
qed

lemma te_do_step_persons:
  assumes "te_do_step now env e = Some (vs, env', e')" and inv: "le_inv e"
  shows "le_persons e = vehs_persons vs + le_persons e'" and "le_inv e'"
proof -
  obtain t tvs q where pop: "tq_pop t (le_teleport_q e) = (tvs, q)" and vs: "vs = map tv_vehicle tvs"
    and e': "e' = e\<lparr>le_teleport_q := q\<rparr>"
    using assms(1) by (auto simp: te_do_step_def Let_def split: prod.splits)
  have heap: "tq_heap (le_teleport_q e)" using inv by (simp add: le_inv_def)
  note law = tq_pop_conservation[OF heap pop]
  have "(\<Sum>tv \<in># mset tvs. veh_persons (tv_vehicle tv)) = vehs_persons vs" unfolding vs by (induction tvs) simp_all
  then show "le_persons e = vehs_persons vs + le_persons e'"
    using law(2) by (simp add: e' le_persons_def teleport_persons_def ac_simps)
  show "le_inv e'" using law(1) inv by (simp add: e' le_inv_def)
qed

lemma ne_move_nodes_persons:
  assumes "ne_move_nodes ord now env e = Some (env', e')" and inv: "le_inv e"
  shows "le_persons e' = le_persons e" and "le_inv e'"
proof -
  obtain net where net: "move_nodes ord now env (le_network e) = Some (env', net)" and e': "e' = e\<lparr>le_network := net\<rparr>"
    using assms(1) by (auto simp: ne_move_nodes_def)
  have book: "book_inv (le_network e)" using inv by (simp add: le_inv_def)
  have "net_tokens net = net_tokens (le_network e)"
    using move_nodes_tokens[OF _ net] book by (simp add: book_inv_def Sim_Network.ids_ok_def net_conserved_def conserved_def)
  then show "le_persons e' = le_persons e" by (simp add: e' le_persons_def net_persons_def)
  show "le_inv e'" using move_nodes_book[OF book net] inv by (simp add: e' le_inv_def)
qed

lemma ne_hand_over_persons:
  assumes "ne_hand_over now v s = Some s'" and "le_inv (snd s)"
  shows "persons_of s' = veh_persons v + persons_of s \<and> le_inv (snd s')"
proof -
  obtain e b where s: "snd s = e" and b: "nb_add_veh v now (le_broker e) = Some b" and s': "snd s' = e\<lparr>le_broker := b\<rparr>"
    using assms(1) by (cases s) (auto simp: ne_hand_over_def)
  have "finite (dom (nb_out (le_broker e)))" using assms(2) by (simp add: s le_inv_def)
  from add_veh_persons[OF b this] show ?thesis using assms(2) by (simp add: s s' le_persons_def le_inv_def ac_simps)
qed

lemma ne_move_links_persons:
  assumes "ne_move_links ord now env e = Some (vs, env', e')" and inv: "le_inv e"
  shows "le_persons e = vehs_persons vs + le_persons e'" and "le_inv e'"
proof -
  obtain res env1 net env2 e2 where mv: "move_links ord now env (le_network e) = Some (res, env1, net)"
    and fold: "foldM (ne_hand_over now) (vehicles_exit_partition res) (env1, e\<lparr>le_network := net\<rparr>) = Some (env2, e2)"
    and vs: "vs = vehicles_end_leg res"
    and e': "e' = e2\<lparr>le_broker := fold (\<lambda>cap. nb_add_cap_update cap now) (storage_cap_updates res) (le_broker e2)\<rparr>"
    using assms(1) by (auto simp: ne_move_links_def Let_def)
  have book: "book_inv (le_network e)" using inv by (simp add: le_inv_def)
  note mvl = move_links_book[OF book mv]
  have "le_inv (e\<lparr>le_network := net\<rparr>)" using mvl(1) inv by (simp add: le_inv_def)
  then have e2: "le_persons e2 = vehs_persons (vehicles_exit_partition res) + le_persons (e\<lparr>le_network := net\<rparr>)" "le_inv e2"
    using foldM_weight[OF fold, of "\<lambda>s. le_inv (snd s)" persons_of veh_persons] ne_hand_over_persons by auto
  have "le_persons e = vehs_persons vs + vehs_persons (vehicles_exit_partition res) + le_persons (e\<lparr>le_network := net\<rparr>)"
    using mvl(2) by (simp add: le_persons_def net_persons_def tokens_persons vs ac_simps)
  moreover have "finite (dom (nb_out (le_broker e2)))" using e2(2) by (simp add: le_inv_def)
  note caps = add_caps_persons[OF this, of now "storage_cap_updates res"]
  have "le_persons e' = le_persons e2" using caps by (simp add: e' le_persons_def)
  ultimately show "le_persons e = vehs_persons vs + le_persons e'" using e2(1) by (simp add: ac_simps)
  show "le_inv e'" using caps e2(2) by (simp add: e' le_inv_def)
qed

lemma publish_end_event_persons:
  "publish_end_event t leave v s = Some s' \<Longrightarrow> ids (fst s') = veh_persons v + ids (fst s)"
  using into_agents_persons by (cases s) (fastforce simp: publish_end_event_def Let_def)

lemma publish_end_events_persons:
  assumes "publish_end_events now vs leave env e = Some (as, env')"
  shows "ids as = vehs_persons vs"
proof -
  obtain t where "foldM (publish_end_event t leave) vs ([], env) = Some (as, env')" using assms by (auto simp: publish_end_events_def)
  from foldM_weight[OF this, of "\<lambda>_. True" "\<lambda>s. ids (fst s)" veh_persons] publish_end_event_persons show ?thesis by simp
qed

lemma exchange_persons:
  assumes ord: "hash_order ord" and inv: "le_inv e"
    and step: "send_recv ord now incoming (le_broker e) = Some (sent, received, b, rest)"
  shows "le_persons e + msgs_persons (mset incoming) = msgs_persons (mset (map snd sent)) + msgs_persons (mset received) +
      msgs_persons (mset rest) + le_persons (e\<lparr>le_broker := b\<rparr>)" and "le_inv (e\<lparr>le_broker := b\<rparr>)"
proof -
  have i: "heap_inv msg_le (nb_in (le_broker e))" "finite (dom (nb_out (le_broker e)))" "finite (nb_neighbors (le_broker e))"
    using inv by (simp_all add: le_inv_def)
  note s = send_recv_sum[where f = "\<lambda>m. vehs_persons (sm_vehicles m)", OF ord i step, simplified]
  have "msgs_persons (mset (nb_in (le_broker e)) + mset incoming) =
      msgs_persons (mset received + mset (nb_in b) + mset rest)" using s(2) by simp
  then show "le_persons e + msgs_persons (mset incoming) = msgs_persons (mset (map snd sent)) + msgs_persons (mset received) +
      msgs_persons (mset rest) + le_persons (e\<lparr>le_broker := b\<rparr>)"
    using s(1,3) by (simp add: le_persons_def broker_persons_def msgs_persons_def ac_simps)
  show "le_inv (e\<lparr>le_broker := b\<rparr>)" using s(3-5) inv by (simp add: le_inv_def)
qed

lemma le_do_step_persons:
  assumes step: "le_do_step ho now agents incoming env e = Some (done_agents, sent, rest, env', e')" and inv: "le_inv e"
    and ord: "hash_order (ho_parts ho)"
  shows "ids agents + le_persons e + msgs_persons (mset incoming) =
      ids done_agents + msgs_persons (mset (map snd sent)) + msgs_persons (mset rest) + le_persons e'" and "le_inv e'"
proof -
  obtain env1 e1 vs1 env2 e2 env3 e3 vs2 env4 e4 received b env5 as1 env6 as2 where
    1: "foldM (le_receive_agent now) agents (env, e) = Some (env1, e1)"
    and 2: "te_do_step now env1 e1 = Some (vs1, env2, e2)"
    and 3: "ne_move_nodes (ho_nodes ho) now env2 e2 = Some (env3, e3)"
    and 4: "ne_move_links (ho_links ho) now env3 e3 = Some (vs2, env4, e4)"
    and 5: "send_recv (ho_parts ho) now incoming (le_broker e4) = Some (sent, received, b, rest)"
    and 6: "foldM (le_receive_message now) received (env4, e4\<lparr>le_broker := b\<rparr>) = Some (env5, e')"
    and 7: "publish_end_events now vs2 True env5 e' = Some (as1, env6)"
    and 8: "publish_end_events now vs1 False env6 e' = Some (as2, env')" and d: "done_agents = as1 @ as2"
    using step by (auto simp: le_do_step_def)
  have p1: "le_persons e1 = ids agents + le_persons e" "le_inv e1" using le_receive_agents_persons[OF 1] inv by auto
  note p2 = te_do_step_persons[OF 2 p1(2)]
  note p3 = ne_move_nodes_persons[OF 3 p2(2)]
  note p4 = ne_move_links_persons[OF 4 p3(2)]
  note p5 = exchange_persons[OF ord p4(2) 5]
  have p6: "le_persons e' = msgs_persons (mset received) + le_persons (e4\<lparr>le_broker := b\<rparr>)" "le_inv e'"
    using foldM_weight[OF 6, of "\<lambda>s. le_inv (snd s)" persons_of "\<lambda>m. vehs_persons (sm_vehicles m)"]
      le_receive_message_persons p5(2) by auto
  have "ids done_agents = vehs_persons vs2 + vehs_persons vs1"
    using publish_end_events_persons[OF 7] publish_end_events_persons[OF 8] by (simp add: d)
  moreover have "ids agents + le_persons e + msgs_persons (mset incoming) =
      vehs_persons vs1 + vehs_persons vs2 + (le_persons e4 + msgs_persons (mset incoming))"
    unfolding p1(1)[symmetric] p2(1) p3(1)[symmetric] p4(1) by (simp add: ac_simps)
  ultimately show "ids agents + le_persons e + msgs_persons (mset incoming) =
      ids done_agents + msgs_persons (mset (map snd sent)) + msgs_persons (mset rest) + le_persons e'"
    unfolding p5(1) p6(1) by (simp add: ac_simps)
  show "le_inv e'" by (rule p6(2))
qed

section \<open>Draining at the end\<close>

lemma mapM_into_agents: "mapM into_agents vs = Some ass \<Longrightarrow> ids (concat ass) = vehs_persons vs"
proof (induction vs arbitrary: ass)
  case (Cons v vs)
  then obtain as rest where "into_agents v = Some as" and "mapM into_agents vs = Some rest" and "ass = as # rest" by auto
  then show ?case using Cons.IH into_agents_persons[of v as] by simp
qed simp

lemma sum_mset_sum:
  fixes f :: "'b \<Rightarrow> 'm::comm_monoid_add"
  shows "finite A \<Longrightarrow> (\<Sum>t \<in># (\<Sum>i \<in> A. g i). f t) = (\<Sum>i \<in> A. \<Sum>t \<in># g i. f t)"
  by (induction A rule: finite_induct) simp_all

lemma net_persons_links:
  assumes "finite (dom (snp_links net))"
  shows "net_persons net = (\<Sum>i \<in> dom (snp_links net). vehs_persons (sl_vehs (the (snp_links net i))))"
  unfolding net_persons_def map_sum_def sum_mset_sum[OF assms] by (simp add: tokens_persons)

lemma sl_drain_persons: "vehs_persons (fst (sl_drain l)) = vehs_persons (sl_vehs l)"
  by (cases l) (simp_all add: ll_drain_def ll_vehs_def take_veh_def)

lemma drain_links_persons:
  assumes "foldM drain_link xs (as, net) = Some (as', net')" and "distinct xs"
  shows "ids as' = ids as + (\<Sum>i\<leftarrow>xs. vehs_persons (sl_vehs (the (snp_links net i))))"
  using assms
proof (induction xs arbitrary: as net)
  case (Cons i xs)
  obtain link vs link' ass where l: "snp_links net i = Some link" and d: "sl_drain link = (vs, link')"
    and a: "mapM into_agents vs = Some ass"
    and rest: "foldM drain_link xs (as @ concat ass, net\<lparr>snp_links := (snp_links net)(i \<mapsto> link')\<rparr>) = Some (as', net')"
  proof -
    obtain s where s: "drain_link i (as, net) = Some s" and rest: "foldM drain_link xs s = Some (as', net')"
      using Cons.prems(1) by auto
    then show ?thesis using that unfolding drain_link_def by (auto split: prod.splits)
  qed
  have "vehs_persons vs = vehs_persons (sl_vehs link)" using sl_drain_persons[of link] d by simp
  moreover have same: "map (\<lambda>j. vehs_persons (sl_vehs (the (((snp_links net)(i \<mapsto> link')) j)))) xs =
      map (\<lambda>j. vehs_persons (sl_vehs (the (snp_links net j)))) xs" using Cons.prems(2) by (intro map_cong) auto
  have "ids as' = ids (as @ concat ass) + (\<Sum>j\<leftarrow>xs. vehs_persons (sl_vehs (the (snp_links net j))))"
    using Cons.IH[OF rest] Cons.prems(2) by (simp add: same del: fun_upd_apply)
  ultimately show ?case using mapM_into_agents[OF a] l by (simp add: ac_simps)
qed simp

lemma le_drain_persons:
  assumes drain: "le_drain ho e = Some (as, e')" and inv: "le_inv e" and ord: "hash_order (ho_links ho)"
  shows "ids as + broker_persons (le_broker e) = le_persons e"
proof -
  obtain as1 net as2 where 1: "snp_drain (ho_links ho) (le_network e) = Some (as1, net)"
    and 2: "te_drain (e\<lparr>le_network := net\<rparr>) = Some (as2, e')" and as: "as = as1 @ as2"
    using drain by (auto simp: le_drain_def)
  let ?A = "dom (snp_links (le_network e))"
  have fin: "finite ?A" using inv by (simp add: le_inv_def book_inv_def Sim_Network.ids_ok_def)
  have "ids as1 = (\<Sum>i\<leftarrow>ho_links ho ?A. vehs_persons (sl_vehs (the (snp_links (le_network e) i))))"
    using drain_links_persons[OF 1[unfolded snp_drain_def] hash_order.ord_distinct[OF ord fin]] by simp
  also have "\<dots> = net_persons (le_network e)"
    unfolding net_persons_links[OF fin] using hash_order.ord_set[OF ord fin] hash_order.ord_distinct[OF ord fin]
    by (simp add: sum_list_distinct_conv_sum_set)
  finally have n: "ids as1 = net_persons (le_network e)" .
  obtain tvs q ass where pop: "tq_drain (le_teleport_q e) = (tvs, q)" and ass: "mapM into_agents (map tv_vehicle tvs) = Some ass"
    and as2: "as2 = concat ass"
    using 2 by (auto simp: te_drain_def split: prod.splits)
  have "ids as2 = vehs_persons (map tv_vehicle tvs)" using mapM_into_agents[OF ass] by (simp add: as2)
  also have "\<dots> = (\<Sum>tv \<in># mset tvs. veh_persons (tv_vehicle tv))" by (induction tvs) simp_all
  also have "\<dots> = teleport_persons (le_teleport_q e)"
    using tq_drain_conservation[of "le_teleport_q e"] pop by (simp add: teleport_persons_def)
  finally show ?thesis using n by (simp add: as le_persons_def ac_simps)
qed

lemma le_drain_broker: "le_drain ho e = Some (as, e') \<Longrightarrow> le_broker e' = le_broker e"
  by (auto simp: le_drain_def te_drain_def split: prod.splits)

lemma le_new_inv:
  assumes "le_new ids_store net g b config = Some e" and "book_inv net" and "heap_inv msg_le (nb_in b)"
    and "finite (dom (nb_out b))" and "finite (nb_neighbors b)"
  shows "le_inv e" and "le_persons e = net_persons net + broker_persons b"
  using assms by (auto simp: le_new_def le_inv_def le_persons_def teleport_persons_def tq_vals_new tq_new_def heap_inv_def tq_vals_def)

section \<open>Properties\<close>

text \<open>
  A step of the leg engine of a partition loses no agent and doubles none: the agents that
  depart, those under way (on links, teleporting, in messages collected or cached) and those in
  the messages that the channel holds are afterwards the agents that arrive, those in the
  messages sent, those left in the channel and those under way.
\<close>

theorem leg_engine_step:
  assumes "le_do_step ho now agents incoming env e = Some (done_agents, sent, rest, env', e')" and "le_inv e"
    and "hash_order (ho_parts ho)"
  shows "ids agents + le_persons e + msgs_persons (mset incoming) =
      ids done_agents + msgs_persons (mset (map snd sent)) + msgs_persons (mset rest) + le_persons e' \<and> le_inv e'"
  using le_do_step_persons[OF assms] by simp

section \<open>Example\<close>

definition ex_walk :: internal_leg where
  "ex_walk = leg_new (Generic \<lparr>gr_start_link = 1, gr_end_link = 2, gr_trav_time = Some 20, gr_distance = Some 50, gr_vehicle = None\<rparr>)
     ''walk'' 20 None"

definition ex_walker :: agent where
  "ex_walker = PlanBased (ex_logic\<lparr>basic_agent_delegate :=
     person_new ''p'' (plan_default\<lparr>plan_elements := [Activity ex_home, Leg ex_walk, Activity ex_work]\<rparr>),
     curr_plan_element := 1, curr_route_element := 1\<rparr>)"

definition ex_walk_vehicle :: sim_vehicle where
  "ex_walk_vehicle = ex_vehicle\<lparr>sv_driver := Some ex_walker, sv_passengers := []\<rparr>"

definition ex_leg_engine :: leg_engine where
  "ex_leg_engine = \<lparr>le_teleport_q = tq_add teleporting_end_time \<lparr>tv_vehicle = ex_walk_vehicle, tv_arrival_time = 0\<rparr> 0 tq_new,
     le_network = ex_snp, le_garage = garage_new, le_broker = nb_new 0 ex_net ex_snp False, le_main_modes = {}, le_clock = 1\<rparr>"

abbreviation ex_orders :: hash_orders where
  "ex_orders \<equiv> \<lparr>ho_nodes = sorted_list_of_set, ho_links = sorted_list_of_set, ho_parts = sorted_list_of_set\<rparr>"

lemma ex_walker_leg: "agent_curr_leg ex_walker = Some ex_walk"
  by (simp add: ex_walker_def agent_curr_leg_def pb_curr_leg_def pb_element_def selected_plan_def plan_element_at_def
    person_new_def plan_default_def ex_logic_def list_get_def)

lemma ex_walker_facts:
  "agent_curr_link_id ex_walker = Some (Some 2)" "driver ex_walk_vehicle = Some ex_walker" "into_agents ex_walk_vehicle = Some [ex_walker]"
  "veh_curr_link_id ex_walk_vehicle = Some (Some 2)" "leg_route ex_walk = Some (Generic \<lparr>gr_start_link = 1, gr_end_link = 2,
     gr_trav_time = Some 20, gr_distance = Some 50, gr_vehicle = None\<rparr>)"
proof -
  show l: "agent_curr_link_id ex_walker = Some (Some 2)"
    using ex_walker_leg by (simp add: ex_walker_def agent_curr_leg_def agent_curr_link_id_def pb_curr_link_id_def ex_walk_def leg_new_def two_links_def)
      (simp add: pb_state_def)
  show d: "driver ex_walk_vehicle = Some ex_walker" by (simp add: ex_walk_vehicle_def driver_def)
  then show "veh_curr_link_id ex_walk_vehicle = Some (Some 2)" using l by (simp add: veh_curr_link_id_def)
  show "into_agents ex_walk_vehicle = Some [ex_walker]" by (simp add: ex_walk_vehicle_def into_agents_def)
  show "leg_route ex_walk = Some (Generic \<lparr>gr_start_link = 1, gr_end_link = 2,
     gr_trav_time = Some 20, gr_distance = Some 50, gr_vehicle = None\<rparr>)" by (simp add: ex_walk_def leg_new_def)
qed

lemma ex_leg_engine_inv: "le_inv ex_leg_engine"
proof -
  have "neighbors ex_snp = {}" by (auto simp: neighbors_def ex_snp_def snp_build_def split: if_splits)
  then show ?thesis
    using from_network_book[OF ex_from]
    by (simp add: le_inv_def ex_leg_engine_def nb_new_def heap_inv_def tq_add_def tq_new_def heap_push_def sift_up.simps)
qed

lemma ex_leg_engine_step: "\<exists>env' e'. le_do_step ex_orders 0 [] [] env ex_leg_engine = Some ([ex_walker], [], [], env', e')"
proof -
  let ?q = "tq_add teleporting_end_time \<lparr>tv_vehicle = ex_walk_vehicle, tv_arrival_time = 0\<rparr> 0 tq_new"
  have pop: "\<exists>q. tq_pop 0 ?q = ([\<lparr>tv_vehicle = ex_walk_vehicle, tv_arrival_time = 0\<rparr>], q)"
    by (simp add: tq_add_def tq_new_def heap_push_def sift_up.simps tq_pop_def pop_due.simps heap_pop_def teleporting_end_time_def
      sift_to_bottom.simps)
  then obtain q where pop: "tq_pop 0 ?q = ([\<lparr>tv_vehicle = ex_walk_vehicle, tv_arrival_time = 0\<rparr>], q)" by blast
  have nb: "neighbors ex_snp = {}" by (auto simp: neighbors_def ex_snp_def snp_build_def split: if_splits)
  show ?thesis
    using pop nb ex_walker_facts ex_walker_leg ex_time
    by (simp add: le_do_step_def te_do_step_def ex_leg_engine_def ne_move_nodes_def ne_move_links_def move_nodes_def move_links_def
        ex_snp_def snp_build_def send_recv_def prepare_send_recv_vehicles_def nb_new_def pop_from_cache.simps heap_pop_def
        publish_end_events_def publish_end_event_def emit_arrival_def emit_travelled_def checked_sub_u64_def Let_def)
qed

theorem leg_engine_step_witness:
  "\<exists>env' e'. le_do_step ex_orders 0 [] [] (env_new 0 0 Map.empty) ex_leg_engine = Some ([ex_walker], [], [], env', e') \<and>
     le_persons ex_leg_engine = ids [ex_walker] + le_persons e'"
proof -
  obtain env' e' where "le_do_step ex_orders 0 [] [] (env_new 0 0 Map.empty) ex_leg_engine = Some ([ex_walker], [], [], env', e')"
    using ex_leg_engine_step by blast
  with leg_engine_step[OF this ex_leg_engine_inv] sorted_order.hash_order_axioms show ?thesis by auto
qed

end
