(* ===== verification/Simulation.thy ===== *)
theory Simulation
  imports Leg_Engine Population
begin

text \<open>
  The mobility simulation of one partition (\<open>simulation.rs\<close>): the builder, a simulation step
  through both engines, and the loop over the ticks with the collection of the agents at its end.

  \<open>incoming\<close> is what the channel of the partition yields in the whole run. The hash orders may
  differ from tick to tick.
\<close>

section \<open>Data and construction\<close>

record simulation =
  sim_activity_engine :: activity_engine
  sim_leg_engine :: leg_engine
  sim_start_tick :: tick
  sim_end_tick :: tick
  sim_clock_of :: sim_clock

definition simulation_build :: "id_store \<Rightarrow> (person_id set \<Rightarrow> person_id list) \<Rightarrow> agent_set \<Rightarrow> sim_network \<Rightarrow> garage \<Rightarrow>
    net_broker \<Rightarrow> f64 qsim_config \<Rightarrow> simulation option" where
  "simulation_build ids_store ord agents net g b config = do {
     clock \<leftarrow> clock_new (qc_ticks_per_second config);
     ae \<leftarrow> ae_build (map (\<lambda>i. the (agents i)) (ord (dom agents))) clock (qc_start_time config);
     le \<leftarrow> le_new ids_store net g b config;
     start_tick \<leftarrow> secs_to_tick clock (qc_start_time config);
     end_tick \<leftarrow> secs_to_tick clock (qc_end_time config);
     Some \<lparr>sim_activity_engine = ae, sim_leg_engine = le, sim_start_tick = start_tick, sim_end_tick = end_tick,
       sim_clock_of = clock\<rparr> }"

section \<open>Running\<close>

record run_state =
  rs_sim :: simulation
  rs_env :: env
  rs_agents :: "agent list"
  rs_incoming :: "sync_message list"
  rs_sent :: "(part_id \<times> sync_message) list"

text \<open>\<open>Simulation::do_sim_step\<close>: an agent that ends a leg starts its activity in the next step.\<close>

definition sim_do_sim_step :: "hash_orders \<Rightarrow> tick \<Rightarrow> run_state \<Rightarrow> run_state option" where
  "sim_do_sim_step ho now s = (let sim = rs_sim s in do {
     (act_to_leg, env, ae) \<leftarrow> ae_do_step now (rs_agents s) (rs_env s) (sim_activity_engine sim);
     (leg_to_act, sent, rest, env, le) \<leftarrow> le_do_step ho now act_to_leg (rs_incoming s) env (sim_leg_engine sim);
     Some (s\<lparr>rs_sim := sim\<lparr>sim_activity_engine := ae, sim_leg_engine := le\<rparr>, rs_env := env, rs_agents := leg_to_act,
       rs_incoming := rest, rs_sent := rs_sent s @ sent\<rparr>) })"

text \<open>The body of the loop, with the conversions of the tick that its log line needs.\<close>

definition run_body :: "(tick \<Rightarrow> hash_orders) \<Rightarrow> tick \<Rightarrow> run_state \<Rightarrow> run_state option" where
  "run_body ho now s = do {
     t \<leftarrow> tick_to_time (sim_clock_of (rs_sim s)) now;
     _ \<leftarrow> tick_to_secs (sim_clock_of (rs_sim s)) now;
     s \<leftarrow> sim_do_sim_step (ho now) now (s\<lparr>rs_env := process_mobsim_event (BeforeSimStep t) (rs_env s)\<rparr>);
     Some (s\<lparr>rs_env := process_mobsim_event (AfterSimStep t) (rs_env s)\<rparr>) }"

text \<open>The loop itself: not returning is \<open>None\<close>, as a panic is.\<close>

partial_function (option) run_loop :: "(tick \<Rightarrow> hash_orders) \<Rightarrow> tick \<Rightarrow> run_state \<Rightarrow> run_state option" where
  "run_loop ho now s =
     (if now \<le> sim_end_tick (rs_sim s)
      then Option.bind (run_body ho now s) (run_loop ho (tick_next now))
      else Some s)"

definition run_drain :: "hash_orders \<Rightarrow> run_state \<Rightarrow> (agent list \<times> run_state) option" where
  "run_drain ho s = (let sim = rs_sim s; (performing, ae) = ae_drain (sim_activity_engine sim) in do {
     (under_way, le) \<leftarrow> le_drain ho (sim_leg_engine sim);
     Some (performing @ under_way @ rs_agents s,
       s\<lparr>rs_sim := sim\<lparr>sim_activity_engine := ae, sim_leg_engine := le\<rparr>, rs_agents := []\<rparr>) })"

definition run_init :: "env \<Rightarrow> sync_message list \<Rightarrow> simulation \<Rightarrow> run_state" where
  "run_init env incoming sim =
     \<lparr>rs_sim = sim, rs_env = env, rs_agents = [], rs_incoming = incoming, rs_sent = []\<rparr>"

definition sim_run :: "(tick \<Rightarrow> hash_orders) \<Rightarrow> hash_orders \<Rightarrow> env \<Rightarrow> sync_message list \<Rightarrow> simulation \<Rightarrow>
    (agent list \<times> run_state) option" where
  "sim_run ho od env incoming sim = do {
     _ \<leftarrow> tick_to_secs (sim_clock_of sim) (sim_start_tick sim);
     _ \<leftarrow> tick_to_secs (sim_clock_of sim) (sim_end_tick sim);
     s \<leftarrow> run_loop ho (sim_start_tick sim) (run_init env incoming sim);
     run_drain od s }"

section \<open>The loop is a fold over the ticks\<close>

lemma run_body_frame [frame]:
  assumes "run_body ho now s = Some s'"
  shows "sim_end_tick (rs_sim s') = sim_end_tick (rs_sim s)" "sim_clock_of (rs_sim s') = sim_clock_of (rs_sim s)"
  using assms by (auto simp: run_body_def sim_do_sim_step_def Let_def)

lemma run_loop_fold:
  assumes "sim_end_tick (rs_sim s) < u64_max"
  shows "run_loop ho now s = foldM (run_body ho) [now..<Suc (sim_end_tick (rs_sim s))] s"
  using assms
proof (induction "Suc (sim_end_tick (rs_sim s)) - now" arbitrary: now s)
  case 0
  then show ?case by (simp add: run_loop.simps)
next
  case (Suc k)
  then have le: "now \<le> sim_end_tick (rs_sim s)" by simp
  have next_tick: "tick_next now = Suc now" using le Suc.prems by (simp add: tick_next_def saturating_add_u64_def)
  have "run_loop ho (Suc now) s' = foldM (run_body ho) [Suc now..<Suc (sim_end_tick (rs_sim s))] s'"
    if "run_body ho now s = Some s'" for s'
    using Suc.hyps(1)[of s' "Suc now"] Suc.hyps(2) Suc.prems run_body_frame(1)[OF that] by simp
  moreover have "[now..<Suc (sim_end_tick (rs_sim s))] = now # [Suc now..<Suc (sim_end_tick (rs_sim s))]"
    using le by (simp add: upt_rec)
  ultimately show ?case
    using le by (cases "run_body ho now s") (simp_all add: run_loop.simps[of ho now s] next_tick)
qed

text \<open>
  C21. The loop of a simulation runs the body once for every tick from the start tick to the last
  tick, in order, and then returns: it does not return only where a step panics. This needs a
  last tick below the largest one, because the tick counter saturates there.
\<close>

theorem run_visits_every_tick:
  assumes "sim_end_tick sim < u64_max"
  shows "run_loop ho (sim_start_tick sim) (run_init env incoming sim) =
     foldM (run_body ho) [sim_start_tick sim..<Suc (sim_end_tick sim)] (run_init env incoming sim)"
  using run_loop_fold[of "run_init env incoming sim"] assms by (simp add: run_init_def)

section \<open>Nobody is lost in a run\<close>

definition sim_persons :: "simulation \<Rightarrow> person_id multiset" where
  "sim_persons sim = ae_persons (sim_activity_engine sim) + le_persons (sim_leg_engine sim)"

definition sim_inv :: "simulation \<Rightarrow> bool" where
  "sim_inv sim \<longleftrightarrow> ae_inv (sim_activity_engine sim) \<and> le_inv (sim_leg_engine sim) \<and>
     ae_clock (sim_activity_engine sim) = sim_clock_of sim"

definition run_persons :: "run_state \<Rightarrow> person_id multiset" where
  "run_persons s = sim_persons (rs_sim s) + ids (rs_agents s) + msgs_persons (mset (rs_incoming s)) +
     msgs_persons (mset (map snd (rs_sent s)))"

lemma run_body_persons:
  assumes step: "run_body ho now s = Some s'" and inv: "sim_inv (rs_sim s)" and ord: "hash_order (ho_parts (ho now))"
  shows "run_persons s' = run_persons s \<and> sim_inv (rs_sim s')"
proof -
  obtain t env1 acts env2 ae legs sent rest env3 le where
    t: "tick_to_time (sim_clock_of (rs_sim s)) now = Some t"
    and 1: "ae_do_step now (rs_agents s) env1 (sim_activity_engine (rs_sim s)) = Some (acts, env2, ae)"
    and 2: "le_do_step (ho now) now acts (rs_incoming s) env2 (sim_leg_engine (rs_sim s)) = Some (legs, sent, rest, env3, le)"
    and s': "rs_sim s' = (rs_sim s)\<lparr>sim_activity_engine := ae, sim_leg_engine := le\<rparr>" "rs_agents s' = legs"
      "rs_incoming s' = rest" "rs_sent s' = rs_sent s @ sent"
    using step by (auto simp: run_body_def sim_do_sim_step_def Let_def)
  have i: "ae_inv (sim_activity_engine (rs_sim s))" "le_inv (sim_leg_engine (rs_sim s))"
    and c: "ae_clock (sim_activity_engine (rs_sim s)) = sim_clock_of (rs_sim s)" using inv by (simp_all add: sim_inv_def)
  note a = ae_do_step_spec[OF 1 i(1) t[folded c]]
  note l = le_do_step_persons[OF 2 i(2) ord]
  have "ids (rs_agents s) + ae_persons (sim_activity_engine (rs_sim s)) = ids acts + ae_persons ae" using a by simp
  then have "run_persons s = ae_persons ae + (ids acts + le_persons (sim_leg_engine (rs_sim s)) + msgs_persons (mset (rs_incoming s))) +
      msgs_persons (mset (map snd (rs_sent s)))"
    by (simp add: run_persons_def sim_persons_def ac_simps)
  then have "run_persons s' = run_persons s" unfolding l(1) by (simp add: run_persons_def sim_persons_def s' ac_simps)
  moreover have "sim_inv (rs_sim s')" using a l(2) c ae_do_step_clock[OF 1 i(1)] by (simp add: sim_inv_def s')
  ultimately show ?thesis by blast
qed

lemma run_loop_persons:
  assumes "run_loop ho now s = Some s'" and "sim_inv (rs_sim s)" and "\<And>now. hash_order (ho_parts (ho now))"
  shows "run_persons s' = run_persons s \<and> sim_inv (rs_sim s')"
  using assms
proof (induction rule: run_loop.raw_induct[rotated, consumes 1, case_names step])
  case (step loop ho now s s')
  show ?case
  proof (cases "now \<le> sim_end_tick (rs_sim s)")
    case True
    then obtain s1 where body: "run_body ho now s = Some s1" and rest: "loop ho (tick_next now) s1 = Some s'" using step.hyps by auto
    note r = run_body_persons[OF body step.prems]
    show ?thesis using step.IH[OF rest _ step.prems(2)] r by simp
  qed (use step.hyps step.prems in simp)
qed

lemma run_drain_persons:
  assumes drain: "run_drain od s = Some (as, s')" and inv: "sim_inv (rs_sim s)" and ord: "hash_order (ho_links od)"
  shows "ids as + broker_persons (le_broker (sim_leg_engine (rs_sim s))) + msgs_persons (mset (rs_incoming s)) +
    msgs_persons (mset (map snd (rs_sent s))) = run_persons s"
    and "rs_incoming s' = rs_incoming s" and "rs_sent s' = rs_sent s"
    and "le_broker (sim_leg_engine (rs_sim s')) = le_broker (sim_leg_engine (rs_sim s))"
proof -
  obtain performing ae under_way le where 1: "ae_drain (sim_activity_engine (rs_sim s)) = (performing, ae)"
    and 2: "le_drain od (sim_leg_engine (rs_sim s)) = Some (under_way, le)" and as: "as = performing @ under_way @ rs_agents s"
    and s': "s' = s\<lparr>rs_sim := (rs_sim s)\<lparr>sim_activity_engine := ae, sim_leg_engine := le\<rparr>, rs_agents := []\<rparr>"
    using drain by (auto simp: run_drain_def Let_def split: prod.splits)
  have i: "le_inv (sim_leg_engine (rs_sim s))" using inv by (simp add: sim_inv_def)
  have "ids performing = ae_persons (sim_activity_engine (rs_sim s))" using ae_drain_persons[of "sim_activity_engine (rs_sim s)"] 1 by simp
  with le_drain_persons[OF 2 i ord] show "ids as + broker_persons (le_broker (sim_leg_engine (rs_sim s))) +
      msgs_persons (mset (rs_incoming s)) + msgs_persons (mset (map snd (rs_sent s))) = run_persons s"
    by (simp add: as run_persons_def sim_persons_def ac_simps)
  show "rs_incoming s' = rs_incoming s" and "rs_sent s' = rs_sent s" by (simp_all add: s')
  show "le_broker (sim_leg_engine (rs_sim s')) = le_broker (sim_leg_engine (rs_sim s))"
    using le_drain_broker[OF 2] by (simp add: s')
qed

section \<open>One iteration of a worker\<close>

text \<open>
  \<open>MobsimWorker::run_iteration\<close> on the input that \<open>ControllerScenario::create_mobsim_input\<close> makes:
  the network partition, the broker, the agents, the simulation and its run.
\<close>

definition worker_run_iteration :: "id_store \<Rightarrow> (person_id set \<Rightarrow> person_id list) \<Rightarrow> (node_id set \<Rightarrow> node_id list) \<Rightarrow>
    (tick \<Rightarrow> hash_orders) \<Rightarrow> hash_orders \<Rightarrow> routing_mode \<Rightarrow> network \<Rightarrow> garage \<Rightarrow> f64 qsim_config \<Rightarrow> bool \<Rightarrow>
    (node_id \<Rightarrow> nat \<Rightarrow> f64) \<Rightarrow> part_id \<Rightarrow> population \<Rightarrow> sync_message list \<Rightarrow> env \<Rightarrow> (agent list \<times> run_state) option" where
  "worker_run_iteration ids_store pord nord ho od mode net g config global_sync rnd rank persons incoming env = do {
     snp \<leftarrow> from_network nord net rank config rnd;
     agents \<leftarrow> preplanning_create_agents pord mode persons;
     sim \<leftarrow> simulation_build ids_store pord agents snp g (nb_new rank net snp global_sync) config;
     sim_run ho od env incoming sim }"

lemma from_network_empty:
  assumes "from_network ord net part config rnd = Some snp"
  shows "net_persons snp = {#}" and "finite (neighbors snp)"
proof -
  have book: "book_inv snp" by (rule from_network_book[OF assms])
  have "veh_counter snp = 0" using assms by (auto simp: from_network_def Let_def snp_build_def)
  then show "net_persons snp = {#}" using book by (simp add: book_inv_def net_persons_def)
  have "finite (ran (snp_links snp))" using book by (auto simp: book_inv_def Sim_Network.ids_ok_def intro: finite_ran)
  then have "finite ((\<lambda>l. the (neighbor_part l)) ` ran (snp_links snp))" by simp
  then show "finite (neighbors snp)"
    by (rule finite_subset[rotated]) (force simp: neighbors_def ran_def image_iff)
qed

lemma agents_of_population:
  assumes "preplanning_create_agents ord mode persons = Some agents" and "population_inv persons" and "hash_order ord"
  shows "ids (map (\<lambda>i. the (agents i)) (ord (dom agents))) = mset_set (dom persons)"
proof -
  have fin: "finite (dom persons)" using assms(2) by (simp add: population_inv_def)
  note spec = preplanning_create_agents_spec[OF assms(1,3) fin]
  have dom: "dom agents = dom persons"
  proof
    show "dom agents \<subseteq> dom persons" using spec(1) by (force simp: dom_def)
    show "dom persons \<subseteq> dom agents" using spec(2) by blast
  qed
  have "agent_id (the (agents i)) = i" if i: "i \<in> dom persons" for i
  proof -
    obtain p where p: "persons i = Some p" using i by auto
    obtain a where a: "agents i = Some a" using spec(2)[OF i] by auto
    have "into_person a = Some p" using spec(1)[of i] p a identify_logic_person[of mode p a] by simp
    then show ?thesis using assms(2) p a by (auto simp: into_person_def agent_id_def population_inv_def)
  qed
  then have "map (\<lambda>i. agent_id (the (agents i))) (ord (dom persons)) = ord (dom persons)"
    using hash_order.ord_set[OF assms(3) fin] by (intro map_idI) simp
  then show ?thesis using hash_order.ord_mset[OF assms(3) fin] by (simp add: dom comp_def flip: mset_map)
qed

lemma simulation_build_inv:
  assumes build: "simulation_build ids_store ord agents snp g (nb_new rank net snp gs) config = Some sim"
    and snp: "from_network nord net rank config rnd = Some snp"
  shows "sim_inv sim" and "sim_persons sim = ids (map (\<lambda>i. the (agents i)) (ord (dom agents)))"
proof -
  obtain clock ae le where ae: "ae_build (map (\<lambda>i. the (agents i)) (ord (dom agents))) clock (qc_start_time config) = Some ae"
    and le: "le_new ids_store snp g (nb_new rank net snp gs) config = Some le"
    and sim: "sim_activity_engine sim = ae" "sim_leg_engine sim = le" "sim_clock_of sim = clock"
    using build by (auto simp: simulation_build_def)
  note e = from_network_empty[OF snp]
  have "le_inv le" and "le_persons le = {#}"
    using le_new_inv[OF le from_network_book[OF snp]] e by (simp_all add: nb_new_def heap_inv_def broker_persons_def)
  then show "sim_inv sim" and "sim_persons sim = ids (map (\<lambda>i. the (agents i)) (ord (dom agents)))"
    using ae_build_persons[OF ae] by (simp_all add: sim_inv_def sim_persons_def sim)
qed

text \<open>
  C20. An iteration of the mobility simulation on a partition loses nobody and doubles nobody: the
  agents returned, those in the messages sent, those still in the broker and those left unread in
  the channel are together exactly the persons of the partition and those that arrived in
  messages.
\<close>

theorem mobsim_conserves_agents:
  assumes run: "worker_run_iteration ids_store pord nord ho od mode net g config gs rnd rank persons incoming env = Some (as, s)"
    and inv: "population_inv persons" and pord: "hash_order pord"
    and ord: "\<And>now. hash_order (ho_parts (ho now))" and od: "hash_order (ho_links od)"
  shows "ids as + msgs_persons (mset (map snd (rs_sent s))) + broker_persons (le_broker (sim_leg_engine (rs_sim s))) +
      msgs_persons (mset (rs_incoming s)) = mset_set (dom persons) + msgs_persons (mset incoming)"
proof -
  obtain snp agents sim s1 where snp: "from_network nord net rank config rnd = Some snp"
    and agents: "preplanning_create_agents pord mode persons = Some agents"
    and sim: "simulation_build ids_store pord agents snp g (nb_new rank net snp gs) config = Some sim"
    and loop: "run_loop ho (sim_start_tick sim) (run_init env incoming sim) = Some s1" and drain: "run_drain od s1 = Some (as, s)"
    using run by (auto simp: worker_run_iteration_def sim_run_def)
  note b = simulation_build_inv[OF sim snp]
  have init: "sim_inv (rs_sim (run_init env incoming sim))"
    "run_persons (run_init env incoming sim) = mset_set (dom persons) + msgs_persons (mset incoming)"
    using b agents_of_population[OF agents inv pord] by (simp_all add: run_init_def run_persons_def)
  have "run_persons s1 = mset_set (dom persons) + msgs_persons (mset incoming) \<and> sim_inv (rs_sim s1)"
    using run_loop_persons[OF loop init(1) ord] init(2) by simp
  with run_drain_persons[OF drain _ od] show ?thesis by (simp add: ac_simps)
qed

section \<open>Example\<close>

text \<open>The person of the examples at home, in a simulation of the single tick 0.\<close>

definition ex_config0 :: "f64 qsim_config" where
  "ex_config0 = ex_config\<lparr>qc_end_time := 0\<rparr>"

lemma ex_from0: "from_network sorted_list_of_set ex_net 0 ex_config0 (\<lambda>_ _. 0) = Some ex_snp"
proof -
  have link: "from_link l c ex_config0 = from_link l c ex_config" for l c
    by (simp add: from_link_def ll_build_def ex_config0_def)
  have size: "qc_sample_size ex_config0 = qc_sample_size ex_config" by (simp add: ex_config0_def)
  have "create_sim_link l 0 c ex_config0 net = create_sim_link l 0 c ex_config net" for l c net
    by (simp add: create_sim_link_def link size cong: if_cong)
  then have "add_sim_link 0 ex_config0 ex_net = add_sim_link 0 ex_config ex_net"
    by (simp add: add_sim_link_def fun_eq_iff)
  then have "from_network sorted_list_of_set ex_net 0 ex_config0 (\<lambda>_ _. 0) = from_network sorted_list_of_set ex_net 0 ex_config (\<lambda>_ _. 0)"
    by (simp add: from_network_def ex_config0_def)
  then show ?thesis using ex_from by simp
qed

definition ex_ids :: id_store where
  "ex_ids = \<lparr>st_ids = [1 \<mapsto> [\<lparr>ui_internal = 0, ui_external = ''car''\<rparr>]], st_mapping = [1 \<mapsto> [''car'' \<mapsto> 0]]\<rparr>"

lemma ex_main_modes: "mapM (\<lambda>m. get_from_ext StringT m ex_ids) (qc_main_modes ex_config0) = Some [\<lparr>ui_internal = 0, ui_external = ''car''\<rparr>]"
  by (simp add: ex_config0_def ex_config_def ex_ids_def get_from_ext_def id_get_def vec_get_def)

definition ex_sim :: simulation where
  "ex_sim = \<lparr>sim_activity_engine = ex_sleeping, sim_leg_engine = \<lparr>le_teleport_q = tq_new, le_network = ex_snp, le_garage = garage_new,
     le_broker = nb_new 0 ex_net ex_snp False, le_main_modes = {''car''}, le_clock = 1\<rparr>,
     sim_start_tick = 0, sim_end_tick = 0, sim_clock_of = 1\<rparr>"

lemma ex_idle: "\<exists>le. le_do_step ex_orders 0 [] [] env (sim_leg_engine ex_sim) = Some ([], [], [], env, le) \<and>
    le_teleport_q le = tq_new \<and> snp_links (le_network le) = snp_links ex_snp"
proof -
  have nb: "neighbors ex_snp = {}" by (auto simp: neighbors_def ex_snp_def snp_build_def split: if_splits)
  have "tq_pop 0 (tq_new :: teleporting_vehicle time_queue) = ([], tq_new)" by (simp add: tq_new_def tq_pop_def pop_due.simps heap_pop_def)
  then show ?thesis
    using nb ex_time
    by (simp add: le_do_step_def te_do_step_def ex_sim_def ne_move_nodes_def ne_move_links_def move_nodes_def move_links_def
        ex_snp_def snp_build_def send_recv_def prepare_send_recv_vehicles_def nb_new_def pop_from_cache.simps heap_pop_def
        publish_end_events_def checked_sub_u64_def Let_def)
qed

lemma ex_simulation_build:
  "simulation_build ex_ids sorted_list_of_set [''p'' \<mapsto> PlanBased ex_logic] ex_snp garage_new (nb_new 0 ex_net ex_snp False) ex_config0 = Some ex_sim"
proof -
  have "asleep_build (PlanBased ex_logic) 0 = Some \<lparr>as_agent = PlanBased ex_logic, as_wakeup_time = 100, as_begin_time = 0\<rparr>"
    by (simp add: asleep_build_def pb_wakeup_time_def) (simp add: ex_logic_def)
  moreover have "secs_to_tick 1 0 = Some 0"
    by (simp add: secs_to_tick_def from_secs_def from_duration_def assert_duration_fits_simtime_def duration_from_secs_def
      u64_max_def time_to_tick_def div_ceil_def as_nanos_def nanos_per_second_def)
  ultimately show ?thesis
    using ex_time by (simp add: simulation_build_def ae_build_def le_new_def clock_new_def ex_main_modes[unfolded ex_config0_def ex_config_def, simplified] ex_config0_def ex_config_def ex_sim_def ex_sleeping_def)
qed

text \<open>With any activity engine in which nobody wakes up in the tick.\<close>

lemma ex_idle_run:
  assumes idle: "\<And>env. ae_do_step 0 [] env ae = Some ([], env, ae)"
  shows "\<exists>as s. sim_run (\<lambda>_. ex_orders) ex_orders env [] (ex_sim\<lparr>sim_activity_engine := ae\<rparr>) = Some (as, s)"
proof -
  let ?sim = "ex_sim\<lparr>sim_activity_engine := ae\<rparr>"
  obtain le where le: "le_do_step ex_orders 0 [] [] (process_mobsim_event (BeforeSimStep 0) env) (sim_leg_engine ex_sim) =
      Some ([], [], [], process_mobsim_event (BeforeSimStep 0) env, le)" "le_teleport_q le = tq_new"
      "snp_links (le_network le) = snp_links ex_snp" using ex_idle by blast
  have t: "tick_to_time 1 0 = Some 0" "tick_to_secs 1 0 = Some 0" using ex_time by (simp_all add: tick_to_secs_def as_secs_def)
  have c: "sim_clock_of ?sim = 1" "sim_start_tick ?sim = 0" "sim_end_tick ?sim = 0" "sim_activity_engine ?sim = ae"
      "sim_leg_engine ?sim = sim_leg_engine ex_sim"
    by (simp_all add: ex_sim_def)
  have body: "\<exists>s. run_body (\<lambda>_. ex_orders) 0 (run_init env [] ?sim) = Some s \<and> rs_sim s = ?sim\<lparr>sim_leg_engine := le\<rparr> \<and> rs_agents s = []"
    using le(1) t c idle
    by (simp add: run_body_def sim_do_sim_step_def run_init_def)
  then obtain s where s: "run_body (\<lambda>_. ex_orders) 0 (run_init env [] ?sim) = Some s" "rs_sim s = ?sim\<lparr>sim_leg_engine := le\<rparr>" by blast
  have n: "tick_next 0 = 1" by (simp add: tick_next_def saturating_add_u64_def u64_max_def)
  have loop: "run_loop (\<lambda>_. ex_orders) 0 (run_init env [] ?sim) = Some s"
    using s c n by (simp add: run_loop.simps[of _ 0] run_loop.simps[of _ "Suc 0"] run_init_def)
  have links: "snp_links ex_snp = [1 \<mapsto> Local (ex_l 1 1 2), 2 \<mapsto> Local (ex_l 2 2 3)]" by (simp add: ex_snp_def snp_build_def)
  have "\<exists>as net. snp_drain sorted_list_of_set (le_network le) = Some (as, net)"
    using le(3) by (simp add: snp_drain_def links drain_link_def ll_drain_def ex_local_link_def del: One_nat_def)
  then have "\<exists>as le'. le_drain ex_orders le = Some (as, le')"
    using le(2) by (auto simp: le_drain_def te_drain_def tq_drain_def tq_new_def heap_drain_def)
  then have "\<exists>as s'. run_drain ex_orders s = Some (as, s')" using s(2) by (auto simp: run_drain_def split: prod.splits)
  then show ?thesis using loop t c by (simp add: sim_run_def)
qed

lemma ex_run: "\<exists>as s. sim_run (\<lambda>_. ex_orders) ex_orders env [] ex_sim = Some (as, s)"
  using ex_idle_run[of ex_sleeping env] ex_sleeping_step by (simp add: ex_sim_def)

theorem run_visits_every_tick_witness:
  "run_loop (\<lambda>_. ex_orders) 0 (run_init (env_new 0 0 Map.empty) [] ex_sim) =
     foldM (run_body (\<lambda>_. ex_orders)) [0] (run_init (env_new 0 0 Map.empty) [] ex_sim)"
  using run_visits_every_tick[of ex_sim "\<lambda>_. ex_orders" "env_new 0 0 Map.empty" "[]"] by (simp add: ex_sim_def u64_max_def)

theorem mobsim_conserves_agents_witness:
  "\<exists>as s. worker_run_iteration ex_ids sorted_list_of_set sorted_list_of_set (\<lambda>_. ex_orders) ex_orders UsePlans ex_net garage_new ex_config0 False
       (\<lambda>_ _. 0) 0 [''p'' \<mapsto> ex_person] [] (env_new 0 0 Map.empty) = Some (as, s) \<and>
     ids as + msgs_persons (mset (map snd (rs_sent s))) + broker_persons (le_broker (sim_leg_engine (rs_sim s))) +
       msgs_persons (mset (rs_incoming s)) = {#''p''#}"
proof -
  let ?run = "worker_run_iteration ex_ids sorted_list_of_set sorted_list_of_set (\<lambda>_. ex_orders) ex_orders UsePlans ex_net garage_new ex_config0 False
       (\<lambda>_ _. 0) 0 [''p'' \<mapsto> ex_person] [] (env_new 0 0 Map.empty)"
  have "preplanning_create_agents sorted_list_of_set UsePlans [''p'' \<mapsto> ex_person] = Some [''p'' \<mapsto> PlanBased ex_logic]"
    by (simp add: preplanning_create_agents_def identify_logic_def new_plan_based_def ex_logic_new)
  then obtain as s where run: "?run = Some (as, s)"
    using ex_run[of "env_new 0 0 Map.empty"] ex_from0 ex_simulation_build that by (auto simp: worker_run_iteration_def)
  have inv: "population_inv [''p'' \<mapsto> ex_person]" by (simp add: population_inv_def ex_person_def person_new_def)
  show ?thesis
    using mobsim_conserves_agents[OF run inv sorted_order.hash_order_axioms] run sorted_order.hash_order_axioms by simp
qed

end
