(* ===== verification/Single_Partition.thy ===== *)
theory Single_Partition
  imports Simulation
begin

text \<open>
  A simulation that is not partitioned (\<open>partitioning.num_parts\<close> is 1): all links are local, no
  message is sent or expected, and an iteration of the worker returns every person.
\<close>

definition one_partition :: "network \<Rightarrow> part_id \<Rightarrow> bool" where
  "one_partition net rank \<longleftrightarrow> (\<forall>i n. net_nodes net i = Some n \<longrightarrow> node_partition n = rank) \<and>
     (\<forall>i l. net_links net i = Some l \<longrightarrow> link_partition l = rank)"

definition local_links :: "(link_id \<rightharpoonup> sim_link) \<Rightarrow> bool" where
  "local_links links \<longleftrightarrow> (\<forall>i x. links_static links i = Some x \<longrightarrow> fst x = 0)"

lemma local_links_Local: "local_links links \<Longrightarrow> links i = Some l \<Longrightarrow> \<exists>ll. l = Local ll"
  by (cases l) (force simp: local_links_def links_static_def)+

lemma local_links_static: "links_static links' = links_static links \<Longrightarrow> local_links links' = local_links links"
  by (simp add: local_links_def)

lemma local_links_upd: "local_links links \<Longrightarrow> local_links (links(i \<mapsto> Local ll))"
  by (auto simp: local_links_def links_static_def)

definition alone :: "leg_engine \<Rightarrow> bool" where
  "alone e \<longleftrightarrow> local_links (snp_links (le_network e)) \<and> book_inv (le_network e) \<and>
     nb_out (le_broker e) = Map.empty \<and> nb_in (le_broker e) = [] \<and> nb_neighbors (le_broker e) = {} \<and>
     (\<forall>l p. nb_link_mapping (le_broker e) l = Some p \<longrightarrow> p = nb_rank (le_broker e))"

section \<open>A step keeps a partition alone\<close>

lemma te_receive_alone:
  assumes "te_receive_vehicle now v env e = Some (env', e')" and "alone e"
  shows "alone e'"
proof -
  have "is_local_route w (le_broker e) \<noteq> Some False" for w
    using assms(2) by (auto simp: is_local_route_def rank_for_link_def alone_def)
  then show ?thesis using assms by (auto simp: te_receive_vehicle_def alone_def split: if_splits)
qed

lemma ne_receive_alone:
  assumes "ne_receive_vehicle now v b env e = Some (env', e')" and "alone e"
  shows "alone e'"
proof -
  obtain net where s: "send_veh_en_route v b now env (le_network e) = Some (env', net)" and e': "e' = e\<lparr>le_network := net\<rparr>"
    using assms(1) by (auto simp: ne_receive_vehicle_def)
  have book: "book_inv (le_network e)" using assms(2) by (simp add: alone_def)
  show ?thesis
    using send_veh_tokens(2)[OF book s] local_links_static[OF send_veh_tokens(3)[OF book s]] assms(2) by (simp add: e' alone_def)
qed

lemma pass_vehicle_alone:
  assumes "pass_vehicle_to_engine now v b env e = Some (env', e')" and "alone e"
  shows "alone e'"
proof -
  have "te_receive_vehicle now v env e = Some (env', e') \<or> ne_receive_vehicle now v b env e = Some (env', e')"
    using assms(1) by (auto simp: pass_vehicle_to_engine_def split: if_splits internal_route.splits)
  then show ?thesis using te_receive_alone[of now v env e env' e'] ne_receive_alone[of now v b env e env' e'] assms(2) by blast
qed

lemma le_receive_agent_alone:
  assumes "le_receive_agent now a (env, e) = Some (env', e')" and "alone e"
  shows "alone e'"
proof -
  obtain v env1 where "pass_vehicle_to_engine now v True env1 e = Some (env', e')" using assms(1) by (auto simp: le_receive_agent_def)
  then show ?thesis using pass_vehicle_alone assms(2) by blast
qed

lemma ne_move_nodes_alone:
  assumes "ne_move_nodes ord now env e = Some (env', e')" and "alone e"
  shows "alone e'"
proof -
  obtain net where m: "move_nodes ord now env (le_network e) = Some (env', net)" and e': "e' = e\<lparr>le_network := net\<rparr>"
    using assms(1) by (auto simp: ne_move_nodes_def)
  have book: "book_inv (le_network e)" using assms(2) by (simp add: alone_def)
  then have "finite (dom (snp_links (le_network e)))" by (simp add: book_inv_def Sim_Network.ids_ok_def)
  then have "net_conserved (le_network e) net" using move_nodes_tokens[OF _ m] by simp
  then have "links_static (snp_links net) = links_static (snp_links (le_network e))" by (simp add: net_conserved_def conserved_def)
  then have "local_links (snp_links net)" using local_links_static assms(2) unfolding alone_def by blast
  then show ?thesis using move_nodes_book[OF book m] assms(2) by (simp add: e' alone_def)
qed

lemma move_links_local:
  assumes "move_links ord now env net = Some (res, env', net')" and loc: "local_links (snp_links net)"
  shows "local_links (snp_links net') \<and> vehicles_exit_partition res = [] \<and> storage_cap_updates res = []"
proof -
  obtain s where fold: "foldM (move_one_link now) (ord (snp_active_links net))
           \<lparr>ml_links = snp_links net, ml_active_nodes = snp_active_nodes net, ml_env = env, ml_updates = [],
            ml_exits = [], ml_ended = [], ml_deactivate = {}\<rparr> = Some s"
    and res: "res = \<lparr>vehicles_exit_partition = ml_exits s, vehicles_end_leg = ml_ended s, storage_cap_updates = ml_updates s\<rparr>"
    and net': "snp_links net' = ml_links s"
    by (rule move_links_cases[OF assms(1)]) simp
  have "local_links (ml_links s) \<and> ml_exits s = [] \<and> ml_updates s = []"
    using fold
  proof (rule foldM_inv[where P = "\<lambda>s. local_links (ml_links s) \<and> ml_exits s = [] \<and> ml_updates s = []"])
    fix i s s' assume inv: "local_links (ml_links s) \<and> ml_exits s = [] \<and> ml_updates s = []" and "move_one_link now i s = Some s'"
    then obtain l where l: "ml_links s i = Some l" and mv: "move_one_link now i s = Some s'" by (auto simp: move_one_link_def)
    obtain ll where "l = Local ll" using local_links_Local[OF conjunct1[OF inv] l] by blast
    then show "local_links (ml_links s') \<and> ml_exits s' = [] \<and> ml_updates s' = []"
      using mv l inv local_links_upd by (auto simp: move_one_link_def)
  qed (use loc in simp)
  then show ?thesis by (simp add: res net')
qed

lemma ne_move_links_alone:
  assumes "ne_move_links ord now env e = Some (arrived, env', e')" and "alone e"
  shows "alone e'"
proof -
  obtain res env1 net e1 where m: "move_links ord now env (le_network e) = Some (res, env1, net)"
    and f: "foldM (ne_hand_over now) (vehicles_exit_partition res) (env1, e\<lparr>le_network := net\<rparr>) = Some (env', e1)"
    and e': "e' = e1\<lparr>le_broker := fold (\<lambda>cap. nb_add_cap_update cap now) (storage_cap_updates res) (le_broker e1)\<rparr>"
    using assms(1) by (auto simp: ne_move_links_def Let_def)
  have loc: "local_links (snp_links net) \<and> vehicles_exit_partition res = [] \<and> storage_cap_updates res = []"
    using move_links_local[OF m] assms(2) by (simp add: alone_def)
  have book: "book_inv (le_network e)" using assms(2) by (simp add: alone_def)
  have "e' = e\<lparr>le_network := net\<rparr>" using f e' loc by simp
  then show ?thesis using loc move_links_book[OF book m] assms(2) by (simp add: alone_def)
qed

lemma send_recv_alone:
  assumes ord: "hash_order ord" and out: "nb_out b = Map.empty" and "nb_in b = []" and "nb_neighbors b = {}"
  shows "send_recv ord now incoming b = Some ([], [], b, incoming)"
proof -
  have pop: "pop_from_cache now [] {} = ([], {}, [])" by (simp add: pop_from_cache.simps heap_pop_def)
  have "receive_messages now incoming ({}, [], []) = Some ([], [], incoming)" by (cases incoming) simp_all
  moreover have "b\<lparr>nb_out := Map.empty, nb_in := []\<rparr> = b" using assms(2,3) by (cases b) simp
  moreover have "dom (\<lambda>p. case (Map.empty :: part_id \<rightharpoonup> sync_message) p of None \<Rightarrow> None | Some m \<Rightarrow> Some m) = {}" by simp
  ultimately show ?thesis
    using assms hash_order.ord_empty[OF ord] by (simp add: send_recv_def prepare_send_recv_vehicles_def Let_def pop)
qed

lemma le_do_step_alone:
  assumes step: "le_do_step ho now agents incoming env e = Some (as, sent, rest, env', e')" and alone: "alone e"
    and ord: "hash_order (ho_parts ho)"
  shows "alone e' \<and> sent = [] \<and> rest = incoming"
proof -
  obtain env1 e1 teleported env2 e2 env3 e3 arrived env4 e4 sent1 received b env5 where
    1: "foldM (le_receive_agent now) agents (env, e) = Some (env1, e1)" and 2: "te_do_step now env1 e1 = Some (teleported, env2, e2)"
    and 3: "ne_move_nodes (ho_nodes ho) now env2 e2 = Some (env3, e3)"
    and 4: "ne_move_links (ho_links ho) now env3 e3 = Some (arrived, env4, e4)"
    and 5: "send_recv (ho_parts ho) now incoming (le_broker e4) = Some (sent, received, b, rest)"
    and 6: "foldM (le_receive_message now) received (env4, e4\<lparr>le_broker := b\<rparr>) = Some (env5, e')"
    using step by (auto simp: le_do_step_def)
  have "alone (snd (env1, e1))"
    by (rule foldM_inv[OF 1]) (use alone le_receive_agent_alone in auto)
  then have "alone e2" using 2 by (auto simp: te_do_step_def alone_def split: prod.splits)
  then have a4: "alone e4" using ne_move_links_alone[OF 4 ne_move_nodes_alone[OF 3]] by simp
  then have "send_recv (ho_parts ho) now incoming (le_broker e4) = Some ([], [], le_broker e4, incoming)"
    using send_recv_alone[OF ord] by (simp add: alone_def)
  then have "sent = []" "received = []" "b = le_broker e4" "rest = incoming" using 5 by auto
  then show ?thesis using 6 a4 by simp
qed

section \<open>A run\<close>

definition run_alone :: "sync_message list \<Rightarrow> run_state \<Rightarrow> bool" where
  "run_alone incoming s \<longleftrightarrow> alone (sim_leg_engine (rs_sim s)) \<and> rs_sent s = [] \<and> rs_incoming s = incoming"

lemma run_body_alone:
  assumes "run_body ho now s = Some s'" and "run_alone incoming s" and "hash_order (ho_parts (ho now))"
  shows "run_alone incoming s'"
proof -
  obtain acts env2 legs sent rest env3 le where
    le: "le_do_step (ho now) now acts (rs_incoming s) env2 (sim_leg_engine (rs_sim s)) = Some (legs, sent, rest, env3, le)"
    and s': "sim_leg_engine (rs_sim s') = le" "rs_incoming s' = rest" "rs_sent s' = rs_sent s @ sent"
    using assms(1) by (auto simp: run_body_def sim_do_sim_step_def Let_def)
  then show ?thesis using le_do_step_alone[OF le _ assms(3)] assms(2) by (simp add: run_alone_def)
qed

lemma run_loop_alone:
  assumes "run_loop ho now s = Some s'" and "run_alone incoming s" and "\<And>now. hash_order (ho_parts (ho now))"
  shows "run_alone incoming s'"
  using assms
proof (induction rule: run_loop.raw_induct[rotated, consumes 1, case_names step])
  case (step loop ho now s s')
  show ?case
  proof (cases "now \<le> sim_end_tick (rs_sim s)")
    case True
    then obtain s1 where body: "run_body ho now s = Some s1" and rest: "loop ho (tick_next now) s1 = Some s'" using step.hyps by auto
    show ?thesis using step.IH[OF rest run_body_alone[OF body step.prems] step.prems(2)] .
  qed (use step.hyps step.prems in simp)
qed

lemma from_network_local:
  assumes "from_network nord net rank config rnd = Some snp" and one: "one_partition net rank"
  shows "local_links (snp_links snp)"
proof -
  obtain ids links where fold: "foldM (add_sim_link rank config net) ids Map.empty = Some links" and snp: "snp_links snp = links"
    using assms(1) by (auto simp: from_network_def Let_def snp_build_def)
  have "local_links links"
    using fold
  proof (rule foldM_inv)
    fix i links links' assume loc: "local_links links" and "add_sim_link rank config net i links = Some links'"
    then obtain l sl where sl: "create_sim_link l rank (effective_cell_size net) config net = Some sl" and links': "links' = links(link_ident l \<mapsto> sl)"
      by (auto simp: add_sim_link_def)
    have "\<exists>ll. sl = Local ll" using sl one by (auto simp: create_sim_link_def one_partition_def get_node_def Let_def)
    then show "local_links links'" using loc links' local_links_upd by auto
  qed (simp add: local_links_def links_static_def)
  then show ?thesis using snp by simp
qed

text \<open>
  On a network that is one partition, an iteration of the worker returns every person of the
  population exactly once, sends no message and reads none.
\<close>

theorem single_partition_returns_everybody:
  assumes run: "worker_run_iteration ids_store pord nord ho od mode net g config gs rnd rank persons incoming env = Some (as, s)"
    and one: "one_partition net rank" and inv: "population_inv persons" and pord: "hash_order pord"
    and ord: "\<And>now. hash_order (ho_parts (ho now))" and od: "hash_order (ho_links od)"
  shows "ids as = mset_set (dom persons) \<and> rs_sent s = [] \<and> rs_incoming s = incoming"
proof -
  obtain snp agents sim s1 where snp: "from_network nord net rank config rnd = Some snp"
    and agents: "preplanning_create_agents pord mode persons = Some agents"
    and sim: "simulation_build ids_store pord agents snp g (nb_new rank net snp gs) config = Some sim"
    and loop: "run_loop ho (sim_start_tick sim) (run_init env incoming sim) = Some s1" and drain: "run_drain od s1 = Some (as, s)"
    using run by (auto simp: worker_run_iteration_def sim_run_def)
  note b = simulation_build_inv[OF sim snp]
  have loc: "local_links (snp_links snp)" by (rule from_network_local[OF snp one])
  have "sl = Local ll \<Longrightarrow> \<not> is_split sl" for sl ll by simp
  then have "neighbors snp = {}" using local_links_Local[OF loc] by (fastforce simp: neighbors_def)
  then have "alone (sim_leg_engine sim)"
    using sim loc one from_network_book[OF snp]
    by (auto simp: simulation_build_def le_new_def alone_def nb_new_def one_partition_def)
  then have alone: "run_alone incoming s1" using run_loop_alone[OF loop _ ord] by (simp add: run_alone_def run_init_def)
  have init: "sim_inv (rs_sim (run_init env incoming sim))"
    "run_persons (run_init env incoming sim) = mset_set (dom persons) + msgs_persons (mset incoming)"
    using b agents_of_population[OF agents inv pord] by (simp_all add: run_init_def run_persons_def)
  have "run_persons s1 = mset_set (dom persons) + msgs_persons (mset incoming) \<and> sim_inv (rs_sim s1)"
    using run_loop_persons[OF loop init(1) ord] init(2) by simp
  with run_drain_persons[OF drain _ od] alone show ?thesis
    by (simp add: run_alone_def alone_def broker_persons_def)
qed

theorem single_partition_returns_everybody_witness:
  "\<exists>as s. worker_run_iteration ex_ids sorted_list_of_set sorted_list_of_set (\<lambda>_. ex_orders) ex_orders UsePlans ex_net garage_new ex_config0 False
       (\<lambda>_ _. 0) 0 [''p'' \<mapsto> ex_person] [] (env_new 0 0 Map.empty) = Some (as, s) \<and> ids as = {#''p''#}"
proof -
  let ?run = "worker_run_iteration ex_ids sorted_list_of_set sorted_list_of_set (\<lambda>_. ex_orders) ex_orders UsePlans ex_net garage_new ex_config0 False
       (\<lambda>_ _. 0) 0 [''p'' \<mapsto> ex_person] [] (env_new 0 0 Map.empty)"
  have "preplanning_create_agents sorted_list_of_set UsePlans [''p'' \<mapsto> ex_person] = Some [''p'' \<mapsto> PlanBased ex_logic]"
    by (simp add: preplanning_create_agents_def identify_logic_def new_plan_based_def ex_logic_new)
  then obtain as s where run: "?run = Some (as, s)"
    using ex_run[of "env_new 0 0 Map.empty"] ex_from0 ex_simulation_build that by (auto simp: worker_run_iteration_def)
  have inv: "population_inv [''p'' \<mapsto> ex_person]" by (simp add: population_inv_def ex_person_def person_new_def)
  have one: "one_partition ex_net 0" by (auto simp: one_partition_def ex_net_def node_new_def link_new_def split: if_splits)
  have pord: "hash_order (sorted_list_of_set :: string set \<Rightarrow> _)" by (rule sorted_order.hash_order_axioms)
  have ord: "hash_order (ho_parts ((\<lambda>_. ex_orders) now))" for now
    by (simp add: sorted_order.hash_order_axioms)
  have od: "hash_order (ho_links ex_orders)" by (simp add: sorted_order.hash_order_axioms)
  have "ids as = mset_set (dom [''p'' \<mapsto> ex_person])"
    using single_partition_returns_everybody[OF run one inv pord ord od] by (rule conjunct1)
  then show ?thesis using run by simp
qed

end
