(* ===== verification/Controller_Run.thy ===== *)
theory Controller_Run
  imports Controller Single_Partition
begin

text \<open>
  A run of the controller in one partition, with all its phases: the preparation, the worker of
  \<open>Simulation\<close>, and the replanning of \<open>Replanning\<close>. Over all iterations no person is lost.
\<close>

section \<open>Every person survives the run\<close>

lemma from_agents_persons:
  assumes "ids as = mset_set D" and "finite D"
  shows "population_inv (from_agents as) \<and> dom (from_agents as) = D"
proof -
  have "List.map_filter into_person as = map (\<lambda>a. basic_agent_delegate (agent_pb a)) as"
    by (simp add: into_person_def map_filter_def)
  then have "dom (from_agents as) = set (map agent_id as)"
    by (simp add: from_agents_def from_persons_def dom_map_of_conv_image_fst image_image agent_id_def)
  also have "\<dots> = D" using arg_cong[OF assms(1), of set_mset] assms(2) by simp
  finally show ?thesis by (simp add: from_agents_def from_persons_inv)
qed

lemma split_single:
  assumes "split_for_mobsim ord net 1 persons = Some (inputs, rest)" and "hash_order ord" and "population_inv persons"
  shows "inputs = [persons]" and "rest = Map.empty"
proof -
  have fin: "finite (dom persons)" using assms(3) by (simp add: population_inv_def)
  have split: "split_by_start_link_partition ord net 1 persons = Some inputs" and rest: "rest = population_new"
    using assms(1) by (auto simp: split_for_mobsim_def)
  note spec = split_by_start_link_spec[OF split assms(2) fin]
  have "(inputs ! 0) i = persons i" for i
  proof (cases "persons i")
    case None
    then show ?thesis using spec by simp
  next
    case (Some p)
    then have "\<exists>!r. r < 1 \<and> (inputs ! r) i = Some p" using spec by blast
    then show ?thesis using Some by auto
  qed
  then have "inputs ! 0 = persons" by (rule ext)
  moreover have "length inputs = 1" using spec by simp
  ultimately show "inputs = [persons]" by (cases inputs) auto
  show "rest = Map.empty" using rest by (simp add: population_new_def)
qed

lemma remove_plans_ident:
  "remove_plans_if_needed R sm ctxt p = Some p' \<Longrightarrow> person_ident p' = person_ident p"
proof (induction R sm ctxt p rule: remove_plans_if_needed.induct)
  case (1 R sm ctxt p)
  show ?case
  proof (cases "max_memory_size sm < length (person_plans p)")
    case True
    then obtain i where "plan_select R (plan_remover sm) ctxt p = Some i" "i < length (person_plans p)"
      using 1(2) by (auto simp: remove_plans_if_needed.simps[of R sm ctxt p] split: option.splits if_splits)
    then show ?thesis using 1(1)[OF True] 1(2) True by (simp add: remove_plans_if_needed.simps[of R sm ctxt p])
  qed (use 1(2) in \<open>simp add: remove_plans_if_needed.simps[of R sm ctxt p]\<close>)
qed

lemma choose_strategy_registered:
  "choose_strategy R sm ctxt p = Some (Some st) \<Longrightarrow> \<exists>name. strategies sm name = Some st"
  by (auto simp: choose_strategy_def Let_def split: option.splits if_splits list.splits)

lemma default_strategy_handle:
  assumes "default_strategies name = Some st" and "strategy_handle R st ctxt p = Some p'"
  shows "p' = p"
proof -
  have "gps_modules st = [] \<or> gps_modules st = [re_route_module]"
    using assms(1) by (auto simp: default_strategies_def selector_as_generic_plan_strategy_def split: if_splits)
  then show ?thesis using assms(2) by (auto simp: strategy_handle_def re_route_module_def)
qed

lemma strategy_run_ident:
  assumes "from_replanning_config cfg = Some sm" and "strategy_run R sm it seed dis p = Some p'"
  shows "person_ident p' = person_ident p"
proof -
  have strats: "strategies sm = default_strategies" using assms(1) by (auto simp: from_replanning_config_def)
  let ?ctxt = "\<lparr>ctx_iteration = it, ctx_base_seed = seed, ctx_innovation_disabled = dis\<rparr>"
  obtain st p1 where st: "choose_strategy R sm ?ctxt p = Some st"
    and p1: "(case st of None \<Rightarrow> Some p | Some st \<Rightarrow> strategy_handle R st ?ctxt p) = Some p1"
    and rem: "remove_plans_if_needed R sm ?ctxt p1 = Some p'"
    using assms(2) by (auto simp: strategy_run_def Let_def)
  have "p1 = p"
  proof (cases st)
    case (Some x)
    then obtain name where "default_strategies name = Some x" using choose_strategy_registered st strats by metis
    then show ?thesis using default_strategy_handle p1 Some by auto
  qed (use p1 in simp)
  then show ?thesis using remove_plans_ident[OF rem] by simp
qed

lemma replan_persons:
  assumes "from_replanning_config cfg = Some sm" and "hash_order ord" and inv: "population_inv persons"
    and "replan_population ord R persons it seed sm dis = Some persons'"
  shows "population_inv persons' \<and> dom persons' = dom persons"
proof -
  let ?g = "\<lambda>i. Option.bind (persons i) (strategy_run R sm it seed dis)"
  have fin: "finite (dom persons)" using inv by (simp add: population_inv_def)
  have "replan_population ord R persons it seed sm dis =
      foldM (\<lambda>i m. do { v \<leftarrow> ?g i; Some (m(i \<mapsto> v)) }) (ord (dom persons)) population_new"
    by (simp add: replan_population_def)
  then have fold: "foldM (\<lambda>i m. do { v \<leftarrow> ?g i; Some (m(i \<mapsto> v)) }) (ord (dom persons)) population_new = Some persons'"
    using assms(4) by simp
  have p': "persons' = (\<lambda>i. if i \<in> dom persons then ?g i else None)" and all: "\<forall>i\<in>dom persons. ?g i \<noteq> None"
    using foldM_insert[OF fold] hash_order.ord_set[OF assms(2) fin] by (auto simp: population_new_def fun_eq_iff)
  have "persons' i \<noteq> None \<longleftrightarrow> i \<in> dom persons" for i
    unfolding p' by (cases "i \<in> dom persons") (use bspec[OF all, of i] in simp_all)
  then have dom: "dom persons' = dom persons" unfolding dom_def by blast
  have "person_ident q = i" if "persons' i = Some q" for i q
  proof -
    have "?g i = Some q" using that unfolding p' by (simp split: if_split_asm)
    then obtain p where p: "persons i = Some p" "strategy_run R sm it seed dis p = Some q" by (rule bind_SomeE)
    then show ?thesis using strategy_run_ident[OF assms(1)] inv by (auto simp: population_inv_def)
  qed
  then show ?thesis using fin dom by (simp add: population_inv_def)
qed

lemma prepare_persons:
  assumes "hash_order ord" and inv: "population_inv persons" and prep: "prepare_for_sim ord sq router context persons = Some (persons', r)"
  shows "population_inv persons' \<and> dom persons' = dom persons"
proof -
  have fin: "finite (dom persons)" using inv by (simp add: population_inv_def)
  note res = prepare_for_sim_result[OF assms(1) fin prep]
  have p': "persons' = (\<lambda>i. map_option fst (person_result sq router context persons i))" using res by simp
  have none: "person_result sq router context persons i = None" if "persons i = None" for i
    using that by (simp add: person_result_def)
  have ran: "\<forall>i\<in>dom persons. person_result sq router context persons i \<noteq> None" using res by simp
  have "persons' i \<noteq> None \<longleftrightarrow> i \<in> dom persons" for i
    unfolding p' by (cases "i \<in> dom persons") (use bspec[OF ran, of i] none[of i] in \<open>auto simp: domIff\<close>)
  then have dom: "dom persons' = dom persons" unfolding dom_def by blast
  have "person_ident q = i" if "persons' i = Some q" for i q
  proof -
    have "map_option fst (person_result sq router context persons i) = Some q" using that unfolding p' .
    then obtain issues where "person_result sq router context persons i = Some (q, issues)"
      unfolding map_option_eq_Some by (metis prod.collapse)
    then obtain p where p: "persons i = Some p" and "prepare_person sq router context p = Some (q, issues)"
      unfolding person_result_def by (rule bind_SomeE)
    then have "person_ident q = person_ident p" by (auto simp: prepare_person_def)
    moreover have "person_ident p = i" using inv p by (simp add: population_inv_def)
    ultimately show ?thesis by simp
  qed
  then show ?thesis using fin dom by (simp add: population_inv_def)
qed

text \<open>
  The phases of a run in one partition: the preparation with the router of the configuration, the
  only worker, and the replanning pool. What is random or ordered by a hash map, and what the
  environment of the worker answers, are parameters of each iteration.
\<close>

definition one_partition_phases :: "id_store \<Rightarrow> (person_id set \<Rightarrow> person_id list) \<Rightarrow> (node_id set \<Rightarrow> node_id list) \<Rightarrow>
    (nat \<Rightarrow> tick \<Rightarrow> hash_orders) \<Rightarrow> (nat \<Rightarrow> hash_orders) \<Rightarrow> (f64 \<Rightarrow> f64) \<Rightarrow> trip_router \<Rightarrow> prepare_for_sim_context \<Rightarrow>
    routing_mode \<Rightarrow> f64 qsim_config \<Rightarrow> bool \<Rightarrow> (node_id \<Rightarrow> nat \<Rightarrow> f64) \<Rightarrow> (nat \<Rightarrow> env) \<Rightarrow> (nat \<Rightarrow> random_draws) \<Rightarrow>
    replanning_pool \<Rightarrow> nat \<Rightarrow> phases" where
  "one_partition_phases ids_store pord nord ho od sq router context mode qsim global_sync rnd env R pool seed =
    \<lparr>ph_prepare = prepare_for_sim pord sq router context,
     ph_split = split_for_mobsim pord (pc_network context) 1,
     ph_mobsim = (\<lambda>iteration is_last inputs. do {
        persons \<leftarrow> list_get inputs 0;
        (agents, s) \<leftarrow> worker_run_iteration ids_store pord nord (ho iteration) (od iteration) mode (pc_network context) (pc_garage context)
            qsim global_sync rnd 0 persons [] (env iteration);
        run_mobsim 1 iteration inputs [(0, iteration, agents)] }),
     ph_replan = (\<lambda>persons iteration. replan pord (R iteration) pool persons iteration seed)\<rparr>"

lemma run_mobsim_one: "run_mobsim 1 it [persons] [(0, it, agents)] = Some agents"
  by (simp add: run_mobsim_def send_command_def receive_result_def take_result_def)

lemma run_iteration_persons:
  assumes run: "run_iteration (one_partition_phases ids_store pord nord ho od sq router context mode qsim gs rnd env R pool seed) cc iters end_iter it c = Some c'"
    and one: "one_partition (pc_network context) 0" and pord: "hash_order pord"
    and ord: "\<And>it now. hash_order (ho_parts (ho it now))" and od: "\<And>it. hash_order (ho_links (od it))"
    and pool: "replanning_pool_new rcfg first_it last_it = Some pool"
    and inv: "population_inv (ctl_population c)"
  shows "population_inv (ctl_population c') \<and> dom (ctl_population c') = dom (ctl_population c)"
proof -
  let ?ph = "one_partition_phases ids_store pord nord ho od sq router context mode qsim gs rnd env R pool seed"
  let ?l = "it = end_iter"
  have pop: "ctl_population (ctl_process_event e d) = ctl_population d" for e d
    by (simp add: ctl_process_event_def split: prod.splits)
  obtain p1 c1 c2 p3 c3 current where mob: "run_mobsim_phase ?ph it ?l (ctl_process_event (IterationStarts ?l) c) = Some (p1, c1)"
    and rep: "(if ?l then Some (p1, c2) else run_replanning_phase ?ph it p1 c2) = Some (p3, c3)"
    and replace: "replace_population p3 (ctl_population c3) = Some current"
    and c': "c' = ctl_process_event (IterationEnds ?l) (c3\<lparr>ctl_population := current\<rparr>)"
    using run by (auto simp: run_iteration_def run_scoring_phase_def Let_def simp del: if_split_asm)
  obtain prepared inputs rest agents where prep: "prepare_for_sim pord sq router context (ctl_population c) = Some (prepared, Inr ())"
    and split: "split_for_mobsim pord (pc_network context) 1 prepared = Some (inputs, rest)"
    and sim: "ph_mobsim ?ph it ?l inputs = Some agents" and p1: "p1 = from_agents agents"
    using mob by (auto simp: run_mobsim_phase_def Let_def pop one_partition_phases_def simp del: One_nat_def)
  note ready = prepare_persons[OF pord inv prep]
  have inputs: "inputs = [prepared]" using split_single(1)[OF split pord] ready by simp
  obtain as s where work: "worker_run_iteration ids_store pord nord (ho it) (od it) mode (pc_network context) (pc_garage context)
            qsim gs rnd 0 prepared [] (env it) = Some (as, s)" and "agents = as"
    using sim by (auto simp: one_partition_phases_def inputs run_mobsim_one list_get_def simp del: One_nat_def)
  have "population_inv prepared" using ready by simp
  from single_partition_returns_everybody[OF work one this pord ord od]
  have "ids agents = mset_set (dom (ctl_population c))" using ready \<open>agents = as\<close> by simp
  moreover have "finite (dom (ctl_population c))" using inv by (simp add: population_inv_def)
  ultimately have returned: "population_inv p1" "dom p1 = dom (ctl_population c)" using from_agents_persons p1 by simp_all
  have sm: "from_replanning_config rcfg = Some (rp_strategy_manager pool)" using pool by (auto simp: replanning_pool_new_def)
  have "population_inv p3 \<and> dom p3 = dom p1"
  proof (cases ?l)
    case False
    then have "replan_population pord (R it) p1 it seed (rp_strategy_manager pool) (innovation_disabled pool it) = Some p3"
      using rep by (auto simp: run_replanning_phase_def one_partition_phases_def replan_def Let_def)
    from replan_persons[OF sm pord returned(1) this] show ?thesis .
  qed (use rep returned in simp)
  then show ?thesis using replace returned c' by (auto simp: replace_population_def pop)
qed

lemma run_iterations_persons:
  assumes "foldM (run_iteration (one_partition_phases ids_store pord nord ho od sq router context mode qsim gs rnd env R pool seed) cc iters end_iter) its c = Some c'"
    and "one_partition (pc_network context) 0" and "hash_order pord"
    and "\<And>it now. hash_order (ho_parts (ho it now))" and "\<And>it. hash_order (ho_links (od it))"
    and "replanning_pool_new rcfg first_it last_it = Some pool"
    and "population_inv (ctl_population c)"
  shows "population_inv (ctl_population c') \<and> dom (ctl_population c') = dom (ctl_population c)"
  using assms(1,7)
proof (induction its arbitrary: c)
  case (Cons it its)
  then obtain c1 where c1: "run_iteration (one_partition_phases ids_store pord nord ho od sq router context mode qsim gs rnd env R pool seed) cc iters end_iter it c = Some c1"
    and rest: "foldM (run_iteration (one_partition_phases ids_store pord nord ho od sq router context mode qsim gs rnd env R pool seed) cc iters end_iter) its c1 = Some c'"
    by auto
  note one = run_iteration_persons[OF c1 assms(2-6) Cons.prems(2)]
  then show ?case using Cons.IH[OF rest] by simp
qed simp

lemma write_outputs_plans:
  assumes "write_outputs cc out_path c = Some c'"
  shows "ctl_files c' (out_path @ [with_extension (cc_compression_type cc) ''output_plans'']) = Some (PlansFile (ctl_population c'))"
proof -
  have name: "create_output_filename out_path [with_extension (cc_compression_type cc) ''output_plans''] =
      Some (out_path @ [with_extension (cc_compression_type cc) ''output_plans''])"
    by (simp add: create_output_filename_def with_extension_def)
  obtain c3 where "write_output (out_path @ [with_extension (cc_compression_type cc) ''output_plans'']) (PlansFile (ctl_population c3)) c3 = Some c'"
    using assms unfolding write_outputs_def name by (elim bind_SomeE) simp
  then show ?thesis by (auto simp: write_output_def write_file_def)
qed

text \<open>
  C33. A run of the controller in one partition that returns has lost nobody and added nobody over
  all its iterations of preparation, simulation and replanning, and the file of plans it writes at
  the end holds exactly these persons.
\<close>

theorem controller_keeps_persons:
  assumes run: "controller_run (one_partition_phases ids_store pord nord ho od sq router context mode qsim gs rnd env R pool seed) c = Some c'"
    and cc: "cfg_controller (ctl_config c) = Some cc" and out: "cfg_output (ctl_config c) = Some out"
    and one: "one_partition (pc_network context) 0" and inv: "population_inv (ctl_population c)"
    and pool: "replanning_pool_new rcfg first_it last_it = Some pool" and pord: "hash_order pord"
    and ord: "\<And>it now. hash_order (ho_parts (ho it now))" and od: "\<And>it. hash_order (ho_links (od it))"
  shows "dom (ctl_population c') = dom (ctl_population c) \<and> population_inv (ctl_population c') \<and>
    ctl_files c' (resolve_path (cfg_context (ctl_config c)) (output_dir out) @ [with_extension (cc_compression_type cc) ''output_plans'']) =
      Some (PlansFile (ctl_population c'))"
proof -
  have pop: "ctl_population (ctl_process_event e d) = ctl_population d" "ctl_files (ctl_process_event e d) = ctl_files d" for e d
    by (simp_all add: ctl_process_event_def split: prod.splits)
  obtain fs c1 c2 where loop: "foldM (run_iteration (one_partition_phases ids_store pord nord ho od sq router context mode qsim gs rnd env R pool seed) cc
       (resolve_path (cfg_context (ctl_config c)) (output_dir out) @ [''ITERS'']) (cc_last_iteration cc))
      [cc_first_iteration cc..<Suc (cc_last_iteration cc)]
      ((ctl_process_event (Startup (cc_first_iteration cc = cc_last_iteration cc))
         (c\<lparr>ctl_events_state := state_reset_iteration (cc_first_iteration cc) (ctl_events_state c)\<rparr>))\<lparr>ctl_files := fs\<rparr>) = Some c1"
    and outs: "write_outputs cc (resolve_path (cfg_context (ctl_config c)) (output_dir out)) c1 = Some c2"
    and c': "c' = ctl_process_event (Shutdown True) c2"
    by (rule controller_run_cases[OF run cc]) (use out in force)
  have "population_inv (ctl_population c1) \<and> dom (ctl_population c1) = dom (ctl_population c)"
    using run_iterations_persons[OF loop one pord ord od pool] inv by (simp add: pop)
  then show ?thesis using write_outputs_published(2)[OF outs] write_outputs_plans[OF outs] by (simp add: c' pop)
qed

section \<open>Example\<close>

text \<open>A person who stays at home, on the network of the examples, in a run of one iteration.\<close>

definition ex_stayer :: internal_person where
  "ex_stayer = person_new ''p'' (plan_default\<lparr>plan_elements := [Activity (ex_home\<lparr>act_coord := Some ex_coord\<rparr>)]\<rparr>)"

definition ex_staying :: activity_engine where
  "ex_staying = \<lparr>ae_asleep_q = tq_add asleep_end_time \<lparr>as_agent = PlanBased (ex_logic\<lparr>basic_agent_delegate := ex_stayer\<rparr>),
       as_wakeup_time = 100, as_begin_time = 0\<rparr> 0 tq_new, ae_awake_q = [], ae_clock = 1\<rparr>"

definition ex_context :: prepare_for_sim_context where
  "ex_context = \<lparr>pc_network = ex_net, pc_garage = garage_new,
     pc_config = \<lparr>rc_teleported_mode_params = [], rc_access_egress_mode = ''walk'', rc_main_modes = []\<rparr>\<rparr>"

definition ex_replanning :: "f64 replanning_config" where
  "ex_replanning = the (finite_replanning replanning_default)"

definition ex_pool :: replanning_pool where
  "ex_pool = \<lparr>rp_strategy_manager = the (from_replanning_config ex_replanning), rp_first_iteration = 0, rp_last_iteration = 0,
     rp_disable_fraction = 1\<rparr>"

abbreviation ex_phases :: phases where
  "ex_phases \<equiv> one_partition_phases ex_ids sorted_list_of_set sorted_list_of_set (\<lambda>_ _. ex_orders) (\<lambda>_. ex_orders) abs Map.empty ex_context
     UsePlans ex_config0 False (\<lambda>_ _. 0) (\<lambda>_. env_new 0 0 Map.empty) (\<lambda>_. ex_draws) ex_pool 0"

definition ex_controller_config :: controller_config where
  "ex_controller_config = controller_default\<lparr>cc_last_iteration := 0, cc_compression_type := NoCompression\<rparr>"

definition ex_controller :: controller where
  "ex_controller = \<lparr>ctl_config = \<lparr>cfg_modules = [''controller'' \<mapsto> ControllerConfig ex_controller_config, ''output'' \<mapsto> OutputConfig output_default],
       cfg_context = None\<rparr>, ctl_network = ex_net, ctl_population = [''p'' \<mapsto> ex_stayer],
     ctl_events_state = runtime_state_new Controller 0, ctl_events = [], ctl_files = Map.empty\<rparr>"

lemma ex_staying_step: "ae_do_step 0 [] env ex_staying = Some ([], env, ex_staying)"
proof -
  let ?q = "tq_add asleep_end_time \<lparr>as_agent = PlanBased (ex_logic\<lparr>basic_agent_delegate := ex_stayer\<rparr>), as_wakeup_time = 100, as_begin_time = 0\<rparr> 0 tq_new"
  have pop: "tq_pop 0 ?q = ([], ?q)"
    by (simp add: tq_add_def tq_new_def heap_push_def sift_up.simps tq_pop_def pop_due.simps heap_pop_def asleep_end_time_def)
  then show ?thesis using ex_time by (simp add: ex_staying_def ae_do_step_def wake_up_def notify_wakeup_all_def ae_end_def end_loop.simps)
qed

lemma ex_stay_build:
  "simulation_build ex_ids sorted_list_of_set [''p'' \<mapsto> PlanBased (ex_logic\<lparr>basic_agent_delegate := ex_stayer\<rparr>)] ex_snp garage_new
     (nb_new 0 ex_net ex_snp False) ex_config0 = Some (ex_sim\<lparr>sim_activity_engine := ex_staying\<rparr>)"
proof -
  have "asleep_build (PlanBased (ex_logic\<lparr>basic_agent_delegate := ex_stayer\<rparr>)) 0 =
      Some \<lparr>as_agent = PlanBased (ex_logic\<lparr>basic_agent_delegate := ex_stayer\<rparr>), as_wakeup_time = 100, as_begin_time = 0\<rparr>"
    by (simp add: asleep_build_def pb_wakeup_time_def) (simp add: ex_logic_def)
  moreover have "secs_to_tick 1 0 = Some 0"
    by (simp add: secs_to_tick_def from_secs_def from_duration_def assert_duration_fits_simtime_def duration_from_secs_def
      u64_max_def time_to_tick_def div_ceil_def as_nanos_def nanos_per_second_def)
  ultimately show ?thesis
    using ex_time by (simp add: simulation_build_def ae_build_def le_new_def clock_new_def ex_main_modes[unfolded ex_config0_def ex_config_def, simplified] ex_config0_def ex_config_def ex_sim_def ex_staying_def)
qed

lemma ex_stayer_agent: "preplanning_create_agents sorted_list_of_set UsePlans [''p'' \<mapsto> ex_stayer] =
    Some [''p'' \<mapsto> PlanBased (ex_logic\<lparr>basic_agent_delegate := ex_stayer\<rparr>)]"
proof -
  have "pb_new ex_stayer = Some (ex_logic\<lparr>basic_agent_delegate := ex_stayer\<rparr>)"
    by (simp add: pb_new_def ex_logic_def ex_stayer_def person_new_def plan_element_at_def selected_plan_def
      list_get_def plan_default_def cmp_end_time_def ex_defs)
  then show ?thesis by (simp add: preplanning_create_agents_def identify_logic_def new_plan_based_def)
qed

lemma ex_stay_run:
  obtains as s where "worker_run_iteration ex_ids sorted_list_of_set sorted_list_of_set (\<lambda>_. ex_orders) ex_orders UsePlans ex_net garage_new ex_config0 False
       (\<lambda>_ _. 0) 0 [''p'' \<mapsto> ex_stayer] [] (env_new 0 0 Map.empty) = Some (as, s)"
  using ex_idle_run[of ex_staying "env_new 0 0 Map.empty", OF ex_staying_step] ex_from0 ex_stay_build ex_stayer_agent that
  by (auto simp: worker_run_iteration_def)

lemma ex_stayer_prepared:
  "prepare_for_sim sorted_list_of_set abs Map.empty ex_context [''p'' \<mapsto> ex_stayer] = Some ([''p'' \<mapsto> ex_stayer], Inr ())"
proof (rule prepare_for_sim_ready[OF sorted_order.hash_order_axioms])
  have "trips (plan_elements pl) = []" if "pl \<in> set (person_plans ex_stayer)" for pl
    using that by (simp add: ex_stayer_def person_new_def plan_default_def trip_list_def trip_spans_def trip_spans_from_Cons)
  then have "prepare_person abs Map.empty ex_context ex_stayer = Some (ex_stayer, [])"
    by (intro prepare_prepared_person) (auto simp: prepared_def coords_known_def ex_stayer_def person_new_def plan_default_def)
  then show "\<forall>i\<in>dom [''p'' \<mapsto> ex_stayer]. \<exists>p. [''p'' \<mapsto> ex_stayer] i = Some p \<and> prepare_person abs Map.empty ex_context p = Some (p, [])"
    by simp
qed simp

lemma ex_stayer_split:
  "split_for_mobsim sorted_list_of_set ex_net 1 [''p'' \<mapsto> ex_stayer] = Some ([[''p'' \<mapsto> ex_stayer]], Map.empty)"
  by (simp add: split_for_mobsim_def split_by_start_link_partition_def split_one_def first_activity_def plan_element_at_def selected_plan_def
      ex_stayer_def person_new_def plan_default_def list_get_def get_link_def ex_net_def link_new_def ex_defs population_new_def)

lemma ex_process [simp]:
  "ctl_population (ctl_process_event e d) = ctl_population d" "ctl_files (ctl_process_event e d) = ctl_files d"
  "ctl_config (ctl_process_event e d) = ctl_config d"
  by (simp_all add: ctl_process_event_def split: prod.splits)

lemma ex_mobsim_phase:
  assumes "ctl_population d = [''p'' \<mapsto> ex_stayer]"
  shows "\<exists>p d'. run_mobsim_phase ex_phases 0 True d = Some (p, d') \<and> ctl_files d' = ctl_files d \<and> ctl_population d' = Map.empty \<and>
    ctl_config d' = ctl_config d"
proof -
  obtain as s where run: "worker_run_iteration ex_ids sorted_list_of_set sorted_list_of_set (\<lambda>_. ex_orders) ex_orders UsePlans ex_net garage_new ex_config0 False
       (\<lambda>_ _. 0) 0 [''p'' \<mapsto> ex_stayer] [] (env_new 0 0 Map.empty) = Some (as, s)" by (rule ex_stay_run)
  have "ph_mobsim ex_phases 0 True [[''p'' \<mapsto> ex_stayer]] = Some as"
    using run run_mobsim_one[of 0 "[''p'' \<mapsto> ex_stayer]" as] by (simp add: one_partition_phases_def ex_context_def list_get_def)
  moreover have "ph_prepare ex_phases [''p'' \<mapsto> ex_stayer] = Some ([''p'' \<mapsto> ex_stayer], Inr ())"
    by (simp add: one_partition_phases_def ex_stayer_prepared)
  moreover have "ph_split ex_phases [''p'' \<mapsto> ex_stayer] = Some ([[''p'' \<mapsto> ex_stayer]], Map.empty)"
    using ex_stayer_split by (simp add: one_partition_phases_def ex_context_def)
  ultimately show ?thesis by (simp add: run_mobsim_phase_def assms)
qed

lemma ex_write_output:
  assumes "ctl_files d = fs" and "list_all (is_dir_or_free fs) (prefixes q)" and "fs (q @ [f]) \<noteq> Some Directory"
  shows "write_output (q @ [f]) x d = Some (d\<lparr>ctl_files := (\<lambda>r. if prefix r q then Some Directory else fs r)(q @ [f] \<mapsto> x)\<rparr>)"
proof -
  have "\<not> prefix (q @ [f]) q" by (auto dest: prefix_length_le)
  then show ?thesis using assms by (simp add: write_output_def create_dir_all_def write_file_def)
qed

lemma ex_run_iteration:
  assumes "ctl_population d = [''p'' \<mapsto> ex_stayer]"
    and "ctl_files d = (\<lambda>q. if prefix q [''.'', ''output'', ''ITERS''] then Some Directory else None)"
  shows "\<exists>d' x. run_iteration ex_phases ex_controller_config [''.'', ''output'', ''ITERS''] 0 0 d = Some d' \<and> ctl_config d' = ctl_config d \<and>
    ctl_files d' = (\<lambda>r. if prefix r [''.'', ''output'', ''ITERS'', ''it.0''] then Some Directory else None)
       ([''.'', ''output'', ''ITERS'', ''it.0'', ''output_plans.xml''] \<mapsto> x)"
proof -
  obtain p d' where mob: "run_mobsim_phase ex_phases 0 True (ctl_process_event (IterationStarts True) d) = Some (p, d')"
      and d': "ctl_files d' = ctl_files d" "ctl_population d' = Map.empty" "ctl_config d' = ctl_config d"
    using ex_mobsim_phase[of "ctl_process_event (IterationStarts True) d"] assms(1) by auto
  have path: "iteration_plans_path ex_controller_config [''.'', ''output'', ''ITERS''] 0 =
      [''.'', ''output'', ''ITERS'', ''it.0''] @ [''output_plans.xml'']"
    by code_simp
  let ?e = "ctl_process_event (Scoring True) d'"
  have w: "write_output ([''.'', ''output'', ''ITERS'', ''it.0''] @ [''output_plans.xml'']) (PlansFile p) ?e =
     Some (?e\<lparr>ctl_files := (\<lambda>r. if prefix r [''.'', ''output'', ''ITERS'', ''it.0''] then Some Directory else ctl_files d r)
       ([''.'', ''output'', ''ITERS'', ''it.0''] @ [''output_plans.xml''] \<mapsto> PlansFile p)\<rparr>)"
    by (rule ex_write_output) (simp_all add: d' assms(2) is_dir_or_free_def)
  have fs: "(\<lambda>r. if prefix r [''.'', ''output'', ''ITERS'', ''it.0''] then Some Directory else ctl_files d r) =
      (\<lambda>r. if prefix r [''.'', ''output'', ''ITERS'', ''it.0''] then Some Directory else None)"
    unfolding assms(2) by (rule ext) (auto simp: prefix_Cons)
  show ?thesis
    using mob w d' by (simp add: run_iteration_def run_scoring_phase_def should_write_iteration_plans_def write_iteration_files_def path
        replace_population_def fs) blast
qed

text \<open>The output directory is there, and none of the output files is a directory.\<close>

definition ex_ready :: "file_system \<Rightarrow> bool" where
  "ex_ready fs \<longleftrightarrow> list_all (\<lambda>q. fs q = Some Directory) (prefixes [''.'', ''output'']) \<and>
     (\<forall>f. f \<noteq> ''ITERS'' \<longrightarrow> fs ([''.'', ''output''] @ [f]) \<noteq> Some Directory)"

lemma ex_write_ready:
  assumes "ex_ready (ctl_files d)" and "f \<noteq> ''ITERS''" and "x \<noteq> Directory"
  shows "\<exists>d'. write_output ([''.'', ''output''] @ [f]) x d = Some d' \<and> ex_ready (ctl_files d')"
proof -
  have "list_all (is_dir_or_free (ctl_files d)) (prefixes [''.'', ''output''])"
    using assms(1) by (auto simp: ex_ready_def is_dir_or_free_def list_all_iff)
  moreover have "ctl_files d ([''.'', ''output''] @ [f]) \<noteq> Some Directory" using assms(1,2) by (simp add: ex_ready_def)
  ultimately have w: "write_output ([''.'', ''output''] @ [f]) x d = Some (d\<lparr>ctl_files := (\<lambda>r. if prefix r [''.'', ''output''] then Some Directory
      else ctl_files d r)([''.'', ''output''] @ [f] \<mapsto> x)\<rparr>)" by (rule ex_write_output[OF refl])
  show ?thesis unfolding w using assms by (simp add: ex_ready_def)
qed

lemma ex_write_outputs:
  assumes ready: "ex_ready (ctl_files d)"
  shows "\<exists>d'. write_outputs ex_controller_config [''.'', ''output''] d = Some d'"
proof -
  have names: "create_output_filename [''.'', ''output''] [with_extension (cc_compression_type ex_controller_config) ''output_network''] =
      Some ([''.'', ''output''] @ [''output_network.xml''])"
    "create_output_filename [''.'', ''output''] [with_extension (cc_compression_type ex_controller_config) ''output_plans''] =
      Some ([''.'', ''output''] @ [''output_plans.xml''])"
    by code_simp+
  have noids: "\<not> is_protobuf (cc_compression_type ex_controller_config)" by (simp add: is_protobuf_def ex_controller_config_def)
  let ?fs = "(ctl_files d)([''.'', ''output'', ''output_config.yml''] \<mapsto> ConfigFile (ctl_config d))"
  have conf: "write_file ([''.'', ''output''] @ [''output_config.yml'']) (ConfigFile (ctl_config d)) (ctl_files d) = Some ?fs"
    using ready by (simp add: write_file_def ex_ready_def)
  have ready1: "ex_ready (ctl_files (d\<lparr>ctl_files := ?fs\<rparr>))" using ready by (simp add: ex_ready_def)
  obtain d1 where d1: "write_output ([''.'', ''output''] @ [''output_network.xml'']) (NetworkFile (ctl_network (d\<lparr>ctl_files := ?fs\<rparr>)))
      (d\<lparr>ctl_files := ?fs\<rparr>) = Some d1" "ex_ready (ctl_files d1)"
    using ex_write_ready[OF ready1, of "''output_network.xml''" "NetworkFile (ctl_network (d\<lparr>ctl_files := ?fs\<rparr>))"] by auto
  obtain d2 where "write_output ([''.'', ''output''] @ [''output_plans.xml'']) (PlansFile (ctl_population d1)) d1 = Some d2"
    using ex_write_ready[OF d1(2), of "''output_plans.xml''" "PlansFile (ctl_population d1)"] by auto
  then show ?thesis unfolding write_outputs_def names using conf d1(1) noids by simp
qed

lemma ex_controller_run: "\<exists>c'. controller_run ex_phases ex_controller = Some c'"
proof -
  let ?fs = "\<lambda>q. if prefix q [''.'', ''output''] then Some Directory else None"
  let ?iters = "\<lambda>q. if prefix q [''.'', ''output'', ''ITERS''] then Some Directory else None"
  have cc: "cfg_controller (ctl_config ex_controller) = Some ex_controller_config" "cfg_output (ctl_config ex_controller) = Some output_default"
    "ctl_config ex_controller = \<lparr>cfg_modules = [''controller'' \<mapsto> ControllerConfig ex_controller_config, ''output'' \<mapsto> OutputConfig output_default], cfg_context = None\<rparr>"
    by (simp_all add: ex_controller_def cfg_controller_def cfg_output_def)
  have range: "cc_first_iteration ex_controller_config = 0" "cc_last_iteration ex_controller_config = 0"
      "0 < cc_write_plans_interval ex_controller_config" "0 < cc_write_events_interval ex_controller_config"
    by (simp_all add: ex_controller_config_def controller_default_def)
  have path: "resolve_path None (output_dir output_default) = [''.'', ''output'']" by code_simp
  have prep: "prepare_output_directory [''.'', ''output''] (overwrite_files output_default) Map.empty = Inr ?fs"
    by (simp add: prepare_output_directory_def create_dir_all_def is_dir_or_free_def)
  have iters: "create_dir_all [''.'', ''output'', ''ITERS''] ?fs = Some ?iters"
    by (auto simp: create_dir_all_def is_dir_or_free_def fun_eq_iff prefix_Cons)
  let ?c = "(ctl_process_event (Startup True) (ex_controller\<lparr>ctl_events_state := state_reset_iteration 0 (ctl_events_state ex_controller)\<rparr>))\<lparr>ctl_files := ?iters\<rparr>"
  have "ctl_population ?c = [''p'' \<mapsto> ex_stayer]" by (simp add: ex_controller_def)
  then obtain d x where d: "run_iteration ex_phases ex_controller_config [''.'', ''output'', ''ITERS''] 0 0 ?c = Some d"
    "ctl_files d = (\<lambda>r. if prefix r [''.'', ''output'', ''ITERS'', ''it.0''] then Some Directory else None)
       ([''.'', ''output'', ''ITERS'', ''it.0'', ''output_plans.xml''] \<mapsto> x)"
    using ex_run_iteration[of ?c] by auto
  have "ex_ready (ctl_files d)" by (simp add: d ex_ready_def)
  then obtain d' where "write_outputs ex_controller_config [''.'', ''output''] d = Some d'" using ex_write_outputs by blast
  then show ?thesis
    using d(1) prep iters range path cc
    by (simp add: controller_run_def output_default_def Let_def ex_controller_def)
qed

lemma ex_controller_parts:
  "cfg_controller (ctl_config ex_controller) = Some ex_controller_config"
  "cfg_output (ctl_config ex_controller) = Some output_default"
  "ctl_population ex_controller = [''p'' \<mapsto> ex_stayer]" "cfg_context (ctl_config ex_controller) = None"
  by (simp_all add: ex_controller_def cfg_controller_def cfg_output_def)

theorem controller_keeps_persons_witness:
  "\<exists>c'. controller_run ex_phases ex_controller = Some c' \<and> dom (ctl_population c') = {''p''} \<and>
     ctl_files c' (resolve_path None ''./output'' @ [''output_plans.xml'']) = Some (PlansFile (ctl_population c'))"
proof -
  obtain c' where run: "controller_run ex_phases ex_controller = Some c'" using ex_controller_run by blast
  have one: "one_partition (pc_network ex_context) 0"
    by (auto simp: one_partition_def ex_context_def ex_net_def node_new_def link_new_def split: if_splits)
  have inv: "population_inv (ctl_population ex_controller)"
    by (simp add: ex_controller_parts population_inv_def ex_stayer_def person_new_def)
  have "from_replanning_config ex_replanning \<noteq> None"
    by (simp add: ex_replanning_def finite_replanning_def from_replanning_config_def replanning_default_def weights_from_settings_def assert_known_strategy_name_def selector_from_str_def)
  then have pool: "replanning_pool_new ex_replanning 0 0 = Some ex_pool"
    by (auto simp: replanning_pool_new_def ex_pool_def) (simp add: ex_replanning_def finite_replanning_def replanning_default_def)
  have pord: "hash_order (sorted_list_of_set :: string set \<Rightarrow> _)" by (rule sorted_order.hash_order_axioms)
  have ord: "hash_order (ho_parts ex_orders)" and od: "hash_order (ho_links ex_orders)"
    by (simp_all add: sorted_order.hash_order_axioms)
  show ?thesis
    using controller_keeps_persons[OF run ex_controller_parts(1,2) one inv pool pord ord od] run
    by (simp add: ex_controller_parts output_default_def ex_controller_config_def with_extension_def)
qed

theorem controller_events_witness:
  "\<exists>c'. controller_run ex_phases ex_controller = Some c' \<and> map payload (ctl_events c') =
     [Startup True, IterationStarts True, BeforeMobsim True, AfterMobsim True, Scoring True, IterationEnds True, Shutdown True]"
proof -
  obtain c' where run: "controller_run ex_phases ex_controller = Some c'" using ex_controller_run by blast
  have "ctl_events ex_controller = []" by (simp add: ex_controller_def)
  from controller_events[OF run ex_controller_parts(1) this] show ?thesis
    using run by (simp add: stamped_payload iteration_events_def ex_controller_config_def controller_default_def)
qed

end
